(* ===== verification/Wldbg_Prelude.thy ===== *)
theory Wldbg_Prelude
  imports Main "HOL-Library.Word"
begin

text \<open>
  Shared ground of the development: the machine integers, the result type of code that can
  fault, byte-addressed loads and stores, C strings, the decimal and hexadecimal output of
  \<^verbatim>\<open>printf\<close> and the \<^verbatim>\<open>ctype.h\<close> predicates, with the lemmas the components share.

  A C object is a list of bytes and a pointer into it is a byte offset.  An access outside the
  object is not given a made-up value: it is the fault \<open>OutOfBounds\<close>.  Words are stored little
  endian, as on the machines the program is built for (the wire format is in host order).
\<close>

section \<open>Machine integers and faults\<close>

type_synonym u8 = "8 word"
type_synonym u32 = "32 word"
type_synonym u64 = "64 word"
type_synonym bytes = "u8 list"

text \<open>
  What C leaves undefined, what ends the process and what never returns.  Ordinary error returns
  of the code (\<open>-1\<close>, \<open>NULL\<close>) are not faults: they are values of each function's own result.
\<close>

datatype fault =
    OutOfBounds     \<comment> \<open>access outside an object\<close>
  | NullDeref       \<comment> \<open>access through a null pointer\<close>
  | UninitRead      \<comment> \<open>use of memory that was never written\<close>
  | UseAfterFree    \<comment> \<open>access to, or release of, memory that was freed\<close>
  | TypeConfusion   \<comment> \<open>an object used at another struct type\<close>
  | AssertFailed    \<comment> \<open>a failing \<open>assert\<close>\<close>
  | Aborted         \<comment> \<open>\<open>abort ()\<close>\<close>
  | Hang            \<comment> \<open>a loop that never ends\<close>

type_synonym 'a res = "fault + 'a"

named_theorems res_simps "rewriting of sequenced computations that may fault"

definition rbind :: "'a res \<Rightarrow> ('a \<Rightarrow> 'b res) \<Rightarrow> 'b res" where
  "rbind m f = (case m of Inl e \<Rightarrow> Inl e | Inr a \<Rightarrow> f a)"

lemma rbind_Inr [simp, res_simps]: "rbind (Inr a) f = f a"
  by (simp add: rbind_def)

lemma rbind_Inl [simp, res_simps]: "rbind (Inl e) f = Inl e"
  by (simp add: rbind_def)

lemma rbind_eq_Inr [res_simps]: "rbind m f = Inr b \<longleftrightarrow> (\<exists>a. m = Inr a \<and> f a = Inr b)"
  by (cases m) auto

lemma rbind_eq_Inl [res_simps]:
  "rbind m f = Inl e \<longleftrightarrow> m = Inl e \<or> (\<exists>a. m = Inr a \<and> f a = Inl e)"
  by (cases m) auto

lemma rbind_assoc: "rbind (rbind m f) g = rbind m (\<lambda>x. rbind (f x) g)"
  by (cases m) simp_all

lemma rbind_cong [fundef_cong]:
  "m = m' \<Longrightarrow> (\<And>a. m' = Inr a \<Longrightarrow> f a = f' a) \<Longrightarrow> rbind m f = rbind m' f'"
  by (cases m') simp_all

definition rassert :: "bool \<Rightarrow> unit res" where
  "rassert b = (if b then Inr () else Inl AssertFailed)"

lemma rassert_True [simp, res_simps]: "rassert True = Inr ()"
  by (simp add: rassert_def)

lemma rassert_eq_Inr [res_simps]: "rassert b = Inr u \<longleftrightarrow> b"
  by (simp add: rassert_def)

definition nth_res :: "'a list \<Rightarrow> nat \<Rightarrow> 'a res" where
  "nth_res xs i = (if i < length xs then Inr (xs ! i) else Inl OutOfBounds)"

lemma nth_res_in [simp]: "i < length xs \<Longrightarrow> nth_res xs i = Inr (xs ! i)"
  by (simp add: nth_res_def)

lemma nth_res_eq_Inr [res_simps]: "nth_res xs i = Inr x \<longleftrightarrow> i < length xs \<and> x = xs ! i"
  by (auto simp: nth_res_def)

section \<open>Bytes and words\<close>

lemma unat_u8_less [simp]: "unat (b :: u8) < 256"
  using unsigned_less [of b, where ?'a = nat] by simp

lemma unat_u32_less: "unat (w :: u32) < 4294967296"
  using unsigned_less [of w, where ?'a = nat] by simp

fun le_val :: "bytes \<Rightarrow> nat" where
  "le_val [] = 0"
| "le_val (b # bs) = unat b + 256 * le_val bs"

fun le_bytes :: "nat \<Rightarrow> nat \<Rightarrow> bytes" where
  "le_bytes 0 v = []"
| "le_bytes (Suc n) v = word_of_nat v # le_bytes n (v div 256)"

lemma length_le_bytes [simp]: "length (le_bytes n v) = n"
  by (induction n arbitrary: v) simp_all

lemma le_val_le_bytes: "le_val (le_bytes n v) = v mod 256 ^ n"
proof (induction n arbitrary: v)
  case 0
  show ?case by simp
next
  case (Suc n)
  have "le_val (le_bytes (Suc n) v) = v mod 256 + 256 * (v div 256 mod 256 ^ n)"
    by (simp add: Suc unat_of_nat)
  also have "\<dots> = v mod (256 * 256 ^ n)"
    by (simp add: mod_mult2_eq)
  finally show ?case by simp
qed

lemma le_val_less: "le_val bs < 256 ^ length bs"
proof (induction bs)
  case (Cons b bs)
  have "256 * Suc (le_val bs) \<le> 256 * 256 ^ length bs"
    using Cons by (intro mult_le_mono2) simp
  moreover have "unat b < 256" by (rule unat_u8_less)
  ultimately have "unat b + 256 * le_val bs < 256 * 256 ^ length bs"
    by (simp only: mult_Suc_right)
  then show ?case by simp
qed simp

lemma le_bytes_le_val: "le_bytes (length bs) (le_val bs) = bs"
proof (induction bs)
  case (Cons b bs)
  have b: "unat b < 256" by simp
  have "(unat b + 256 * le_val bs) div 256 = le_val bs" using b by simp
  moreover have "word_of_nat (unat b + 256 * le_val bs) = b"
  proof -
    have z: "(256 :: u8) = 0" by simp
    show ?thesis by (simp only: of_nat_add of_nat_mult of_nat_numeral z) simp
  qed
  ultimately show ?case using Cons by simp
qed simp

definition load32 :: "bytes \<Rightarrow> nat \<Rightarrow> u32 res" where
  "load32 m off =
     (if off + 4 \<le> length m then Inr (word_of_nat (le_val (take 4 (drop off m))))
      else Inl OutOfBounds)"

definition bytes32 :: "u32 \<Rightarrow> bytes" where
  "bytes32 w = le_bytes 4 (unat w)"

definition words_bytes :: "u32 list \<Rightarrow> bytes" where
  "words_bytes ws = concat (map bytes32 ws)"

lemma length_bytes32 [simp]: "length (bytes32 w) = 4"
  by (simp add: bytes32_def)

lemma words_bytes_Nil [simp]: "words_bytes [] = []"
  by (simp add: words_bytes_def)

lemma words_bytes_Cons [simp]: "words_bytes (w # ws) = bytes32 w @ words_bytes ws"
  by (simp add: words_bytes_def)

lemma words_bytes_append [simp]: "words_bytes (xs @ ys) = words_bytes xs @ words_bytes ys"
  by (simp add: words_bytes_def)

lemma length_words_bytes [simp]: "length (words_bytes ws) = 4 * length ws"
  by (induction ws) simp_all

lemma load32_bytes32: "load32 (bytes32 w @ m) 0 = Inr w"
proof -
  have "unat w < 256 ^ 4" using unat_u32_less [of w] by simp
  then show ?thesis by (simp add: load32_def bytes32_def le_val_le_bytes)
qed

lemma load32_append_right: "length xs \<le> off \<Longrightarrow> load32 (xs @ m) off = load32 m (off - length xs)"
  by (auto simp: load32_def)

lemma load32_append_left: "off + 4 \<le> length m \<Longrightarrow> load32 (m @ ys) off = load32 m off"
  by (simp add: load32_def)

lemma load32_drop: "load32 (drop k m) off = load32 m (k + off)"
  by (auto simp: load32_def add.commute)

lemma load32_take: "off + 4 \<le> k \<Longrightarrow> k \<le> length m \<Longrightarrow> load32 (take k m) off = load32 m off"
  by (simp add: load32_def drop_take min_def)

lemma load32_in: "off + 4 \<le> length m \<Longrightarrow> \<exists>w. load32 m off = Inr w"
  by (simp add: load32_def)

lemma load32_words_bytes:
  "i < length ws \<Longrightarrow> load32 (words_bytes ws @ m) (4 * i) = Inr (ws ! i)"
proof (induction ws arbitrary: i)
  case (Cons w ws)
  show ?case
  proof (cases i)
    case 0
    then show ?thesis by (simp add: load32_bytes32)
  next
    case (Suc j)
    then have "load32 (words_bytes (w # ws) @ m) (4 * i) = load32 (words_bytes ws @ m) (4 * j)"
      by (simp add: load32_append_right)
    with Cons Suc show ?thesis by simp
  qed
qed simp

text \<open>\<open>DIV_ROUNDUP\<close> of \<^verbatim>\<open>src/util.h\<close> and \<^verbatim>\<open>wayland/connection.c\<close>, at \<open>a = 4\<close> and without the
  wrap-around of a size near \<open>2 ^ 32\<close>; \<open>div_roundup32\<close> is the code's computation in
  \<open>uint32_t\<close> when the dividend is one.\<close>

definition div_roundup4 :: "nat \<Rightarrow> nat" where
  "div_roundup4 n = (n + 3) div 4"

lemma div_roundup4_bounds: "n \<le> 4 * div_roundup4 n" "4 * div_roundup4 n < n + 4"
  by (simp_all add: div_roundup4_def)

section \<open>C strings\<close>

text \<open>A string of the program is its characters before the terminating nul; a pointer into a
  string is the rest of it.  The empty rest is a pointer to the nul itself.\<close>

definition nul :: char where
  "nul = CHR 0x00"

definition chr_at :: "string \<Rightarrow> char" where
  "chr_at s = (case s of [] \<Rightarrow> nul | c # _ \<Rightarrow> c)"

lemma chr_at_simps [simp]: "chr_at [] = nul" "chr_at (c # s) = c"
  by (simp_all add: chr_at_def)

fun c_str :: "bytes \<Rightarrow> string res" where
  "c_str [] = Inl OutOfBounds"
| "c_str (b # bs) =
     (if b = 0 then Inr [] else rbind (c_str bs) (\<lambda>s. Inr (char_of (unat b) # s)))"

definition str_bytes :: "string \<Rightarrow> bytes" where
  "str_bytes s = map (\<lambda>c. word_of_nat (of_char c)) s"

lemma unat_of_char_byte: "unat (word_of_nat (of_char c) :: u8) = of_char c"
proof -
  have "(of_char c :: nat) < 256" by simp
  then show ?thesis by (simp add: unat_of_nat)
qed

lemma c_str_str_bytes: "nul \<notin> set s \<Longrightarrow> c_str (str_bytes s @ 0 # m) = Inr s"
proof (induction s)
  case (Cons c s)
  have "of_char c \<noteq> (0 :: nat)"
    using Cons.prems of_char_eq_iff [of c "CHR 0x00", where ?'a = nat] by (auto simp: nul_def)
  then have "(word_of_nat (of_char c) :: u8) \<noteq> 0"
    using unat_of_char_byte [of c] by auto
  with Cons show ?case by (simp add: str_bytes_def unat_of_char_byte)
qed (simp add: str_bytes_def)

text \<open>\<open>strncmp (a, b, n) == 0\<close> on strings without inner nuls.\<close>

definition strncmp_eq :: "string \<Rightarrow> string \<Rightarrow> nat \<Rightarrow> bool" where
  "strncmp_eq a b n \<longleftrightarrow> take n a = take n b"

definition is_space :: "char \<Rightarrow> bool" where
  "is_space c \<longleftrightarrow> c \<in> {CHR '' '', CHR 0x09, CHR 0x0A, CHR 0x0B, CHR 0x0C, CHR 0x0D}"

definition is_digit :: "char \<Rightarrow> bool" where
  "is_digit c \<longleftrightarrow> 48 \<le> (of_char c :: nat) \<and> (of_char c :: nat) \<le> 57"

definition is_alpha :: "char \<Rightarrow> bool" where
  "is_alpha c \<longleftrightarrow> (65 \<le> (of_char c :: nat) \<and> (of_char c :: nat) \<le> 90) \<or>
                (97 \<le> (of_char c :: nat) \<and> (of_char c :: nat) \<le> 122)"

lemma nul_classes [simp]: "\<not> is_space nul" "\<not> is_digit nul" "\<not> is_alpha nul"
  by (simp_all add: nul_def is_space_def is_digit_def is_alpha_def)

lemma space_not_digit: "is_space c \<Longrightarrow> \<not> is_digit c"
  by (auto simp: is_space_def is_digit_def)

lemma space_not_alpha: "is_space c \<Longrightarrow> \<not> is_alpha c"
  by (auto simp: is_space_def is_alpha_def)

section \<open>Numbers in text\<close>

definition digit_char :: "nat \<Rightarrow> char" where
  "digit_char d = char_of (if d < 10 then 48 + d else 87 + d)"

fun show_base :: "nat \<Rightarrow> nat \<Rightarrow> string" where
  "show_base b n =
     (if b < 2 \<or> n < b then [digit_char n] else show_base b (n div b) @ [digit_char (n mod b)])"

declare show_base.simps [simp del]

definition show_nat :: "nat \<Rightarrow> string" where
  "show_nat = show_base 10"

definition show_hex :: "nat \<Rightarrow> string" where
  "show_hex = show_base 16"

definition show_int :: "int \<Rightarrow> string" where
  "show_int i = (if i < 0 then CHR ''-'' # show_nat (nat (- i)) else show_nat (nat i))"

text \<open>The value of a run of decimal digits, as \<^verbatim>\<open>strtol\<close> accumulates it.\<close>

definition digit_val :: "char \<Rightarrow> nat" where
  "digit_val c = of_char c - 48"

definition dec_val :: "string \<Rightarrow> nat" where
  "dec_val s = foldl (\<lambda>acc c. 10 * acc + digit_val c) 0 s"

lemma is_digit_digit_char: "d < 10 \<Longrightarrow> is_digit (digit_char d)"
  by (simp add: is_digit_def digit_char_def)

lemma digit_val_digit_char: "d < 10 \<Longrightarrow> digit_val (digit_char d) = d"
  by (simp add: digit_val_def digit_char_def)

lemma dec_val_snoc [simp]: "dec_val (s @ [c]) = 10 * dec_val s + digit_val c"
  by (simp add: dec_val_def)

lemma dec_val_show_nat: "dec_val (show_nat n) = n"
proof (induction n rule: less_induct)
  case (less n)
  show ?case
  proof (cases "n < 10")
    case True
    then show ?thesis
      by (simp add: show_nat_def show_base.simps [of 10 n] dec_val_def digit_val_digit_char)
  next
    case False
    then have "dec_val (show_nat (n div 10)) = n div 10" by (intro less) simp
    with False show ?thesis
      by (simp add: show_nat_def show_base.simps [of 10 n] digit_val_digit_char)
  qed
qed

lemma show_nat_digits: "\<forall>c \<in> set (show_nat n). is_digit c"
proof (induction n rule: less_induct)
  case (less n)
  show ?case
  proof (cases "n < 10")
    case True
    then show ?thesis by (simp add: show_nat_def show_base.simps [of 10 n] is_digit_digit_char)
  next
    case False
    then have "\<forall>c \<in> set (show_nat (n div 10)). is_digit c" by (intro less) simp
    with False show ?thesis
      by (auto simp: show_nat_def show_base.simps [of 10 n] is_digit_digit_char)
  qed
qed

lemma show_nat_not_Nil [simp]: "show_nat n \<noteq> []"
  by (simp add: show_nat_def show_base.simps [of 10 n])

text \<open>\<open>snprintf (buf, n, ...)\<close>: at most \<open>n - 1\<close> characters are stored, and the length of
  the whole text is returned.\<close>

definition snprintf :: "nat \<Rightarrow> string \<Rightarrow> string \<times> nat" where
  "snprintf n s = (take (n - 1) s, length s)"

section \<open>Lists\<close>

lemma dropWhile_append_all: "\<forall>x \<in> set xs. P x \<Longrightarrow> dropWhile P (xs @ ys) = dropWhile P ys"
  by (induction xs) auto

lemma takeWhile_append_all:
  "\<forall>x \<in> set xs. P x \<Longrightarrow> takeWhile P (xs @ ys) = xs @ takeWhile P ys"
  by (induction xs) auto

lemma chr_at_dropWhile: "chr_at (dropWhile P s) = nul \<or> \<not> P (chr_at (dropWhile P s))"
  by (induction s) auto

text \<open>\<open>wl_list_insert (list->next, elm)\<close>, the idiom by which the program adds a pass, an
  interface, a breakpoint, a filter and an autocommand: the new element goes after the first one,
  or becomes the only one.\<close>

fun insert_after_first :: "'a \<Rightarrow> 'a list \<Rightarrow> 'a list" where
  "insert_after_first x [] = [x]"
| "insert_after_first x (y # ys) = y # x # ys"

lemma set_insert_after_first [simp]: "set (insert_after_first x xs) = insert x (set xs)"
  by (cases xs) auto

lemma length_insert_after_first [simp]: "length (insert_after_first x xs) = Suc (length xs)"
  by (cases xs) auto

lemma distinct_insert_after_first [simp]:
  "distinct (insert_after_first x xs) \<longleftrightarrow> x \<notin> set xs \<and> distinct xs"
  by (cases xs) auto

lemma map_insert_after_first:
  "map f (insert_after_first x xs) = insert_after_first (f x) (map f xs)"
  by (cases xs) auto

lemma hd_insert_after_first: "xs \<noteq> [] \<Longrightarrow> hd (insert_after_first x xs) = hd xs"
  by (cases xs) auto

lemma last_insert_after_first:
  "2 \<le> length xs \<Longrightarrow> last (insert_after_first x xs) = last xs"
  by (cases xs rule: list.exhaust) (auto simp: Suc_le_eq)

text \<open>The removal loops of the program: \<open>wl_list_for_each_safe\<close> that unlinks the first match and
  stops.\<close>

fun remove_first :: "('a \<Rightarrow> bool) \<Rightarrow> 'a list \<Rightarrow> 'a list" where
  "remove_first P [] = []"
| "remove_first P (x # xs) = (if P x then xs else x # remove_first P xs)"

lemma set_remove_first_subset: "set (remove_first P xs) \<subseteq> set xs"
  by (induction xs) auto

lemma remove_first_none: "\<forall>x \<in> set xs. \<not> P x \<Longrightarrow> remove_first P xs = xs"
  by (induction xs) auto

lemma distinct_map_remove_first: "distinct (map f xs) \<Longrightarrow> distinct (map f (remove_first P xs))"
proof (induction xs)
  case (Cons x xs)
  have "set (remove_first P xs) \<subseteq> set xs" by (rule set_remove_first_subset)
  with Cons show ?case by auto
qed simp

lemma remove_first_by_key:
  "distinct (map f xs) \<Longrightarrow> remove_first (\<lambda>x. f x = k) xs = filter (\<lambda>x. f x \<noteq> k) xs"
proof (induction xs)
  case (Cons x xs)
  have "filter (\<lambda>y. f y \<noteq> f x) xs = xs" using Cons.prems by (intro filter_True) (auto simp: image_iff)
  with Cons show ?case by auto
qed simp

section \<open>The second word of a header\<close>

unbundle bit_operations_syntax

text \<open>It holds the size of the message above and its opcode below bit 16.\<close>

lemma header_parts:
  assumes "n < 2 ^ 16"
  shows "unat (drop_bit 16 (push_bit 16 (of_nat n) OR (op AND 0xffff)) :: u32) = n"
    "(push_bit 16 sz OR (op AND 0xffff)) AND 0xffff = op AND (0xffff :: u32)"
proof -
  have m: "(0xffff :: u32) = mask 16" by (simp add: mask_eq_exp_minus_1)
  have n: "unat (of_nat n :: u32) = n" using assms by (simp add: unat_of_nat)
  have "(of_nat n :: u32) = take_bit 16 (of_nat n)"
    using assms by (simp add: word_unat_eq_iff n unsigned_take_bit_eq take_bit_nat_eq_self)
  moreover have "drop_bit 16 (push_bit 16 (take_bit 16 (x :: u32)) OR (op AND mask 16)) = take_bit 16 x" for x
    by (rule bit_word_eqI)
       (simp only: bit_drop_bit_eq comp_apply bit_or_iff bit_and_iff bit_push_bit_iff bit_mask_iff bit_take_bit_iff,
         auto simp: possible_bit_word)
  ultimately have "drop_bit 16 (push_bit 16 (of_nat n) OR (op AND 0xffff)) = (of_nat n :: u32)" unfolding m by metis
  then show "unat (drop_bit 16 (push_bit 16 (of_nat n) OR (op AND 0xffff)) :: u32) = n" using n by simp
  show "(push_bit 16 sz OR (op AND 0xffff)) AND 0xffff = op AND (0xffff :: u32)"
    unfolding m by (rule bit_word_eqI) (auto simp only: bit_or_iff bit_and_iff bit_push_bit_iff bit_mask_iff)
qed

end
