(* ===== verification/Wl_Array.thy ===== *)
theory Wl_Array
  imports Wldbg_Prelude
begin

text \<open>
  The growable array of \<^verbatim>\<open>wayland/wayland-util.c\<close> (\<open>wl_array_init\<close>, \<open>wl_array_add\<close>,
  \<open>wl_array_copy\<close>), as the program uses it: an array of pointer-sized cells.

  \<open>arr_size\<close> and \<open>arr_alloc\<close> are the byte counts of the C struct, in \<open>size_t\<close>.
  \<open>arr_data\<close> is the allocated block, one list element per eight-byte cell.
  Whether an allocation succeeds (\<open>mem_ok\<close>) and what fresh memory holds (\<open>junk\<close>) are parameters.
  The doubling loop is a \<open>partial_function\<close>: not returning is \<open>None\<close>, and the lemmas say
  exactly when that happens.
\<close>

record 'a wl_array =
  arr_size :: u64
  arr_alloc :: u64
  arr_data :: "'a list"

definition cell_bytes :: nat where
  "cell_bytes = 8"

definition wl_array_init :: "'a wl_array" where
  "wl_array_init = \<lparr>arr_size = 0, arr_alloc = 0, arr_data = []\<rparr>"

partial_function (option) grow_alloc :: "u64 \<Rightarrow> u64 \<Rightarrow> u64 option" where
  "grow_alloc alloc need =
     (if alloc < need then grow_alloc (alloc * 2) need else Some alloc)"

definition wl_array_add ::
    "(u64 \<Rightarrow> bool) \<Rightarrow> 'a \<Rightarrow> 'a wl_array \<Rightarrow> u64 \<Rightarrow> (nat option \<times> 'a wl_array) res" where
  "wl_array_add mem_ok junk a sz =
     (let alloc0 = (if 0 < arr_alloc a then arr_alloc a else 16) in
      case grow_alloc alloc0 (arr_size a + sz) of
        None \<Rightarrow> Inl Hang
      | Some alloc \<Rightarrow>
          if arr_alloc a < alloc then
            if mem_ok alloc then
              Inr (Some (unat (arr_size a)),
                   \<lparr>arr_size = arr_size a + sz, arr_alloc = alloc,
                    arr_data = arr_data a @
                      replicate (unat alloc div cell_bytes - length (arr_data a)) junk\<rparr>)
            else Inr (None, a)
          else Inr (Some (unat (arr_size a)), a\<lparr>arr_size := arr_size a + sz\<rparr>))"

definition wl_array_copy ::
    "(u64 \<Rightarrow> bool) \<Rightarrow> 'a \<Rightarrow> 'a wl_array \<Rightarrow> 'a wl_array \<Rightarrow> (int \<times> 'a wl_array) res" where
  "wl_array_copy mem_ok junk a source =
     rbind (if arr_size a < arr_size source
            then wl_array_add mem_ok junk a (arr_size source - arr_size a)
            else Inr (Some 0, a\<lparr>arr_size := arr_size source\<rparr>))
       (\<lambda>(p, a'). case p of
            None \<Rightarrow> Inr (-1, a')
          | Some _ \<Rightarrow>
              let n = unat (arr_size source) div cell_bytes in
              if n \<le> length (arr_data source) \<and> n \<le> length (arr_data a') then
                Inr (0, a'\<lparr>arr_data := take n (arr_data source) @ drop n (arr_data a')\<rparr>)
              else Inl OutOfBounds)"

section \<open>Well-formed arrays\<close>

text \<open>What every array built by these operations satisfies: the block is empty or a power of two,
  the bytes in use fit it, and the cells are whole.\<close>

definition arr_wf :: "'a wl_array \<Rightarrow> bool" where
  "arr_wf a \<longleftrightarrow>
     (arr_alloc a = 0 \<or> (\<exists>k. 4 \<le> k \<and> k \<le> 63 \<and> unat (arr_alloc a) = 2 ^ k)) \<and>
     unat (arr_size a) \<le> unat (arr_alloc a) \<and>
     length (arr_data a) * cell_bytes = unat (arr_alloc a)"

lemma arr_wf_init: "arr_wf wl_array_init"
  by (simp add: arr_wf_def wl_array_init_def)

lemma unat_double: "unat (a :: u64) < 2 ^ 63 \<Longrightarrow> unat (a * 2) = 2 * unat a"
  by (simp add: unat_word_ariths)

text \<open>The doubling loop: it stops at the least power of two that is large enough, whenever the
  request is at most \<open>2 ^ 63\<close> bytes.\<close>

lemma grow_alloc_Some:
  assumes "unat a = 2 ^ k" "k \<le> 63" "unat need \<le> 2 ^ 63"
  shows "\<exists>j r. k \<le> j \<and> j \<le> 63 \<and> grow_alloc a need = Some r \<and> unat r = 2 ^ j \<and>
           unat need \<le> 2 ^ j \<and> (\<forall>i. k \<le> i \<and> i < j \<longrightarrow> 2 ^ i < unat need)"
  using assms
proof (induction "63 - k" arbitrary: a k)
  case 0
  then have "k = 63" by simp
  with 0 have "\<not> a < need" by (simp add: word_less_nat_alt)
  then have "grow_alloc a need = Some a" by (subst grow_alloc.simps) simp
  with 0 \<open>k = 63\<close> show ?case by (intro exI [of _ 63] exI [of _ a]) auto
next
  case (Suc n)
  show ?case
  proof (cases "a < need")
    case False
    then have "grow_alloc a need = Some a" by (subst grow_alloc.simps) simp
    with Suc.prems False show ?thesis
      by (intro exI [of _ k] exI [of _ a]) (auto simp: word_less_nat_alt)
  next
    case True
    from Suc.hyps(2) have k: "k < 63" by simp
    have "(2 :: nat) ^ k < 2 ^ 63" using k by (intro power_strict_increasing) auto
    with Suc.prems(1) have d: "unat (a * 2) = 2 ^ Suc k" by (simp add: unat_double)
    have eq: "grow_alloc a need = grow_alloc (a * 2) need"
      using True by (subst grow_alloc.simps) simp
    have n: "n = 63 - Suc k" and k63: "Suc k \<le> 63" using Suc.hyps(2) k by simp_all
    obtain j r where j: "Suc k \<le> j" "j \<le> 63" "grow_alloc (a * 2) need = Some r" "unat r = 2 ^ j"
        "unat need \<le> 2 ^ j" "\<forall>i. Suc k \<le> i \<and> i < j \<longrightarrow> 2 ^ i < unat need"
      using Suc.hyps(1) [OF n d k63 Suc.prems(3)] by blast
    have "\<forall>i. k \<le> i \<and> i < j \<longrightarrow> 2 ^ i < unat need"
      using j(6) True Suc.prems(1) by (metis le_antisym not_less_eq_eq word_less_nat_alt)
    with j eq show ?thesis by (intro exI [of _ j] exI [of _ r]) simp
  qed
qed

text \<open>Beyond \<open>2 ^ 63\<close> bytes the product wraps to zero and the loop never ends.\<close>

lemma grow_alloc_None:
  assumes "unat a = 2 ^ k \<or> a = 0" "2 ^ 63 < unat need"
  shows "grow_alloc a need = None"
proof (rule ccontr)
  assume "grow_alloc a need \<noteq> None"
  then obtain r where r: "grow_alloc a need = Some r" by auto
  have "\<not> (((\<exists>k. unat a = 2 ^ k) \<or> a = 0) \<and> 2 ^ 63 < unat need)"
  proof (rule grow_alloc.raw_induct
      [where P = "\<lambda>a n r. \<not> (((\<exists>k. unat a = 2 ^ k) \<or> a = 0) \<and> 2 ^ 63 < unat n)", OF _ r])
    fix f :: "u64 \<Rightarrow> u64 \<Rightarrow> u64 option" and a n r
    assume IH: "\<And>a n r. f a n = Some r \<Longrightarrow>
        \<not> (((\<exists>k. unat a = 2 ^ k) \<or> a = 0) \<and> 2 ^ 63 < unat n)"
      and eq: "(if a < n then f (a * 2) n else Some a) = Some r"
    show "\<not> (((\<exists>k. unat a = 2 ^ k) \<or> a = 0) \<and> 2 ^ 63 < unat n)"
    proof
      assume hyp: "((\<exists>k. unat a = 2 ^ k) \<or> a = 0) \<and> 2 ^ 63 < unat n"
      have bound: "unat a \<le> 2 ^ 63"
      proof (cases "a = 0")
        case False
        with hyp obtain k where k: "unat a = 2 ^ k" by auto
        then have "(2 :: nat) ^ k < 2 ^ 64"
          using unsigned_less [of a, where ?'a = nat] by simp
        then have "k < 64" using power_less_imp_less_exp [of "2 :: nat" k 64] by simp
        then show ?thesis using k power_increasing [of k 63 "2 :: nat"] by simp
      qed simp
      with hyp have "a < n" by (simp add: word_less_nat_alt)
      with eq have "f (a * 2) n = Some r" by simp
      moreover have "(\<exists>k. unat (a * 2) = 2 ^ k) \<or> a * 2 = 0"
      proof (cases "unat a < 2 ^ 63")
        case True
        then show ?thesis using hyp by (metis unat_double power_Suc mult_zero_left)
      next
        case False
        with bound have "unat a = 2 ^ 63" by simp
        then have "unat (a * 2) = 0" by (simp add: unat_word_ariths)
        then show ?thesis by (simp add: unat_eq_0)
      qed
      ultimately show False using IH hyp by blast
    qed
  qed
  with assms show False by auto
qed

text \<open>The contract of \<open>wl_array_add\<close> on a well-formed array: within the address range it returns,
  and then either memory ran out and nothing changed, or the array grew by exactly the request and
  the old cells are where they were.\<close>

lemma wl_array_add_cases:
  assumes wf: "arr_wf a" and fits: "unat (arr_size a) + unat sz \<le> 2 ^ 63"
  obtains (oom) alloc where "wl_array_add mem_ok junk a sz = Inr (None, a)" "\<not> mem_ok alloc"
  | (added) a' cells where
      "wl_array_add mem_ok junk a sz = Inr (Some (unat (arr_size a)), a')" "arr_wf a'"
      "unat (arr_size a') = unat (arr_size a) + unat sz"
      "arr_data a' = arr_data a @ cells"
proof -
  define alloc0 where "alloc0 = (if 0 < arr_alloc a then arr_alloc a else 16)"
  have need: "unat (arr_size a + sz) = unat (arr_size a) + unat sz"
    using fits by (simp add: unat_word_ariths)
  obtain k where k: "4 \<le> k" "k \<le> 63" "unat alloc0 = 2 ^ k"
  proof (cases "arr_alloc a = 0")
    case True
    then show ?thesis by (intro that [of 4]) (simp_all add: alloc0_def)
  next
    case False
    then show ?thesis using wf that by (auto simp: arr_wf_def alloc0_def word_neq_0_conv)
  qed
  from grow_alloc_Some [OF k(3,2)] fits need obtain j r where
    j: "k \<le> j" "j \<le> 63" "grow_alloc alloc0 (arr_size a + sz) = Some r" "unat r = 2 ^ j"
       "unat (arr_size a + sz) \<le> 2 ^ j"
    by metis
  show thesis
  proof (cases "arr_alloc a < r")
    case less: True
    show thesis
    proof (cases "mem_ok r")
      case False
      have "wl_array_add mem_ok junk a sz = Inr (None, a)"
        using j(3) less False by (simp add: wl_array_add_def alloc0_def [symmetric])
      then show thesis using False by (rule oom)
    next
      case True
      have eq: "wl_array_add mem_ok junk a sz =
          Inr (Some (unat (arr_size a)),
               \<lparr>arr_size = arr_size a + sz, arr_alloc = r,
                arr_data = arr_data a @
                  replicate (unat r div cell_bytes - length (arr_data a)) junk\<rparr>)"
        using j(3) less True by (simp add: wl_array_add_def alloc0_def [symmetric])
      have dvd: "8 dvd (2 :: nat) ^ j"
        using j(1) k(1) le_imp_power_dvd [of 3 j "2 :: nat"] by simp
      have "length (arr_data a) \<le> unat r div 8"
        using less wf by (simp add: arr_wf_def cell_bytes_def word_less_nat_alt) linarith
      then have "arr_wf \<lparr>arr_size = arr_size a + sz, arr_alloc = r,
                arr_data = arr_data a @
                  replicate (unat r div cell_bytes - length (arr_data a)) junk\<rparr>"
        using j k(1) dvd by (auto simp: arr_wf_def cell_bytes_def)
      with eq show thesis by (rule added) (simp_all add: need)
    qed
  next
    case False
    have eq: "wl_array_add mem_ok junk a sz =
        Inr (Some (unat (arr_size a)), a\<lparr>arr_size := arr_size a + sz\<rparr>)"
      using j(3) False by (simp add: wl_array_add_def alloc0_def [symmetric])
    have "arr_wf (a\<lparr>arr_size := arr_size a + sz\<rparr>)"
      using wf j(4,5) False by (simp add: arr_wf_def word_less_nat_alt not_less)
    with eq show thesis by (rule added) (simp_all add: need)
  qed
qed

section \<open>Properties\<close>

text \<open>On a well-formed array \<open>wl_array_add\<close> returns unless the array would have to grow
  beyond \<open>2 ^ 63\<close> bytes, and then the doubling loop never ends.\<close>

theorem wl_array_add_hangs_iff:
  assumes "arr_wf a" "unat (arr_size a) + unat sz < 2 ^ 64"
  shows "wl_array_add mem_ok junk a sz = Inl Hang \<longleftrightarrow> 2 ^ 63 < unat (arr_size a) + unat sz"
proof (cases "unat (arr_size a) + unat sz \<le> 2 ^ 63")
  case True
  from assms(1) True show ?thesis
    by (cases rule: wl_array_add_cases [where mem_ok = mem_ok and junk = junk]) (use True in auto)
next
  case False
  let ?alloc = "if 0 < arr_alloc a then arr_alloc a else 16"
  have "unat (arr_size a + sz) = unat (arr_size a) + unat sz"
    using assms(2) by (simp add: unat_word_ariths)
  then have "2 ^ 63 < unat (arr_size a + sz)" using False by simp
  moreover have "\<exists>k. unat ?alloc = 2 ^ k"
  proof (cases "arr_alloc a = 0")
    case True
    then show ?thesis by (intro exI [of _ 4]) simp
  next
    case False
    then show ?thesis using assms(1) by (auto simp: arr_wf_def word_neq_0_conv)
  qed
  ultimately have "grow_alloc ?alloc (arr_size a + sz) = None"
    using grow_alloc_None by blast
  then show ?thesis using False by (simp add: wl_array_add_def)
qed

theorem wl_array_add_hangs_iff_witness:
  "wl_array_add (\<lambda>_. True) (0 :: nat) wl_array_init (0x8000000000000008 :: u64) = Inl Hang"
  using wl_array_add_hangs_iff [of "wl_array_init :: nat wl_array" "0x8000000000000008" "\<lambda>_. True" 0]
  by (simp add: arr_wf_init) (simp add: wl_array_init_def)

end
