(* ===== verification/Ids_Map.thy ===== *)
theory Ids_Map
  imports Wl_Array
begin

text \<open>
  The map from object ids to pointers, \<^verbatim>\<open>src/wldbg-ids-map.c\<close>, over \<open>wl_array\<close>, and the
  interface its two clients rely on: the objects a connection has resolved
  (\<^verbatim>\<open>src/resolve.c\<close>) and the information gathered about them (\<^verbatim>\<open>src/objinfo/\<close>).
  A cell is a pointer: \<open>None\<close> is \<open>NULL\<close>.
\<close>

record 'a ids_map =
  map_count :: u32
  map_data :: "'a option wl_array"

definition wldbg_ids_map_init :: "'a ids_map" where
  "wldbg_ids_map_init = \<lparr>map_count = 0, map_data = wl_array_init\<rparr>"

text \<open>\<open>memset (p, 0, size)\<close> over whole cells.\<close>

definition memset_null :: "'a option list \<Rightarrow> nat \<Rightarrow> nat \<Rightarrow> 'a option list res" where
  "memset_null cells off n =
     (let i = off div cell_bytes; k = n div cell_bytes in
      if i + k \<le> length cells
      then Inr (take i cells @ replicate k None @ drop (i + k) cells)
      else Inl OutOfBounds)"

text \<open>The number of bytes asked for is computed as in the code: the difference of the ids in
  \<open>uint32_t\<close>, then widened and multiplied in \<open>size_t\<close>.\<close>

definition wldbg_ids_map_insert ::
    "(u64 \<Rightarrow> bool) \<Rightarrow> 'a option \<Rightarrow> 'a ids_map \<Rightarrow> u32 \<Rightarrow> 'a option \<Rightarrow> 'a ids_map res" where
  "wldbg_ids_map_insert mem_ok junk m i v =
     rbind
       (if map_count m \<le> i then
          (let sz = (ucast (i - map_count m + 1) :: u64) * 8 in
           rbind (wl_array_add mem_ok junk (map_data m) sz) (\<lambda>(p, d).
             case p of
               None \<Rightarrow> Inl Aborted
             | Some off \<Rightarrow>
                 rbind (memset_null (arr_data d) off (unat sz)) (\<lambda>cells.
                   Inr (d\<lparr>arr_data := cells\<rparr>))))
        else Inr (map_data m))
       (\<lambda>d. if unat i < length (arr_data d)
            then Inr \<lparr>map_count = ucast (arr_size d div 8),
                      map_data = d\<lparr>arr_data := (arr_data d)[unat i := v]\<rparr>\<rparr>
            else Inl OutOfBounds)"

definition wldbg_ids_map_get :: "'a ids_map \<Rightarrow> u32 \<Rightarrow> 'a option" where
  "wldbg_ids_map_get m i =
     (if i < map_count m then arr_data (map_data m) ! unat i else None)"

section \<open>Invariant\<close>

definition ids_map_wf :: "'a ids_map \<Rightarrow> bool" where
  "ids_map_wf m \<longleftrightarrow> arr_wf (map_data m) \<and>
     unat (arr_size (map_data m)) = 8 * unat (map_count m)"

lemma ids_map_wf_init: "ids_map_wf wldbg_ids_map_init"
  by (simp add: ids_map_wf_def wldbg_ids_map_init_def arr_wf_init)
     (simp add: wl_array_init_def)

lemma ids_map_count_le_cells:
  "ids_map_wf m \<Longrightarrow> unat (map_count m) \<le> length (arr_data (map_data m))"
  by (auto simp: ids_map_wf_def arr_wf_def cell_bytes_def)

lemma unat_id_diff:
  assumes "(c :: u32) \<le> i" "i \<noteq> - 1"
  shows "unat (i - c + 1) = unat i - unat c + 1"
proof -
  have le: "unat c \<le> unat i" using assms(1) by (simp add: word_le_nat_alt)
  have ne: "unat i \<noteq> 4294967295"
  proof
    assume "unat i = 4294967295"
    then have "(word_of_nat (unat i) :: u32) = word_of_nat 4294967295" by (rule arg_cong)
    with assms(2) show False by simp
  qed
  then have "unat i < 4294967295" using unat_u32_less [of i] by linarith
  then have "unat i - unat c + 1 < 2 ^ 32" by simp
  moreover have "unat (i - c) = unat i - unat c" using assms(1) by (rule unat_sub)
  ultimately show ?thesis by (simp add: unat_word_ariths)
qed

text \<open>The bytes requested are exactly the missing cells: the only id for which the code's
  arithmetic wraps is \<open>2 ^ 32 - 1\<close>.\<close>

lemma unat_request:
  assumes "(c :: u32) \<le> i" "i \<noteq> - 1"
  shows "unat ((ucast (i - c + 1) :: u64) * 8) = 8 * (unat i - unat c + 1)"
proof -
  have "unat (ucast (i - c + 1) :: u64) = unat i - unat c + 1"
    using unat_id_diff [OF assms] unat_u32_less [of "i - c + 1"]
    by (simp add: unsigned_ucast_eq take_bit_nat_eq_self)
  moreover have "8 * (unat i - unat c + 1) < 2 ^ 64"
    using unat_u32_less [of i] by simp
  ultimately show ?thesis by (simp add: unat_word_ariths)
qed

section \<open>Insertion\<close>

lemma unat_count_of_size:
  "unat (sz :: u64) = 8 * n \<Longrightarrow> n < 2 ^ 32 \<Longrightarrow> unat (ucast (sz div 8) :: u32) = n"
  by (simp add: unsigned_ucast_eq unat_div take_bit_nat_eq_self)

text \<open>Growing: the fresh cells are cleared before they can be read.\<close>

lemma memset_grown:
  assumes "length old \<ge> c" "length (old @ cells) \<ge> c + k"
  shows "memset_null (old @ cells) (8 * c) (8 * k) =
           Inr (take c old @ replicate k None @ drop (c + k) (old @ cells))"
  using assms by (simp add: memset_null_def cell_bytes_def)

lemma wldbg_ids_map_insert_old:
  assumes wf: "ids_map_wf m" and i: "i < map_count m"
  shows "wldbg_ids_map_insert mem_ok junk m i v =
           Inr \<lparr>map_count = map_count m,
                map_data = (map_data m)\<lparr>arr_data := (arr_data (map_data m))[unat i := v]\<rparr>\<rparr>"
proof -
  have "unat i < unat (map_count m)" using i by (simp add: word_less_nat_alt)
  then have "unat i < length (arr_data (map_data m))"
    using ids_map_count_le_cells [OF wf] by simp
  moreover have "ucast (arr_size (map_data m) div 8) = map_count m"
    using wf unat_count_of_size [of "arr_size (map_data m)" "unat (map_count m)"]
      unat_u32_less [of "map_count m"]
    by (simp add: ids_map_wf_def word_unat_eq_iff)
  moreover have "\<not> map_count m \<le> i" using i by simp
  ultimately show ?thesis by (simp add: wldbg_ids_map_insert_def)
qed

lemma wldbg_ids_map_insert_new:
  assumes wf: "ids_map_wf m" and i: "map_count m \<le> i" "i \<noteq> - 1"
  obtains (oom) alloc where "wldbg_ids_map_insert mem_ok junk m i v = Inl Aborted" "\<not> mem_ok alloc"
  | (grown) m' where "wldbg_ids_map_insert mem_ok junk m i v = Inr m'" "ids_map_wf m'"
      "map_count m' = i + 1"
      "take (Suc (unat i)) (arr_data (map_data m')) =
         take (unat (map_count m)) (arr_data (map_data m)) @
         replicate (unat i - unat (map_count m)) None @ [v]"
proof -
  let ?a = "map_data m" and ?c = "unat (map_count m)" and ?k = "unat i - unat (map_count m) + 1"
  define sz where "sz = (ucast (i - map_count m + 1) :: u64) * 8"
  have ci: "?c \<le> unat i" using i(1) by (simp add: word_le_nat_alt)
  have awf: "arr_wf ?a" and size: "unat (arr_size ?a) = 8 * ?c"
    using wf by (auto simp: ids_map_wf_def)
  have sz: "unat sz = 8 * ?k" unfolding sz_def by (rule unat_request [OF i])
  have fits: "unat (arr_size ?a) + unat sz \<le> 2 ^ 63"
    using size sz ci unat_u32_less [of i] by simp
  from awf fits show thesis
  proof (cases rule: wl_array_add_cases [where mem_ok = mem_ok and junk = junk])
    case (oom alloc)
    then have "wldbg_ids_map_insert mem_ok junk m i v = Inl Aborted"
      using i by (simp add: wldbg_ids_map_insert_def sz_def [symmetric])
    then show thesis using oom(2) by (rule that(1))
  next
    case (added d cells)
    have dsize: "unat (arr_size d) = 8 * Suc (unat i)" using added(3) size sz ci by simp
    have dlen: "Suc (unat i) \<le> length (arr_data d)"
      using added(2) dsize by (auto simp: arr_wf_def cell_bytes_def)
    define new where "new = take ?c (arr_data ?a) @ replicate ?k None @ drop (?c + ?k) (arr_data d)"
    have old: "?c \<le> length (arr_data ?a)" by (rule ids_map_count_le_cells [OF wf])
    have ms: "memset_null (arr_data d) (unat (arr_size ?a)) (unat sz) = Inr new"
      using memset_grown [of ?c "arr_data ?a" ?k cells] old dlen ci
      by (simp add: added(4) size sz new_def)
    have newlen: "length new = length (arr_data d)"
      using old dlen ci by (simp add: new_def)
    have n32: "Suc (unat i) < 2 ^ 32"
      using unat_id_diff [of 0 i] i(2) unat_u32_less [of "i + 1"] by simp
    have cnt: "(ucast (arr_size d div 8) :: u32) = i + 1"
      using unat_count_of_size [OF dsize n32] unat_id_diff [of 0 i] i(2)
      by (simp add: word_unat_eq_iff)
    let ?m' = "\<lparr>map_count = i + 1, map_data = d\<lparr>arr_data := new[unat i := v]\<rparr>\<rparr>"
    have eq: "wldbg_ids_map_insert mem_ok junk m i v = Inr ?m'"
      using i added(1) ms dlen newlen cnt
      by (simp add: wldbg_ids_map_insert_def sz_def [symmetric])
    have wf': "ids_map_wf ?m'"
      using added(2) dsize newlen unat_id_diff [of 0 i] i(2)
      by (simp add: ids_map_wf_def arr_wf_def)
    have "take (Suc (unat i)) new = take ?c (arr_data ?a) @ replicate ?k None"
      using old ci by (simp add: new_def Suc_diff_le)
    moreover have "take (Suc (unat i)) (new[unat i := v]) = (take (Suc (unat i)) new)[unat i := v]"
      by (simp add: take_update_swap)
    moreover have "(take ?c (arr_data ?a) @ replicate ?k None)[unat i := v] =
        take ?c (arr_data ?a) @ replicate (unat i - ?c) None @ [v]"
      using old ci by (simp add: list_update_append replicate_append_same [symmetric])
    ultimately have "take (Suc (unat i)) (arr_data (map_data ?m')) =
        take ?c (arr_data ?a) @ replicate (unat i - ?c) None @ [v]"
      by simp
    then show thesis by (intro that(2) [OF eq wf']) simp_all
  qed
qed

lemma nth_of_take: "take n xs = ys \<Longrightarrow> j < n \<Longrightarrow> n \<le> length xs \<Longrightarrow> xs ! j = ys ! j"
  by (metis nth_take)

text \<open>Both cases together: the only way an insertion can fail is that memory runs out, and then
  the program is aborted; otherwise exactly one id has a new value.\<close>

lemma wldbg_ids_map_insert_cases:
  assumes wf: "ids_map_wf m" and i: "i \<noteq> - 1"
  obtains (oom) alloc where "wldbg_ids_map_insert mem_ok junk m i v = Inl Aborted" "\<not> mem_ok alloc"
  | (stored) m' where "wldbg_ids_map_insert mem_ok junk m i v = Inr m'" "ids_map_wf m'"
      "wldbg_ids_map_get m' = (wldbg_ids_map_get m)(i := v)"
      "map_count m' = max (map_count m) (i + 1)"
proof (cases "i < map_count m")
  case True
  let ?m' = "\<lparr>map_count = map_count m,
     map_data = (map_data m)\<lparr>arr_data := (arr_data (map_data m))[unat i := v]\<rparr>\<rparr>"
  have len: "unat (map_count m) \<le> length (arr_data (map_data m))"
    by (rule ids_map_count_le_cells [OF wf])
  have lt: "unat i < unat (map_count m)" using True by (simp add: word_less_nat_alt)
  have "wldbg_ids_map_get ?m' = (wldbg_ids_map_get m)(i := v)"
    using True lt len
    by (auto simp: wldbg_ids_map_get_def fun_eq_iff nth_list_update simp flip: word_unat_eq_iff)
  moreover have "ids_map_wf ?m'" using wf by (simp add: ids_map_wf_def arr_wf_def)
  moreover have "map_count m = max (map_count m) (i + 1)"
    using inc_le [OF True] by (auto simp: max_def)
  ultimately show thesis
    by (intro that(2) [OF wldbg_ids_map_insert_old [OF wf True]]) simp_all
next
  case False
  then have ci: "map_count m \<le> i" by simp
  from wf ci i show thesis
  proof (cases rule: wldbg_ids_map_insert_new [where mem_ok = mem_ok and junk = junk and v = v])
    case (oom alloc)
    then show thesis by (rule that(1))
  next
    case (grown m')
    have le: "unat (map_count m) \<le> unat i" using ci by (simp add: word_le_nat_alt)
    have len: "unat (map_count m) \<le> length (arr_data (map_data m))"
      by (rule ids_map_count_le_cells [OF wf])
    have cnt: "unat (i + 1) = Suc (unat i)" using unat_id_diff [of 0 i] i by simp
    have len': "Suc (unat i) \<le> length (arr_data (map_data m'))"
      using ids_map_count_le_cells [OF grown(2)] cnt grown(3) by simp
    have "wldbg_ids_map_get m' j = ((wldbg_ids_map_get m)(i := v)) j" for j
    proof (cases "unat j < Suc (unat i)")
      case True
      then have "wldbg_ids_map_get m' j = arr_data (map_data m') ! unat j"
        using grown(3) cnt by (simp add: wldbg_ids_map_get_def word_less_nat_alt)
      also have "\<dots> = (take (unat (map_count m)) (arr_data (map_data m)) @
          replicate (unat i - unat (map_count m)) None @ [v]) ! unat j"
        by (rule nth_of_take [OF grown(4) True len'])
      also have "\<dots> = ((wldbg_ids_map_get m)(i := v)) j"
        using True le len
        by (auto simp: nth_append wldbg_ids_map_get_def word_less_nat_alt word_unat_eq_iff)
      finally show ?thesis .
    next
      case False
      then show ?thesis using grown(3) cnt le
        by (auto simp: wldbg_ids_map_get_def word_less_nat_alt word_unat_eq_iff)
    qed
    moreover have "map_count m' = max (map_count m) (i + 1)"
      using grown(3) cnt le by (simp add: max_def word_le_nat_alt)
    ultimately show thesis using grown(1,2) by (intro that(2)) auto
  qed
qed

section \<open>The interface\<close>

text \<open>What the clients of an id table rely on.  The one illegal id is \<open>2 ^ 32 - 1\<close>.\<close>

locale id_table =
  fixes inv :: "'t \<Rightarrow> bool"
    and init :: 't
    and ins :: "'t \<Rightarrow> u32 \<Rightarrow> 'v option \<Rightarrow> 't res"
    and get :: "'t \<Rightarrow> u32 \<Rightarrow> 'v option"
    and bound :: "'t \<Rightarrow> u32"
  assumes inv_init: "inv init"
    and get_init: "get init i = None"
    and ins_inv: "inv t \<Longrightarrow> i \<noteq> - 1 \<Longrightarrow> ins t i v = Inr t' \<Longrightarrow> inv t'"
    and get_ins: "inv t \<Longrightarrow> i \<noteq> - 1 \<Longrightarrow> ins t i v = Inr t' \<Longrightarrow> get t' = (get t)(i := v)"
    and ins_fault: "inv t \<Longrightarrow> i \<noteq> - 1 \<Longrightarrow> ins t i v = Inl e \<Longrightarrow> e = Aborted"
    and get_beyond: "bound t \<le> i \<Longrightarrow> get t i = None"

text \<open>Both clients keep two tables, split at \<open>WL_SERVER_ID_START\<close>: ids the client allocated and
  ids the server allocated.\<close>

definition WL_SERVER_ID_START :: u32 where
  "WL_SERVER_ID_START = 0xff000000"

lemma client_id_legal: "\<not> WL_SERVER_ID_START \<le> i \<Longrightarrow> i \<noteq> - 1"
  by (auto simp: WL_SERVER_ID_START_def)

lemma server_id_legal: "WL_SERVER_ID_START \<le> i \<Longrightarrow> i - WL_SERVER_ID_START \<noteq> - 1"
proof
  assume "WL_SERVER_ID_START \<le> i" "i - WL_SERVER_ID_START = - 1"
  then have "i = WL_SERVER_ID_START - 1" by (simp add: diff_eq_eq)
  with \<open>WL_SERVER_ID_START \<le> i\<close> show False by (simp add: WL_SERVER_ID_START_def)
qed

lemma server_id_inj:
  "i - WL_SERVER_ID_START = j - WL_SERVER_ID_START \<longleftrightarrow> i = j"
  by simp

context id_table
begin

text \<open>A store routed to one of two tables changes the combined view at exactly that id.\<close>

lemma split_put:
  assumes inv: "inv c" "inv s"
    and put: "(if WL_SERVER_ID_START \<le> i
                then rbind (ins s (i - WL_SERVER_ID_START) v) (\<lambda>s'. Inr (c, s'))
                else rbind (ins c i v) (\<lambda>c'. Inr (c', s))) = Inr (c', s')"
  shows "inv c' \<and> inv s' \<and>
    (if WL_SERVER_ID_START \<le> j then get s' (j - WL_SERVER_ID_START) else get c' j) =
    (if j = i then v
     else if WL_SERVER_ID_START \<le> j then get s (j - WL_SERVER_ID_START) else get c j)"
proof (cases "WL_SERVER_ID_START \<le> i")
  case True
  then have "c' = c" and ins: "ins s (i - WL_SERVER_ID_START) v = Inr s'"
    using put by (auto simp: res_simps)
  then show ?thesis
    using True inv ins_inv [OF inv(2) server_id_legal ins] get_ins [OF inv(2) server_id_legal ins]
    by auto
next
  case False
  then have "s' = s" and ins: "ins c i v = Inr c'"
    using put by (auto simp: res_simps)
  then show ?thesis
    using False inv ins_inv [OF inv(1) client_id_legal ins] get_ins [OF inv(1) client_id_legal ins]
    by auto
qed

lemma split_put_fault:
  assumes inv: "inv c" "inv s"
    and put: "(if WL_SERVER_ID_START \<le> i
                then rbind (ins s (i - WL_SERVER_ID_START) v) (\<lambda>s'. Inr (c, s'))
                else rbind (ins c i v) (\<lambda>c'. Inr (c', s))) = Inl e"
  shows "e = Aborted"
  using put ins_fault [OF inv(2) server_id_legal] ins_fault [OF inv(1) client_id_legal]
  by (auto simp: res_simps split: if_splits)

lemma split_init:
  "(if WL_SERVER_ID_START \<le> j then get init (j - WL_SERVER_ID_START) else get init j) = None"
  by (simp add: get_init)

end

interpretation ids: id_table ids_map_wf wldbg_ids_map_init
    "wldbg_ids_map_insert mem_ok junk" wldbg_ids_map_get map_count
  for mem_ok junk
proof
  fix t t' :: "'a ids_map" and i :: u32 and v :: "'a option" and e :: fault
  show "ids_map_wf (wldbg_ids_map_init :: 'a ids_map)" by (rule ids_map_wf_init)
  show "wldbg_ids_map_get (wldbg_ids_map_init :: 'a ids_map) i = None"
    by (simp add: wldbg_ids_map_get_def wldbg_ids_map_init_def)
  show "map_count t \<le> i \<Longrightarrow> wldbg_ids_map_get t i = None"
    by (auto simp: wldbg_ids_map_get_def not_less [symmetric])
  assume wf: "ids_map_wf t" and i: "i \<noteq> - 1"
  from wf i show "wldbg_ids_map_insert mem_ok junk t i v = Inr t' \<Longrightarrow> ids_map_wf t'"
    by (cases rule: wldbg_ids_map_insert_cases [where mem_ok = mem_ok and junk = junk and v = v]) auto
  from wf i show "wldbg_ids_map_insert mem_ok junk t i v = Inr t' \<Longrightarrow>
      wldbg_ids_map_get t' = (wldbg_ids_map_get t)(i := v)"
    by (cases rule: wldbg_ids_map_insert_cases [where mem_ok = mem_ok and junk = junk and v = v]) auto
  from wf i show "wldbg_ids_map_insert mem_ok junk t i v = Inl e \<Longrightarrow> e = Aborted"
    by (cases rule: wldbg_ids_map_insert_cases [where mem_ok = mem_ok and junk = junk and v = v]) auto
qed

section \<open>Properties\<close>

text \<open>C33: Storing a value under any id but \<open>2 ^ 32 - 1\<close> either aborts the program for want of
  memory or gives a well-formed map in which exactly that id has changed: every cell the map grew
  by reads as \<open>NULL\<close> and the bound is the larger of the old one and the id plus one.\<close>

theorem ids_map_insert_correct:
  assumes "ids_map_wf m" "i \<noteq> - 1"
  shows "wldbg_ids_map_insert mem_ok junk m i v = Inl Aborted \<or>
    (\<exists>m'. wldbg_ids_map_insert mem_ok junk m i v = Inr m' \<and> ids_map_wf m' \<and>
       wldbg_ids_map_get m' = (wldbg_ids_map_get m)(i := v) \<and>
       map_count m' = max (map_count m) (i + 1))"
  using assms
  by (cases rule: wldbg_ids_map_insert_cases [where mem_ok = mem_ok and junk = junk and v = v]) auto

theorem ids_map_insert_correct_witness:
  "wldbg_ids_map_insert (\<lambda>_. True) None wldbg_ids_map_init 5 (Some ''x'') = Inl Aborted \<or>
    (\<exists>m'. wldbg_ids_map_insert (\<lambda>_. True) None wldbg_ids_map_init 5 (Some ''x'') = Inr m' \<and>
       ids_map_wf m' \<and> wldbg_ids_map_get m' = (\<lambda>_. None)(5 := Some ''x'') \<and> map_count m' = 6)"
proof -
  have "wldbg_ids_map_get wldbg_ids_map_init = (\<lambda>_. None :: string option)"
    by (simp add: fun_eq_iff ids.get_init)
  moreover have "map_count (wldbg_ids_map_init :: string ids_map) = 0"
    by (simp add: wldbg_ids_map_init_def)
  ultimately show ?thesis
    using ids_map_insert_correct [OF ids_map_wf_init, of 5 "\<lambda>_. True" None "Some ''x''"] by simp
qed

end
