(* ===== verification/Protocol.thy ===== *)
theory Protocol
  imports Wldbg_Prelude
begin

text \<open>
  The protocol metadata the program works with: \<open>struct wl_message\<close> and \<open>struct wl_interface\<close> of
  \<^verbatim>\<open>wayland/wayland-util.h\<close>, the two special interfaces of \<^verbatim>\<open>src/resolve.c\<close>, and the
  hard-coded tables of \<^verbatim>\<open>protocols/\<close>.

  Interfaces refer to each other by address and the program compares addresses, so an interface is
  named by a pointer \<open>iptr\<close> and read through the static memory \<open>imem\<close>.  The interfaces of
  libwayland are not part of the repository: \<open>imem\<close> and the link-time addresses are parameters.
\<close>

section \<open>Messages and interfaces\<close>

datatype side = SERVER | CLIENT

datatype iptr = Free_entry | Unknown_interface | Iface nat

record wl_message =
  wlm_name :: string
  wlm_signature :: "string option"
  wlm_types :: "iptr option list option"

record wl_interface =
  intf_name :: string
  intf_version :: int
  method_count :: int
  methods :: "wl_message list"
  event_count :: int
  events :: "wl_message list"

type_synonym imem = "nat \<Rightarrow> wl_interface"

definition free_entry :: wl_interface where
  "free_entry = \<lparr>intf_name = ''FREE'', intf_version = - 3, method_count = 0, methods = [],
     event_count = 0, events = []\<rparr>"

definition unknown_interface :: wl_interface where
  "unknown_interface = \<lparr>intf_name = ''unknown'', intf_version = - 3840, method_count = 0,
     methods = [], event_count = 0, events = []\<rparr>"

fun intf_at :: "imem \<Rightarrow> iptr \<Rightarrow> wl_interface" where
  "intf_at im Free_entry = free_entry"
| "intf_at im Unknown_interface = unknown_interface"
| "intf_at im (Iface n) = im n"

text \<open>The tables are declared with their lengths; an interface that is not as long as it says is
  read past its end.\<close>

definition intf_wf :: "wl_interface \<Rightarrow> bool" where
  "intf_wf i \<longleftrightarrow> method_count i = int (length (methods i)) \<and>
               event_count i = int (length (events i)) \<and>
               length (methods i) < 2 ^ 31 \<and> length (events i) < 2 ^ 31"

lemma intf_wf_special: "intf_wf free_entry" "intf_wf unknown_interface"
  by (simp_all add: intf_wf_def free_entry_def unknown_interface_def)

definition imem_wf :: "imem \<Rightarrow> bool" where
  "imem_wf im \<longleftrightarrow> (\<forall>n. intf_wf (im n))"

lemma intf_wf_at: "imem_wf im \<Longrightarrow> intf_wf (intf_at im p)"
  by (cases p) (auto simp: imem_wf_def intf_wf_special)

text \<open>\<open>intf->events\<close> or \<open>intf->methods\<close>, by the side the message comes from, and the
  corresponding count as the code compares it, cast to \<open>uint32_t\<close>.\<close>

definition side_messages :: "side \<Rightarrow> wl_interface \<Rightarrow> wl_message list" where
  "side_messages from i = (case from of SERVER \<Rightarrow> events i | CLIENT \<Rightarrow> methods i)"

definition side_count :: "side \<Rightarrow> wl_interface \<Rightarrow> int" where
  "side_count from i = (case from of SERVER \<Rightarrow> event_count i | CLIENT \<Rightarrow> method_count i)"

lemma opcode_in_table:
  assumes "intf_wf i" "\<not> (word_of_int (side_count from i) :: u32) \<le> opcode"
  shows "unat opcode < length (side_messages from i)"
proof -
  obtain n where n: "side_count from i = int n" "length (side_messages from i) = n" "n < 2 ^ 31"
    using assms(1) by (cases "from") (auto simp: intf_wf_def side_count_def side_messages_def)
  then have "unat (word_of_int (side_count from i) :: u32) = n"
    by (simp add: unat_of_nat)
  with assms(2) n(2) show ?thesis by (simp add: word_le_nat_alt)
qed

section \<open>Hard-coded protocols\<close>

text \<open>\<open>lnk\<close> gives the link-time address of a named interface.\<close>

definition mk_message :: "string \<Rightarrow> string \<Rightarrow> iptr option list \<Rightarrow> wl_message" where
  "mk_message n s t = \<lparr>wlm_name = n, wlm_signature = Some s, wlm_types = Some t\<rparr>"

definition drm_types :: "(string \<Rightarrow> iptr) \<Rightarrow> iptr option list" where
  "drm_types lnk =
     (let buf = Some (lnk ''wl_buffer_interface'') in
      [None, buf] @ replicate 5 None @ [buf] @ replicate 10 None @ [buf] @ replicate 10 None)"

definition wl_drm_requests :: "(string \<Rightarrow> iptr) \<Rightarrow> wl_message list" where
  "wl_drm_requests lnk =
     [mk_message ''authenticate'' ''u'' (drop 0 (drm_types lnk)),
      mk_message ''create_buffer'' ''nuiiuu'' (drop 1 (drm_types lnk)),
      mk_message ''create_planar_buffer'' ''nuiiuiiiiii'' (drop 7 (drm_types lnk)),
      mk_message ''create_prime_buffer'' ''2nhiiuiiiiii'' (drop 18 (drm_types lnk))]"

definition wl_drm_events :: "(string \<Rightarrow> iptr) \<Rightarrow> wl_message list" where
  "wl_drm_events lnk =
     [mk_message ''device'' ''s'' (drop 0 (drm_types lnk)),
      mk_message ''format'' ''u'' (drop 0 (drm_types lnk)),
      mk_message ''authenticated'' '''' (drop 0 (drm_types lnk)),
      mk_message ''capabilities'' ''u'' (drop 0 (drm_types lnk))]"

definition wl_drm_interface :: "(string \<Rightarrow> iptr) \<Rightarrow> wl_interface" where
  "wl_drm_interface lnk = \<lparr>intf_name = ''wl_drm'', intf_version = 2,
     method_count = 4, methods = wl_drm_requests lnk,
     event_count = 4, events = wl_drm_events lnk\<rparr>"

definition xdg_types :: "(string \<Rightarrow> iptr) \<Rightarrow> iptr option list" where
  "xdg_types lnk =
     (let surf = Some (lnk ''wl_surface_interface''); seat = Some (lnk ''wl_seat_interface'');
          xdgs = Some (lnk ''xdg_surface_interface''); popup = Some (lnk ''xdg_popup_interface'');
          outp = Some (lnk ''wl_output_interface'')
      in [None, None, None, None, xdgs, surf, popup, surf, surf, seat, None, None, None,
          xdgs, seat, None, None, None, seat, None, seat, None, None, outp])"

definition xdg_shell_requests :: "(string \<Rightarrow> iptr) \<Rightarrow> wl_message list" where
  "xdg_shell_requests lnk =
     [mk_message ''destroy'' '''' (drop 0 (xdg_types lnk)),
      mk_message ''use_unstable_version'' ''i'' (drop 0 (xdg_types lnk)),
      mk_message ''get_xdg_surface'' ''no'' (drop 4 (xdg_types lnk)),
      mk_message ''get_xdg_popup'' ''nooouii'' (drop 6 (xdg_types lnk)),
      mk_message ''pong'' ''u'' (drop 0 (xdg_types lnk))]"

definition xdg_shell_events :: "(string \<Rightarrow> iptr) \<Rightarrow> wl_message list" where
  "xdg_shell_events lnk = [mk_message ''ping'' ''u'' (drop 0 (xdg_types lnk))]"

definition xdg_shell_interface :: "(string \<Rightarrow> iptr) \<Rightarrow> wl_interface" where
  "xdg_shell_interface lnk = \<lparr>intf_name = ''xdg_shell'', intf_version = 1,
     method_count = 5, methods = xdg_shell_requests lnk,
     event_count = 1, events = xdg_shell_events lnk\<rparr>"

definition xdg_surface_requests :: "(string \<Rightarrow> iptr) \<Rightarrow> wl_message list" where
  "xdg_surface_requests lnk =
     [mk_message ''destroy'' '''' (drop 0 (xdg_types lnk)),
      mk_message ''set_parent'' ''?o'' (drop 13 (xdg_types lnk)),
      mk_message ''set_title'' ''s'' (drop 0 (xdg_types lnk)),
      mk_message ''set_app_id'' ''s'' (drop 0 (xdg_types lnk)),
      mk_message ''show_window_menu'' ''ouii'' (drop 14 (xdg_types lnk)),
      mk_message ''move'' ''ou'' (drop 18 (xdg_types lnk)),
      mk_message ''resize'' ''ouu'' (drop 20 (xdg_types lnk)),
      mk_message ''ack_configure'' ''u'' (drop 0 (xdg_types lnk)),
      mk_message ''set_window_geometry'' ''iiii'' (drop 0 (xdg_types lnk)),
      mk_message ''set_maximized'' '''' (drop 0 (xdg_types lnk)),
      mk_message ''unset_maximized'' '''' (drop 0 (xdg_types lnk)),
      mk_message ''set_fullscreen'' ''?o'' (drop 23 (xdg_types lnk)),
      mk_message ''unset_fullscreen'' '''' (drop 0 (xdg_types lnk)),
      mk_message ''set_minimized'' '''' (drop 0 (xdg_types lnk))]"

definition xdg_surface_events :: "(string \<Rightarrow> iptr) \<Rightarrow> wl_message list" where
  "xdg_surface_events lnk =
     [mk_message ''configure'' ''iiau'' (drop 0 (xdg_types lnk)),
      mk_message ''close'' '''' (drop 0 (xdg_types lnk))]"

definition xdg_surface_interface :: "(string \<Rightarrow> iptr) \<Rightarrow> wl_interface" where
  "xdg_surface_interface lnk = \<lparr>intf_name = ''xdg_surface'', intf_version = 1,
     method_count = 14, methods = xdg_surface_requests lnk,
     event_count = 2, events = xdg_surface_events lnk\<rparr>"

definition xdg_popup_interface :: "(string \<Rightarrow> iptr) \<Rightarrow> wl_interface" where
  "xdg_popup_interface lnk = \<lparr>intf_name = ''xdg_popup'', intf_version = 1,
     method_count = 1, methods = [mk_message ''destroy'' '''' (drop 0 (xdg_types lnk))],
     event_count = 1, events = [mk_message ''popup_done'' '''' (drop 0 (xdg_types lnk))]\<rparr>"

lemma protocol_tables_wf:
  "intf_wf (wl_drm_interface lnk)" "intf_wf (xdg_shell_interface lnk)"
  "intf_wf (xdg_surface_interface lnk)" "intf_wf (xdg_popup_interface lnk)"
  by (simp_all add: intf_wf_def wl_drm_interface_def wl_drm_requests_def wl_drm_events_def
      xdg_shell_interface_def xdg_shell_requests_def xdg_shell_events_def
      xdg_surface_interface_def xdg_surface_requests_def xdg_surface_events_def
      xdg_popup_interface_def)

end
