(* ===== verification/Resolve.thy ===== *)
theory Resolve
  imports Ids_Map Protocol
begin

text \<open>
  \<^verbatim>\<open>src/resolve.c\<close>: what a connection knows about its objects.  \<open>client_objects\<close> holds
  the ids the client allocated and \<open>server_objects\<close> the ids from \<open>WL_SERVER_ID_START\<close> on, the
  latter from zero.  \<open>ro_interfaces\<close> is the list of interfaces shared between connections,
  filled once when the resolve pass is initialised; \<open>ro_additional\<close> is the connection's own.
\<close>

record resolved_objects =
  ro_client :: "iptr ids_map"
  ro_server :: "iptr ids_map"
  ro_interfaces :: "iptr list"
  ro_additional :: "iptr list"

definition resolved_objects_get :: "resolved_objects \<Rightarrow> u32 \<Rightarrow> iptr option" where
  "resolved_objects_get ro i =
     (if WL_SERVER_ID_START \<le> i
      then wldbg_ids_map_get (ro_server ro) (i - WL_SERVER_ID_START)
      else wldbg_ids_map_get (ro_client ro) i)"

text \<open>\<open>msg->connection->resolved_objects\<close> is \<open>None\<close> when objects are not being resolved.\<close>

definition wldbg_message_get_object :: "resolved_objects option \<Rightarrow> u32 \<Rightarrow> iptr option" where
  "wldbg_message_get_object ro i =
     (case ro of None \<Rightarrow> None | Some r \<Rightarrow> resolved_objects_get r i)"

text \<open>The body of both loops of \<open>wldbg_message_get_interface\<close>.\<close>

fun first_named :: "imem \<Rightarrow> string \<Rightarrow> iptr option list \<Rightarrow> iptr option" where
  "first_named im name [] = None"
| "first_named im name (None # ps) = first_named im name ps"
| "first_named im name (Some p # ps) =
     (if intf_name (intf_at im p) = name then Some p else first_named im name ps)"

text \<open>What the two loops visit.  The second one adds \<open>WL_SERVER_ID_START\<close> to an index of the
  server table, as the code does.\<close>

definition client_entries :: "resolved_objects \<Rightarrow> iptr option list" where
  "client_entries ro =
     map (\<lambda>i. wldbg_ids_map_get (ro_client ro) (word_of_nat i)) [0..<unat (map_count (ro_client ro))]"

definition server_entries :: "resolved_objects \<Rightarrow> iptr option list" where
  "server_entries ro =
     map (\<lambda>i. wldbg_ids_map_get (ro_server ro) (WL_SERVER_ID_START + word_of_nat i))
       [0..<unat (map_count (ro_server ro))]"

definition wldbg_message_get_interface ::
    "imem \<Rightarrow> resolved_objects option \<Rightarrow> string \<Rightarrow> iptr option res" where
  "wldbg_message_get_interface im ro name =
     (case ro of
        None \<Rightarrow> Inl NullDeref
      | Some r \<Rightarrow>
          (case first_named im name (client_entries r) of
             Some p \<Rightarrow> Inr (Some p)
           | None \<Rightarrow> Inr (first_named im name (server_entries r))))"

text \<open>The iteration hands each id with its interface to a callback; the model lists the calls.\<close>

definition resolved_objects_iterate :: "resolved_objects \<Rightarrow> (u32 \<times> iptr option) list" where
  "resolved_objects_iterate ro =
     zip (map word_of_nat [0..<unat (map_count (ro_client ro))]) (client_entries ro) @
     zip (map (\<lambda>i. WL_SERVER_ID_START + word_of_nat i) [0..<unat (map_count (ro_server ro))])
       (server_entries ro)"

definition wldbg_message_objects_iterate ::
    "resolved_objects option \<Rightarrow> (u32 \<times> iptr option) list" where
  "wldbg_message_objects_iterate ro =
     (case ro of None \<Rightarrow> [] | Some r \<Rightarrow> resolved_objects_iterate r)"

section \<open>Invariant\<close>

definition ro_wf :: "resolved_objects \<Rightarrow> bool" where
  "ro_wf ro \<longleftrightarrow> ids_map_wf (ro_client ro) \<and> ids_map_wf (ro_server ro) \<and>
     map_count (ro_client ro) \<le> WL_SERVER_ID_START \<and> map_count (ro_server ro) \<le> 0x1000000"

lemma server_index_beyond:
  assumes "ro_wf ro" "n < unat (map_count (ro_server ro))"
  shows "wldbg_ids_map_get (ro_server ro) (WL_SERVER_ID_START + word_of_nat n) = None"
proof -
  have c: "unat (map_count (ro_server ro)) \<le> 0x1000000"
    using assms(1) by (simp add: ro_wf_def word_le_nat_alt)
  with assms(2) have n: "n < 0x1000000" by simp
  then have "unat (WL_SERVER_ID_START + word_of_nat n) = 0xff000000 + n"
    by (simp add: WL_SERVER_ID_START_def unat_word_ariths unat_of_nat)
  with c n have "map_count (ro_server ro) \<le> WL_SERVER_ID_START + word_of_nat n"
    by (simp add: word_le_nat_alt)
  then show ?thesis by (rule ids.get_beyond)
qed

lemma server_entries_None: "ro_wf ro \<Longrightarrow> server_entries ro = replicate (unat (map_count (ro_server ro))) None"
  by (auto simp: server_entries_def server_index_beyond intro!: nth_equalityI)

lemma first_named_replicate_None [simp]: "first_named im name (replicate n None) = None"
  by (induction n) simp_all

lemma first_named_Some:
  "first_named im name ps = Some p \<Longrightarrow> Some p \<in> set ps \<and> intf_name (intf_at im p) = name"
  by (induction im name ps rule: first_named.induct) (auto split: if_splits)

lemma first_named_None:
  "first_named im name ps = None \<longleftrightarrow> (\<forall>p. Some p \<in> set ps \<longrightarrow> intf_name (intf_at im p) \<noteq> name)"
  by (induction im name ps rule: first_named.induct) auto

lemma client_entries_in:
  "Some p \<in> set (client_entries ro) \<longleftrightarrow>
     (\<exists>i. wldbg_ids_map_get (ro_client ro) i = Some p)"
proof
  assume "\<exists>i. wldbg_ids_map_get (ro_client ro) i = Some p"
  then obtain i where i: "wldbg_ids_map_get (ro_client ro) i = Some p" by blast
  then have "i < map_count (ro_client ro)" by (simp add: wldbg_ids_map_get_def split: if_splits)
  then have "unat i < unat (map_count (ro_client ro))" by (simp add: word_less_nat_alt)
  with i show "Some p \<in> set (client_entries ro)"
    by (auto simp: client_entries_def intro!: image_eqI [where x = "unat i"])
qed (auto simp: client_entries_def)

section \<open>Properties\<close>

text \<open>Looking an interface up by name, and iterating over the objects, reach only the objects
  the client allocated: an interface is found exactly if some client id has one of that name, and
  every id of the server's range is handed to the callback with no interface, since the loops index
  the server table from \<open>WL_SERVER_ID_START\<close> instead of from zero.\<close>

theorem server_objects_unreachable:
  assumes "ro_wf ro"
  shows "((\<exists>p. wldbg_message_get_interface im (Some ro) name = Inr (Some p)) \<longleftrightarrow>
      (\<exists>i p. wldbg_ids_map_get (ro_client ro) i = Some p \<and> intf_name (intf_at im p) = name)) \<and>
    (\<forall>(i, p) \<in> set (drop (unat (map_count (ro_client ro))) (wldbg_message_objects_iterate (Some ro))). p = None)"
proof
  have "wldbg_message_get_interface im (Some ro) name = Inr (first_named im name (client_entries ro))"
    by (simp add: wldbg_message_get_interface_def server_entries_None [OF assms] split: option.split)
  then show "(\<exists>p. wldbg_message_get_interface im (Some ro) name = Inr (Some p)) \<longleftrightarrow>
      (\<exists>i p. wldbg_ids_map_get (ro_client ro) i = Some p \<and> intf_name (intf_at im p) = name)"
    using first_named_None [of im name "client_entries ro"]
      first_named_Some [of im name "client_entries ro"] client_entries_in [of _ ro]
    by (cases "first_named im name (client_entries ro)") auto
  have "drop (unat (map_count (ro_client ro))) (wldbg_message_objects_iterate (Some ro)) =
      zip (map (\<lambda>i. WL_SERVER_ID_START + word_of_nat i) [0..<unat (map_count (ro_server ro))])
       (server_entries ro)"
    by (simp add: wldbg_message_objects_iterate_def resolved_objects_iterate_def client_entries_def)
  then show "\<forall>(i, p) \<in> set (drop (unat (map_count (ro_client ro)))
      (wldbg_message_objects_iterate (Some ro))). p = None"
    using server_entries_None [OF assms] by (auto dest: set_zip_rightD)
qed

theorem server_objects_unreachable_witness:
  "\<not> (\<exists>p. wldbg_message_get_interface (\<lambda>_. free_entry\<lparr>intf_name := ''wl_data_offer''\<rparr>)
      (Some \<lparr>ro_client = wldbg_ids_map_init,
             ro_server = \<lparr>map_count = 1, map_data = \<lparr>arr_size = 8, arr_alloc = 16,
               arr_data = [Some (Iface 3), None]\<rparr>\<rparr>, ro_interfaces = [], ro_additional = []\<rparr>)
      ''wl_data_offer'' = Inr (Some p))"
proof -
  let ?ro = "\<lparr>ro_client = wldbg_ids_map_init,
     ro_server = \<lparr>map_count = 1, map_data = \<lparr>arr_size = 8, arr_alloc = 16,
       arr_data = [Some (Iface 3), None]\<rparr>\<rparr>, ro_interfaces = [], ro_additional = []\<rparr>"
  have "arr_wf \<lparr>arr_size = 8, arr_alloc = 16, arr_data = [Some (Iface 3), None]\<rparr>"
    by (auto simp: arr_wf_def cell_bytes_def intro: exI [of _ 4])
  then have "ro_wf ?ro"
    by (simp add: ro_wf_def ids_map_wf_init) (simp add: ids_map_wf_def wldbg_ids_map_init_def WL_SERVER_ID_START_def)
  from server_objects_unreachable [OF this] show ?thesis
    by (simp add: wldbg_ids_map_get_def wldbg_ids_map_init_def)
qed

end
