(* ===== verification/Parse_Message.thy ===== *)
theory Parse_Message
  imports Resolve
begin

unbundle bit_operations_syntax

text \<open>
  \<^verbatim>\<open>src/parse-message.c\<close>: the header of a message, its resolution to an interface and a
  message description, the iterator over its arguments, and its printable name.

  A message is the memory from \<open>msg->data\<close> to the end of the object that holds it; a
  \<open>uint32_t *\<close> into it is a byte offset.  The iterator's position in the signature is the rest of
  the signature, \<open>None\<close> before the first call.
\<close>

section \<open>Header\<close>

record parsed_message =
  pm_id :: u32
  pm_opcode :: u32
  pm_size :: u32
  pm_data :: nat

definition wldbg_parse_message :: "bytes \<Rightarrow> (bool \<times> parsed_message) res" where
  "wldbg_parse_message m =
     rbind (load32 m 0) (\<lambda>p0.
     rbind (load32 m 4) (\<lambda>p1.
       let out = \<lparr>pm_id = p0, pm_opcode = p1 AND 0xffff, pm_size = drop_bit 16 p1, pm_data = 8\<rparr>
       in if pm_size out < 8 \<or> pm_size out mod 4 \<noteq> 0 then Inr (False, out) else Inr (True, out)))"

section \<open>Resolution\<close>

record resolved_arg =
  arg_type :: char
  arg_nullable :: bool
  arg_data :: "nat option"

record resolved_message =
  rm_base :: parsed_message
  rm_interface :: "iptr option"
  rm_message :: "wl_message option"
  rm_cur_arg :: resolved_arg
  rm_signature :: "string option"
  rm_position :: "nat option"

definition zero_arg :: resolved_arg where
  "zero_arg = \<lparr>arg_type = nul, arg_nullable = False, arg_data = None\<rparr>"

definition zero_resolved :: resolved_message where
  "zero_resolved = \<lparr>rm_base = \<lparr>pm_id = 0, pm_opcode = 0, pm_size = 0, pm_data = 0\<rparr>,
     rm_interface = None, rm_message = None, rm_cur_arg = zero_arg, rm_signature = None,
     rm_position = None\<rparr>"

definition is_valid_interface :: "imem \<Rightarrow> iptr option \<Rightarrow> bool" where
  "is_valid_interface im p =
     (case p of None \<Rightarrow> False | Some q \<Rightarrow> \<not> intf_version (intf_at im q) < 0)"

definition wldbg_resolve_message ::
    "imem \<Rightarrow> resolved_objects option \<Rightarrow> side \<Rightarrow> bytes \<Rightarrow> (bool \<times> resolved_message) res" where
  "wldbg_resolve_message im ro from m =
     rbind (wldbg_parse_message m) (\<lambda>(ok, base).
       let out = zero_resolved\<lparr>rm_base := base\<rparr> in
       if \<not> ok then Inr (False, out)
       else if ro = None then Inr (False, out)
       else
         let p = wldbg_message_get_object ro (pm_id base) in
         if \<not> is_valid_interface im p then Inr (False, out)
         else
           let intf = intf_at im (the p); out = out\<lparr>rm_interface := p\<rparr> in
           if (word_of_int (side_count from intf) :: u32) \<le> pm_opcode base then Inr (False, out)
           else
             rbind (nth_res (side_messages from intf) (unat (pm_opcode base))) (\<lambda>wm.
               Inr (wlm_signature wm \<noteq> None, out\<lparr>rm_message := Some wm\<rparr>)))"

section \<open>Argument iterator\<close>

fun sig_loop :: "string \<Rightarrow> bool \<Rightarrow> string \<times> bool" where
  "sig_loop [] nullable = ([], nullable)"
| "sig_loop (c # sg) nullable =
     (if c = CHR ''?'' \<or> is_digit c
      then sig_loop sg (if c = CHR ''?'' then True else nullable)
      else (c # sg, nullable))"

definition signature_get_type :: "string \<Rightarrow> string \<times> bool" where
  "signature_get_type sg = sig_loop sg False"

definition get_data_ptr :: "bytes \<Rightarrow> char \<Rightarrow> nat \<Rightarrow> nat option res" where
  "get_data_ptr m c pos =
     (if c = CHR ''a'' \<or> c = CHR ''s'' then
        rbind (load32 m pos) (\<lambda>n. Inr (if n = 0 then None else Some (pos + 4)))
      else Inr (Some pos))"

definition initialize_iterator :: "bytes \<Rightarrow> resolved_message \<Rightarrow> resolved_message res" where
  "initialize_iterator m rm =
     (case rm_message rm of
        None \<Rightarrow> Inl NullDeref
      | Some wm \<Rightarrow>
          (case wlm_signature wm of
             None \<Rightarrow> Inl AssertFailed
           | Some s0 \<Rightarrow>
               let (sg, nullable) = signature_get_type s0; pos = pm_data (rm_base rm); c = chr_at sg in
               rbind (get_data_ptr m c pos) (\<lambda>d.
               rbind (rassert (c = nul \<or> c = CHR ''a'' \<or> c = CHR ''s'' \<or> d \<noteq> None)) (\<lambda>_.
                 Inr (rm\<lparr>rm_signature := Some sg, rm_position := Some pos,
                      rm_cur_arg := \<lparr>arg_type = c, arg_nullable = nullable, arg_data = d\<rparr>\<rparr>)))))"

definition wldbg_resolved_message_reset_iterator :: "resolved_message \<Rightarrow> resolved_message" where
  "wldbg_resolved_message_reset_iterator rm =
     rm\<lparr>rm_signature := None, rm_position := None, rm_cur_arg := zero_arg\<rparr>"

text \<open>The \<open>switch\<close> that moves past the argument of type \<open>c\<close> at \<open>pos\<close>.\<close>

definition advance :: "bytes \<Rightarrow> char \<Rightarrow> nat \<Rightarrow> nat res" where
  "advance m c pos =
     (if c \<in> {CHR ''u'', CHR ''i'', CHR ''f'', CHR ''o'', CHR ''n'', CHR ''h''} then Inr (pos + 4)
      else if c = CHR ''s'' \<or> c = CHR ''a'' then
        rbind (load32 m pos) (\<lambda>n.
          Inr (if n = 0 then pos + 4 else pos + 4 * (div_roundup4 (unat n) + 1)))
      else Inr pos)"

definition wldbg_resolved_message_next_argument ::
    "bytes \<Rightarrow> resolved_message \<Rightarrow> (resolved_arg option \<times> resolved_message) res" where
  "wldbg_resolved_message_next_argument m rm =
     (case rm_signature rm of
        None \<Rightarrow>
          rbind (initialize_iterator m rm) (\<lambda>rm'.
            Inr (if arg_type (rm_cur_arg rm') = nul then None else Some (rm_cur_arg rm'), rm'))
      | Some [] \<Rightarrow> Inr (None, rm)
      | Some (c # rest) \<Rightarrow>
          let (sg, nullable) = signature_get_type rest;
              rm1 = rm\<lparr>rm_signature := Some sg,
                       rm_cur_arg := (rm_cur_arg rm)\<lparr>arg_nullable := nullable, arg_type := chr_at sg\<rparr>\<rparr>
          in if sg = [] then Inr (None, rm1)
             else
               case rm_position rm of
                 None \<Rightarrow> Inl NullDeref
               | Some pos \<Rightarrow>
                   rbind (advance m c pos) (\<lambda>pos'.
                   rbind (get_data_ptr m (chr_at sg) pos') (\<lambda>d.
                     let arg = (rm_cur_arg rm1)\<lparr>arg_data := d\<rparr> in
                     Inr (Some arg, rm1\<lparr>rm_position := Some pos', rm_cur_arg := arg\<rparr>))))"

text \<open>The loop \<open>while ((arg = wldbg_resolved_message_next_argument (&rm)))\<close> of the callers, with
  fuel; \<open>all_arguments_enough\<close> says how much is enough.\<close>

fun all_arguments :: "nat \<Rightarrow> bytes \<Rightarrow> resolved_message \<Rightarrow> (resolved_arg list \<times> resolved_message) res option" where
  "all_arguments 0 m rm = None"
| "all_arguments (Suc fuel) m rm =
     (case wldbg_resolved_message_next_argument m rm of
        Inl e \<Rightarrow> Some (Inl e)
      | Inr (None, rm') \<Rightarrow> Some (Inr ([], rm'))
      | Inr (Some a, rm') \<Rightarrow>
          (case all_arguments fuel m rm' of
             None \<Rightarrow> None
           | Some r \<Rightarrow> Some (rbind r (\<lambda>(as, rm''). Inr (a # as, rm'')))))"

section \<open>Names\<close>

definition wldbg_resolved_message_get_name ::
    "imem \<Rightarrow> resolved_message \<Rightarrow> nat \<Rightarrow> string res" where
  "wldbg_resolved_message_get_name im rm maxlen =
     (case (rm_interface rm, rm_message rm) of
        (Some p, Some wm) \<Rightarrow>
          Inr (fst (snprintf maxlen (intf_name (intf_at im p) @ ''@'' @ wlm_name wm)))
      | _ \<Rightarrow> Inl NullDeref)"

text \<open>The address of \<open>events[opcode]\<close> is taken before the first \<open>snprintf\<close> and read only in the
  second one, when the interface name has fitted.\<close>

definition wldbg_get_message_name ::
    "imem \<Rightarrow> resolved_objects option \<Rightarrow> side \<Rightarrow> bytes \<Rightarrow> nat \<Rightarrow> (string \<times> nat) res" where
  "wldbg_get_message_name im ro from m maxsize =
     rbind (wldbg_parse_message m) (\<lambda>(_, pm).
       let p = wldbg_message_get_object ro (pm_id pm);
           valid = is_valid_interface im p;
           (buf1, ret1) = snprintf maxsize (if valid then intf_name (intf_at im (the p)) else ''unknown'')
       in if maxsize \<le> ret1 then Inr (buf1, ret1)
          else
            rbind
              (if valid
               then rbind (nth_res (side_messages from (intf_at im (the p))) (unat (pm_opcode pm)))
                      (\<lambda>wm. Inr (wlm_name wm))
               else Inr (show_int (sint (pm_opcode pm))))
              (\<lambda>what.
                 let (buf2, ret2) = snprintf (maxsize - ret1) (''@'' @ show_int (sint (pm_id pm)) @ ''.'' @ what)
                 in Inr (buf1 @ buf2, ret1 + ret2)))"

section \<open>Facts about the header\<close>

lemma parse_message_total: "8 \<le> length m \<Longrightarrow> \<exists>ok pm. wldbg_parse_message m = Inr (ok, pm)"
proof -
  assume "8 \<le> length m"
  then obtain a b where "load32 m 0 = Inr a" "load32 m 4 = Inr b"
    using load32_in [of 0 m] load32_in [of 4 m] by auto
  then show ?thesis by (auto simp: wldbg_parse_message_def Let_def)
qed

lemma parse_message_words:
  assumes "load32 m 0 = Inr p0" "load32 m 4 = Inr p1"
  shows "wldbg_parse_message m =
    Inr (\<not> (drop_bit 16 p1 < 8 \<or> drop_bit 16 p1 mod 4 \<noteq> 0),
         \<lparr>pm_id = p0, pm_opcode = p1 AND 0xffff, pm_size = drop_bit 16 p1, pm_data = 8\<rparr>)"
  using assms by (simp add: wldbg_parse_message_def Let_def)

text \<open>The second header word as the senders build it: size in the upper half, opcode in the lower.\<close>

definition header_word :: "u32 \<Rightarrow> u32 \<Rightarrow> u32" where
  "header_word sz opcode = (push_bit 16 sz) OR (opcode AND 0xffff)"

lemma mask_ffff: "(0xffff :: u32) = mask 16"
  by (simp add: mask_eq_exp_minus_1)

lemma header_word_opcode: "header_word sz opcode AND 0xffff = opcode AND 0xffff"
  unfolding header_word_def mask_ffff
  by (rule bit_eqI) (auto simp: bit_simps)

lemma header_word_size:
  assumes "sz < 0x10000"
  shows "drop_bit 16 (header_word sz opcode) = sz"
proof (rule bit_eqI)
  fix n
  assume n: "possible_bit TYPE(u32) n"
  have "sz = take_bit 16 sz"
    using assms by (simp add: word_unat_eq_iff unsigned_take_bit_eq take_bit_nat_eq_self word_less_nat_alt)
  then have "16 \<le> n \<Longrightarrow> \<not> bit sz n" by (metis bit_take_bit_iff not_less)
  then have "bit sz n \<Longrightarrow> n < 16" by (meson not_less)
  with n show "bit (drop_bit 16 (header_word sz opcode)) n = bit sz n"
    unfolding header_word_def mask_ffff by (auto simp: bit_simps)
qed

lemma resolve_message_outcome:
  assumes "imem_wf im" "8 \<le> length m"
  shows "\<exists>ok rm. wldbg_resolve_message im ro sd m = Inr (ok, rm) \<and>
    (ok \<longrightarrow> wldbg_parse_message m = Inr (True, rm_base rm) \<and>
      (\<exists>p wm. wldbg_message_get_object ro (pm_id (rm_base rm)) = Some p \<and>
         is_valid_interface im (Some p) \<and> rm_interface rm = Some p \<and> rm_message rm = Some wm \<and>
         wm \<in> set (side_messages sd (intf_at im p)) \<and> wlm_signature wm \<noteq> None))"
proof -
  obtain ok pm where pm: "wldbg_parse_message m = Inr (ok, pm)"
    using parse_message_total [OF assms(2)] by blast
  have tab: "\<not> word_of_int (side_count sd (intf_at im p)) \<le> opc \<Longrightarrow>
      unat (opc :: u32) < length (side_messages sd (intf_at im p))" for p opc
    by (rule opcode_in_table [OF intf_wf_at [OF assms(1)]])
  show ?thesis
    using tab pm by (auto simp: wldbg_resolve_message_def Let_def zero_resolved_def is_valid_interface_def
        split: option.splits)
qed

section \<open>Properties\<close>

text \<open>C32: On well-formed interface tables, resolving any message of at least eight bytes ends
  without a fault whatever its opcode, and when it succeeds the header was valid, the object is
  known and not a deleted one, and the message description is an entry of the table of its
  interface that has a signature.\<close>

theorem resolve_message_safe:
  assumes "imem_wf im" "8 \<le> length m"
  shows "\<exists>ok rm. wldbg_resolve_message im ro sd m = Inr (ok, rm) \<and>
    (ok \<longrightarrow> wldbg_parse_message m = Inr (True, rm_base rm) \<and>
      (\<exists>p wm. wldbg_message_get_object ro (pm_id (rm_base rm)) = Some p \<and>
         is_valid_interface im (Some p) \<and> rm_interface rm = Some p \<and> rm_message rm = Some wm \<and>
         wm \<in> set (side_messages sd (intf_at im p)) \<and> wlm_signature wm \<noteq> None))"
  using resolve_message_outcome [OF assms] .

theorem resolve_message_safe_witness:
  "\<exists>ok rm. wldbg_resolve_message (\<lambda>_. wl_drm_interface (\<lambda>_. Iface 0)) None CLIENT
     (bytes32 1 @ bytes32 0xffffffff) = Inr (ok, rm)"
  using resolve_message_safe [of "\<lambda>_. wl_drm_interface (\<lambda>_. Iface 0)" "bytes32 1 @ bytes32 0xffffffff" None CLIENT]
  by (auto simp: imem_wf_def protocol_tables_wf)

text \<open>\<open>wldbg_get_message_name\<close>, unlike \<open>wldbg_resolve_message\<close>, does not check the opcode: it
  reads past the table of the interface exactly when the object is known, the interface name fits
  the buffer and the opcode is not one of the interface, and it has no other fault.\<close>

theorem get_message_name_overread:
  assumes "wldbg_parse_message m = Inr (ok, pm)"
  shows "(\<exists>e. wldbg_get_message_name im ro sd m maxsize = Inl e) \<longleftrightarrow>
    (\<exists>p. wldbg_message_get_object ro (pm_id pm) = Some p \<and> is_valid_interface im (Some p) \<and>
       length (intf_name (intf_at im p)) < maxsize \<and>
       length (side_messages sd (intf_at im p)) \<le> unat (pm_opcode pm))"
proof (cases "is_valid_interface im (wldbg_message_get_object ro (pm_id pm))")
  case True
  then obtain p where p: "wldbg_message_get_object ro (pm_id pm) = Some p"
    by (auto simp: is_valid_interface_def split: option.splits)
  show ?thesis
    using assms True
    by (cases "length (intf_name (intf_at im p)) < maxsize")
       (simp_all add: p wldbg_get_message_name_def snprintf_def nth_res_def)
next
  case False
  then show ?thesis
    using assms by (auto simp: wldbg_get_message_name_def snprintf_def Let_def)
qed

theorem get_message_name_overread_witness:
  "\<exists>e. wldbg_get_message_name (\<lambda>_. xdg_popup_interface (\<lambda>_. Iface 0))
      (Some \<lparr>ro_client = \<lparr>map_count = 1, map_data = \<lparr>arr_size = 8, arr_alloc = 16,
               arr_data = [Some (Iface 3), None]\<rparr>\<rparr>,
             ro_server = wldbg_ids_map_init, ro_interfaces = [], ro_additional = []\<rparr>)
      CLIENT (bytes32 0 @ bytes32 0x00080007) 128 = Inl e"
proof -
  have "load32 (bytes32 0 @ bytes32 0x00080007) 0 = Inr 0"
    "load32 (bytes32 0 @ bytes32 0x00080007) 4 = Inr 0x00080007"
    using load32_words_bytes [of 0 "[0, 0x00080007]" "[]"] load32_words_bytes [of 1 "[0, 0x00080007]" "[]"]
    by simp_all
  then have p: "wldbg_parse_message (bytes32 0 @ bytes32 0x00080007) =
      Inr (True, \<lparr>pm_id = 0, pm_opcode = 7, pm_size = 8, pm_data = 8\<rparr>)"
    by (simp add: wldbg_parse_message_def)
  show ?thesis unfolding get_message_name_overread [OF p]
    by (simp add: wldbg_message_get_object_def resolved_objects_get_def WL_SERVER_ID_START_def
        wldbg_ids_map_get_def is_valid_interface_def xdg_popup_interface_def side_messages_def)
qed

end
