(* ===== verification/Message_Args.thy ===== *)
theory Message_Args
  imports Parse_Message
begin

text \<open>
  The argument iterator against a specification: the signature as a list of argument types, a
  decoder that is one recursion over it, and the encoding of arguments on the wire.  The lemmas
  show that draining the iterator is the decoder, that it stops, and that it finds every argument
  a sender encoded.
\<close>

section \<open>Signatures as lists of types\<close>

fun sig_args :: "string \<Rightarrow> bool \<Rightarrow> (char \<times> bool) list" where
  "sig_args [] nullable = []"
| "sig_args (c # sg) nullable =
     (if c = CHR ''?'' then sig_args sg True
      else if is_digit c then sig_args sg nullable
      else (c, nullable) # sig_args sg False)"

lemma sig_loop_args:
  "sig_loop sg b = (r, nl) \<Longrightarrow>
     sig_args sg b = (case r of [] \<Rightarrow> [] | c # r' \<Rightarrow> (c, nl) # sig_args r' False)"
  by (induction sg b rule: sig_loop.induct) (auto split: if_splits)

lemma sig_loop_Cons_set: "sig_loop sg b = (c # r, nl) \<Longrightarrow> c \<in> set sg \<and> set r \<subseteq> set sg"
  by (induction sg b rule: sig_loop.induct) (auto split: if_splits)

lemma length_sig_args: "length (sig_args sg b) \<le> length sg"
  by (induction sg b rule: sig_args.induct) auto

fun decode_args :: "bytes \<Rightarrow> (char \<times> bool) list \<Rightarrow> nat \<Rightarrow> resolved_arg list res" where
  "decode_args m [] pos = Inr []"
| "decode_args m ((c, nl) # ts) pos =
     rbind (get_data_ptr m c pos) (\<lambda>d.
       let a = \<lparr>arg_type = c, arg_nullable = nl, arg_data = d\<rparr> in
       if ts = [] then Inr [a]
       else rbind (advance m c pos) (\<lambda>pos'.
            rbind (decode_args m ts pos') (\<lambda>as. Inr (a # as))))"

section \<open>Draining the iterator\<close>

definition drained :: "(resolved_arg list \<times> resolved_message) res \<Rightarrow> resolved_arg list res" where
  "drained r = rbind r (\<lambda>(as, _). Inr as)"

definition at_end :: "resolved_message \<Rightarrow> bool" where
  "at_end rm \<longleftrightarrow> rm_signature rm = Some []"

lemma next_argument_start:
  "rm_signature rm = None \<Longrightarrow> wldbg_resolved_message_next_argument m rm =
     rbind (initialize_iterator m rm) (\<lambda>rm'.
       Inr (if arg_type (rm_cur_arg rm') = nul then None else Some (rm_cur_arg rm'), rm'))"
  by (simp add: wldbg_resolved_message_next_argument_def)

lemma drained_simps [simp]:
  "drained (Inr (as, rm)) = Inr as" "drained (Inl e) = Inl e"
  by (simp_all add: drained_def)

lemma drained_Cons:
  "drained (rbind r (\<lambda>(as, rm). Inr (a # as, rm))) = rbind (drained r) (\<lambda>as. Inr (a # as))"
  by (cases r) (auto simp: drained_def)

lemma next_argument_running:
  assumes "rm_signature rm = Some (c # rest)" "rm_position rm = Some pos"
  shows "wldbg_resolved_message_next_argument m rm =
    (case sig_loop rest False of
       ([], nl) \<Rightarrow> Inr (None, rm\<lparr>rm_signature := Some [],
         rm_cur_arg := (rm_cur_arg rm)\<lparr>arg_nullable := nl, arg_type := nul\<rparr>\<rparr>)
     | (d # r, nl) \<Rightarrow>
         rbind (advance m c pos) (\<lambda>pos'.
         rbind (get_data_ptr m d pos') (\<lambda>p.
           let a = \<lparr>arg_type = d, arg_nullable = nl, arg_data = p\<rparr> in
           Inr (Some a, rm\<lparr>rm_signature := Some (d # r), rm_position := Some pos', rm_cur_arg := a\<rparr>))))"
  using assms
  by (cases "sig_loop rest False"; cases "rm_cur_arg rm")
     (auto simp: wldbg_resolved_message_next_argument_def signature_get_type_def Let_def
       intro!: rbind_cong split: list.splits)

lemma drain_running:
  assumes "rm_signature rm = Some (c # rest)" "rm_position rm = Some pos"
    "length (sig_args rest False) < fuel"
  shows "\<exists>r. all_arguments fuel m rm = Some r \<and>
    drained r = (if sig_args rest False = [] then Inr []
                 else rbind (advance m c pos) (decode_args m (sig_args rest False))) \<and>
    (\<forall>as rm'. r = Inr (as, rm') \<longrightarrow> at_end rm')"
  using assms
proof (induction fuel arbitrary: rm c rest pos)
  case (Suc fuel)
  obtain sg nl where sl: "sig_loop rest False = (sg, nl)" by fastforce
  note next_eq = next_argument_running [OF Suc.prems(1,2), of m]
  show ?case
  proof (cases sg)
    case Nil
    with sl have "sig_args rest False = []" using sig_loop_args by fastforce
    then show ?thesis using next_eq sl Nil by (simp add: at_end_def)
  next
    case (Cons d r)
    with sl have toks: "sig_args rest False = (d, nl) # sig_args r False"
      using sig_loop_args by fastforce
    show ?thesis
    proof (cases "advance m c pos")
      case (Inl e)
      then show ?thesis using next_eq sl Cons toks by simp
    next
      case adv: (Inr pos')
      show ?thesis
      proof (cases "get_data_ptr m d pos'")
        case (Inl e)
        then show ?thesis using next_eq sl Cons toks adv by simp
      next
        case (Inr p)
        let ?a = "\<lparr>arg_type = d, arg_nullable = nl, arg_data = p\<rparr>"
        let ?rm = "rm\<lparr>rm_signature := Some (d # r), rm_position := Some pos', rm_cur_arg := ?a\<rparr>"
        have nx: "wldbg_resolved_message_next_argument m rm = Inr (Some ?a, ?rm)"
          using next_eq sl Cons adv Inr by (simp add: Let_def)
        have "length (sig_args r False) < fuel" using Suc.prems(3) toks by simp
        then obtain q where q: "all_arguments fuel m ?rm = Some q"
          "drained q = (if sig_args r False = [] then Inr []
             else rbind (advance m d pos') (decode_args m (sig_args r False)))"
          "\<forall>as rm'. q = Inr (as, rm') \<longrightarrow> at_end rm'"
          using Suc.IH [of ?rm d r pos'] by auto
        have "drained (rbind q (\<lambda>(as, rm''). Inr (?a # as, rm''))) =
            decode_args m (sig_args rest False) pos'"
          using q(2) Inr toks by (simp add: drained_Cons rbind_assoc Let_def)
        moreover have "\<forall>as rm'. rbind q (\<lambda>(as, rm''). Inr (?a # as, rm'')) = Inr (as, rm') \<longrightarrow> at_end rm'"
          using q(3) by (auto simp: rbind_eq_Inr)
        ultimately show ?thesis using nx q(1) adv toks by simp
      qed
    qed
  qed
qed simp

lemma drain_from_reset:
  assumes "rm_message rm = Some wm" "wlm_signature wm = Some sg" "nul \<notin> set sg"
    and fuel: "length sg < fuel"
  shows "\<exists>r. all_arguments fuel m (wldbg_resolved_message_reset_iterator rm) = Some r \<and>
    drained r = decode_args m (sig_args sg False) (pm_data (rm_base rm)) \<and>
    (\<forall>as rm'. r = Inr (as, rm') \<longrightarrow> at_end rm')"
proof -
  let ?start = "wldbg_resolved_message_reset_iterator rm" and ?pos = "pm_data (rm_base rm)"
  obtain f where f: "fuel = Suc f" using fuel by (cases fuel) auto
  obtain r nl where sl: "sig_loop sg False = (r, nl)" by fastforce
  show ?thesis
  proof (cases r)
    case Nil
    then have "sig_args sg False = []" using sl sig_loop_args by fastforce
    then show ?thesis using assms sl Nil f
      by (simp add: wldbg_resolved_message_next_argument_def initialize_iterator_def at_end_def
          wldbg_resolved_message_reset_iterator_def signature_get_type_def get_data_ptr_def nul_def chr_at_def rassert_def Let_def)
  next
    case (Cons c rest)
    have toks: "sig_args sg False = (c, nl) # sig_args rest False"
      using sl Cons sig_loop_args by fastforce
    have c: "c \<noteq> nul" using sl Cons sig_loop_Cons_set assms(3) by blast
    show ?thesis
    proof (cases "get_data_ptr m c ?pos")
      case (Inl e)
      then show ?thesis using assms sl Cons f toks
        by (simp add: wldbg_resolved_message_next_argument_def initialize_iterator_def
            wldbg_resolved_message_reset_iterator_def signature_get_type_def Let_def)
    next
      case (Inr d)
      let ?a = "\<lparr>arg_type = c, arg_nullable = nl, arg_data = d\<rparr>"
      let ?rm = "?start\<lparr>rm_signature := Some (c # rest), rm_position := Some ?pos, rm_cur_arg := ?a\<rparr>"
      have "c = CHR ''a'' \<or> c = CHR ''s'' \<or> d \<noteq> None"
        using Inr by (auto simp: get_data_ptr_def)
      then have "initialize_iterator m ?start = Inr ?rm"
        using assms sl Cons Inr
        by (auto simp: initialize_iterator_def wldbg_resolved_message_reset_iterator_def
            signature_get_type_def rassert_def Let_def)
      then have nx: "wldbg_resolved_message_next_argument m ?start = Inr (Some ?a, ?rm)"
        using c by (simp add: next_argument_start wldbg_resolved_message_reset_iterator_def)
      have "length (sig_args rest False) < f"
        using fuel f length_sig_args [of sg False] toks by simp
      then obtain q where q: "all_arguments f m ?rm = Some q"
        "drained q = (if sig_args rest False = [] then Inr []
           else rbind (advance m c ?pos) (decode_args m (sig_args rest False)))"
        "\<forall>as rm'. q = Inr (as, rm') \<longrightarrow> at_end rm'"
        using drain_running [of ?rm c rest ?pos f m] by auto
      have "drained (rbind q (\<lambda>(as, rm''). Inr (?a # as, rm''))) =
          decode_args m (sig_args sg False) ?pos"
        using q(2) Inr toks by (simp add: drained_Cons rbind_assoc Let_def)
      moreover have "\<forall>as rm'. rbind q (\<lambda>(as, rm''). Inr (?a # as, rm'')) = Inr (as, rm') \<longrightarrow> at_end rm'"
        using q(3) by (auto simp: rbind_eq_Inr)
      ultimately show ?thesis using nx q(1) f by simp
    qed
  qed
qed

section \<open>Arguments on the wire\<close>

text \<open>What a sender puts into the body of a message: a word for \<open>i u f o n\<close>, a length, the bytes
  and the padding for \<open>s a\<close> (an absent string has length 0; the terminating nul of a string is
  one of its bytes).\<close>

datatype wire_arg = WWord u32 | WBlob bytes

fun wire_bytes :: "wire_arg \<Rightarrow> bytes" where
  "wire_bytes (WWord w) = bytes32 w"
| "wire_bytes (WBlob bs) =
     bytes32 (of_nat (length bs)) @ bs @ replicate (4 * div_roundup4 (length bs) - length bs) 0"

definition wire_body :: "wire_arg list \<Rightarrow> bytes" where
  "wire_body as = concat (map wire_bytes as)"

definition wire_fits :: "char \<times> bool \<Rightarrow> wire_arg \<Rightarrow> bool" where
  "wire_fits t a =
     (case a of
        WWord _ \<Rightarrow> fst t \<in> set ''uifon''
      | WBlob bs \<Rightarrow> fst t \<in> set ''sa'' \<and> length bs < 2 ^ 32)"

text \<open>What a consumer of the iterator reads through \<open>arg->data\<close>.\<close>

definition read_arg :: "bytes \<Rightarrow> resolved_arg \<Rightarrow> wire_arg res" where
  "read_arg m a =
     (if arg_type a \<in> set ''sa'' then
        (case arg_data a of
           None \<Rightarrow> Inr (WBlob [])
         | Some d \<Rightarrow>
             rbind (load32 m (d - 4)) (\<lambda>n.
               if d + unat n \<le> length m then Inr (WBlob (take (unat n) (drop d m))) else Inl OutOfBounds))
      else
        (case arg_data a of
           None \<Rightarrow> Inl NullDeref
         | Some d \<Rightarrow> rbind (load32 m d) (\<lambda>w. Inr (WWord w))))"

lemma wire_body_simps [simp]:
  "wire_body [] = []" "wire_body (a # as) = wire_bytes a @ wire_body as"
  by (simp_all add: wire_body_def)

lemma length_wire_blob: "length (wire_bytes (WBlob bs)) = 4 + 4 * div_roundup4 (length bs)"
  using div_roundup4_bounds(1) [of "length bs"] by simp

lemma load32_at: "load32 (pre @ bytes32 w @ post) (length pre) = Inr w"
  using load32_append_right [of pre "length pre" "bytes32 w @ post"] by (simp add: load32_bytes32)

lemma blob_length: "length bs < 2 ^ 32 \<Longrightarrow> unat (of_nat (length bs) :: u32) = length bs"
  by (simp add: unat_of_nat)

lemma wire_advance:
  assumes "wire_fits (c, nl) a"
  shows "advance (pre @ wire_bytes a @ post) c (length pre) = Inr (length pre + length (wire_bytes a))"
proof (cases a)
  case (WWord w)
  with assms show ?thesis by (auto simp: wire_fits_def advance_def)
next
  case (WBlob bs)
  have ld: "load32 (pre @ wire_bytes a @ post) (length pre) = Inr (of_nat (length bs))"
    using WBlob by (simp add: load32_at)
  have len: "unat (of_nat (length bs) :: u32) = length bs" and c: "c = CHR ''s'' \<or> c = CHR ''a''"
    using assms WBlob by (auto simp: wire_fits_def blob_length)
  then have z: "of_nat (length bs) = (0 :: u32) \<longleftrightarrow> length bs = 0"
    by (metis unat_eq_0)
  show ?thesis
    using c ld WBlob len z length_wire_blob [of bs] by (auto simp: advance_def div_roundup4_def)
qed

lemma wire_read:
  assumes "wire_fits (c, nl) a"
  shows "\<exists>d. get_data_ptr (pre @ wire_bytes a @ post) c (length pre) = Inr d \<and>
    read_arg (pre @ wire_bytes a @ post) \<lparr>arg_type = c, arg_nullable = nl, arg_data = d\<rparr> = Inr a"
proof (cases a)
  case (WWord w)
  with assms show ?thesis
    by (auto simp: wire_fits_def get_data_ptr_def read_arg_def load32_at)
next
  case (WBlob bs)
  let ?m = "pre @ wire_bytes a @ post"
  have ld: "load32 ?m (length pre) = Inr (of_nat (length bs))"
    using WBlob by (simp add: load32_at)
  have len: "unat (of_nat (length bs) :: u32) = length bs" and c: "c = CHR ''s'' \<or> c = CHR ''a''"
    using assms WBlob by (auto simp: wire_fits_def blob_length)
  then have z: "of_nat (length bs) = (0 :: u32) \<longleftrightarrow> length bs = 0"
    by (metis unat_eq_0)
  have "take (length bs) (drop (length pre + 4) ?m) = bs" "length pre + 4 + length bs \<le> length ?m"
    using WBlob by simp_all
  then show ?thesis
    using c ld WBlob len z by (auto simp: get_data_ptr_def read_arg_def)
qed

section \<open>A whole message\<close>

definition message_bytes :: "u32 \<Rightarrow> u32 \<Rightarrow> wire_arg list \<Rightarrow> bytes" where
  "message_bytes oid opcode as =
     bytes32 oid @ bytes32 (header_word (of_nat (8 + length (wire_body as))) opcode) @ wire_body as"

lemma length_wire_bytes_mod4: "length (wire_bytes a) mod 4 = 0"
proof (cases a)
  case (WBlob bs)
  then show ?thesis using length_wire_blob [of bs] by (simp only:) presburger
qed simp

lemma length_wire_body_mod4: "length (wire_body as) mod 4 = 0"
proof (induction as)
  case (Cons a as)
  then show ?case using length_wire_bytes_mod4 [of a] by simp presburger
qed simp

lemma length_message_bytes: "length (message_bytes oid opcode as) = 8 + length (wire_body as)"
  by (simp add: message_bytes_def)

lemma parse_message_bytes:
  assumes "8 + length (wire_body as) < 2 ^ 16" "opcode < 2 ^ 16"
  shows "wldbg_parse_message (message_bytes oid opcode as @ post) =
    Inr (True, \<lparr>pm_id = oid, pm_opcode = opcode, pm_size = of_nat (8 + length (wire_body as)), pm_data = 8\<rparr>)"
proof -
  let ?n = "8 + length (wire_body as)" and ?m = "message_bytes oid opcode as @ post"
  have n: "unat (of_nat ?n :: u32) = ?n"
    using assms(1) by (simp only: unat_of_nat, intro take_bit_nat_eq_self [unfolded take_bit_nat_def]) simp
  have sz: "(of_nat ?n :: u32) < 0x10000" using assms(1) by (simp only: word_less_nat_alt n) simp
  have size: "drop_bit 16 (header_word (of_nat ?n) opcode) = of_nat ?n"
    by (rule header_word_size [OF sz])
  have "take_bit 16 opcode = opcode"
    using assms(2) by (simp add: word_unat_eq_iff unsigned_take_bit_eq take_bit_nat_eq_self word_less_nat_alt)
  then have "opcode AND 0xffff = opcode" by (simp add: mask_ffff take_bit_eq_mask)
  then have opc: "header_word (of_nat ?n) opcode AND 0xffff = opcode"
    using header_word_opcode by simp
  have l0: "load32 ?m 0 = Inr oid" by (simp add: message_bytes_def load32_bytes32)
  have l4: "load32 ?m 4 = Inr (header_word (of_nat ?n) opcode)"
    using load32_at [of "bytes32 oid" "header_word (of_nat ?n) opcode" "wire_body as @ post"]
    by (simp add: message_bytes_def)
  have ge: "\<not> (of_nat ?n :: u32) < 8" by (simp only: word_less_nat_alt n) simp
  have "unat ((of_nat ?n :: u32) mod 4) = ?n mod 4" by (simp only: unat_mod n) simp
  also have "?n mod 4 = 0" using length_wire_body_mod4 [of as] by presburger
  finally have "(of_nat ?n :: u32) mod 4 = 0" by (simp only: unat_eq_0)
  with ge show ?thesis unfolding parse_message_words [OF l0 l4] size opc by simp
qed

lemma resolve_message_known:
  assumes "wldbg_parse_message m = Inr (True, base)"
    and "wldbg_message_get_object (Some ro) (pm_id base) = Some p"
    and "is_valid_interface im (Some p)" "intf_wf (intf_at im p)"
    and "pm_opcode base < word_of_int (side_count sd (intf_at im p))"
  shows "wldbg_resolve_message im (Some ro) sd m =
    Inr (wlm_signature (side_messages sd (intf_at im p) ! unat (pm_opcode base)) \<noteq> None,
         zero_resolved\<lparr>rm_base := base, rm_interface := Some p,
           rm_message := Some (side_messages sd (intf_at im p) ! unat (pm_opcode base))\<rparr>)"
proof -
  have "\<not> word_of_int (side_count sd (intf_at im p)) \<le> pm_opcode base"
    using assms(5) by (simp add: not_le)
  with assms opcode_in_table [OF assms(4) this] show ?thesis
    by (simp add: wldbg_resolve_message_def Let_def)
qed

text \<open>What a consumer that asks for one argument after the other sees.\<close>

fun reads :: "bytes \<Rightarrow> resolved_message \<Rightarrow> resolved_arg list \<Rightarrow> bool" where
  "reads m rm [] \<longleftrightarrow> (\<exists>rm'. wldbg_resolved_message_next_argument m rm = Inr (None, rm'))"
| "reads m rm (a # as) \<longleftrightarrow>
     (\<exists>rm'. wldbg_resolved_message_next_argument m rm = Inr (Some a, rm') \<and> reads m rm' as)"

lemma all_arguments_reads: "all_arguments fuel m rm = Some (Inr (as, rm')) \<Longrightarrow> reads m rm as"
  by (induction fuel arbitrary: rm as) (auto simp: rbind_eq_Inr split: sum.splits option.splits prod.splits)

section \<open>Messages with descriptors\<close>

text \<open>The values of a message, one for each argument of the signature.  A file descriptor travels
  beside the bytes and leaves none in the body: it is \<open>None\<close> here.  The iterator steps over a word
  for it all the same, so behind the first descriptor every argument is looked for one word too far
  for each descriptor before it.\<close>

definition sent_fits :: "char \<times> bool \<Rightarrow> wire_arg option \<Rightarrow> bool" where
  "sent_fits t v = (case v of None \<Rightarrow> fst t = CHR ''h'' | Some a \<Rightarrow> wire_fits t a)"

definition carried :: "wire_arg option list \<Rightarrow> wire_arg list" where
  "carried vs = map the (filter (\<lambda>v. v \<noteq> None) vs)"

definition is_word :: "wire_arg \<Rightarrow> bool" where
  "is_word a = (case a of WWord _ \<Rightarrow> True | WBlob _ \<Rightarrow> False)"

definition word_tail :: "wire_arg option list \<Rightarrow> bool" where
  "word_tail vs = list_all is_word (carried (dropWhile (\<lambda>v. v \<noteq> None) vs))"

text \<open>The \<open>k\<close>-th word from the place of the first descriptor on: the words sent behind it, then
  the memory behind the message.\<close>

definition behind_descriptor :: "wire_arg list \<Rightarrow> bytes \<Rightarrow> nat \<Rightarrow> wire_arg res" where
  "behind_descriptor ws post k =
     (if k < length ws then Inr (ws ! k)
      else rbind (load32 post (4 * (k - length ws))) (\<lambda>w. Inr (WWord w)))"

definition seen :: "wire_arg option list \<Rightarrow> bytes \<Rightarrow> wire_arg res list" where
  "seen vs post =
     (let us = dropWhile (\<lambda>v. v \<noteq> None) vs in
      map (\<lambda>v. Inr (the v)) (takeWhile (\<lambda>v. v \<noteq> None) vs) @
      map (behind_descriptor (carried us) post) [0..<length us])"

lemma carried_simps [simp]:
  "carried [] = []" "carried (None # vs) = carried vs" "carried (Some a # vs) = a # carried vs"
  by (simp_all add: carried_def)

lemma carried_all: "carried (map Some as) = as"
  by (induction as) simp_all

lemma seen_Some: "seen (Some a # vs) post = Inr a # seen vs post"
  by (simp add: seen_def Let_def)

lemma seen_all: "seen (map Some as) post = map Inr as"
  by (induction as) (simp_all add: seen_Some, simp add: seen_def)

lemma seen_cases:
  "seen vs post =
     (if None \<notin> set vs then map (\<lambda>v. Inr (the v)) vs
      else map (\<lambda>v. Inr (the v)) (takeWhile (\<lambda>v. v \<noteq> None) vs) @
        map (behind_descriptor (carried (dropWhile (\<lambda>v. v \<noteq> None) vs)) post)
          [0..<length (dropWhile (\<lambda>v. v \<noteq> None) vs)])"
proof (cases "None \<in> set vs")
  case False
  then have "dropWhile (\<lambda>v. v \<noteq> None) vs = []" "takeWhile (\<lambda>v. v \<noteq> None) vs = vs"
    by (simp_all only: dropWhile_eq_Nil_conv takeWhile_eq_all_conv) metis+
  then show ?thesis using False unfolding seen_def Let_def by (simp only: if_True not_False_eq_True list.map list.size upt_0 append_Nil2)
qed (simp add: seen_def Let_def)

lemma word_tail_all: "word_tail (map Some as)"
  by (induction as) (simp_all add: word_tail_def)

lemma sent_fits_all: "list_all2 sent_fits ts (map Some as) = list_all2 wire_fits ts as"
  by (simp add: list_all2_map2 sent_fits_def)

text \<open>Where only words are read, the \<open>k\<close>-th argument is the \<open>k\<close>-th word.\<close>

lemma decode_words:
  assumes "list_all (\<lambda>t. fst t \<in> set ''uifonh'') ts"
  shows "\<exists>args. decode_args m ts pos = Inr args \<and>
    map (\<lambda>a. (arg_type a, arg_nullable a)) args = ts \<and>
    map arg_data args = map (\<lambda>k. Some (pos + 4 * k)) [0..<length ts]"
  using assms
proof (induction ts arbitrary: pos)
  case (Cons t ts)
  obtain c nl where t: "t = (c, nl)" by (cases t)
  have c: "get_data_ptr m c pos = Inr (Some pos)" "advance m c pos = Inr (pos + 4)"
    using Cons.prems t by (auto simp: get_data_ptr_def advance_def)
  obtain args where args: "decode_args m ts (pos + 4) = Inr args"
    "map (\<lambda>a. (arg_type a, arg_nullable a)) args = ts"
    "map arg_data args = map (\<lambda>k. Some (pos + 4 + 4 * k)) [0..<length ts]"
    using Cons.IH [of "pos + 4"] Cons.prems by auto
  have ks: "map (\<lambda>k. Some (pos + 4 * k)) [0..<length (t # ts)] =
      Some pos # map (\<lambda>k. Some (pos + 4 + 4 * k)) [0..<length ts]"
    by (simp add: upt_conv_Cons map_Suc_upt [symmetric] del: upt_Suc)
  show ?case unfolding ks using t c args by (cases "ts = []") (auto simp: Let_def)
qed simp

lemma load_behind:
  assumes "list_all is_word ws"
  shows "rbind (load32 (pre @ wire_body ws @ post) (length pre + 4 * k)) (\<lambda>w. Inr (WWord w)) =
    behind_descriptor ws post k"
  using assms
proof (induction ws arbitrary: pre k)
  case Nil
  then show ?case by (simp add: behind_descriptor_def load32_append_right)
next
  case (Cons a ws)
  obtain w where a: "a = WWord w" using Cons.prems by (cases a) (simp_all add: is_word_def)
  show ?case
  proof (cases k)
    case 0
    then show ?thesis using a by (simp add: behind_descriptor_def load32_at)
  next
    case (Suc j)
    have "behind_descriptor (a # ws) post k = behind_descriptor ws post j"
      using Suc by (simp add: behind_descriptor_def)
    moreover have "length pre + 4 * k = length (pre @ bytes32 w) + 4 * j" using Suc by simp
    ultimately show ?thesis using Cons.IH [of "pre @ bytes32 w" j] Cons.prems a by (simp add: add.assoc)
  qed
qed

lemma sent_word_types:
  "list_all2 sent_fits ts vs \<Longrightarrow> list_all is_word (carried vs) \<Longrightarrow> list_all (\<lambda>t. fst t \<in> set ''uifonh'') ts"
proof (induction rule: list_all2_induct)
  case (Cons t ts v vs)
  then show ?case
    by (cases v) (auto simp: sent_fits_def wire_fits_def is_word_def split: wire_arg.splits)
qed simp

lemma decode_behind:
  assumes "list_all2 sent_fits ts vs" "list_all is_word (carried vs)"
  shows "\<exists>args. decode_args (pre @ wire_body (carried vs) @ post) ts (length pre) = Inr args \<and>
    map (\<lambda>a. (arg_type a, arg_nullable a)) args = ts \<and>
    map (read_arg (pre @ wire_body (carried vs) @ post)) args = map (behind_descriptor (carried vs) post) [0..<length vs]"
proof -
  let ?m = "pre @ wire_body (carried vs) @ post"
  have types: "list_all (\<lambda>t. fst t \<in> set ''uifonh'') ts" by (rule sent_word_types [OF assms])
  obtain args where args: "decode_args ?m ts (length pre) = Inr args"
    "map (\<lambda>a. (arg_type a, arg_nullable a)) args = ts"
    "map arg_data args = map (\<lambda>k. Some (length pre + 4 * k)) [0..<length ts]"
    using decode_words [OF types, of ?m "length pre"] by blast
  have len: "length args = length ts" "length ts = length vs"
    using list_all2_lengthD [OF assms(1)] by (simp_all flip: args(2))
  have "read_arg ?m (args ! k) = behind_descriptor (carried vs) post k" if k: "k < length vs" for k
  proof -
    have "(arg_type (args ! k), arg_nullable (args ! k)) = ts ! k" using args(2) len k by (metis nth_map)
    moreover have "ts ! k \<in> set ts" using len k by simp
    ultimately have "arg_type (args ! k) \<in> set ''uifonh''" using types by (metis fst_conv list_all_iff)
    moreover have "arg_data (args ! k) = Some (length pre + 4 * k)"
      using arg_cong [OF args(3), of "\<lambda>xs. xs ! k"] len k by simp
    ultimately show ?thesis using load_behind [OF assms(2), of pre post k] by (auto simp: read_arg_def)
  qed
  then have "map (read_arg ?m) args = map (behind_descriptor (carried vs) post) [0..<length vs]"
    using len by (intro nth_equalityI) simp_all
  with args show ?thesis by blast
qed

lemma decode_sent:
  assumes "list_all2 sent_fits ts vs" "word_tail vs"
  shows "\<exists>args. decode_args (pre @ wire_body (carried vs) @ post) ts (length pre) = Inr args \<and>
    map (\<lambda>a. (arg_type a, arg_nullable a)) args = ts \<and>
    map (read_arg (pre @ wire_body (carried vs) @ post)) args = seen vs post"
  using assms
proof (induction arbitrary: pre rule: list_all2_induct)
  case (Cons t ts v vs)
  obtain c nl where t: "t = (c, nl)" by (cases t)
  show ?case
  proof (cases v)
    case None
    then have "list_all2 sent_fits (t # ts) (v # vs)" "list_all is_word (carried (v # vs))"
      using Cons.hyps Cons.prems by (simp_all add: word_tail_def)
    then show ?thesis
      using decode_behind [of "t # ts" "v # vs" pre post] None by (simp add: seen_def Let_def)
  next
    case (Some a)
    let ?m = "pre @ wire_body (carried (v # vs)) @ post"
    have m: "?m = pre @ wire_bytes a @ (wire_body (carried vs) @ post)"
      and m': "?m = (pre @ wire_bytes a) @ wire_body (carried vs) @ post" using Some by simp_all
    have fits: "wire_fits (c, nl) a" using Cons.hyps(1) Some t by (simp add: sent_fits_def)
    obtain d where d: "get_data_ptr ?m c (length pre) = Inr d"
      "read_arg ?m \<lparr>arg_type = c, arg_nullable = nl, arg_data = d\<rparr> = Inr a"
      using wire_read [OF fits, of pre "wire_body (carried vs) @ post"] unfolding m by blast
    have adv: "advance ?m c (length pre) = Inr (length (pre @ wire_bytes a))"
      using wire_advance [OF fits, of pre "wire_body (carried vs) @ post"] unfolding m by simp
    have "word_tail vs" using Cons.prems Some by (simp add: word_tail_def)
    then obtain args where args: "decode_args ?m ts (length (pre @ wire_bytes a)) = Inr args"
      "map (\<lambda>a. (arg_type a, arg_nullable a)) args = ts" "map (read_arg ?m) args = seen vs post"
      using Cons.IH [of "pre @ wire_bytes a"] unfolding m' by blast
    show ?thesis
    proof (cases "ts = []")
      case True
      then have "vs = []" using Cons.hyps(2) by simp
      then show ?thesis using True d args t Some by (auto simp: Let_def seen_Some)
    next
      case False
      have "decode_args ?m (t # ts) (length pre) =
          Inr (\<lparr>arg_type = c, arg_nullable = nl, arg_data = d\<rparr> # args)"
        using False d(1) adv args(1) unfolding t by (simp only: decode_args.simps rbind_Inr Let_def if_False)
      then show ?thesis using d(2) args(2,3) t Some by (simp add: seen_Some)
    qed
  qed
qed (simp add: seen_def)

lemma resolve_and_drain_sent:
  fixes post :: bytes
  assumes "8 + length (wire_body (carried vs)) < 2 ^ 16" "opcode < 2 ^ 16"
    and "wldbg_message_get_object (Some ro) oid = Some p"
    and "is_valid_interface im (Some p)" "imem_wf im"
    and "opcode < word_of_int (side_count sd (intf_at im p))"
    and "wlm_signature (side_messages sd (intf_at im p) ! unat opcode) = Some sg" "nul \<notin> set sg"
    and "list_all2 sent_fits (sig_args sg False) vs" "word_tail vs"
  defines "m \<equiv> message_bytes oid opcode (carried vs) @ post"
  shows "\<exists>rm args rm'.
    wldbg_resolve_message im (Some ro) sd m = Inr (True, rm) \<and>
    pm_id (rm_base rm) = oid \<and> wldbg_resolved_message_reset_iterator rm = rm \<and>
    rm_interface rm = Some p \<and> rm_message rm = Some (side_messages sd (intf_at im p) ! unat opcode) \<and>
    all_arguments (Suc (length sg)) m (wldbg_resolved_message_reset_iterator rm) = Some (Inr (args, rm')) \<and>
    map (\<lambda>a. (arg_type a, arg_nullable a)) args = sig_args sg False \<and>
    map (read_arg m) args = seen vs post"
proof -
  let ?wm = "side_messages sd (intf_at im p) ! unat opcode"
  let ?base = "\<lparr>pm_id = oid, pm_opcode = opcode, pm_size = of_nat (8 + length (wire_body (carried vs))), pm_data = 8\<rparr>"
  let ?rm = "zero_resolved\<lparr>rm_base := ?base, rm_interface := Some p, rm_message := Some ?wm\<rparr>"
  have res: "wldbg_resolve_message im (Some ro) sd m = Inr (True, ?rm)"
    using resolve_message_known [OF parse_message_bytes [OF assms(1,2)], of ro oid p im sd post]
      assms(3-7) intf_wf_at unfolding m_def by simp
  let ?pre = "bytes32 oid @ bytes32 (header_word (of_nat (8 + length (wire_body (carried vs)))) opcode)"
  have m: "m = ?pre @ wire_body (carried vs) @ post" by (simp add: message_bytes_def m_def)
  obtain args where args: "decode_args m (sig_args sg False) 8 = Inr args"
    "map (\<lambda>a. (arg_type a, arg_nullable a)) args = sig_args sg False"
    "map (read_arg m) args = seen vs post"
    using decode_sent [OF assms(9,10), of ?pre post] unfolding m [symmetric] by auto
  obtain r where r: "all_arguments (Suc (length sg)) m (wldbg_resolved_message_reset_iterator ?rm) = Some r"
    "drained r = decode_args m (sig_args sg False) 8"
    using drain_from_reset [of ?rm ?wm sg "Suc (length sg)" m] assms(7,8) by auto
  then obtain rm' where "r = Inr (args, rm')" using args(1) by (auto simp: drained_def res_simps)
  with res r args show ?thesis
    by (auto simp: zero_resolved_def wldbg_resolved_message_reset_iterator_def)
qed

lemma resolve_and_drain:
  assumes "8 + length (wire_body as) < 2 ^ 16" "opcode < 2 ^ 16"
    and "wldbg_message_get_object (Some ro) oid = Some p"
    and "is_valid_interface im (Some p)" "imem_wf im"
    and "opcode < word_of_int (side_count sd (intf_at im p))"
    and "wlm_signature (side_messages sd (intf_at im p) ! unat opcode) = Some sg" "nul \<notin> set sg"
    and "list_all2 wire_fits (sig_args sg False) as"
  shows "\<exists>rm args rm'.
    wldbg_resolve_message im (Some ro) sd (message_bytes oid opcode as @ post) = Inr (True, rm) \<and>
    pm_id (rm_base rm) = oid \<and> wldbg_resolved_message_reset_iterator rm = rm \<and>
    rm_interface rm = Some p \<and> rm_message rm = Some (side_messages sd (intf_at im p) ! unat opcode) \<and>
    all_arguments (Suc (length sg)) (message_bytes oid opcode as @ post)
      (wldbg_resolved_message_reset_iterator rm) = Some (Inr (args, rm')) \<and>
    map (\<lambda>a. (arg_type a, arg_nullable a)) args = sig_args sg False \<and>
    map (read_arg (message_bytes oid opcode as @ post)) args = map Inr as"
  using resolve_and_drain_sent [of "map Some as" opcode ro oid p im sd sg post] assms
  by (simp only: carried_all sent_fits_all word_tail_all seen_all simp_thms)

section \<open>Properties\<close>

text \<open>C1: A message whose object and opcode are known is resolved to that interface and that message
  description, and draining the argument iterator over it in \<open>length sg + 1\<close> calls yields one
  argument for each of the signature, with its type and nullability.  Up to the first file
  descriptor the arguments are exactly the values the sender encoded, whatever follows the message in
  memory, so a message without descriptors is read as it was sent.  The iterator steps over a word
  for a descriptor although none was sent: from the first descriptor on every argument is read one
  word too far for each descriptor before it, the last ones from the memory behind the message.
  Behind a descriptor the values sent are words, as they are in every message of the protocol tables.\<close>

theorem resolve_and_iterate:
  assumes "8 + length (wire_body (carried vs)) < 2 ^ 16" "opcode < 2 ^ 16"
    and "wldbg_message_get_object (Some ro) oid = Some p"
    and "is_valid_interface im (Some p)" "imem_wf im"
    and "opcode < word_of_int (side_count sd (intf_at im p))"
    and "wlm_signature (side_messages sd (intf_at im p) ! unat opcode) = Some sg" "nul \<notin> set sg"
    and "list_all2 sent_fits (sig_args sg False) vs" "word_tail vs"
  shows "\<exists>rm args rm'.
    wldbg_resolve_message im (Some ro) sd (message_bytes oid opcode (carried vs) @ post) = Inr (True, rm) \<and>
    rm_interface rm = Some p \<and> rm_message rm = Some (side_messages sd (intf_at im p) ! unat opcode) \<and>
    all_arguments (Suc (length sg)) (message_bytes oid opcode (carried vs) @ post)
      (wldbg_resolved_message_reset_iterator rm) = Some (Inr (args, rm')) \<and>
    map (\<lambda>a. (arg_type a, arg_nullable a)) args = sig_args sg False \<and>
    map (read_arg (message_bytes oid opcode (carried vs) @ post)) args =
      (if None \<notin> set vs then map (\<lambda>v. Inr (the v)) vs
       else map (\<lambda>v. Inr (the v)) (takeWhile (\<lambda>v. v \<noteq> None) vs) @
         map (behind_descriptor (carried (dropWhile (\<lambda>v. v \<noteq> None) vs)) post)
           [0..<length (dropWhile (\<lambda>v. v \<noteq> None) vs)])"
  using resolve_and_drain_sent [OF assms, of post] unfolding seen_cases by blast

text \<open>The request \<open>wl_drm.create_prime_buffer\<close> of the repository's own table has a descriptor as its
  second argument: the iterator takes the width for the descriptor, the height for the width, and
  the last argument from whatever follows.\<close>

theorem resolve_and_iterate_witness:
  "\<exists>rm args rm'.
    wldbg_resolve_message (\<lambda>_. wl_drm_interface (\<lambda>_. Iface 0))
      (Some \<lparr>ro_client = \<lparr>map_count = 3, map_data = \<lparr>arr_size = 24, arr_alloc = 32,
               arr_data = [None, None, Some (Iface 7), None]\<rparr>\<rparr>,
             ro_server = wldbg_ids_map_init, ro_interfaces = [], ro_additional = []\<rparr>)
      CLIENT (message_bytes 2 3 (map WWord [9, 640, 480, 5, 0, 2560, 1, 2, 3, 4]) @ bytes32 77) = Inr (True, rm) \<and>
    rm_interface rm = Some (Iface 7) \<and>
    all_arguments 13 (message_bytes 2 3 (map WWord [9, 640, 480, 5, 0, 2560, 1, 2, 3, 4]) @ bytes32 77)
      (wldbg_resolved_message_reset_iterator rm) = Some (Inr (args, rm')) \<and>
    map (read_arg (message_bytes 2 3 (map WWord [9, 640, 480, 5, 0, 2560, 1, 2, 3, 4]) @ bytes32 77)) args =
      map (\<lambda>w. Inr (WWord w)) [9, 640, 480, 5, 0, 2560, 1, 2, 3, 4, 77]"
proof -
  let ?im = "\<lambda>_. wl_drm_interface (\<lambda>_. Iface 0)"
  let ?ws = "map (\<lambda>w. Some (WWord w)) [640, 480, 5, 0, 2560, 1, 2, 3, 4]"
  let ?vs = "Some (WWord 9) # None # ?ws"
  let ?ro = "\<lparr>ro_client = \<lparr>map_count = 3, map_data = \<lparr>arr_size = 24, arr_alloc = 32,
               arr_data = [None, None, Some (Iface 7), None]\<rparr>\<rparr>,
             ro_server = wldbg_ids_map_init, ro_interfaces = [], ro_additional = []\<rparr>"
  have size: "8 + length (wire_body (carried ?vs)) < 2 ^ 16" by simp
  have obj: "wldbg_message_get_object (Some ?ro) 2 = Some (Iface 7)"
    by (simp add: wldbg_message_get_object_def resolved_objects_get_def WL_SERVER_ID_START_def
        wldbg_ids_map_get_def)
  have valid: "is_valid_interface ?im (Some (Iface 7))"
    by (simp add: is_valid_interface_def wl_drm_interface_def)
  have wf: "imem_wf ?im" by (simp add: imem_wf_def protocol_tables_wf)
  have opc: "3 < (word_of_int (side_count CLIENT (intf_at ?im (Iface 7))) :: u32)"
    by (simp add: side_count_def wl_drm_interface_def)
  have sg: "wlm_signature (side_messages CLIENT (intf_at ?im (Iface 7)) ! unat (3 :: u32)) = Some ''2nhiiuiiiiii''"
    by (simp add: side_messages_def wl_drm_interface_def wl_drm_requests_def mk_message_def)
  have ch: "nul \<notin> set ''2nhiiuiiiiii''"
    and fits: "list_all2 sent_fits (sig_args ''2nhiiuiiiiii'' False) ?vs"
    by (simp_all add: nul_def sent_fits_def wire_fits_def is_digit_def)
  have tl: "word_tail ?vs" by (simp add: word_tail_def is_word_def)
  have op: "(3 :: u32) < 2 ^ 16" by simp
  have len: "Suc (length ''2nhiiuiiiiii'') = 13" by simp
  have shifted: "map (behind_descriptor (carried (dropWhile (\<lambda>v. v \<noteq> None) ?vs)) (bytes32 77))
      [0..<length (dropWhile (\<lambda>v. v \<noteq> None) ?vs)] = map (\<lambda>w. Inr (WWord w)) [640, 480, 5, 0, 2560, 1, 2, 3, 4, 77]"
    using load32_bytes32 [of 77 "[]"] by (simp add: behind_descriptor_def upt_rec)
  show ?thesis
    using resolve_and_iterate [OF size op obj valid wf opc sg ch fits tl, of "bytes32 77", unfolded len shifted]
    by (auto simp del: all_arguments.simps)
qed

end
