(* ===== verification/Resolve_Pass.thy ===== *)
theory Resolve_Pass
  imports Message_Args
begin

text \<open>
  \<^verbatim>\<open>src/resolve-pass.c\<close>: the pass that keeps the table of objects of every connection up to
  date.  It sees each message before any other pass, finds the interface of its object, enters the
  objects the message creates and marks the ids the server deletes.

  What comes from outside the repository is the record \<open>ext\<close>: whether an allocation succeeds and
  what fresh memory holds, the interfaces of libwayland and the two opcodes of its generated
  headers, and the dynamic linker.
\<close>

datatype pass_verdict = PASS_NEXT | PASS_STOP

record ext =
  ext_mem_ok :: "u64 \<Rightarrow> bool"
  ext_junk :: "iptr option"
  ext_imem :: imem
  ext_delete_id :: u32
  ext_bind :: u32
  ext_dlopen :: bool
  ext_dlsym :: "string \<Rightarrow> iptr option"
  ext_link :: "string \<Rightarrow> iptr"

definition resolved_objects_put ::
    "ext \<Rightarrow> resolved_objects \<Rightarrow> u32 \<Rightarrow> iptr option \<Rightarrow> resolved_objects res" where
  "resolved_objects_put x ro i v =
     (if WL_SERVER_ID_START \<le> i
      then rbind (wldbg_ids_map_insert (ext_mem_ok x) (ext_junk x) (ro_server ro) (i - WL_SERVER_ID_START) v)
             (\<lambda>s. Inr (ro\<lparr>ro_server := s\<rparr>))
      else rbind (wldbg_ids_map_insert (ext_mem_ok x) (ext_junk x) (ro_client ro) i v)
             (\<lambda>c. Inr (ro\<lparr>ro_client := c\<rparr>)))"

section \<open>The list of interfaces\<close>

definition add_interface :: "imem \<Rightarrow> iptr list \<Rightarrow> iptr \<Rightarrow> iptr list" where
  "add_interface im intfs p =
     (if \<exists>q \<in> set intfs. intf_name (intf_at im q) = intf_name (intf_at im p) then intfs
      else insert_after_first p intfs)"

text \<open>\<open>strcmp (s, p) == 0\<close> against a pointer into message memory, which need not hold a
  terminated string: the comparison stops at the first difference.\<close>

fun strcmp_mem :: "string \<Rightarrow> bytes \<Rightarrow> bool res" where
  "strcmp_mem s [] = Inl OutOfBounds"
| "strcmp_mem [] (b # bs) = Inr (b = 0)"
| "strcmp_mem (c # s) (b # bs) = (if unat b = of_char c then strcmp_mem s bs else Inr False)"

fun find_interface :: "imem \<Rightarrow> bytes \<Rightarrow> iptr list \<Rightarrow> iptr option res" where
  "find_interface im nm [] = Inr None"
| "find_interface im nm (p # ps) =
     rbind (strcmp_mem (intf_name (intf_at im p)) nm) (\<lambda>eq.
       if eq then Inr (Some p) else find_interface im nm ps)"

definition get_interface :: "imem \<Rightarrow> resolved_objects \<Rightarrow> bytes \<Rightarrow> iptr option res" where
  "get_interface im ro nm =
     rbind (find_interface im nm (ro_interfaces ro)) (\<lambda>r.
       if r \<noteq> None then Inr r else find_interface im nm (ro_additional ro))"

definition create_interface :: "ext \<Rightarrow> iptr \<Rightarrow> iptr option" where
  "create_interface x p = (if ext_mem_ok x 24 then Some p else None)"

definition libwayland_get_interface :: "ext \<Rightarrow> string \<Rightarrow> iptr option" where
  "libwayland_get_interface x name =
     (case ext_dlsym x name of None \<Rightarrow> None | Some p \<Rightarrow> create_interface x p)"

definition libwayland_interfaces :: "string list" where
  "libwayland_interfaces =
     [''wl_display_interface'', ''wl_registry_interface'', ''wl_callback_interface'',
      ''wl_compositor_interface'', ''wl_shm_pool_interface'', ''wl_shm_interface'',
      ''wl_buffer_interface'', ''wl_data_offer_interface'', ''wl_data_source_interface'',
      ''wl_data_device_interface'', ''wl_data_device_manager_interface'', ''wl_shell_interface'',
      ''wl_shell_surface_interface'', ''wl_surface_interface'', ''wl_seat_interface'',
      ''wl_pointer_interface'', ''wl_keyboard_interface'', ''wl_touch_interface'',
      ''wl_output_interface'', ''wl_region_interface'', ''wl_subcompositor_interface'',
      ''wl_subsurface_interface'']"

definition parse_libwayland :: "ext \<Rightarrow> iptr list \<Rightarrow> iptr list" where
  "parse_libwayland x intfs =
     (if \<not> ext_dlopen x then intfs
      else fold (\<lambda>name is. case libwayland_get_interface x name of
                   None \<Rightarrow> is | Some p \<Rightarrow> add_interface (ext_imem x) is p)
             libwayland_interfaces intfs)"

text \<open>The hard-coded interfaces are added one after the other; a failed allocation ends it.\<close>

fun add_hardcoded :: "ext \<Rightarrow> string list \<Rightarrow> iptr list \<Rightarrow> iptr list" where
  "add_hardcoded x [] intfs = intfs"
| "add_hardcoded x (name # names) intfs =
     (case create_interface x (ext_link x name) of
        None \<Rightarrow> intfs
      | Some p \<Rightarrow> add_hardcoded x names (add_interface (ext_imem x) intfs p))"

definition add_hardcoded_xdg_shell :: "ext \<Rightarrow> iptr list \<Rightarrow> iptr list" where
  "add_hardcoded_xdg_shell x =
     add_hardcoded x [''xdg_shell_interface'', ''xdg_surface_interface'', ''xdg_popup_interface'']"

definition add_hardcoded_drm_interface :: "ext \<Rightarrow> iptr list \<Rightarrow> iptr list" where
  "add_hardcoded_drm_interface x = add_hardcoded x [''wl_drm_interface'']"

definition resolve_init :: "ext \<Rightarrow> iptr list" where
  "resolve_init x = add_hardcoded_drm_interface x (add_hardcoded_xdg_shell x (parse_libwayland x []))"

text \<open>\<open>shared\<close> is the static list the pass was initialised with.\<close>

definition create_resolved_objects :: "ext \<Rightarrow> iptr list \<Rightarrow> resolved_objects option res" where
  "create_resolved_objects x shared =
     (if \<not> ext_mem_ok x 88 then Inr None
      else rbind (rassert (shared \<noteq> [])) (\<lambda>_.
        let ro = \<lparr>ro_client = wldbg_ids_map_init, ro_server = wldbg_ids_map_init,
                  ro_interfaces = shared, ro_additional = []\<rparr>
        in rbind (resolved_objects_put x ro 0 None) (\<lambda>ro1.
           rbind (get_interface (ext_imem x) ro1 (str_bytes ''wl_display'' @ [0])) (\<lambda>disp.
           rbind (resolved_objects_put x ro1 1 disp) (\<lambda>ro2. Inr (Some ro2))))))"

section \<open>New objects\<close>

fun wl_message_new_id_pos_from :: "nat \<Rightarrow> string \<Rightarrow> int" where
  "wl_message_new_id_pos_from n [] = -1"
| "wl_message_new_id_pos_from n (c # sg) =
     (if c = CHR ''n'' then int n else wl_message_new_id_pos_from (Suc n) sg)"

definition wl_message_new_id_pos :: "string \<Rightarrow> int" where
  "wl_message_new_id_pos sg = wl_message_new_id_pos_from 0 sg"

text \<open>\<open>pos\<close> counts the words of the message, as the code's variable does; it starts at 2.\<close>

fun get_new_id :: "string \<Rightarrow> bytes \<Rightarrow> nat \<Rightarrow> u32 res" where
  "get_new_id [] m pos = Inl AssertFailed"
| "get_new_id (c # sg) m pos =
     (if c = CHR ''n'' then load32 m (4 * pos)
      else if c = CHR ''s'' \<or> c = CHR ''a'' then
        rbind (load32 m (4 * pos)) (\<lambda>n. get_new_id sg m (pos + (div_roundup4 (unat n) + 1)))
      else get_new_id sg m (pos + 1))"

text \<open>One turn of the loop of \<open>get_new_ids\<close>; \<open>guess\<close> is the offset of the guessed name.\<close>

definition enter_new_id :: "ext \<Rightarrow> bytes \<Rightarrow> string \<Rightarrow> iptr option list \<Rightarrow> nat option \<Rightarrow>
    nat \<Rightarrow> nat \<Rightarrow> resolved_objects \<Rightarrow> resolved_objects res" where
  "enter_new_id x m sg types guess pos id_pos ro =
     rbind (get_new_id (drop pos sg) m 2) (\<lambda>new_id.
     rbind (nth_res types id_pos) (\<lambda>t.
     rbind (case (t, guess) of
              (None, Some off) \<Rightarrow> get_interface (ext_imem x) ro (drop off m)
            | _ \<Rightarrow> Inr t) (\<lambda>i.
       resolved_objects_put x ro new_id (Some (case i of None \<Rightarrow> Unknown_interface | Some p \<Rightarrow> p)))))"

partial_function (option) new_ids_loop ::
    "(nat \<Rightarrow> nat \<Rightarrow> resolved_objects \<Rightarrow> resolved_objects res) \<Rightarrow> string \<Rightarrow> nat \<Rightarrow>
      resolved_objects \<Rightarrow> resolved_objects res option" where
  "new_ids_loop enter sg pos ro =
     (let id_pos = wl_message_new_id_pos (drop pos sg) in
      if id_pos < 0 then Some (Inr ro)
      else (case enter pos (nat id_pos) ro of
              Inl e \<Rightarrow> Some (Inl e)
            | Inr ro' \<Rightarrow> new_ids_loop enter sg (nat id_pos + 1) ro'))"

definition get_new_ids :: "ext \<Rightarrow> resolved_objects \<Rightarrow> bytes \<Rightarrow> wl_message \<Rightarrow> nat option \<Rightarrow>
    resolved_objects res" where
  "get_new_ids x ro m wm guess =
     (case (wlm_signature wm, wlm_types wm) of
        (Some sg, Some types) \<Rightarrow>
          (case new_ids_loop (enter_new_id x m sg types guess) sg 0 ro of None \<Rightarrow> Inl Hang | Some r \<Rightarrow> r)
      | _ \<Rightarrow> Inl AssertFailed)"

section \<open>The two directions\<close>

definition resolve_in :: "ext \<Rightarrow> resolved_objects option \<Rightarrow> bytes \<Rightarrow>
    (pass_verdict \<times> resolved_objects option) res" where
  "resolve_in x ro m =
     rbind (load32 m 0) (\<lambda>i.
     rbind (load32 m 4) (\<lambda>w.
       let opcode = w AND 0xffff in
       case (wldbg_message_get_object ro i, ro) of
         (Some p, Some r) \<Rightarrow>
           let intf = intf_at (ext_imem x) p in
           if p = Unknown_interface \<or> p = Free_entry then Inr (PASS_NEXT, ro)
           else if word_of_int (event_count intf) \<le> opcode then Inr (PASS_NEXT, ro)
           else
             rbind (nth_res (events intf) (unat opcode)) (\<lambda>wm.
             rbind (if i = 1 \<and> opcode = ext_delete_id x
                    then rbind (load32 m 8) (\<lambda>freed. resolved_objects_put x r freed (Some Free_entry))
                    else get_new_ids x r m wm None) (\<lambda>r'.
               Inr (PASS_NEXT, Some r')))
       | _ \<Rightarrow> Inr (PASS_NEXT, ro)))"

definition resolve_out :: "ext \<Rightarrow> resolved_objects option \<Rightarrow> bytes \<Rightarrow>
    (pass_verdict \<times> resolved_objects option) res" where
  "resolve_out x ro m =
     rbind (load32 m 0) (\<lambda>i.
     rbind (load32 m 4) (\<lambda>w.
       let opcode = w AND 0xffff in
       case (wldbg_message_get_object ro i, ro) of
         (Some p, Some r) \<Rightarrow>
           let intf = intf_at (ext_imem x) p in
           if p = Unknown_interface \<or> p = Free_entry then Inr (PASS_NEXT, ro)
           else if word_of_int (method_count intf) \<le> opcode then Inr (PASS_NEXT, ro)
           else
             rbind (nth_res (methods intf) (unat opcode)) (\<lambda>wm.
             rbind (get_new_ids x r m wm
                      (if intf_name intf = ''wl_registry'' \<and> opcode = ext_bind x then Some 16 else None)) (\<lambda>r'.
               Inr (PASS_NEXT, Some r')))
       | _ \<Rightarrow> Inr (PASS_NEXT, ro)))"

section \<open>Storing an object\<close>

lemma put_as_split:
  "resolved_objects_put x ro i v =
     rbind (if WL_SERVER_ID_START \<le> i
            then rbind (wldbg_ids_map_insert (ext_mem_ok x) (ext_junk x) (ro_server ro) (i - WL_SERVER_ID_START) v)
                   (\<lambda>s'. Inr (ro_client ro, s'))
            else rbind (wldbg_ids_map_insert (ext_mem_ok x) (ext_junk x) (ro_client ro) i v)
                   (\<lambda>c'. Inr (c', ro_server ro)))
       (\<lambda>(c, s). Inr (ro\<lparr>ro_client := c, ro_server := s\<rparr>))"
  by (simp add: resolved_objects_put_def rbind_assoc)

lemma unat_server_id:
  "WL_SERVER_ID_START \<le> i \<Longrightarrow> unat (i - WL_SERVER_ID_START) < 0x1000000"
  using unat_u32_less [of i] unat_sub [of WL_SERVER_ID_START i]
  by (simp add: WL_SERVER_ID_START_def)

lemma insert_bound:
  assumes "ids_map_wf t" "i \<noteq> - 1" "wldbg_ids_map_insert mem_ok junk t i v = Inr t'"
    "map_count t \<le> b" "unat i < unat b"
  shows "map_count t' \<le> b"
  using assms(1,2)
proof (cases rule: wldbg_ids_map_insert_cases [where mem_ok = mem_ok and junk = junk and v = v])
  case (stored m')
  have "i + 1 \<le> b" using assms(5) by (simp add: inc_le word_less_nat_alt)
  with stored assms(3,4) show ?thesis by simp
qed (use assms(3) in simp)

lemma resolved_objects_put_cases:
  assumes "ro_wf ro"
  obtains (oom) "resolved_objects_put x ro i v = Inl Aborted"
  | (stored) ro' where "resolved_objects_put x ro i v = Inr ro'" "ro_wf ro'"
      "resolved_objects_get ro' = (resolved_objects_get ro)(i := v)"
      "ro_interfaces ro' = ro_interfaces ro" "ro_additional ro' = ro_additional ro"
proof -
  have wf: "ids_map_wf (ro_client ro)" "ids_map_wf (ro_server ro)"
    and cnt: "map_count (ro_client ro) \<le> WL_SERVER_ID_START" "map_count (ro_server ro) \<le> 0x1000000"
    using assms by (auto simp: ro_wf_def)
  show thesis
  proof (cases "resolved_objects_put x ro i v")
    case (Inl e)
    then have "e = Aborted"
      using ids.split_put_fault [OF wf, of i "ext_mem_ok x" "ext_junk x" v e]
      by (auto simp: put_as_split res_simps)
    with Inl show thesis using oom by simp
  next
    case (Inr ro')
    then obtain c s where cs: "(if WL_SERVER_ID_START \<le> i
            then rbind (wldbg_ids_map_insert (ext_mem_ok x) (ext_junk x) (ro_server ro) (i - WL_SERVER_ID_START) v)
                   (\<lambda>s'. Inr (ro_client ro, s'))
            else rbind (wldbg_ids_map_insert (ext_mem_ok x) (ext_junk x) (ro_client ro) i v)
                   (\<lambda>c'. Inr (c', ro_server ro))) = Inr (c, s)"
      and ro': "ro' = ro\<lparr>ro_client := c, ro_server := s\<rparr>"
      unfolding put_as_split by (auto simp: rbind_eq_Inr simp del: if_split)
    note split = ids.split_put [OF wf cs]
    have "map_count c \<le> WL_SERVER_ID_START \<and> map_count s \<le> 0x1000000"
    proof (cases "WL_SERVER_ID_START \<le> i")
      case True
      with cs have "c = ro_client ro"
        "wldbg_ids_map_insert (ext_mem_ok x) (ext_junk x) (ro_server ro) (i - WL_SERVER_ID_START) v = Inr s"
        by (auto simp: res_simps)
      with insert_bound [OF wf(2) server_id_legal [OF True] _ cnt(2)] cnt unat_server_id [OF True]
      show ?thesis by simp
    next
      case False
      with cs have "s = ro_server ro"
        "wldbg_ids_map_insert (ext_mem_ok x) (ext_junk x) (ro_client ro) i v = Inr c"
        by (auto simp: res_simps)
      moreover have "unat i < unat WL_SERVER_ID_START" using False by (simp add: word_le_nat_alt)
      ultimately show ?thesis
        using insert_bound [OF wf(1) client_id_legal [OF False] _ cnt(1)] cnt by simp
    qed
    then have "ro_wf ro'" using split [of i] by (simp add: ro' ro_wf_def)
    moreover have "resolved_objects_get ro' = (resolved_objects_get ro)(i := v)"
    proof
      fix j
      show "resolved_objects_get ro' j = ((resolved_objects_get ro)(i := v)) j"
        using split [of j] by (auto simp: resolved_objects_get_def ro' split: if_splits)
    qed
    ultimately show thesis using stored [OF Inr] ro' by simp
  qed
qed

section \<open>The list of interfaces\<close>

definition names_distinct :: "imem \<Rightarrow> iptr list \<Rightarrow> bool" where
  "names_distinct im ps \<longleftrightarrow> distinct (map (\<lambda>p. intf_name (intf_at im p)) ps)"

lemma names_distinct_add: "names_distinct im ps \<Longrightarrow> names_distinct im (add_interface im ps p)"
  by (auto simp: names_distinct_def add_interface_def map_insert_after_first)

lemma add_interface_mono: "set ps \<subseteq> set (add_interface im ps p)"
  by (auto simp: add_interface_def)

lemma add_interface_name:
  "intf_name (intf_at im p) \<in> (\<lambda>q. intf_name (intf_at im q)) ` set (add_interface im ps p)"
  by (auto simp: add_interface_def image_iff) metis

section \<open>Searching a list of interfaces\<close>

lemma strcmp_mem_terminated:
  "nul \<notin> set s \<Longrightarrow> nul \<notin> set t \<Longrightarrow> strcmp_mem s (str_bytes t @ 0 # rest) = Inr (s = t)"
proof (induction s arbitrary: t)
  case Nil
  show ?case
  proof (cases t)
    case (Cons d t')
    with Nil have "(of_char d :: nat) \<noteq> 0"
      using of_char_eq_iff [of d "CHR 0x00", where ?'a = nat] by (auto simp: nul_def)
    then have "(word_of_nat (of_char d) :: u8) \<noteq> 0"
      using unat_of_char_byte [of d] by auto
    with Cons show ?thesis by (simp add: str_bytes_def)
  qed (simp add: str_bytes_def)
next
  case (Cons c s)
  have c: "(of_char c :: nat) \<noteq> 0"
    using Cons.prems of_char_eq_iff [of c "CHR 0x00", where ?'a = nat] by (auto simp: nul_def)
  show ?case
  proof (cases t)
    case Nil
    with c show ?thesis by (simp add: str_bytes_def)
  next
    case (Cons d t')
    with Cons.IH [of t'] Cons.prems show ?thesis
      by (simp add: str_bytes_def unat_of_char_byte)
  qed
qed

definition names_plain :: "imem \<Rightarrow> bool" where
  "names_plain im \<longleftrightarrow> (\<forall>p. nul \<notin> set (intf_name (intf_at im p)))"

lemma find_interface_terminated:
  assumes "names_plain im" "nul \<notin> set t"
  shows "find_interface im (str_bytes t @ 0 # rest) ps =
    Inr (first_named im t (map Some ps))"
  by (induction ps) (use assms strcmp_mem_terminated in \<open>auto simp: names_plain_def\<close>)

lemma get_interface_terminated:
  assumes "names_plain im" "nul \<notin> set t"
  shows "get_interface im ro (str_bytes t @ 0 # rest) =
    Inr (first_named im t (map Some (ro_interfaces ro @ ro_additional ro)))"
proof -
  have "first_named im t (map Some (ps @ qs)) =
      (case first_named im t (map Some ps) of None \<Rightarrow> first_named im t (map Some qs) | Some p \<Rightarrow> Some p)" for ps qs
    by (induction ps) auto
  then show ?thesis
    by (auto simp: get_interface_def find_interface_terminated [OF assms] split: option.splits)
qed

section \<open>Positions in the signature\<close>

lemma new_id_pos_from:
  "wl_message_new_id_pos_from n (a @ CHR ''n'' # b) =
     (if CHR ''n'' \<in> set a then wl_message_new_id_pos_from n a else int (n + length a))"
  by (induction a arbitrary: n) auto

lemma new_id_pos_none:
  "wl_message_new_id_pos_from n sg < 0 \<longleftrightarrow> CHR ''n'' \<notin> set sg"
  by (induction sg arbitrary: n) auto

lemma new_id_pos_split:
  "CHR ''n'' \<notin> set a \<Longrightarrow> wl_message_new_id_pos (a @ CHR ''n'' # b) = int (length a)"
  by (simp add: wl_message_new_id_pos_def new_id_pos_from)

lemma new_id_pos_negative: "wl_message_new_id_pos sg < 0 \<longleftrightarrow> CHR ''n'' \<notin> set sg"
  by (simp add: wl_message_new_id_pos_def new_id_pos_none)

text \<open>With at most one \<open>n\<close> the loop turns at most once.\<close>

lemma new_ids_loop_none:
  "CHR ''n'' \<notin> set (drop pos sg) \<Longrightarrow> new_ids_loop enter sg pos ro = Some (Inr ro)"
  by (subst new_ids_loop.simps) (simp add: Let_def new_id_pos_negative)

lemma new_ids_loop_one:
  assumes "CHR ''n'' \<notin> set a" "CHR ''n'' \<notin> set b"
  shows "new_ids_loop enter (a @ CHR ''n'' # b) 0 ro = Some (enter 0 (length a) ro)"
  using assms new_ids_loop_none [of "length a + 1" "a @ CHR ''n'' # b"]
  by (subst new_ids_loop.simps)
     (simp add: Let_def new_id_pos_split nat_add_distrib split: sum.splits)

text \<open>With two of them the position, which the code takes relative to the rest of the signature,
  never gets past the last one, and the loop ends only by a fault.\<close>

lemma new_ids_loop_stuck:
  assumes "1 \<le> pos" "CHR ''n'' \<in> set (drop pos sg)"
  shows "\<not> (\<exists>ro'. new_ids_loop enter sg pos ro = Some (Inr ro'))"
proof
  assume "\<exists>ro'. new_ids_loop enter sg pos ro = Some (Inr ro')"
  then obtain ro' where r: "new_ids_loop enter sg pos ro = Some (Inr ro')" by blast
  have "1 \<le> pos \<and> CHR ''n'' \<in> set (drop pos sg) \<longrightarrow> (\<forall>q. (Inr ro' :: resolved_objects res) \<noteq> Inr q)"
  proof (rule new_ids_loop.raw_induct [where P = "\<lambda>enter sg pos ro r.
      1 \<le> pos \<and> CHR ''n'' \<in> set (drop pos sg) \<longrightarrow> (\<forall>q. r \<noteq> Inr q)", OF _ r])
    fix f enter sg pos ro r
    assume IH: "\<And>enter sg pos ro r. f enter sg pos ro = Some r \<Longrightarrow>
        1 \<le> pos \<and> CHR ''n'' \<in> set (drop pos sg) \<longrightarrow> (\<forall>q. r \<noteq> (Inr q :: resolved_objects res))"
      and eq: "(let id_pos = wl_message_new_id_pos (drop pos sg) in
         if id_pos < 0 then Some (Inr ro)
         else case enter pos (nat id_pos) ro of
                Inl e \<Rightarrow> Some (Inl e) | Inr ro' \<Rightarrow> f enter sg (nat id_pos + 1) ro') = Some r"
    show "1 \<le> pos \<and> CHR ''n'' \<in> set (drop pos sg) \<longrightarrow> (\<forall>q. r \<noteq> Inr q)"
    proof
      assume pos: "1 \<le> pos \<and> CHR ''n'' \<in> set (drop pos sg)"
      then obtain a b where ab: "drop pos sg = a @ CHR ''n'' # b" "CHR ''n'' \<notin> set a"
        by (meson split_list_first)
      then have ip: "wl_message_new_id_pos (drop pos sg) = int (length a)"
        by (simp add: new_id_pos_split)
      have "drop (length a + 1) sg = drop (length a + 1) (take pos sg @ a @ CHR ''n'' # b)"
        using ab(1) append_take_drop_id [of pos sg] by simp
      moreover have "CHR ''n'' \<in> set (drop (length a + 1) (take pos sg @ a @ CHR ''n'' # b))"
      proof -
        have "pos \<le> length sg" using ab(1) by (metis drop_all append_is_Nil_conv list.discI nat_le_linear)
        then have "drop (length a + 1) (take pos sg @ a @ CHR ''n'' # b) =
            drop (length a + 1) (take pos sg @ a) @ drop (length a + 1 - (pos + length a)) (CHR ''n'' # b)"
          by simp
        then show ?thesis using pos by simp
      qed
      ultimately have "1 \<le> length a + 1 \<and> CHR ''n'' \<in> set (drop (length a + 1) sg)" by simp
      then show "\<forall>q. r \<noteq> Inr q"
        using eq IH [of enter sg "length a + 1"] ip by (auto simp: Let_def split: sum.splits)
    qed
  qed
  with assms show False by blast
qed

lemma get_new_ids_two:
  assumes "wlm_signature wm = Some (a @ CHR ''n'' # b)" "CHR ''n'' \<notin> set a" "CHR ''n'' \<in> set b"
  shows "\<not> (\<exists>ro'. get_new_ids x ro m wm guess = Inr ro')"
proof
  let ?sg = "a @ CHR ''n'' # b"
  assume "\<exists>ro'. get_new_ids x ro m wm guess = Inr ro'"
  then obtain types ro' where l: "new_ids_loop (enter_new_id x m ?sg types guess) ?sg 0 ro = Some (Inr ro')"
    using assms(1) by (auto simp: get_new_ids_def split: option.splits)
  then obtain ro1 where "new_ids_loop (enter_new_id x m ?sg types guess) ?sg (length a + 1) ro1 = Some (Inr ro')"
    using assms(2) new_ids_loop.simps [of "enter_new_id x m ?sg types guess" ?sg 0 ro]
    by (auto simp: Let_def new_id_pos_split nat_add_distrib split: sum.splits)
  moreover have "CHR ''n'' \<in> set (drop (length a + 1) ?sg)" using assms(3) by simp
  ultimately show False using new_ids_loop_stuck [of "length a + 1" ?sg] by auto
qed

section \<open>The word of the new id\<close>

definition plain_before :: "string \<Rightarrow> bool" where
  "plain_before a \<longleftrightarrow> set a \<subseteq> set ''uifosa''"

lemma plain_before_Cons:
  "plain_before (c # a) \<longleftrightarrow> c \<in> set ''uifosa'' \<and> plain_before a"
  by (auto simp: plain_before_def)

lemma plain_before_no_n: "plain_before a \<Longrightarrow> CHR ''n'' \<notin> set a"
  by (auto simp: plain_before_def)

lemma get_new_id_wire:
  assumes "plain_before a" "list_all2 wire_fits (map (\<lambda>c. (c, False)) a) as" "length pre = 4 * k"
  shows "get_new_id (a @ CHR ''n'' # b) (pre @ wire_body as @ bytes32 w @ post) k = Inr w"
  using assms
proof (induction a arbitrary: as pre k)
  case Nil
  then show ?case using load32_at [of pre w post] by simp
next
  case (Cons c a)
  then obtain v vs where as: "as = v # vs" "wire_fits (c, False) v"
    "list_all2 wire_fits (map (\<lambda>c. (c, False)) a) vs"
    by (cases as) auto
  let ?m = "pre @ wire_body as @ bytes32 w @ post" and ?pre = "pre @ wire_bytes v"
  have m: "?m = ?pre @ wire_body vs @ bytes32 w @ post" by (simp add: as(1))
  have pl: "plain_before a" and c: "c \<in> set ''uifosa''"
    using Cons.prems(1) by (simp_all add: plain_before_Cons)
  show ?case
  proof (cases v)
    case (WWord u)
    with as(2) c have "c \<in> set ''uifo''" by (auto simp: wire_fits_def)
    moreover have "get_new_id (a @ CHR ''n'' # b) ?m (k + 1) = Inr w"
      unfolding m using Cons.prems(3) WWord by (intro Cons.IH [OF pl as(3)]) simp
    ultimately show ?thesis by auto
  next
    case (WBlob bs)
    have ld: "load32 ?m (4 * k) = Inr (of_nat (length bs))"
      using load32_at [of pre "of_nat (length bs)"] Cons.prems(3) WBlob as(1) by simp
    have len: "unat (of_nat (length bs) :: u32) = length bs"
      using as(2) WBlob by (auto simp: wire_fits_def blob_length)
    have "length ?pre = 4 * (k + (div_roundup4 (length bs) + 1))"
      using length_wire_blob [of bs] Cons.prems(3) WBlob by simp
    then have "get_new_id (a @ CHR ''n'' # b) ?m (k + (div_roundup4 (length bs) + 1)) = Inr w"
      unfolding m by (rule Cons.IH [OF pl as(3)])
    moreover have "c = CHR ''s'' \<or> c = CHR ''a''" using as(2) WBlob by (auto simp: wire_fits_def)
    ultimately show ?thesis using ld len by auto
  qed
qed

lemma message_words:
  "load32 (message_bytes oid opcode as @ post) 0 = Inr oid"
  "load32 (message_bytes oid opcode as @ post) 4 =
     Inr (header_word (of_nat (8 + length (wire_body as))) opcode)"
  using load32_at [of "bytes32 oid" "header_word (of_nat (8 + length (wire_body as))) opcode"
      "wire_body as @ post"]
  by (simp_all add: message_bytes_def load32_bytes32)

lemma opcode_masked:
  assumes "opcode < 2 ^ 16"
  shows "header_word sz opcode AND 0xffff = opcode"
proof -
  have "take_bit 16 opcode = opcode"
    using assms by (simp add: word_unat_eq_iff unsigned_take_bit_eq take_bit_nat_eq_self word_less_nat_alt)
  then show ?thesis unfolding header_word_opcode by (simp add: mask_ffff take_bit_eq_mask)
qed

lemma get_new_id_message:
  assumes "plain_before a" "list_all2 wire_fits (map (\<lambda>c. (c, False)) a) as1"
  shows "get_new_id (a @ CHR ''n'' # b) (message_bytes oid opcode (as1 @ WWord w # as2) @ post) 2 = Inr w"
  using get_new_id_wire [OF assms, of "bytes32 oid @ bytes32 (header_word
      (of_nat (8 + length (wire_body (as1 @ WWord w # as2)))) opcode)" 2 b w "wire_body as2 @ post"]
  by (simp add: message_bytes_def wire_body_def)

text \<open>What \<open>get_new_ids\<close> does on an encoded message of a plain signature with one new id.\<close>

lemma get_new_ids_message:
  assumes "wlm_signature wm = Some (a @ CHR ''n'' # b)" "wlm_types wm = Some types" "length a < length types"
    and "plain_before a" "CHR ''n'' \<notin> set b" "list_all2 wire_fits (map (\<lambda>c. (c, False)) a) as1"
  shows "get_new_ids x ro (message_bytes oid opcode (as1 @ WWord w # as2) @ post) wm guess =
    rbind (case (types ! length a, guess) of
             (None, Some off) \<Rightarrow> get_interface (ext_imem x) ro
                (drop off (message_bytes oid opcode (as1 @ WWord w # as2) @ post))
           | _ \<Rightarrow> Inr (types ! length a)) (\<lambda>i.
      resolved_objects_put x ro w (Some (case i of None \<Rightarrow> Unknown_interface | Some p \<Rightarrow> p)))"
  using assms(1-3) new_ids_loop_one [OF plain_before_no_n [OF assms(4)] assms(5)]
    get_new_id_message [OF assms(4,6)]
  by (simp add: get_new_ids_def enter_new_id_def)

section \<open>Preservation\<close>

lemma create_resolved_objects_cases:
  assumes "create_resolved_objects x shared = Inr (Some ro)" "names_plain (ext_imem x)"
  shows "ro_wf ro \<and> ro_interfaces ro = shared \<and> ro_additional ro = [] \<and>
    resolved_objects_get ro = (\<lambda>_. None)(1 := first_named (ext_imem x) ''wl_display'' (map Some shared))"
proof -
  let ?ro0 = "\<lparr>ro_client = wldbg_ids_map_init, ro_server = wldbg_ids_map_init,
    ro_interfaces = shared, ro_additional = []\<rparr>"
  have wf0: "ro_wf ?ro0" by (simp add: ro_wf_def ids_map_wf_init) (simp add: wldbg_ids_map_init_def)
  have get0: "resolved_objects_get ?ro0 = (\<lambda>_. None)"
    by (simp add: fun_eq_iff resolved_objects_get_def ids.get_init)
  obtain ro1 disp where ro1: "resolved_objects_put x ?ro0 0 None = Inr ro1"
    "get_interface (ext_imem x) ro1 (str_bytes ''wl_display'' @ [0]) = Inr disp"
    "resolved_objects_put x ro1 1 disp = Inr ro"
    using assms(1) by (auto simp: create_resolved_objects_def Let_def rbind_eq_Inr split: if_splits)
  have r1: "ro_wf ro1" "resolved_objects_get ro1 = (\<lambda>_. None)" "ro_interfaces ro1 = shared" "ro_additional ro1 = []"
    by (cases rule: resolved_objects_put_cases [OF wf0, of x 0 None], use ro1(1) get0 in auto)+
  have "nul \<notin> set ''wl_display''" by (simp add: nul_def)
  with ro1(2) have "disp = first_named (ext_imem x) ''wl_display'' (map Some shared)"
    using get_interface_terminated [OF assms(2), of "''wl_display''" ro1 "[]"] r1(3,4) by simp
  with r1 ro1(3) show ?thesis
    by (cases rule: resolved_objects_put_cases [OF r1(1), of x 1 disp]) auto
qed

section \<open>A sample connection\<close>

text \<open>A connection whose object 1 is the interface at \<open>Iface 7\<close>, with memory that never runs out;
  used by the examples below.\<close>

definition sample_ext :: "imem \<Rightarrow> ext" where
  "sample_ext im = \<lparr>ext_mem_ok = \<lambda>_. True, ext_junk = None, ext_imem = im, ext_delete_id = 1,
     ext_bind = 0, ext_dlopen = True, ext_dlsym = \<lambda>_. None, ext_link = \<lambda>_. Iface 9\<rparr>"

definition sample_objects :: resolved_objects where
  "sample_objects =
     \<lparr>ro_client = \<lparr>map_count = 2, map_data = \<lparr>arr_size = 16, arr_alloc = 16,
        arr_data = [None, Some (Iface 7)]\<rparr>\<rparr>,
      ro_server = wldbg_ids_map_init, ro_interfaces = [Iface 7, Iface 8], ro_additional = []\<rparr>"

lemma sample_ext_simps [simp]:
  "ext_imem (sample_ext im) = im" "ext_delete_id (sample_ext im) = 1" "ext_bind (sample_ext im) = 0"
  "ext_mem_ok (sample_ext im) n" "ext_junk (sample_ext im) = None"
  by (simp_all add: sample_ext_def)

lemma sample_objects_wf: "ro_wf sample_objects"
proof -
  have "arr_wf \<lparr>arr_size = 16, arr_alloc = 16, arr_data = [None, Some (Iface 7)]\<rparr>"
    by (auto simp: arr_wf_def cell_bytes_def intro: exI [of _ 4])
  then show ?thesis
    by (simp add: ro_wf_def ids_map_wf_init sample_objects_def)
       (simp add: ids_map_wf_def wldbg_ids_map_init_def WL_SERVER_ID_START_def)
qed

lemma sample_objects_get: "resolved_objects_get sample_objects 1 = Some (Iface 7)"
  by (simp add: resolved_objects_get_def WL_SERVER_ID_START_def wldbg_ids_map_get_def word_le_nat_alt
      sample_objects_def)

section \<open>Properties\<close>

text \<open>C22: A request that creates an object enters exactly that object: for a known object whose
  request has a signature of plain types around one new id, the id the client encoded is bound to
  the interface the message description names for that argument, every other id keeps its
  interface, and the message goes on to the next pass; the only fault is running out of memory.\<close>

theorem resolve_out_enters_new_object:
  assumes "ro_wf ro" "imem_wf (ext_imem x)"
    and "resolved_objects_get ro oid = Some p" "p \<noteq> Unknown_interface" "p \<noteq> Free_entry"
    and "opcode < 2 ^ 16" "opcode < word_of_int (method_count (intf_at (ext_imem x) p))"
    and "methods (intf_at (ext_imem x) p) ! unat opcode = mk_message nm (a @ CHR ''n'' # b) types"
    and "plain_before a" "CHR ''n'' \<notin> set b" "length a < length types" "types ! length a = Some q"
    and "list_all2 wire_fits (map (\<lambda>c. (c, False)) a) as1"
  shows "resolve_out x (Some ro) (message_bytes oid opcode (as1 @ WWord w # as2) @ post) = Inl Aborted \<or>
    (\<exists>ro'. resolve_out x (Some ro) (message_bytes oid opcode (as1 @ WWord w # as2) @ post) =
         Inr (PASS_NEXT, Some ro') \<and> ro_wf ro' \<and>
       resolved_objects_get ro' = (resolved_objects_get ro)(w := Some q))"
proof -
  let ?m = "message_bytes oid opcode (as1 @ WWord w # as2) @ post" and ?intf = "intf_at (ext_imem x) p"
  let ?wm = "mk_message nm (a @ CHR ''n'' # b) types"
  have cnt: "\<not> word_of_int (method_count ?intf) \<le> opcode" using assms(7) by (simp add: not_le)
  then have tab: "unat opcode < length (methods ?intf)"
    using opcode_in_table [OF intf_wf_at [OF assms(2)], of CLIENT p opcode]
    by (simp add: side_count_def side_messages_def)
  have "get_new_ids x ro ?m ?wm guess = resolved_objects_put x ro w (Some q)" for guess
    using get_new_ids_message [of ?wm a b types as1 x ro oid opcode w as2 post guess] assms(9-13)
    by (cases guess) (simp_all add: mk_message_def)
  then have "resolve_out x (Some ro) ?m =
      rbind (resolved_objects_put x ro w (Some q)) (\<lambda>r. Inr (PASS_NEXT, Some r))"
    using assms(3-5,8) tab cnt
    by (simp add: resolve_out_def message_words opcode_masked [OF assms(6)] wldbg_message_get_object_def Let_def)
  then show ?thesis
    by (cases rule: resolved_objects_put_cases [OF assms(1), of x w "Some q"]) auto
qed

theorem resolve_out_enters_new_object_witness:
  "resolve_out (sample_ext (\<lambda>_. wl_drm_interface (\<lambda>_. Iface 9))) (Some sample_objects)
     (message_bytes 1 1 ([] @ WWord 5 # map WWord [3, 640, 480, 2560, 1]) @ []) = Inl Aborted \<or>
   (\<exists>ro'. resolve_out (sample_ext (\<lambda>_. wl_drm_interface (\<lambda>_. Iface 9))) (Some sample_objects)
     (message_bytes 1 1 ([] @ WWord 5 # map WWord [3, 640, 480, 2560, 1]) @ []) = Inr (PASS_NEXT, Some ro') \<and>
     resolved_objects_get ro' 5 = Some (Iface 9))"
proof -
  let ?x = "sample_ext (\<lambda>_. wl_drm_interface (\<lambda>_. Iface 9))"
  have im: "imem_wf (ext_imem ?x)" by (simp add: imem_wf_def protocol_tables_wf)
  have op: "(1 :: u32) < 2 ^ 16" "1 < (word_of_int (method_count (intf_at (ext_imem ?x) (Iface 7))) :: u32)"
    by (simp_all add: wl_drm_interface_def)
  have wm: "methods (intf_at (ext_imem ?x) (Iface 7)) ! unat 1 =
      mk_message ''create_buffer'' ([] @ CHR ''n'' # ''uiiuu'') (drop 1 (drm_types (\<lambda>_. Iface 9)))"
    by (simp add: wl_drm_interface_def wl_drm_requests_def)
  have ty: "length [] < length (drop 1 (drm_types (\<lambda>_. Iface 9)))"
    "drop 1 (drm_types (\<lambda>_. Iface 9)) ! length [] = Some (Iface 9)"
    by (simp_all add: drm_types_def Let_def)
  have pl: "plain_before []" "CHR ''n'' \<notin> set ''uiiuu''" "list_all2 wire_fits (map (\<lambda>c. (c, False)) []) []"
    by (simp_all add: plain_before_def)
  from resolve_out_enters_new_object [OF sample_objects_wf im sample_objects_get _ _ op wm pl(1,2) ty pl(3),
      of 5 "map WWord [3, 640, 480, 2560, 1]" "[]"]
  show ?thesis by auto
qed

text \<open>Binding a global enters the interface whose name is in the request: the id is bound to the
  first interface of that name among the shared ones and those of the connection, or to the unknown
  interface when there is none.\<close>

theorem resolve_out_bind:
  assumes "ro_wf ro" "imem_wf (ext_imem x)" "names_plain (ext_imem x)" "nul \<notin> set name" "length name < 2 ^ 31"
    and "resolved_objects_get ro oid = Some p" "p \<noteq> Unknown_interface" "p \<noteq> Free_entry"
    and "intf_name (intf_at (ext_imem x) p) = ''wl_registry''"
    and "ext_bind x < 2 ^ 16" "ext_bind x < word_of_int (method_count (intf_at (ext_imem x) p))"
    and "methods (intf_at (ext_imem x) p) ! unat (ext_bind x) = mk_message ''bind'' ''usun'' types"
    and "3 < length types" "types ! 3 = None"
  shows "resolve_out x (Some ro) (message_bytes oid (ext_bind x)
        [WWord global, WBlob (str_bytes name @ [0]), WWord version, WWord w]) = Inl Aborted \<or>
    (\<exists>ro'. resolve_out x (Some ro) (message_bytes oid (ext_bind x)
        [WWord global, WBlob (str_bytes name @ [0]), WWord version, WWord w]) = Inr (PASS_NEXT, Some ro') \<and>
       ro_wf ro' \<and> resolved_objects_get ro' = (resolved_objects_get ro)(w := Some
         (case first_named (ext_imem x) name (map Some (ro_interfaces ro @ ro_additional ro)) of
            None \<Rightarrow> Unknown_interface | Some i \<Rightarrow> i)))"
proof -
  let ?as = "[WWord global, WBlob (str_bytes name @ [0]), WWord version]"
  let ?m = "message_bytes oid (ext_bind x) (?as @ WWord w # [])" and ?intf = "intf_at (ext_imem x) p"
  let ?wm = "mk_message ''bind'' (''usu'' @ CHR ''n'' # []) types"
  let ?i = "case first_named (ext_imem x) name (map Some (ro_interfaces ro @ ro_additional ro)) of
    None \<Rightarrow> Unknown_interface | Some i \<Rightarrow> i"
  have cnt: "\<not> word_of_int (method_count ?intf) \<le> ext_bind x" using assms(11) by (simp add: not_le)
  then have tab: "unat (ext_bind x) < length (methods ?intf)"
    using opcode_in_table [OF intf_wf_at [OF assms(2)], of CLIENT p "ext_bind x"]
    by (simp add: side_count_def side_messages_def)
  have "drop 16 ?m = str_bytes name @ 0 # (drop (Suc (length name)) (drop 4 (wire_bytes (WBlob (str_bytes name @ [0])))) @
      bytes32 version @ bytes32 w)"
    by (simp add: message_bytes_def wire_body_def str_bytes_def)
  then have gi: "get_interface (ext_imem x) ro (drop 16 ?m) =
      Inr (first_named (ext_imem x) name (map Some (ro_interfaces ro @ ro_additional ro)))"
    using get_interface_terminated [OF assms(3,4)] by simp
  have fits: "list_all2 wire_fits (map (\<lambda>c. (c, False)) ''usu'') ?as"
    using assms(5) by (simp add: wire_fits_def str_bytes_def)
  have "get_new_ids x ro ?m ?wm (Some 16) = resolved_objects_put x ro w (Some ?i)"
    using get_new_ids_message [of ?wm "''usu''" "[]" types ?as x ro oid "ext_bind x" w "[]" "[]" "Some 16"]
      assms(13) assms(14) [unfolded numeral_3_eq_3] fits gi by (simp add: mk_message_def plain_before_def)
  then have "resolve_out x (Some ro) ?m =
      rbind (resolved_objects_put x ro w (Some ?i)) (\<lambda>r. Inr (PASS_NEXT, Some r))"
    using assms(6-9,12) tab cnt message_words [of oid "ext_bind x" "?as @ WWord w # []" "[]"]
    by (simp add: resolve_out_def opcode_masked [OF assms(10)] wldbg_message_get_object_def Let_def)
  then show ?thesis
    by (cases rule: resolved_objects_put_cases [OF assms(1), of x w "Some ?i"]) auto
qed

theorem resolve_out_bind_witness:
  "\<exists>ro'. resolve_out (sample_ext (\<lambda>n. if n = 7 then free_entry\<lparr>intf_name := ''wl_registry'', intf_version := 1,
         method_count := 1, methods := [mk_message ''bind'' ''usun'' [None, None, None, None]]\<rparr>
       else wl_drm_interface (\<lambda>_. Iface 9))) (Some sample_objects)
     (message_bytes 1 0 [WWord 3, WBlob (str_bytes ''wl_drm'' @ [0]), WWord 2, WWord 2]) \<in>
     {Inl Aborted, Inr (PASS_NEXT, Some ro')} \<and>
     (resolved_objects_get ro' 2 = Some (Iface 8) \<or> ro' = sample_objects)"
proof -
  let ?im = "\<lambda>n :: nat. if n = 7 then free_entry\<lparr>intf_name := ''wl_registry'', intf_version := 1,
         method_count := 1, methods := [mk_message ''bind'' ''usun'' [None, None, None, None]]\<rparr>
       else wl_drm_interface (\<lambda>_. Iface 9)"
  let ?x = "sample_ext ?im"
  have im: "imem_wf (ext_imem ?x)"
    using protocol_tables_wf by (simp add: imem_wf_def) (simp add: intf_wf_def free_entry_def)
  have plain: "names_plain (ext_imem ?x)"
    unfolding names_plain_def
  proof
    fix p
    show "nul \<notin> set (intf_name (intf_at (ext_imem ?x) p))"
      by (cases p) (simp_all add: nul_def free_entry_def unknown_interface_def wl_drm_interface_def)
  qed
  have nm: "nul \<notin> set ''wl_drm''" "length ''wl_drm'' < 2 ^ 31" by (simp_all add: nul_def)
  have reg: "intf_name (intf_at (ext_imem ?x) (Iface 7)) = ''wl_registry''" by simp
  have op: "ext_bind ?x < 2 ^ 16" "ext_bind ?x < word_of_int (method_count (intf_at (ext_imem ?x) (Iface 7)))"
    by simp_all
  have wm: "methods (intf_at (ext_imem ?x) (Iface 7)) ! unat (ext_bind ?x) =
      mk_message ''bind'' ''usun'' [None, None, None, None]" by simp
  have ty: "3 < length [None, None, None, None :: iptr option]" "[None, None, None, None :: iptr option] ! 3 = None"
    by (simp_all add: numeral_3_eq_3)
  have fn: "first_named (ext_imem ?x) ''wl_drm'' (map Some (ro_interfaces sample_objects @ ro_additional sample_objects)) =
      Some (Iface 8)"
    by (simp add: sample_objects_def wl_drm_interface_def)
  show ?thesis
    using resolve_out_bind [OF sample_objects_wf im plain nm sample_objects_get _ _ reg op wm ty, of 3 2 2]
    unfolding fn by auto
qed

text \<open>The server's \<open>delete_id\<close> frees exactly the id it names: the id is bound to the free entry,
  so that no later message resolves through it, and every other id keeps its interface.\<close>

theorem resolve_in_delete_id:
  assumes "ro_wf ro" "imem_wf (ext_imem x)"
    and "resolved_objects_get ro 1 = Some p" "p \<noteq> Unknown_interface" "p \<noteq> Free_entry"
    and "ext_delete_id x < 2 ^ 16" "ext_delete_id x < word_of_int (event_count (intf_at (ext_imem x) p))"
  shows "resolve_in x (Some ro) (message_bytes 1 (ext_delete_id x) [WWord freed]) = Inl Aborted \<or>
    (\<exists>ro'. resolve_in x (Some ro) (message_bytes 1 (ext_delete_id x) [WWord freed]) = Inr (PASS_NEXT, Some ro') \<and>
       ro_wf ro' \<and> resolved_objects_get ro' = (resolved_objects_get ro)(freed := Some Free_entry) \<and>
       \<not> is_valid_interface (ext_imem x) (wldbg_message_get_object (Some ro') freed))"
proof -
  let ?m = "message_bytes 1 (ext_delete_id x) [WWord freed]" and ?intf = "intf_at (ext_imem x) p"
  have cnt: "\<not> word_of_int (event_count ?intf) \<le> ext_delete_id x" using assms(7) by (simp add: not_le)
  then have tab: "unat (ext_delete_id x) < length (events ?intf)"
    using opcode_in_table [OF intf_wf_at [OF assms(2)], of SERVER p "ext_delete_id x"]
    by (simp add: side_count_def side_messages_def)
  have "load32 ?m 8 = Inr freed"
    using load32_at [of "bytes32 1 @ bytes32 (header_word 12 (ext_delete_id x))" freed "[]"]
    by (simp add: message_bytes_def)
  then have "resolve_in x (Some ro) ?m =
      rbind (resolved_objects_put x ro freed (Some Free_entry)) (\<lambda>r. Inr (PASS_NEXT, Some r))"
    using assms(3-5) tab cnt message_words [of 1 "ext_delete_id x" "[WWord freed]" "[]"]
    by (simp add: resolve_in_def opcode_masked [OF assms(6)] wldbg_message_get_object_def Let_def)
  then show ?thesis
    by (cases rule: resolved_objects_put_cases [OF assms(1), of x freed "Some Free_entry"])
       (auto simp: wldbg_message_get_object_def is_valid_interface_def free_entry_def)
qed

theorem resolve_in_delete_id_witness:
  "\<exists>r. resolve_in (sample_ext (\<lambda>_. wl_drm_interface (\<lambda>_. Iface 9))) (Some sample_objects)
     (message_bytes 1 1 [WWord 4]) = r \<and>
     (r = Inl Aborted \<or> (\<exists>ro'. r = Inr (PASS_NEXT, Some ro') \<and> resolved_objects_get ro' 4 = Some Free_entry))"
proof -
  let ?x = "sample_ext (\<lambda>_. wl_drm_interface (\<lambda>_. Iface 9))"
  have im: "imem_wf (ext_imem ?x)" by (simp add: imem_wf_def protocol_tables_wf)
  have op: "ext_delete_id ?x < 2 ^ 16"
    "ext_delete_id ?x < word_of_int (event_count (intf_at (ext_imem ?x) (Iface 7)))"
    by (simp_all add: wl_drm_interface_def)
  from resolve_in_delete_id [OF sample_objects_wf im sample_objects_get _ _ op, of 4]
  show ?thesis by auto
qed

text \<open>The loop over several new ids never completes: \<open>get_new_ids\<close> takes each position
  relative to the rest of the signature but restarts from it as if it were absolute, so with two or
  more new ids in a signature it goes round until a fault, and never returns an updated table.\<close>

theorem get_new_ids_two_never_returns:
  assumes "wlm_signature wm = Some (a @ CHR ''n'' # b)" "CHR ''n'' \<in> set b"
  shows "\<forall>ro'. get_new_ids x ro m wm guess \<noteq> Inr ro'"
proof (cases "CHR ''n'' \<in> set a")
  case False
  with get_new_ids_two [OF assms(1)] assms(2) show ?thesis by blast
next
  case True
  then obtain a1 a2 where "a = a1 @ CHR ''n'' # a2" "CHR ''n'' \<notin> set a1" by (meson split_list_first)
  with get_new_ids_two [of wm a1 "a2 @ CHR ''n'' # b"] assms show ?thesis by auto
qed

theorem get_new_ids_two_never_returns_witness:
  "\<forall>ro'. get_new_ids (sample_ext (\<lambda>_. free_entry)) sample_objects (message_bytes 1 0 [WWord 4, WWord 5])
     (mk_message ''pair'' ''nn'' [Some (Iface 1), Some (Iface 2)]) None \<noteq> Inr ro'"
  by (rule get_new_ids_two_never_returns [of _ "[]" "''n''"]) (simp_all add: mk_message_def)

text \<open>The digit and the file descriptor in the signature \<open>2nhiiuiiiiii\<close> of
  \<open>wl_drm.create_prime_buffer\<close> are counted as words: the pass does not enter the new buffer but
  binds the id that equals the \<^emph>\<open>width\<close> of the buffer to the unknown interface.\<close>

theorem drm_prime_buffer_misentered:
  assumes "ro_wf ro" "resolved_objects_get ro oid = Some (Iface n)" "ext_imem x n = wl_drm_interface lnk"
  shows "resolve_out x (Some ro) (message_bytes oid 3 (WWord buffer # WWord width # rest)) = Inl Aborted \<or>
    (\<exists>ro'. resolve_out x (Some ro) (message_bytes oid 3 (WWord buffer # WWord width # rest)) =
         Inr (PASS_NEXT, Some ro') \<and>
       resolved_objects_get ro' = (resolved_objects_get ro)(width := Some Unknown_interface) \<and>
       (buffer \<noteq> width \<longrightarrow> resolved_objects_get ro' buffer = resolved_objects_get ro buffer))"
proof -
  let ?m = "message_bytes oid 3 (WWord buffer # WWord width # rest)"
  let ?wm = "mk_message ''create_prime_buffer'' ''2nhiiuiiiiii'' (drop 18 (drm_types lnk))"
  have l12: "load32 ?m 12 = Inr width"
    using load32_at [of "bytes32 oid @ bytes32 (header_word (of_nat (8 + length (wire_body
        (WWord buffer # WWord width # rest)))) 3) @ bytes32 buffer" width "wire_body rest"]
    by (simp add: message_bytes_def)
  have "new_ids_loop (enter_new_id x ?m ''2nhiiuiiiiii'' (drop 18 (drm_types lnk)) None) ''2nhiiuiiiiii'' 0 ro =
      Some (enter_new_id x ?m ''2nhiiuiiiiii'' (drop 18 (drm_types lnk)) None 0 1 ro)"
    using new_ids_loop_one [of "''2''" "''hiiuiiiiii''"] by simp
  moreover have "enter_new_id x ?m ''2nhiiuiiiiii'' (drop 18 (drm_types lnk)) None 0 1 ro =
      resolved_objects_put x ro width (Some Unknown_interface)"
    using l12 by (simp add: enter_new_id_def drm_types_def Let_def)
  ultimately have "get_new_ids x ro ?m ?wm None = resolved_objects_put x ro width (Some Unknown_interface)"
    by (simp add: get_new_ids_def mk_message_def)
  then have "resolve_out x (Some ro) ?m =
      rbind (resolved_objects_put x ro width (Some Unknown_interface)) (\<lambda>r. Inr (PASS_NEXT, Some r))"
    using assms(2,3) message_words [of oid 3 "WWord buffer # WWord width # rest" "[]"] opcode_masked [of 3]
    by (simp add: resolve_out_def wldbg_message_get_object_def Let_def wl_drm_interface_def
        wl_drm_requests_def word_le_nat_alt)
  then show ?thesis
    by (cases rule: resolved_objects_put_cases [OF assms(1), of x width "Some Unknown_interface"]) auto
qed

theorem drm_prime_buffer_misentered_witness:
  "(let r = resolve_out (sample_ext (\<lambda>_. wl_drm_interface (\<lambda>_. Iface 9))) (Some sample_objects)
      (message_bytes 1 3 (WWord 5 # WWord 640 # map WWord [480, 0, 0, 0, 0, 0, 0, 0, 0])) in
    r = Inl Aborted \<or>
    (\<exists>ro'. r = Inr (PASS_NEXT, Some ro') \<and> resolved_objects_get ro' 640 = Some Unknown_interface))"
  using drm_prime_buffer_misentered [OF sample_objects_wf sample_objects_get,
      of "sample_ext (\<lambda>_. wl_drm_interface (\<lambda>_. Iface 9))" "\<lambda>_. Iface 9" 5 640
        "map WWord [480, 0, 0, 0, 0, 0, 0, 0, 0]"]
  by (auto simp: Let_def)

end
