(* ===== verification/Wl_Buffer.thy ===== *)
theory Wl_Buffer
  imports Wldbg_Prelude
begin

unbundle bit_operations_syntax

text \<open>
  The ring buffer of \<^verbatim>\<open>wayland/connection.c\<close>: 4096 bytes and two free-running
  \<open>uint32_t\<close> counters, masked when the data is touched.  The abstraction is the list of bytes
  between the counters; the locale \<open>byte_fifo\<close> states the queue the connection code relies on,
  and the ring buffer is its interpretation.  An \<open>iovec\<close> into the buffer is an offset and a length.
\<close>

record wl_buffer =
  buf_data :: bytes
  buf_head :: u32
  buf_tail :: u32

definition BUF_SIZE :: nat where
  "BUF_SIZE = 4096"

definition MASK :: "u32 \<Rightarrow> u32" where
  "MASK i = i AND 4095"

definition memcpy_to :: "bytes \<Rightarrow> nat \<Rightarrow> bytes \<Rightarrow> bytes res" where
  "memcpy_to d off xs =
     (if off + length xs \<le> length d then Inr (take off d @ xs @ drop (off + length xs) d)
      else Inl OutOfBounds)"

definition memcpy_from :: "bytes \<Rightarrow> nat \<Rightarrow> nat \<Rightarrow> bytes res" where
  "memcpy_from d off n = (if off + n \<le> length d then Inr (take n (drop off d)) else Inl OutOfBounds)"

definition wl_buffer_put :: "wl_buffer \<Rightarrow> bytes \<Rightarrow> (int \<times> wl_buffer) res" where
  "wl_buffer_put b xs =
     (if BUF_SIZE < length xs then Inr (-1, b)
      else
        let head = unat (MASK (buf_head b)) in
        rbind (if head + length xs \<le> BUF_SIZE then memcpy_to (buf_data b) head xs
               else
                 let n = BUF_SIZE - head in
                 rbind (memcpy_to (buf_data b) head (take n xs)) (\<lambda>d. memcpy_to d 0 (drop n xs)))
          (\<lambda>d. Inr (0, b\<lparr>buf_data := d, buf_head := buf_head b + of_nat (length xs)\<rparr>)))"

type_synonym iov = "(nat \<times> nat) list"

definition wl_buffer_put_iov :: "wl_buffer \<Rightarrow> iov" where
  "wl_buffer_put_iov b =
     (let head = unat (MASK (buf_head b)); tail = unat (MASK (buf_tail b)) in
      if head < tail then [(head, tail - head)]
      else if tail = 0 then [(head, BUF_SIZE - head)]
      else [(head, BUF_SIZE - head), (0, tail)])"

definition wl_buffer_get_iov :: "wl_buffer \<Rightarrow> iov" where
  "wl_buffer_get_iov b =
     (let head = unat (MASK (buf_head b)); tail = unat (MASK (buf_tail b)) in
      if tail < head then [(tail, head - tail)]
      else if head = 0 then [(tail, BUF_SIZE - tail)]
      else [(tail, BUF_SIZE - tail), (0, head)])"

definition wl_buffer_copy :: "wl_buffer \<Rightarrow> nat \<Rightarrow> bytes res" where
  "wl_buffer_copy b n =
     (let tail = unat (MASK (buf_tail b)) in
      if tail + n \<le> BUF_SIZE then memcpy_from (buf_data b) tail n
      else
        let k = BUF_SIZE - tail in
        rbind (memcpy_from (buf_data b) tail k) (\<lambda>xs.
        rbind (memcpy_from (buf_data b) 0 (n - k)) (\<lambda>ys. Inr (xs @ ys))))"

definition wl_buffer_size :: "wl_buffer \<Rightarrow> u32" where
  "wl_buffer_size b = buf_head b - buf_tail b"

text \<open>\<open>b->tail += n\<close>, how every reader removes what it has taken.\<close>

definition buf_consume :: "wl_buffer \<Rightarrow> nat \<Rightarrow> wl_buffer" where
  "buf_consume b n = b\<lparr>buf_tail := buf_tail b + of_nat n\<rparr>"

text \<open>What the kernel does with an \<open>iovec\<close>: gathers it when sending, fills it when receiving.\<close>

definition gather :: "bytes \<Rightarrow> iov \<Rightarrow> bytes" where
  "gather d v = concat (map (\<lambda>(off, n). take n (drop off d)) v)"

fun scatter :: "bytes \<Rightarrow> iov \<Rightarrow> bytes \<Rightarrow> bytes res" where
  "scatter d [] xs = Inr d"
| "scatter d ((off, n) # v) xs =
     rbind (memcpy_to d off (take n xs)) (\<lambda>d'. scatter d' v (drop n xs))"

definition iov_len :: "iov \<Rightarrow> nat" where
  "iov_len v = sum_list (map snd v)"

definition empty_buffer :: wl_buffer where
  "empty_buffer = \<lparr>buf_data = replicate 4096 0, buf_head = 0, buf_tail = 0\<rparr>"

section \<open>Abstraction\<close>

definition contents :: "wl_buffer \<Rightarrow> bytes" where
  "contents b = map (\<lambda>k. buf_data b ! ((unat (buf_tail b) + k) mod 4096)) [0..<unat (wl_buffer_size b)]"

definition buf_wf :: "wl_buffer \<Rightarrow> bool" where
  "buf_wf b \<longleftrightarrow> length (buf_data b) = 4096 \<and> unat (wl_buffer_size b) \<le> 4096"

lemma unat_MASK: "unat (MASK i) = unat i mod 4096"
proof -
  have "(4095 :: u32) = mask 12" by (simp add: mask_eq_exp_minus_1)
  then have "MASK i = take_bit 12 i" by (simp add: MASK_def take_bit_eq_mask)
  then show ?thesis by (simp add: unsigned_take_bit_eq take_bit_nat_def)
qed

lemma length_contents: "length (contents b) = unat (wl_buffer_size b)"
  by (simp add: contents_def)

lemma head_of_tail:
  "unat (buf_head b) mod 4096 = (unat (buf_tail b) + unat (wl_buffer_size b)) mod 4096"
proof -
  have "buf_head b = buf_tail b + wl_buffer_size b" by (simp add: wl_buffer_size_def)
  moreover have "unat (buf_tail b + wl_buffer_size b) = (unat (buf_tail b) + unat (wl_buffer_size b)) mod 2 ^ 32"
    by (simp add: unat_word_ariths)
  ultimately show ?thesis by (simp add: mod_mod_cancel)
qed

section \<open>Writing and reading around the end\<close>

definition ring_store :: "bytes \<Rightarrow> nat \<Rightarrow> bytes \<Rightarrow> bytes" where
  "ring_store d h xs =
     (if h + length xs \<le> 4096 then take h d @ xs @ drop (h + length xs) d
      else drop (4096 - h) xs @ drop (length xs - (4096 - h)) (take h d) @ take (4096 - h) xs)"

lemma length_ring_store:
  "length d = 4096 \<Longrightarrow> h < 4096 \<Longrightarrow> length xs \<le> 4096 \<Longrightarrow> length (ring_store d h xs) = 4096"
  by (auto simp: ring_store_def min_def)

lemma ring_store_code:
  assumes "length d = 4096" "h < 4096" "length xs \<le> 4096"
  shows "(if h + length xs \<le> BUF_SIZE then memcpy_to d h xs
     else rbind (memcpy_to d h (take (BUF_SIZE - h) xs)) (\<lambda>d'. memcpy_to d' 0 (drop (BUF_SIZE - h) xs))) =
    Inr (ring_store d h xs)"
  using assms by (auto simp: ring_store_def memcpy_to_def BUF_SIZE_def min_def)

lemma ring_mod: "h < 4096 \<Longrightarrow> k < 4096 \<Longrightarrow> (h + k) mod 4096 = (if h + k < 4096 then h + k else h + k - 4096)" for h k :: nat
  by (simp add: mod_if [of "h + k" 4096])

lemma ring_store_nth:
  assumes "length d = 4096" "h < 4096" "length xs \<le> 4096" "k < 4096"
  shows "ring_store d h xs ! ((h + k) mod 4096) = (if k < length xs then xs ! k else d ! ((h + k) mod 4096))"
  using assms
  by (cases "h + length xs \<le> 4096"; cases "h + k < 4096")
     (auto simp: ring_store_def ring_mod nth_append min_def)

lemma ring_load_code:
  assumes "length d = 4096" "t < 4096" "n \<le> 4096"
  shows "(if t + n \<le> BUF_SIZE then memcpy_from d t n
      else rbind (memcpy_from d t (BUF_SIZE - t)) (\<lambda>xs.
           rbind (memcpy_from d 0 (n - (BUF_SIZE - t))) (\<lambda>ys. Inr (xs @ ys)))) =
    Inr (map (\<lambda>k. d ! ((t + k) mod 4096)) [0..<n])"
proof (cases "t + n \<le> 4096")
  case True
  then have "take n (drop t d) = map (\<lambda>k. d ! ((t + k) mod 4096)) [0..<n]"
    using assms by (intro nth_equalityI) auto
  with True assms show ?thesis by (simp add: memcpy_from_def BUF_SIZE_def)
next
  case False
  have "take (4096 - t) (drop t d) @ take (n - (4096 - t)) d = map (\<lambda>k. d ! ((t + k) mod 4096)) [0..<n]"
  proof (rule nth_equalityI)
    show "length (take (4096 - t) (drop t d) @ take (n - (4096 - t)) d) =
        length (map (\<lambda>k. d ! ((t + k) mod 4096)) [0..<n])"
      using assms False by simp
    fix i
    assume "i < length (take (4096 - t) (drop t d) @ take (n - (4096 - t)) d)"
    then have "i < n" using assms False by simp
    with assms False show "(take (4096 - t) (drop t d) @ take (n - (4096 - t)) d) ! i =
        map (\<lambda>k. d ! ((t + k) mod 4096)) [0..<n] ! i"
      by (cases "t + i < 4096") (auto simp: nth_append ring_mod add.commute)
  qed
  with False assms show ?thesis by (simp add: memcpy_from_def BUF_SIZE_def)
qed

lemma contents_masked:
  "contents b = map (\<lambda>k. buf_data b ! ((unat (MASK (buf_tail b)) + k) mod 4096)) [0..<unat (wl_buffer_size b)]"
  by (simp add: contents_def unat_MASK mod_add_left_eq)

lemma gather_singleton: "off + n \<le> length d \<Longrightarrow> gather d [(off, n)] = take n (drop off d)"
  by (simp add: gather_def)

section \<open>The operations on the abstraction\<close>

lemma wl_buffer_copy_contents:
  assumes "buf_wf b" "n \<le> length (contents b)"
  shows "wl_buffer_copy b n = Inr (take n (contents b))"
proof -
  have n: "n \<le> unat (wl_buffer_size b)" using assms(2) by (simp add: length_contents)
  have "take n (contents b) = map (\<lambda>k. buf_data b ! ((unat (MASK (buf_tail b)) + k) mod 4096)) [0..<n]"
    using n by (simp add: contents_masked take_map)
  moreover have "unat (MASK (buf_tail b)) < 4096" by (simp add: unat_MASK)
  moreover have "length (buf_data b) = 4096" "n \<le> 4096" using assms(1) n by (simp_all add: buf_wf_def)
  ultimately show ?thesis
    unfolding wl_buffer_copy_def Let_def by (simp only: ring_load_code)
qed

text \<open>Appending, stated on the raw fields so that \<open>put\<close> and \<open>recvmsg\<close> can share it.\<close>

lemma contents_append:
  assumes "buf_wf b" "unat (wl_buffer_size b) + length xs \<le> 4096"
    and b': "b' = b\<lparr>buf_data := ring_store (buf_data b) (unat (MASK (buf_head b))) xs,
                   buf_head := buf_head b + of_nat (length xs)\<rparr>"
  shows "buf_wf b' \<and> contents b' = contents b @ xs"
proof -
  let ?t = "unat (buf_tail b)" and ?n = "unat (wl_buffer_size b)" and ?h = "unat (MASK (buf_head b))"
  let ?d' = "ring_store (buf_data b) ?h xs"
  have len: "length (buf_data b) = 4096" using assms(1) by (simp add: buf_wf_def)
  have h: "?h < 4096" "?h = (?t + ?n) mod 4096" using head_of_tail [of b] by (simp_all add: unat_MASK)
  have "wl_buffer_size b' = wl_buffer_size b + of_nat (length xs)" by (simp add: wl_buffer_size_def b')
  then have size: "unat (wl_buffer_size b') = ?n + length xs"
    using assms(2) by (simp add: unat_word_ariths unat_of_nat)
  have nth: "?d' ! ((?t + k) mod 4096) = (contents b @ xs) ! k" if k: "k < ?n + length xs" for k
  proof (cases "k < ?n")
    case True
    have "(?h + (4096 - ?n + k)) mod 4096 = (?t + ?n + (4096 - ?n + k)) mod 4096"
      by (simp add: h(2) mod_add_left_eq)
    also have "?t + ?n + (4096 - ?n + k) = ?t + k + 4096" using assms(2) by simp
    finally have idx: "(?h + (4096 - ?n + k)) mod 4096 = (?t + k) mod 4096" by simp
    have "?d' ! ((?h + (4096 - ?n + k)) mod 4096) = buf_data b ! ((?h + (4096 - ?n + k)) mod 4096)"
    proof -
      have "4096 - ?n + k < 4096" "\<not> 4096 - ?n + k < length xs" "length xs \<le> 4096"
        using True assms(2) by linarith+
      then show ?thesis using ring_store_nth [OF len h(1), of xs "4096 - ?n + k"] by (simp only: if_False)
    qed
    with idx True show ?thesis by (simp add: nth_append length_contents) (simp add: contents_def)
  next
    case False
    then obtain j where j: "k = ?n + j" using le_Suc_ex not_less by blast
    have idx: "(?t + k) mod 4096 = (?h + j) mod 4096"
      by (simp add: h(2) j mod_add_left_eq add.assoc)
    have "?d' ! ((?h + j) mod 4096) = xs ! j"
      using k j assms(2) ring_store_nth [OF len h(1), of xs j] by simp
    with idx j show ?thesis by (simp add: nth_append length_contents)
  qed
  have "contents b' = map (\<lambda>k. ?d' ! ((?t + k) mod 4096)) [0..<?n + length xs]"
    by (simp add: contents_def size) (simp add: b')
  also have "\<dots> = contents b @ xs"
    using nth by (intro nth_equalityI) (auto simp: length_contents)
  finally have "contents b' = contents b @ xs" .
  moreover have "buf_wf b'"
    using size assms(2) len h(1) length_ring_store by (simp add: buf_wf_def) (simp add: b')
  ultimately show ?thesis by simp
qed

lemma wl_buffer_put_contents:
  assumes "buf_wf b" "length (contents b) + length xs \<le> 4096"
  shows "\<exists>b'. wl_buffer_put b xs = Inr (0, b') \<and> buf_wf b' \<and> contents b' = contents b @ xs"
proof -
  have h: "unat (MASK (buf_head b)) < 4096" by (simp add: unat_MASK)
  have "wl_buffer_put b xs = Inr (0, b\<lparr>buf_data := ring_store (buf_data b) (unat (MASK (buf_head b))) xs,
      buf_head := buf_head b + of_nat (length xs)\<rparr>)"
  proof -
    have "length (buf_data b) = 4096" "length xs \<le> 4096" "\<not> BUF_SIZE < length xs"
      using assms by (simp_all add: buf_wf_def BUF_SIZE_def)
    with h show ?thesis
      by (simp only: wl_buffer_put_def Let_def ring_store_code if_False rbind_Inr)
  qed
  with contents_append [OF assms(1), of xs] assms(2) show ?thesis by (simp add: length_contents)
qed

lemma buf_consume_contents:
  assumes "buf_wf b" "n \<le> length (contents b)"
  shows "buf_wf (buf_consume b n) \<and> contents (buf_consume b n) = drop n (contents b)"
proof -
  have n: "n \<le> unat (wl_buffer_size b)" using assms(2) by (simp add: length_contents)
  then have n32: "unat (of_nat n :: u32) = n"
    using assms(1) by (simp add: unat_of_nat buf_wf_def)
  have "wl_buffer_size (buf_consume b n) = wl_buffer_size b - of_nat n"
    by (simp add: wl_buffer_size_def buf_consume_def)
  then have size: "unat (wl_buffer_size (buf_consume b n)) = unat (wl_buffer_size b) - n"
    using n n32 by (simp add: unat_sub word_le_nat_alt)
  have "unat (buf_tail b + of_nat n) mod 4096 = (unat (buf_tail b) + n) mod 4096"
    by (simp add: unat_word_ariths n32 mod_mod_cancel)
  then have "(unat (buf_tail b + of_nat n) + k) mod 4096 = (unat (buf_tail b) + (n + k)) mod 4096" for k
    using mod_add_cong [of "unat (buf_tail b + of_nat n)" 4096 "unat (buf_tail b) + n" k k]
    by (simp only: add.assoc)
  then have "contents (buf_consume b n) = drop n (contents b)"
    unfolding contents_def size using n
    by (intro nth_equalityI) (auto simp: buf_consume_def)
  then show ?thesis using assms(1) size by (auto simp: buf_wf_def buf_consume_def)
qed

lemma ring_load_pure:
  fixes d :: bytes
  assumes "length d = 4096" "t < 4096" "n \<le> 4096"
  shows "map (\<lambda>k. d ! ((t + k) mod 4096)) [0..<n] =
    (if t + n \<le> 4096 then take n (drop t d) else take (4096 - t) (drop t d) @ take (t + n - 4096) d)"
  using ring_load_code [OF assms] assms by (auto simp: memcpy_from_def BUF_SIZE_def add.commute split: if_splits)

lemma mod_once: "x < 8192 \<Longrightarrow> x mod 4096 = (if x < 4096 then x else x - 4096)" for x :: nat
  by (auto simp: le_mod_geq)

lemma masked_head:
  assumes "buf_wf b"
  shows "unat (MASK (buf_head b)) =
    (let t = unat (MASK (buf_tail b)); n = unat (wl_buffer_size b)
     in if t + n < 4096 then t + n else t + n - 4096)"
proof -
  let ?t = "unat (MASK (buf_tail b))" and ?n = "unat (wl_buffer_size b)"
  have "?t < 4096" "?n \<le> 4096" using assms by (simp_all add: unat_MASK buf_wf_def)
  then have "?t + ?n < 8192" by linarith
  moreover have "unat (MASK (buf_head b)) = (?t + ?n) mod 4096"
    using head_of_tail [of b] by (simp add: unat_MASK mod_add_left_eq)
  ultimately show ?thesis by (simp add: mod_once Let_def)
qed

lemma get_iov_gather:
  assumes "buf_wf b" "contents b \<noteq> []"
  shows "gather (buf_data b) (wl_buffer_get_iov b) = contents b"
proof -
  define t h n where "t = unat (MASK (buf_tail b))" and "h = unat (MASK (buf_head b))"
    and "n = unat (wl_buffer_size b)"
  have bounds: "t < 4096" "n \<le> 4096" "length (buf_data b) = 4096"
    using assms by (auto simp: t_def n_def buf_wf_def unat_MASK)
  have "0 < n" using assms(2) length_contents [of b] unfolding n_def by (metis length_greater_0_conv)
  note bounds = bounds this
  have h: "h = (if t + n < 4096 then t + n else t + n - 4096)"
    using masked_head [OF assms(1)] by (simp add: t_def h_def n_def Let_def)
  have "contents b = (if t + n \<le> 4096 then take n (drop t (buf_data b))
      else take (4096 - t) (drop t (buf_data b)) @ take (t + n - 4096) (buf_data b))"
    unfolding contents_masked t_def [symmetric] n_def [symmetric]
    by (rule ring_load_pure) (use bounds in auto)
  moreover have "gather (buf_data b) (wl_buffer_get_iov b) =
     (if t < h then take (h - t) (drop t (buf_data b))
      else if h = 0 then take (4096 - t) (drop t (buf_data b))
      else take (4096 - t) (drop t (buf_data b)) @ take h (buf_data b))"
    by (simp add: wl_buffer_get_iov_def gather_def t_def h_def Let_def BUF_SIZE_def)
  ultimately show ?thesis
  proof (cases "t + n < 4096")
    case False
    then have hh: "h = t + n - 4096" "\<not> t < h" using h bounds by auto
    then show ?thesis
    proof (cases "t + n = 4096")
      case True
      then have "n = 4096 - t" "h = 0" using hh by simp_all
      then show ?thesis using \<open>contents b = _\<close> \<open>gather _ _ = _\<close> True by simp
    next
      case ne: False
      then have "h \<noteq> 0" "\<not> t + n \<le> 4096" using hh False by auto
      then show ?thesis using \<open>contents b = _\<close> \<open>gather _ _ = _\<close> hh by simp
    qed
  qed (use h bounds in simp)
qed

text \<open>Receiving into the free part of the buffer is a store around the end.\<close>

lemma put_iov_scatter:
  assumes "buf_wf b" "length (contents b) + length xs \<le> 4096" "length (contents b) < 4096"
  shows "scatter (buf_data b) (wl_buffer_put_iov b) xs =
     Inr (ring_store (buf_data b) (unat (MASK (buf_head b))) xs) \<and>
    iov_len (wl_buffer_put_iov b) = 4096 - length (contents b)"
proof -
  define t h n where "t = unat (MASK (buf_tail b))" and "h = unat (MASK (buf_head b))"
    and "n = unat (wl_buffer_size b)"
  have bounds: "t < 4096" "h < 4096" "n < 4096" "length (buf_data b) = 4096" "n + length xs \<le> 4096"
    using assms length_contents [of b] by (auto simp: t_def h_def n_def buf_wf_def unat_MASK)
  have h: "h = (if t + n < 4096 then t + n else t + n - 4096)"
    using masked_head [OF assms(1)] by (simp add: t_def h_def n_def Let_def)
  have iov: "wl_buffer_put_iov b = (if h < t then [(h, t - h)] else if t = 0 then [(h, 4096 - h)]
      else [(h, 4096 - h), (0, t)])"
    by (simp add: wl_buffer_put_iov_def t_def h_def Let_def BUF_SIZE_def)
  have "iov_len (wl_buffer_put_iov b) = 4096 - n"
    using h bounds by (auto simp: iov iov_len_def)
  moreover have "scatter (buf_data b) (wl_buffer_put_iov b) xs = Inr (ring_store (buf_data b) h xs)"
  proof (cases "h < t \<or> t = 0")
    case True
    then have "length xs \<le> 4096 - h" "h < t \<Longrightarrow> length xs \<le> t - h" using h bounds by auto
    with True bounds show ?thesis by (auto simp: iov memcpy_to_def ring_store_def)
  next
    case False
    then have "length xs - (4096 - h) \<le> t" using h bounds by auto
    with False bounds show ?thesis
      by (auto simp: iov memcpy_to_def ring_store_def min_def)
  qed
  ultimately show ?thesis using length_contents [of b] by (simp add: n_def h_def)
qed

lemma wl_buffer_receive:
  assumes "buf_wf b" "length (contents b) < 4096" "length xs \<le> iov_len (wl_buffer_put_iov b)"
  shows "\<exists>d. scatter (buf_data b) (wl_buffer_put_iov b) xs = Inr d \<and>
    buf_wf (b\<lparr>buf_data := d, buf_head := buf_head b + of_nat (length xs)\<rparr>) \<and>
    contents (b\<lparr>buf_data := d, buf_head := buf_head b + of_nat (length xs)\<rparr>) = contents b @ xs"
proof -
  have "iov_len (wl_buffer_put_iov b) = 4096 - length (contents b)"
    using put_iov_scatter [of b "[]"] assms(1,2) by simp
  then have len: "length (contents b) + length xs \<le> 4096" using assms(2,3) by simp
  show ?thesis
    using put_iov_scatter [OF assms(1) len assms(2)] contents_append [OF assms(1), of xs] len
    by (auto simp: length_contents)
qed

section \<open>The interface\<close>

text \<open>A bounded byte queue, as the connection code and the dispatch loop use it.\<close>

locale byte_fifo =
  fixes inv :: "'b \<Rightarrow> bool"
    and abs :: "'b \<Rightarrow> bytes"
    and cap :: nat
    and put :: "'b \<Rightarrow> bytes \<Rightarrow> (int \<times> 'b) res"
    and peek :: "'b \<Rightarrow> nat \<Rightarrow> bytes res"
    and drop_front :: "'b \<Rightarrow> nat \<Rightarrow> 'b"
    and fill :: "'b \<Rightarrow> nat"
  assumes fill_abs: "inv b \<Longrightarrow> fill b = length (abs b)"
    and abs_cap: "inv b \<Longrightarrow> length (abs b) \<le> cap"
    and put_appends: "inv b \<Longrightarrow> length (abs b) + length xs \<le> cap \<Longrightarrow>
          \<exists>b'. put b xs = Inr (0, b') \<and> inv b' \<and> abs b' = abs b @ xs"
    and peek_prefix: "inv b \<Longrightarrow> n \<le> length (abs b) \<Longrightarrow> peek b n = Inr (take n (abs b))"
    and drop_inv: "inv b \<Longrightarrow> n \<le> length (abs b) \<Longrightarrow> inv (drop_front b n)"
    and drop_abs: "inv b \<Longrightarrow> n \<le> length (abs b) \<Longrightarrow> abs (drop_front b n) = drop n (abs b)"
begin

text \<open>Moving the front of one queue to the back of another, the way a message is forwarded: peek,
  put, drop.  Together the two queues hold the same bytes before and after, in the same order.\<close>

lemma move_front:
  assumes "inv a" "inv b" "n \<le> fill a" "fill b + n \<le> cap"
  shows "\<exists>xs b'. peek a n = Inr xs \<and> put b xs = Inr (0, b') \<and> inv b' \<and> inv (drop_front a n) \<and>
    abs b' = abs b @ take n (abs a) \<and> abs (drop_front a n) = drop n (abs a)"
proof -
  have n: "n \<le> length (abs a)" using assms(1,3) by (simp add: fill_abs)
  then have "length (abs b) + length (take n (abs a)) \<le> cap" using assms(2,4) by (simp add: fill_abs)
  then obtain b' where "put b (take n (abs a)) = Inr (0, b')" "inv b'" "abs b' = abs b @ take n (abs a)"
    using put_appends [OF assms(2)] by blast
  then show ?thesis
    using peek_prefix [OF assms(1) n] drop_inv [OF assms(1) n] drop_abs [OF assms(1) n] by blast
qed

text \<open>A sequence of moves of the sizes \<open>ns\<close> drains the first queue into the second one in order.\<close>

fun moves :: "nat list \<Rightarrow> 'b \<Rightarrow> 'b \<Rightarrow> ('b \<times> 'b) res" where
  "moves [] a b = Inr (a, b)"
| "moves (n # ns) a b =
     rbind (peek a n) (\<lambda>xs. rbind (put b xs) (\<lambda>(_, b'). moves ns (drop_front a n) b'))"

lemma moves_in_order:
  assumes "inv a" "inv b" "sum_list ns \<le> fill a" "fill b + sum_list ns \<le> cap"
  shows "\<exists>a' b'. moves ns a b = Inr (a', b') \<and> inv a' \<and> inv b' \<and>
    abs b' = abs b @ take (sum_list ns) (abs a) \<and> abs a' = drop (sum_list ns) (abs a)"
  using assms
proof (induction ns arbitrary: a b)
  case (Cons n ns)
  obtain xs b' where m: "peek a n = Inr xs" "put b xs = Inr (0, b')" "inv b'" "inv (drop_front a n)"
    "abs b' = abs b @ take n (abs a)" "abs (drop_front a n) = drop n (abs a)"
    using move_front [of a b n] Cons.prems by auto
  have "sum_list ns \<le> fill (drop_front a n)" "fill b' + sum_list ns \<le> cap"
    using m Cons.prems by (simp_all add: fill_abs)
  from Cons.IH [OF m(4,3) this] m show ?case by (auto simp: take_add add.commute)
qed simp

end

interpretation ring: byte_fifo buf_wf contents "4096" wl_buffer_put wl_buffer_copy buf_consume
    "\<lambda>b. unat (wl_buffer_size b)"
proof
  fix b :: wl_buffer and xs :: bytes and n :: nat
  assume wf: "buf_wf b"
  show "unat (wl_buffer_size b) = length (contents b)" by (simp add: length_contents)
  show "length (contents b) \<le> 4096" using wf by (simp add: length_contents buf_wf_def)
  show "length (contents b) + length xs \<le> 4096 \<Longrightarrow>
      \<exists>b'. wl_buffer_put b xs = Inr (0, b') \<and> buf_wf b' \<and> contents b' = contents b @ xs"
    by (rule wl_buffer_put_contents [OF wf])
  show "n \<le> length (contents b) \<Longrightarrow> wl_buffer_copy b n = Inr (take n (contents b))"
    by (rule wl_buffer_copy_contents [OF wf])
  show "n \<le> length (contents b) \<Longrightarrow> buf_wf (buf_consume b n)"
    "n \<le> length (contents b) \<Longrightarrow> contents (buf_consume b n) = drop n (contents b)"
    using buf_consume_contents [OF wf] by blast+
qed

lemma empty_buffer_wf: "buf_wf empty_buffer" "contents empty_buffer = []"
  by (simp_all add: buf_wf_def contents_def empty_buffer_def wl_buffer_size_def)

section \<open>Properties\<close>

text \<open>C6: The ring buffer is a queue, across the end of its storage and the wrap-around of its
  counters: what fits is appended, the \<open>iovec\<close> handed to \<open>sendmsg\<close> gathers exactly the bytes in the
  buffer, the bytes \<open>recvmsg\<close> stores through the other \<open>iovec\<close> are appended once the head is moved,
  and that \<open>iovec\<close> offers all the free space.\<close>

theorem ring_buffer_is_queue:
  assumes "buf_wf b" "length (contents b) + length xs \<le> 4096"
  shows "(\<exists>b'. wl_buffer_put b xs = Inr (0, b') \<and> buf_wf b' \<and> contents b' = contents b @ xs) \<and>
    (contents b \<noteq> [] \<longrightarrow> gather (buf_data b) (wl_buffer_get_iov b) = contents b) \<and>
    (length (contents b) < 4096 \<longrightarrow> iov_len (wl_buffer_put_iov b) = 4096 - length (contents b) \<and>
      (\<exists>d. scatter (buf_data b) (wl_buffer_put_iov b) xs = Inr d \<and>
         contents (b\<lparr>buf_data := d, buf_head := buf_head b + of_nat (length xs)\<rparr>) = contents b @ xs))"
  using ring.put_appends [OF assms] get_iov_gather [OF assms(1)] put_iov_scatter [OF assms]
    contents_append [OF assms(1), of xs] assms(2)
  by (simp add: length_contents)

theorem ring_buffer_is_queue_witness:
  "\<exists>b'. wl_buffer_put \<lparr>buf_data = replicate 4096 7, buf_head = 3, buf_tail = 4294967295\<rparr> [1, 2] = Inr (0, b') \<and>
     contents b' = [7, 7, 7, 7, 1, 2]"
proof -
  let ?b = "\<lparr>buf_data = replicate 4096 (7 :: u8), buf_head = 3, buf_tail = 4294967295\<rparr>"
  have size: "wl_buffer_size ?b = 4" by (simp add: wl_buffer_size_def)
  have c: "contents ?b = [7, 7, 7, 7]"
    by (intro nth_equalityI) (simp_all add: contents_def size nth_Cons' upt_rec)
  have "buf_wf ?b" by (simp add: buf_wf_def size)
  from ring_buffer_is_queue [OF this, of "[1, 2]"] show ?thesis by (auto simp: c)
qed

end
