(* ===== verification/Connection.thy ===== *)
theory Connection
  imports Wl_Buffer
begin

text \<open>
  A Wayland connection, \<^verbatim>\<open>wayland/connection.c\<close>: four ring buffers (bytes and file
  descriptors, in and out), flushed with \<open>sendmsg\<close> and filled with \<open>recvmsg\<close>.

  The kernel is a script: the list of what successive calls of \<open>sendmsg\<close> or \<open>recvmsg\<close> return.
  A function that runs out of its script returns \<open>None\<close>.  What is sent and which descriptors are
  closed is recorded in the state.
\<close>

record wl_connection =
  conn_in :: wl_buffer
  conn_out :: wl_buffer
  fds_in :: wl_buffer
  fds_out :: wl_buffer
  conn_fd :: int
  want_flush :: bool
  sent :: "(bytes \<times> bytes) list"
  closed :: "bytes list"

definition MAX_FDS_OUT :: nat where
  "MAX_FDS_OUT = 28"

text \<open>\<open>wl_connection_create\<close>, when \<open>malloc\<close> succeeds.\<close>

definition wl_connection_create :: "int \<Rightarrow> wl_connection" where
  "wl_connection_create fd =
     \<lparr>conn_in = empty_buffer, conn_out = empty_buffer, fds_in = empty_buffer, fds_out = empty_buffer,
      conn_fd = fd, want_flush = False, sent = [], closed = []\<rparr>"

fun chunks4 :: "bytes \<Rightarrow> bytes list" where
  "chunks4 (a # b # c # d # xs) = [a, b, c, d] # chunks4 xs"
| "chunks4 xs = []"

text \<open>\<open>close_fds\<close> closes at most \<open>max\<close> descriptors but drops all of them; a negative \<open>max\<close> closes all.
  The copy goes to an array of 4096 bytes.\<close>

definition close_fds :: "wl_buffer \<Rightarrow> int \<Rightarrow> (bytes list \<times> wl_buffer) res" where
  "close_fds b mx =
     (let size = unat (wl_buffer_size b) in
      if size = 0 then Inr ([], b)
      else if BUF_SIZE < size then Inl OutOfBounds
      else
        rbind (wl_buffer_copy b size) (\<lambda>xs.
          let n = size div 4; n = (if 0 < mx \<and> mx < int n then nat mx else n)
          in Inr (take n (chunks4 xs), buf_consume b size)))"

definition wl_connection_destroy :: "wl_connection \<Rightarrow> bytes list res" where
  "wl_connection_destroy c =
     rbind (close_fds (fds_out c) (-1)) (\<lambda>(x, _).
     rbind (close_fds (fds_in c) (-1)) (\<lambda>(y, _). Inr (closed c @ x @ y)))"

definition wl_connection_copy :: "wl_connection \<Rightarrow> nat \<Rightarrow> bytes res" where
  "wl_connection_copy c n = wl_buffer_copy (conn_in c) n"

definition wl_connection_consume :: "wl_connection \<Rightarrow> nat \<Rightarrow> wl_connection" where
  "wl_connection_consume c n = c\<lparr>conn_in := buf_consume (conn_in c) n\<rparr>"

text \<open>The descriptors that go with a \<open>sendmsg\<close>; no more than 28 of them.\<close>

definition build_cmsg :: "wl_buffer \<Rightarrow> bytes res" where
  "build_cmsg b =
     (let size = unat (wl_buffer_size b); size = min size (MAX_FDS_OUT * 4) in
      if 0 < size then wl_buffer_copy b size else Inr [])"

text \<open>A control message is whether it carries descriptors, and its payload.\<close>

fun decode_cmsg_loop :: "(bool \<times> bytes) list \<Rightarrow> bool \<Rightarrow> bytes list \<Rightarrow> wl_buffer \<Rightarrow>
    (int \<times> bytes list \<times> wl_buffer) res" where
  "decode_cmsg_loop [] overflow cl b = Inr (if overflow then -1 else 0, cl, b)"
| "decode_cmsg_loop ((rights, xs) # ms) overflow cl b =
     (if \<not> rights then decode_cmsg_loop ms overflow cl b
      else if 4096 - unat (wl_buffer_size b) < length xs \<or> overflow then
        decode_cmsg_loop ms True (cl @ chunks4 xs) b
      else rbind (wl_buffer_put b xs) (\<lambda>(r, b').
             if r < 0 then Inr (-1, cl, b') else decode_cmsg_loop ms overflow cl b'))"

definition decode_cmsg :: "wl_buffer \<Rightarrow> (bool \<times> bytes) list \<Rightarrow> (int \<times> bytes list \<times> wl_buffer) res" where
  "decode_cmsg b ms = decode_cmsg_loop ms False [] b"

section \<open>Flushing\<close>

text \<open>The result of one \<open>sendmsg\<close>: the number of bytes the kernel took, interrupted, or another
  error.  The kernel never takes more than it is offered.\<close>

datatype send_result = Sent nat | Send_EINTR | Send_error

text \<open>The inner loop \<open>do len = sendmsg (...) while (len == -1 && errno == EINTR)\<close>.\<close>

fun sendmsg_retry :: "send_result list \<Rightarrow> (nat option \<times> send_result list) option" where
  "sendmsg_retry [] = None"
| "sendmsg_retry (Send_EINTR # rs) = sendmsg_retry rs"
| "sendmsg_retry (Send_error # rs) = Some (None, rs)"
| "sendmsg_retry (Sent n # rs) = Some (Some n, rs)"

lemma sendmsg_retry_shorter: "sendmsg_retry rs = Some (r, rs') \<Longrightarrow> length rs' < length rs"
  by (induction rs rule: sendmsg_retry.induct) auto

function (sequential) flush_loop :: "send_result list \<Rightarrow> wl_connection \<Rightarrow>
    (bool \<times> wl_connection \<times> send_result list) res option" where
  "flush_loop rs c =
     (if wl_buffer_size (conn_out c) = 0 then Some (Inr (True, c, rs))
      else
        let v = wl_buffer_get_iov (conn_out c); offered = gather (buf_data (conn_out c)) v in
        case build_cmsg (fds_out c) of
          Inl e \<Rightarrow> Some (Inl e)
        | Inr fds \<Rightarrow>
            (case sendmsg_retry rs of
               None \<Rightarrow> None
             | Some (None, rs') \<Rightarrow> Some (Inr (False, c, rs'))
             | Some (Some k, rs') \<Rightarrow>
                 (case close_fds (fds_out c) (int MAX_FDS_OUT) of
                    Inl e \<Rightarrow> Some (Inl e)
                  | Inr (cl, fo) \<Rightarrow>
                      let n = min k (length offered) in
                      flush_loop rs' (c\<lparr>fds_out := fo, conn_out := buf_consume (conn_out c) n,
                        sent := sent c @ [(take n offered, fds)], closed := closed c @ cl\<rparr>))))"
  by pat_completeness auto

termination
  by (relation "measure (\<lambda>(rs, _). length rs)") (auto dest: sendmsg_retry_shorter)

definition wl_connection_flush :: "send_result list \<Rightarrow> wl_connection \<Rightarrow>
    (int \<times> wl_connection \<times> send_result list) res option" where
  "wl_connection_flush rs c =
     (if \<not> want_flush c then Some (Inr (0, c, rs))
      else
        (case flush_loop rs c of
           None \<Rightarrow> None
         | Some (Inl e) \<Rightarrow> Some (Inl e)
         | Some (Inr (ok, c', rs')) \<Rightarrow>
             Some (Inr (if ok then (sint (buf_head (conn_out c') - buf_tail (conn_out c)), c'\<lparr>want_flush := False\<rparr>, rs')
                        else (-1, c', rs')))))"

section \<open>Reading\<close>

datatype recv_result = Received bytes "(bool \<times> bytes) list" | Recv_EINTR | Recv_error | Recv_closed

fun recvmsg_retry :: "recv_result list \<Rightarrow> (recv_result \<times> recv_result list) option" where
  "recvmsg_retry [] = None"
| "recvmsg_retry (Recv_EINTR # rs) = recvmsg_retry rs"
| "recvmsg_retry (r # rs) = Some (r, rs)"

text \<open>The kernel stores no more than the \<open>iovec\<close> holds.\<close>

definition wl_connection_read :: "recv_result list \<Rightarrow> wl_connection \<Rightarrow>
    (int \<times> wl_connection \<times> recv_result list) res option" where
  "wl_connection_read rs c =
     (if 4096 \<le> wl_buffer_size (conn_in c) then Some (Inr (-1, c, rs))
      else
        let v = wl_buffer_put_iov (conn_in c) in
        (case recvmsg_retry rs of
           None \<Rightarrow> None
         | Some (Received xs ms, rs') \<Rightarrow>
             let xs = take (iov_len v) xs in
             if xs = [] then Some (Inr (0, c, rs'))
             else Some (
               rbind (scatter (buf_data (conn_in c)) v xs) (\<lambda>d.
               rbind (decode_cmsg (fds_in c) ms) (\<lambda>(ret, cl, fi).
                 let c = c\<lparr>conn_in := (conn_in c)\<lparr>buf_data := d\<rparr>, fds_in := fi, closed := closed c @ cl\<rparr> in
                 if ret \<noteq> 0 then Inr (-1, c, rs')
                 else
                   let b = (conn_in c)\<lparr>buf_head := buf_head (conn_in c) + of_nat (length xs)\<rparr>
                   in Inr (sint (wl_buffer_size b), c\<lparr>conn_in := b\<rparr>, rs'))))
         | Some (Recv_closed, rs') \<Rightarrow> Some (Inr (0, c, rs'))
         | Some (_, rs') \<Rightarrow> Some (Inr (-1, c, rs'))))"

section \<open>Writing\<close>

text \<open>Making room: the flush that \<open>write\<close>, \<open>queue\<close>, \<open>put_fd\<close> and \<open>copy_fds\<close> do when the buffer is
  too full.  \<open>k\<close> is what follows a flush that succeeded.\<close>

definition flush_if :: "bool \<Rightarrow> send_result list \<Rightarrow> wl_connection \<Rightarrow>
    (wl_connection \<Rightarrow> send_result list \<Rightarrow> (int \<times> wl_connection \<times> send_result list) res) \<Rightarrow>
    (int \<times> wl_connection \<times> send_result list) res option" where
  "flush_if full rs c k =
     (if full then
        (case wl_connection_flush rs (c\<lparr>want_flush := True\<rparr>) of
           None \<Rightarrow> None
         | Some (Inl e) \<Rightarrow> Some (Inl e)
         | Some (Inr (r, c', rs')) \<Rightarrow> Some (if r < 0 then Inr (-1, c', rs') else k c' rs'))
      else Some (k c rs))"

definition put_out :: "bytes \<Rightarrow> wl_connection \<Rightarrow> send_result list \<Rightarrow>
    (int \<times> wl_connection \<times> send_result list) res" where
  "put_out xs c rs =
     rbind (wl_buffer_put (conn_out c) xs) (\<lambda>(r, b). Inr (r, c\<lparr>conn_out := b\<rparr>, rs))"

definition out_full :: "wl_connection \<Rightarrow> nat \<Rightarrow> bool" where
  "out_full c n \<longleftrightarrow> 4096 < unat (wl_buffer_size (conn_out c)) + n"

definition wl_connection_write :: "send_result list \<Rightarrow> wl_connection \<Rightarrow> bytes \<Rightarrow>
    (int \<times> wl_connection \<times> send_result list) res option" where
  "wl_connection_write rs c xs =
     flush_if (out_full c (length xs)) rs c (\<lambda>c rs.
       rbind (put_out xs c rs) (\<lambda>(r, c, rs).
         Inr (if r < 0 then (-1, c, rs) else (0, c\<lparr>want_flush := True\<rparr>, rs))))"

definition wl_connection_queue :: "send_result list \<Rightarrow> wl_connection \<Rightarrow> bytes \<Rightarrow>
    (int \<times> wl_connection \<times> send_result list) res option" where
  "wl_connection_queue rs c xs = flush_if (out_full c (length xs)) rs c (put_out xs)"

definition wl_connection_put_fd :: "send_result list \<Rightarrow> wl_connection \<Rightarrow> u32 \<Rightarrow>
    (int \<times> wl_connection \<times> send_result list) res option" where
  "wl_connection_put_fd rs c fd =
     flush_if (unat (wl_buffer_size (fds_out c)) = MAX_FDS_OUT * 4) rs c (\<lambda>c rs.
       rbind (wl_buffer_put (fds_out c) (bytes32 fd)) (\<lambda>(r, b). Inr (r, c\<lparr>fds_out := b\<rparr>, rs)))"

text \<open>The descriptors are read at \<open>data + tail\<close> with the tail not masked.\<close>

definition wl_connection_copy_fds :: "send_result list \<Rightarrow> wl_connection \<Rightarrow> wl_connection \<Rightarrow>
    (int \<times> wl_connection \<times> wl_connection \<times> send_result list) res option" where
  "wl_connection_copy_fds rs c1 c2 =
     (let size = wl_buffer_size (fds_in c1);
          full = (MAX_FDS_OUT * 4 \<le> unat (size + wl_buffer_size (fds_out c2)))
      in if size = 0 then Some (Inr (0, c1, c2, rs))
         else
           (case (if full then wl_connection_flush rs (c2\<lparr>want_flush := True\<rparr>) else Some (Inr (0, c2, rs))) of
              None \<Rightarrow> None
            | Some (Inl e) \<Rightarrow> Some (Inl e)
            | Some (Inr (r, c2', rs')) \<Rightarrow>
                if r < 0 then Some (Inr (-1, c1, c2', rs'))
                else Some (
                  rbind (memcpy_from (buf_data (fds_in c1)) (unat (buf_tail (fds_in c1))) (unat size)) (\<lambda>xs.
                  rbind (wl_buffer_put (fds_out c2') xs) (\<lambda>(ret, b).
                    Inr (ret, c1\<lparr>fds_in := buf_consume (fds_in c1) (unat size)\<rparr>,
                         c2'\<lparr>fds_out := b\<rparr>, rs'))))))"

section \<open>Invariant and observables\<close>

definition conn_wf :: "wl_connection \<Rightarrow> bool" where
  "conn_wf c \<longleftrightarrow> buf_wf (conn_in c) \<and> buf_wf (conn_out c) \<and> buf_wf (fds_in c) \<and> buf_wf (fds_out c)"

definition data_sent :: "wl_connection \<Rightarrow> bytes" where
  "data_sent c = concat (map fst (sent c))"

definition fds_sent :: "wl_connection \<Rightarrow> bytes" where
  "fds_sent c = concat (map snd (sent c))"

lemma conn_wf_create: "conn_wf (wl_connection_create fd)"
  by (simp add: conn_wf_def wl_connection_create_def empty_buffer_wf)

lemma size_contents: "unat (wl_buffer_size b) = length (contents b)"
  by (simp add: length_contents)

lemma size_zero_iff: "wl_buffer_size b = 0 \<longleftrightarrow> contents b = []"
  by (metis length_0_conv length_contents unat_eq_0)

lemma build_cmsg_contents:
  "buf_wf b \<Longrightarrow> build_cmsg b = Inr (take 112 (contents b))"
  using wl_buffer_copy_contents [of b "min (length (contents b)) 112"]
  by (auto simp: build_cmsg_def Let_def MAX_FDS_OUT_def size_contents min_def)

lemma close_fds_contents:
  assumes "buf_wf b"
  shows "\<exists>b'. close_fds b mx = Inr (take (if 0 < mx \<and> mx < int (length (contents b) div 4) then nat mx
      else length (contents b) div 4) (chunks4 (contents b)), b') \<and> buf_wf b' \<and> contents b' = []"
proof (cases "contents b = []")
  case True
  then show ?thesis using assms by (simp add: close_fds_def Let_def size_contents)
next
  case False
  have "length (contents b) \<le> 4096" using ring.abs_cap [OF assms] .
  then show ?thesis
    using False wl_buffer_copy_contents [OF assms, of "length (contents b)"]
      buf_consume_contents [OF assms, of "length (contents b)"]
    by (auto simp: close_fds_def Let_def size_contents BUF_SIZE_def)
qed

lemma length_chunks4: "length (chunks4 xs) = length xs div 4"
  by (induction xs rule: chunks4.induct) auto

declare flush_loop.simps [simp del]

text \<open>One turn of the flush on a well-formed connection.\<close>

lemma flush_loop_done: "contents (conn_out c) = [] \<Longrightarrow> flush_loop rs c = Some (Inr (True, c, rs))"
  by (subst flush_loop.simps) (simp add: size_zero_iff)

lemma flush_loop_turn:
  assumes "conn_wf c" "contents (conn_out c) \<noteq> []"
  obtains (script) "sendmsg_retry rs = None" "flush_loop rs c = None"
  | (error) rs' where "sendmsg_retry rs = Some (None, rs')" "flush_loop rs c = Some (Inr (False, c, rs'))"
  | (sent) k rs' n fo c' where "sendmsg_retry rs = Some (Some k, rs')" "flush_loop rs c = flush_loop rs' c'"
      "n = min k (length (contents (conn_out c)))" "buf_wf fo" "contents fo = []"
      "c' = c\<lparr>fds_out := fo, conn_out := buf_consume (conn_out c) n,
         sent := sent c @ [(take n (contents (conn_out c)), take 112 (contents (fds_out c)))],
         closed := closed c @ take 28 (chunks4 (contents (fds_out c)))\<rparr>"
proof -
  have wf: "buf_wf (conn_out c)" "buf_wf (fds_out c)" using assms(1) by (simp_all add: conn_wf_def)
  have ne: "wl_buffer_size (conn_out c) \<noteq> 0" using assms(2) by (simp add: size_zero_iff)
  have g: "gather (buf_data (conn_out c)) (wl_buffer_get_iov (conn_out c)) = contents (conn_out c)"
    by (rule get_iov_gather [OF wf(1) assms(2)])
  note unf = flush_loop.simps [of rs c] build_cmsg_contents [OF wf(2)] g
  show thesis
  proof (cases "sendmsg_retry rs")
    case None
    then show thesis using ne by (intro script) (simp_all add: unf)
  next
    case (Some p)
    obtain r rs' where p: "p = (r, rs')" by fastforce
    show thesis
    proof (cases r)
      case None
      then show thesis using ne Some p by (intro error) (simp_all add: unf)
    next
      case k: (Some k)
      obtain fo where "close_fds (fds_out c) 28 = Inr (take (if 0 < (28 :: int) \<and> 28 < int (length (contents (fds_out c)) div 4)
          then nat 28 else length (contents (fds_out c)) div 4) (chunks4 (contents (fds_out c))), fo)"
        and fo: "buf_wf fo" "contents fo = []"
        using close_fds_contents [OF wf(2), of 28] by blast
      then have cl: "close_fds (fds_out c) 28 = Inr (take 28 (chunks4 (contents (fds_out c))), fo)"
        by (simp add: length_chunks4 split: if_splits)
      show thesis
        using ne Some p k cl
        by (intro sent [of k rs', OF _ _ refl fo refl]) (simp_all add: unf Let_def MAX_FDS_OUT_def)
    qed
  qed
qed

section \<open>What a flush does\<close>

definition fds_flushed :: "wl_connection \<Rightarrow> wl_connection \<Rightarrow> bool" where
  "fds_flushed c c' \<longleftrightarrow> contents (fds_out c') = [] \<and>
     fds_sent c' = fds_sent c @ take 112 (contents (fds_out c)) \<and>
     closed c' = closed c @ take 28 (chunks4 (contents (fds_out c)))"

lemma flush_loop_effect:
  assumes "conn_wf c" "flush_loop rs c = Some r"
  shows "\<exists>ok c' rs'. r = Inr (ok, c', rs') \<and> conn_wf c' \<and>
    data_sent c' @ contents (conn_out c') = data_sent c @ contents (conn_out c) \<and>
    (ok \<longrightarrow> contents (conn_out c') = []) \<and> conn_in c' = conn_in c \<and> fds_in c' = fds_in c \<and>
    buf_head (conn_out c') = buf_head (conn_out c) \<and> want_flush c' = want_flush c \<and>
    (fds_flushed c c' \<or> (fds_out c' = fds_out c \<and> fds_sent c' = fds_sent c \<and> closed c' = closed c \<and>
       (ok \<longrightarrow> contents (conn_out c) = [])))"
  using assms
proof (induction "length rs" arbitrary: rs c rule: less_induct)
  case less
  show ?case
  proof (cases "contents (conn_out c) = []")
    case True
    then show ?thesis using less.prems flush_loop_done [OF True] by auto
  next
    case False
    from less.prems(1) False show ?thesis
    proof (cases rule: flush_loop_turn [where rs = rs])
      case script
      then show ?thesis using less.prems(2) by simp
    next
      case (error rs')
      then show ?thesis using less.prems by auto
    next
      case (sent k rs' n fo c1)
      have n: "n \<le> length (contents (conn_out c))" using sent(3) by simp
      have wf: "buf_wf (conn_out c)" using less.prems(1) by (simp add: conn_wf_def)
      note cons = buf_consume_contents [OF wf n]
      have wf1: "conn_wf c1" using less.prems(1) cons sent(4) by (simp add: conn_wf_def sent(6))
      have loop: "flush_loop rs' c1 = Some r" using less.prems(2) sent(2) by simp
      obtain ok c' rs2 where r: "r = Inr (ok, c', rs2)" "conn_wf c'"
        "data_sent c' @ contents (conn_out c') = data_sent c1 @ contents (conn_out c1)"
        "ok \<longrightarrow> contents (conn_out c') = []" "conn_in c' = conn_in c1" "fds_in c' = fds_in c1"
        "buf_head (conn_out c') = buf_head (conn_out c1)" "want_flush c' = want_flush c1"
        "fds_flushed c1 c' \<or> (fds_out c' = fds_out c1 \<and> fds_sent c' = fds_sent c1 \<and> closed c' = closed c1 \<and>
           (ok \<longrightarrow> contents (conn_out c1) = []))"
        using less.hyps [OF sendmsg_retry_shorter [OF sent(1)] wf1 loop] by blast
      have "data_sent c1 @ contents (conn_out c1) = data_sent c @ contents (conn_out c)"
        using cons by (simp add: sent(6) data_sent_def)
      moreover have "fds_flushed c c'"
        using r(9) sent(5) by (auto simp: fds_flushed_def sent(6) fds_sent_def)
      moreover have "buf_head (conn_out c1) = buf_head (conn_out c)"
        by (simp add: sent(6) buf_consume_def)
      ultimately show ?thesis using r by (simp add: sent(6))
    qed
  qed
qed

text \<open>Every successful call that takes at least a byte brings the end nearer.\<close>

definition accepted :: "send_result list \<Rightarrow> nat" where
  "accepted rs = length (filter (\<lambda>r. case r of Sent n \<Rightarrow> 0 < n | _ \<Rightarrow> False) rs)"

lemma sendmsg_retry_accepted:
  "sendmsg_retry rs = None \<Longrightarrow> accepted rs = 0"
  "sendmsg_retry rs = Some (Some k, rs') \<Longrightarrow> accepted rs = (if 0 < k then 1 else 0) + accepted rs'"
  by (induction rs rule: sendmsg_retry.induct) (auto simp: accepted_def)

lemma flush_loop_returns:
  assumes "conn_wf c" "length (contents (conn_out c)) \<le> accepted rs"
  shows "flush_loop rs c \<noteq> None"
  using assms
proof (induction "length rs" arbitrary: rs c rule: less_induct)
  case less
  show ?case
  proof (cases "contents (conn_out c) = []")
    case True
    then show ?thesis using flush_loop_done by simp
  next
    case False
    from less.prems(1) False show ?thesis
    proof (cases rule: flush_loop_turn [where rs = rs])
      case script
      then show ?thesis using less.prems(2) False sendmsg_retry_accepted(1) by simp
    next
      case (error rs')
      then show ?thesis by simp
    next
      case (sent k rs' n fo c1)
      have n: "n \<le> length (contents (conn_out c))" using sent(3) by simp
      have wf: "buf_wf (conn_out c)" using less.prems(1) by (simp add: conn_wf_def)
      note cons = buf_consume_contents [OF wf n]
      have wf1: "conn_wf c1" using less.prems(1) cons sent(4) by (simp add: conn_wf_def sent(6))
      have "length (contents (conn_out c1)) \<le> accepted rs'"
        using less.prems(2) sendmsg_retry_accepted(2) [OF sent(1)] cons sent(3) False
        by (auto simp: sent(6) min_def split: if_splits)
      then have "flush_loop rs' c1 \<noteq> None"
        by (rule less.hyps [OF sendmsg_retry_shorter [OF sent(1)] wf1])
      then show ?thesis using sent(2) by simp
    qed
  qed
qed

lemma sendmsg_retry_error: "sendmsg_retry rs = Some (None, rs') \<Longrightarrow> accepted rs = accepted rs'"
  by (induction rs rule: sendmsg_retry.induct) (auto simp: accepted_def)

text \<open>No more accepting calls are used up than bytes are sent.\<close>

lemma flush_loop_script:
  assumes "conn_wf c" "flush_loop rs c = Some (Inr (ok, c', rs'))"
  shows "accepted rs + length (data_sent c) \<le> accepted rs' + length (data_sent c')"
  using assms
proof (induction "length rs" arbitrary: rs c rule: less_induct)
  case less
  show ?case
  proof (cases "contents (conn_out c) = []")
    case True
    then show ?thesis using less.prems flush_loop_done [OF True] by auto
  next
    case False
    from less.prems(1) False show ?thesis
    proof (cases rule: flush_loop_turn [where rs = rs])
      case script
      then show ?thesis using less.prems(2) by simp
    next
      case (error rs1)
      then show ?thesis using less.prems sendmsg_retry_error by auto
    next
      case (sent k rs1 n fo c1)
      have n: "n \<le> length (contents (conn_out c))" using sent(3) by simp
      have wf: "buf_wf (conn_out c)" using less.prems(1) by (simp add: conn_wf_def)
      have wf1: "conn_wf c1"
        using less.prems(1) buf_consume_contents [OF wf n] sent(4) by (simp add: conn_wf_def sent(6))
      have "accepted rs1 + length (data_sent c1) \<le> accepted rs' + length (data_sent c')"
        using less.hyps [OF sendmsg_retry_shorter [OF sent(1)] wf1] less.prems(2) sent(2) by simp
      moreover have "length (data_sent c1) = length (data_sent c) + n"
        using n by (simp add: sent(6) data_sent_def)
      moreover have "k = 0 \<or> 1 \<le> n" using sent(3) False by (cases "contents (conn_out c)") auto
      ultimately show ?thesis using sendmsg_retry_accepted(2) [OF sent(1)] by auto
    qed
  qed
qed

text \<open>A flush fails only where a call fails.\<close>

lemma sendmsg_retry_set:
  "sendmsg_retry rs = Some (r, rs') \<Longrightarrow> set rs' \<subseteq> set rs \<and> (r = None \<longrightarrow> Send_error \<in> set rs)"
  by (induction rs rule: sendmsg_retry.induct) auto

lemma flush_loop_error:
  assumes "conn_wf c" "flush_loop rs c = Some (Inr (ok, c', rs'))"
  shows "set rs' \<subseteq> set rs \<and> (ok \<or> Send_error \<in> set rs)"
  using assms
proof (induction "length rs" arbitrary: rs c rule: less_induct)
  case less
  show ?case
  proof (cases "contents (conn_out c) = []")
    case True
    then show ?thesis using less.prems flush_loop_done [OF True] by auto
  next
    case False
    from less.prems(1) False show ?thesis
    proof (cases rule: flush_loop_turn [where rs = rs])
      case script
      then show ?thesis using less.prems(2) by simp
    next
      case (error rs1)
      then show ?thesis using less.prems sendmsg_retry_set by auto
    next
      case (sent k rs1 n fo c1)
      have n: "n \<le> length (contents (conn_out c))" using sent(3) by simp
      have wf: "buf_wf (conn_out c)" using less.prems(1) by (simp add: conn_wf_def)
      have wf1: "conn_wf c1"
        using less.prems(1) buf_consume_contents [OF wf n] sent(4) by (simp add: conn_wf_def sent(6))
      have "set rs' \<subseteq> set rs1 \<and> (ok \<or> Send_error \<in> set rs1)"
        using less.hyps [OF sendmsg_retry_shorter [OF sent(1)] wf1] less.prems(2) sent(2) by simp
      then show ?thesis using sendmsg_retry_set [OF sent(1)] by auto
    qed
  qed
qed

section \<open>Reading and writing\<close>

definition rights_bytes :: "(bool \<times> bytes) list \<Rightarrow> bytes" where
  "rights_bytes ms = concat (map snd (filter fst ms))"

lemma decode_cmsg_fits:
  assumes "buf_wf b" "length (contents b) + length (rights_bytes ms) \<le> 4096"
  shows "\<exists>b'. decode_cmsg_loop ms False cl b = Inr (0, cl, b') \<and> buf_wf b' \<and>
    contents b' = contents b @ rights_bytes ms"
  using assms
proof (induction ms arbitrary: b)
  case (Cons m ms)
  obtain rights xs where m: "m = (rights, xs)" by fastforce
  show ?case
  proof (cases rights)
    case False
    with Cons m show ?thesis by (simp add: rights_bytes_def)
  next
    case True
    then have fits: "length (contents b) + length xs \<le> 4096"
      using Cons.prems(2) m by (simp add: rights_bytes_def)
    obtain b1 where b1: "wl_buffer_put b xs = Inr (0, b1)" "buf_wf b1" "contents b1 = contents b @ xs"
      using ring.put_appends [OF Cons.prems(1) fits] by blast
    have "length (contents b1) + length (rights_bytes ms) \<le> 4096"
      using Cons.prems(2) m True b1(3) by (simp add: rights_bytes_def)
    from Cons.IH [OF b1(2) this] b1 m True fits show ?thesis
      by (auto simp: rights_bytes_def size_contents)
  qed
qed (simp add: rights_bytes_def)

lemma sint_small:
  assumes "buf_wf b"
  shows "sint (wl_buffer_size b) = int (length (contents b))"
proof -
  have n: "unat (wl_buffer_size b) = length (contents b)" "length (contents b) \<le> 4096"
    using ring.abs_cap [OF assms] by (simp_all add: size_contents)
  have "sint (of_nat (length (contents b)) :: u32) = int (length (contents b))"
    using n(2) by (simp add: signed_of_nat signed_take_bit_int_eq_self)
  then show ?thesis by (simp flip: n(1))
qed

lemma flush_effect:
  assumes "conn_wf c" "wl_connection_flush rs c = Some r"
  shows "\<exists>ret c' rs'. r = Inr (ret, c', rs') \<and> conn_wf c' \<and>
    data_sent c' @ contents (conn_out c') = data_sent c @ contents (conn_out c) \<and>
    (want_flush c \<and> 0 \<le> ret \<longrightarrow> contents (conn_out c') = []) \<and> (ret < 0 \<or> 0 \<le> ret)"
proof (cases "want_flush c")
  case True
  then obtain q where q: "flush_loop rs c = Some q"
    using assms(2) by (auto simp: wl_connection_flush_def split: option.splits)
  then obtain ok c' rs' where "q = Inr (ok, c', rs')" "conn_wf c'"
    "data_sent c' @ contents (conn_out c') = data_sent c @ contents (conn_out c)"
    "ok \<longrightarrow> contents (conn_out c') = []"
    using flush_loop_effect [OF assms(1) q] by blast
  then show ?thesis using True assms(2) q
    by (cases ok) (auto simp: wl_connection_flush_def conn_wf_def data_sent_def)
qed (use assms in \<open>auto simp: wl_connection_flush_def\<close>)

lemma conn_wf_want [simp]: "conn_wf (c\<lparr>want_flush := w\<rparr>) = conn_wf c"
  "data_sent (c\<lparr>want_flush := w\<rparr>) = data_sent c"
  "fds_sent (c\<lparr>want_flush := w\<rparr>) = fds_sent c"
  by (simp_all add: conn_wf_def data_sent_def fds_sent_def)

lemma put_out_effect:
  assumes "conn_wf c" "\<not> out_full c (length xs)"
  shows "\<exists>b. put_out xs c rs = Inr (0, c\<lparr>conn_out := b\<rparr>, rs) \<and> conn_wf (c\<lparr>conn_out := b\<rparr>) \<and>
    contents b = contents (conn_out c) @ xs"
proof -
  have "buf_wf (conn_out c)" "length (contents (conn_out c)) + length xs \<le> 4096"
    using assms by (simp_all add: conn_wf_def out_full_def size_contents)
  from ring.put_appends [OF this] assms(1) show ?thesis
    by (auto simp: put_out_def conn_wf_def)
qed

lemma write_effect:
  assumes "conn_wf c" "length xs \<le> 4096" "wl_connection_write rs c xs = Some r"
  shows "\<exists>ret c' rs'. r = Inr (ret, c', rs') \<and> conn_wf c' \<and> (ret = 0 \<or> ret = -1) \<and>
    data_sent c' @ contents (conn_out c') =
      data_sent c @ contents (conn_out c) @ (if ret = 0 then xs else [])"
proof (cases "out_full c (length xs)")
  case False
  then show ?thesis
    using assms(1,3) put_out_effect [OF assms(1) False, of rs]
    by (auto simp: wl_connection_write_def flush_if_def data_sent_def conn_wf_def)
next
  case True
  let ?c = "c\<lparr>want_flush := True\<rparr>"
  obtain q where q: "wl_connection_flush rs ?c = Some q"
    using assms(3) True by (auto simp: wl_connection_write_def flush_if_def split: option.splits)
  obtain ret c1 rs1 where f: "q = Inr (ret, c1, rs1)" "conn_wf c1"
    "data_sent c1 @ contents (conn_out c1) = data_sent c @ contents (conn_out c)"
    "0 \<le> ret \<longrightarrow> contents (conn_out c1) = []"
    using flush_effect [OF _ q] assms(1) by auto
  show ?thesis
  proof (cases "ret < 0")
    case True
    then have "r = Inr (-1, c1, rs1)" using assms(3) \<open>out_full c (length xs)\<close> q f(1)
      by (simp add: wl_connection_write_def flush_if_def)
    then show ?thesis using f
      by (intro exI [of _ "-1"] exI [of _ c1] exI [of _ rs1]) simp
  next
    case False
    then have "\<not> out_full c1 (length xs)"
      using f(4) assms(2) by (simp add: out_full_def size_contents)
    then obtain b where b: "put_out xs c1 rs1 = Inr (0, c1\<lparr>conn_out := b\<rparr>, rs1)"
      "conn_wf (c1\<lparr>conn_out := b\<rparr>)" "contents b = contents (conn_out c1) @ xs"
      using put_out_effect [OF f(2)] by blast
    then have "r = Inr (0, c1\<lparr>conn_out := b, want_flush := True\<rparr>, rs1)"
      using assms(3) \<open>out_full c (length xs)\<close> q f(1) False
      by (simp add: wl_connection_write_def flush_if_def)
    then show ?thesis using b f(3) by (simp add: conn_wf_def data_sent_def)
  qed
qed

section \<open>Properties\<close>

text \<open>C15: A flush sends the queued bytes in order and loses none: whatever \<open>sendmsg\<close> accepts,
  interrupts or refuses, the bytes sent followed by the bytes still queued are the bytes that had
  been queued; the return value is negative exactly when an error left the connection wanting a
  flush, and otherwise everything was sent and the return value is its length.\<close>

theorem flush_sends_in_order:
  assumes "conn_wf c" "want_flush c" "wl_connection_flush rs c = Some r"
  shows "\<exists>ret c' rs'. r = Inr (ret, c', rs') \<and> conn_wf c' \<and>
    data_sent c' @ contents (conn_out c') = data_sent c @ contents (conn_out c) \<and>
    (ret < 0 \<longleftrightarrow> want_flush c') \<and>
    (0 \<le> ret \<longrightarrow> contents (conn_out c') = [] \<and> ret = int (length (contents (conn_out c))))"
proof -
  obtain q where q: "flush_loop rs c = Some q"
    using assms(2,3) by (auto simp: wl_connection_flush_def split: option.splits)
  obtain ok c' rs' where e: "q = Inr (ok, c', rs')" "conn_wf c'"
    "data_sent c' @ contents (conn_out c') = data_sent c @ contents (conn_out c)"
    "ok \<longrightarrow> contents (conn_out c') = []" "buf_head (conn_out c') = buf_head (conn_out c)" "want_flush c' = want_flush c"
    using flush_loop_effect [OF assms(1) q] by blast
  let ?n = "length (contents (conn_out c))"
  have "sint (buf_head (conn_out c') - buf_tail (conn_out c)) = int ?n"
  proof -
    have n: "unat (wl_buffer_size (conn_out c)) = ?n" "?n \<le> 4096"
      using assms(1) ring.abs_cap by (auto simp: size_contents conn_wf_def)
    have "sint (of_nat ?n :: u32) = int ?n"
      using n(2) by (simp add: signed_of_nat signed_take_bit_int_eq_self)
    moreover have "of_nat ?n = wl_buffer_size (conn_out c)" by (simp flip: n(1))
    ultimately show ?thesis by (simp add: e(5) wl_buffer_size_def)
  qed
  then show ?thesis
    using assms(2,3) q e by (cases ok) (auto simp: wl_connection_flush_def conn_wf_def data_sent_def)
qed

theorem flush_sends_in_order_witness:
  "\<exists>ret c' rs'. wl_connection_flush [Send_error] ((wl_connection_create 5)\<lparr>want_flush := True,
      conn_out := \<lparr>buf_data = replicate 4096 9, buf_head = 4, buf_tail = 0\<rparr>\<rparr>) = Some (Inr (ret, c', rs')) \<and>
    contents (conn_out c') = [9, 9, 9, 9] \<and> want_flush c'"
proof -
  let ?c = "(wl_connection_create 5)\<lparr>want_flush := True,
      conn_out := \<lparr>buf_data = replicate 4096 9, buf_head = 4, buf_tail = 0\<rparr>\<rparr>"
  have size: "wl_buffer_size (conn_out ?c) = 4" by (simp add: wl_buffer_size_def)
  have c: "contents (conn_out ?c) = [9, 9, 9, 9]"
    by (intro nth_equalityI) (simp_all add: contents_def wl_buffer_size_def nth_Cons' upt_rec)
  have wf: "conn_wf ?c" using conn_wf_create [of 5] by (simp add: conn_wf_def buf_wf_def wl_buffer_size_def)
  have "flush_loop [Send_error] ?c = Some (Inr (False, ?c, []))"
    using wf by (cases rule: flush_loop_turn [where rs = "[Send_error]"]) (use c in auto)
  then have r: "wl_connection_flush [Send_error] ?c = Some (Inr (-1, ?c, []))"
    by (simp add: wl_connection_flush_def)
  from flush_sends_in_order [OF wf _ r] r c show ?thesis by auto
qed

text \<open>Descriptors travel with the first bytes of a flush, but only 28 of them: all the queued
  ones are dropped from the buffer once a message has gone out, whatever \<open>sendmsg\<close> takes after that,
  while no more than 28 have been handed over, and closed on this side.\<close>

theorem flush_drops_fds_beyond_28:
  assumes "conn_wf c" "want_flush c" "contents (conn_out c) \<noteq> []"
    and "wl_connection_flush rs c = Some (Inr (ret, c', rs'))" "0 \<le> ret"
  shows "contents (fds_out c') = [] \<and> fds_sent c' = fds_sent c @ take 112 (contents (fds_out c)) \<and>
    closed c' = closed c @ take 28 (chunks4 (contents (fds_out c)))"
proof -
  obtain ok c1 where q: "flush_loop rs c = Some (Inr (ok, c1, rs'))" "c' = (if ok then c1\<lparr>want_flush := False\<rparr> else c1)"
    "ok \<or> ret = -1"
    using assms(2,4) by (auto simp: wl_connection_flush_def split: option.splits sum.splits if_splits)
  with assms(5) have ok: "ok" by auto
  have "fds_flushed c c1"
    using flush_loop_effect [OF assms(1) q(1)] assms(3) ok by auto
  then show ?thesis using q(2) ok by (simp add: fds_flushed_def fds_sent_def)
qed

theorem flush_drops_fds_beyond_28_witness:
  "\<exists>ret c' rs'. wl_connection_flush [Sent 1] ((wl_connection_create 5)\<lparr>want_flush := True,
      conn_out := \<lparr>buf_data = replicate 4096 9, buf_head = 1, buf_tail = 0\<rparr>,
      fds_out := \<lparr>buf_data = replicate 4096 1, buf_head = 116, buf_tail = 0\<rparr>\<rparr>) = Some (Inr (ret, c', rs')) \<and>
    length (fds_sent c') = 112 \<and> contents (fds_out c') = []"
proof -
  let ?c = "(wl_connection_create 5)\<lparr>want_flush := True,
      conn_out := \<lparr>buf_data = replicate 4096 9, buf_head = 1, buf_tail = 0\<rparr>,
      fds_out := \<lparr>buf_data = replicate 4096 1, buf_head = 116, buf_tail = 0\<rparr>\<rparr>"
  have wf: "conn_wf ?c"
    using conn_wf_create [of 5] by (simp add: conn_wf_def buf_wf_def wl_buffer_size_def)
  have c: "contents (conn_out ?c) = [9]"
    by (intro nth_equalityI) (simp_all add: contents_def wl_buffer_size_def)
  then have cne: "contents (conn_out ?c) \<noteq> []" by simp
  have lf: "length (contents (fds_out ?c)) = 116" by (simp add: length_contents wl_buffer_size_def)
  have "flush_loop [Sent 1] ?c \<noteq> None"
    by (rule flush_loop_returns [OF wf]) (use c in \<open>simp add: accepted_def\<close>)
  then obtain q where q: "flush_loop [Sent 1] ?c = Some q" by blast
  have "\<exists>c1. flush_loop [Sent 1] ?c = Some (Inr (True, c1, []))"
    using wf cne
  proof (cases rule: flush_loop_turn [where rs = "[Sent 1]"])
    case (sent k rs' n fo c1)
    then have "k = 1" "rs' = []" "n = 1" using c by auto
    moreover have "contents (buf_consume (conn_out ?c) 1) = []"
      using buf_consume_contents [of "conn_out ?c" 1] wf c by (simp add: conn_wf_def)
    ultimately have "contents (conn_out c1) = []" using sent(6) by simp
    then show ?thesis using sent(2) \<open>rs' = []\<close> flush_loop_done by simp
  qed (use c in auto)
  then obtain c1 where c1: "flush_loop [Sent 1] ?c = Some (Inr (True, c1, []))" by blast
  then obtain ret c' where r: "wl_connection_flush [Sent 1] ?c = Some (Inr (ret, c', []))"
    by (simp add: wl_connection_flush_def)
  have "0 \<le> ret"
  proof -
    have "ret = sint (buf_head (conn_out c1))" using r c1 by (simp add: wl_connection_flush_def)
    moreover have "buf_head (conn_out c1) = 1" using flush_loop_effect [OF wf c1] by auto
    ultimately show ?thesis by simp
  qed
  from flush_drops_fds_beyond_28 [OF wf _ _ r this] c lf r show ?thesis
    by (simp add: fds_sent_def wl_connection_create_def)
qed

text \<open>Reading appends: when the kernel delivers bytes and descriptors and the descriptors fit,
  the bytes that fit the free space are appended to the input, the descriptors to theirs, nothing
  else changes, and the return value is the number of bytes now waiting.\<close>

theorem connection_read_appends:
  assumes "conn_wf c" "length (contents (conn_in c)) < 4096"
    and "recvmsg_retry rs = Some (Received xs ms, rs')" "xs \<noteq> []"
    and "length (contents (fds_in c)) + length (rights_bytes ms) \<le> 4096"
  shows "\<exists>c'. wl_connection_read rs c = Some (Inr (int (length (contents (conn_in c'))), c', rs')) \<and> conn_wf c' \<and>
    contents (conn_in c') = contents (conn_in c) @ take (4096 - length (contents (conn_in c))) xs \<and>
    contents (fds_in c') = contents (fds_in c) @ rights_bytes ms \<and>
    conn_out c' = conn_out c \<and> fds_out c' = fds_out c \<and> closed c' = closed c"
proof -
  let ?v = "wl_buffer_put_iov (conn_in c)" and ?b = "conn_in c"
  have wf: "buf_wf ?b" "buf_wf (fds_in c)" using assms(1) by (simp_all add: conn_wf_def)
  have room: "iov_len ?v = 4096 - length (contents ?b)"
    using put_iov_scatter [OF wf(1), of "[]"] assms(2) by simp
  define ys where "ys = take (iov_len ?v) xs"
  have ys: "ys \<noteq> []" "length ys \<le> iov_len ?v" using assms(2,4) room by (auto simp: ys_def)
  obtain d where d: "scatter (buf_data ?b) ?v ys = Inr d"
    "buf_wf (?b\<lparr>buf_data := d, buf_head := buf_head ?b + of_nat (length ys)\<rparr>)"
    "contents (?b\<lparr>buf_data := d, buf_head := buf_head ?b + of_nat (length ys)\<rparr>) = contents ?b @ ys"
    using wl_buffer_receive [OF wf(1) assms(2) ys(2)] by blast
  obtain fi where fi: "decode_cmsg (fds_in c) ms = Inr (0, [], fi)" "buf_wf fi"
    "contents fi = contents (fds_in c) @ rights_bytes ms"
    using decode_cmsg_fits [OF wf(2) assms(5)] unfolding decode_cmsg_def by blast
  have small: "\<not> 4096 \<le> wl_buffer_size ?b"
    using assms(2) by (simp add: word_le_nat_alt size_contents)
  let ?c' = "c\<lparr>conn_in := ?b\<lparr>buf_data := d, buf_head := buf_head ?b + of_nat (length ys)\<rparr>, fds_in := fi\<rparr>"
  have "wl_connection_read rs c = Some (Inr (int (length (contents (conn_in ?c'))), ?c', rs'))"
    using small assms(3) ys(1) d fi sint_small [OF d(2)]
    by (simp add: wl_connection_read_def Let_def ys_def)
  then show ?thesis
    using d fi assms(1) room by (intro exI [of _ ?c']) (auto simp: conn_wf_def ys_def)
qed

theorem connection_read_appends_witness:
  "\<exists>c'. wl_connection_read [Recv_EINTR, Received [1, 2, 3] [(True, [8, 0, 0, 0])]] (wl_connection_create 4) =
      Some (Inr (3, c', [])) \<and> contents (conn_in c') = [1, 2, 3] \<and> contents (fds_in c') = [8, 0, 0, 0]"
  using connection_read_appends [OF conn_wf_create [of 4], of "[Recv_EINTR, Received [1, 2, 3] [(True, [8, 0, 0, 0])]]"
      "[1, 2, 3]" "[(True, [8, 0, 0, 0])]" "[]"]
  by (auto simp: wl_connection_create_def empty_buffer_wf rights_bytes_def)

text \<open>Writing queues the bytes after everything written before them, flushing first if they
  would not fit; if that flush fails the call fails and the bytes are not queued.\<close>

theorem connection_write_in_order:
  assumes "conn_wf c" "length xs \<le> 4096" "wl_connection_write rs c xs = Some r"
  shows "\<exists>ret c' rs'. r = Inr (ret, c', rs') \<and> conn_wf c' \<and> (ret = 0 \<or> ret = -1) \<and>
    data_sent c' @ contents (conn_out c') =
      data_sent c @ contents (conn_out c) @ (if ret = 0 then xs else [])"
  by (rule write_effect [OF assms])

theorem connection_write_in_order_witness:
  "\<exists>ret c' rs'. wl_connection_write [] (wl_connection_create 4) [1, 2] = Some (Inr (ret, c', rs')) \<and>
     data_sent c' @ contents (conn_out c') = (if ret = 0 then [1, 2] else [])"
proof -
  have "\<not> out_full (wl_connection_create 4) (length [1, 2 :: u8])"
    by (simp add: out_full_def size_contents wl_connection_create_def empty_buffer_wf)
  then obtain r where r: "wl_connection_write [] (wl_connection_create 4) [1, 2] = Some r"
    by (auto simp: wl_connection_write_def flush_if_def)
  from connection_write_in_order [OF conn_wf_create _ r] obtain ret c' rs' where
    "r = Inr (ret, c', rs')" "data_sent c' @ contents (conn_out c') =
      data_sent (wl_connection_create 4) @ contents (conn_out (wl_connection_create 4)) @ (if ret = 0 then [1, 2] else [])"
    by auto
  moreover have "data_sent (wl_connection_create 4) = []" "contents (conn_out (wl_connection_create 4)) = []"
    by (simp_all add: wl_connection_create_def empty_buffer_wf data_sent_def)
  ultimately show ?thesis using r by (intro exI [of _ ret] exI [of _ c'] exI [of _ rs']) simp
qed

text \<open>C37: Descriptors are moved from one connection to the other only while the counter of the
  first one is small: the source of the copy is \<open>data + tail\<close> with \<open>tail\<close> not masked, so once the
  descriptors taken so far and those waiting exceed 4096 bytes the copy reads outside the buffer;
  until then they are appended, in order, and removed from the first connection.\<close>

theorem copy_fds_overruns:
  assumes "conn_wf c1" "conn_wf c2" "contents (fds_in c1) \<noteq> []"
    and "length (contents (fds_in c1)) + length (contents (fds_out c2)) < 112"
  shows "if 4096 < unat (buf_tail (fds_in c1)) + length (contents (fds_in c1))
    then wl_connection_copy_fds rs c1 c2 = Some (Inl OutOfBounds)
    else \<exists>c1' c2'. wl_connection_copy_fds rs c1 c2 = Some (Inr (0, c1', c2', rs)) \<and> conn_wf c1' \<and> conn_wf c2' \<and>
      contents (fds_out c2') = contents (fds_out c2) @ contents (fds_in c1) \<and> contents (fds_in c1') = []"
proof -
  let ?b = "fds_in c1" and ?n = "length (contents (fds_in c1))"
  have wf: "buf_wf ?b" "buf_wf (fds_out c2)" using assms by (simp_all add: conn_wf_def)
  have len: "length (buf_data ?b) = 4096" using wf(1) by (simp add: buf_wf_def)
  have "unat (wl_buffer_size ?b + wl_buffer_size (fds_out c2)) = ?n + length (contents (fds_out c2))"
    using assms(4) by (simp add: unat_word_ariths size_contents)
  then have notfull: "\<not> MAX_FDS_OUT * 4 \<le> unat (wl_buffer_size ?b + wl_buffer_size (fds_out c2))"
    using assms(4) by (simp add: MAX_FDS_OUT_def)
  have ne: "wl_buffer_size ?b \<noteq> 0" using assms(3) by (simp add: size_zero_iff)
  show ?thesis
  proof (cases "4096 < unat (buf_tail ?b) + ?n")
    case True
    then show ?thesis using ne notfull len
      by (simp add: wl_connection_copy_fds_def Let_def memcpy_from_def size_contents)
  next
    case False
    have n0: "0 < ?n" using assms(3) by simp
    then have t: "unat (buf_tail ?b) < 4096" using False by linarith
    have "contents ?b = take ?n (drop (unat (buf_tail ?b)) (buf_data ?b))"
    proof -
      have "contents ?b = map (\<lambda>k. buf_data ?b ! ((unat (buf_tail ?b) + k) mod 4096)) [0..<?n]"
        by (simp add: contents_def)
      also have "\<dots> = take ?n (drop (unat (buf_tail ?b)) (buf_data ?b))"
        using ring_load_pure [OF len t, of ?n] False by simp
      finally show ?thesis .
    qed
    then have cp: "memcpy_from (buf_data ?b) (unat (buf_tail ?b)) ?n = Inr (contents ?b)"
      using False len by (simp add: memcpy_from_def)
    obtain b' where b': "wl_buffer_put (fds_out c2) (contents ?b) = Inr (0, b')" "buf_wf b'"
      "contents b' = contents (fds_out c2) @ contents ?b"
      using ring.put_appends [OF wf(2), of "contents ?b"] assms(4) by auto
    show ?thesis
      using False ne notfull cp b' buf_consume_contents [OF wf(1), of ?n] assms(1,2)
      by (auto simp: wl_connection_copy_fds_def Let_def size_contents conn_wf_def)
  qed
qed

theorem copy_fds_overruns_witness:
  "wl_connection_copy_fds [] ((wl_connection_create 4)\<lparr>fds_in :=
      \<lparr>buf_data = replicate 4096 1, buf_head = 4100, buf_tail = 4096\<rparr>\<rparr>) (wl_connection_create 5) =
    Some (Inl OutOfBounds)"
proof -
  let ?c = "(wl_connection_create 4)\<lparr>fds_in := \<lparr>buf_data = replicate 4096 1, buf_head = 4100, buf_tail = 4096\<rparr>\<rparr>"
  have len: "length (contents (fds_in ?c)) = 4" by (simp add: length_contents wl_buffer_size_def)
  then have ne: "contents (fds_in ?c) \<noteq> []" by (metis length_0_conv zero_neq_numeral)
  have wf: "conn_wf ?c" using conn_wf_create [of 4] by (simp add: conn_wf_def buf_wf_def wl_buffer_size_def)
  have "length (contents (fds_in ?c)) + length (contents (fds_out (wl_connection_create 5))) < 112"
    using len by (simp add: wl_connection_create_def empty_buffer_wf)
  moreover have "4096 < unat (buf_tail (fds_in ?c)) + length (contents (fds_in ?c))"
    unfolding len by simp
  ultimately show ?thesis
    using copy_fds_overruns [OF wf conn_wf_create ne, of 5 "[]"] by (simp only: if_True)
qed

end
