(* ===== verification/Process.thy ===== *)
theory Process
  imports Resolve_Pass Connection
begin

text \<open>
  The way of a message through wldbg, \<^verbatim>\<open>src/wldbg.c\<close>: \<open>dispatch_messages\<close> reads from one
  side, \<open>process_data\<close> cuts the bytes into messages, runs the passes over each and writes it to the
  other side.

  A pass is the pair of callbacks of \<^verbatim>\<open>src/wldbg-pass.h\<close> over an arbitrary state; the state of
  the program that the loop looks at is the two flags.  The pointer \<open>message->data\<close> is the memory
  block it points into and an offset.
\<close>

record wmessage =
  msg_mem :: bytes
  msg_off :: nat
  msg_size :: u64
  msg_from :: side

record 's wldbg =
  w_exit :: bool
  w_error :: bool
  w_pass_whole_buffer :: bool
  w_state :: 's

record 's pass =
  pass_name :: string
  server_pass :: "'s wldbg \<Rightarrow> wmessage \<Rightarrow> ('s wldbg \<times> wmessage \<times> pass_verdict) res"
  client_pass :: "'s wldbg \<Rightarrow> wmessage \<Rightarrow> ('s wldbg \<times> wmessage \<times> pass_verdict) res"

definition call_pass :: "'s pass \<Rightarrow> 's wldbg \<Rightarrow> wmessage \<Rightarrow> ('s wldbg \<times> wmessage \<times> pass_verdict) res" where
  "call_pass p w m = (case msg_from m of SERVER \<Rightarrow> server_pass p w m | CLIENT \<Rightarrow> client_pass p w m)"

fun run_passes :: "'s pass list \<Rightarrow> 's wldbg \<Rightarrow> wmessage \<Rightarrow> ('s wldbg \<times> wmessage) res" where
  "run_passes [] w m = Inr (w, m)"
| "run_passes (p # ps) w m =
     rbind (call_pass p w m) (\<lambda>(w', m', v).
       if v = PASS_STOP then Inr (w', m') else run_passes ps w' m')"

text \<open>\<open>wl_connection_write\<close> called with a pointer: the bytes are read when they are put into the
  buffer, after the flush that makes room, and not at all when there are more than 4096.\<close>

definition write_from :: "send_result list \<Rightarrow> wl_connection \<Rightarrow> wmessage \<Rightarrow>
    (int \<times> wl_connection \<times> send_result list) res option" where
  "write_from rs c m =
     (let n = unat (msg_size m) in
      flush_if (out_full c n) rs c (\<lambda>c rs.
        if BUF_SIZE < n then Inr (-1, c, rs)
        else rbind (memcpy_from (msg_mem m) (msg_off m) n) (\<lambda>xs.
             rbind (put_out xs c rs) (\<lambda>(r, c, rs).
               Inr (if r < 0 then (-1, c, rs) else (0, c\<lparr>want_flush := True\<rparr>, rs))))))"

text \<open>Writing a message out: \<open>wl_connection_write\<close> and \<open>wl_connection_flush\<close>.\<close>

definition resend :: "send_result list \<Rightarrow> wl_connection \<Rightarrow> wmessage \<Rightarrow>
    (int \<times> wl_connection \<times> send_result list) res option" where
  "resend rs c m =
     (case write_from rs c m of
        None \<Rightarrow> None
      | Some (Inl e) \<Rightarrow> Some (Inl e)
      | Some (Inr (r, c1, rs1)) \<Rightarrow>
          if r < 0 then Some (Inr (-1, c1, rs1))
          else
            (case wl_connection_flush rs1 c1 of
               None \<Rightarrow> None
             | Some (Inl e) \<Rightarrow> Some (Inl e)
             | Some (Inr (f, c2, rs2)) \<Rightarrow> Some (Inr (if f < 0 then -1 else 0, c2, rs2))))"

text \<open>The state of the loop of \<open>process_one_by_one\<close>; \<open>rest\<close> is a \<open>size_t\<close>, and nothing compares it
  with the size in the header.\<close>

record 's loop_state =
  ls_wldbg :: "'s wldbg"
  ls_msg :: wmessage
  ls_rest :: u64
  ls_n :: nat
  ls_out :: wl_connection
  ls_script :: "send_result list"

partial_function (option) one_by_one_loop ::
    "'s pass list \<Rightarrow> 's loop_state \<Rightarrow> (int \<times> 's loop_state) res option" where
  "one_by_one_loop ps s =
     (if ls_rest s = 0 then Some (Inr (int (ls_n s), s))
      else
        (case load32 (msg_mem (ls_msg s)) (msg_off (ls_msg s) + 4) of
           Inl e \<Rightarrow> Some (Inl e)
         | Inr word \<Rightarrow>
             (case run_passes ps (ls_wldbg s) ((ls_msg s)\<lparr>msg_size := ucast (drop_bit 16 word)\<rparr>) of
                Inl e \<Rightarrow> Some (Inl e)
              | Inr (w, m) \<Rightarrow>
                  if w_exit w then Some (Inr (0, s\<lparr>ls_wldbg := w, ls_msg := m\<rparr>))
                  else if w_error w then Some (Inr (-1, s\<lparr>ls_wldbg := w, ls_msg := m\<rparr>))
                  else
                    (case resend (ls_script s) (ls_out s) m of
                       None \<Rightarrow> None
                     | Some (Inl e) \<Rightarrow> Some (Inl e)
                     | Some (Inr (r, c, rs)) \<Rightarrow>
                         if r < 0 then
                           Some (Inr (-1, s\<lparr>ls_wldbg := w, ls_msg := m, ls_out := c, ls_script := rs\<rparr>))
                         else
                           one_by_one_loop ps
                             (s\<lparr>ls_wldbg := w, ls_msg := m\<lparr>msg_off := msg_off m + unat (msg_size m)\<rparr>,
                               ls_rest := ls_rest s - msg_size m, ls_n := ls_n s + 1,
                               ls_out := c, ls_script := rs\<rparr>)))))"

definition process_one_by_one :: "'s pass list \<Rightarrow> 's wldbg \<Rightarrow> send_result list \<Rightarrow> wl_connection \<Rightarrow> wmessage \<Rightarrow>
    (int \<times> 's loop_state) res option" where
  "process_one_by_one ps w rs c m =
     one_by_one_loop ps \<lparr>ls_wldbg = w, ls_msg = m, ls_rest = msg_size m, ls_n = 0, ls_out = c, ls_script = rs\<rparr>"

text \<open>The two ends of a debugged connection, and the buffer \<open>wldbg->buffer\<close>.\<close>

record wldbg_connection =
  wc_server :: wl_connection
  wc_client :: wl_connection

definition end_of :: "side \<Rightarrow> wldbg_connection \<Rightarrow> wl_connection" where
  "end_of sd wc = (case sd of SERVER \<Rightarrow> wc_server wc | CLIENT \<Rightarrow> wc_client wc)"

definition other_side :: "side \<Rightarrow> side" where
  "other_side sd = (case sd of SERVER \<Rightarrow> CLIENT | CLIENT \<Rightarrow> SERVER)"

definition set_ends :: "side \<Rightarrow> wl_connection \<Rightarrow> wl_connection \<Rightarrow> wldbg_connection" where
  "set_ends sd c1 c2 = (case sd of SERVER \<Rightarrow> \<lparr>wc_server = c1, wc_client = c2\<rparr>
                                  | CLIENT \<Rightarrow> \<lparr>wc_server = c2, wc_client = c1\<rparr>)"

text \<open>\<open>process_data\<close> for data that came from \<open>sd\<close>.  The result of \<open>wl_connection_copy_fds\<close> is not
  looked at.\<close>

definition process_data :: "'s pass list \<Rightarrow> 's wldbg \<Rightarrow> send_result list \<Rightarrow> bytes \<Rightarrow> wldbg_connection \<Rightarrow> side \<Rightarrow> nat \<Rightarrow>
    (int \<times> 's wldbg \<times> wldbg_connection \<times> send_result list) res option" where
  "process_data ps w rs buffer wc sd len =
     (if len = 0 then Some (Inr (-1, w, wc, rs))
      else
        (case rbind (wl_connection_copy (end_of sd wc) len) (memcpy_to buffer 0) of
           Inl e \<Rightarrow> Some (Inl e)
         | Inr mem \<Rightarrow>
             (case wl_connection_copy_fds rs (wl_connection_consume (end_of sd wc) len) (end_of (other_side sd) wc) of
                None \<Rightarrow> None
              | Some (Inl e) \<Rightarrow> Some (Inl e)
              | Some (Inr (_, c1, c2, rs1)) \<Rightarrow>
                  let m = \<lparr>msg_mem = mem, msg_off = 0, msg_size = of_nat len, msg_from = sd\<rparr> in
                  if \<not> w_pass_whole_buffer w then
                    (case process_one_by_one ps w rs1 c2 m of
                       None \<Rightarrow> None
                     | Some (Inl e) \<Rightarrow> Some (Inl e)
                     | Some (Inr (r, s)) \<Rightarrow>
                         Some (Inr (r, ls_wldbg s, set_ends sd c1 (ls_out s), ls_script s)))
                  else
                    (case run_passes ps w m of
                       Inl e \<Rightarrow> Some (Inl e)
                     | Inr (w', m') \<Rightarrow>
                         if w_exit w' then Some (Inr (0, w', set_ends sd c1 c2, rs1))
                         else if w_error w' then Some (Inr (-1, w', set_ends sd c1 c2, rs1))
                         else
                           (case resend rs1 c2 m' of
                              None \<Rightarrow> None
                            | Some (Inl e) \<Rightarrow> Some (Inl e)
                            | Some (Inr (r, c3, rs2)) \<Rightarrow>
                                Some (Inr (if r < 0 then -1 else 1, w', set_ends sd c1 c3, rs2)))))))"

text \<open>\<open>dispatch_messages\<close>; \<open>again\<close> says whether a failed read left \<open>EAGAIN\<close>.\<close>

definition dispatch_messages :: "'s pass list \<Rightarrow> 's wldbg \<Rightarrow> recv_result list \<Rightarrow> bool \<Rightarrow> send_result list \<Rightarrow> bytes \<Rightarrow>
    wldbg_connection \<Rightarrow> side \<Rightarrow> (int \<times> 's wldbg \<times> wldbg_connection \<times> send_result list) res option" where
  "dispatch_messages ps w recvs again rs buffer wc sd =
     (case wl_connection_read recvs (end_of sd wc) of
        None \<Rightarrow> None
      | Some (Inl e) \<Rightarrow> Some (Inl e)
      | Some (Inr (len, c, _)) \<Rightarrow>
          let wc' = set_ends sd c (end_of (other_side sd) wc) in
          if len < 0 then Some (Inr (if again then 1 else -1, w, wc', rs))
          else process_data ps w rs buffer wc' sd (nat len))"

section \<open>Writing a message out\<close>

lemma write_from_bytes:
  assumes "conn_wf c" "unat (msg_size m) = length xs" "length xs \<le> 4096"
    and "memcpy_from (msg_mem m) (msg_off m) (length xs) = Inr xs"
  shows "write_from rs c m = wl_connection_write rs c xs"
  using assms by (simp add: write_from_def wl_connection_write_def BUF_SIZE_def)

lemma write_wants_flush:
  "wl_connection_write rs c xs = Some (Inr (0, c', rs')) \<Longrightarrow> want_flush c'"
  by (auto simp: wl_connection_write_def flush_if_def rbind_eq_Inr split: if_splits option.splits sum.splits)

lemma resend_effect:
  assumes "conn_wf c" "contents (conn_out c) = []" "unat (msg_size m) = length xs" "length xs \<le> 4096"
    and "memcpy_from (msg_mem m) (msg_off m) (length xs) = Inr xs" "length xs \<le> accepted rs"
  shows "\<exists>ret c' rs'. resend rs c m = Some (Inr (ret, c', rs')) \<and> conn_wf c' \<and>
    (ret = 0 \<and> data_sent c' = data_sent c @ xs \<and> contents (conn_out c') = [] \<and>
       accepted rs \<le> accepted rs' + length xs \<and> set rs' \<subseteq> set rs \<or>
     ret = -1 \<and> data_sent c' @ contents (conn_out c') = data_sent c @ xs \<and> Send_error \<in> set rs)"
proof -
  have "\<not> out_full c (length xs)" using assms(2,4) by (simp add: out_full_def size_contents)
  then obtain b where b: "put_out xs c rs = Inr (0, c\<lparr>conn_out := b\<rparr>, rs)" "conn_wf (c\<lparr>conn_out := b\<rparr>)"
    "contents b = xs"
    using put_out_effect [OF assms(1)] assms(2) by auto
  let ?c = "c\<lparr>conn_out := b, want_flush := True\<rparr>"
  have w: "write_from rs c m = Some (Inr (0, ?c, rs))"
    using write_from_bytes [OF assms(1,3-5)] \<open>\<not> out_full c (length xs)\<close> b(1)
    by (simp add: wl_connection_write_def flush_if_def)
  have wf: "conn_wf ?c" using b(2) by (simp add: conn_wf_def)
  obtain q where q: "flush_loop rs ?c = Some q"
    using flush_loop_returns [OF wf, of rs] assms(6) b(3) by auto
  obtain ok c1 rs1 where e: "q = Inr (ok, c1, rs1)" "conn_wf c1"
    "data_sent c1 @ contents (conn_out c1) = data_sent c @ xs" "ok \<longrightarrow> contents (conn_out c1) = []"
    using flush_loop_effect [OF wf q] b(3) by (auto simp: data_sent_def)
  have acc: "accepted rs + length (data_sent c) \<le> accepted rs1 + length (data_sent c1)"
    using flush_loop_script [OF wf, of rs ok c1 rs1] q e(1) by (simp add: data_sent_def)
  have err: "set rs1 \<subseteq> set rs" "ok \<or> Send_error \<in> set rs"
    using flush_loop_error [OF wf, of rs ok c1 rs1] q e(1) by simp_all
  obtain f c2 where f: "wl_connection_flush rs ?c = Some (Inr (f, c2, rs1))"
    "if ok then f = sint (buf_head (conn_out c1) - buf_tail b) \<and> c2 = c1\<lparr>want_flush := False\<rparr> else f = -1 \<and> c2 = c1"
    using q e(1) by (cases ok) (auto simp: wl_connection_flush_def)
  show ?thesis
  proof (cases ok)
    case True
    have "buf_head (conn_out c1) = buf_head b" using flush_loop_effect [OF wf q] e(1) by auto
    then have "f = int (length (contents b))"
      using f(2) True sint_small [of b] b(2) by (simp add: conn_wf_def wl_buffer_size_def)
    moreover have "length (data_sent c1) = length (data_sent c) + length xs"
      using e(3,4) True by simp
    moreover have "contents (conn_out c2) = []" "data_sent c2 = data_sent c @ xs" "conn_wf c2"
      using f(2) True e(2-4) by simp_all
    ultimately show ?thesis using w f(1) acc err(1) by (simp add: resend_def)
  next
    case False
    then show ?thesis using w f e(2,3) err(2) by (simp add: resend_def)
  qed
qed

lemma resend_empty:
  assumes "conn_wf c" "contents (conn_out c) = []" "msg_size m = 0" "msg_off m \<le> length (msg_mem m)"
  shows "\<exists>c'. resend rs c m = Some (Inr (0, c', rs)) \<and> conn_wf c' \<and> contents (conn_out c') = []"
proof -
  have nf: "\<not> out_full c 0" using assms(2) by (simp add: out_full_def size_contents)
  have cp: "memcpy_from (msg_mem m) (msg_off m) 0 = Inr []" using assms(4) by (simp add: memcpy_from_def)
  obtain b where b: "put_out [] c rs = Inr (0, c\<lparr>conn_out := b\<rparr>, rs)" "conn_wf (c\<lparr>conn_out := b\<rparr>)"
    "contents b = []"
    using put_out_effect [OF assms(1), of "[]" rs] nf assms(2) by auto
  let ?c = "c\<lparr>conn_out := b, want_flush := True\<rparr>"
  have w: "write_from rs c m = Some (Inr (0, ?c, rs))"
    using assms(3) nf cp b(1) by (simp add: write_from_def flush_if_def BUF_SIZE_def)
  have "flush_loop rs ?c = Some (Inr (True, ?c, rs))" using b(3) by (intro flush_loop_done) simp
  moreover have "buf_head b = buf_tail b"
    using b(3) size_zero_iff [of b] by (simp add: wl_buffer_size_def)
  ultimately have "wl_connection_flush rs ?c = Some (Inr (0, ?c\<lparr>want_flush := False\<rparr>, rs))"
    by (simp add: wl_connection_flush_def)
  with w b(2,3) show ?thesis by (simp add: resend_def conn_wf_def)
qed

section \<open>Framing\<close>

text \<open>A message whose header gives its own length.\<close>

definition well_framed :: "bytes \<Rightarrow> bool" where
  "well_framed x \<longleftrightarrow> 8 \<le> length x \<and>
     (\<exists>word. load32 x 4 = Inr word \<and> unat (drop_bit 16 word) = length x)"

lemma well_framed_at:
  assumes "well_framed x" "drop off mem = x @ rest"
  shows "\<exists>word. load32 mem (off + 4) = Inr word \<and> unat (drop_bit 16 word) = length x"
    and "memcpy_from mem off (length x) = Inr x" and "off + length x \<le> length mem"
proof -
  obtain word where w: "load32 x 4 = Inr word" "unat (drop_bit 16 word) = length x" "8 \<le> length x"
    using assms(1) by (auto simp: well_framed_def)
  have "load32 (drop off mem) 4 = Inr word"
    using w by (simp add: assms(2) load32_append_left)
  then show "\<exists>word. load32 mem (off + 4) = Inr word \<and> unat (drop_bit 16 word) = length x"
    using w(2) by (auto simp: load32_drop)
  have "length mem - off = length x + length rest" using arg_cong [OF assms(2), of length] by simp
  moreover have "x \<noteq> []" using w(3) by auto
  ultimately show le: "off + length x \<le> length mem" by (cases x) auto
  show "memcpy_from mem off (length x) = Inr x"
    using le by (simp add: memcpy_from_def assms(2))
qed

text \<open>The runs of the passes over consecutive messages.\<close>

fun run_over :: "'s pass list \<Rightarrow> 's wldbg \<Rightarrow> wmessage \<Rightarrow> nat list \<Rightarrow> 's wldbg res" where
  "run_over ps w m [] = Inr w"
| "run_over ps w m (n # ns) =
     rbind (run_passes ps w (m\<lparr>msg_size := of_nat n\<rparr>)) (\<lambda>(w', _).
       run_over ps w' (m\<lparr>msg_off := msg_off m + n\<rparr>) ns)"

lemma run_over_size: "run_over ps w (m\<lparr>msg_size := z\<rparr>) ns = run_over ps w m ns"
proof (induction ns arbitrary: w m)
  case (Cons n ns)
  have "(m\<lparr>msg_size := z\<rparr>)\<lparr>msg_off := k\<rparr> = (m\<lparr>msg_off := k\<rparr>)\<lparr>msg_size := z\<rparr>" for k by (cases m) simp
  then have "run_over ps w' ((m\<lparr>msg_size := z\<rparr>)\<lparr>msg_off := k\<rparr>) ns = run_over ps w' (m\<lparr>msg_off := k\<rparr>) ns" for w' k
    using Cons.IH [of w' "m\<lparr>msg_off := k\<rparr>"] by metis
  then show ?case by simp
qed simp

lemma run_over_fault: "run_over ps w m ns = Inl e \<Longrightarrow> \<exists>w m. run_passes ps w m = Inl e"
  by (induction ps w m ns rule: run_over.induct) (auto simp: rbind_eq_Inl)

section \<open>Passes that only look\<close>

text \<open>What the forwarding of messages needs of the passes: whenever they survive a message, they have
  not touched it, nor asked the program to stop.  \<open>calm w k\<close> says that this is so for the next \<open>k\<close>
  messages.\<close>

locale guarded_passes =
  fixes ps :: "'s pass list" and calm :: "'s wldbg \<Rightarrow> nat \<Rightarrow> bool"
  assumes guarded: "calm w (Suc k) \<Longrightarrow> run_passes ps w m = Inr (w', m') \<Longrightarrow>
    m' = m \<and> w_exit w' = w_exit w \<and> w_error w' = w_error w \<and> calm w' k"
begin

text \<open>One turn of the loop over a message that is framed.\<close>

lemma turn:
  assumes "calm (ls_wldbg s) (Suc k)" "ls_rest s \<noteq> 0" "\<not> w_exit (ls_wldbg s)" "\<not> w_error (ls_wldbg s)"
    and "load32 (msg_mem (ls_msg s)) (msg_off (ls_msg s) + 4) = Inr word"
  defines "m \<equiv> (ls_msg s)\<lparr>msg_size := ucast (drop_bit 16 word)\<rparr>"
  shows "one_by_one_loop ps s =
    (case run_passes ps (ls_wldbg s) m of
       Inl e \<Rightarrow> Some (Inl e)
     | Inr (w, _) \<Rightarrow>
         (case resend (ls_script s) (ls_out s) m of
            None \<Rightarrow> None
          | Some (Inl e) \<Rightarrow> Some (Inl e)
          | Some (Inr (r, c, rs)) \<Rightarrow>
              if r < 0 then Some (Inr (-1, s\<lparr>ls_wldbg := w, ls_msg := m, ls_out := c, ls_script := rs\<rparr>))
              else one_by_one_loop ps
                     (s\<lparr>ls_wldbg := w, ls_msg := m\<lparr>msg_off := msg_off m + unat (msg_size m)\<rparr>,
                       ls_rest := ls_rest s - msg_size m, ls_n := ls_n s + 1,
                       ls_out := c, ls_script := rs\<rparr>)))"
proof (cases "run_passes ps (ls_wldbg s) m")
  case (Inl e)
  then show ?thesis using assms(2,5)
    by (subst one_by_one_loop.simps) (simp flip: m_def)
next
  case (Inr p)
  obtain w m' where p: "p = (w, m')" by fastforce
  with Inr guarded have "m' = m" "\<not> w_exit w" "\<not> w_error w" using assms(1,3,4) by metis+
  then show ?thesis using assms(2,5) Inr p
    by (subst one_by_one_loop.simps) (simp flip: m_def)
qed

text \<open>The loop over a whole buffer of framed messages.\<close>

lemma forwards:
  assumes "calm (ls_wldbg s) (length xs)" "list_all well_framed xs" "drop (msg_off (ls_msg s)) (msg_mem (ls_msg s)) = concat xs @ post"
    and "unat (ls_rest s) = length (concat xs)" "length (concat xs) \<le> 4096"
    and "\<not> w_exit (ls_wldbg s)" "\<not> w_error (ls_wldbg s)"
    and "conn_wf (ls_out s)" "contents (conn_out (ls_out s)) = []" "length (concat xs) \<le> accepted (ls_script s)"
  shows "\<exists>r. one_by_one_loop ps s = Some r \<and>
    ((\<exists>e. r = Inl e \<and> run_over ps (ls_wldbg s) (ls_msg s) (map length xs) = Inl e) \<or>
     (\<exists>t. r = Inr (int (ls_n s + length xs), t) \<and> data_sent (ls_out t) = data_sent (ls_out s) @ concat xs \<and>
        contents (conn_out (ls_out t)) = [] \<and> conn_wf (ls_out t) \<and>
        run_over ps (ls_wldbg s) (ls_msg s) (map length xs) = Inr (ls_wldbg t)) \<or>
     (\<exists>t k. r = Inr (-1, t) \<and>
        data_sent (ls_out t) @ contents (conn_out (ls_out t)) = data_sent (ls_out s) @ concat (take k xs) \<and>
        Send_error \<in> set (ls_script s)))"
  using assms
proof (induction xs arbitrary: s)
  case Nil
  then have "ls_rest s = 0" by (simp add: unat_eq_0)
  then have "one_by_one_loop ps s = Some (Inr (int (ls_n s), s))" by (subst one_by_one_loop.simps) simp
  with Nil show ?case by simp
next
  case (Cons x xs)
  let ?off = "msg_off (ls_msg s)" and ?mem = "msg_mem (ls_msg s)"
  have fx: "well_framed x" "list_all well_framed xs" using Cons.prems(2) by simp_all
  have dr: "drop ?off ?mem = x @ (concat xs @ post)" using Cons.prems(3) by simp
  obtain word where word: "load32 ?mem (?off + 4) = Inr word" "unat (drop_bit 16 word) = length x"
    using well_framed_at(1) [OF fx(1) dr] by blast
  define m where "m = (ls_msg s)\<lparr>msg_size := ucast (drop_bit 16 word)\<rparr>"
  have size: "unat (msg_size m) = length x" and msize: "msg_size m = of_nat (length x)"
  proof -
    show "unat (msg_size m) = length x"
      using word(2) unat_u32_less [of "drop_bit 16 word"]
      by (simp add: m_def unsigned_ucast_eq take_bit_nat_eq_self)
    then show "msg_size m = of_nat (length x)" by (metis of_nat_unat ucast_id)
  qed
  have guard: "calm (ls_wldbg s) (Suc (length xs))" using Cons.prems(1) by simp
  have rest: "ls_rest s \<noteq> 0" using Cons.prems(4) fx(1) by (auto simp: well_framed_def)
  note step = turn [OF guard rest Cons.prems(6,7) word(1), folded m_def]
  show ?case
  proof (cases "run_passes ps (ls_wldbg s) m")
    case (Inl e)
    moreover have "m = (ls_msg s)\<lparr>msg_size := of_nat (length x)\<rparr>" using msize by (simp add: m_def)
    ultimately show ?thesis using step by auto
  next
    case (Inr p)
    obtain w m' where p: "run_passes ps (ls_wldbg s) m = Inr (w, m')" using Inr by (cases p) auto
    with guarded guard have w: "m' = m" "\<not> w_exit w" "\<not> w_error w" "calm w (length xs)" using Cons.prems(6,7) by metis+
    have "memcpy_from (msg_mem m) (msg_off m) (length x) = Inr x"
      using well_framed_at(2) [OF fx(1) dr] by (simp add: m_def)
    then obtain ret c rs where re: "resend (ls_script s) (ls_out s) m = Some (Inr (ret, c, rs))" "conn_wf c"
      "ret = 0 \<and> data_sent c = data_sent (ls_out s) @ x \<and> contents (conn_out c) = [] \<and>
         accepted (ls_script s) \<le> accepted rs + length x \<and> set rs \<subseteq> set (ls_script s) \<or>
       ret = -1 \<and> data_sent c @ contents (conn_out c) = data_sent (ls_out s) @ x \<and> Send_error \<in> set (ls_script s)"
      using resend_effect [OF Cons.prems(8,9) size, of "ls_script s"] Cons.prems(5,10) by auto
    show ?thesis
    proof (cases "ret = 0")
      case False
      let ?t = "s\<lparr>ls_wldbg := w, ls_msg := m, ls_out := c, ls_script := rs\<rparr>"
      have loop: "one_by_one_loop ps s = Some (Inr (-1, ?t))"
        using step p re(1,3) False by simp
      have "data_sent (ls_out ?t) @ contents (conn_out (ls_out ?t)) = data_sent (ls_out s) @ concat (take 1 (x # xs))"
        using re(3) False by simp
      moreover have "Send_error \<in> set (ls_script s)" using re(3) False by simp
      ultimately show ?thesis using loop by blast
    next
      case True
      define s' where "s' = s\<lparr>ls_wldbg := w, ls_msg := m\<lparr>msg_off := msg_off m + unat (msg_size m)\<rparr>,
        ls_rest := ls_rest s - msg_size m, ls_n := ls_n s + 1, ls_out := c, ls_script := rs\<rparr>"
      have loop: "one_by_one_loop ps s = one_by_one_loop ps s'"
        using step p re(1) True by (simp add: s'_def)
      have "drop (msg_off (ls_msg s')) (msg_mem (ls_msg s')) = concat xs @ post"
      proof -
        have "msg_mem m = ?mem" "msg_off m = ?off" by (simp_all add: m_def)
        then show ?thesis
          using arg_cong [OF dr, of "drop (length x)"] by (simp add: s'_def size add.commute)
      qed
      moreover have "calm (ls_wldbg s') (length xs)" using w(4) by (simp add: s'_def)
      moreover have "unat (ls_rest s') = length (concat xs)"
        using Cons.prems(4) size by (simp add: s'_def unat_sub word_le_nat_alt)
      moreover have "length (concat xs) \<le> 4096" "length (concat xs) \<le> accepted (ls_script s')"
        "\<not> w_exit (ls_wldbg s')" "\<not> w_error (ls_wldbg s')" "conn_wf (ls_out s')" "contents (conn_out (ls_out s')) = []"
        using Cons.prems(5,10) w re(2,3) True by (simp_all add: s'_def)
      ultimately obtain r where r: "one_by_one_loop ps s' = Some r"
        "(\<exists>e. r = Inl e \<and> run_over ps (ls_wldbg s') (ls_msg s') (map length xs) = Inl e) \<or>
         (\<exists>t. r = Inr (int (ls_n s' + length xs), t) \<and> data_sent (ls_out t) = data_sent (ls_out s') @ concat xs \<and>
            contents (conn_out (ls_out t)) = [] \<and> conn_wf (ls_out t) \<and>
            run_over ps (ls_wldbg s') (ls_msg s') (map length xs) = Inr (ls_wldbg t)) \<or>
         (\<exists>t k. r = Inr (-1, t) \<and>
            data_sent (ls_out t) @ contents (conn_out (ls_out t)) = data_sent (ls_out s') @ concat (take k xs) \<and>
            Send_error \<in> set (ls_script s'))"
        using Cons.IH [of s'] fx(2) by blast
      have over: "run_over ps (ls_wldbg s) (ls_msg s) (map length (x # xs)) =
          run_over ps (ls_wldbg s') (ls_msg s') (map length xs)"
      proof -
        have "m = (ls_msg s)\<lparr>msg_size := of_nat (length x)\<rparr>" using msize by (simp add: m_def)
        moreover have "ls_msg s' = ((ls_msg s)\<lparr>msg_off := msg_off (ls_msg s) + length x\<rparr>)\<lparr>msg_size := msg_size m\<rparr>"
          by (cases "ls_msg s") (simp add: s'_def m_def size [unfolded m_def, simplified])
        ultimately show ?thesis using p w(1) by (simp add: s'_def run_over_size)
      qed
      have sent: "data_sent (ls_out s') = data_sent (ls_out s) @ x" using re(3) True by (simp add: s'_def)
      have n: "ls_n s' = ls_n s + 1" by (simp add: s'_def)
      have script: "set (ls_script s') \<subseteq> set (ls_script s)" using re(3) True by (simp add: s'_def)
      from r(2) show ?thesis
      proof (elim disjE exE conjE)
        fix t k
        assume "r = Inr (-1, t)"
          "data_sent (ls_out t) @ contents (conn_out (ls_out t)) = data_sent (ls_out s') @ concat (take k xs)"
          "Send_error \<in> set (ls_script s')"
        then show ?thesis using loop r(1) sent script
          by (intro exI [of _ r]) (auto intro!: exI [of _ "Suc k"])
      qed (use loop r(1) sent n over in auto)
    qed
  qed
qed

end

text \<open>Passes that only look, whatever their state is.\<close>

locale transparent_passes =
  fixes ps :: "'s pass list"
  assumes transparent: "run_passes ps w m = Inr (w', m') \<Longrightarrow>
    m' = m \<and> w_exit w' = w_exit w \<and> w_error w' = w_error w"

sublocale transparent_passes \<subseteq> guard: guarded_passes ps "\<lambda>_ _. True"
  by unfold_locales (use transparent in blast)

context transparent_passes
begin

text \<open>An invariant under which there is always something left: the loop can only end by a failed
  write, or not at all.\<close>

lemma never_completes:
  assumes P: "P s" and r: "one_by_one_loop ps s = Some (Inr (n, t))"
    and clear: "\<And>s. P s \<Longrightarrow> ls_rest s \<noteq> 0 \<and> \<not> w_exit (ls_wldbg s) \<and> \<not> w_error (ls_wldbg s)"
    and step: "\<And>s word w c rs ret m. P s \<Longrightarrow> load32 (msg_mem (ls_msg s)) (msg_off (ls_msg s) + 4) = Inr word \<Longrightarrow>
      m = (ls_msg s)\<lparr>msg_size := ucast (drop_bit 16 word)\<rparr> \<Longrightarrow> w_exit w = w_exit (ls_wldbg s) \<Longrightarrow>
      w_error w = w_error (ls_wldbg s) \<Longrightarrow>
      resend (ls_script s) (ls_out s) m = Some (Inr (ret, c, rs)) \<Longrightarrow> \<not> ret < 0 \<Longrightarrow>
      P (s\<lparr>ls_wldbg := w, ls_msg := m\<lparr>msg_off := msg_off m + unat (msg_size m)\<rparr>,
          ls_rest := ls_rest s - msg_size m, ls_n := ls_n s + 1, ls_out := c, ls_script := rs\<rparr>)"
  shows "n = -1 \<and> (\<exists>s word c rs ret. P s \<and> load32 (msg_mem (ls_msg s)) (msg_off (ls_msg s) + 4) = Inr word \<and>
    resend (ls_script s) (ls_out s) ((ls_msg s)\<lparr>msg_size := ucast (drop_bit 16 word)\<rparr>) = Some (Inr (ret, c, rs)) \<and> ret < 0)"
    (is "?Q n")
proof -
  have "ps = ps \<and> P s \<longrightarrow> (\<forall>k q. (Inr (n, t) :: (int \<times> 's loop_state) res) = Inr (k, q) \<longrightarrow> ?Q k)"
  proof (rule one_by_one_loop.raw_induct
      [where P = "\<lambda>qs s r. qs = ps \<and> P s \<longrightarrow> (\<forall>k q. r = Inr (k, q) \<longrightarrow> ?Q k)", OF _ r])
    fix f :: "'s pass list \<Rightarrow> 's loop_state \<Rightarrow> (int \<times> 's loop_state) res option" and qs s r
    assume IH: "\<And>qs s r. f qs s = Some r \<Longrightarrow> qs = ps \<and> P s \<longrightarrow> (\<forall>k q. r = Inr (k, q) \<longrightarrow> ?Q k)"
      and eq: "(if ls_rest s = 0 then Some (Inr (int (ls_n s), s))
      else
        (case load32 (msg_mem (ls_msg s)) (msg_off (ls_msg s) + 4) of
           Inl e \<Rightarrow> Some (Inl e)
         | Inr word \<Rightarrow>
             (case run_passes qs (ls_wldbg s) ((ls_msg s)\<lparr>msg_size := ucast (drop_bit 16 word)\<rparr>) of
                Inl e \<Rightarrow> Some (Inl e)
              | Inr (w, m) \<Rightarrow>
                  if w_exit w then Some (Inr (0, s\<lparr>ls_wldbg := w, ls_msg := m\<rparr>))
                  else if w_error w then Some (Inr (-1, s\<lparr>ls_wldbg := w, ls_msg := m\<rparr>))
                  else
                    (case resend (ls_script s) (ls_out s) m of
                       None \<Rightarrow> None
                     | Some (Inl e) \<Rightarrow> Some (Inl e)
                     | Some (Inr (r, c, rs)) \<Rightarrow>
                         if r < 0 then
                           Some (Inr (-1, s\<lparr>ls_wldbg := w, ls_msg := m, ls_out := c, ls_script := rs\<rparr>))
                         else
                           f qs
                             (s\<lparr>ls_wldbg := w, ls_msg := m\<lparr>msg_off := msg_off m + unat (msg_size m)\<rparr>,
                               ls_rest := ls_rest s - msg_size m, ls_n := ls_n s + 1,
                               ls_out := c, ls_script := rs\<rparr>))))) = Some r"
    show "qs = ps \<and> P s \<longrightarrow> (\<forall>k q. r = Inr (k, q) \<longrightarrow> ?Q k)"
    proof (intro impI allI)
      fix k q
      assume asm: "qs = ps \<and> P s" and rk: "r = Inr (k, q)"
      have cl: "ls_rest s \<noteq> 0" "\<not> w_exit (ls_wldbg s)" "\<not> w_error (ls_wldbg s)" using clear asm by blast+
      obtain word where word: "load32 (msg_mem (ls_msg s)) (msg_off (ls_msg s) + 4) = Inr word"
        using eq cl rk by (auto split: sum.splits)
      define m where "m = (ls_msg s)\<lparr>msg_size := ucast (drop_bit 16 word)\<rparr>"
      obtain w m' where p: "run_passes ps (ls_wldbg s) m = Inr (w, m')"
        using eq cl rk word asm by (auto simp: m_def split: sum.splits)
      with transparent have w: "m' = m" "w_exit w = w_exit (ls_wldbg s)" "w_error w = w_error (ls_wldbg s)" by metis+
      obtain ret c rs where re: "resend (ls_script s) (ls_out s) m = Some (Inr (ret, c, rs))"
        using eq cl rk word asm p w by (auto simp: m_def split: sum.splits option.splits)
      show "?Q k"
      proof (cases "ret < 0")
        case True
        then have "k = -1" using eq cl rk word asm p w re by (simp flip: m_def)
        then show ?thesis using asm word re True unfolding m_def by blast
      next
        case False
        let ?s = "s\<lparr>ls_wldbg := w, ls_msg := m\<lparr>msg_off := msg_off m + unat (msg_size m)\<rparr>,
          ls_rest := ls_rest s - msg_size m, ls_n := ls_n s + 1, ls_out := c, ls_script := rs\<rparr>"
        have "f ps ?s = Some r" using eq cl word asm p w re False by (simp flip: m_def)
        moreover have "P ?s" using step [OF _ word m_def w(2,3) re False] asm by blast
        ultimately show ?thesis using IH rk by blast
      qed
    qed
  qed
  with P show ?thesis by blast
qed

text \<open>What the missing check of the size in the header does.  A size of zero makes no progress.\<close>

lemma size_zero_stuck:
  assumes "ls_rest s \<noteq> 0" "\<not> w_exit (ls_wldbg s)" "\<not> w_error (ls_wldbg s)"
    and "load32 (msg_mem (ls_msg s)) (msg_off (ls_msg s) + 4) = Inr word" "drop_bit 16 word = 0"
    and "conn_wf (ls_out s)" "contents (conn_out (ls_out s)) = []"
    and "msg_off (ls_msg s) \<le> length (msg_mem (ls_msg s))"
  shows "one_by_one_loop ps s \<noteq> Some (Inr (n, t))"
proof
  assume r: "one_by_one_loop ps s = Some (Inr (n, t))"
  let ?P = "\<lambda>s. ls_rest s \<noteq> 0 \<and> \<not> w_exit (ls_wldbg s) \<and> \<not> w_error (ls_wldbg s) \<and>
    load32 (msg_mem (ls_msg s)) (msg_off (ls_msg s) + 4) = Inr word \<and>
    conn_wf (ls_out s) \<and> contents (conn_out (ls_out s)) = [] \<and> msg_off (ls_msg s) \<le> length (msg_mem (ls_msg s))"
  have re: "\<exists>c'. resend (ls_script s) (ls_out s) ((ls_msg s)\<lparr>msg_size := ucast (drop_bit 16 word)\<rparr>) =
      Some (Inr (0, c', ls_script s)) \<and> conn_wf c' \<and> contents (conn_out c') = []" if "?P s" for s :: "'s loop_state"
    using resend_empty [of "ls_out s" "(ls_msg s)\<lparr>msg_size := ucast (drop_bit 16 word)\<rparr>" "ls_script s"]
      that assms(5) by simp
  have "\<exists>s word c rs ret. ?P s \<and> load32 (msg_mem (ls_msg s)) (msg_off (ls_msg s) + 4) = Inr word \<and>
    resend (ls_script s) (ls_out s) ((ls_msg s)\<lparr>msg_size := ucast (drop_bit 16 word)\<rparr>) = Some (Inr (ret, c, rs)) \<and> ret < 0"
    using never_completes [of ?P s n t] assms r re by (fastforce simp: assms(5))
  with re show False by fastforce
qed

text \<open>A message that announces more than is left makes the remaining size wrap around.\<close>

lemma write_from_in_bounds:
  assumes "write_from rs c m = Some (Inr (ret, c', rs'))" "\<not> ret < 0"
  shows "msg_off m + unat (msg_size m) \<le> length (msg_mem m)"
proof -
  have "(if BUF_SIZE < n then Inr (-1, c1, rs1)
        else rbind (memcpy_from (msg_mem m) (msg_off m) n) (\<lambda>xs.
             rbind (put_out xs c1 rs1) (\<lambda>(r, c, rs).
               Inr (if r < 0 then (-1, c, rs) else (0, c\<lparr>want_flush := True\<rparr>, rs))))) = Inr (ret, c', rs') \<Longrightarrow>
      msg_off m + n \<le> length (msg_mem m)" for n c1 rs1
    using assms(2) by (auto simp: memcpy_from_def split: if_splits)
  then show ?thesis
    using assms by (auto simp: write_from_def flush_if_def Let_def split: if_splits option.splits sum.splits)
qed

lemma resend_in_bounds:
  "resend rs c m = Some (Inr (ret, c', rs')) \<Longrightarrow> \<not> ret < 0 \<Longrightarrow>
     msg_off m + unat (msg_size m) \<le> length (msg_mem m)"
  by (auto simp: resend_def dest!: write_from_in_bounds split: option.splits sum.splits if_splits)

lemma oversize_never_completes:
  assumes "\<not> w_exit (ls_wldbg s)" "\<not> w_error (ls_wldbg s)"
    and "msg_off (ls_msg s) \<le> length (msg_mem (ls_msg s))"
    and "length (msg_mem (ls_msg s)) - msg_off (ls_msg s) < unat (ls_rest s)"
    and "one_by_one_loop ps s = Some (Inr (n, t))"
  shows "n = -1"
proof -
  let ?P = "\<lambda>s. \<not> w_exit (ls_wldbg s) \<and> \<not> w_error (ls_wldbg s) \<and> msg_off (ls_msg s) \<le> length (msg_mem (ls_msg s)) \<and>
    length (msg_mem (ls_msg s)) - msg_off (ls_msg s) < unat (ls_rest s)"
  have P: "?P s" using assms by blast
  show ?thesis
  proof (rule never_completes [where P = ?P, OF P assms(5), THEN conjunct1])
    fix s :: "'s loop_state"
    show "?P s \<Longrightarrow> ls_rest s \<noteq> 0 \<and> \<not> w_exit (ls_wldbg s) \<and> \<not> w_error (ls_wldbg s)" by auto
  next
    fix s :: "'s loop_state" and word :: u32 and w :: "'s wldbg" and c rs ret m
    assume h: "?P s" "m = (ls_msg s)\<lparr>msg_size := ucast (drop_bit 16 word)\<rparr>"
      "w_exit w = w_exit (ls_wldbg s)" "w_error w = w_error (ls_wldbg s)"
      "resend (ls_script s) (ls_out s) m = Some (Inr (ret, c, rs))" "\<not> ret < (0 :: int)"
    have b: "msg_off (ls_msg s) + unat (msg_size m) \<le> length (msg_mem (ls_msg s))"
      using resend_in_bounds [OF h(5,6)] h(2) by simp
    have "length (msg_mem (ls_msg s)) - msg_off (ls_msg s) < unat (ls_rest s)" using h(1) by blast
    with b have "unat (msg_size m) \<le> unat (ls_rest s)"
      and lt: "length (msg_mem (ls_msg s)) - (msg_off (ls_msg s) + unat (msg_size m)) <
        unat (ls_rest s) - unat (msg_size m)" by linarith+
    then have "unat (ls_rest s - msg_size m) = unat (ls_rest s) - unat (msg_size m)"
      by (intro unat_sub) (simp only: word_le_nat_alt)
    moreover have "msg_mem m = msg_mem (ls_msg s)" "msg_off m = msg_off (ls_msg s)" using h(2) by simp_all
    ultimately show "?P (s\<lparr>ls_wldbg := w, ls_msg := m\<lparr>msg_off := msg_off m + unat (msg_size m)\<rparr>,
          ls_rest := ls_rest s - msg_size m, ls_n := ls_n s + 1, ls_out := c, ls_script := rs\<rparr>)"
      using b h(1,3,4) lt by simp
  qed
qed

lemma truncated_never_completes:
  assumes "ls_rest s \<noteq> 0" "\<not> w_exit (ls_wldbg s)" "\<not> w_error (ls_wldbg s)"
    and "load32 (msg_mem (ls_msg s)) (msg_off (ls_msg s) + 4) = Inr word"
    and "unat (ls_rest s) < unat (drop_bit 16 word)" "length (msg_mem (ls_msg s)) < 2 ^ 63"
    and "one_by_one_loop ps s = Some (Inr (n, t))"
  shows "n = -1"
proof -
  define m where "m = (ls_msg s)\<lparr>msg_size := ucast (drop_bit 16 word)\<rparr>"
  have size: "unat (msg_size m) = unat (drop_bit 16 word)"
    using unat_u32_less [of "drop_bit 16 word"] by (simp add: m_def unsigned_ucast_eq take_bit_nat_eq_self)
  note step = guard.turn [OF TrueI assms(1-4), folded m_def]
  obtain w m' where p: "run_passes ps (ls_wldbg s) m = Inr (w, m')"
    using step assms(7) by (auto split: sum.splits)
  have w: "\<not> w_exit w" "\<not> w_error w" using transparent [OF p] assms(2,3) by simp_all
  obtain r c rs where re: "resend (ls_script s) (ls_out s) m = Some (Inr (r, c, rs))"
    using step assms(7) p by (auto split: sum.splits option.splits)
  show ?thesis
  proof (cases "r < 0")
    case True
    then show ?thesis using step assms(7) p re by simp
  next
    case False
    let ?s = "s\<lparr>ls_wldbg := w, ls_msg := m\<lparr>msg_off := msg_off m + unat (msg_size m)\<rparr>,
       ls_rest := ls_rest s - msg_size m, ls_n := ls_n s + 1, ls_out := c, ls_script := rs\<rparr>"
    have loop: "one_by_one_loop ps ?s = Some (Inr (n, t))" using step assms(7) p re False by simp
    have b: "msg_off m + unat (msg_size m) \<le> length (msg_mem m)" by (rule resend_in_bounds [OF re False])
    have "unat (drop_bit 16 word) < 2 ^ 32" using unat_u32_less [of "drop_bit 16 word"] by simp
    moreover have "unat (ls_rest s - msg_size m) = 2 ^ 64 + unat (ls_rest s) - unat (msg_size m)"
      using assms(5) size by (simp add: unat_sub_if_size word_size)
    moreover have "length (msg_mem m) < 2 ^ 63" using assms(6) by (simp add: m_def)
    ultimately have "length (msg_mem m) - (msg_off m + unat (msg_size m)) < unat (ls_rest s - msg_size m)"
      using size by simp
    then show ?thesis
      using oversize_never_completes [OF _ _ _ _ loop] w b by simp
  qed
qed

end

section \<open>The resolve pass as a pass\<close>

text \<open>The object table of the connection is the state.\<close>

definition resolve_pass :: "ext \<Rightarrow> resolved_objects option pass" where
  "resolve_pass x =
     \<lparr>pass_name = ''resolve'',
      server_pass = (\<lambda>w m. rbind (resolve_in x (w_state w) (drop (msg_off m) (msg_mem m))) (\<lambda>(v, ro).
        Inr (w\<lparr>w_state := ro\<rparr>, m, v))),
      client_pass = (\<lambda>w m. rbind (resolve_out x (w_state w) (drop (msg_off m) (msg_mem m))) (\<lambda>(v, ro).
        Inr (w\<lparr>w_state := ro\<rparr>, m, v)))\<rparr>"

interpretation resolve_only: transparent_passes "[resolve_pass x]" for x
proof
  fix w w' :: "resolved_objects option wldbg" and m m'
  assume "run_passes [resolve_pass x] w m = Inr (w', m')"
  then show "m' = m \<and> w_exit w' = w_exit w \<and> w_error w' = w_error w"
    by (auto simp: call_pass_def resolve_pass_def rbind_eq_Inr split: side.splits if_splits)
qed

section \<open>From the input buffer to the other side\<close>

lemma process_data_start:
  assumes "conn_wf (end_of sd wc)" "conn_wf (end_of (other_side sd) wc)"
    and "contents (fds_in (end_of sd wc)) = []" "contents (conn_in (end_of sd wc)) = data" "data \<noteq> []"
    and "length buffer = 4096" "\<not> w_pass_whole_buffer w"
  shows "\<exists>c1. contents (conn_in c1) = [] \<and> conn_wf c1 \<and> process_data ps w rs buffer wc sd (length data) =
    (case process_one_by_one ps w rs (end_of (other_side sd) wc)
            \<lparr>msg_mem = data @ drop (length data) buffer, msg_off = 0, msg_size = of_nat (length data), msg_from = sd\<rparr> of
       None \<Rightarrow> None
     | Some (Inl e) \<Rightarrow> Some (Inl e)
     | Some (Inr (r, s)) \<Rightarrow> Some (Inr (r, ls_wldbg s, set_ends sd c1 (ls_out s), ls_script s)))"
proof -
  let ?c = "end_of sd wc"
  have wf: "buf_wf (conn_in ?c)" using assms(1) by (simp add: conn_wf_def)
  have len: "length data \<le> 4096" using ring.abs_cap [OF wf] assms(4) by simp
  have cp: "wl_connection_copy ?c (length data) = Inr data"
    using ring.peek_prefix [OF wf, of "length data"] assms(4) by (simp add: wl_connection_copy_def)
  have mem: "memcpy_to buffer 0 data = Inr (data @ drop (length data) buffer)"
    using len assms(6) by (simp add: memcpy_to_def)
  let ?c1 = "wl_connection_consume ?c (length data)"
  have c1: "contents (conn_in ?c1) = []" "conn_wf ?c1"
    using buf_consume_contents [OF wf, of "length data"] assms(1,4)
    by (simp_all add: wl_connection_consume_def conn_wf_def)
  have "wl_buffer_size (fds_in ?c1) = 0"
    using assms(3) by (simp add: size_zero_iff wl_connection_consume_def)
  then have fds: "wl_connection_copy_fds rs ?c1 d = Some (Inr (0, ?c1, d, rs))" for d
    by (simp add: wl_connection_copy_fds_def)
  show ?thesis
    using assms(5,7) cp mem fds c1 by (intro exI [of _ ?c1]) (simp add: process_data_def Let_def)
qed

lemma process_data_loop:
  assumes "conn_wf (end_of sd wc)" "conn_wf (end_of (other_side sd) wc)"
    and "contents (fds_in (end_of sd wc)) = []" "contents (conn_in (end_of sd wc)) = data" "data \<noteq> []"
    and "length buffer = 4096" "\<not> w_pass_whole_buffer w"
    and "process_data ps w rs buffer wc sd (length data) = Some (Inr (n, v))"
  shows "\<exists>t. one_by_one_loop ps \<lparr>ls_wldbg = w, ls_msg = \<lparr>msg_mem = data @ drop (length data) buffer, msg_off = 0,
      msg_size = of_nat (length data), msg_from = sd\<rparr>, ls_rest = of_nat (length data), ls_n = 0,
      ls_out = end_of (other_side sd) wc, ls_script = rs\<rparr> = Some (Inr (n, t))"
proof -
  let ?m = "\<lparr>msg_mem = data @ drop (length data) buffer, msg_off = 0, msg_size = of_nat (length data), msg_from = sd\<rparr>"
  obtain c1 where c1: "process_data ps w rs buffer wc sd (length data) =
    (case process_one_by_one ps w rs (end_of (other_side sd) wc) ?m of
       None \<Rightarrow> None | Some (Inl e) \<Rightarrow> Some (Inl e)
     | Some (Inr (r, s)) \<Rightarrow> Some (Inr (r, ls_wldbg s, set_ends sd c1 (ls_out s), ls_script s)))"
    using process_data_start [OF assms(1-7)] by blast
  then obtain t where "process_one_by_one ps w rs (end_of (other_side sd) wc) ?m = Some (Inr (n, t))"
    using assms(8)
    by (cases "process_one_by_one ps w rs (end_of (other_side sd) wc) ?m") (auto split: sum.splits)
  then show ?thesis by (auto simp: process_one_by_one_def)
qed

lemma guarded_data_forwards:
  assumes "guarded_passes ps calm" "calm w (length xs)" "list_all well_framed xs" "xs \<noteq> []"
    and "conn_wf (end_of sd wc)" "conn_wf (end_of (other_side sd) wc)"
    and "contents (fds_in (end_of sd wc)) = []" "contents (conn_in (end_of sd wc)) = concat xs"
    and "contents (conn_out (end_of (other_side sd) wc)) = []"
    and "length buffer = 4096" "\<not> w_pass_whole_buffer w" "\<not> w_exit w" "\<not> w_error w"
    and "length (concat xs) \<le> accepted rs"
  shows "\<exists>r. process_data ps w rs buffer wc sd (length (concat xs)) = Some r \<and>
    ((\<exists>e. r = Inl e \<and> run_over ps w \<lparr>msg_mem = concat xs @ drop (length (concat xs)) buffer, msg_off = 0,
            msg_size = of_nat (length (concat xs)), msg_from = sd\<rparr> (map length xs) = Inl e) \<or>
     (\<exists>w' wc' rs'. r = Inr (int (length xs), w', wc', rs') \<and>
        data_sent (end_of (other_side sd) wc') = data_sent (end_of (other_side sd) wc) @ concat xs \<and>
        contents (conn_in (end_of sd wc')) = [] \<and> contents (conn_out (end_of (other_side sd) wc')) = [] \<and>
        run_over ps w \<lparr>msg_mem = concat xs @ drop (length (concat xs)) buffer, msg_off = 0,
            msg_size = of_nat (length (concat xs)), msg_from = sd\<rparr> (map length xs) = Inr w') \<or>
     (\<exists>w' wc' rs' k. r = Inr (-1, w', wc', rs') \<and>
        data_sent (end_of (other_side sd) wc') @ contents (conn_out (end_of (other_side sd) wc')) =
          data_sent (end_of (other_side sd) wc) @ concat (take k xs) \<and>
        Send_error \<in> set rs))"
proof -
  let ?data = "concat xs" and ?c2 = "end_of (other_side sd) wc"
  have ne: "?data \<noteq> []" using assms(3,4) by (cases xs) (auto simp: well_framed_def)
  have len: "length ?data \<le> 4096"
    using ring.abs_cap [of "conn_in (end_of sd wc)"] assms(5,8) by (simp add: conn_wf_def)
  obtain c1 where c1: "contents (conn_in c1) = []" "process_data ps w rs buffer wc sd (length ?data) =
    (case process_one_by_one ps w rs ?c2 \<lparr>msg_mem = ?data @ drop (length ?data) buffer, msg_off = 0,
            msg_size = of_nat (length ?data), msg_from = sd\<rparr> of
       None \<Rightarrow> None | Some (Inl e) \<Rightarrow> Some (Inl e)
     | Some (Inr (r, s)) \<Rightarrow> Some (Inr (r, ls_wldbg s, set_ends sd c1 (ls_out s), ls_script s)))"
    using process_data_start [OF assms(5-8) ne assms(10,11)] by blast
  define s where "s = \<lparr>ls_wldbg = w, ls_msg = \<lparr>msg_mem = ?data @ drop (length ?data) buffer, msg_off = 0,
      msg_size = of_nat (length ?data), msg_from = sd\<rparr>, ls_rest = of_nat (length ?data), ls_n = 0,
      ls_out = ?c2, ls_script = rs\<rparr>"
  have rest: "unat (ls_rest s) = length ?data" using len by (simp add: s_def unat_of_nat)
  have pre: "drop (msg_off (ls_msg s)) (msg_mem (ls_msg s)) = concat xs @ drop (length ?data) buffer"
    "\<not> w_exit (ls_wldbg s)" "\<not> w_error (ls_wldbg s)" "conn_wf (ls_out s)" "contents (conn_out (ls_out s)) = []"
    "length (concat xs) \<le> accepted (ls_script s)" "calm (ls_wldbg s) (length xs)"
    using assms(2,6,9,12-14) by (simp_all add: s_def)
  obtain r where r: "one_by_one_loop ps s = Some r"
    "(\<exists>e. r = Inl e \<and> run_over ps (ls_wldbg s) (ls_msg s) (map length xs) = Inl e) \<or>
     (\<exists>t. r = Inr (int (ls_n s + length xs), t) \<and> data_sent (ls_out t) = data_sent (ls_out s) @ ?data \<and>
        contents (conn_out (ls_out t)) = [] \<and> conn_wf (ls_out t) \<and>
        run_over ps (ls_wldbg s) (ls_msg s) (map length xs) = Inr (ls_wldbg t)) \<or>
     (\<exists>t k. r = Inr (-1, t) \<and>
        data_sent (ls_out t) @ contents (conn_out (ls_out t)) = data_sent (ls_out s) @ concat (take k xs) \<and>
        Send_error \<in> set (ls_script s))"
    using guarded_passes.forwards [OF assms(1) pre(7) assms(3) pre(1) rest len pre(2-6)] by blast
  have p: "process_one_by_one ps w rs ?c2 \<lparr>msg_mem = ?data @ drop (length ?data) buffer, msg_off = 0,
            msg_size = of_nat (length ?data), msg_from = sd\<rparr> = Some r"
    using r(1) by (simp add: process_one_by_one_def s_def)
  have ends: "end_of sd (set_ends sd a b) = a" "end_of (other_side sd) (set_ends sd a b) = b" for a b
    by (cases sd; simp add: end_of_def set_ends_def other_side_def)+
  from r(2) show ?thesis
  proof (elim disjE exE conjE)
    fix t k
    assume "r = Inr (-1, t)"
      "data_sent (ls_out t) @ contents (conn_out (ls_out t)) = data_sent (ls_out s) @ concat (take k xs)"
      "Send_error \<in> set (ls_script s)"
    then show ?thesis using c1(2) p ends by (auto simp: s_def)
  qed (use c1 p ends in \<open>auto simp: s_def\<close>)
qed

lemma transparent_guarded: "transparent_passes ps \<Longrightarrow> guarded_passes ps (\<lambda>_ _. True)"
  by (simp add: transparent_passes_def guarded_passes_def)

lemmas process_data_forwards = guarded_data_forwards [OF transparent_guarded TrueI]

lemma ends_set [simp]: "end_of sd (set_ends sd a b) = a" "end_of (other_side sd) (set_ends sd a b) = b"
  by (cases sd; simp add: end_of_def set_ends_def other_side_def)+

text \<open>The same when one \<open>recvmsg\<close> brings the messages.\<close>

lemma dispatch_forwards:
  assumes "guarded_passes ps calm" "calm w (length xs)" "list_all well_framed xs" "xs \<noteq> []" "length (concat xs) \<le> 4096"
    and "conn_wf (end_of sd wc)" "conn_wf (end_of (other_side sd) wc)"
    and "contents (fds_in (end_of sd wc)) = []" "contents (conn_in (end_of sd wc)) = []"
    and "contents (conn_out (end_of (other_side sd) wc)) = []"
    and "length buffer = 4096" "\<not> w_pass_whole_buffer w" "\<not> w_exit w" "\<not> w_error w"
    and "length (concat xs) \<le> accepted rs"
  shows "\<exists>r. dispatch_messages ps w [Received (concat xs) []] again rs buffer wc sd = Some r \<and>
    ((\<exists>e. r = Inl e \<and> run_over ps w \<lparr>msg_mem = concat xs @ drop (length (concat xs)) buffer, msg_off = 0,
            msg_size = of_nat (length (concat xs)), msg_from = sd\<rparr> (map length xs) = Inl e) \<or>
     (\<exists>w' wc' rs'. r = Inr (int (length xs), w', wc', rs') \<and>
        data_sent (end_of (other_side sd) wc') = data_sent (end_of (other_side sd) wc) @ concat xs \<and>
        run_over ps w \<lparr>msg_mem = concat xs @ drop (length (concat xs)) buffer, msg_off = 0,
            msg_size = of_nat (length (concat xs)), msg_from = sd\<rparr> (map length xs) = Inr w') \<or>
     (\<exists>w' wc' rs'. r = Inr (-1, w', wc', rs')) \<and> Send_error \<in> set rs)"
proof -
  let ?c = "end_of sd wc"
  have ne: "concat xs \<noteq> []" using assms(3,4) by (cases xs) (auto simp: well_framed_def)
  obtain c where c: "wl_connection_read [Received (concat xs) []] ?c = Some (Inr (int (length (concat xs)), c, []))"
    "conn_wf c" "contents (conn_in c) = concat xs" "contents (fds_in c) = []"
    using connection_read_appends [OF assms(6), of "[Received (concat xs) []]" "concat xs" "[]" "[]"] assms(5,8,9) ne
    by (auto simp: rights_bytes_def)
  let ?wc = "set_ends sd c (end_of (other_side sd) wc)"
  have "\<exists>r. process_data ps w rs buffer ?wc sd (length (concat xs)) = Some r \<and>
    ((\<exists>e. r = Inl e \<and> run_over ps w \<lparr>msg_mem = concat xs @ drop (length (concat xs)) buffer, msg_off = 0,
            msg_size = of_nat (length (concat xs)), msg_from = sd\<rparr> (map length xs) = Inl e) \<or>
     (\<exists>w' wc' rs'. r = Inr (int (length xs), w', wc', rs') \<and>
        data_sent (end_of (other_side sd) wc') = data_sent (end_of (other_side sd) ?wc) @ concat xs \<and>
        run_over ps w \<lparr>msg_mem = concat xs @ drop (length (concat xs)) buffer, msg_off = 0,
            msg_size = of_nat (length (concat xs)), msg_from = sd\<rparr> (map length xs) = Inr w') \<or>
     (\<exists>w' wc' rs'. r = Inr (-1, w', wc', rs')) \<and> Send_error \<in> set rs)"
    using guarded_data_forwards [OF assms(1-4), of sd ?wc buffer rs] assms(7,10-15) c(2-4)
    by simp blast
  moreover have "dispatch_messages ps w [Received (concat xs) []] again rs buffer wc sd =
      process_data ps w rs buffer ?wc sd (length (concat xs))"
    using c(1) by (simp add: dispatch_messages_def)
  ultimately show ?thesis by simp
qed

section \<open>Properties\<close>

text \<open>C2: What wldbg is for, and what it must not break: whole messages read from one side are
  handed to the passes one after the other and leave on the other side byte for byte, in order.  For
  passes that only look at the messages that come next, on a buffer of framed messages and with a
  \<open>sendmsg\<close> that keeps taking bytes, either the run of the passes over the messages faults, or every
  message was forwarded, the passes ran once over each and the count is returned, or a \<open>sendmsg\<close> failed
  after whole messages and the bytes sent or queued are a prefix.\<close>

theorem messages_forwarded:
  assumes "guarded_passes ps calm" "calm w (length xs)" "list_all well_framed xs" "xs \<noteq> []"
    and "conn_wf (end_of sd wc)" "conn_wf (end_of (other_side sd) wc)"
    and "contents (fds_in (end_of sd wc)) = []" "contents (conn_in (end_of sd wc)) = concat xs"
    and "contents (conn_out (end_of (other_side sd) wc)) = []"
    and "length buffer = 4096" "\<not> w_pass_whole_buffer w" "\<not> w_exit w" "\<not> w_error w"
    and "length (concat xs) \<le> accepted rs"
  shows "\<exists>r. process_data ps w rs buffer wc sd (length (concat xs)) = Some r \<and>
    ((\<exists>e. r = Inl e \<and> run_over ps w \<lparr>msg_mem = concat xs @ drop (length (concat xs)) buffer, msg_off = 0,
            msg_size = of_nat (length (concat xs)), msg_from = sd\<rparr> (map length xs) = Inl e) \<or>
     (\<exists>w' wc' rs'. r = Inr (int (length xs), w', wc', rs') \<and>
        data_sent (end_of (other_side sd) wc') = data_sent (end_of (other_side sd) wc) @ concat xs \<and>
        contents (conn_in (end_of sd wc')) = [] \<and> contents (conn_out (end_of (other_side sd) wc')) = [] \<and>
        run_over ps w \<lparr>msg_mem = concat xs @ drop (length (concat xs)) buffer, msg_off = 0,
            msg_size = of_nat (length (concat xs)), msg_from = sd\<rparr> (map length xs) = Inr w') \<or>
     (\<exists>w' wc' rs' k. r = Inr (-1, w', wc', rs') \<and>
        data_sent (end_of (other_side sd) wc') @ contents (conn_out (end_of (other_side sd) wc')) =
          data_sent (end_of (other_side sd) wc) @ concat (take k xs) \<and>
        Send_error \<in> set rs))"
  by (rule guarded_data_forwards [OF assms])

theorem messages_forwarded_witness:
  "\<exists>w' wc' rs'. process_data [resolve_pass (sample_ext (\<lambda>_. free_entry))]
      \<lparr>w_exit = False, w_error = False, w_pass_whole_buffer = False, w_state = None\<rparr>
      (replicate 8 (Sent 1)) (replicate 4096 0)
      \<lparr>wc_server = wl_connection_create 4, wc_client = (wl_connection_create 5)\<lparr>conn_in :=
         \<lparr>buf_data = bytes32 7 @ bytes32 0x00080000 @ replicate 4088 0, buf_head = 8, buf_tail = 0\<rparr>\<rparr>\<rparr>
      CLIENT 8 = Some (Inr (1, w', wc', rs')) \<and>
    data_sent (wc_server wc') = bytes32 7 @ bytes32 0x00080000"
proof -
  let ?x = "bytes32 7 @ bytes32 0x00080000" and ?ps = "[resolve_pass (sample_ext (\<lambda>_. free_entry))]"
  let ?b = "\<lparr>buf_data = ?x @ replicate 4088 0, buf_head = 8, buf_tail = 0\<rparr>"
  let ?wc = "\<lparr>wc_server = wl_connection_create 4, wc_client = (wl_connection_create 5)\<lparr>conn_in := ?b\<rparr>\<rparr>"
  let ?w = "\<lparr>w_exit = False, w_error = False, w_pass_whole_buffer = False, w_state = None :: resolved_objects option\<rparr>"
  have word: "load32 ?x 4 = Inr 0x00080000"
    using load32_at [of "bytes32 7" "0x00080000" "[]"] by simp
  then have fr: "list_all well_framed [?x]" by (simp add: well_framed_def)
  have size: "wl_buffer_size ?b = 8" by (simp add: wl_buffer_size_def)
  have wf: "buf_wf ?b" unfolding buf_wf_def size by simp
  have cont: "contents ?b = concat [?x]"
    using ring_load_pure [of "buf_data ?b" 0 8] unfolding contents_def size by simp
  have wfs: "conn_wf (end_of CLIENT ?wc)" "conn_wf (end_of (other_side CLIENT) ?wc)"
    using conn_wf_create wf by (simp_all add: conn_wf_def end_of_def other_side_def)
  have emp: "contents (fds_in (end_of CLIENT ?wc)) = []" "contents (conn_in (end_of CLIENT ?wc)) = concat [?x]"
    "contents (conn_out (end_of (other_side CLIENT) ?wc)) = []"
    using cont by (simp_all add: end_of_def other_side_def wl_connection_create_def empty_buffer_wf)
  have acc: "length (concat [?x]) \<le> accepted (replicate 8 (Sent 1))" by (simp add: accepted_def)
  have quiet: "Send_error \<notin> set (replicate 8 (Sent 1))" by simp
  have ld: "load32 (bytes32 7 @ bytes32 0x00080000 @ m) 0 = Inr 7" "load32 (bytes32 7 @ bytes32 0x00080000 @ m) 4 = Inr 0x00080000" for m
    using load32_words_bytes [of 0 "[7, 0x00080000]"] load32_words_bytes [of 1 "[7, 0x00080000]"] by simp_all
  have run: "run_over ?ps ?w \<lparr>msg_mem = ?x @ drop 8 (replicate 4096 0), msg_off = 0, msg_size = 8, msg_from = CLIENT\<rparr> [8] = Inr ?w"
    by (simp add: call_pass_def resolve_pass_def resolve_out_def ld wldbg_message_get_object_def del: drop_replicate)
  have new: "data_sent (wl_connection_create 4) = []" by (simp add: data_sent_def wl_connection_create_def)
  show ?thesis
    using messages_forwarded [OF transparent_guarded [OF resolve_only.transparent_passes_axioms [of "sample_ext (\<lambda>_. free_entry)"]]
        TrueI fr _ wfs emp _ _ _ _ acc, where w = ?w and buffer = "replicate 4096 0"] run quiet new
    by (auto simp: end_of_def other_side_def simp del: drop_replicate)
qed

text \<open>C38: The size in a header is not checked against zero: on input that begins with a message of
  size 0, with passes that only look, \<open>process_data\<close> never returns.\<close>

theorem zero_size_never_returns:
  assumes "transparent_passes ps"
    and "conn_wf (end_of sd wc)" "conn_wf (end_of (other_side sd) wc)"
    and "contents (fds_in (end_of sd wc)) = []" "contents (conn_in (end_of sd wc)) = data"
    and "contents (conn_out (end_of (other_side sd) wc)) = []"
    and "length buffer = 4096" "\<not> w_pass_whole_buffer w" "\<not> w_exit w" "\<not> w_error w"
    and "load32 data 4 = Inr word" "drop_bit 16 word = 0"
  shows "\<nexists>v. process_data ps w rs buffer wc sd (length data) = Some (Inr v)"
proof
  assume "\<exists>v. process_data ps w rs buffer wc sd (length data) = Some (Inr v)"
  then obtain v where v: "process_data ps w rs buffer wc sd (length data) = Some (Inr v)" by blast
  have l: "8 \<le> length data" using assms(11) by (simp add: load32_def split: if_splits)
  then have ne: "data \<noteq> []" by auto
  have len: "length data \<le> 4096"
    using ring.abs_cap [of "conn_in (end_of sd wc)"] assms(2,5) by (simp add: conn_wf_def)
  define s where "s = \<lparr>ls_wldbg = w, ls_msg = \<lparr>msg_mem = data @ drop (length data) buffer, msg_off = 0,
      msg_size = of_nat (length data), msg_from = sd\<rparr>, ls_rest = of_nat (length data), ls_n = 0,
      ls_out = end_of (other_side sd) wc, ls_script = rs\<rparr>"
  obtain q where q: "one_by_one_loop ps s = Some (Inr q)"
    using process_data_loop [OF assms(2-5) ne assms(7,8), of ps rs "fst v" "snd v"] v by (auto simp: s_def)
  have "unat (ls_rest s) = length data" using len by (simp add: s_def unat_of_nat)
  then have "ls_rest s \<noteq> 0" using ne by auto
  moreover have "load32 (msg_mem (ls_msg s)) (msg_off (ls_msg s) + 4) = Inr word"
    using l assms(11) by (simp add: s_def load32_append_left)
  ultimately show False
    using transparent_passes.size_zero_stuck [OF assms(1), of s word "fst q" "snd q"] q assms(3,6,9,10,12)
    by (simp add: s_def)
qed

theorem zero_size_never_returns_witness:
  "\<nexists>v. process_data [resolve_pass (sample_ext (\<lambda>_. free_entry))]
      \<lparr>w_exit = False, w_error = False, w_pass_whole_buffer = False, w_state = None\<rparr>
      [] (replicate 4096 0)
      \<lparr>wc_server = wl_connection_create 4, wc_client = (wl_connection_create 5)\<lparr>conn_in :=
         \<lparr>buf_data = bytes32 7 @ bytes32 3 @ replicate 4088 0, buf_head = 8, buf_tail = 0\<rparr>\<rparr>\<rparr>
      CLIENT 8 = Some (Inr v)"
proof -
  let ?x = "bytes32 7 @ bytes32 3"
  let ?b = "\<lparr>buf_data = ?x @ replicate 4088 0, buf_head = 8, buf_tail = 0\<rparr>"
  let ?wc = "\<lparr>wc_server = wl_connection_create 4, wc_client = (wl_connection_create 5)\<lparr>conn_in := ?b\<rparr>\<rparr>"
  let ?w = "\<lparr>w_exit = False, w_error = False, w_pass_whole_buffer = False, w_state = None :: resolved_objects option\<rparr>"
  have word: "load32 ?x 4 = Inr 3" using load32_at [of "bytes32 7" 3 "[]"] by simp
  have size: "wl_buffer_size ?b = 8" by (simp add: wl_buffer_size_def)
  have wf: "buf_wf ?b" unfolding buf_wf_def size by simp
  have cont: "contents ?b = ?x"
    using ring_load_pure [of "buf_data ?b" 0 8] unfolding contents_def size by simp
  have wfs: "conn_wf (end_of CLIENT ?wc)" "conn_wf (end_of (other_side CLIENT) ?wc)"
    using conn_wf_create wf by (simp_all add: conn_wf_def end_of_def other_side_def)
  have emp: "contents (fds_in (end_of CLIENT ?wc)) = []" "contents (conn_in (end_of CLIENT ?wc)) = ?x"
    "contents (conn_out (end_of (other_side CLIENT) ?wc)) = []"
    using cont by (simp_all add: end_of_def other_side_def wl_connection_create_def empty_buffer_wf)
  show ?thesis
    using zero_size_never_returns [OF resolve_only.transparent_passes_axioms [of "sample_ext (\<lambda>_. free_entry)"] wfs emp _ _ _ _ word,
        where w = ?w and buffer = "replicate 4096 0"] by simp
qed

text \<open>Nor is it checked against what was read: when the last message of a read is incomplete, as
  a stream socket may well deliver it, the remaining size wraps around, and \<open>process_data\<close> either
  faults or hangs or reports an error; it never returns a count.\<close>

theorem incomplete_message_never_counts:
  assumes "transparent_passes ps"
    and "conn_wf (end_of sd wc)" "conn_wf (end_of (other_side sd) wc)"
    and "contents (fds_in (end_of sd wc)) = []" "contents (conn_in (end_of sd wc)) = data"
    and "length buffer = 4096" "\<not> w_pass_whole_buffer w" "\<not> w_exit w" "\<not> w_error w"
    and "load32 data 4 = Inr word" "length data < unat (drop_bit 16 word)"
    and "process_data ps w rs buffer wc sd (length data) = Some (Inr (n, v))"
  shows "n = -1"
proof -
  have l: "8 \<le> length data" using assms(10) by (simp add: load32_def split: if_splits)
  then have ne: "data \<noteq> []" by auto
  have len: "length data \<le> 4096"
    using ring.abs_cap [of "conn_in (end_of sd wc)"] assms(2,5) by (simp add: conn_wf_def)
  define s where "s = \<lparr>ls_wldbg = w, ls_msg = \<lparr>msg_mem = data @ drop (length data) buffer, msg_off = 0,
      msg_size = of_nat (length data), msg_from = sd\<rparr>, ls_rest = of_nat (length data), ls_n = 0,
      ls_out = end_of (other_side sd) wc, ls_script = rs\<rparr>"
  obtain t where t: "one_by_one_loop ps s = Some (Inr (n, t))"
    using process_data_loop [OF assms(2-5) ne assms(6,7,12)] by (auto simp: s_def)
  have rest: "unat (ls_rest s) = length data" using len by (simp add: s_def unat_of_nat)
  then have nz: "ls_rest s \<noteq> 0" using ne by auto
  have ld: "load32 (msg_mem (ls_msg s)) (msg_off (ls_msg s) + 4) = Inr word"
    using l assms(10) by (simp add: s_def load32_append_left)
  have "length (msg_mem (ls_msg s)) < 2 ^ 63" using len assms(6) by (simp add: s_def)
  from transparent_passes.truncated_never_completes [OF assms(1) nz _ _ ld _ this t] rest assms(8,9,11)
  show ?thesis by (simp add: s_def)
qed

theorem incomplete_message_never_counts_witness:
  "\<nexists>v. process_data [resolve_pass (sample_ext (\<lambda>_. free_entry))]
      \<lparr>w_exit = False, w_error = False, w_pass_whole_buffer = False, w_state = None\<rparr>
      [Sent 12] (replicate 4096 0)
      \<lparr>wc_server = wl_connection_create 4, wc_client = (wl_connection_create 5)\<lparr>conn_in :=
         \<lparr>buf_data = bytes32 7 @ bytes32 0x000c0000 @ replicate 4088 0, buf_head = 8, buf_tail = 0\<rparr>\<rparr>\<rparr>
      CLIENT 8 = Some (Inr (1, v))"
proof (rule notI, elim exE)
  let ?x = "bytes32 7 @ bytes32 0x000c0000" and ?ps = "[resolve_pass (sample_ext (\<lambda>_. free_entry))]"
  let ?b = "\<lparr>buf_data = ?x @ replicate 4088 0, buf_head = 8, buf_tail = 0\<rparr>"
  let ?wc = "\<lparr>wc_server = wl_connection_create 4, wc_client = (wl_connection_create 5)\<lparr>conn_in := ?b\<rparr>\<rparr>"
  let ?w = "\<lparr>w_exit = False, w_error = False, w_pass_whole_buffer = False, w_state = None :: resolved_objects option\<rparr>"
  fix v
  assume r: "process_data ?ps ?w [Sent 12] (replicate 4096 0)
     \<lparr>wc_server = wl_connection_create 4, wc_client = (wl_connection_create 5)\<lparr>conn_in :=
         \<lparr>buf_data = bytes32 7 @ bytes32 0x000c0000 @ replicate 4088 0, buf_head = 8, buf_tail = 0\<rparr>\<rparr>\<rparr>
      CLIENT 8 = Some (Inr (1, v))"
  have word: "load32 ?x 4 = Inr 0x000c0000" using load32_at [of "bytes32 7" "0x000c0000" "[]"] by simp
  have size: "wl_buffer_size ?b = 8" by (simp add: wl_buffer_size_def)
  have wf: "buf_wf ?b" unfolding buf_wf_def size by simp
  have cont: "contents ?b = ?x"
    using ring_load_pure [of "buf_data ?b" 0 8] unfolding contents_def size by simp
  have wfs: "conn_wf (end_of CLIENT ?wc)" "conn_wf (end_of (other_side CLIENT) ?wc)"
    using conn_wf_create wf by (simp_all add: conn_wf_def end_of_def other_side_def)
  have emp: "contents (fds_in (end_of CLIENT ?wc)) = []" "contents (conn_in (end_of CLIENT ?wc)) = ?x"
    using cont by (simp_all add: end_of_def other_side_def wl_connection_create_def empty_buffer_wf)
  have r': "process_data ?ps ?w [Sent 12] (replicate 4096 0) ?wc CLIENT (length ?x) = Some (Inr (1, v))"
    using r by simp
  have "(1 :: int) = -1"
    by (rule incomplete_message_never_counts [OF resolve_only.transparent_passes_axioms wfs emp _ _ _ _ word _ r'])
       simp_all
  then show False by simp
qed

end
