(* ===== verification/Sockets.thy ===== *)
theory Sockets
  imports Connection
begin

text \<open>
  \<^verbatim>\<open>src/sockets.c\<close>, and \<open>free_server_mode_resources\<close> of \<^verbatim>\<open>src/wldbg.c\<close>: connecting to the
  compositor, and the exchange of sockets by which server mode puts itself between the compositor
  and its clients.

  The state is the socket directory (a map from paths to inodes), the heap of C strings (a map from
  addresses; a freed string is not in it) and the descriptors closed so far.  What the system calls
  and \<open>malloc\<close> answer is the record \<open>sys_env\<close>.
\<close>

record sys_env =
  e_runtime_dir :: "string option"
  e_display :: "string option"
  e_malloc :: "nat \<Rightarrow> bool"
  e_socket :: int
  e_bind :: "string \<Rightarrow> bool"
  e_inode :: nat
  e_listen :: bool
  e_connect :: "string \<Rightarrow> bool"
  e_rename :: "string \<Rightarrow> string \<Rightarrow> bool"
  e_unlink :: "string \<Rightarrow> bool"
  e_open :: "string \<Rightarrow> int"
  e_flock :: bool
  e_stat_other_error :: "string \<Rightarrow> bool"
  e_peer_pid :: "int \<Rightarrow> int"

record sys =
  heap :: "nat \<rightharpoonup> string"
  brk :: nat
  files :: "string \<rightharpoonup> nat"
  shut :: "int list"

text \<open>The struct \<open>wldbg->server_mode\<close>; its strings are pointers.\<close>

record server_mode =
  sm_fd :: int
  sm_old_socket_path :: "nat option"
  sm_wldbg_socket_path :: "nat option"
  sm_old_socket_name :: "nat option"
  sm_wldbg_socket_name :: "nat option"
  sm_lock_addr :: "nat option"
  sm_fd_lock :: int
  sm_connect_to :: "string option"
  sm_client_name_width :: int

definition no_server_mode :: server_mode where
  "no_server_mode = \<lparr>sm_fd = 0, sm_old_socket_path = None, sm_wldbg_socket_path = None, sm_old_socket_name = None,
     sm_wldbg_socket_name = None, sm_lock_addr = None, sm_fd_lock = 0, sm_connect_to = None,
     sm_client_name_width = 0\<rparr>"

section \<open>Strings on the heap, files\<close>

definition alloc_str :: "sys_env \<Rightarrow> string \<Rightarrow> sys \<Rightarrow> nat option \<times> sys" where
  "alloc_str e s st =
     (if e_malloc e (brk st) then (Some (brk st), st\<lparr>heap := (heap st)(brk st \<mapsto> s), brk := brk st + 1\<rparr>)
      else (None, st\<lparr>brk := brk st + 1\<rparr>))"

definition free_str :: "nat option \<Rightarrow> sys \<Rightarrow> sys res" where
  "free_str p st =
     (case p of None \<Rightarrow> Inr st
      | Some a \<Rightarrow> if heap st a = None then Inl UseAfterFree else Inr (st\<lparr>heap := (heap st)(a := None)\<rparr>))"

definition deref :: "nat option \<Rightarrow> sys \<Rightarrow> string res" where
  "deref p st =
     (case p of None \<Rightarrow> Inl NullDeref
      | Some a \<Rightarrow> (case heap st a of None \<Rightarrow> Inl UseAfterFree | Some s \<Rightarrow> Inr s))"

definition close_fd :: "int \<Rightarrow> sys \<Rightarrow> sys" where
  "close_fd fd st = st\<lparr>shut := shut st @ [fd]\<rparr>"

definition unlink :: "sys_env \<Rightarrow> string \<Rightarrow> sys \<Rightarrow> int \<times> sys" where
  "unlink e p st =
     (if files st p = None \<or> \<not> e_unlink e p then (-1, st) else (0, st\<lparr>files := (files st)(p := None)\<rparr>))"

definition rename_file :: "sys_env \<Rightarrow> string \<Rightarrow> string \<Rightarrow> sys \<Rightarrow> int \<times> sys" where
  "rename_file e p q st =
     (case files st p of
        None \<Rightarrow> (-1, st)
      | Some i \<Rightarrow>
          if \<not> e_rename e p q then (-1, st)
          else (0, st\<lparr>files := (files st)(p := None, q \<mapsto> i)\<rparr>))"

section \<open>Connecting to the compositor\<close>

definition SUN_PATH :: nat where
  "SUN_PATH = 108"

definition connect_to_wayland_socket :: "sys_env \<Rightarrow> string option \<Rightarrow> sys \<Rightarrow> int \<times> sys" where
  "connect_to_wayland_socket e name st =
     (case e_runtime_dir e of
        None \<Rightarrow> (-1, st)
      | Some dir \<Rightarrow>
          let name = (case name of Some n \<Rightarrow> n | None \<Rightarrow> (case e_display e of Some n \<Rightarrow> n | None \<Rightarrow> ''wayland-0''));
              fd = e_socket e
          in if fd < 0 then (-1, st)
             else
               let (path, len) = snprintf SUN_PATH (dir @ ''/'' @ name); name_size = len + 1 in
               if SUN_PATH < name_size then (-1, close_fd fd st)
               else if \<not> e_connect e path then (-1, close_fd fd st)
               else (fd, st))"

definition get_pid_for_socket :: "sys_env \<Rightarrow> int \<Rightarrow> int" where
  "get_pid_for_socket e fd = e_peer_pid e fd"

text \<open>The file \<open>comm\<close> as \<open>read\<close> returns it, \<open>None\<close> when it fails.  An empty read leaves the buffer as
  \<open>malloc\<close> gave it.\<close>

definition get_program_for_pid :: "(string \<Rightarrow> string option option) \<Rightarrow> bool \<Rightarrow> int \<Rightarrow> string res option" where
  "get_program_for_pid comm_file mem_ok pid =
     (let (path, len) = snprintf 255 (''/proc/'' @ show_int pid @ ''/comm'') in
      if 255 \<le> len then None
      else
        (case comm_file path of
           None \<Rightarrow> None
         | Some rd \<Rightarrow>
             if \<not> mem_ok then None
             else
               (case rd of
                  None \<Rightarrow> None
                | Some s \<Rightarrow>
                    let s = take 255 s in
                    if s = [] then Some (Inl UninitRead)
                    else Some (Inr (takeWhile (\<lambda>c. c \<noteq> nul) (butlast s))))))"

text \<open>What \<open>connect_to_wayland_server\<close> stores in the connection: the descriptor, the
  \<open>wl_connection\<close> and the compositor's pid.\<close>

definition connect_to_wayland_server :: "sys_env \<Rightarrow> bool \<Rightarrow> string option \<Rightarrow> sys \<Rightarrow>
    int \<times> (int \<times> wl_connection option \<times> int) \<times> sys" where
  "connect_to_wayland_server e mem_ok display st =
     (let (fd, st1) = connect_to_wayland_socket e display st in
      if fd = -1 then (-1, (fd, None, 0), st1)
      else if \<not> mem_ok then (-1, (fd, None, 0), close_fd fd st1)
      else (fd, (fd, Some (wl_connection_create fd), get_pid_for_socket e fd), st1))"

section \<open>The sockets of server mode\<close>

definition sizeof_sockaddr_un :: nat where
  "sizeof_sockaddr_un = 110"

definition get_socket_path :: "sys_env \<Rightarrow> string \<Rightarrow> sys \<Rightarrow> nat option \<times> sys" where
  "get_socket_path e display st =
     (let dir = (case e_runtime_dir e of None \<Rightarrow> ''/tmp'' | Some d \<Rightarrow> d);
          (path, ret) = snprintf sizeof_sockaddr_un (dir @ ''/'' @ display);
          (p, st1) = alloc_str e path st
      in case p of
           None \<Rightarrow> (None, st1)
         | Some a \<Rightarrow>
             if sizeof_sockaddr_un \<le> ret then (None, st1\<lparr>heap := (heap st1)(a := None)\<rparr>)
             else (Some a, st1))"

definition server_mode_add_socket :: "sys_env \<Rightarrow> bool \<Rightarrow> nat option \<Rightarrow> sys \<Rightarrow> (int \<times> sys) res" where
  "server_mode_add_socket e server_mode_flag name st =
     rbind (rassert server_mode_flag) (\<lambda>_.
       let sock = e_socket e in
       if sock < 0 then Inr (-1, st)
       else
         rbind (deref name st) (\<lambda>path.
           if SUN_PATH < length path + 1 then Inl OutOfBounds
           else if files st path \<noteq> None \<or> \<not> e_bind e path then Inr (-1, close_fd sock st)
           else
             let st1 = st\<lparr>files := (files st)(path \<mapsto> e_inode e)\<rparr> in
             if \<not> e_listen e then Inr (-1, close_fd sock st1) else Inr (sock, st1)))"

definition socket_lock :: "sys_env \<Rightarrow> nat option \<Rightarrow> sys \<Rightarrow> server_mode \<Rightarrow> (int \<times> server_mode \<times> sys) res" where
  "socket_lock e path st sm =
     rbind (deref path st) (\<lambda>p.
       let size = SUN_PATH + 6;
           (lock, len) = snprintf size (p @ ''.lock'');
           (a, st1) = alloc_str e lock st
       in if a = None then Inr (-1, sm, st1)
          else if size \<le> len then rbind (free_str a st1) (\<lambda>st2. Inr (-1, sm, st2))
          else
            let fd = e_open e lock;
                st2 = (if fd < 0 \<or> files st1 lock \<noteq> None then st1
                       else st1\<lparr>files := (files st1)(lock \<mapsto> e_inode e + 1)\<rparr>)
            in if fd < 0 \<or> \<not> e_flock e \<or> e_stat_other_error e p then
                 rbind (free_str a (close_fd fd st2)) (\<lambda>st3. Inr (-1, sm, st3))
               else Inr (0, sm\<lparr>sm_fd_lock := fd, sm_lock_addr := a\<rparr>, st2))"

definition WLDBG_SERVER_MODE_SOCKET_NAME :: string where
  "WLDBG_SERVER_MODE_SOCKET_NAME = ''wldbg-wayland-0''"

text \<open>On an error both paths are freed, also when the struct already points to them.\<close>

definition server_mode_change_sockets :: "sys_env \<Rightarrow> bool \<Rightarrow> sys \<Rightarrow> server_mode \<Rightarrow> (int \<times> server_mode \<times> sys) res" where
  "server_mode_change_sockets e server_mode_flag st sm =
     (let wayland_display = (case e_display e of None \<Rightarrow> ''wayland-0'' | Some d \<Rightarrow> d);
          (orig, st1) = get_socket_path e wayland_display st;
          (new, st2) = get_socket_path e WLDBG_SERVER_MODE_SOCKET_NAME st1;
          err = (\<lambda>sm st. rbind (free_str orig st) (\<lambda>st. rbind (free_str new st) (\<lambda>st. Inr (-1, sm, st))))
      in if orig = None \<or> new = None then err sm st2
         else
           rbind (deref orig st2) (\<lambda>orig_path. rbind (deref new st2) (\<lambda>new_path.
             let (r, st3) = rename_file e orig_path new_path st2 in
             if r < 0 then err sm st3
             else
               let (on, st4) = alloc_str e wayland_display st3;
                   (wn, st5) = alloc_str e WLDBG_SERVER_MODE_SOCKET_NAME st4;
                   sm1 = sm\<lparr>sm_old_socket_path := orig, sm_wldbg_socket_path := new,
                            sm_old_socket_name := on, sm_wldbg_socket_name := wn\<rparr>
               in rbind (server_mode_add_socket e server_mode_flag orig st5) (\<lambda>(fd, st6).
                    if fd = -1 then err sm1 st6
                    else Inr (fd, sm1\<lparr>sm_fd := fd\<rparr>, st6)))))"

definition server_mode_change_sockets_back :: "sys_env \<Rightarrow> sys \<Rightarrow> server_mode \<Rightarrow> (int \<times> sys) res" where
  "server_mode_change_sockets_back e st sm =
     rbind (deref (sm_old_socket_path sm) st) (\<lambda>old.
       let (_, st1) = unlink e old st in
       rbind (deref (sm_wldbg_socket_path sm) st1) (\<lambda>new.
         let (r, st2) = rename_file e new old st1 in Inr (if r < 0 then -1 else 0, st2)))"

definition server_mode_add_socket_with_lock :: "sys_env \<Rightarrow> bool \<Rightarrow> string \<Rightarrow> sys \<Rightarrow> server_mode \<Rightarrow>
    (int \<times> server_mode \<times> sys) res" where
  "server_mode_add_socket_with_lock e server_mode_flag name st sm =
     (let (path, st1) = get_socket_path e name st in
      if path = None then Inr (-1, sm, st1)
      else
        let sm1 = sm\<lparr>sm_wldbg_socket_path := path\<rparr> in
        rbind (server_mode_add_socket e server_mode_flag path st1) (\<lambda>(sock, st2).
          if sock < 0 then Inr (-1, sm1, st2)
          else
            rbind (socket_lock e path st2 sm1) (\<lambda>(r, sm2, st3).
              if r < 0 then Inr (-1, sm2, close_fd sock st3) else Inr (sock, sm2, st3))))"

definition unlink_ptr :: "sys_env \<Rightarrow> nat option \<Rightarrow> sys \<Rightarrow> sys res" where
  "unlink_ptr e p st = rbind (deref p st) (\<lambda>path. Inr (snd (unlink e path st)))"

definition free_server_mode_resources :: "sys_env \<Rightarrow> sys \<Rightarrow> server_mode \<Rightarrow> sys res" where
  "free_server_mode_resources e st sm =
     rbind (if sm_fd_lock sm \<noteq> 0 then
              rbind (unlink_ptr e (sm_lock_addr sm) (close_fd (sm_fd_lock sm) st)) (\<lambda>st1.
                if sm_wldbg_socket_name sm = None then unlink_ptr e (sm_wldbg_socket_path sm) st1 else Inr st1)
            else Inr st) (\<lambda>st2.
     rbind (if sm_wldbg_socket_name sm \<noteq> None then
              rbind (server_mode_change_sockets_back e st2 sm) (\<lambda>(_, s). Inr s)
            else Inr st2) (\<lambda>st3.
     rbind (free_str (sm_old_socket_name sm) st3) (\<lambda>st4.
     rbind (free_str (sm_wldbg_socket_name sm) st4) (\<lambda>st5.
     rbind (free_str (sm_old_socket_path sm) st5) (\<lambda>st6.
       free_str (sm_wldbg_socket_path sm) st6)))))"

section \<open>Heap discipline\<close>

text \<open>Addresses from \<open>brk\<close> on have never been given out.\<close>

definition sys_wf :: "sys \<Rightarrow> bool" where
  "sys_wf st \<longleftrightarrow> (\<forall>a \<ge> brk st. heap st a = None)"

definition socket_dir :: "sys_env \<Rightarrow> string" where
  "socket_dir e = (case e_runtime_dir e of None \<Rightarrow> ''/tmp'' | Some d \<Rightarrow> d)"

definition display_name :: "sys_env \<Rightarrow> string" where
  "display_name e = (case e_display e of None \<Rightarrow> ''wayland-0'' | Some d \<Rightarrow> d)"

definition path_of :: "sys_env \<Rightarrow> string \<Rightarrow> string" where
  "path_of e name = socket_dir e @ ''/'' @ name"

lemma get_socket_path_long:
  "110 \<le> length (path_of e name) \<Longrightarrow> fst (get_socket_path e name st) = None"
  by (auto simp: get_socket_path_def snprintf_def sizeof_sockaddr_un_def alloc_str_def path_of_def socket_dir_def Let_def)

lemma get_socket_path_ok:
  assumes "length (path_of e name) < 110" "e_malloc e (brk st)"
  shows "get_socket_path e name st =
    (Some (brk st), st\<lparr>heap := (heap st)(brk st \<mapsto> path_of e name), brk := brk st + 1\<rparr>)"
  using assms
  by (simp add: get_socket_path_def snprintf_def sizeof_sockaddr_un_def alloc_str_def path_of_def socket_dir_def)

lemma get_socket_path_cases:
  obtains (none) st' where "get_socket_path e name st = (None, st')" "files st' = files st"
  | (some) "get_socket_path e name st =
      (Some (brk st), st\<lparr>heap := (heap st)(brk st \<mapsto> path_of e name), brk := brk st + 1\<rparr>)"
      "length (path_of e name) < 110"
proof (cases "length (path_of e name) < 110 \<and> e_malloc e (brk st)")
  case True
  then show ?thesis using that(2) get_socket_path_ok by blast
next
  case False
  then have "fst (get_socket_path e name st) = None" "files (snd (get_socket_path e name st)) = files st"
    by (auto simp: get_socket_path_def snprintf_def sizeof_sockaddr_un_def alloc_str_def path_of_def
        socket_dir_def Let_def)
  then show ?thesis using that(1) by (metis prod.collapse)
qed

lemma free_str_live: "heap st a \<noteq> None \<Longrightarrow> free_str (Some a) st = Inr (st\<lparr>heap := (heap st)(a := None)\<rparr>)"
  by (simp add: free_str_def)

lemma free_str_dead: "heap st a = None \<Longrightarrow> free_str (Some a) st = Inl UseAfterFree"
  by (simp add: free_str_def)

text \<open>Adding a socket touches neither the heap nor other files.\<close>

lemma add_socket_effect:
  assumes "server_mode_add_socket e f name st = Inr (r, st')"
  shows "heap st' = heap st \<and> brk st' = brk st"
  using assms by (auto simp: server_mode_add_socket_def rbind_eq_Inr Let_def close_fd_def split: if_splits)

lemma add_socket_ok:
  assumes "server_mode_add_socket e f name st = Inr (r, st')" "r \<noteq> -1" "deref name st = Inr path"
  shows "files st path = None" "files st' = (files st)(path \<mapsto> e_inode e)"
  using assms by (auto simp: server_mode_add_socket_def rbind_eq_Inr Let_def close_fd_def split: if_splits)

lemma add_socket_overflow:
  assumes "deref name st = Inr path" "0 \<le> e_socket e"
  shows "server_mode_add_socket e True name st = Inl OutOfBounds \<longleftrightarrow> 108 \<le> length path"
  using assms by (auto simp: server_mode_add_socket_def SUN_PATH_def Let_def)

lemma socket_lock_no_overflow:
  assumes "deref path st = Inr p"
  shows "socket_lock e path st sm \<noteq> Inl OutOfBounds"
  using assms
  by (auto simp: socket_lock_def rbind_eq_Inl Let_def free_str_def alloc_str_def close_fd_def
      split: if_splits option.splits prod.splits)

lemma change_sockets_paths:
  assumes "server_mode_change_sockets e f st sm = Inr (r, sm', st')" "r \<noteq> -1"
  shows "fst (get_socket_path e (display_name e) st) \<noteq> None"
    "fst (get_socket_path e ''wldbg-wayland-0'' (snd (get_socket_path e (display_name e) st))) \<noteq> None"
proof -
  obtain p st1 where 1: "get_socket_path e (display_name e) st = (p, st1)" by fastforce
  obtain q st2 where 2: "get_socket_path e ''wldbg-wayland-0'' st1 = (q, st2)" by fastforce
  have "p \<noteq> None \<and> q \<noteq> None"
    using assms unfolding server_mode_change_sockets_def WLDBG_SERVER_MODE_SOCKET_NAME_def
    by (simp add: display_name_def [symmetric] 1 2 Let_def rbind_eq_Inr split: if_splits)
  then show "fst (get_socket_path e (display_name e) st) \<noteq> None"
    "fst (get_socket_path e ''wldbg-wayland-0'' (snd (get_socket_path e (display_name e) st))) \<noteq> None"
    using 1 2 by simp_all
qed

section \<open>Properties\<close>

text \<open>C16: Server mode leaves the socket directory as it found it: when the sockets were exchanged,
  cleaning up removes wldbg's own socket, gives the compositor's socket its name back and frees every
  string.\<close>

theorem swapped_sockets_restored:
  assumes "server_mode_change_sockets e True st no_server_mode = Inr (fd, sm, st1)" "fd \<noteq> -1"
    and "sys_wf st" "\<And>a. e_malloc e a" "\<And>p q. e_rename e p q" "\<And>p. e_unlink e p"
    and "display_name e \<noteq> ''wldbg-wayland-0''" "files st (path_of e ''wldbg-wayland-0'') = None"
  shows "\<exists>i. files st (path_of e (display_name e)) = Some i \<and> files st1 (path_of e ''wldbg-wayland-0'') = Some i \<and>
    (\<exists>st2. free_server_mode_resources e st1 sm = Inr st2 \<and> files st2 = files st \<and> heap st2 = heap st)"
proof -
  let ?b = "brk st"
  let ?o = "path_of e (display_name e)" and ?n = "path_of e ''wldbg-wayland-0''"
  have neq: "?o \<noteq> ?n" using assms(7) by (simp add: path_of_def)
  have fresh: "heap st ?b = None" "heap st (Suc ?b) = None" "heap st (Suc (Suc ?b)) = None"
    "heap st (Suc (Suc (Suc ?b))) = None" using assms(3) by (simp_all add: sys_wf_def)
  have d: "(case e_display e of None \<Rightarrow> ''wayland-0'' | Some d \<Rightarrow> d) = display_name e"
    by (simp add: display_name_def)
  let ?h = "(heap st)(?b \<mapsto> ?o, Suc ?b \<mapsto> ?n)"
  let ?st2 = "st\<lparr>heap := ?h, brk := Suc (Suc ?b)\<rparr>"
  have len: "length ?o < 110" "length ?n < 110"
    using change_sockets_paths [OF assms(1,2)] get_socket_path_long [of e "display_name e" st]
      get_socket_path_long [of e "''wldbg-wayland-0''" "snd (get_socket_path e (display_name e) st)"]
    by (simp_all only: not_le [symmetric]) blast+
  have g: "get_socket_path e (display_name e) st = (Some ?b, st\<lparr>heap := (heap st)(?b \<mapsto> ?o), brk := Suc ?b\<rparr>)"
    "get_socket_path e ''wldbg-wayland-0'' (st\<lparr>heap := (heap st)(?b \<mapsto> ?o), brk := Suc ?b\<rparr>) = (Some (Suc ?b), ?st2)"
    using get_socket_path_ok [OF len(1)] get_socket_path_ok [OF len(2)] assms(4) by simp_all
  have df: "deref (Some ?b) ?st2 = Inr ?o" "deref (Some (Suc ?b)) ?st2 = Inr ?n" by (simp_all add: deref_def)
  obtain i where i: "files st ?o = Some i"
  proof (cases "files st ?o")
    case None
    then show ?thesis using assms(1,2)
      by (simp add: server_mode_change_sockets_def d WLDBG_SERVER_MODE_SOCKET_NAME_def g df rename_file_def Let_def
          rbind_eq_Inr)
  qed
  let ?h5 = "?h(Suc (Suc ?b) \<mapsto> display_name e, Suc (Suc (Suc ?b)) \<mapsto> ''wldbg-wayland-0'')"
  let ?st5 = "st\<lparr>files := (files st)(?o := None, ?n \<mapsto> i), heap := ?h5, brk := Suc (Suc (Suc (Suc ?b)))\<rparr>"
  let ?sm1 = "no_server_mode\<lparr>sm_old_socket_path := Some ?b, sm_wldbg_socket_path := Some (Suc ?b),
     sm_old_socket_name := Some (Suc (Suc ?b)), sm_wldbg_socket_name := Some (Suc (Suc (Suc ?b)))\<rparr>"
  have ad: "server_mode_add_socket e True (Some ?b) ?st5 = Inr (fd, st1)" and sm: "sm = ?sm1\<lparr>sm_fd := fd\<rparr>"
    using assms(1,2,4,5) i
    by (auto simp: server_mode_change_sockets_def d WLDBG_SERVER_MODE_SOCKET_NAME_def g df rename_file_def Let_def
        alloc_str_def rbind_eq_Inr split: if_splits)
  have d5: "deref (Some ?b) ?st5 = Inr ?o" by (simp add: deref_def)
  have f1: "files st1 = (files ?st5)(?o \<mapsto> e_inode e)" using add_socket_ok [OF ad assms(2) d5] by simp
  have h1: "heap st1 = ?h5" using add_socket_effect [OF ad] by simp
  have r1: "unlink e ?o st1 = (0, st1\<lparr>files := (files ?st5)\<rparr>)"
    using f1 assms(6) neq by (simp add: unlink_def fun_upd_twist)
  have r2: "rename_file e ?n ?o (st1\<lparr>files := files ?st5\<rparr>) = (0, st1\<lparr>files := files st\<rparr>)"
    using neq i assms(5,8) by (auto simp: rename_file_def fun_eq_iff)
  have "server_mode_change_sockets_back e st1 sm = Inr (0, st1\<lparr>files := files st\<rparr>)"
    using h1 r1 r2 by (simp add: server_mode_change_sockets_back_def sm deref_def)
  then have "free_server_mode_resources e st1 sm = Inr (st1\<lparr>files := files st, heap := heap st\<rparr>)"
    using h1 fresh
    by (simp add: free_server_mode_resources_def sm no_server_mode_def free_str_def fun_eq_iff)
  then show ?thesis using i f1 neq by auto
qed

text \<open>A system on which every call succeeds, and one whose compositor listens on \<open>wayland-0\<close>.\<close>

definition good_env :: "string \<Rightarrow> bool \<Rightarrow> sys_env" where
  "good_env dir binds = \<lparr>e_runtime_dir = Some dir, e_display = None, e_malloc = \<lambda>_. True, e_socket = 5,
     e_bind = \<lambda>_. binds, e_inode = 100, e_listen = True, e_connect = \<lambda>_. True, e_rename = \<lambda>_ _. True,
     e_unlink = \<lambda>_. True, e_open = \<lambda>_. 6, e_flock = True, e_stat_other_error = \<lambda>_. False, e_peer_pid = \<lambda>_. 1\<rparr>"

definition compositor_only :: sys where
  "compositor_only = \<lparr>heap = \<lambda>_. None, brk = 0, files = [''/r/wayland-0'' \<mapsto> 7], shut = []\<rparr>"

theorem swapped_sockets_restored_witness:
  "\<exists>sm st1 st2. server_mode_change_sockets (good_env ''/r'' True) True compositor_only no_server_mode = Inr (5, sm, st1) \<and>
     files st1 ''/r/wldbg-wayland-0'' = Some 7 \<and>
     free_server_mode_resources (good_env ''/r'' True) st1 sm = Inr st2 \<and> files st2 = files compositor_only"
proof -
  let ?e = "good_env ''/r'' True"
  have "\<exists>sm st1. server_mode_change_sockets ?e True compositor_only no_server_mode = Inr (5, sm, st1)"
    by (simp add: server_mode_change_sockets_def get_socket_path_def good_env_def compositor_only_def snprintf_def
        sizeof_sockaddr_un_def alloc_str_def WLDBG_SERVER_MODE_SOCKET_NAME_def deref_def rename_file_def
        server_mode_add_socket_def SUN_PATH_def Let_def)
  then obtain sm st1 where 1: "server_mode_change_sockets ?e True compositor_only no_server_mode = Inr (5, sm, st1)"
    by blast
  show ?thesis
    using swapped_sockets_restored [OF 1] 1
    by (fastforce simp: sys_wf_def compositor_only_def good_env_def display_name_def path_of_def socket_dir_def)
qed

text \<open>When the exchange fails after the compositor's socket was renamed (\<open>socket\<close>, \<open>bind\<close> or
  \<open>listen\<close> fails), the strings are freed while the struct still points to them, and the clean-up at
  exit uses the freed memory.\<close>

theorem failed_exchange_uses_freed:
  assumes "server_mode_change_sockets e f st no_server_mode = Inr (-1, sm, st1)" "sm_old_socket_path sm \<noteq> None"
  shows "free_server_mode_resources e st1 sm = Inl UseAfterFree"
proof -
  obtain p sa where 1: "get_socket_path e (display_name e) st = (p, sa)" by fastforce
  obtain q sb where 2: "get_socket_path e ''wldbg-wayland-0'' sa = (q, sb)" by fastforce
  have ns: "sm_old_socket_path no_server_mode = None" by (simp add: no_server_mode_def)
  note unfold = server_mode_change_sockets_def WLDBG_SERVER_MODE_SOCKET_NAME_def display_name_def [symmetric]
  have err: "sm = no_server_mode \<Longrightarrow> False" using assms(2) ns by simp
  have nn: "p \<noteq> None" "q \<noteq> None"
    using assms(1) err by (cases p; cases q; force simp: unfold 1 2 Let_def rbind_eq_Inr)+
  obtain op np where d: "deref p sb = Inr op" "deref q sb = Inr np"
    using assms(1) nn by (auto simp: unfold 1 2 Let_def rbind_eq_Inr)
  obtain r sc where r: "rename_file e op np sb = (r, sc)" by fastforce
  have rn: "\<not> r < 0" using assms(1) nn d r err by (auto simp: unfold 1 2 Let_def rbind_eq_Inr)
  obtain on sd wn se where al: "alloc_str e (display_name e) sc = (on, sd)"
    "alloc_str e ''wldbg-wayland-0'' sd = (wn, se)" by fastforce
  obtain sf sg where sm: "sm = no_server_mode\<lparr>sm_old_socket_path := p, sm_wldbg_socket_path := q,
      sm_old_socket_name := on, sm_wldbg_socket_name := wn\<rparr>" "free_str p sf = Inr sg" "free_str q sg = Inr st1"
    using assms(1) nn d r rn al by (auto simp: unfold 1 2 Let_def rbind_eq_Inr split: if_splits)
  obtain a where a: "p = Some a" using assms(2) sm(1) by auto
  have "heap sg a = None" using sm(2) a by (auto simp: free_str_def split: if_splits)
  then have "heap st1 a = None" using sm(3) by (auto simp: free_str_def split: if_splits option.splits)
  then have dead: "deref p st1 = Inl UseAfterFree" "free_str p st' = Inl UseAfterFree" if "heap st' = heap st1" for st'
    using a that by (simp_all add: deref_def free_str_def)
  show ?thesis
  proof (cases wn)
    case (Some w)
    then show ?thesis using dead
      by (simp add: free_server_mode_resources_def sm(1) no_server_mode_def server_mode_change_sockets_back_def)
  next
    case None
    have "free_str on st1 = Inl UseAfterFree \<or> (\<exists>s. free_str on st1 = Inr s \<and> heap s a = None)"
      using \<open>heap st1 a = None\<close> by (auto simp: free_str_def split: option.splits)
    then show ?thesis using None a
      by (auto simp: free_server_mode_resources_def sm(1) no_server_mode_def free_str_def)
  qed
qed

theorem failed_exchange_uses_freed_witness:
  "\<exists>sm st1. server_mode_change_sockets (good_env ''/r'' False) True compositor_only no_server_mode = Inr (-1, sm, st1) \<and>
     files st1 ''/r/wayland-0'' = None \<and>
     free_server_mode_resources (good_env ''/r'' False) st1 sm = Inl UseAfterFree"
proof -
  let ?e = "good_env ''/r'' False"
  have "\<exists>sm st1. server_mode_change_sockets ?e True compositor_only no_server_mode = Inr (-1, sm, st1) \<and>
      sm_old_socket_path sm = Some 0 \<and> files st1 ''/r/wayland-0'' = None"
    by (simp add: server_mode_change_sockets_def get_socket_path_def good_env_def compositor_only_def snprintf_def
        sizeof_sockaddr_un_def alloc_str_def WLDBG_SERVER_MODE_SOCKET_NAME_def deref_def rename_file_def
        server_mode_add_socket_def SUN_PATH_def free_str_def close_fd_def Let_def)
  then show ?thesis using failed_exchange_uses_freed by blast
qed

text \<open>A socket path of 108 or 109 characters passes the length check of \<open>get_socket_path\<close>, which
  compares with the whole \<open>struct sockaddr_un\<close>, and overruns \<open>sun_path\<close>; shorter and longer paths do
  not.\<close>

theorem socket_path_overflow_iff:
  assumes "0 \<le> e_socket e" "e_malloc e (brk st)"
  shows "server_mode_add_socket_with_lock e True name st sm = Inl OutOfBounds \<longleftrightarrow>
    length (path_of e name) \<in> {108, 109}"
proof (cases "length (path_of e name) < 110")
  case True
  let ?st = "st\<lparr>heap := (heap st)(brk st \<mapsto> path_of e name), brk := brk st + 1\<rparr>"
  have d: "deref (Some (brk st)) ?st = Inr (path_of e name)" by (simp add: deref_def)
  have "deref (Some (brk st)) s = Inr (path_of e name)"
    if "server_mode_add_socket e True (Some (brk st)) ?st = Inr (r, s)" for r s
    using add_socket_effect [OF that] by (simp add: deref_def)
  then have nl: "socket_lock e (Some (brk st)) s m \<noteq> Inl OutOfBounds"
    if "server_mode_add_socket e True (Some (brk st)) ?st = Inr (r, s)" for r s m
    using that socket_lock_no_overflow by blast
  have "server_mode_add_socket_with_lock e True name st sm = Inl OutOfBounds \<longleftrightarrow>
      server_mode_add_socket e True (Some (brk st)) ?st = Inl OutOfBounds"
    unfolding server_mode_add_socket_with_lock_def get_socket_path_ok [OF True assms(2)]
    using nl by (auto simp: rbind_eq_Inl Let_def split: if_splits)
  also have "\<dots> \<longleftrightarrow> 108 \<le> length (path_of e name)" by (rule add_socket_overflow [OF d assms(1)])
  finally show ?thesis using True by auto
next
  case False
  then have n: "110 \<le> length (path_of e name)" by simp
  obtain s where "get_socket_path e name st = (None, s)"
    using get_socket_path_long [OF n] by (metis prod.collapse)
  with n show ?thesis by (simp add: server_mode_add_socket_with_lock_def)
qed

theorem socket_path_overflow_iff_witness:
  "server_mode_add_socket_with_lock (good_env (replicate 98 (CHR ''d'')) True) True ''wayland-0'' compositor_only
     no_server_mode = Inl OutOfBounds \<and>
   server_mode_add_socket_with_lock (good_env (replicate 97 (CHR ''d'')) True) True ''wayland-0'' compositor_only
     no_server_mode \<noteq> Inl OutOfBounds"
  using socket_path_overflow_iff [of "good_env (replicate 98 (CHR ''d'')) True" compositor_only "''wayland-0''" no_server_mode]
    socket_path_overflow_iff [of "good_env (replicate 97 (CHR ''d'')) True" compositor_only "''wayland-0''" no_server_mode]
  by (simp add: good_env_def path_of_def socket_dir_def)

end
