(* ===== verification/Dispatch.thy ===== *)
theory Dispatch
  imports Process Sockets
begin

text \<open>
  The event loop, \<^verbatim>\<open>src/loop.c\<close> and \<^verbatim>\<open>src/wldbg.c\<close>: descriptors and their callbacks, the
  connections being debugged, and the loop around \<open>epoll_wait\<close>.

  A callback is known by its address, a connection by a number; freed ones are in no list, and using
  one is the fault \<open>UseAfterFree\<close>.  The kernel's interest list is part of the state; closing a
  descriptor takes it out.  What happens outside is a script of events.
\<close>

section \<open>State\<close>

datatype handler = Dispatch_signals | Dispatch_messages nat | Server_mode_accept | Handle_sigint

record callback =
  cb_addr :: nat
  cb_fd :: int
  cb_handler :: handler

text \<open>The pointers to a \<open>wl_connection\<close> in a \<open>struct wldbg_connection\<close>.\<close>

datatype wlc = PNull | PFreed | PLive wl_connection

record 'o conn =
  cn_id :: nat
  cn_server_fd :: int
  cn_server :: wlc
  cn_client_fd :: int
  cn_client :: wlc
  cn_client_pid :: int
  cn_program :: "string res option"
  cn_objects :: 'o

text \<open>The parts of \<open>struct wldbg\<close> the loop works on.  \<open>el_global\<close> is the state of the passes,
  \<open>cn_objects\<close> the object tables that hang on each connection.\<close>

record ('g, 'o) evloop =
  el_exit :: bool
  el_error :: bool
  el_running :: bool
  el_pass_whole_buffer :: bool
  el_server_mode :: bool
  el_resolving :: bool
  el_gathering :: bool
  el_global :: 'g
  el_monitored :: "callback list"
  el_epoll :: "(int \<times> nat) list"
  el_conns :: "'o conn list"
  el_conns_num :: int
  el_next :: nat
  el_killed :: "int list"
  el_sys :: sys
  el_sm :: server_mode

definition el_close :: "int \<Rightarrow> ('g, 'o) evloop \<Rightarrow> ('g, 'o) evloop" where
  "el_close fd el =
     el\<lparr>el_epoll := filter (\<lambda>(f, _). f \<noteq> fd) (el_epoll el), el_sys := close_fd fd (el_sys el)\<rparr>"

section \<open>Callbacks\<close>

text \<open>\<open>mem_ok\<close> and \<open>ctl_ok\<close> are the outcomes of \<open>malloc\<close> and of \<open>epoll_ctl\<close>; a descriptor that is
  monitored already is refused by the kernel.\<close>

definition wldbg_monitor_fd :: "bool \<Rightarrow> bool \<Rightarrow> int \<Rightarrow> handler \<Rightarrow> ('g, 'o) evloop \<Rightarrow> nat option \<times> ('g, 'o) evloop" where
  "wldbg_monitor_fd mem_ok ctl_ok fd h el =
     (if \<not> mem_ok then (None, el)
      else if \<not> ctl_ok \<or> fd \<in> fst ` set (el_epoll el) then (None, el)
      else (Some (el_next el),
        el\<lparr>el_epoll := (fd, el_next el) # el_epoll el,
           el_monitored := \<lparr>cb_addr = el_next el, cb_fd = fd, cb_handler = h\<rparr> # el_monitored el,
           el_next := el_next el + 1\<rparr>))"

definition wldbg_remove_callback :: "callback \<Rightarrow> ('g, 'o) evloop \<Rightarrow> int \<times> ('g, 'o) evloop" where
  "wldbg_remove_callback cb el =
     (let el1 = el\<lparr>el_monitored := filter (\<lambda>c. cb_addr c \<noteq> cb_addr cb) (el_monitored el)\<rparr> in
      if cb_fd cb \<notin> fst ` set (el_epoll el) then (-1, el1)
      else (0, el1\<lparr>el_epoll := filter (\<lambda>(f, _). f \<noteq> cb_fd cb) (el_epoll el)\<rparr>))"

definition wldbg_separate_messages :: "int \<Rightarrow> ('g, 'o) evloop \<Rightarrow> bool \<times> ('g, 'o) evloop" where
  "wldbg_separate_messages state el =
     (if state = -1 then (el_pass_whole_buffer el, el)
      else (state \<noteq> 0, el\<lparr>el_pass_whole_buffer := (state \<noteq> 0)\<rparr>))"

section \<open>Connections\<close>

definition destroy_wlc :: "wlc \<Rightarrow> ('g, 'o) evloop \<Rightarrow> ('g, 'o) evloop res" where
  "destroy_wlc p el =
     (case p of
        PNull \<Rightarrow> Inl NullDeref
      | PFreed \<Rightarrow> Inl UseAfterFree
      | PLive c \<Rightarrow> rbind (wl_connection_destroy c) (\<lambda>_. Inr (el_close (conn_fd c) el)))"

definition wldbg_connection_destroy :: "'o conn \<Rightarrow> ('g, 'o) evloop \<Rightarrow> ('g, 'o) evloop res" where
  "wldbg_connection_destroy c el = rbind (destroy_wlc (cn_server c) el) (destroy_wlc (cn_client c))"

definition wldbg_add_connection :: "'o conn \<Rightarrow> ('g, 'o) evloop \<Rightarrow> (int \<times> ('g, 'o) evloop) res" where
  "wldbg_add_connection c el =
     rbind (rassert (0 \<le> el_conns_num el)) (\<lambda>_.
       Inr (el_conns_num el + 1, el\<lparr>el_conns := c # el_conns el, el_conns_num := el_conns_num el + 1\<rparr>))"

definition wldbg_remove_connection :: "'o conn \<Rightarrow> ('g, 'o) evloop \<Rightarrow> (int \<times> ('g, 'o) evloop) res" where
  "wldbg_remove_connection c el =
     rbind (rassert (0 \<le> el_conns_num el - 1)) (\<lambda>_.
       Inr (el_conns_num el - 1,
         el\<lparr>el_conns := filter (\<lambda>d. cn_id d \<noteq> cn_id c) (el_conns el), el_conns_num := el_conns_num el - 1\<rparr>))"

text \<open>The pointer to the callback's data is used as that of a connection, whatever the callback.\<close>

definition remove_connection :: "callback \<Rightarrow> ('g, 'o) evloop \<Rightarrow> (int \<times> ('g, 'o) evloop) res" where
  "remove_connection cb el =
     (case cb_handler cb of
        Dispatch_messages i \<Rightarrow>
          (case find (\<lambda>c. cn_id c = i) (el_conns el) of
             None \<Rightarrow> Inl UseAfterFree
           | Some c \<Rightarrow>
               rbind (wldbg_remove_connection c el) (\<lambda>(_, el1).
                 let (r, el2) = wldbg_remove_callback cb el1 in
                 if r \<noteq> 0 then Inr (0, el2)
                 else rbind (wldbg_connection_destroy c el2) (\<lambda>el3. Inr (el_conns_num el3, el3))))
      | _ \<Rightarrow> Inl TypeConfusion)"

text \<open>The outcomes of what the set-up of a connection calls.\<close>

record 'o conn_setup =
  cs_calloc :: bool
  cs_objects :: "'o option"
  cs_info_ok :: bool
  cs_env :: sys_env
  cs_server_malloc :: bool
  cs_server_monitor :: "bool \<times> bool"
  cs_client_malloc :: bool
  cs_client_monitor :: "bool \<times> bool"
  cs_program :: "int \<Rightarrow> string res option"

text \<open>The compositor's socket: the one given by the user, else the one wldbg has moved away.\<close>

definition server_socket_name :: "('g, 'o) evloop \<Rightarrow> string option res" where
  "server_socket_name el =
     (if \<not> el_server_mode el then Inr None
      else
        (case sm_connect_to (el_sm el) of
           Some s \<Rightarrow> Inr (Some s)
         | None \<Rightarrow>
             if sm_wldbg_socket_name (el_sm el) = None then Inr None
             else rbind (deref (sm_wldbg_socket_name (el_sm el)) (el_sys el)) (\<lambda>s. Inr (Some s))))"

text \<open>A connection in the making is not in the list yet.\<close>

definition wldbg_connection_create :: "'o conn_setup \<Rightarrow> 'o \<Rightarrow> ('g, 'o) evloop \<Rightarrow> ('o conn option \<times> ('g, 'o) evloop) res" where
  "wldbg_connection_create cs nothing el =
     (if \<not> cs_calloc cs then Inr (None, el)
      else if el_resolving el \<and> cs_objects cs = None then Inr (None, el)
      else if el_gathering el \<and> \<not> cs_info_ok cs then Inr (None, el)
      else
        let i = el_next el; el1 = el\<lparr>el_next := el_next el + 1\<rparr>;
            objs = (if el_resolving el then the (cs_objects cs) else nothing) in
        rbind (server_socket_name el)
          (\<lambda>sock_name.
           let (fd, (sfd, sconn, _), sys1) = connect_to_wayland_server (cs_env cs) (cs_server_malloc cs) sock_name (el_sys el1);
               el2 = el1\<lparr>el_sys := sys1\<rparr> in
           if fd < 0 then Inr (None, el2)
           else
             (case wldbg_monitor_fd (fst (cs_server_monitor cs)) (snd (cs_server_monitor cs)) sfd (Dispatch_messages i) el2 of
                (None, el3) \<Rightarrow> Inr (None, el_close fd el3)
              | (Some _, el3) \<Rightarrow>
                  Inr (Some \<lparr>cn_id = i, cn_server_fd = sfd,
                             cn_server = (case sconn of None \<Rightarrow> PNull | Some c \<Rightarrow> PLive c),
                             cn_client_fd = 0, cn_client = PNull, cn_client_pid = 0, cn_program = None,
                             cn_objects = objs\<rparr>, el3))))"

definition create_client_connection_for_fd :: "'o conn_setup \<Rightarrow> 'o conn \<Rightarrow> int \<Rightarrow> ('g, 'o) evloop \<Rightarrow>
    (int \<times> 'o conn \<times> ('g, 'o) evloop) res" where
  "create_client_connection_for_fd cs c fd el =
     (if \<not> cs_client_malloc cs then Inr (-1, c, el)
      else
        let wc = wl_connection_create fd in
        (case wldbg_monitor_fd (fst (cs_client_monitor cs)) (snd (cs_client_monitor cs)) fd
                (Dispatch_messages (cn_id c)) el of
           (None, el1) \<Rightarrow> rbind (destroy_wlc (PLive wc) el1) (\<lambda>el2. Inr (-1, c\<lparr>cn_client := PFreed\<rparr>, el2))
         | (Some _, el1) \<Rightarrow>
             let pid = get_pid_for_socket (cs_env cs) fd in
             Inr (0, c\<lparr>cn_client := PLive wc, cn_client_fd := fd, cn_client_pid := pid,
                       cn_program := (if pid \<noteq> -1 then cs_program cs pid else cn_program c)\<rparr>, el1)))"

text \<open>\<open>create_client_connection\<close>; \<open>socks\<close> is the result of \<open>socketpair\<close>.\<close>

definition create_client_connection :: "'o conn_setup \<Rightarrow> (int \<times> int) option \<Rightarrow> 'o conn \<Rightarrow> ('g, 'o) evloop \<Rightarrow>
    (int \<times> 'o conn \<times> ('g, 'o) evloop) res" where
  "create_client_connection cs socks c el =
     (case socks of
        None \<Rightarrow> Inr (-1, c, el)
      | Some (s0, s1) \<Rightarrow>
          rbind (create_client_connection_for_fd cs c s0 el) (\<lambda>(r, c', el').
            if r < 0 then Inr (-1, c', el_close s1 (el_close s0 el')) else Inr (s1, c', el')))"

text \<open>\<open>spawn_client\<close> in the parent.  A \<open>fork\<close> that returns 0 is the child, which comes back from
  \<open>execvp\<close> only to abort.\<close>

definition spawn_client :: "'o conn_setup \<Rightarrow> 'o \<Rightarrow> (int \<times> int) option \<Rightarrow> bool \<Rightarrow> int \<Rightarrow> string option \<Rightarrow> ('g, 'o) evloop \<Rightarrow>
    ('o conn option \<times> ('g, 'o) evloop) res" where
  "spawn_client cs nothing socks setenv_ok fork_pid path el =
     (if path = None then Inr (None, el)
      else
        rbind (rassert (\<not> el_error el)) (\<lambda>_. rbind (rassert (\<not> el_exit el)) (\<lambda>_.
        rbind (wldbg_connection_create cs nothing el) (\<lambda>(co, el1).
          case co of
            None \<Rightarrow> Inr (None, el1)
          | Some c \<Rightarrow>
              rbind (create_client_connection cs socks c el1) (\<lambda>(sock, c1, el2).
                let err = (\<lambda>c el. rbind (wldbg_connection_destroy c el) (\<lambda>el. Inr (None, el))) in
                if sock < 0 then err c1 el2
                else if 8 \<le> snd (snprintf 8 (show_int sock)) then err c1 (el_close sock el2)
                else if \<not> setenv_ok then err c1 (el_close sock el2)
                else
                  let c2 = c1\<lparr>cn_client_pid := fork_pid\<rparr> in
                  if fork_pid = -1 then err c2 (el_close sock el2)
                  else if fork_pid = 0 then Inl Aborted
                  else Inr (Some c2, el_close sock el2))))))"

definition server_mode_accept :: "'o conn_setup \<Rightarrow> 'o \<Rightarrow> int \<Rightarrow> ('g, 'o) evloop \<Rightarrow> (int \<times> ('g, 'o) evloop) res" where
  "server_mode_accept cs nothing client_fd el =
     (if client_fd < 0 then Inr (-1, el)
      else
        rbind (wldbg_connection_create cs nothing el) (\<lambda>(co, el1).
          case co of
            None \<Rightarrow> Inr (-1, el_close client_fd el1)
          | Some c \<Rightarrow>
              rbind (create_client_connection_for_fd cs c client_fd el1) (\<lambda>(r, c1, el2).
                if r < 0 then rbind (wldbg_connection_destroy c1 el2) (\<lambda>el3. Inr (-1, el_close client_fd el3))
                else
                  rbind (case cn_program c1 of
                           None \<Rightarrow> Inr el2
                         | Some p \<Rightarrow>
                             rbind p (\<lambda>name.
                               Inr (if sm_client_name_width (el_sm el2) < int (length name) then
                                      el2\<lparr>el_sm := (el_sm el2)\<lparr>sm_client_name_width :=
                                            (if 20 < length name then 20 else int (length name))\<rparr>\<rparr>
                                    else el2))) (\<lambda>el3.
                  rbind (wldbg_add_connection c1 el3) (\<lambda>(_, el4). Inr (1, el4))))))"

section \<open>Events\<close>

text \<open>A signal as \<open>read\<close> delivers it from the signal descriptor.\<close>

datatype signal = SIGCHLD | SIGINT | Other_signal

text \<open>What there is behind a descriptor that became ready: what \<open>recvmsg\<close> and \<open>sendmsg\<close> will answer,
  the bytes that \<open>wldbg->buffer\<close> still holds, a signal, a client that connects.\<close>

record 'o happening =
  hp_recv :: "recv_result list"
  hp_again :: bool
  hp_send :: "send_result list"
  hp_buffer :: bytes
  hp_signal :: "signal option"
  hp_client_fd :: int
  hp_setup :: "'o conn_setup"
  hp_nothing :: 'o

datatype 'o event = Epoll_error bool | Ready int bool bool "'o happening"

text \<open>\<open>epoll_wait\<close> reports only descriptors of the interest list; with nothing left to happen it
  waits for ever.\<close>

fun epoll_wait :: "('g, 'o) evloop \<Rightarrow> 'o event list \<Rightarrow> ('o event \<times> 'o event list) option" where
  "epoll_wait el [] = None"
| "epoll_wait el (Epoll_error intr # evs) = Some (Epoll_error intr, evs)"
| "epoll_wait el (Ready fd hup err hp # evs) =
     (if fd \<in> fst ` set (el_epoll el) then Some (Ready fd hup err hp, evs) else epoll_wait el evs)"

lemma epoll_wait_shorter: "epoll_wait el evs = Some (ev, evs') \<Longrightarrow> length evs' < length evs"
  by (induction el evs rule: epoll_wait.induct) (auto split: if_splits)

definition wldbg_foreach_connection :: "('o conn \<Rightarrow> 'a \<Rightarrow> 'a) \<Rightarrow> 'o conn list \<Rightarrow> 'a \<Rightarrow> 'a" where
  "wldbg_foreach_connection func cs a = fold func cs a"

definition wldbg_connection_kill :: "'o conn \<Rightarrow> int list \<Rightarrow> int list" where
  "wldbg_connection_kill c killed = killed @ [cn_client_pid c]"

definition dispatch_signals :: "signal option \<Rightarrow> ('g, 'o) evloop \<Rightarrow> (int \<times> ('g, 'o) evloop) res" where
  "dispatch_signals si el =
     (case si of
        None \<Rightarrow> Inr (-1, el)
      | Some SIGCHLD \<Rightarrow> Inr (1, el)
      | Some SIGINT \<Rightarrow>
          Inr (1, el\<lparr>el_killed := wldbg_foreach_connection wldbg_connection_kill (el_conns el) (el_killed el),
                     el_exit := True\<rparr>)
      | Some Other_signal \<Rightarrow> Inl AssertFailed)"

text \<open>\<open>dispatch_messages\<close> on a descriptor of a connection: the passes see the global state and the
  objects of that connection.\<close>

definition update_conn :: "'o conn \<Rightarrow> 'o conn list \<Rightarrow> 'o conn list" where
  "update_conn c cs = map (\<lambda>d. if cn_id d = cn_id c then c else d) cs"

definition dispatch_fd :: "('g \<times> 'o) pass list \<Rightarrow> 'o happening \<Rightarrow> int \<Rightarrow> nat \<Rightarrow> ('g, 'o) evloop \<Rightarrow>
    (int \<times> ('g, 'o) evloop) res option" where
  "dispatch_fd ps hp fd i el =
     (case find (\<lambda>c. cn_id c = i) (el_conns el) of
        None \<Rightarrow> Some (Inl UseAfterFree)
      | Some c \<Rightarrow>
          (case (cn_server c, cn_client c) of
             (PLive s, PLive k) \<Rightarrow>
               let sd = (if fd = cn_client_fd c then CLIENT else SERVER);
                   w = \<lparr>w_exit = el_exit el, w_error = el_error el, w_pass_whole_buffer = el_pass_whole_buffer el,
                        w_state = (el_global el, cn_objects c)\<rparr>
               in map_option (\<lambda>r. rbind r (\<lambda>(ret, w', wc, _).
                    Inr (ret, el\<lparr>el_exit := w_exit w', el_error := w_error w',
                      el_pass_whole_buffer := w_pass_whole_buffer w', el_global := fst (w_state w'),
                      el_conns := update_conn (c\<lparr>cn_server := PLive (wc_server wc), cn_client := PLive (wc_client wc),
                                                 cn_objects := snd (w_state w')\<rparr>) (el_conns el)\<rparr>)))
                    (dispatch_messages ps w (hp_recv hp) (hp_again hp) (hp_send hp) (hp_buffer hp)
                      \<lparr>wc_server = s, wc_client = k\<rparr> sd)
           | (PFreed, _) \<Rightarrow> Some (Inl UseAfterFree)
           | (_, PFreed) \<Rightarrow> Some (Inl UseAfterFree)
           | _ \<Rightarrow> Some (Inl NullDeref)))"

text \<open>\<open>handle_sigint\<close> of interactive mode is the parameter \<open>sigint\<close>.\<close>

definition dispatch_cb :: "('g \<times> 'o) pass list \<Rightarrow> (('g, 'o) evloop \<Rightarrow> (int \<times> ('g, 'o) evloop) res option) \<Rightarrow>
    'o happening \<Rightarrow> callback \<Rightarrow> ('g, 'o) evloop \<Rightarrow> (int \<times> ('g, 'o) evloop) res option" where
  "dispatch_cb ps sigint hp cb el =
     (case cb_handler cb of
        Dispatch_signals \<Rightarrow> Some (dispatch_signals (hp_signal hp) el)
      | Dispatch_messages i \<Rightarrow> dispatch_fd ps hp (cb_fd cb) i el
      | Server_mode_accept \<Rightarrow> Some (server_mode_accept (hp_setup hp) (hp_nothing hp) (hp_client_fd hp) el)
      | Handle_sigint \<Rightarrow> sigint el)"

definition wldbg_dispatch :: "('g \<times> 'o) pass list \<Rightarrow> (('g, 'o) evloop \<Rightarrow> (int \<times> ('g, 'o) evloop) res option) \<Rightarrow>
    'o event list \<Rightarrow> ('g, 'o) evloop \<Rightarrow> (int \<times> ('g, 'o) evloop \<times> 'o event list) res option" where
  "wldbg_dispatch ps sigint evs el =
     (if el_exit el \<or> el_error el then Some (Inl AssertFailed)
      else
        (case epoll_wait el evs of
           None \<Rightarrow> None
         | Some (Epoll_error intr, evs') \<Rightarrow> Some (Inr (if intr \<and> el_exit el then 0 else -1, el, evs'))
         | Some (Ready fd hup err hp, evs') \<Rightarrow>
             (case map_of (el_epoll el) fd of
                None \<Rightarrow> None
              | Some a \<Rightarrow>
                  (case find (\<lambda>cb. cb_addr cb = a) (el_monitored el) of
                     None \<Rightarrow> Some (Inl UseAfterFree)
                   | Some cb \<Rightarrow>
                       let with_rest = map_sum id (\<lambda>(r, el). (r, el, evs')) in
                       if hup then Some (with_rest (remove_connection cb el))
                       else if err then Some (Inr (-1, el, evs'))
                       else
                         (case dispatch_cb ps sigint hp cb el of
                            None \<Rightarrow> None
                          | Some (Inl f) \<Rightarrow> Some (Inl f)
                          | Some (Inr (ret, el1)) \<Rightarrow>
                              if ret \<le> 0 then Some (with_rest (remove_connection cb el1))
                              else Some (Inr (ret, el1, evs')))))))"

lemma wldbg_dispatch_shorter:
  "wldbg_dispatch ps sigint evs el = Some (Inr (r, el', evs')) \<Longrightarrow> length evs' < length evs"
  by (auto simp: wldbg_dispatch_def Let_def map_sum_def dest!: epoll_wait_shorter
      split: if_splits option.splits event.splits sum.splits)

function (sequential) wldbg_run_loop :: "('g \<times> 'o) pass list \<Rightarrow>
    (('g, 'o) evloop \<Rightarrow> (int \<times> ('g, 'o) evloop) res option) \<Rightarrow> 'o event list \<Rightarrow> ('g, 'o) evloop \<Rightarrow>
    (int \<times> ('g, 'o) evloop) res option" where
  "wldbg_run_loop ps sigint evs el =
     (case wldbg_dispatch ps sigint evs el of
        None \<Rightarrow> None
      | Some (Inl f) \<Rightarrow> Some (Inl f)
      | Some (Inr (ret, el1, evs')) \<Rightarrow>
          if ret \<le> 0 then Some (Inr (ret, el1))
          else if el_error el1 then Some (Inr (-1, el1))
          else if el_exit el1 then Some (Inr (0, el1))
          else wldbg_run_loop ps sigint evs' el1)"
  by pat_completeness auto

termination
  by (relation "measure (\<lambda>(_, _, evs, _). length evs)") (auto dest: wldbg_dispatch_shorter)

declare wldbg_run_loop.simps [simp del]

definition wldbg_run :: "('g \<times> 'o) pass list \<Rightarrow> (('g, 'o) evloop \<Rightarrow> (int \<times> ('g, 'o) evloop) res option) \<Rightarrow>
    'o event list \<Rightarrow> ('g, 'o) evloop \<Rightarrow> (int \<times> ('g, 'o) evloop) res option" where
  "wldbg_run ps sigint evs el =
     (if el_exit el \<or> el_error el then Some (Inl AssertFailed)
      else map_option (\<lambda>r. rbind r (\<lambda>(ret, el'). Inr (ret, el'\<lparr>el_running := False\<rparr>)))
             (wldbg_run_loop ps sigint evs (el\<lparr>el_running := True\<rparr>)))"

end
