(* ===== verification/Process_Facts.thy ===== *)
theory Process_Facts
  imports Process
begin

text \<open>
  What the event loop needs to know of the way of a message: whatever happens, the connections keep
  their descriptors, and a fault is an access out of bounds or comes from a pass.
\<close>

section \<open>The descriptor of a connection stays\<close>

lemma flush_loop_fd: "flush_loop rs c = Some (Inr (ok, c', rs')) \<Longrightarrow> conn_fd c' = conn_fd c"
proof (induction rs c arbitrary: ok c' rs' rule: flush_loop.induct)
  case (1 rs c)
  show ?case
  proof (cases "wl_buffer_size (conn_out c) = 0")
    case True
    then show ?thesis using 1(2) by (subst (asm) flush_loop.simps) simp
  next
    case False
    obtain fds where f: "build_cmsg (fds_out c) = Inr fds"
      using 1(2) False by (subst (asm) flush_loop.simps) (auto simp: Let_def split: sum.splits)
    obtain r rs1 where r: "sendmsg_retry rs = Some (r, rs1)"
      using 1(2) False f by (subst (asm) flush_loop.simps) (auto simp: Let_def split: option.splits)
    show ?thesis
    proof (cases r)
      case None
      then show ?thesis using 1(2) False f r by (subst (asm) flush_loop.simps) (simp add: Let_def)
    next
      case (Some k)
      obtain cl fo where cl: "close_fds (fds_out c) (int MAX_FDS_OUT) = Inr (cl, fo)"
        using 1(2) False f r Some
        by (subst (asm) flush_loop.simps) (auto simp: Let_def split: sum.splits)
      show ?thesis
        using 1(1) [OF False refl refl f r refl Some cl refl refl] 1(2) False f r Some cl
        by (subst (asm) (2) flush_loop.simps) (simp add: Let_def)
    qed
  qed
qed

lemma flush_fd: "wl_connection_flush rs c = Some (Inr (r, c', rs')) \<Longrightarrow> conn_fd c' = conn_fd c"
  using flush_loop_fd [of rs c]
  by (auto simp: wl_connection_flush_def simp del: flush_loop.simps split: if_splits option.splits sum.splits)

lemma write_from_fd: "write_from rs c m = Some (Inr (r, c', rs')) \<Longrightarrow> conn_fd c' = conn_fd c"
  by (auto simp: write_from_def flush_if_def put_out_def rbind_eq_Inr Let_def dest!: flush_fd
      split: if_splits option.splits sum.splits)

lemma resend_fd: "resend rs c m = Some (Inr (r, c', rs')) \<Longrightarrow> conn_fd c' = conn_fd c"
  by (auto simp: resend_def dest!: flush_fd write_from_fd split: if_splits option.splits sum.splits)

lemma copy_fds_fd:
  "wl_connection_copy_fds rs c1 c2 = Some (Inr (r, c1', c2', rs')) \<Longrightarrow> conn_fd c1' = conn_fd c1 \<and> conn_fd c2' = conn_fd c2"
  by (auto simp: wl_connection_copy_fds_def rbind_eq_Inr Let_def dest!: flush_fd
      split: if_splits option.splits sum.splits)

lemma read_fd: "wl_connection_read rs c = Some (Inr (r, c', rs')) \<Longrightarrow> conn_fd c' = conn_fd c"
  by (auto simp: wl_connection_read_def rbind_eq_Inr Let_def
      split: if_splits option.splits recv_result.splits)

lemma one_by_one_fd:
  assumes "one_by_one_loop ps s = Some r"
  shows "\<forall>k t. r = Inr (k, t) \<longrightarrow> conn_fd (ls_out t) = conn_fd (ls_out s)"
proof (rule one_by_one_loop.raw_induct [where P = "\<lambda>_ s r. \<forall>k t. r = Inr (k, t) \<longrightarrow> conn_fd (ls_out t) = conn_fd (ls_out s)",
      OF _ assms], goal_cases)
  case (1 f ps s r)
  show ?case
  proof (intro allI impI)
    fix k t
    assume r: "r = Inr (k, t)"
    show "conn_fd (ls_out t) = conn_fd (ls_out s)"
    proof (cases "ls_rest s = 0")
      case True
      then show ?thesis using 1(2) r by simp
    next
      case rest: False
      obtain word where word: "load32 (msg_mem (ls_msg s)) (msg_off (ls_msg s) + 4) = Inr word"
        using 1(2) rest r by (auto split: sum.splits)
      obtain w m where p: "run_passes ps (ls_wldbg s) ((ls_msg s)\<lparr>msg_size := ucast (drop_bit 16 word)\<rparr>) = Inr (w, m)"
        using 1(2) rest r word by (auto split: sum.splits)
      show ?thesis
      proof (cases "w_exit w \<or> w_error w")
        case True
        then show ?thesis using 1(2) rest r word p by (auto split: if_splits)
      next
        case go: False
        obtain ret c rs where re: "resend (ls_script s) (ls_out s) m = Some (Inr (ret, c, rs))"
          using 1(2) rest r word p go by (auto split: sum.splits option.splits)
        have "conn_fd c = conn_fd (ls_out s)" using resend_fd [OF re] .
        moreover have "ret < 0 \<Longrightarrow> conn_fd (ls_out t) = conn_fd c"
          using 1(2) rest r word p go re by auto
        moreover have "\<not> ret < 0 \<Longrightarrow> f ps (s\<lparr>ls_wldbg := w, ls_msg := m\<lparr>msg_off := msg_off m + unat (msg_size m)\<rparr>,
          ls_rest := ls_rest s - msg_size m, ls_n := ls_n s + 1, ls_out := c, ls_script := rs\<rparr>) = Some r"
          using 1(2) rest word p go re by simp
        ultimately show ?thesis using 1(1) r by force
      qed
    qed
  qed
qed

lemma process_data_fd:
  assumes "process_data ps w rs buffer wc sd len = Some (Inr (r, w', wc', rs'))"
  shows "conn_fd (wc_server wc') = conn_fd (wc_server wc) \<and> conn_fd (wc_client wc') = conn_fd (wc_client wc)"
  using assms
  by (cases sd) (auto simp: process_data_def process_one_by_one_def set_ends_def end_of_def other_side_def
      wl_connection_consume_def Let_def dest!: one_by_one_fd copy_fds_fd resend_fd
      split: if_splits option.splits sum.splits)

lemma dispatch_messages_fd:
  assumes "dispatch_messages ps w recvs again rs buffer wc sd = Some (Inr (r, w', wc', rs'))"
  shows "conn_fd (wc_server wc') = conn_fd (wc_server wc) \<and> conn_fd (wc_client wc') = conn_fd (wc_client wc)"
  using assms
  by (cases sd) (auto simp: dispatch_messages_def set_ends_def end_of_def other_side_def Let_def
      dest!: process_data_fd read_fd split: if_splits option.splits sum.splits)

section \<open>How reading, writing and processing can fault\<close>

lemma memcpy_fault: "memcpy_to d off xs = Inl e \<Longrightarrow> e = OutOfBounds" "memcpy_from d off n = Inl e \<Longrightarrow> e = OutOfBounds"
  by (auto simp: memcpy_to_def memcpy_from_def split: if_splits)

lemma buffer_put_fault: "wl_buffer_put b xs = Inl e \<Longrightarrow> e = OutOfBounds"
  by (auto simp: wl_buffer_put_def rbind_eq_Inl Let_def dest: memcpy_fault split: if_splits)

lemma buffer_copy_fault: "wl_buffer_copy b n = Inl e \<Longrightarrow> e = OutOfBounds"
  by (auto simp: wl_buffer_copy_def rbind_eq_Inl Let_def dest: memcpy_fault split: if_splits)

lemma scatter_fault: "scatter d v xs = Inl e \<Longrightarrow> e = OutOfBounds"
  by (induction d v xs rule: scatter.induct) (auto simp: rbind_eq_Inl dest: memcpy_fault)

lemma close_fds_fault: "close_fds b mx = Inl e \<Longrightarrow> e = OutOfBounds"
  by (auto simp: close_fds_def rbind_eq_Inl Let_def dest: buffer_copy_fault split: if_splits)

lemma build_cmsg_fault: "build_cmsg b = Inl e \<Longrightarrow> e = OutOfBounds"
  by (auto simp: build_cmsg_def Let_def dest: buffer_copy_fault split: if_splits)

lemma decode_fault: "decode_cmsg_loop ms ov cl b = Inl e \<Longrightarrow> e = OutOfBounds"
  by (induction ms ov cl b rule: decode_cmsg_loop.induct)
     (auto simp: rbind_eq_Inl dest: buffer_put_fault split: if_splits)

lemma flush_loop_fault: "flush_loop rs c = Some (Inl e) \<Longrightarrow> e = OutOfBounds"
proof (induction rs c rule: flush_loop.induct)
  case (1 rs c)
  show ?case
  proof (cases "wl_buffer_size (conn_out c) = 0")
    case True
    then show ?thesis using 1(2) by (subst (asm) flush_loop.simps) simp
  next
    case False
    show ?thesis
    proof (cases "build_cmsg (fds_out c)")
      case (Inl f)
      then show ?thesis using 1(2) False build_cmsg_fault by (subst (asm) flush_loop.simps) (auto simp: Let_def)
    next
      case f: (Inr fds)
      obtain r rs1 where r: "sendmsg_retry rs = Some (r, rs1)"
        using 1(2) False f by (subst (asm) flush_loop.simps) (auto simp: Let_def split: option.splits)
      show ?thesis
      proof (cases r)
        case None
        then show ?thesis using 1(2) False f r by (subst (asm) flush_loop.simps) (simp add: Let_def)
      next
        case (Some k)
        show ?thesis
        proof (cases "close_fds (fds_out c) (int MAX_FDS_OUT)")
          case (Inl g)
          then show ?thesis using 1(2) False f r Some close_fds_fault
            by (subst (asm) flush_loop.simps) (auto simp: Let_def)
        next
          case (Inr p)
          obtain cl fo where cl: "close_fds (fds_out c) (int MAX_FDS_OUT) = Inr (cl, fo)" using Inr by (cases p) auto
          show ?thesis
            using 1(1) [OF False refl refl f r refl Some cl refl refl] 1(2) False f r Some cl
            by (subst (asm) (2) flush_loop.simps) (simp add: Let_def)
        qed
      qed
    qed
  qed
qed

lemma flush_fault: "wl_connection_flush rs c = Some (Inl e) \<Longrightarrow> e = OutOfBounds"
  using flush_loop_fault [of rs c]
  by (auto simp: wl_connection_flush_def simp del: flush_loop.simps split: if_splits option.splits sum.splits)

lemma write_from_fault: "write_from rs c m = Some (Inl e) \<Longrightarrow> e = OutOfBounds"
  by (auto simp: write_from_def flush_if_def put_out_def rbind_eq_Inl Let_def
      dest: flush_fault memcpy_fault buffer_put_fault split: if_splits option.splits sum.splits)

lemma resend_fault: "resend rs c m = Some (Inl e) \<Longrightarrow> e = OutOfBounds"
  by (auto simp: resend_def dest: flush_fault write_from_fault split: if_splits option.splits sum.splits)

lemma copy_fds_fault: "wl_connection_copy_fds rs c1 c2 = Some (Inl e) \<Longrightarrow> e = OutOfBounds"
  by (auto simp: wl_connection_copy_fds_def rbind_eq_Inl Let_def dest: flush_fault memcpy_fault buffer_put_fault
      split: if_splits option.splits sum.splits)

lemma read_fault: "wl_connection_read rs c = Some (Inl e) \<Longrightarrow> e = OutOfBounds"
  by (auto simp: wl_connection_read_def decode_cmsg_def rbind_eq_Inl Let_def dest: scatter_fault decode_fault
      split: if_splits option.splits recv_result.splits)

lemma destroy_fault: "wl_connection_destroy c = Inl e \<Longrightarrow> e = OutOfBounds"
  by (auto simp: wl_connection_destroy_def rbind_eq_Inl dest: close_fds_fault)

text \<open>A fault in the processing of messages is an access out of bounds or comes from a pass.\<close>

definition pass_faults :: "'s pass list \<Rightarrow> fault set" where
  "pass_faults ps = {e. \<exists>w m. run_passes ps w m = Inl e}"

lemma one_by_one_fault:
  assumes "one_by_one_loop ps s = Some r"
  shows "r = Inl e \<Longrightarrow> e = OutOfBounds \<or> e \<in> pass_faults ps"
proof -
  have "\<forall>e. r = Inl e \<longrightarrow> e = OutOfBounds \<or> e \<in> pass_faults ps"
  proof (rule one_by_one_loop.raw_induct
      [where P = "\<lambda>ps s r. \<forall>e. r = Inl e \<longrightarrow> e = OutOfBounds \<or> e \<in> pass_faults ps", OF _ assms], goal_cases)
    case (1 f ps s r)
    show ?case
    proof (intro allI impI)
      fix e
      assume r: "r = Inl e"
      then have rest: "ls_rest s \<noteq> 0" using 1(2) by auto
      show "e = OutOfBounds \<or> e \<in> pass_faults ps"
      proof (cases "load32 (msg_mem (ls_msg s)) (msg_off (ls_msg s) + 4)")
        case (Inl g)
        then have "g = OutOfBounds" by (auto simp: load32_def split: if_splits)
        then show ?thesis using 1(2) rest r Inl by simp
      next
        case word: (Inr word)
        show ?thesis
        proof (cases "run_passes ps (ls_wldbg s) ((ls_msg s)\<lparr>msg_size := ucast (drop_bit 16 word)\<rparr>)")
          case (Inl g)
          then show ?thesis using 1(2) rest r word by (auto simp: pass_faults_def)
        next
          case (Inr p)
          obtain w m where wm: "p = (w, m)" by fastforce
          have go: "\<not> w_exit w" "\<not> w_error w" using 1(2) rest r word Inr wm by (auto split: if_splits)
          show ?thesis
          proof (cases "resend (ls_script s) (ls_out s) m")
            case None
            then show ?thesis using 1(2) rest r word Inr wm go by simp
          next
            case re: (Some q)
            show ?thesis
            proof (cases q)
              case (Inl g)
              then have "g = OutOfBounds" using re resend_fault by blast
              then show ?thesis using 1(2) rest r word Inr wm go re Inl by simp
            next
              case q: (Inr t)
              obtain ret c rs where t: "t = (ret, c, rs)" by (cases t)
              have "\<not> ret < 0" using 1(2) rest r word Inr wm go re q t by auto
              then have "f ps (s\<lparr>ls_wldbg := w, ls_msg := m\<lparr>msg_off := msg_off m + unat (msg_size m)\<rparr>,
                  ls_rest := ls_rest s - msg_size m, ls_n := ls_n s + 1, ls_out := c, ls_script := rs\<rparr>) = Some r"
                using 1(2) rest word Inr wm go re q t by simp
              then show ?thesis using 1(1) r by blast
            qed
          qed
        qed
      qed
    qed
  qed
  then show "r = Inl e \<Longrightarrow> e = OutOfBounds \<or> e \<in> pass_faults ps" by blast
qed

lemma pass_faultsI: "run_passes ps w m = Inl e \<Longrightarrow> e \<in> pass_faults ps"
  by (auto simp: pass_faults_def)

lemma process_data_fault:
  assumes "process_data ps w rs buffer wc sd len = Some (Inl e)"
  shows "e = OutOfBounds \<or> e \<in> pass_faults ps"
  using assms
  by (auto simp: process_data_def process_one_by_one_def wl_connection_copy_def rbind_eq_Inl Let_def
      dest!: copy_fds_fault resend_fault buffer_copy_fault memcpy_fault pass_faultsI one_by_one_fault [OF _ refl]
      split: if_splits option.splits sum.splits)

lemma dispatch_messages_fault:
  assumes "dispatch_messages ps w recvs again rs buffer wc sd = Some (Inl e)"
  shows "e = OutOfBounds \<or> e \<in> pass_faults ps"
  using assms
  by (auto simp: dispatch_messages_def Let_def dest!: process_data_fault read_fault
      split: if_splits option.splits sum.splits)

end
