(* ===== verification/Event_Loop.thy ===== *)
theory Event_Loop
  imports Dispatch Process_Facts
begin

text \<open>
  The correctness of the event loop of theory \<open>Dispatch\<close>: an invariant that ties the kernel's
  interest list to the callbacks and the callbacks to the connections, its preservation by every
  handler and every turn, what a hang-up does, and what fails when the set-up of a connection fails.
\<close>

section \<open>The invariant of the loop\<close>

definition live_conn :: "'o conn \<Rightarrow> bool" where
  "live_conn c \<longleftrightarrow> (\<exists>s k. cn_server c = PLive s \<and> cn_client c = PLive k \<and>
     conn_fd s = cn_server_fd c \<and> conn_fd k = cn_client_fd c)"

text \<open>The callback that the kernel holds for a descriptor is allocated, is for that descriptor, and
  its connection is in the list.\<close>

definition entry_ok :: "callback list \<Rightarrow> 'o conn list \<Rightarrow> int \<Rightarrow> nat \<Rightarrow> bool" where
  "entry_ok ms cs fd a \<longleftrightarrow> (\<exists>cb \<in> set ms. cb_addr cb = a \<and> cb_fd cb = fd \<and>
     (\<forall>i. cb_handler cb = Dispatch_messages i \<longrightarrow>
        (\<exists>c \<in> set cs. cn_id c = i \<and> (fd = cn_server_fd c \<or> fd = cn_client_fd c))))"

definition el_wf :: "('g, 'o) evloop \<Rightarrow> bool" where
  "el_wf el \<longleftrightarrow>
     distinct (map fst (el_epoll el)) \<and> distinct (map cb_addr (el_monitored el)) \<and>
     (\<forall>cb \<in> set (el_monitored el). cb_addr cb < el_next el) \<and>
     (\<forall>(fd, a) \<in> set (el_epoll el). entry_ok (el_monitored el) (el_conns el) fd a) \<and>
     distinct (map cn_id (el_conns el)) \<and> (\<forall>c \<in> set (el_conns el). cn_id c < el_next el \<and> live_conn c) \<and>
     el_conns_num el = int (length (el_conns el))"

lemma el_wf_close: "el_wf el \<Longrightarrow> el_wf (el_close fd el)"
  by (auto simp: el_wf_def el_close_def distinct_map_filter)

lemma el_wf_other:
  "el_wf (el\<lparr>el_sys := s\<rparr>) = el_wf el" "el_wf (el\<lparr>el_sm := m\<rparr>) = el_wf el" "el_wf (el\<lparr>el_exit := b\<rparr>) = el_wf el"
  "el_wf (el\<lparr>el_killed := ks\<rparr>) = el_wf el" "el_wf (el\<lparr>el_running := b\<rparr>) = el_wf el"
  by (simp_all add: el_wf_def)

lemma el_wf_next: "el_wf el \<Longrightarrow> el_wf (el\<lparr>el_next := Suc (el_next el)\<rparr>)"
  by (auto simp: el_wf_def)

lemma find_by_key: "distinct (map f xs) \<Longrightarrow> x \<in> set xs \<Longrightarrow> find (\<lambda>y. f y = f x) xs = Some x"
  by (induction xs) force+

lemma length_filter_key: "distinct (map f xs) \<Longrightarrow> x \<in> set xs \<Longrightarrow>
    Suc (length (filter (\<lambda>y. f y \<noteq> f x) xs)) = length xs"
proof (induction xs)
  case (Cons y ys)
  show ?case
  proof (cases "f y = f x")
    case True
    then have "filter (\<lambda>z. f z \<noteq> f x) ys = ys" using Cons.prems(1) by (intro filter_True) (auto simp: image_iff)
    with True show ?thesis by simp
  next
    case False
    with Cons show ?thesis by auto
  qed
qed simp

text \<open>The callback behind a registered descriptor.\<close>

lemma registered_callback:
  assumes "el_wf el" "fd \<in> fst ` set (el_epoll el)"
  obtains a cb where "map_of (el_epoll el) fd = Some a" "find (\<lambda>cb. cb_addr cb = a) (el_monitored el) = Some cb"
    "cb \<in> set (el_monitored el)" "cb_fd cb = fd"
    "\<And>i. cb_handler cb = Dispatch_messages i \<Longrightarrow>
       \<exists>c \<in> set (el_conns el). cn_id c = i \<and> (fd = cn_server_fd c \<or> fd = cn_client_fd c)"
proof -
  obtain a where a: "(fd, a) \<in> set (el_epoll el)" using assms(2) by auto
  then have "map_of (el_epoll el) fd = Some a" using assms(1) by (simp add: el_wf_def)
  moreover obtain cb where cb: "cb \<in> set (el_monitored el)" "cb_addr cb = a" "cb_fd cb = fd"
    "\<And>i. cb_handler cb = Dispatch_messages i \<Longrightarrow>
       \<exists>c \<in> set (el_conns el). cn_id c = i \<and> (fd = cn_server_fd c \<or> fd = cn_client_fd c)"
    using assms(1) a by (fastforce simp: el_wf_def entry_ok_def)
  moreover have "find (\<lambda>c. cb_addr c = a) (el_monitored el) = Some cb"
    using find_by_key [of cb_addr "el_monitored el" cb] assms(1) cb by (simp add: el_wf_def)
  ultimately show ?thesis using that by blast
qed

text \<open>Removing a connection whose callback is registered.\<close>

lemma remove_connection_effect:
  assumes "el_wf el" "cb \<in> set (el_monitored el)" "cb_handler cb = Dispatch_messages i"
    "c \<in> set (el_conns el)" "cn_id c = i" "cb_fd cb = cn_server_fd c \<or> cb_fd cb = cn_client_fd c"
    "cb_fd cb \<in> fst ` set (el_epoll el)"
  shows "remove_connection cb el =
    rbind (case (cn_server c, cn_client c) of
             (PLive s, PLive k) \<Rightarrow> rbind (wl_connection_destroy s) (\<lambda>_. wl_connection_destroy k)
           | _ \<Rightarrow> Inl NullDeref) (\<lambda>_.
      Inr (el_conns_num el - 1,
        el\<lparr>el_conns := filter (\<lambda>d. cn_id d \<noteq> i) (el_conns el), el_conns_num := el_conns_num el - 1,
           el_monitored := filter (\<lambda>d. cb_addr d \<noteq> cb_addr cb) (el_monitored el),
           el_epoll := filter (\<lambda>(f, _). f \<noteq> cn_server_fd c \<and> f \<noteq> cn_client_fd c) (el_epoll el),
           el_sys := close_fd (cn_client_fd c) (close_fd (cn_server_fd c) (el_sys el))\<rparr>))"
proof -
  have f: "find (\<lambda>c. cn_id c = i) (el_conns el) = Some c"
    using find_by_key [of cn_id "el_conns el" c] assms(1,4,5) by (simp add: el_wf_def)
  have n: "1 \<le> el_conns_num el" using assms(1,4) by (cases "el_conns el") (auto simp: el_wf_def)
  obtain s k where l: "cn_server c = PLive s" "cn_client c = PLive k" "conn_fd s = cn_server_fd c" "conn_fd k = cn_client_fd c"
    using assms(1,4) by (auto simp: el_wf_def live_conn_def)
  have e: "filter (\<lambda>x. (case x of (f, _) \<Rightarrow> f \<noteq> cb_fd cb) \<and> (case x of (f, _) \<Rightarrow> f \<noteq> cn_server_fd c) \<and>
        (case x of (f, _) \<Rightarrow> f \<noteq> cn_client_fd c)) (el_epoll el) =
      filter (\<lambda>(f, _). f \<noteq> cn_server_fd c \<and> f \<noteq> cn_client_fd c) (el_epoll el)"
    using assms(6) by (intro filter_cong) auto
  show ?thesis
    using f n l assms(3,5,7) e
    by (simp add: remove_connection_def wldbg_remove_connection_def wldbg_remove_callback_def Let_def
        wldbg_connection_destroy_def destroy_wlc_def el_close_def rbind_assoc)
qed

lemma entry_ok_mono:
  "entry_ok ms cs fd a \<Longrightarrow> set ms \<subseteq> set ms' \<Longrightarrow> set cs \<subseteq> set cs' \<Longrightarrow> entry_ok ms' cs' fd a"
  unfolding entry_ok_def by blast

lemma remove_connection_wf:
  assumes "el_wf el" "cb \<in> set (el_monitored el)" "cb_handler cb = Dispatch_messages i"
    "c \<in> set (el_conns el)" "cn_id c = i" "cb_fd cb = cn_server_fd c \<or> cb_fd cb = cn_client_fd c"
    "cb_fd cb \<in> fst ` set (el_epoll el)" "remove_connection cb el = Inr (n, el')"
  shows "el_wf el' \<and> n = int (length (el_conns el'))"
proof -
  let ?cs = "filter (\<lambda>d. cn_id d \<noteq> i) (el_conns el)"
  let ?ms = "filter (\<lambda>d. cb_addr d \<noteq> cb_addr cb) (el_monitored el)"
  let ?ep = "filter (\<lambda>(f, _). f \<noteq> cn_server_fd c \<and> f \<noteq> cn_client_fd c) (el_epoll el)"
  have el': "n = el_conns_num el - 1" "el_conns el' = ?cs" "el_conns_num el' = el_conns_num el - 1"
    "el_monitored el' = ?ms" "el_epoll el' = ?ep" "el_next el' = el_next el"
    using assms(8) remove_connection_effect [OF assms(1-7)] by (auto simp: rbind_eq_Inr)
  have len: "el_conns_num el - 1 = int (length ?cs)"
    using length_filter_key [of cn_id "el_conns el" c] assms(1,4,5) by (simp add: el_wf_def)
  have "entry_ok ?ms ?cs fd a" if in_ep: "(fd, a) \<in> set ?ep" for fd a
  proof -
    have m: "(fd, a) \<in> set (el_epoll el)" "fd \<noteq> cn_server_fd c" "fd \<noteq> cn_client_fd c" using in_ep by auto
    then obtain d where d: "d \<in> set (el_monitored el)" "cb_addr d = a" "cb_fd d = fd"
      "\<forall>j. cb_handler d = Dispatch_messages j \<longrightarrow>
        (\<exists>x \<in> set (el_conns el). cn_id x = j \<and> (fd = cn_server_fd x \<or> fd = cn_client_fd x))"
      using assms(1) by (fastforce simp: el_wf_def entry_ok_def)
    have "cb_addr d \<noteq> cb_addr cb"
    proof
      assume "cb_addr d = cb_addr cb"
      then have "d = cb" using assms(1,2) d(1) by (auto simp: el_wf_def distinct_map dest: inj_onD)
      then show False using m d(3) assms(6) by auto
    qed
    then have in_ms: "d \<in> set ?ms" using d(1) by simp
    have keep: "x \<in> set ?cs" if "x \<in> set (el_conns el)" "fd = cn_server_fd x \<or> fd = cn_client_fd x" for x
    proof -
      have "cn_id x \<noteq> cn_id c"
      proof
        assume "cn_id x = cn_id c"
        then have "x = c" using assms(1,4) that(1) by (auto simp: el_wf_def distinct_map dest: inj_onD)
        then show False using that(2) m by auto
      qed
      then show ?thesis using that(1) assms(5) by simp
    qed
    show ?thesis using in_ms keep d unfolding entry_ok_def by blast
  qed
  then show ?thesis using el' len assms(1)
    by (auto simp: el_wf_def distinct_map_filter)
qed

section \<open>Handlers keep the invariant\<close>

lemma find_conn: "el_wf el \<Longrightarrow> c \<in> set (el_conns el) \<Longrightarrow> find (\<lambda>d. cn_id d = cn_id c) (el_conns el) = Some c"
  by (simp add: el_wf_def find_by_key)

lemma map_update_conn: "f c = f c0 \<Longrightarrow> \<forall>d \<in> set cs. cn_id d = cn_id c \<longrightarrow> d = c0 \<Longrightarrow> map f (update_conn c cs) = map f cs"
  by (induction cs) (auto simp: update_conn_def)

lemma set_update_conn: "set (update_conn c cs) \<subseteq> insert c (set cs)"
  by (auto simp: update_conn_def)

lemma update_conn_mem: "d \<in> set cs \<Longrightarrow> (if cn_id d = cn_id c then c else d) \<in> set (update_conn c cs)"
  by (auto simp: update_conn_def)

lemma dispatch_fd_effect:
  assumes "el_wf el" "c \<in> set (el_conns el)" "dispatch_fd ps hp fd (cn_id c) el = Some (Inr (r, el'))"
  shows "el_wf el'" "el_epoll el' = el_epoll el" "el_monitored el' = el_monitored el"
    "\<exists>c' \<in> set (el_conns el'). cn_id c' = cn_id c \<and> cn_server_fd c' = cn_server_fd c \<and> cn_client_fd c' = cn_client_fd c"
proof -
  obtain s k where l: "cn_server c = PLive s" "cn_client c = PLive k" "conn_fd s = cn_server_fd c" "conn_fd k = cn_client_fd c"
    using assms(1,2) by (auto simp: el_wf_def live_conn_def)
  obtain w ret w' wc rs where disp: "dispatch_messages ps w (hp_recv hp) (hp_again hp) (hp_send hp) (hp_buffer hp)
      \<lparr>wc_server = s, wc_client = k\<rparr> (if fd = cn_client_fd c then CLIENT else SERVER) = Some (Inr (ret, w', wc, rs))"
    and el': "el' = el\<lparr>el_exit := w_exit w', el_error := w_error w',
        el_pass_whole_buffer := w_pass_whole_buffer w', el_global := fst (w_state w'),
        el_conns := update_conn (c\<lparr>cn_server := PLive (wc_server wc), cn_client := PLive (wc_client wc),
                                   cn_objects := snd (w_state w')\<rparr>) (el_conns el)\<rparr>"
    using assms(3) by (auto simp: dispatch_fd_def find_conn [OF assms(1,2)] l(1,2) rbind_eq_Inr)
  let ?c = "c\<lparr>cn_server := PLive (wc_server wc), cn_client := PLive (wc_client wc), cn_objects := snd (w_state w')\<rparr>"
  have live: "live_conn ?c"
    using dispatch_messages_fd [OF disp] l by (simp add: live_conn_def)
  have uniq: "\<forall>d \<in> set (el_conns el). cn_id d = cn_id ?c \<longrightarrow> d = c"
    using assms(1,2) by (auto simp: el_wf_def distinct_map dest: inj_onD)
  have ids: "map cn_id (update_conn ?c (el_conns el)) = map cn_id (el_conns el)"
    by (rule map_update_conn [where ?c0.0 = c]) (use uniq in simp_all)
  have len: "length (update_conn ?c (el_conns el)) = length (el_conns el)" by (simp add: update_conn_def)
  have ok: "entry_ok ms (update_conn ?c (el_conns el)) f a" if "entry_ok ms (el_conns el) f a" for ms f a
  proof -
    have "\<exists>x \<in> set (update_conn ?c (el_conns el)). cn_id x = i \<and> (f = cn_server_fd x \<or> f = cn_client_fd x)"
      if "\<exists>x \<in> set (el_conns el). cn_id x = i \<and> (f = cn_server_fd x \<or> f = cn_client_fd x)" for i
    proof -
      from that obtain x where x: "x \<in> set (el_conns el)" "cn_id x = i" "f = cn_server_fd x \<or> f = cn_client_fd x" by blast
      show ?thesis
      proof (cases "cn_id x = cn_id ?c")
        case True
        then have "x = c" using uniq x(1) by blast
        then show ?thesis using update_conn_mem [OF x(1), of ?c] x True by (intro bexI [of _ ?c]) simp_all
      next
        case False
        then show ?thesis using update_conn_mem [OF x(1), of ?c] x by (intro bexI [of _ x]) simp_all
      qed
    qed
    with that show ?thesis unfolding entry_ok_def by blast
  qed
  have sub: "cn_id x < el_next el \<and> live_conn x" if "x \<in> set (update_conn ?c (el_conns el))" for x
    using set_update_conn [of ?c "el_conns el"] that live assms(1,2) by (auto simp: el_wf_def)
  show "el_wf el'" using assms(1) ids len ok sub by (auto simp: el_wf_def el')
  show "el_epoll el' = el_epoll el" "el_monitored el' = el_monitored el" by (simp_all add: el')
  show "\<exists>c' \<in> set (el_conns el'). cn_id c' = cn_id c \<and> cn_server_fd c' = cn_server_fd c \<and> cn_client_fd c' = cn_client_fd c"
    using update_conn_mem [OF assms(2), of ?c] by (intro bexI [of _ ?c]) (simp_all add: el')
qed

text \<open>Monitoring a descriptor for a connection, and entering that connection afterwards.\<close>

lemma monitor_cases:
  obtains (no) "wldbg_monitor_fd m k fd h el = (None, el)"
  | (yes) "fd \<notin> fst ` set (el_epoll el)" "wldbg_monitor_fd m k fd h el =
      (Some (el_next el), el\<lparr>el_epoll := (fd, el_next el) # el_epoll el,
           el_monitored := \<lparr>cb_addr = el_next el, cb_fd = fd, cb_handler = h\<rparr> # el_monitored el,
           el_next := el_next el + 1\<rparr>)"
proof (cases "m \<and> k \<and> fd \<notin> fst ` set (el_epoll el)")
  case True
  then show ?thesis by (intro yes) (simp_all add: wldbg_monitor_fd_def)
next
  case False
  then show ?thesis by (intro no) (auto simp: wldbg_monitor_fd_def)
qed

text \<open>\<open>el_wf\<close> while the connection \<open>c\<close> is being made.\<close>

definition making :: "'o conn \<Rightarrow> ('g, 'o) evloop \<Rightarrow> bool" where
  "making c el \<longleftrightarrow> el_wf (el\<lparr>el_conns := c # el_conns el, el_conns_num := el_conns_num el + 1\<rparr>)"

lemma el_wf_cong:
  "el_epoll a = el_epoll b \<Longrightarrow> el_monitored a = el_monitored b \<Longrightarrow> el_next a = el_next b \<Longrightarrow> el_conns a = el_conns b \<Longrightarrow>
    el_conns_num a = el_conns_num b \<Longrightarrow> el_wf a = el_wf b"
  by (simp add: el_wf_def)

lemma el_wfD:
  assumes "el_wf el"
  shows "distinct (map fst (el_epoll el))" "distinct (map cb_addr (el_monitored el))"
    "\<forall>cb \<in> set (el_monitored el). cb_addr cb < el_next el"
    "(fd, a) \<in> set (el_epoll el) \<Longrightarrow> entry_ok (el_monitored el) (el_conns el) fd a"
    "distinct (map cn_id (el_conns el))" "\<forall>c \<in> set (el_conns el). cn_id c < el_next el \<and> live_conn c"
    "el_conns_num el = int (length (el_conns el))"
  using assms by (auto simp: el_wf_def)

lemma monitor_wf:
  assumes "el_wf el" "fd \<notin> fst ` set (el_epoll el)"
    and "\<And>i. h = Dispatch_messages i \<Longrightarrow> \<exists>c \<in> set (el_conns el). cn_id c = i \<and> (fd = cn_server_fd c \<or> fd = cn_client_fd c)"
  shows "el_wf (el\<lparr>el_epoll := (fd, el_next el) # el_epoll el,
     el_monitored := \<lparr>cb_addr = el_next el, cb_fd = fd, cb_handler = h\<rparr> # el_monitored el, el_next := el_next el + 1\<rparr>)"
proof -
  let ?cb = "\<lparr>cb_addr = el_next el, cb_fd = fd, cb_handler = h\<rparr>"
  have "entry_ok (?cb # el_monitored el) (el_conns el) fd (el_next el)"
    using assms(3) by (auto simp: entry_ok_def)
  moreover have "entry_ok (?cb # el_monitored el) (el_conns el) f a" if "(f, a) \<in> set (el_epoll el)" for f a
    using el_wfD(4) [OF assms(1) that] by (rule entry_ok_mono) auto
  ultimately have ep: "\<forall>(f, a) \<in> set ((fd, el_next el) # el_epoll el). entry_ok (?cb # el_monitored el) (el_conns el) f a"
    by auto
  have "el_next el \<notin> cb_addr ` set (el_monitored el)" using el_wfD(3) [OF assms(1)] by auto
  then have d: "distinct (map cb_addr (?cb # el_monitored el))" using assms(1) by (simp add: el_wf_def)
  have df: "distinct (map fst ((fd, el_next el) # el_epoll el))" using assms(1,2) by (simp add: el_wf_def)
  have less: "\<forall>cb \<in> set (?cb # el_monitored el). cb_addr cb < el_next el + 1"
    "\<forall>c \<in> set (el_conns el). cn_id c < el_next el + 1 \<and> live_conn c"
    using el_wfD(3,6) [OF assms(1)] by force+
  have rest: "distinct (map cn_id (el_conns el))" "el_conns_num el = int (length (el_conns el))"
    using assms(1) by (simp_all add: el_wf_def)
  show ?thesis unfolding el_wf_def using ep d df less rest
    by (simp del: set_simps list.map distinct.simps cong: conj_cong) 
qed

lemma connect_server_fd:
  "connect_to_wayland_server e m d st = (fd, (sfd, sc, pid), st') \<Longrightarrow> \<not> fd < 0 \<Longrightarrow> sfd = fd \<and> sc = Some (wl_connection_create fd)"
  by (auto simp: connect_to_wayland_server_def Let_def split: prod.splits if_splits)

text \<open>A new connection is complete but for its client side.\<close>

lemma create_effect:
  assumes "el_wf el" "wldbg_connection_create cs nothing el = Inr (co, el')"
  shows "(co = None \<longrightarrow> el_wf el') \<and>
    (\<forall>c. co = Some c \<longrightarrow> cn_id c \<notin> cn_id ` set (el_conns el) \<and> el_conns el' = el_conns el \<and>
      el_conns_num el' = el_conns_num el \<and> cn_server c = PLive (wl_connection_create (cn_server_fd c)) \<and> cn_client c = PNull \<and>
      (\<forall>k. making (c\<lparr>cn_client := PLive k, cn_client_fd := conn_fd k\<rparr>) el'))"
proof -
  let ?el1 = "el\<lparr>el_next := Suc (el_next el)\<rparr>"
  have wf1: "el_wf (?el1\<lparr>el_sys := y\<rparr>)" for y using el_wf_next [OF assms(1)] by (simp add: el_wf_other)
  show ?thesis
  proof (cases "\<not> cs_calloc cs \<or> (el_resolving el \<and> cs_objects cs = None) \<or> (el_gathering el \<and> \<not> cs_info_ok cs)")
    case True
    then have "wldbg_connection_create cs nothing el = Inr (None, el)"
      by (elim disjE) (simp_all add: wldbg_connection_create_def)
    then show ?thesis using assms by simp
  next
    case False
    define objs where "objs = (if el_resolving el then the (cs_objects cs) else nothing)"
    have c: "cs_calloc cs" "(el_resolving el \<and> cs_objects cs = None) = False"
      "(el_gathering el \<and> \<not> cs_info_ok cs) = False" using False by auto
    obtain nm where nm: "server_socket_name el = Inr nm"
      using assms(2) False by (cases "server_socket_name el") (auto simp: wldbg_connection_create_def)
    obtain fd sfd sc pid y where conn:
      "connect_to_wayland_server (cs_env cs) (cs_server_malloc cs) nm (el_sys el) = (fd, (sfd, sc, pid), y)"
      by (metis prod.collapse)
    have res: "(if fd < 0 then Inr (None, ?el1\<lparr>el_sys := y\<rparr>)
        else (case wldbg_monitor_fd (fst (cs_server_monitor cs)) (snd (cs_server_monitor cs)) sfd
                (Dispatch_messages (el_next el)) (?el1\<lparr>el_sys := y\<rparr>) of
                (None, el3) \<Rightarrow> Inr (None, el_close fd el3)
              | (Some _, el3) \<Rightarrow>
                  Inr (Some \<lparr>cn_id = el_next el, cn_server_fd = sfd,
                             cn_server = (case sc of None \<Rightarrow> PNull | Some c \<Rightarrow> PLive c),
                             cn_client_fd = 0, cn_client = PNull, cn_client_pid = 0, cn_program = None,
                             cn_objects = objs\<rparr>, el3))) = (Inr (co, el') :: ('b conn option \<times> ('a, 'b) evloop) res)"
      using assms(2) c nm conn by (simp add: wldbg_connection_create_def Let_def flip: objs_def)
    show ?thesis
    proof (cases "fd < 0")
      case True
      then show ?thesis using res wf1 by auto
    next
      case pos: False
      have sfd: "sfd = fd" "sc = Some (wl_connection_create fd)" using connect_server_fd [OF conn pos] by simp_all
      let ?el2 = "?el1\<lparr>el_sys := y\<rparr>"
      show ?thesis
      proof (cases rule: monitor_cases [of "fst (cs_server_monitor cs)" "snd (cs_server_monitor cs)" sfd
              "Dispatch_messages (el_next el)" ?el2])
        case no
        then show ?thesis using res pos wf1 el_wf_close by auto
      next
        case yes
        let ?c = "\<lparr>cn_id = el_next el, cn_server_fd = fd, cn_server = PLive (wl_connection_create fd),
                   cn_client_fd = 0, cn_client = PNull, cn_client_pid = 0, cn_program = None, cn_objects = objs\<rparr>"
        let ?cb = "\<lparr>cb_addr = el_next ?el2, cb_fd = fd, cb_handler = Dispatch_messages (el_next el)\<rparr>"
        have co: "co = Some ?c" "el' = ?el2\<lparr>el_epoll := (fd, el_next ?el2) # el_epoll ?el2,
            el_monitored := ?cb # el_monitored ?el2, el_next := el_next ?el2 + 1\<rparr>"
          using res pos yes(2) sfd by auto
        have new: "el_next el \<notin> cn_id ` set (el_conns el)" using assms(1) by (auto simp: el_wf_def)
        have mk: "making (?c\<lparr>cn_client := PLive k, cn_client_fd := conn_fd k\<rparr>) el'" for k
        proof -
          let ?d = "?c\<lparr>cn_client := PLive k, cn_client_fd := conn_fd k\<rparr>"
          let ?e = "?el2\<lparr>el_conns := ?d # el_conns el, el_conns_num := el_conns_num el + 1\<rparr>"
          have "live_conn ?d" by (simp add: live_conn_def wl_connection_create_def)
          moreover have "entry_ok (el_monitored el) (?d # el_conns el) f a" if "(f, a) \<in> set (el_epoll el)" for f a
            using el_wfD(4) [OF assms(1) that] by (rule entry_ok_mono) auto
          ultimately have "el_wf ?e" using assms(1) new by (auto simp: el_wf_def less_Suc_eq image_iff)
          from monitor_wf [OF this, of fd "Dispatch_messages (el_next el)"] yes(1) sfd(1)
          show ?thesis unfolding making_def co(2) by (auto elim!: el_wf_cong [THEN iffD1, rotated -1])
        qed
        show ?thesis using co new mk by (auto simp: wl_connection_create_def)
      qed
    qed
  qed
qed

lemma making_cong:
  assumes "making c el" "cn_id d = cn_id c" "cn_server_fd d = cn_server_fd c" "cn_client_fd d = cn_client_fd c"
    "cn_server d = cn_server c" "cn_client d = cn_client c"
  shows "making d el"
  using assms by (auto simp: making_def el_wf_def live_conn_def entry_ok_def split: prod.splits)

lemma client_effect:
  assumes "\<And>k. making (c\<lparr>cn_client := PLive k, cn_client_fd := conn_fd k\<rparr>) el"
    and "create_client_connection_for_fd cs c fd el = Inr (r, c', el')"
  shows "r < 0 \<Longrightarrow> cn_server c' = cn_server c \<and> cn_client c' \<in> {cn_client c, PFreed}"
    and "\<not> r < 0 \<Longrightarrow> making c' el'"
proof -
  show "cn_server c' = cn_server c \<and> cn_client c' \<in> {cn_client c, PFreed}" if "r < 0"
    using that assms(2) by (auto simp: create_client_connection_for_fd_def rbind_eq_Inr Let_def
        split: if_splits prod.splits option.splits)
  let ?k = "wl_connection_create fd"
  have k: "conn_fd ?k = fd" by (simp add: wl_connection_create_def)
  let ?d = "c\<lparr>cn_client := PLive ?k, cn_client_fd := fd\<rparr>"
  have mk: "making ?d el" using assms(1) [of ?k] k by simp
  show "making c' el'" if "\<not> r < 0"
  proof (cases rule: monitor_cases [of "fst (cs_client_monitor cs)" "snd (cs_client_monitor cs)" fd "Dispatch_messages (cn_id c)" el])
    case no
    then show ?thesis using that assms(2)
      by (auto simp: create_client_connection_for_fd_def rbind_eq_Inr Let_def split: if_splits)
  next
    case yes
    let ?el = "el\<lparr>el_epoll := (fd, el_next el) # el_epoll el,
        el_monitored := \<lparr>cb_addr = el_next el, cb_fd = fd, cb_handler = Dispatch_messages (cn_id c)\<rparr> # el_monitored el,
        el_next := el_next el + 1\<rparr>"
    have c': "cn_id c' = cn_id ?d" "cn_server_fd c' = cn_server_fd ?d" "cn_client_fd c' = cn_client_fd ?d"
      "cn_server c' = cn_server ?d" "cn_client c' = cn_client ?d" "el' = ?el"
      using that assms(2) yes(2)
      by (auto simp: create_client_connection_for_fd_def rbind_eq_Inr Let_def split: if_splits)
    let ?e = "el\<lparr>el_conns := ?d # el_conns el, el_conns_num := el_conns_num el + 1\<rparr>"
    have "making ?d ?el"
      unfolding making_def
      by (rule el_wf_cong [THEN iffD1, OF _ _ _ _ _ monitor_wf [of ?e fd "Dispatch_messages (cn_id c)"]])
         (use mk yes(1) in \<open>simp_all add: making_def\<close>)
    then show ?thesis using c' making_cong by blast
  qed
qed

lemma making_add: "making c el \<Longrightarrow> wldbg_add_connection c el = Inr (n, el') \<Longrightarrow> el_wf el'"
  by (auto simp: making_def wldbg_add_connection_def rbind_eq_Inr)

lemma making_sm [simp]: "making c (el\<lparr>el_sm := m\<rparr>) = making c el"
  unfolding making_def by (rule el_wf_cong) simp_all

lemma accept_wf:
  assumes "el_wf el" "server_mode_accept cs nothing fd el = Inr (r, el')"
  shows "el_wf el'"
proof (cases "fd < 0")
  case True
  then show ?thesis using assms by (simp add: server_mode_accept_def)
next
  case False
  obtain co el1 where cr: "wldbg_connection_create cs nothing el = Inr (co, el1)"
    using assms(2) False by (auto simp: server_mode_accept_def rbind_eq_Inr)
  note eff = create_effect [OF assms(1) cr]
  show ?thesis
  proof (cases co)
    case None
    then show ?thesis using assms(2) False cr eff el_wf_close by (auto simp: server_mode_accept_def)
  next
    case (Some c)
    obtain k c1 el2 where cl: "create_client_connection_for_fd cs c fd el1 = Inr (k, c1, el2)"
      using assms(2) False cr Some by (auto simp: server_mode_accept_def rbind_eq_Inr)
    have mk: "making (c\<lparr>cn_client := PLive k, cn_client_fd := conn_fd k\<rparr>) el1" for k using eff Some by blast
    show ?thesis
    proof (cases "k < 0")
      case True
      have "cn_client c1 \<in> {PNull, PFreed}" using client_effect(1) [OF mk cl True] eff Some by auto
      then show ?thesis using assms(2) False cr Some cl True
        by (auto simp: server_mode_accept_def rbind_eq_Inr wldbg_connection_destroy_def destroy_wlc_def)
    next
      case k: False
      have "making c1 el2" by (rule client_effect(2) [OF mk cl k])
      then show ?thesis using assms(2) False cr Some cl k
        by (auto simp: server_mode_accept_def rbind_eq_Inr dest: making_add [rotated] split: option.splits if_split_asm)
    qed
  qed
qed

lemma signals_wf: "el_wf el \<Longrightarrow> dispatch_signals si el = Inr (r, el') \<Longrightarrow> el_wf el'"
  by (auto simp: dispatch_signals_def el_wf_def split: option.splits signal.splits)

section \<open>One turn of the loop\<close>

text \<open>A callback found for an event, with what the invariant says of it.\<close>

lemma dispatched_callback:
  assumes "el_wf el" "epoll_wait el evs = Some (Ready fd hup err hp, evs')" "\<not> el_exit el" "\<not> el_error el"
  obtains cb where "cb \<in> set (el_monitored el)" "cb_fd cb = fd" "fd \<in> fst ` set (el_epoll el)"
    "\<And>i. cb_handler cb = Dispatch_messages i \<Longrightarrow>
       \<exists>c \<in> set (el_conns el). cn_id c = i \<and> (fd = cn_server_fd c \<or> fd = cn_client_fd c)"
    "wldbg_dispatch ps sigint evs el = (let with_rest = map_sum id (\<lambda>(r, el). (r, el, evs')) in
       if hup then Some (with_rest (remove_connection cb el))
       else if err then Some (Inr (-1, el, evs'))
       else
         (case dispatch_cb ps sigint hp cb el of
            None \<Rightarrow> None
          | Some (Inl f) \<Rightarrow> Some (Inl f)
          | Some (Inr (ret, el1)) \<Rightarrow>
              if ret \<le> 0 then Some (with_rest (remove_connection cb el1))
              else Some (Inr (ret, el1, evs'))))"
proof -
  have reg: "fd \<in> fst ` set (el_epoll el)"
    using assms(2) by (induction el evs rule: epoll_wait.induct) (auto split: if_splits)
  obtain a cb where cb: "map_of (el_epoll el) fd = Some a" "find (\<lambda>cb. cb_addr cb = a) (el_monitored el) = Some cb"
    "cb \<in> set (el_monitored el)" "cb_fd cb = fd"
    "\<And>i. cb_handler cb = Dispatch_messages i \<Longrightarrow>
       \<exists>c \<in> set (el_conns el). cn_id c = i \<and> (fd = cn_server_fd c \<or> fd = cn_client_fd c)"
    using registered_callback [OF assms(1) reg] by blast
  show ?thesis
    using that [OF cb(3,4) reg cb(5)] assms(2-4) cb(1,2) by (simp add: wldbg_dispatch_def)
qed

text \<open>The state in which a connection can be removed on behalf of a callback.\<close>

definition removable :: "callback \<Rightarrow> ('g, 'o) evloop \<Rightarrow> bool" where
  "removable cb el \<longleftrightarrow> el_wf el \<and>
     (\<forall>i. cb_handler cb = Dispatch_messages i \<longrightarrow>
        cb \<in> set (el_monitored el) \<and> cb_fd cb \<in> fst ` set (el_epoll el) \<and>
        (\<exists>c \<in> set (el_conns el). cn_id c = i \<and> (cb_fd cb = cn_server_fd c \<or> cb_fd cb = cn_client_fd c)))"

lemma removable_inv: "removable cb el \<Longrightarrow> el_wf el"
  by (simp add: removable_def)

lemma removable_wf: "removable cb el \<Longrightarrow> remove_connection cb el = Inr (n, el') \<Longrightarrow> el_wf el'"
  by (cases "cb_handler cb") (auto simp: removable_def remove_connection_def dest: remove_connection_wf)

lemma removable_fault:
  assumes "removable cb el" "remove_connection cb el = Inl e"
  shows "e = (case cb_handler cb of Dispatch_messages _ \<Rightarrow> OutOfBounds | _ \<Rightarrow> TypeConfusion)"
proof (cases "cb_handler cb")
  case (Dispatch_messages i)
  obtain c where c: "c \<in> set (el_conns el)" "cn_id c = i" "cb_fd cb = cn_server_fd c \<or> cb_fd cb = cn_client_fd c"
    using assms(1) Dispatch_messages by (auto simp: removable_def)
  then obtain s k where l: "cn_server c = PLive s" "cn_client c = PLive k"
    using assms(1) by (auto simp: removable_def el_wf_def live_conn_def)
  have "el_wf el" "cb \<in> set (el_monitored el)" "cb_fd cb \<in> fst ` set (el_epoll el)"
    using assms(1) Dispatch_messages by (auto simp: removable_def)
  note eff = remove_connection_effect [OF this(1,2) Dispatch_messages c this(3)]
  show ?thesis
    using assms(2) [unfolded eff] l Dispatch_messages by (auto simp: rbind_eq_Inl dest!: destroy_fault)
qed (use assms in \<open>simp_all add: remove_connection_def\<close>)

text \<open>What interactive mode's handler of \<open>SIGINT\<close> may change: the flags and the state of the passes.\<close>

definition sigint_ok :: "(('g, 'o) evloop \<Rightarrow> (int \<times> ('g, 'o) evloop) res option) \<Rightarrow> bool" where
  "sigint_ok sigint \<longleftrightarrow> (\<forall>el. sigint el \<noteq> Some (Inl UseAfterFree) \<and>
     (\<forall>r el'. sigint el = Some (Inr (r, el')) \<longrightarrow>
        (\<exists>x e w g. el' = el\<lparr>el_exit := x, el_error := e, el_pass_whole_buffer := w, el_global := g\<rparr>)))"

lemma sigint_frame:
  assumes "sigint_ok sigint" "sigint el = Some (Inr (r, el'))"
  shows "el_wf el' = el_wf el" "el_monitored el' = el_monitored el"
proof -
  obtain x e w g where "el' = el\<lparr>el_exit := x, el_error := e, el_pass_whole_buffer := w, el_global := g\<rparr>"
    using assms unfolding sigint_ok_def by blast
  then show "el_wf el' = el_wf el" "el_monitored el' = el_monitored el" by (simp_all add: el_wf_def)
qed

lemma dispatch_cb_removable:
  assumes "removable cb el" "sigint_ok sigint" "dispatch_cb ps sigint hp cb el = Some (Inr (ret, el1))"
  shows "removable cb el1"
proof (cases "cb_handler cb")
  case (Dispatch_messages i)
  then obtain c where c: "c \<in> set (el_conns el)" "cn_id c = i" "cb_fd cb = cn_server_fd c \<or> cb_fd cb = cn_client_fd c"
    using assms(1) by (auto simp: removable_def)
  have d: "dispatch_fd ps hp (cb_fd cb) (cn_id c) el = Some (Inr (ret, el1))"
    using assms(3) Dispatch_messages c(2) by (simp add: dispatch_cb_def)
  have wf: "el_wf el" using assms(1) by (simp add: removable_def)
  show ?thesis
    using dispatch_fd_effect [OF wf c(1) d] assms(1) Dispatch_messages c by (auto simp: removable_def)
qed (use assms in \<open>auto simp: removable_def dispatch_cb_def dest: signals_wf accept_wf sigint_frame(1)\<close>)

lemma dispatch_cb_fault:
  assumes "removable cb el" "sigint_ok sigint" "cb_handler cb \<noteq> Server_mode_accept" "UseAfterFree \<notin> pass_faults ps"
  shows "dispatch_cb ps sigint hp cb el \<noteq> Some (Inl UseAfterFree)"
proof (cases "cb_handler cb")
  case (Dispatch_messages i)
  then obtain c where c: "c \<in> set (el_conns el)" "cn_id c = i" using assms(1) by (auto simp: removable_def)
  have wf: "el_wf el" using assms(1) by (simp add: removable_def)
  obtain s k where l: "cn_server c = PLive s" "cn_client c = PLive k" using wf c(1) by (auto simp: el_wf_def live_conn_def)
  show ?thesis
    using assms(4) find_conn [OF wf c(1)] c(2) l Dispatch_messages
    by (auto simp: dispatch_cb_def dispatch_fd_def Let_def rbind_eq_Inl dest!: dispatch_messages_fault)
qed (use assms in \<open>auto simp: dispatch_cb_def dispatch_signals_def sigint_ok_def split: option.splits signal.splits\<close>)

text \<open>How one turn can end.\<close>

lemma dispatch_cases:
  assumes "el_wf el" "sigint_ok sigint" "wldbg_dispatch ps sigint evs el = Some (Inr (ret, el', evs'))"
  obtains (idle) "el' = el"
  | (hup) cb where "cb \<in> set (el_monitored el)" "removable cb el" "remove_connection cb el = Inr (ret, el')"
  | (kept) cb hp where "cb \<in> set (el_monitored el)" "removable cb el" "dispatch_cb ps sigint hp cb el = Some (Inr (ret, el'))"
  | (dropped) cb hp r el1 where "cb \<in> set (el_monitored el)" "removable cb el"
      "dispatch_cb ps sigint hp cb el = Some (Inr (r, el1))" "r \<le> 0" "remove_connection cb el1 = Inr (ret, el')"
proof -
  have run: "\<not> el_exit el" "\<not> el_error el" using assms(3) by (auto simp: wldbg_dispatch_def)
  obtain ev evs1 where w: "epoll_wait el evs = Some (ev, evs1)"
    using assms(3) run by (auto simp: wldbg_dispatch_def split: option.splits)
  show ?thesis
  proof (cases ev)
    case (Epoll_error b)
    then show ?thesis using idle assms w run by (simp add: wldbg_dispatch_def)
  next
    case (Ready fd hup err hp)
    obtain cb where cb: "cb \<in> set (el_monitored el)" "cb_fd cb = fd" "fd \<in> fst ` set (el_epoll el)"
      "\<And>i. cb_handler cb = Dispatch_messages i \<Longrightarrow>
       \<exists>c \<in> set (el_conns el). cn_id c = i \<and> (fd = cn_server_fd c \<or> fd = cn_client_fd c)"
      and eq: "wldbg_dispatch ps sigint evs el = (let with_rest = map_sum id (\<lambda>(r, el). (r, el, evs1)) in
       if hup then Some (with_rest (remove_connection cb el))
       else if err then Some (Inr (-1, el, evs1))
       else
         (case dispatch_cb ps sigint hp cb el of
            None \<Rightarrow> None
          | Some (Inl f) \<Rightarrow> Some (Inl f)
          | Some (Inr (ret, el1)) \<Rightarrow>
              if ret \<le> 0 then Some (with_rest (remove_connection cb el1))
              else Some (Inr (ret, el1, evs1))))"
      using dispatched_callback [OF assms(1) w [unfolded Ready] run, of ps sigint] by blast
    have rm: "removable cb el" using assms(1) cb by (simp add: removable_def)
    show ?thesis
    proof (cases hup)
      case True
      then have "map_sum id (\<lambda>(r, el). (r, el, evs1)) (remove_connection cb el) = Inr (ret, el', evs')"
        using eq assms(3) by simp
      then show ?thesis using that(2) [OF cb(1) rm] by (auto simp: map_sum_def split: sum.splits)
    next
      case nh: False
      show ?thesis
      proof (cases err)
        case True
        then show ?thesis using nh eq assms(3) that(1) by simp
      next
        case ne: False
        obtain r el1 where d: "dispatch_cb ps sigint hp cb el = Some (Inr (r, el1))"
          using nh ne eq assms(3) by (auto split: option.splits sum.splits)
        show ?thesis
        proof (cases "r \<le> 0")
          case True
          then have "map_sum id (\<lambda>(r, el). (r, el, evs1)) (remove_connection cb el1) = Inr (ret, el', evs')"
            using nh ne eq assms(3) d by simp
          then show ?thesis using that(4) [OF cb(1) rm d True] by (auto simp: map_sum_def split: sum.splits)
        next
          case False
          then show ?thesis using nh ne eq assms(3) d that(3) [OF cb(1) rm] by simp
        qed
      qed
    qed
  qed
qed

lemma wldbg_dispatch_wf:
  assumes "el_wf el" "sigint_ok sigint" "wldbg_dispatch ps sigint evs el = Some (Inr (ret, el', evs'))"
  shows "el_wf el'"
  using assms
proof (cases rule: dispatch_cases)
  case (kept cb hp)
  then show ?thesis using dispatch_cb_removable [OF kept(2) assms(2) kept(3)] removable_inv by blast
next
  case (dropped cb hp r el1)
  then show ?thesis using dispatch_cb_removable [OF _ assms(2)] removable_wf by blast
next
  case idle
  then show ?thesis using assms(1) by simp
next
  case (hup cb)
  then show ?thesis using removable_wf by blast
qed

text \<open>No turn of the loop makes a listening callback.\<close>

lemma remove_connection_monitored:
  assumes "removable cb el" "remove_connection cb el = Inr (n, el')"
  shows "set (el_monitored el') \<subseteq> set (el_monitored el)"
proof (cases "cb_handler cb")
  case (Dispatch_messages i)
  then obtain c where c: "c \<in> set (el_conns el)" "cn_id c = i" "cb_fd cb = cn_server_fd c \<or> cb_fd cb = cn_client_fd c"
    using assms(1) by (auto simp: removable_def)
  have "el_wf el" "cb \<in> set (el_monitored el)" "cb_fd cb \<in> fst ` set (el_epoll el)"
    using assms(1) Dispatch_messages by (auto simp: removable_def)
  note eff = remove_connection_effect [OF this(1,2) Dispatch_messages c this(3)]
  show ?thesis using assms(2) [unfolded eff] by (auto simp: rbind_eq_Inr)
qed (use assms(2) in \<open>simp_all add: remove_connection_def\<close>)

lemma dispatch_cb_monitored:
  assumes "removable cb el" "sigint_ok sigint" "dispatch_cb ps sigint hp cb el = Some (Inr (r, el1))"
    and "cb_handler cb \<noteq> Server_mode_accept"
  shows "el_monitored el1 = el_monitored el"
proof (cases "cb_handler cb")
  case (Dispatch_messages i)
  then obtain c where c: "c \<in> set (el_conns el)" "cn_id c = i" "el_wf el" using assms(1) by (auto simp: removable_def)
  show ?thesis using dispatch_fd_effect(3) [OF c(3,1)] c(2) assms(3) Dispatch_messages by (simp add: dispatch_cb_def)
qed (use assms sigint_frame(2) in
    \<open>auto simp: dispatch_cb_def dispatch_signals_def split: option.splits signal.splits\<close>)

lemma accept_free:
  assumes "Server_mode_accept \<notin> cb_handler ` set (el_monitored el)" "el_wf el" "sigint_ok sigint"
    and "wldbg_dispatch ps sigint evs el = Some (Inr (ret, el', evs'))"
  shows "Server_mode_accept \<notin> cb_handler ` set (el_monitored el')"
  using assms(2-4)
proof (cases rule: dispatch_cases)
  case idle
  then show ?thesis using assms(1) by simp
next
  case (hup cb)
  then show ?thesis using assms(1) remove_connection_monitored by fastforce
next
  case (kept cb hp)
  then have "cb_handler cb \<noteq> Server_mode_accept" using assms(1) by (metis imageI)
  then show ?thesis using dispatch_cb_monitored kept assms(1,3) by metis
next
  case (dropped cb hp r el1)
  then have "cb_handler cb \<noteq> Server_mode_accept" using assms(1) by (metis imageI)
  then have "el_monitored el1 = el_monitored el" using dispatch_cb_monitored dropped assms(3) by blast
  moreover have "set (el_monitored el') \<subseteq> set (el_monitored el1)"
    using remove_connection_monitored dispatch_cb_removable dropped assms(3) by blast
  ultimately show ?thesis using assms(1) by auto
qed

lemma dispatch_no_use_after_free:
  assumes "el_wf el" "sigint_ok sigint" "Server_mode_accept \<notin> cb_handler ` set (el_monitored el)"
    "UseAfterFree \<notin> pass_faults ps"
  shows "wldbg_dispatch ps sigint evs el \<noteq> Some (Inl UseAfterFree)"
proof
  assume f: "wldbg_dispatch ps sigint evs el = Some (Inl UseAfterFree)"
  then have run: "\<not> el_exit el" "\<not> el_error el" by (auto simp: wldbg_dispatch_def)
  obtain ev evs1 where w: "epoll_wait el evs = Some (ev, evs1)"
    using f run by (auto simp: wldbg_dispatch_def split: option.splits)
  show False
  proof (cases ev)
    case (Epoll_error b)
    then show ?thesis using f w run by (simp add: wldbg_dispatch_def)
  next
    case (Ready fd hup err hp)
    obtain cb where cb: "cb \<in> set (el_monitored el)" "cb_fd cb = fd" "fd \<in> fst ` set (el_epoll el)"
      "\<And>i. cb_handler cb = Dispatch_messages i \<Longrightarrow>
       \<exists>c \<in> set (el_conns el). cn_id c = i \<and> (fd = cn_server_fd c \<or> fd = cn_client_fd c)"
      and eq: "wldbg_dispatch ps sigint evs el = (let with_rest = map_sum id (\<lambda>(r, el). (r, el, evs1)) in
       if hup then Some (with_rest (remove_connection cb el))
       else if err then Some (Inr (-1, el, evs1))
       else
         (case dispatch_cb ps sigint hp cb el of
            None \<Rightarrow> None
          | Some (Inl f) \<Rightarrow> Some (Inl f)
          | Some (Inr (ret, el1)) \<Rightarrow>
              if ret \<le> 0 then Some (with_rest (remove_connection cb el1))
              else Some (Inr (ret, el1, evs1))))"
      using dispatched_callback [OF assms(1) w [unfolded Ready] run, of ps sigint] by blast
    have rm: "removable cb el" using assms(1) cb by (simp add: removable_def)
    have h: "cb_handler cb \<noteq> Server_mode_accept" using assms(3) cb(1) by (metis imageI)
    have no: "remove_connection cb e \<noteq> Inl UseAfterFree" if "removable cb e" for e
      using removable_fault [OF that] by (auto split: handler.splits)
    show ?thesis
      using eq f dispatch_cb_fault [OF rm assms(2) h assms(4)] no [OF rm] no [OF dispatch_cb_removable [OF rm assms(2)]]
      by (auto simp: Let_def map_sum_def split: if_splits option.splits sum.splits)
  qed
qed

lemma run_loop_no_use_after_free:
  assumes "el_wf el" "sigint_ok sigint" "Server_mode_accept \<notin> cb_handler ` set (el_monitored el)"
    "UseAfterFree \<notin> pass_faults ps"
  shows "wldbg_run_loop ps sigint evs el \<noteq> Some (Inl UseAfterFree)"
  using assms
proof (induction ps sigint evs el rule: wldbg_run_loop.induct)
  case (1 ps sigint evs el)
  show ?case
  proof (cases "\<exists>ret el1 evs'. wldbg_dispatch ps sigint evs el = Some (Inr (ret, el1, evs'))")
    case True
    then obtain ret el1 evs' where d: "wldbg_dispatch ps sigint evs el = Some (Inr (ret, el1, evs'))" by blast
    show ?thesis
      using 1(1) [OF d refl refl refl] wldbg_dispatch_wf [OF 1(2,3) d] accept_free [OF 1(4,2,3) d] 1(3,5)
      by (subst wldbg_run_loop.simps) (simp add: d)
  next
    case False
    then show ?thesis using dispatch_no_use_after_free [OF 1(2-5), of evs]
      by (subst wldbg_run_loop.simps) (auto split: option.splits sum.splits)
  qed
qed

section \<open>A hang-up ends a connection\<close>

lemma close_fds_wf: "buf_wf b \<Longrightarrow> \<exists>x b'. close_fds b (-1) = Inr (x, b')"
  using close_fds_contents [of b "-1"] by auto

lemma destroy_wf: "conn_wf c \<Longrightarrow> \<exists>x. wl_connection_destroy c = Inr x"
  using close_fds_wf [of "fds_out c"] close_fds_wf [of "fds_in c"]
  by (auto simp: wl_connection_destroy_def conn_wf_def)

text \<open>A descriptor registered with a callback that has the handler \<open>h\<close>.\<close>

definition watches :: "('g, 'o) evloop \<Rightarrow> int \<Rightarrow> handler \<Rightarrow> bool" where
  "watches el fd h \<longleftrightarrow> (\<exists>a cb. (fd, a) \<in> set (el_epoll el) \<and> cb \<in> set (el_monitored el) \<and> cb_addr cb = a \<and>
     cb_fd cb = fd \<and> cb_handler cb = h)"

text \<open>Both descriptors of each connection are registered with callbacks for that connection, and its
  buffers are sound.\<close>

definition served :: "('g, 'o) evloop \<Rightarrow> bool" where
  "served el \<longleftrightarrow> (\<forall>c \<in> set (el_conns el).
     watches el (cn_server_fd c) (Dispatch_messages (cn_id c)) \<and> watches el (cn_client_fd c) (Dispatch_messages (cn_id c)) \<and>
     (\<forall>s. cn_server c = PLive s \<longrightarrow> conn_wf s) \<and> (\<forall>k. cn_client c = PLive k \<longrightarrow> conn_wf k))"

definition descriptor_of :: "int \<Rightarrow> 'o conn \<Rightarrow> bool" where
  "descriptor_of fd c \<longleftrightarrow> fd = cn_server_fd c \<or> fd = cn_client_fd c"

lemma watchesI: "(fd, a) \<in> set (el_epoll el) \<Longrightarrow> \<lparr>cb_addr = a, cb_fd = fd, cb_handler = h\<rparr> \<in> set (el_monitored el) \<Longrightarrow> watches el fd h"
  unfolding watches_def by force

lemma watches_lookup:
  assumes "el_wf el" "watches el fd h"
  obtains cb where "map_of (el_epoll el) fd = Some (cb_addr cb)" "find (\<lambda>x. cb_addr x = cb_addr cb) (el_monitored el) = Some cb"
    "cb \<in> set (el_monitored el)" "cb_fd cb = fd" "cb_handler cb = h" "fd \<in> fst ` set (el_epoll el)"
proof -
  obtain cb where cb: "(fd, cb_addr cb) \<in> set (el_epoll el)" "cb \<in> set (el_monitored el)" "cb_fd cb = fd" "cb_handler cb = h"
    using assms(2) by (auto simp: watches_def)
  have "map_of (el_epoll el) fd = Some (cb_addr cb)" using cb(1) el_wfD(1) [OF assms(1)] by simp
  moreover have "find (\<lambda>x. cb_addr x = cb_addr cb) (el_monitored el) = Some cb" by (rule find_by_key [OF el_wfD(2) [OF assms(1)] cb(2)])
  moreover have "fd \<in> fst ` set (el_epoll el)" using cb(1) by force
  ultimately show ?thesis using that cb by blast
qed

lemma watches_unique:
  assumes "el_wf el" "watches el fd h" "watches el fd h'"
  shows "h = h'"
proof -
  obtain cb where "map_of (el_epoll el) fd = Some (cb_addr cb)" "find (\<lambda>x. cb_addr x = cb_addr cb) (el_monitored el) = Some cb" "cb_handler cb = h"
    using watches_lookup [OF assms(1,2)] by blast
  moreover obtain cb' where "map_of (el_epoll el) fd = Some (cb_addr cb')" "find (\<lambda>x. cb_addr x = cb_addr cb') (el_monitored el) = Some cb'" "cb_handler cb' = h'"
    using watches_lookup [OF assms(1,3)] by blast
  ultimately show ?thesis by simp
qed

lemma served_watches: "served el \<Longrightarrow> c \<in> set (el_conns el) \<Longrightarrow> descriptor_of fd c \<Longrightarrow> watches el fd (Dispatch_messages (cn_id c))"
  by (auto simp: served_def descriptor_of_def)

lemma same_conn: "el_wf el \<Longrightarrow> c \<in> set (el_conns el) \<Longrightarrow> d \<in> set (el_conns el) \<Longrightarrow> cn_id c = cn_id d \<Longrightarrow> c = d"
  using el_wfD(5) [of el] by (auto simp: distinct_map dest: inj_onD)

text \<open>The state without the connection \<open>c\<close>.\<close>

definition without :: "'o conn \<Rightarrow> callback \<Rightarrow> ('g, 'o) evloop \<Rightarrow> ('g, 'o) evloop" where
  "without c cb el =
     el\<lparr>el_conns := filter (\<lambda>d. cn_id d \<noteq> cn_id c) (el_conns el), el_conns_num := el_conns_num el - 1,
        el_monitored := filter (\<lambda>d. cb_addr d \<noteq> cb_addr cb) (el_monitored el),
        el_epoll := filter (\<lambda>(f, _). f \<noteq> cn_server_fd c \<and> f \<noteq> cn_client_fd c) (el_epoll el),
        el_sys := close_fd (cn_client_fd c) (close_fd (cn_server_fd c) (el_sys el))\<rparr>"

lemma watches_without:
  assumes "el_wf el" "served el" "c \<in> set (el_conns el)" "watches el fd h" "h \<noteq> Dispatch_messages (cn_id c)"
    and "cb \<in> set (el_monitored el)" "cb_handler cb = Dispatch_messages (cn_id c)"
  shows "watches (without c cb el) fd h"
proof -
  obtain cd where cd: "(fd, cb_addr cd) \<in> set (el_epoll el)" "cd \<in> set (el_monitored el)" "cb_fd cd = fd" "cb_handler cd = h"
    using assms(4) by (auto simp: watches_def)
  have "\<not> descriptor_of fd c" using served_watches [OF assms(2,3)] watches_unique [OF assms(1,4)] assms(5) by blast
  moreover have "cb_addr cd \<noteq> cb_addr cb"
  proof
    assume "cb_addr cd = cb_addr cb"
    then have "cd = cb" using el_wfD(2) [OF assms(1)] cd(2) assms(6) by (auto simp: distinct_map dest: inj_onD)
    then show False using cd(4) assms(5,7) by simp
  qed
  ultimately show ?thesis using cd by (auto simp: watches_def without_def descriptor_of_def intro!: exI [of _ cd])
qed

lemma hup_step:
  assumes "el_wf el" "served el" "c \<in> set (el_conns el)" "\<not> el_exit el" "\<not> el_error el" "descriptor_of fd c"
  shows "\<exists>cb. (\<forall>evs. wldbg_dispatch ps sigint (Ready fd True err hp # evs) el =
      Some (Inr (el_conns_num el - 1, without c cb el, evs))) \<and> el_wf (without c cb el) \<and> served (without c cb el) \<and>
      cb \<in> set (el_monitored el) \<and> cb_handler cb = Dispatch_messages (cn_id c)"
proof -
  obtain cb where cb: "map_of (el_epoll el) fd = Some (cb_addr cb)" "find (\<lambda>x. cb_addr x = cb_addr cb) (el_monitored el) = Some cb"
    "cb \<in> set (el_monitored el)" "cb_fd cb = fd" "cb_handler cb = Dispatch_messages (cn_id c)" "fd \<in> fst ` set (el_epoll el)"
    using watches_lookup [OF assms(1) served_watches [OF assms(2,3,6)]] by blast
  obtain s k where l: "cn_server c = PLive s" "cn_client c = PLive k" using assms(1,3) by (auto simp: el_wf_def live_conn_def)
  have w: "conn_wf s" "conn_wf k" using assms(2,3) l by (auto simp: served_def)
  have fd: "cb_fd cb = cn_server_fd c \<or> cb_fd cb = cn_client_fd c" using cb(4) assms(6) by (simp add: descriptor_of_def)
  have r: "remove_connection cb el = Inr (el_conns_num el - 1, without c cb el)"
    using remove_connection_effect [OF assms(1) cb(3,5) assms(3) refl fd] cb(4,6) l destroy_wf [OF w(1)] destroy_wf [OF w(2)]
    by (auto simp: without_def)
  have wf: "el_wf (without c cb el)"
    by (rule conjunct1 [OF remove_connection_wf [OF assms(1) cb(3,5) assms(3) refl fd _ r]]) (use cb(4,6) in simp)
  have "served (without c cb el)"
    unfolding served_def
  proof
    fix d assume d: "d \<in> set (el_conns (without c cb el))"
    then have dc: "d \<in> set (el_conns el)" "cn_id d \<noteq> cn_id c" by (auto simp: without_def)
    then have "watches (without c cb el) f (Dispatch_messages (cn_id d))" if "descriptor_of f d" for f
      using watches_without [OF assms(1-3) served_watches [OF assms(2) dc(1) that] _ cb(3,5)] by simp
    then show "watches (without c cb el) (cn_server_fd d) (Dispatch_messages (cn_id d)) \<and>
       watches (without c cb el) (cn_client_fd d) (Dispatch_messages (cn_id d)) \<and>
       (\<forall>s. cn_server d = PLive s \<longrightarrow> conn_wf s) \<and> (\<forall>k. cn_client d = PLive k \<longrightarrow> conn_wf k)"
      using assms(2) dc by (simp add: served_def descriptor_of_def)
  qed
  then show ?thesis
    using wf r cb assms(4,5) by (intro exI [of _ cb]) (auto simp: wldbg_dispatch_def Let_def map_sum_def)
qed

text \<open>Scripts in which clients and compositors hang up, in any order: hang-ups on a descriptor of a
  connection or on one that is not registered (any more), and a \<open>SIGCHLD\<close> now and then.\<close>

fun hangs_up :: "'o conn \<Rightarrow> 'o event \<Rightarrow> bool" where
  "hangs_up c (Ready fd hup err hp) \<longleftrightarrow> hup \<and> descriptor_of fd c"
| "hangs_up c (Epoll_error intr) \<longleftrightarrow> False"

fun closing :: "('g, 'o) evloop \<Rightarrow> 'o event \<Rightarrow> bool" where
  "closing el (Ready fd hup err hp) \<longleftrightarrow>
     (if hup then fd \<notin> fst ` set (el_epoll el) \<or> list_ex (descriptor_of fd) (el_conns el)
      else \<not> err \<and> watches el fd Dispatch_signals \<and> hp_signal hp = Some SIGCHLD)"
| "closing el (Epoll_error intr) \<longleftrightarrow> False"

lemma closing_without:
  assumes "el_wf el" "served el" "c \<in> set (el_conns el)" "cb \<in> set (el_monitored el)" "cb_handler cb = Dispatch_messages (cn_id c)"
    and "closing el ev"
  shows "closing (without c cb el) ev"
proof (cases ev)
  case (Ready fd hup err hp)
  show ?thesis
  proof (cases hup)
    case True
    have "fd \<notin> fst ` set (el_epoll (without c cb el)) \<or> (\<exists>d \<in> set (el_conns (without c cb el)). descriptor_of fd d)"
    proof (cases "fd \<in> fst ` set (el_epoll el)")
      case True
      then obtain d where d: "d \<in> set (el_conns el)" "descriptor_of fd d"
        using assms(6) Ready \<open>hup\<close> by (auto simp: list_ex_iff)
      show ?thesis
      proof (cases "cn_id d = cn_id c")
        case True
        then show ?thesis using same_conn [OF assms(1) d(1) assms(3)] d(2) by (auto simp: without_def descriptor_of_def)
      next
        case False
        then show ?thesis using d by (auto simp: without_def)
      qed
    qed (auto simp: without_def)
    then show ?thesis using Ready True by (simp add: list_ex_iff)
  next
    case False
    then show ?thesis using assms(6) Ready watches_without [OF assms(1-3) _ _ assms(4,5)] by simp
  qed
qed (use assms(6) in simp)

lemma closing_running: "closing (el\<lparr>el_running := b\<rparr>) = closing el"
proof
  show "closing (el\<lparr>el_running := b\<rparr>) ev = closing el ev" for ev by (cases ev) (simp_all add: watches_def)
qed

lemma hang_ups:
  assumes "el_wf el" "served el" "el_conns el \<noteq> []" "\<not> el_exit el" "\<not> el_error el" "list_all (closing el) hs"
  shows "\<exists>el'. el_conns el' = filter (\<lambda>c. \<not> list_ex (hangs_up c) hs) (el_conns el) \<and> \<not> el_exit el' \<and> \<not> el_error el' \<and>
    set (el_epoll el') = {(f, a) \<in> set (el_epoll el). \<forall>c \<in> set (el_conns el). descriptor_of f c \<longrightarrow> \<not> list_ex (hangs_up c) hs} \<and>
    (\<forall>rest. wldbg_run_loop ps sigint (hs @ rest) el =
       (if el_conns el' = [] then Some (Inr (0, el')) else wldbg_run_loop ps sigint rest el'))"
  using assms
proof (induction hs arbitrary: el)
  case Nil
  then show ?case by (intro exI [of _ el]) auto
next
  case (Cons ev hs)
  obtain fd hup err hp where ev: "ev = Ready fd hup err hp" using Cons.prems(6) by (cases ev) simp_all
  have cl: "closing el ev" "list_all (closing el) hs" using Cons.prems(6) by simp_all
  show ?case
  proof (cases "hup \<and> fd \<in> fst ` set (el_epoll el)")
    case True
    then obtain c where c: "c \<in> set (el_conns el)" "descriptor_of fd c" using cl(1) ev by (auto simp: list_ex_iff)
    obtain cb where step: "\<And>evs. wldbg_dispatch ps sigint (Ready fd True err hp # evs) el =
        Some (Inr (el_conns_num el - 1, without c cb el, evs))"
      and w: "el_wf (without c cb el)" "served (without c cb el)"
      "cb \<in> set (el_monitored el)" "cb_handler cb = Dispatch_messages (cn_id c)"
      using hup_step [OF Cons.prems(1,2) c(1) Cons.prems(4,5) c(2)] by blast
    let ?el = "without c cb el"
    have mine: "hangs_up d ev \<longleftrightarrow> d = c" if "d \<in> set (el_conns el)" for d
      using that c True ev served_watches [OF Cons.prems(2) c] served_watches [OF Cons.prems(2) that, of fd]
        watches_unique [OF Cons.prems(1)] same_conn [OF Cons.prems(1) that c(1)] by auto
    have cs: "el_conns ?el = filter (\<lambda>d. d \<noteq> c) (el_conns el)"
      using same_conn [OF Cons.prems(1) _ c(1)] by (auto simp: without_def intro!: filter_cong)
    have left: "el_conns_num el - 1 = int (length (el_conns ?el))"
      using el_wfD(7) [OF w(1)] by (simp add: without_def)
    have run: "\<not> el_exit ?el" "\<not> el_error ?el" using Cons.prems(4,5) by (simp_all add: without_def)
    have all: "list_all (closing ?el) hs"
      using cl(2) closing_without [OF Cons.prems(1,2) c(1) w(3,4)] by (simp add: list_all_iff)
    have ep: "set (el_epoll ?el) = {(f, a) \<in> set (el_epoll el). \<not> descriptor_of f c}"
      by (auto simp: without_def descriptor_of_def)
    have loop: "wldbg_run_loop ps sigint ((ev # hs) @ rest) el =
        (if el_conns ?el = [] then Some (Inr (0, ?el)) else wldbg_run_loop ps sigint (hs @ rest) ?el)" for rest
    proof -
      have st: "wldbg_dispatch ps sigint ((ev # hs) @ rest) el = Some (Inr (int (length (el_conns ?el)), ?el, hs @ rest))"
        using step [of "hs @ rest"] True unfolding left by (simp add: ev)
      show ?thesis unfolding wldbg_run_loop.simps [of ps sigint "(ev # hs) @ rest" el] st using run by simp
    qed
    have none: "set (el_conns el) = {c}" if "el_conns ?el = []"
    proof -
      have "\<forall>d \<in> set (el_conns el). d = c" using that unfolding cs filter_empty_conv by blast
      with c(1) show ?thesis by blast
    qed
    show ?thesis
    proof (cases "el_conns ?el = []")
      case True
      have "filter (\<lambda>d. \<not> list_ex (hangs_up d) (ev # hs)) (el_conns el) = []" using none [OF True] mine by (simp add: filter_empty_conv)
      moreover have "{(f, a) \<in> set (el_epoll el). \<forall>d \<in> set (el_conns el). descriptor_of f d \<longrightarrow> \<not> list_ex (hangs_up d) (ev # hs)} = set (el_epoll ?el)"
        unfolding ep using none [OF True] mine by auto
      ultimately show ?thesis using True loop run by (intro exI [of _ ?el]) simp
    next
      case False
      obtain el' where el': "el_conns el' = filter (\<lambda>d. \<not> list_ex (hangs_up d) hs) (el_conns ?el)" "\<not> el_exit el'" "\<not> el_error el'"
        "set (el_epoll el') = {(f, a) \<in> set (el_epoll ?el). \<forall>d \<in> set (el_conns ?el). descriptor_of f d \<longrightarrow> \<not> list_ex (hangs_up d) hs}"
        "\<And>rest. wldbg_run_loop ps sigint (hs @ rest) ?el = (if el_conns el' = [] then Some (Inr (0, el')) else wldbg_run_loop ps sigint rest el')"
        using Cons.IH [OF w(1,2) False run all] by blast
      have "filter (\<lambda>d. \<not> list_ex (hangs_up d) (ev # hs)) (el_conns el) = el_conns el'"
        unfolding el'(1) cs using mine by (auto intro!: filter_cong)
      moreover have "{(f, a) \<in> set (el_epoll el). \<forall>d \<in> set (el_conns el). descriptor_of f d \<longrightarrow> \<not> list_ex (hangs_up d) (ev # hs)} = set (el_epoll el')"
        unfolding el'(4) ep cs using mine c(1) by auto
      ultimately show ?thesis using loop False el'(2,3,5) by (intro exI [of _ el']) simp
    qed
  next
    case False
    have mine: "\<not> hangs_up d ev" if "d \<in> set (el_conns el)" for d
    proof
      assume "hangs_up d ev"
      then have "hup" "descriptor_of fd d" using ev by simp_all
      then show False using False watches_lookup [OF Cons.prems(1) served_watches [OF Cons.prems(2) that]] by blast
    qed
    have "wldbg_run_loop ps sigint (ev # evs) el = wldbg_run_loop ps sigint evs el" for evs
    proof (cases hup)
      case True
      then have "epoll_wait el (ev # evs) = epoll_wait el evs" using False ev by simp
      then have "wldbg_dispatch ps sigint (ev # evs) el = wldbg_dispatch ps sigint evs el" by (simp add: wldbg_dispatch_def)
      then show ?thesis by (simp add: wldbg_run_loop.simps [of ps sigint "ev # evs"] wldbg_run_loop.simps [of ps sigint evs])
    next
      case nh: False
      then have s: "\<not> err" "watches el fd Dispatch_signals" "hp_signal hp = Some SIGCHLD" using cl(1) ev by simp_all
      from watches_lookup [OF Cons.prems(1) s(2)] obtain cb where "map_of (el_epoll el) fd = Some (cb_addr cb)"
        "find (\<lambda>x. cb_addr x = cb_addr cb) (el_monitored el) = Some cb" "cb_handler cb = Dispatch_signals" "fd \<in> fst ` set (el_epoll el)"
        by blast
      then have "wldbg_dispatch ps sigint (ev # evs) el = Some (Inr (1, el, evs))"
        using ev nh s Cons.prems(4,5) by (simp add: wldbg_dispatch_def dispatch_cb_def dispatch_signals_def)
      then show ?thesis using Cons.prems(4,5) by (subst wldbg_run_loop.simps) simp
    qed
    moreover have "filter (\<lambda>d. \<not> list_ex (hangs_up d) (ev # hs)) (el_conns el) = filter (\<lambda>d. \<not> list_ex (hangs_up d) hs) (el_conns el)"
      using mine by (auto intro!: filter_cong)
    moreover have "{(f, a) \<in> set (el_epoll el). \<forall>d \<in> set (el_conns el). descriptor_of f d \<longrightarrow> \<not> list_ex (hangs_up d) (ev # hs)} =
        {(f, a) \<in> set (el_epoll el). \<forall>d \<in> set (el_conns el). descriptor_of f d \<longrightarrow> \<not> list_ex (hangs_up d) hs}"
      using mine by auto
    ultimately show ?thesis using Cons.IH [OF Cons.prems(1-5) cl(2)] by simp
  qed
qed

section \<open>Failures during set-up\<close>

lemma create_unreachable:
  assumes "el_server_mode el" "sm_connect_to (el_sm el) = Some s" "\<And>p. \<not> e_connect (cs_env cs) p"
  shows "\<exists>el'. wldbg_connection_create cs nothing el = Inr (None, el')"
proof -
  obtain y where "connect_to_wayland_socket (cs_env cs) (Some s) (el_sys el) = (-1, y)"
  proof -
    have "fst (connect_to_wayland_socket (cs_env cs) (Some s) (el_sys el)) = -1"
      using assms(3) by (auto simp: connect_to_wayland_socket_def Let_def split: option.splits prod.splits)
    then show ?thesis using that by (metis prod.collapse)
  qed
  then show ?thesis
    using assms(1,2) by (simp add: wldbg_connection_create_def server_socket_name_def Let_def connect_to_wayland_server_def)
qed

section \<open>Properties\<close>

text \<open>C11: The event loop never uses a freed callback or connection, whatever happens on the
  descriptors, as long as it debugs a spawned client (there is no listening socket): a connection is
  taken out of the loop, with both its descriptors, before it is freed.\<close>

theorem run_never_uses_freed:
  assumes "el_wf el" "Server_mode_accept \<notin> cb_handler ` set (el_monitored el)"
    and "sigint_ok sigint" "UseAfterFree \<notin> pass_faults ps"
  shows "wldbg_run ps sigint evs el \<noteq> Some (Inl UseAfterFree)"
proof -
  have "wldbg_run_loop ps sigint evs (el\<lparr>el_running := True\<rparr>) \<noteq> Some (Inl UseAfterFree)"
    using run_loop_no_use_after_free [of "el\<lparr>el_running := True\<rparr>"] assms by (simp add: el_wf_other)
  then show ?thesis
    by (cases "wldbg_run_loop ps sigint evs (el\<lparr>el_running := True\<rparr>)") (auto simp: wldbg_run_def rbind_eq_Inl)
qed

text \<open>A loop with one client: the compositor on descriptor 5, the client on 6, signals on 4.\<close>

definition sample_conn :: "unit conn" where
  "sample_conn = \<lparr>cn_id = 0, cn_server_fd = 5, cn_server = PLive (wl_connection_create 5), cn_client_fd = 6,
     cn_client = PLive (wl_connection_create 6), cn_client_pid = 77, cn_program = None, cn_objects = ()\<rparr>"

definition sample_loop :: "(unit, unit) evloop" where
  "sample_loop = \<lparr>el_exit = False, el_error = False, el_running = False, el_pass_whole_buffer = False,
     el_server_mode = False, el_resolving = False, el_gathering = False, el_global = (),
     el_monitored = [\<lparr>cb_addr = 1, cb_fd = 4, cb_handler = Dispatch_signals\<rparr>,
       \<lparr>cb_addr = 2, cb_fd = 5, cb_handler = Dispatch_messages 0\<rparr>,
       \<lparr>cb_addr = 3, cb_fd = 6, cb_handler = Dispatch_messages 0\<rparr>],
     el_epoll = [(4, 1), (5, 2), (6, 3)], el_conns = [sample_conn], el_conns_num = 1, el_next = 4, el_killed = [],
     el_sys = compositor_only, el_sm = no_server_mode\<rparr>"

definition sample_setup :: "bool \<Rightarrow> bool \<Rightarrow> unit conn_setup" where
  "sample_setup up mem = \<lparr>cs_calloc = True, cs_objects = Some (), cs_info_ok = True,
     cs_env = (good_env ''/r'' True)\<lparr>e_connect := \<lambda>_. up\<rparr>, cs_server_malloc = True, cs_server_monitor = (True, True),
     cs_client_malloc = mem, cs_client_monitor = (True, True), cs_program = \<lambda>_. None\<rparr>"

definition sample_happening :: "unit happening" where
  "sample_happening = \<lparr>hp_recv = [], hp_again = False, hp_send = [], hp_buffer = [], hp_signal = None, hp_client_fd = 9,
     hp_setup = sample_setup False True, hp_nothing = ()\<rparr>"

lemma sample_loop_wf: "el_wf sample_loop" "served sample_loop"
proof -
  show "el_wf sample_loop"
    by (simp add: el_wf_def sample_loop_def sample_conn_def live_conn_def entry_ok_def wl_connection_create_def)
  have "watches sample_loop 5 (Dispatch_messages 0)" "watches sample_loop 6 (Dispatch_messages 0)"
    by (rule watchesI [where a = 2], simp_all add: sample_loop_def) (rule watchesI [where a = 3], simp_all add: sample_loop_def)
  then show "served sample_loop" by (simp add: served_def sample_loop_def sample_conn_def conn_wf_create)
qed

lemma sample_loop_simps: "el_exit sample_loop = False" "el_error sample_loop = False" "el_conns sample_loop = [sample_conn]"
  "cb_handler ` set (el_monitored sample_loop) = {Dispatch_signals, Dispatch_messages 0}"
  by (auto simp: sample_loop_def)

theorem run_never_uses_freed_witness:
  "wldbg_run [] (\<lambda>_. None) [Ready 6 True False sample_happening, Ready 5 True False sample_happening] sample_loop \<noteq> Some (Inl UseAfterFree)"
  using run_never_uses_freed [OF sample_loop_wf(1), of "\<lambda>_. None" "[]" "[Ready 6 True False sample_happening, Ready 5 True False sample_happening]"]
  by (simp add: sample_loop_simps sigint_ok_def pass_faults_def)

text \<open>C36: Connections end one by one, in whatever order they hang up: a hang-up on the client's or the
  compositor's descriptor takes exactly that connection out, with both its descriptors; nothing is
  read from it, further hang-ups of its descriptors are not seen any more, and a \<open>SIGCHLD\<close> in between
  changes nothing.  While connections are left the loop goes on with what happens next, here a failing
  \<open>epoll_wait\<close>, and the ones left are those that have not hung up; when all have, \<open>wldbg_run\<close> returns 0.\<close>

theorem run_ends_when_clients_hang_up:
  assumes "el_wf el" "served el" "el_conns el \<noteq> []" "\<not> el_exit el" "\<not> el_error el" "list_all (closing el) hs"
  shows "\<exists>el'. wldbg_run ps sigint (hs @ Epoll_error b # evs) el =
      Some (Inr (if list_all (\<lambda>c. list_ex (hangs_up c) hs) (el_conns el) then 0 else -1, el')) \<and>
    el_conns el' = filter (\<lambda>c. \<not> list_ex (hangs_up c) hs) (el_conns el) \<and>
    set (el_epoll el') = {(fd, a) \<in> set (el_epoll el).
      list_all (\<lambda>c. descriptor_of fd c \<longrightarrow> \<not> list_ex (hangs_up c) hs) (el_conns el)}"
proof -
  let ?el = "el\<lparr>el_running := True\<rparr>"
  have "watches ?el = watches el" by (intro ext) (simp add: watches_def)
  then have "el_wf ?el" "served ?el" "el_conns ?el \<noteq> []" "\<not> el_exit ?el" "\<not> el_error ?el" "list_all (closing ?el) hs"
    using assms by (simp_all add: closing_running el_wf_other served_def)
  from hang_ups [OF this, of ps sigint] obtain el' where el': "el_conns el' = filter (\<lambda>c. \<not> list_ex (hangs_up c) hs) (el_conns el)"
    "\<not> el_exit el'" "\<not> el_error el'"
    "set (el_epoll el') = {(f, a) \<in> set (el_epoll el). \<forall>c \<in> set (el_conns el). descriptor_of f c \<longrightarrow> \<not> list_ex (hangs_up c) hs}"
    "\<And>rest. wldbg_run_loop ps sigint (hs @ rest) ?el = (if el_conns el' = [] then Some (Inr (0, el')) else wldbg_run_loop ps sigint rest el')"
    by auto
  have "wldbg_run_loop ps sigint (Epoll_error b # evs) el' = Some (Inr (-1, el'))"
    using el'(2,3) by (subst wldbg_run_loop.simps) (simp add: wldbg_dispatch_def)
  moreover have "el_conns el' = [] \<longleftrightarrow> list_all (\<lambda>c. list_ex (hangs_up c) hs) (el_conns el)"
    unfolding el'(1) by (simp add: filter_empty_conv list_all_iff)
  ultimately have "wldbg_run_loop ps sigint (hs @ Epoll_error b # evs) ?el =
      Some (Inr (if list_all (\<lambda>c. list_ex (hangs_up c) hs) (el_conns el) then 0 else -1, el'))"
    using el'(5) by simp
  then have "wldbg_run ps sigint (hs @ Epoll_error b # evs) el =
      Some (Inr (if list_all (\<lambda>c. list_ex (hangs_up c) hs) (el_conns el) then 0 else -1, el'\<lparr>el_running := False\<rparr>))"
    using assms(4,5) by (simp add: wldbg_run_def)
  then show ?thesis using el'(1,4) by (intro exI [of _ "el'\<lparr>el_running := False\<rparr>"]) (simp add: list_all_iff)
qed

text \<open>Two clients, on the descriptors 6 and 9: the second one goes first, seen on the compositor's
  side, and its process ends; its other descriptor is not reported any more.\<close>

definition second_conn :: "unit conn" where
  "second_conn = sample_conn\<lparr>cn_id := 1, cn_server_fd := 8, cn_server := PLive (wl_connection_create 8), cn_client_fd := 9,
     cn_client := PLive (wl_connection_create 9)\<rparr>"

definition two_loop :: "(unit, unit) evloop" where
  "two_loop = sample_loop\<lparr>el_conns := [sample_conn, second_conn], el_conns_num := 2, el_next := 6,
     el_monitored := el_monitored sample_loop @ [\<lparr>cb_addr = 4, cb_fd = 8, cb_handler = Dispatch_messages 1\<rparr>,
       \<lparr>cb_addr = 5, cb_fd = 9, cb_handler = Dispatch_messages 1\<rparr>],
     el_epoll := [(4, 1), (5, 2), (6, 3), (8, 4), (9, 5)]\<rparr>"

theorem run_ends_when_clients_hang_up_witness:
  "\<exists>el'. wldbg_run [] (\<lambda>_. None) ([Ready 8 True False sample_happening,
        Ready 4 False False (sample_happening\<lparr>hp_signal := Some SIGCHLD\<rparr>), Ready 9 True False sample_happening] @
      Epoll_error False # []) two_loop = Some (Inr (-1, el')) \<and>
    el_conns el' = [sample_conn] \<and> set (el_epoll el') = {(4, 1), (5, 2), (6, 3)}"
proof -
  define hs where "hs = [Ready 8 True False sample_happening, Ready 4 False False (sample_happening\<lparr>hp_signal := Some SIGCHLD\<rparr>),
     Ready 9 True False sample_happening]"
  note d = two_loop_def sample_loop_def
  have w: "watches two_loop 4 Dispatch_signals" "watches two_loop 5 (Dispatch_messages 0)" "watches two_loop 6 (Dispatch_messages 0)"
    "watches two_loop 8 (Dispatch_messages 1)" "watches two_loop 9 (Dispatch_messages 1)"
    by (rule watchesI [where a = 1], simp_all add: d) (rule watchesI [where a = 2], simp_all add: d, rule watchesI [where a = 3], simp_all add: d,
        rule watchesI [where a = 4], simp_all add: d, rule watchesI [where a = 5], simp_all add: d)
  have c: "el_conns two_loop = [sample_conn, second_conn]" "el_epoll two_loop = [(4, 1), (5, 2), (6, 3), (8, 4), (9, 5)]"
    "\<not> el_exit two_loop" "\<not> el_error two_loop" by (simp_all add: two_loop_def sample_loop_def)
  have wf: "el_wf two_loop"
    by (simp add: el_wf_def two_loop_def sample_loop_def second_conn_def sample_conn_def live_conn_def entry_ok_def wl_connection_create_def)
  have s: "served two_loop" using w by (simp add: served_def c second_conn_def sample_conn_def conn_wf_create)
  have cl: "list_all (closing two_loop) hs" using w by (simp add: hs_def c descriptor_of_def second_conn_def sample_conn_def)
  have hung: "list_ex (hangs_up second_conn) hs" "\<not> list_ex (hangs_up sample_conn) hs"
    by (simp_all add: hs_def descriptor_of_def second_conn_def sample_conn_def)
  have ne: "el_conns two_loop \<noteq> []" by (simp add: c)
  have "\<exists>el'. wldbg_run [] (\<lambda>_. None) (hs @ Epoll_error False # []) two_loop = Some (Inr (-1, el')) \<and>
    el_conns el' = [sample_conn] \<and> set (el_epoll el') = {(fd, a) \<in> set (el_epoll two_loop). \<not> descriptor_of fd second_conn}"
    using run_ends_when_clients_hang_up [OF wf s ne c(3,4) cl, of "[]" "\<lambda>_. None" False "[]"] hung
    unfolding c by simp
  then show ?thesis unfolding hs_def by (auto simp: c descriptor_of_def second_conn_def)
qed

text \<open>C39: In server mode, a client that connects while the compositor cannot be reached brings wldbg
  down: the failed \<open>server_mode_accept\<close> makes the loop remove a connection, and it takes
  \<open>struct wldbg\<close> for one.\<close>

theorem failed_accept_is_type_confusion:
  assumes "\<not> el_exit el" "\<not> el_error el" "map_of (el_epoll el) fd = Some a"
    and "find (\<lambda>cb. cb_addr cb = a) (el_monitored el) = Some cb" "cb_handler cb = Server_mode_accept"
    and "el_server_mode el" "sm_connect_to (el_sm el) = Some s" "\<And>p. \<not> e_connect (cs_env (hp_setup hp)) p"
  shows "wldbg_dispatch ps sigint (Ready fd False False hp # evs) el = Some (Inl TypeConfusion)"
proof -
  have reg: "fd \<in> fst ` set (el_epoll el)" using map_of_SomeD [OF assms(3)] by force
  have "\<exists>el1. server_mode_accept (hp_setup hp) (hp_nothing hp) (hp_client_fd hp) el = Inr (-1, el1)"
    using create_unreachable [OF assms(6,7), of "hp_setup hp" "hp_nothing hp"] assms(8)
    by (auto simp: server_mode_accept_def)
  then show ?thesis
    using assms(1-5) reg
    by (auto simp: wldbg_dispatch_def dispatch_cb_def remove_connection_def Let_def map_sum_def)
qed

text \<open>A server-mode loop that listens on descriptor 7.\<close>

definition listening_loop :: "(unit, unit) evloop" where
  "listening_loop = sample_loop\<lparr>el_server_mode := True, el_monitored := [\<lparr>cb_addr = 1, cb_fd = 7, cb_handler = Server_mode_accept\<rparr>],
     el_epoll := [(7, 1)], el_conns := [], el_conns_num := 0, el_sm := no_server_mode\<lparr>sm_connect_to := Some ''wayland-1''\<rparr>\<rparr>"

theorem failed_accept_is_type_confusion_witness:
  "wldbg_dispatch [] (\<lambda>_. None) [Ready 7 False False sample_happening] listening_loop = Some (Inl TypeConfusion)"
  by (rule failed_accept_is_type_confusion [where a = 1 and s = "''wayland-1''"
        and cb = "\<lparr>cb_addr = 1, cb_fd = 7, cb_handler = Server_mode_accept\<rparr>"])
     (simp_all add: listening_loop_def sample_loop_def sample_happening_def sample_setup_def)

text \<open>When the client's side of a new connection cannot be set up, the clean-up of
  \<open>spawn_client\<close> crashes: it destroys a client connection that was never made, or one that was
  destroyed already.\<close>

theorem failed_client_side_crashes:
  assumes "\<not> el_exit el" "\<not> el_error el" "path \<noteq> None"
    and "el_wf el" "wldbg_connection_create cs nothing el = Inr (Some c, el1)"
  shows "spawn_client cs nothing None se fk path el = Inl NullDeref \<and>
    (\<not> cs_client_malloc cs \<longrightarrow> spawn_client cs nothing (Some (s0, s1)) se fk path el = Inl NullDeref) \<and>
    (cs_client_malloc cs \<and> \<not> fst (cs_client_monitor cs) \<longrightarrow>
       spawn_client cs nothing (Some (s0, s1)) se fk path el = Inl UseAfterFree)"
proof -
  have c: "cn_server c = PLive (wl_connection_create (cn_server_fd c))" "cn_client c = PNull"
    using create_effect [OF assms(4,5)] by auto
  obtain x where x: "wl_connection_destroy (wl_connection_create f) = Inr (x f)" for f
    using destroy_wf [OF conn_wf_create] by metis
  note spawn = spawn_client_def create_client_connection_def create_client_connection_for_fd_def
    wldbg_connection_destroy_def destroy_wlc_def wldbg_monitor_fd_def
  have "spawn_client cs nothing None se fk path el = Inl NullDeref"
    using assms c x by (simp add: spawn)
  moreover have "\<not> cs_client_malloc cs \<Longrightarrow> spawn_client cs nothing (Some (s0, s1)) se fk path el = Inl NullDeref"
    using assms c x by (simp add: spawn)
  moreover have "cs_client_malloc cs \<Longrightarrow> \<not> fst (cs_client_monitor cs) \<Longrightarrow>
      spawn_client cs nothing (Some (s0, s1)) se fk path el = Inl UseAfterFree"
    using assms c x by (simp add: spawn Let_def)
  ultimately show ?thesis by simp
qed

theorem failed_client_side_crashes_witness:
  "spawn_client (sample_setup True True) () None True 99 (Some ''weston'') (sample_loop\<lparr>el_conns := [], el_conns_num := 0,
     el_epoll := [], el_monitored := []\<rparr>) = Inl NullDeref"
proof -
  let ?el = "sample_loop\<lparr>el_conns := [], el_conns_num := 0, el_epoll := [], el_monitored := []\<rparr>"
  have "\<exists>c el1. wldbg_connection_create (sample_setup True True) () ?el = Inr (Some c, el1)"
    by (simp add: wldbg_connection_create_def server_socket_name_def sample_loop_def sample_setup_def Let_def
        connect_to_wayland_server_def connect_to_wayland_socket_def good_env_def snprintf_def SUN_PATH_def
        wldbg_monitor_fd_def)
  then obtain c el1 where cr: "wldbg_connection_create (sample_setup True True) () ?el = Inr (Some c, el1)" by blast
  have wf: "el_wf ?el" by (simp add: el_wf_def sample_loop_def)
  show ?thesis 
    by (rule conjunct1 [OF failed_client_side_crashes [OF _ _ _ wf cr]]) (simp_all add: sample_loop_def)
qed

end
