(* ===== verification/Util_Opts.thy ===== *)
theory Util_Opts
  imports Wldbg_Prelude
begin

text \<open>
  The helpers of \<^verbatim>\<open>src/util.c\<close> on strings and numbers, and the command line options of
  \<^verbatim>\<open>src/getopt.c\<close>.  A C string is the list of its characters, a pointer into it the rest.
\<close>

section \<open>Strings and numbers\<close>

definition skip_ws :: "string \<Rightarrow> string" where
  "skip_ws s = dropWhile is_space s"

definition remove_newline :: "string \<Rightarrow> string" where
  "remove_newline s = takeWhile (\<lambda>c. c \<noteq> CHR 0x0A) s"

text \<open>\<open>atoi\<close> on a string of digits, as glibc does it: \<open>strtol\<close> saturates at \<open>2 ^ 63 - 1\<close> and the
  result is cut to 32 bits.\<close>

definition atoi :: "string \<Rightarrow> int" where
  "atoi s = sint (word_of_nat (min (dec_val (takeWhile is_digit s)) (2 ^ 63 - 1)) :: u32)"

fun uint_chars :: "string \<Rightarrow> bool" where
  "uint_chars [] = True"
| "uint_chars (c # s) =
     (if is_space c then skip_ws (c # s) = []
      else if \<not> is_digit c then False
      else uint_chars s)"

definition str_to_uint :: "string \<Rightarrow> int" where
  "str_to_uint s =
     (let num = skip_ws s in
      if num = [] then -1
      else if uint_chars num then atoi num
      else -1)"

text \<open>\<open>copy_arguments\<close> copies up to the terminating \<open>NULL\<close>; the array has room for \<open>argc\<close> pointers
  and the terminator.  \<open>dup_ok i\<close> says whether the \<open>i\<close>-th \<open>strdup\<close> succeeds.\<close>

fun copy_loop :: "(nat \<Rightarrow> bool) \<Rightarrow> nat \<Rightarrow> nat \<Rightarrow> string list \<Rightarrow> string list option res" where
  "copy_loop dup_ok argc num [] = Inr (Some [])"
| "copy_loop dup_ok argc num (a # as) =
     (if argc < num then Inl OutOfBounds
      else if \<not> dup_ok num then Inr None
      else rbind (copy_loop dup_ok argc (Suc num) as) (\<lambda>r. Inr (map_option (\<lambda>xs. a # xs) r)))"

definition copy_arguments :: "bool \<Rightarrow> (nat \<Rightarrow> bool) \<Rightarrow> nat \<Rightarrow> string list \<Rightarrow> (int \<times> string list option) res" where
  "copy_arguments calloc_ok dup_ok argc as =
     (if \<not> calloc_ok then Inr (-1, None)
      else rbind (copy_loop dup_ok argc 0 as) (\<lambda>r.
        case r of
          None \<Rightarrow> Inr (-1, None)
        | Some xs \<Rightarrow>
            if argc < length xs then Inl OutOfBounds
            else rbind (rassert (argc = length xs)) (\<lambda>_. Inr (int (length xs), Some xs))))"

text \<open>\<open>strdupf\<close> on the formatted text: a text that fits \<open>dummy\<close> is duplicated from there, a longer one
  is printed again into a buffer of its size.\<close>

definition strdupf :: "bool \<Rightarrow> string \<Rightarrow> string option" where
  "strdupf mem_ok text =
     (let (dummy, size) = snprintf 2 text in
      if size < 2 then (if mem_ok then Some dummy else None)
      else if \<not> mem_ok then None
      else let (str, size2) = snprintf (size + 1) text in if size + 1 \<le> size2 then None else Some str)"

section \<open>Options\<close>

record wldbg_options =
  o_interactive :: bool
  o_objinfo :: bool
  o_server_mode :: bool
  o_pass_whole_buffer :: bool
  o_path :: "string option"
  o_argc :: int
  o_argv :: "string list option"

fun is_prefix_of :: "string \<Rightarrow> string \<Rightarrow> bool" where
  "is_prefix_of [] src = True"
| "is_prefix_of (c # what) [] = False"
| "is_prefix_of (c # what) (d # src) = (if c \<noteq> d then False else is_prefix_of what src)"

definition set_opt :: "string \<Rightarrow> wldbg_options \<Rightarrow> bool \<times> wldbg_options" where
  "set_opt arg opts =
     (if arg = [] then (False, opts)
      else if is_prefix_of arg ''help'' then (False, opts)
      else if is_prefix_of arg ''interactive'' then (True, opts\<lparr>o_interactive := True\<rparr>)
      else if is_prefix_of arg ''server-mode'' then (True, opts\<lparr>o_server_mode := True\<rparr>)
      else if is_prefix_of arg ''pass-whole-buffer'' then (True, opts\<lparr>o_pass_whole_buffer := True\<rparr>)
      else if is_prefix_of arg ''objinfo'' then (True, opts\<lparr>o_objinfo := True\<rparr>)
      else (True, opts))"

text \<open>\<open>argv\<close> from position \<open>n\<close> on.\<close>

fun opts_loop :: "string list \<Rightarrow> nat \<Rightarrow> wldbg_options \<Rightarrow> int \<times> wldbg_options" where
  "opts_loop [] n opts = (int n, opts)"
| "opts_loop (a # as) n opts =
     (if a = ''--'' then (int (n + 1), opts)
      else if is_prefix_of ''--'' a then
        (case set_opt (drop 2 a) opts of
           (ok, opts') \<Rightarrow> if \<not> ok then (-1, opts') else opts_loop as (n + 1) opts')
      else if is_prefix_of ''-'' a then
        (if a = ''-g'' then opts_loop as (n + 1) (snd (set_opt ''objinfo'' opts))
         else
           (case set_opt (drop 1 a) opts of
              (ok, opts') \<Rightarrow> if \<not> ok then (-1, opts') else opts_loop as (n + 1) opts'))
      else (int n, opts))"

definition get_opts :: "string list \<Rightarrow> wldbg_options \<Rightarrow> int \<times> wldbg_options" where
  "get_opts argv opts = opts_loop (drop 1 argv) 1 opts"

section \<open>Numbers\<close>

lemma uint_chars_iff:
  "uint_chars s \<longleftrightarrow> (\<exists>ds ws. s = ds @ ws \<and> (\<forall>c \<in> set ds. is_digit c) \<and> (\<forall>c \<in> set ws. is_space c))"
proof (induction s)
  case (Cons c s)
  show ?case
  proof (cases "is_space c")
    case True
    then have "uint_chars (c # s) \<longleftrightarrow> (\<forall>d \<in> set (c # s). is_space d)"
      by (simp add: skip_ws_def dropWhile_eq_Nil_conv)
    moreover have "(\<forall>d \<in> set (c # s). is_space d) \<longleftrightarrow>
        (\<exists>ds ws. c # s = ds @ ws \<and> (\<forall>c \<in> set ds. is_digit c) \<and> (\<forall>c \<in> set ws. is_space c))"
    proof
      assume "\<forall>d \<in> set (c # s). is_space d"
      then show "\<exists>ds ws. c # s = ds @ ws \<and> (\<forall>c \<in> set ds. is_digit c) \<and> (\<forall>c \<in> set ws. is_space c)"
        by (intro exI [of _ "[]"] exI [of _ "c # s"]) simp
    next
      assume "\<exists>ds ws. c # s = ds @ ws \<and> (\<forall>c \<in> set ds. is_digit c) \<and> (\<forall>c \<in> set ws. is_space c)"
      then obtain ds ws where "c # s = ds @ ws" "\<forall>c \<in> set ds. is_digit c" "\<forall>c \<in> set ws. is_space c" by blast
      then show "\<forall>d \<in> set (c # s). is_space d"
        using True space_not_digit by (cases ds) auto
    qed
    ultimately show ?thesis by simp
  next
    case ns: False
    show ?thesis
    proof (cases "is_digit c")
      case True
      have "(\<exists>ds ws. c # s = ds @ ws \<and> (\<forall>c \<in> set ds. is_digit c) \<and> (\<forall>c \<in> set ws. is_space c)) \<longleftrightarrow>
          (\<exists>ds ws. s = ds @ ws \<and> (\<forall>c \<in> set ds. is_digit c) \<and> (\<forall>c \<in> set ws. is_space c))"
      proof
        assume "\<exists>ds ws. c # s = ds @ ws \<and> (\<forall>c \<in> set ds. is_digit c) \<and> (\<forall>c \<in> set ws. is_space c)"
        then obtain ds ws where "c # s = ds @ ws" "\<forall>c \<in> set ds. is_digit c" "\<forall>c \<in> set ws. is_space c" by blast
        then show "\<exists>ds ws. s = ds @ ws \<and> (\<forall>c \<in> set ds. is_digit c) \<and> (\<forall>c \<in> set ws. is_space c)"
          using ns by (cases ds) auto
      next
        assume "\<exists>ds ws. s = ds @ ws \<and> (\<forall>c \<in> set ds. is_digit c) \<and> (\<forall>c \<in> set ws. is_space c)"
        then obtain ds ws where "s = ds @ ws" "\<forall>c \<in> set ds. is_digit c" "\<forall>c \<in> set ws. is_space c" by blast
        then show "\<exists>ds ws. c # s = ds @ ws \<and> (\<forall>c \<in> set ds. is_digit c) \<and> (\<forall>c \<in> set ws. is_space c)"
          using True by (intro exI [of _ "c # ds"] exI [of _ ws]) simp
      qed
      with Cons ns True show ?thesis by simp
    next
      case False
      then have "\<not> (\<exists>ds ws. c # s = ds @ ws \<and> (\<forall>c \<in> set ds. is_digit c) \<and> (\<forall>c \<in> set ws. is_space c))"
        using ns by (auto simp: Cons_eq_append_conv)
      with ns False show ?thesis by simp
    qed
  qed
qed simp

text \<open>The forms the function accepts: white space, digits, white space.\<close>

definition uint_form :: "string \<Rightarrow> string \<Rightarrow> bool" where
  "uint_form s ds \<longleftrightarrow> ds \<noteq> [] \<and> (\<forall>c \<in> set ds. is_digit c) \<and>
     (\<exists>ws1 ws2. s = ws1 @ ds @ ws2 \<and> (\<forall>c \<in> set ws1. is_space c) \<and> (\<forall>c \<in> set ws2. is_space c))"

lemma str_to_uint_form:
  assumes "uint_form s ds"
  shows "str_to_uint s = sint (word_of_nat (min (dec_val ds) (2 ^ 63 - 1)) :: u32)"
proof -
  obtain ws1 ws2 where s: "s = ws1 @ ds @ ws2" "\<forall>c \<in> set ws1. is_space c" "\<forall>c \<in> set ws2. is_space c"
    and ds: "ds \<noteq> []" "\<forall>c \<in> set ds. is_digit c"
    using assms by (auto simp: uint_form_def)
  then obtain d ds' where d: "ds = d # ds'" "is_digit d" "\<not> is_space d"
    using space_not_digit by (cases ds) auto
  have sk: "skip_ws s = ds @ ws2"
    unfolding skip_ws_def s(1) using s(2) d by (simp add: dropWhile_append_all)
  have "takeWhile is_digit ws2 = []"
    using s(3) space_not_digit by (cases ws2) auto
  then have "takeWhile is_digit (ds @ ws2) = ds" using ds(2) by (simp add: takeWhile_append_all)
  moreover have "uint_chars (ds @ ws2)" using ds(2) s(3) uint_chars_iff by blast
  ultimately show ?thesis using sk ds(1) by (simp add: str_to_uint_def atoi_def)
qed

lemma str_to_uint_other: "\<nexists>ds. uint_form s ds \<Longrightarrow> str_to_uint s = -1"
proof -
  assume no: "\<nexists>ds. uint_form s ds"
  show ?thesis
  proof (cases "skip_ws s \<noteq> [] \<and> uint_chars (skip_ws s)")
    case True
    then obtain ds ws2 where d: "skip_ws s = ds @ ws2" "\<forall>c \<in> set ds. is_digit c" "\<forall>c \<in> set ws2. is_space c"
      using uint_chars_iff by blast
    have s: "s = takeWhile is_space s @ ds @ ws2" using d(1) by (metis skip_ws_def takeWhile_dropWhile_id)
    have "ds \<noteq> []"
    proof
      assume "ds = []"
      with d True have "\<exists>c cs. skip_ws s = c # cs \<and> is_space c" by (cases "skip_ws s") auto
      then show False using chr_at_dropWhile [of is_space s] by (auto simp: skip_ws_def)
    qed
    then have "uint_form s ds"
      unfolding uint_form_def using d s set_takeWhileD [of _ is_space s] by blast
    with no show ?thesis by blast
  qed (auto simp: str_to_uint_def Let_def)
qed

section \<open>What the options do\<close>

lemma is_prefix_of_iff: "is_prefix_of what src \<longleftrightarrow> take (length what) src = what"
  by (induction what src rule: is_prefix_of.induct) auto

text \<open>The text of an option, and whether it asks for \<open>name\<close>: a non-empty abbreviation, unless it
  also abbreviates \<open>help\<close> or a name that is tried before.\<close>

definition opt_text :: "string \<Rightarrow> string" where
  "opt_text a = (if is_prefix_of ''--'' a then drop 2 a else drop 1 a)"

definition asks_for :: "string \<Rightarrow> string \<Rightarrow> bool" where
  "asks_for name a \<longleftrightarrow> a \<noteq> ''-g'' \<and> opt_text a \<noteq> [] \<and> \<not> is_prefix_of (opt_text a) ''help'' \<and>
     is_prefix_of (opt_text a) name"

lemma prefix_names_disjoint:
  assumes "t \<noteq> []"
  shows "is_prefix_of t ''interactive'' \<Longrightarrow> \<not> is_prefix_of t ''server-mode''"
    and "is_prefix_of t ''objinfo'' \<Longrightarrow> \<not> is_prefix_of t ''server-mode'' \<and> \<not> is_prefix_of t ''interactive''"
    and "is_prefix_of t ''pass-whole-buffer'' \<Longrightarrow> \<not> is_prefix_of t ''server-mode'' \<and> \<not> is_prefix_of t ''interactive''"
  using assms by (cases t; simp split: if_splits)+

lemma set_opt_flags:
  assumes "set_opt t opts = (True, opts')"
  shows "o_interactive opts' \<longleftrightarrow> o_interactive opts \<or>
      (t \<noteq> [] \<and> \<not> is_prefix_of t ''help'' \<and> is_prefix_of t ''interactive'')"
    and "o_server_mode opts' \<longleftrightarrow> o_server_mode opts \<or>
      (t \<noteq> [] \<and> \<not> is_prefix_of t ''help'' \<and> is_prefix_of t ''server-mode'')"
  using assms prefix_names_disjoint [of t] by (auto simp: set_opt_def split: if_splits)

lemma set_opt_objinfo: "set_opt ''objinfo'' opts = (True, opts\<lparr>o_objinfo := True\<rparr>)"
  by (simp add: set_opt_def)

lemma opts_loop_effect:
  assumes "opts_loop as n opts = (r, opts')" "r \<noteq> -1"
  shows "\<exists>k. r = int (n + k) \<and> k \<le> length as \<and> (\<forall>a \<in> set (take k as). is_prefix_of ''-'' a) \<and>
    (k = length as \<or> (0 < k \<and> as ! (k - 1) = ''--'') \<or> \<not> is_prefix_of ''-'' (as ! k)) \<and>
    (o_interactive opts' \<longleftrightarrow> o_interactive opts \<or> (\<exists>a \<in> set (take k as). asks_for ''interactive'' a)) \<and>
    (o_server_mode opts' \<longleftrightarrow> o_server_mode opts \<or> (\<exists>a \<in> set (take k as). asks_for ''server-mode'' a))"
  using assms
proof (induction as n opts rule: opts_loop.induct)
  case (2 a as n opts)
  show ?case
  proof (cases "a = ''--'' \<or> \<not> is_prefix_of ''-'' a")
    case stop: True
    show ?thesis
    proof (cases "a = ''--''")
      case True
      with 2 show ?thesis by (intro exI [of _ 1]) (auto simp: asks_for_def opt_text_def)
    next
      case False
      with stop have "\<not> is_prefix_of ''--'' a" by (cases a) auto
      with 2 False stop show ?thesis by (intro exI [of _ 0]) auto
    qed
  next
    case False
    then have a: "a \<noteq> ''--''" "is_prefix_of ''-'' a" by auto
    obtain opts1 where o1: "opts_loop as (n + 1) opts1 = (r, opts')"
      "o_interactive opts1 \<longleftrightarrow> o_interactive opts \<or> asks_for ''interactive'' a"
      "o_server_mode opts1 \<longleftrightarrow> o_server_mode opts \<or> asks_for ''server-mode'' a"
      and IH: "\<And>k. \<exists>k. r = int (n + 1 + k) \<and> k \<le> length as \<and> (\<forall>a \<in> set (take k as). is_prefix_of ''-'' a) \<and>
    (k = length as \<or> (0 < k \<and> as ! (k - 1) = ''--'') \<or> \<not> is_prefix_of ''-'' (as ! k)) \<and>
    (o_interactive opts' \<longleftrightarrow> o_interactive opts1 \<or> (\<exists>a \<in> set (take k as). asks_for ''interactive'' a)) \<and>
    (o_server_mode opts' \<longleftrightarrow> o_server_mode opts1 \<or> (\<exists>a \<in> set (take k as). asks_for ''server-mode'' a))"
    proof (cases "a = ''-g''")
      case True
      then have nd: "\<not> is_prefix_of ''--'' a" by simp
      have l: "opts_loop as (n + 1) (opts\<lparr>o_objinfo := True\<rparr>) = (r, opts')"
        using 2(4) True by (simp add: set_opt_objinfo)
      show thesis
        by (rule that [OF l]) (use 2(2) [OF a(1) nd a(2) True] l 2(5) True in
          \<open>auto simp: asks_for_def set_opt_objinfo\<close>)
    next
      case ng: False
      obtain ok opts1 where so: "set_opt (opt_text a) opts = (ok, opts1)" by fastforce
      have ok: "ok" and l: "opts_loop as (n + 1) opts1 = (r, opts')"
        using 2(4,5) a ng so by (auto simp: opt_text_def split: if_splits)
      have fl: "o_interactive opts1 \<longleftrightarrow> o_interactive opts \<or> asks_for ''interactive'' a"
        "o_server_mode opts1 \<longleftrightarrow> o_server_mode opts \<or> asks_for ''server-mode'' a"
        using set_opt_flags [of "opt_text a" opts opts1] so ok ng by (auto simp: asks_for_def)
      show thesis
      proof (rule that [OF l fl], goal_cases)
        case 1
        show ?case
        proof (cases "is_prefix_of ''--'' a")
          case True
          then show ?thesis using 2(1) [OF a(1) True] so ok l 2(5) by (auto simp: opt_text_def)
        next
          case False
          then show ?thesis using 2(3) [OF a(1) False a(2) ng] so ok l 2(5) by (auto simp: opt_text_def)
        qed
      qed
    qed
    then obtain k where k: "r = int (n + 1 + k)" "k \<le> length as" "\<forall>a \<in> set (take k as). is_prefix_of ''-'' a"
      "k = length as \<or> (0 < k \<and> as ! (k - 1) = ''--'') \<or> \<not> is_prefix_of ''-'' (as ! k)"
      "o_interactive opts' \<longleftrightarrow> o_interactive opts1 \<or> (\<exists>a \<in> set (take k as). asks_for ''interactive'' a)"
      "o_server_mode opts' \<longleftrightarrow> o_server_mode opts1 \<or> (\<exists>a \<in> set (take k as). asks_for ''server-mode'' a)"
      by blast
    show ?thesis
      using k o1(2,3) a(2) by (intro exI [of _ "Suc k"]) (auto simp: nth_Cons split: nat.splits)
  qed
qed auto

section \<open>Properties\<close>

text \<open>\<open>str_to_uint\<close> inverts printing: any number below \<open>2 ^ 31\<close> in decimal, with white space
  around it, is read back, and any text that is not digits between white space is refused.\<close>

theorem str_to_uint_inverts_printing:
  assumes "n < 2 ^ 31" "\<forall>c \<in> set ws1. is_space c" "\<forall>c \<in> set ws2. is_space c"
  shows "str_to_uint (ws1 @ show_nat n @ ws2) = int n \<and> ((\<nexists>ds. uint_form s ds) \<longrightarrow> str_to_uint s = -1)"
proof -
  have "uint_form (ws1 @ show_nat n @ ws2) (show_nat n)"
    using assms show_nat_digits unfolding uint_form_def by (metis show_nat_not_Nil)
  moreover have "min n (2 ^ 63 - 1) = n" using assms(1) by simp
  ultimately have "str_to_uint (ws1 @ show_nat n @ ws2) = sint (word_of_nat n :: u32)"
    using str_to_uint_form dec_val_show_nat by simp
  moreover have "sint (word_of_nat n :: u32) = int n"
    using assms(1) by (simp add: signed_of_nat signed_take_bit_int_eq_self)
  ultimately show ?thesis using str_to_uint_other by simp
qed

theorem str_to_uint_inverts_printing_witness:
  "str_to_uint '' 42 '' = 42 \<and> str_to_uint ''4x'' = -1"
proof -
  have "show_nat 42 = ''42''" by code_simp
  moreover have "\<nexists>ds. uint_form ''4x'' ds"
  proof
    assume "\<exists>ds. uint_form ''4x'' ds"
    then obtain ds ws1 ws2 where d: "''4x'' = ws1 @ ds @ ws2"
      "\<forall>c \<in> set ws1. is_space c" "\<forall>c \<in> set ds. is_digit c" "\<forall>c \<in> set ws2. is_space c"
      unfolding uint_form_def by blast
    have "CHR ''x'' \<in> set (ws1 @ ds @ ws2)" unfolding d(1) [symmetric] by simp
    moreover have "\<not> is_space (CHR ''x'')" "\<not> is_digit (CHR ''x'')" by (simp_all add: is_space_def is_digit_def)
    ultimately show False using d(2-4) by auto
  qed
  moreover have "\<forall>c \<in> set '' ''. is_space c" by (simp add: is_space_def)
  ultimately show ?thesis
    using str_to_uint_inverts_printing [of 42 "'' ''" "'' ''" "''4x''"] by simp
qed

text \<open>Larger numbers are not refused: \<open>atoi\<close> keeps the low 32 bits, so a number that is
  \<open>2 ^ 32\<close> too large is taken for the number it is congruent to.\<close>

theorem str_to_uint_wraps:
  assumes "n < 2 ^ 31"
  shows "str_to_uint (show_nat (2 ^ 32 + n)) = int n"
proof -
  let ?k = "2 ^ 32 + n :: nat"
  have "uint_form (show_nat ?k) (show_nat ?k)"
    using show_nat_digits [of ?k] by (auto simp: uint_form_def intro!: exI [of _ "[]"])
  moreover have "min ?k (2 ^ 63 - 1) = ?k" using assms by simp
  ultimately have "str_to_uint (show_nat ?k) = sint (word_of_nat ?k :: u32)"
    using str_to_uint_form dec_val_show_nat by simp
  moreover have "(word_of_nat ?k :: u32) = word_of_nat n"
  proof -
    have z: "(4294967296 :: u32) = 0" by simp
    have "(word_of_nat ?k :: u32) = 4294967296 + word_of_nat n" by simp
    then show ?thesis unfolding z by (simp only: add_0)
  qed
  moreover have "sint (word_of_nat n :: u32) = int n"
    using assms by (simp add: signed_of_nat signed_take_bit_int_eq_self)
  ultimately show ?thesis by (simp only:)
qed

theorem str_to_uint_wraps_witness: "str_to_uint (show_nat 4294967303) = 7"
  using str_to_uint_wraps [of 7] by simp

text \<open>\<open>get_opts\<close> stops at the first argument that is no option, after a \<open>--\<close>, or at the end;
  everything before is an option; and interactive or server mode is on afterwards exactly if it was
  before or one of these options abbreviates it without abbreviating \<open>help\<close>.\<close>

theorem get_opts_stops_at_program:
  assumes "get_opts (prog # as) opts = (r, opts')" "r \<noteq> -1"
  shows "\<exists>k. r = int (1 + k) \<and> k \<le> length as \<and> (\<forall>a \<in> set (take k as). is_prefix_of ''-'' a) \<and>
    (k = length as \<or> (0 < k \<and> as ! (k - 1) = ''--'') \<or> \<not> is_prefix_of ''-'' (as ! k)) \<and>
    (o_interactive opts' \<longleftrightarrow> o_interactive opts \<or> (\<exists>a \<in> set (take k as). asks_for ''interactive'' a)) \<and>
    (o_server_mode opts' \<longleftrightarrow> o_server_mode opts \<or> (\<exists>a \<in> set (take k as). asks_for ''server-mode'' a))"
  using opts_loop_effect [of as 1 opts r opts'] assms by (simp add: get_opts_def)

theorem get_opts_stops_at_program_witness:
  "\<exists>opts'. get_opts [''wldbg'', ''-i'', ''weston''] \<lparr>o_interactive = False, o_objinfo = False,
      o_server_mode = False, o_pass_whole_buffer = False, o_path = None, o_argc = 0, o_argv = None\<rparr> = (2, opts') \<and>
    o_interactive opts'"
proof -
  let ?o = "\<lparr>o_interactive = False, o_objinfo = False, o_server_mode = False, o_pass_whole_buffer = False,
    o_path = None, o_argc = 0, o_argv = None\<rparr>"
  have g: "get_opts [''wldbg'', ''-i'', ''weston''] ?o = (2, ?o\<lparr>o_interactive := True\<rparr>)"
    by (simp add: get_opts_def set_opt_def)
  from get_opts_stops_at_program [OF g] show ?thesis using g by auto
qed

end
