(* ===== verification/Pass_Loading.thy ===== *)
theory Pass_Loading
  imports Util_Opts
begin

text \<open>
  \<^verbatim>\<open>src/passes.c\<close>: finding the shared object of a pass, and the part of the command line that
  names the passes and the program.

  The dynamic linker, the file system, \<open>strdup\<close> and the passes' own \<open>init\<close> are the record \<open>host\<close>.
  \<open>'p\<close> is a loaded \<open>struct wldbg_pass\<close>.
\<close>

record 'p host =
  h_exists :: "string \<Rightarrow> bool"
  h_loaded :: "string \<Rightarrow> bool"
  h_dlopen :: "string \<Rightarrow> bool"
  h_dlsym :: "string \<Rightarrow> 'p option"
  h_load_once :: "'p \<Rightarrow> bool"
  h_eexist :: "string \<Rightarrow> bool"
  h_home :: "string option"
  h_libdir :: string
  h_objdir :: string
  h_list_pass :: 'p
  h_mem_ok :: bool
  h_init :: "'p \<Rightarrow> (string list \<Rightarrow> int) option"

definition load_pass :: "'p host \<Rightarrow> string \<Rightarrow> 'p option" where
  "load_pass h path =
     (if \<not> h_exists h path then None
      else if \<not> h_dlopen h path then None
      else
        (case h_dlsym h path of
           None \<Rightarrow> None
         | Some p \<Rightarrow> if h_load_once h p \<and> h_loaded h path then None else Some p))"

definition PATH_LENGTH :: nat where
  "PATH_LENGTH = 256"

definition build_path :: "string option \<Rightarrow> string option \<Rightarrow> string \<Rightarrow> string option" where
  "build_path prefix middle name =
     (let (path, len) = snprintf PATH_LENGTH
            ((case prefix of None \<Rightarrow> [] | Some p \<Rightarrow> p) @ (case middle of None \<Rightarrow> [] | Some m \<Rightarrow> m) @ name @ ''.so'')
      in if PATH_LENGTH \<le> len then None else Some path)"

text \<open>The places \<open>create_pass\<close> tries, in its order.\<close>

definition search_places :: "'p host \<Rightarrow> (string option \<times> string option) list" where
  "search_places h =
     [(Some ''./'', None), (Some ''passes/'', Some (h_objdir h))] @
     (case h_home h of None \<Rightarrow> [] | Some home \<Rightarrow> [(Some home, Some ''/.wldbg/'')]) @
     [(Some (h_libdir h), Some ''/wldbg/''), (Some ''/usr/local/lib/wldbg/'', None),
      (Some ''/usr/lib/wldbg/'', None), (Some ''/lib/wldbg/'', None)]"

text \<open>A place is skipped once a load has left \<open>EEXIST\<close> in \<open>errno\<close>.\<close>

fun try_places :: "'p host \<Rightarrow> string \<Rightarrow> (string option \<times> string option) list \<Rightarrow> 'p option" where
  "try_places h name [] = None"
| "try_places h name ((prefix, middle) # ps) =
     (case build_path prefix middle name of
        None \<Rightarrow> None
      | Some path \<Rightarrow>
          (case load_pass h path of
             Some p \<Rightarrow> Some p
           | None \<Rightarrow> if h_eexist h path then None else try_places h name ps))"

definition alloc_pass :: "'p host \<Rightarrow> string \<Rightarrow> string option" where
  "alloc_pass h name = (if h_mem_ok h then Some name else None)"

definition create_pass :: "'p host \<Rightarrow> string \<Rightarrow> (string \<times> 'p) option" where
  "create_pass h name =
     (case (if name = ''list'' then Some (h_list_pass h) else try_places h name (search_places h)) of
        None \<Rightarrow> None
      | Some p \<Rightarrow> map_option (\<lambda>n. (n, p)) (alloc_pass h name))"

fun count_args :: "string list \<Rightarrow> nat" where
  "count_args [] = 0"
| "count_args (a # as) =
     (if a = ''--'' \<or> a = '','' then 0
      else if CHR '','' \<in> set a then 1
      else Suc (count_args as))"

text \<open>Cutting a string at its last comma.\<close>

definition cut_comma :: "string \<Rightarrow> string" where
  "cut_comma a = (if CHR '','' \<in> set a then rev (drop 1 (dropWhile (\<lambda>c. c \<noteq> CHR '','') (rev a))) else a)"

record 'p load_state =
  l_passes :: "(string \<times> 'p) list"
  l_opts :: wldbg_options
  l_created :: nat

definition pass_init :: "'p host \<Rightarrow> 'p \<Rightarrow> string list \<Rightarrow> int" where
  "pass_init h pass argv = (case h_init h pass of None \<Rightarrow> 0 | Some f \<Rightarrow> f argv)"

text \<open>The loop over \<open>rest\<close>; \<open>as\<close> is \<open>argv + argc - rest\<close>.  After a failed \<open>init\<close> the code continues
  with the same \<open>rest\<close>, on arguments from which a comma has been removed.\<close>

partial_function (option) load_loop ::
    "'p host \<Rightarrow> string list \<Rightarrow> 'p load_state \<Rightarrow> 'p load_state res option" where
  "load_loop h as st =
     (if as = [] then Some (Inr st)
      else
        let n = count_args as in
        if n = 0 then
          (if hd as = ''--'' then
             (if tl as = [] then Some (Inl NullDeref)
              else
                Some (rbind (copy_arguments (h_mem_ok h) (\<lambda>_. h_mem_ok h) (length as - 1) (tl as)) (\<lambda>(argc, argv).
                  rbind (rassert (argc = int (length as) - 1)) (\<lambda>_.
                    Inr (st\<lparr>l_opts := (l_opts st)\<lparr>
                      o_path := (if h_mem_ok h then Some (hd (tl as)) else None),
                      o_argc := argc, o_argv := (if argv = None then o_argv (l_opts st) else argv)\<rparr>\<rparr>)))))
           else load_loop h (tl as) st)
        else
          let as' = as[n - 1 := cut_comma (as ! (n - 1))] in
          (case create_pass h (hd as') of
             Some (name, p) \<Rightarrow>
               if pass_init h p (take n as') \<noteq> 0 then load_loop h as' st
               else load_loop h (drop n as')
                      (st\<lparr>l_passes := insert_after_first (name, p) (l_passes st), l_created := l_created st + 1\<rparr>)
           | None \<Rightarrow> load_loop h (drop n as') st))"

definition load_passes :: "'p host \<Rightarrow> (string \<times> 'p) list \<Rightarrow> wldbg_options \<Rightarrow> string list \<Rightarrow> (int \<times> 'p load_state) res option" where
  "load_passes h passes opts as =
     map_option (\<lambda>r. rbind r (\<lambda>st. Inr (int (l_created st), st)))
       (load_loop h as \<lparr>l_passes = passes, l_opts = opts, l_created = 0\<rparr>)"

section \<open>Arguments\<close>

lemma count_args_le: "count_args as \<le> length as"
  by (induction as) auto

lemma count_args_zero:
  "as \<noteq> [] \<Longrightarrow> count_args as = 0 \<longleftrightarrow> hd as = ''--'' \<or> hd as = '',''"
  by (cases as) auto

lemma copy_loop_all: "length as + num \<le> argc \<Longrightarrow> copy_loop (\<lambda>_. True) argc num as = Inr (Some as)"
  by (induction as arbitrary: num) auto

lemma copy_arguments_all: "copy_arguments True (\<lambda>_. True) (length as) as = Inr (int (length as), Some as)"
  by (simp add: copy_arguments_def copy_loop_all)

text \<open>What the comma-separated groups of a command line are: each ends at an argument with a comma
  in it, at a lone comma, or at \<open>--\<close>.\<close>

definition loadable :: "'p host \<Rightarrow> bool" where
  "loadable h \<longleftrightarrow> h_mem_ok h \<and> (\<forall>p args. pass_init h p args = 0)"

lemma load_loop_returns:
  assumes "loadable h" "as = [] \<or> last as \<noteq> ''--''" "l_passes st = q # qs"
  shows "\<exists>st' new. load_loop h as st = Some (Inr st') \<and> l_passes st' = q # rev new @ qs \<and>
    l_created st' = l_created st + length new"
  using assms(2,3)
proof (induction "length as" arbitrary: as st qs rule: less_induct)
  case less
  have ini: "pass_init h p args = 0" "h_mem_ok h" for p args using assms(1) by (simp_all add: loadable_def)
  show ?case
  proof (cases "as = []")
    case True
    then have "load_loop h as st = Some (Inr st)" by (subst load_loop.simps) simp
    with less.prems(2) show ?thesis by (intro exI [of _ st] exI [of _ "[]"]) simp
  next
    case ne: False
    let ?n = "count_args as"
    show ?thesis
    proof (cases "?n = 0")
      case True
      show ?thesis
      proof (cases "hd as = ''--''")
        case d: True
        then have "tl as \<noteq> []" using ne less.prems by (cases as) auto
        then obtain st' where "load_loop h as st = Some (Inr st')" "l_passes st' = l_passes st" "l_created st' = l_created st"
          using ne True d ini(2) copy_arguments_all [of "tl as"]
          by (subst (asm) (1) load_loop.simps) (simp add: Let_def of_nat_diff Suc_leI)
        with less.prems(2) show ?thesis by (intro exI [of _ st'] exI [of _ "[]"]) simp
      next
        case False
        have l: "tl as = [] \<or> last (tl as) \<noteq> ''--''" using less.prems ne by (cases as) (auto split: if_splits)
        have "load_loop h as st = load_loop h (tl as) st"
          using ne True False by (subst load_loop.simps) (simp add: Let_def)
        with less.hyps [of "tl as" st qs] l ne less.prems(2) show ?thesis by simp
      qed
    next
      case n: False
      let ?as = "as[?n - 1 := cut_comma (as ! (?n - 1))]"
      have len: "length (drop ?n ?as) < length as" using n ne by auto
      have "drop ?n ?as = drop ?n as" using n by simp
      then have l: "drop ?n ?as = [] \<or> last (drop ?n ?as) \<noteq> ''--''" using less.prems by auto
      show ?thesis
      proof (cases "create_pass h (hd ?as)")
        case None
        then have "load_loop h as st = load_loop h (drop ?n ?as) st"
          using ne n by (subst load_loop.simps) (simp add: Let_def)
        with less.hyps [OF len l less.prems(2)] show ?thesis by simp
      next
        case (Some np)
        obtain name p where np: "np = (name, p)" by fastforce
        let ?st = "st\<lparr>l_passes := insert_after_first (name, p) (l_passes st), l_created := l_created st + 1\<rparr>"
        have eq: "load_loop h as st = load_loop h (drop ?n ?as) ?st"
          using ne n Some np ini(1) by (subst load_loop.simps) (simp add: Let_def)
        have "l_passes ?st = q # (name, p) # qs" using less.prems(2) by simp
        then obtain st' new where "load_loop h (drop ?n ?as) ?st = Some (Inr st')"
          "l_passes st' = q # rev new @ (name, p) # qs" "l_created st' = l_created ?st + length new"
          using less.hyps [OF len l] by blast
        then show ?thesis unfolding eq by (intro exI [of _ st'] exI [of _ "(name, p) # new"]) simp
      qed
    qed
  qed
qed

text \<open>An \<open>init\<close> that always fails is called again and again.\<close>

lemma cut_comma_none: "CHR '','' \<notin> set a \<Longrightarrow> cut_comma a = a"
  by (simp add: cut_comma_def)

lemma load_loop_stuck:
  assumes "create_pass h nm = Some (n0, p)" "\<And>args. pass_init h p args \<noteq> 0" "CHR '','' \<notin> set nm" "nm \<noteq> ''--''"
  shows "load_loop h (nm # as) st = None"
proof (rule ccontr)
  assume "load_loop h (nm # as) st \<noteq> None"
  then obtain r where r: "load_loop h (nm # as) st = Some r" by blast
  have "h = h \<and> (\<exists>bs. nm # as = nm # bs) \<longrightarrow> False"
  proof (rule load_loop.raw_induct [where P = "\<lambda>g xs st r. g = h \<and> (\<exists>bs. xs = nm # bs) \<longrightarrow> False", OF _ r])
    fix f :: "'a host \<Rightarrow> string list \<Rightarrow> 'a load_state \<Rightarrow> 'a load_state res option" and g xs st r
    assume IH: "\<And>g xs st r. f g xs st = Some r \<Longrightarrow> g = h \<and> (\<exists>bs. xs = nm # bs) \<longrightarrow> False"
      and eq: "(if xs = [] then Some (Inr st)
      else
        let n = count_args xs in
        if n = 0 then
          (if hd xs = ''--'' then
             (if tl xs = [] then Some (Inl NullDeref)
              else
                Some (rbind (copy_arguments (h_mem_ok g) (\<lambda>_. h_mem_ok g) (length xs - 1) (tl xs)) (\<lambda>(argc, argv).
                  rbind (rassert (argc = int (length xs) - 1)) (\<lambda>_.
                    Inr (st\<lparr>l_opts := (l_opts st)\<lparr>
                      o_path := (if h_mem_ok g then Some (hd (tl xs)) else None),
                      o_argc := argc, o_argv := (if argv = None then o_argv (l_opts st) else argv)\<rparr>\<rparr>)))))
           else f g (tl xs) st)
        else
          let as' = xs[n - 1 := cut_comma (xs ! (n - 1))] in
          (case create_pass g (hd as') of
             Some (name, p) \<Rightarrow>
               if pass_init g p (take n as') \<noteq> 0 then f g as' st
               else f g (drop n as')
                      (st\<lparr>l_passes := insert_after_first (name, p) (l_passes st), l_created := l_created st + 1\<rparr>)
           | None \<Rightarrow> f g (drop n as') st)) = Some r"
    show "g = h \<and> (\<exists>bs. xs = nm # bs) \<longrightarrow> False"
    proof
      assume gx: "g = h \<and> (\<exists>bs. xs = nm # bs)"
      then obtain bs where bs: "xs = nm # bs" "g = h" by blast
      have "nm \<noteq> '',''" using assms(3) by auto
      then have n: "count_args xs = Suc (count_args bs)" using bs(1) assms(3,4) by simp
      let ?xs = "xs[count_args xs - 1 := cut_comma (xs ! (count_args xs - 1))]"
      have "\<exists>cs. ?xs = nm # cs"
        using bs(1) n cut_comma_none [OF assms(3)] by (cases "count_args bs") auto
      then obtain cs where cs: "?xs = nm # cs" by blast
      have "f g (nm # cs) st = Some r"
        using eq n bs cs assms(1,2) by (simp add: Let_def)
      with IH show False using bs(2) by blast
    qed
  qed
  then show False by blast
qed

text \<open>A host with an empty file system, on which only the hard-coded pass exists.\<close>

definition bare_host :: "int \<Rightarrow> nat host" where
  "bare_host r = \<lparr>h_exists = \<lambda>_. False, h_loaded = \<lambda>_. False, h_dlopen = \<lambda>_. False, h_dlsym = \<lambda>_. None,
     h_load_once = \<lambda>_. False, h_eexist = \<lambda>_. False, h_home = None, h_libdir = ''/usr/lib'', h_objdir = ''.libs/'',
     h_list_pass = 0, h_mem_ok = True, h_init = \<lambda>_. Some (\<lambda>_. r)\<rparr>"

definition no_options :: wldbg_options where
  "no_options = \<lparr>o_interactive = False, o_objinfo = False, o_server_mode = False, o_pass_whole_buffer = False,
     o_path = None, o_argc = 0, o_argv = None\<rparr>"

section \<open>Properties\<close>

text \<open>When no \<open>init\<close> fails and the command line does not end in \<open>--\<close>, loading returns; the passes
  that could be created are counted, and they stand after the first pass, the resolve pass, in the
  reverse of the order in which they were named.\<close>

theorem load_passes_reverses:
  assumes "loadable h" "as = [] \<or> last as \<noteq> ''--''"
  shows "\<exists>st new. load_passes h (resolve # ps) opts as = Some (Inr (int (length new), st)) \<and>
    l_passes st = resolve # rev new @ ps"
  using load_loop_returns [OF assms, of "\<lparr>l_passes = resolve # ps, l_opts = opts, l_created = 0\<rparr>" resolve ps]
  by (auto simp: load_passes_def)

theorem load_passes_reverses_witness:
  "\<exists>st new. load_passes (bare_host 0) [(''resolve'', 1)] no_options [''list'', ''--'', ''weston''] =
     Some (Inr (int (length new), st)) \<and> l_passes st = (''resolve'', 1) # rev new"
  using load_passes_reverses [of "bare_host 0" "[''list'', ''--'', ''weston'']" "(''resolve'', 1)" "[]" no_options]
  by (simp add: loadable_def bare_host_def pass_init_def)

text \<open>A pass whose \<open>init\<close> fails is tried again for ever: the loop continues without having moved
  past its arguments.\<close>

theorem load_passes_failed_init_hangs:
  assumes "create_pass h nm = Some (n0, p)" "\<And>args. pass_init h p args \<noteq> 0" "CHR '','' \<notin> set nm" "nm \<noteq> ''--''"
  shows "load_passes h passes opts (nm # as) = None"
  using load_loop_stuck [OF assms] by (simp add: load_passes_def)

theorem load_passes_failed_init_hangs_witness:
  "load_passes (bare_host 1) [] no_options [''list'', ''--'', ''weston''] = None"
  by (rule load_passes_failed_init_hangs [of _ _ "''list''" 0])
     (simp_all add: create_pass_def alloc_pass_def bare_host_def pass_init_def)

text \<open>A program separator with nothing after it makes \<open>load_passes\<close> duplicate a null pointer.\<close>

theorem load_passes_bare_separator_crashes:
  shows "load_passes h passes opts [''--''] = Some (Inl NullDeref)"
  by (subst load_passes_def, subst load_loop.simps) simp

end
