(* ===== verification/Startup.thy ===== *)
theory Startup
  imports Event_Loop Pass_Loading
begin

text \<open>
  The start and the end of the program, \<^verbatim>\<open>src/wldbg.c\<close>: \<open>wldbg_init\<close>, \<open>parse_opts\<close>, \<open>main\<close>
  and \<open>wldbg_destroy\<close>, with the functions that enter the built-in passes
  (\<^verbatim>\<open>src/resolve-pass.c\<close>, \<^verbatim>\<open>src/objinfo-pass.c\<close>, \<^verbatim>\<open>src/interactive/interactive.c\<close>).

  The memory that these functions own is the state \<open>prog\<close>: the message buffer, the list of passes and
  which of the linked passes have been freed.  The outcomes of allocations and system calls are the
  record \<open>start_env\<close>.
\<close>

datatype buf_ptr = Buf_null | Buf_live | Buf_freed

record ('g, 'o) prog =
  pg_loop :: "('g, 'o) evloop"
  pg_buffer :: buf_ptr
  pg_passes :: "(string \<times> ('g \<times> 'o) pass) list"
  pg_dead :: "string list"
  pg_epoll_fd :: int
  pg_signals_fd :: int

record ('g, 'o) start_env =
  se_malloc_buffer :: bool
  se_epoll_create :: int
  se_sigprocmask :: bool
  se_signalfd :: int
  se_monitor_signals :: "bool \<times> bool"
  se_resolve_pass :: "('g \<times> 'o) pass option"
  se_objinfo_pass :: "('g \<times> 'o) pass option"
  se_malloc_wldbgi :: bool
  se_interactive_pass :: "('g \<times> 'o) pass option"
  se_signalfd_without_int :: int
  se_sigint_fd :: int
  se_monitor_sigint :: "bool \<times> bool"
  se_monitor_accept :: "bool \<times> bool"
  se_sys :: sys_env
  se_host :: "('g \<times> 'o) pass host"
  se_setup :: "'o conn_setup"
  se_nothing :: 'o
  se_socketpair :: "(int \<times> int) option"
  se_setenv :: bool
  se_fork :: int
  se_sigint :: "('g, 'o) evloop \<Rightarrow> (int \<times> ('g, 'o) evloop) res option"

definition free_buffer :: "('g, 'o) prog \<Rightarrow> ('g, 'o) prog res" where
  "free_buffer pg = (if pg_buffer pg = Buf_freed then Inl UseAfterFree
     else Inr (pg\<lparr>pg_buffer := (if pg_buffer pg = Buf_live then Buf_freed else Buf_null)\<rparr>))"

definition with_loop :: "(('g, 'o) evloop \<Rightarrow> ('g, 'o) evloop) \<Rightarrow> ('g, 'o) prog \<Rightarrow> ('g, 'o) prog" where
  "with_loop f pg = pg\<lparr>pg_loop := f (pg_loop pg)\<rparr>"

section \<open>Built-in passes\<close>

definition wldbg_add_resolve_pass :: "('g, 'o) start_env \<Rightarrow> ('g, 'o) prog \<Rightarrow> int \<times> ('g, 'o) prog" where
  "wldbg_add_resolve_pass e pg =
     (if el_resolving (pg_loop pg) then (0, pg)
      else
        (case se_resolve_pass e of
           None \<Rightarrow> (-1, pg)
         | Some p \<Rightarrow> (0, with_loop (\<lambda>el. el\<lparr>el_resolving := True\<rparr>) (pg\<lparr>pg_passes := (''resolve'', p) # pg_passes pg\<rparr>))))"

definition wldbg_add_objinfo_pass :: "('g, 'o) start_env \<Rightarrow> ('g, 'o) prog \<Rightarrow> int \<times> ('g, 'o) prog" where
  "wldbg_add_objinfo_pass e pg =
     (if el_gathering (pg_loop pg) then (0, pg)
      else
        (case se_objinfo_pass e of
           None \<Rightarrow> (-1, pg)
         | Some p \<Rightarrow>
             (0, with_loop (\<lambda>el. el\<lparr>el_gathering := True\<rparr>)
                   (pg\<lparr>pg_passes := insert_after_first (''objinfo'', p) (pg_passes pg)\<rparr>))))"

text \<open>On an error after the pass was linked it is freed but stays in the list.\<close>

definition interactive_init :: "('g, 'o) start_env \<Rightarrow> ('g, 'o) prog \<Rightarrow> int \<times> ('g, 'o) prog" where
  "interactive_init e pg =
     (if \<not> se_malloc_wldbgi e then (-1, pg)
      else
        (case se_interactive_pass e of
           None \<Rightarrow> (-1, pg)
         | Some p \<Rightarrow>
             let pg1 = pg\<lparr>pg_passes := pg_passes pg @ [(''interactive'', p)]\<rparr>;
                 err_pass = (\<lambda>pg. (-1, pg\<lparr>pg_dead := ''interactive'' # pg_dead pg\<rparr>)) in
             if el_pass_whole_buffer (pg_loop pg1) then err_pass pg1
             else
               let pg2 = pg1\<lparr>pg_signals_fd := se_signalfd_without_int e\<rparr> in
               if pg_signals_fd pg2 = -1 then err_pass pg2
               else if se_sigint_fd e = -1 then err_pass pg2
               else
                 (case wldbg_monitor_fd (fst (se_monitor_sigint e)) (snd (se_monitor_sigint e)) (se_sigint_fd e)
                         Handle_sigint (pg_loop pg2) of
                    (None, el) \<Rightarrow> err_pass (pg2\<lparr>pg_loop := el\<rparr>)
                  | (Some _, el) \<Rightarrow> (0, pg2\<lparr>pg_loop := el\<rparr>))))"

section \<open>Initialisation\<close>

text \<open>\<open>memset (wldbg, 0)\<close>.\<close>

definition zero_prog :: "'g \<Rightarrow> sys \<Rightarrow> ('g, 'o) prog" where
  "zero_prog g s =
     \<lparr>pg_loop = \<lparr>el_exit = False, el_error = False, el_running = False, el_pass_whole_buffer = False,
        el_server_mode = False, el_resolving = False, el_gathering = False, el_global = g, el_monitored = [],
        el_epoll = [], el_conns = [], el_conns_num = 0, el_next = 0, el_killed = [], el_sys = s, el_sm = no_server_mode\<rparr>,
      pg_buffer = Buf_null, pg_passes = [], pg_dead = [], pg_epoll_fd = -1, pg_signals_fd = -1\<rparr>"

definition wldbg_init :: "('g, 'o) start_env \<Rightarrow> 'g \<Rightarrow> sys \<Rightarrow> (int \<times> ('g, 'o) prog) res" where
  "wldbg_init e g s =
     (let pg = zero_prog g s;
          err_data = (\<lambda>pg. rbind (free_buffer pg) (\<lambda>pg. Inr (-1, pg)));
          err_epoll = (\<lambda>pg. err_data (with_loop (el_close (pg_epoll_fd pg)) pg));
          err_signals = (\<lambda>pg. err_epoll (with_loop (el_close (pg_signals_fd pg)) pg)) in
      if \<not> se_malloc_buffer e then Inr (-1, pg)
      else
        let pg1 = pg\<lparr>pg_buffer := Buf_live, pg_epoll_fd := se_epoll_create e\<rparr> in
        if pg_epoll_fd pg1 = -1 then err_data pg1
        else if \<not> se_sigprocmask e then err_epoll pg1
        else
          let pg2 = pg1\<lparr>pg_signals_fd := se_signalfd e\<rparr> in
          if pg_signals_fd pg2 < 0 then err_epoll pg2
          else
            (case wldbg_monitor_fd (fst (se_monitor_signals e)) (snd (se_monitor_signals e)) (pg_signals_fd pg2)
                    Dispatch_signals (pg_loop pg2) of
               (None, el) \<Rightarrow> err_signals (pg2\<lparr>pg_loop := el\<rparr>)
             | (Some _, el) \<Rightarrow>
                 (case wldbg_add_resolve_pass e (pg2\<lparr>pg_loop := el\<rparr>) of
                    (r, pg3) \<Rightarrow> if r < 0 then err_signals pg3 else Inr (0, pg3))))"

fun destroy_conns :: "'o conn list \<Rightarrow> ('g, 'o) evloop \<Rightarrow> ('g, 'o) evloop res" where
  "destroy_conns [] el = Inr el"
| "destroy_conns (c # cs) el = rbind (wldbg_connection_destroy c el) (destroy_conns cs)"

text \<open>The callbacks of passes are not called on freed passes.\<close>

definition wldbg_destroy :: "('g, 'o) start_env \<Rightarrow> ('g, 'o) prog \<Rightarrow> ('g, 'o) prog res" where
  "wldbg_destroy e pg =
     rbind (free_buffer pg) (\<lambda>pg1.
       let close_if = (\<lambda>fd pg. if 0 \<le> fd then with_loop (el_close fd) pg else pg);
           pg2 = close_if (pg_signals_fd pg1) (close_if (pg_epoll_fd pg1) pg1) in
       if \<exists>(n, _) \<in> set (pg_passes pg2). n \<in> set (pg_dead pg2) then Inl UseAfterFree
       else
         let pg3 = with_loop (\<lambda>el. el\<lparr>el_monitored := []\<rparr>) (pg2\<lparr>pg_passes := []\<rparr>) in
         rbind (if el_server_mode (pg_loop pg3) then
                  rbind (free_server_mode_resources (se_sys e) (el_sys (pg_loop pg3)) (el_sm (pg_loop pg3))) (\<lambda>s.
                    Inr (with_loop (\<lambda>el. el\<lparr>el_sys := s\<rparr>) pg3))
                else Inr pg3) (\<lambda>pg4.
         rbind (destroy_conns (el_conns (pg_loop pg4)) (pg_loop pg4)) (\<lambda>el. Inr (pg4\<lparr>pg_loop := el\<rparr>))))"

section \<open>The command line\<close>

definition server_mode_init :: "('g, 'o) start_env \<Rightarrow> ('g, 'o) prog \<Rightarrow> (int \<times> ('g, 'o) prog) res" where
  "server_mode_init e pg =
     (let el = pg_loop pg; display = (case e_display (se_sys e) of None \<Rightarrow> ''wayland-0'' | Some d \<Rightarrow> d) in
      rbind (if sm_connect_to (el_sm el) \<noteq> None
             then server_mode_add_socket_with_lock (se_sys e) (el_server_mode el) display (el_sys el) (el_sm el)
             else server_mode_change_sockets (se_sys e) (el_server_mode el) (el_sys el) (el_sm el)) (\<lambda>(fd, sm, s).
        let el1 = el\<lparr>el_sm := sm, el_sys := s\<rparr> in
        if fd < 0 then Inr (-1, pg\<lparr>pg_loop := el1\<rparr>)
        else
          (case wldbg_monitor_fd (fst (se_monitor_accept e)) (snd (se_monitor_accept e)) fd Server_mode_accept el1 of
             (None, el2) \<Rightarrow> Inr (-1, pg\<lparr>pg_loop := el_close fd el2\<rparr>)
           | (Some _, el2) \<Rightarrow> Inr (0, pg\<lparr>pg_loop := el2\<rparr>))))"

datatype 'a outcome = Returned 'a | Exited int

definition parse_opts :: "('g, 'o) start_env \<Rightarrow> string list \<Rightarrow> ('g, 'o) prog \<Rightarrow> wldbg_options \<Rightarrow>
    (int \<times> ('g, 'o) prog \<times> wldbg_options) outcome res option" where
  "parse_opts e argv pg opts0 =
     (let (off, opts) = get_opts argv opts0; rest = drop (nat off) argv in
      if off = -1 then Some (Inr (Exited 1))
      else
        let pg = (if o_pass_whole_buffer opts then with_loop (\<lambda>el. el\<lparr>el_pass_whole_buffer := True\<rparr>) pg else pg) in
        if o_interactive opts then
          (if int (length argv) - off < 1 then Some (Inr (Returned (-1, pg, opts)))
           else if \<not> h_mem_ok (se_host e) then Some (Inr (Returned (-1, pg, opts)))
           else
             Some (rbind (copy_arguments (h_mem_ok (se_host e)) (\<lambda>_. h_mem_ok (se_host e)) (length rest) rest) (\<lambda>(argc, av).
               let opts = opts\<lparr>o_path := Some (hd rest), o_argc := argc, o_argv := av\<rparr> in
               if argc = -1 then Inr (Returned (-1, pg, opts))
               else rbind (rassert (argc = int (length argv) - off)) (\<lambda>_.
                 let (r, pg1) = interactive_init e pg in
                 Inr (Returned (if r < 0 then -1 else 0, pg1, opts))))))
        else if o_server_mode opts then
          (let pg1 = with_loop (\<lambda>el. el\<lparr>el_server_mode := True,
                 el_sm := (if rest = [] then el_sm el else (el_sm el)\<lparr>sm_connect_to := Some (hd rest)\<rparr>)\<rparr>) pg in
           Some (rbind (server_mode_init e pg1) (\<lambda>(r, pg2).
             if r < 0 then Inr (Returned (-1, pg2, opts))
             else
               let (r2, pg3) = interactive_init e pg2 in
               Inr (Returned (if r2 < 0 then -1 else 0, pg3, opts)))))
        else
          map_option (\<lambda>r. rbind r (\<lambda>(n, st).
            let pg1 = pg\<lparr>pg_passes := l_passes st\<rparr> in
            if n = -1 then Inr (Returned (-1, pg1, l_opts st))
            else if n = 0 then Inr (Returned (-1, pg1, l_opts st))
            else Inr (Returned (0, pg1, l_opts st))))
            (load_passes (se_host e) (pg_passes pg) opts rest))"

text \<open>\<open>main\<close>: the result of \<open>wldbg_init\<close> is not looked at.  The value is the exit status.\<close>

definition wldbg_main :: "('g, 'o) start_env \<Rightarrow> 'g \<Rightarrow> sys \<Rightarrow> string list \<Rightarrow> 'o event list \<Rightarrow> int res option" where
  "wldbg_main e g s argv evs =
     (if length argv = 1 then Some (Inr 1)
      else
        (case wldbg_init e g s of
           Inl f \<Rightarrow> Some (Inl f)
         | Inr (_, pg) \<Rightarrow>
             let finish = (\<lambda>status pg. rbind (wldbg_destroy e pg) (\<lambda>_. Inr (status :: int))); err = finish 1; ok = finish 0 in
             (case parse_opts e argv pg no_options of
                None \<Rightarrow> None
              | Some (Inl f) \<Rightarrow> Some (Inl f)
              | Some (Inr (Exited n)) \<Rightarrow> Some (Inr n)
              | Some (Inr (Returned (r, pg1, opts))) \<Rightarrow>
                  if r < 0 then Some (err pg1)
                  else
                    let (r2, pg2) = (if o_objinfo opts then wldbg_add_objinfo_pass e pg1 else (0, pg1)) in
                    if r2 < 0 then Some (err pg2)
                    else if el_error (pg_loop pg2) then Some (err pg2)
                    else if el_exit (pg_loop pg2) then Some (ok pg2)
                    else
                      (case (if el_server_mode (pg_loop pg2) then Inr (True, pg2)
                             else
                               rbind (spawn_client (se_setup e) (se_nothing e) (se_socketpair e) (se_setenv e) (se_fork e)
                                        (o_path opts) (pg_loop pg2)) (\<lambda>(co, el).
                                 case co of
                                   None \<Rightarrow> Inr (False, pg2\<lparr>pg_loop := el\<rparr>)
                                 | Some c \<Rightarrow> rbind (wldbg_add_connection c el) (\<lambda>(_, el). Inr (True, pg2\<lparr>pg_loop := el\<rparr>)))) of
                         Inl f \<Rightarrow> Some (Inl f)
                       | Inr (running, pg3) \<Rightarrow>
                           if \<not> running then Some (err pg3)
                           else
                             (case wldbg_run (map snd (pg_passes pg3)) (se_sigint e) evs (pg_loop pg3) of
                                None \<Rightarrow> None
                              | Some (Inl f) \<Rightarrow> Some (Inl f)
                              | Some (Inr (r3, el)) \<Rightarrow>
                                  Some (if r3 < 0 then err (pg3\<lparr>pg_loop := el\<rparr>) else ok (pg3\<lparr>pg_loop := el\<rparr>)))))))"

section \<open>Who owns the buffer and the passes\<close>

lemma with_loop_simps [simp]:
  "pg_buffer (with_loop f pg) = pg_buffer pg" "pg_passes (with_loop f pg) = pg_passes pg"
  "pg_dead (with_loop f pg) = pg_dead pg" "pg_loop (with_loop f pg) = f (pg_loop pg)"
  by (simp_all add: with_loop_def)

lemma interactive_init_buffer: "pg_buffer (snd (interactive_init e pg)) = pg_buffer pg"
  by (auto simp: interactive_init_def Let_def split: option.splits prod.splits)

lemma server_mode_init_buffer: "server_mode_init e pg = Inr (r, pg') \<Longrightarrow> pg_buffer pg' = pg_buffer pg"
  by (auto simp: server_mode_init_def Let_def rbind_eq_Inr split: if_splits option.splits prod.splits)

lemma interactive_buffer: "interactive_init e pg = (r, pg') \<Longrightarrow> pg_buffer pg' = pg_buffer pg"
  using interactive_init_buffer [of e pg] by simp

lemma parse_opts_buffer:
  assumes "parse_opts e argv pg opts0 = Some (Inr (Returned (r, pg', opts)))"
  shows "pg_buffer pg' = pg_buffer pg"
  using assms
  by (auto simp: parse_opts_def Let_def rbind_eq_Inr dest!: interactive_buffer server_mode_init_buffer
      split: if_splits prod.splits)

lemma destroy_freed: "pg_buffer pg = Buf_freed \<Longrightarrow> wldbg_destroy e pg = Inl UseAfterFree"
  by (simp add: wldbg_destroy_def free_buffer_def)

lemma objinfo_buffer: "pg_buffer (snd (wldbg_add_objinfo_pass e pg)) = pg_buffer pg"
  by (simp add: wldbg_add_objinfo_pass_def split: option.splits)

lemma resolve_pass_buffer: "wldbg_add_resolve_pass e pg = (r, pg') \<Longrightarrow> pg_buffer pg' = pg_buffer pg"
  by (auto simp: wldbg_add_resolve_pass_def split: if_splits option.splits)

lemma init_failed_buffer:
  assumes "wldbg_init e g s = Inr (r, pg)" "r < 0" "se_malloc_buffer e"
  shows "pg_buffer pg = Buf_freed"
  using assms
  by (auto simp: wldbg_init_def Let_def free_buffer_def rbind_eq_Inr dest!: resolve_pass_buffer
      split: if_splits option.splits prod.splits)

lemma freed_buffer_no_status:
  assumes "wldbg_init e g s = Inr (r, pg)" "pg_buffer pg = Buf_freed" "length argv \<noteq> 1"
    "wldbg_main e g s argv evs = Some (Inr n)"
  shows "parse_opts e argv pg no_options = Some (Inr (Exited n))"
proof -
  obtain q where q: "parse_opts e argv pg no_options = Some (Inr q)"
    using assms(1,3,4) by (auto simp: wldbg_main_def Let_def split: option.splits sum.splits)
  show ?thesis
  proof (cases q)
    case (Exited k)
    then show ?thesis using assms q by (simp add: wldbg_main_def Let_def)
  next
    case (Returned t)
    obtain r1 pg1 opts where t: "t = (r1, pg1, opts)" by (cases t)
    have b1: "pg_buffer pg1 = Buf_freed" using parse_opts_buffer q Returned t assms(2) by metis
    obtain r2 pg2 where o: "(if o_objinfo opts then wldbg_add_objinfo_pass e pg1 else (0, pg1)) = (r2, pg2)" by fastforce
    then have b2: "pg_buffer pg2 = Buf_freed" using b1 objinfo_buffer [of e pg1] by (auto split: if_splits)
    have d: "wldbg_destroy e p = Inl UseAfterFree" if "pg_buffer p = Buf_freed" for p using destroy_freed [OF that] .
    show ?thesis
      using assms(1,3,4) q Returned t o d [OF b1] d [OF b2] d [of "pg2\<lparr>pg_loop := _\<rparr>"] b2
      by (auto simp: wldbg_main_def Let_def rbind_eq_Inr destroy_freed split: if_splits option.splits sum.splits)
  qed
qed

section \<open>Properties\<close>

text \<open>\<open>main\<close> does not look at the result of \<open>wldbg_init\<close>: once the initialisation has failed after
  its first allocation, the program never ends with an exit status of its own \<open>main\<close>; only the usage
  message ends it, every other way leads to a double free of the message buffer, to an earlier fault,
  or nowhere.\<close>

theorem failed_init_never_exits:
  assumes "wldbg_init e g s = Inr (r, pg)" "r < 0" "se_malloc_buffer e" "length argv \<noteq> 1"
    and "fst (get_opts argv no_options) \<noteq> -1"
  shows "wldbg_main e g s argv evs \<noteq> Some (Inr n)"
proof
  assume "wldbg_main e g s argv evs = Some (Inr n)"
  from freed_buffer_no_status [OF assms(1) init_failed_buffer [OF assms(1-3)] assms(4) this]
  show False using assms(5)
    by (auto simp: parse_opts_def Let_def rbind_eq_Inr split: if_splits prod.splits)
qed

text \<open>\<open>--interactive\<close> together with \<open>--pass-whole-buffer\<close> is refused by freeing the interactive
  pass, but the pass stays in the list, and \<open>wldbg_destroy\<close> walks over the freed memory.\<close>

theorem interactive_whole_buffer_uses_freed:
  assumes "wldbg_init e g s = Inr (0, pg)" "length argv \<noteq> 1" "get_opts argv no_options = (off, opts)"
    and "0 \<le> off" "off < int (length argv)" "o_interactive opts" "o_pass_whole_buffer opts"
    and "h_mem_ok (se_host e)" "se_malloc_wldbgi e" "se_interactive_pass e = Some p"
  shows "wldbg_main e g s argv evs = Some (Inl UseAfterFree)"
proof -
  let ?rest = "drop (nat off) argv"
  let ?pg = "with_loop (\<lambda>el. el\<lparr>el_pass_whole_buffer := True\<rparr>) pg"
  let ?pg1 = "?pg\<lparr>pg_passes := pg_passes ?pg @ [(''interactive'', p)], pg_dead := ''interactive'' # pg_dead ?pg\<rparr>"
  have len: "int (length ?rest) = int (length argv) - off" using assms(4,5) by simp
  have i: "interactive_init e ?pg = (-1, ?pg1)" using assms(9,10) by (simp add: interactive_init_def Let_def)
  have p: "parse_opts e argv pg no_options = Some (Inr (Returned (-1, ?pg1,
      opts\<lparr>o_path := Some (hd ?rest), o_argc := int (length ?rest), o_argv := Some ?rest\<rparr>)))"
    using assms(3-8) i copy_arguments_all [of ?rest] len by (simp add: parse_opts_def Let_def)
  have "wldbg_destroy e ?pg1 = Inl UseAfterFree"
    by (auto simp: wldbg_destroy_def free_buffer_def Let_def)
  then show ?thesis using assms(1,2) p by (simp add: wldbg_main_def)
qed

text \<open>A start on which every system call succeeds, but for \<open>epoll_create\<close> when \<open>ep\<close> is -1.\<close>

definition sample_pass :: "(unit \<times> unit) pass" where
  "sample_pass = \<lparr>pass_name = ''interactive'', server_pass = \<lambda>w m. Inr (w, m, PASS_NEXT), client_pass = \<lambda>w m. Inr (w, m, PASS_NEXT)\<rparr>"

definition sample_start :: "int \<Rightarrow> (unit, unit) start_env" where
  "sample_start ep = \<lparr>se_malloc_buffer = True, se_epoll_create = ep, se_sigprocmask = True, se_signalfd = 4,
     se_monitor_signals = (True, True), se_resolve_pass = Some sample_pass, se_objinfo_pass = Some sample_pass,
     se_malloc_wldbgi = True, se_interactive_pass = Some sample_pass, se_signalfd_without_int = 4, se_sigint_fd = 8,
     se_monitor_sigint = (True, True), se_monitor_accept = (True, True), se_sys = good_env ''/r'' True,
     se_host = \<lparr>h_exists = \<lambda>_. False, h_loaded = \<lambda>_. False, h_dlopen = \<lambda>_. False, h_dlsym = \<lambda>_. None,
       h_load_once = \<lambda>_. False, h_eexist = \<lambda>_. False, h_home = None, h_libdir = ''/usr/lib'', h_objdir = ''.libs/'',
       h_list_pass = sample_pass, h_mem_ok = True, h_init = \<lambda>_. Some (\<lambda>_. 0)\<rparr>,
     se_setup = sample_setup True True, se_nothing = (), se_socketpair = Some (6, 9), se_setenv = True, se_fork = 77,
     se_sigint = \<lambda>_. None\<rparr>"

theorem failed_init_never_exits_witness:
  "wldbg_main (sample_start (-1)) () compositor_only [''wldbg'', ''-i'', ''weston''] [] \<noteq> Some (Inr 0)"
proof -
  have "\<exists>pg. wldbg_init (sample_start (-1)) () compositor_only = Inr (-1, pg)"
    by (simp add: wldbg_init_def sample_start_def Let_def free_buffer_def zero_prog_def)
  then obtain pg where i: "wldbg_init (sample_start (-1)) () compositor_only = Inr (-1, pg)" by blast
  have "fst (get_opts [''wldbg'', ''-i'', ''weston''] no_options) = 2" by code_simp
  then show ?thesis by (intro failed_init_never_exits [OF i]) (simp_all add: sample_start_def)
qed

theorem interactive_whole_buffer_uses_freed_witness:
  "wldbg_main (sample_start 3) () compositor_only [''wldbg'', ''-i'', ''-p'', ''weston''] [] = Some (Inl UseAfterFree)"
proof -
  have "\<exists>pg. wldbg_init (sample_start 3) () compositor_only = Inr (0, pg)"
    by (simp add: wldbg_init_def sample_start_def Let_def free_buffer_def zero_prog_def wldbg_monitor_fd_def
        wldbg_add_resolve_pass_def)
  then obtain pg where i: "wldbg_init (sample_start 3) () compositor_only = Inr (0, pg)" by blast
  have go: "get_opts [''wldbg'', ''-i'', ''-p'', ''weston''] no_options =
      (3, no_options\<lparr>o_interactive := True, o_pass_whole_buffer := True\<rparr>)" by code_simp
  show ?thesis
    by (rule interactive_whole_buffer_uses_freed [OF i _ go]) (simp_all add: sample_start_def)
qed

end
