(* ===== verification/Interactive_Base.thy ===== *)
theory Interactive_Base
  imports Parse_Message Util_Opts
begin

text \<open>
  What the commands of interactive mode share (\<^verbatim>\<open>src/interactive/\<close>): the message that wldbg has
  stopped on, the regular expressions of the C library as parameters, the table of commands, the
  numbers that \<open>sscanf\<close> reads, and the registries in which breakpoints, filters and automatic
  commands are kept under numeric ids.
\<close>

text \<open>\<open>struct wldbg_message\<close> with the object table of its connection.\<close>

record mctx =
  mc_im :: imem
  mc_ro :: "resolved_objects option"
  mc_from :: side
  mc_data :: bytes

text \<open>\<open>regcomp\<close> and \<open>regexec\<close>; \<open>'r\<close> is a compiled expression.\<close>

datatype reg_result = Reg_match | Reg_nomatch | Reg_error

record 'r regex_lib =
  regcomp :: "string \<Rightarrow> 'r option"
  regexec :: "'r \<Rightarrow> string \<Rightarrow> reg_result"

text \<open>The name of the message in a buffer of 128 characters, \<open>None\<close> when it does not fit.\<close>

definition message_name :: "mctx \<Rightarrow> string option res" where
  "message_name m =
     rbind (wldbg_get_message_name (mc_im m) (mc_ro m) (mc_from m) (mc_data m) 128) (\<lambda>(buf, ret).
       Inr (if 128 \<le> ret then None else Some buf))"

section \<open>The table of commands\<close>

datatype cmd = Cmd_autocmd | Cmd_break | Cmd_continue | Cmd_edit | Cmd_filter | Cmd_help | Cmd_hide | Cmd_info
  | Cmd_next | Cmd_pass | Cmd_send | Cmd_showonly | Cmd_quit

definition commands :: "(string \<times> string option \<times> cmd) list" where
  "commands =
     [(''autocmd'', None, Cmd_autocmd), (''break'', Some ''b'', Cmd_break), (''continue'', Some ''c'', Cmd_continue),
      (''edit'', Some ''e'', Cmd_edit), (''filter'', Some ''f'', Cmd_filter), (''help'', None, Cmd_help),
      (''hide'', Some ''h'', Cmd_hide), (''info'', Some ''i'', Cmd_info), (''next'', Some ''n'', Cmd_next),
      (''pass'', None, Cmd_pass), (''send'', Some ''s'', Cmd_send), (''showonly'', Some ''so'', Cmd_showonly),
      (''quit'', Some ''q'', Cmd_quit)]"

definition word_matches :: "string \<Rightarrow> string \<Rightarrow> bool" where
  "word_matches buf w \<longleftrightarrow> strncmp_eq buf w (length w) \<and>
     (is_space (chr_at (drop (length w) buf)) \<or> chr_at (drop (length w) buf) = nul)"

definition is_the_cmd :: "string \<Rightarrow> string \<times> string option \<times> cmd \<Rightarrow> bool" where
  "is_the_cmd buf c =
     (case c of (name, shortcut, _) \<Rightarrow>
        (case shortcut of None \<Rightarrow> False | Some s \<Rightarrow> s \<noteq> [] \<and> word_matches buf s) \<or> word_matches buf name)"

definition next_word :: "string \<Rightarrow> string" where
  "next_word s = dropWhile is_space (dropWhile is_alpha s)"

definition find_command :: "string \<Rightarrow> cmd option" where
  "find_command buf = map_option (\<lambda>(_, _, c). c) (find (is_the_cmd buf) commands)"

section \<open>Numbers\<close>

text \<open>\<open>sscanf (buf, "%u", &id)\<close>: \<open>strtoul\<close> saturates at \<open>2 ^ 64 - 1\<close>, the result is cut to 32 bits.\<close>

definition scan_uint :: "string \<Rightarrow> u32 option" where
  "scan_uint s =
     (let t = skip_ws s;
          neg = (chr_at t = CHR ''-'');
          t = (if chr_at t = CHR ''-'' \<or> chr_at t = CHR ''+'' then drop 1 t else t);
          ds = takeWhile is_digit t;
          v = dec_val ds
      in if ds = [] then None
         else if 2 ^ 64 \<le> v then Some (word_of_nat (2 ^ 64 - 1))
         else Some (if neg then - word_of_nat v else word_of_nat v))"

text \<open>\<open>sscanf (buf, "%s", array)\<close> with an array of \<open>n\<close> characters.\<close>

definition scan_word :: "nat \<Rightarrow> string \<Rightarrow> string res" where
  "scan_word n s =
     (let w = takeWhile (\<lambda>c. \<not> is_space c) (skip_ws s) in
      if w = [] then Inl UninitRead else if n \<le> length w then Inl OutOfBounds else Inr w)"

section \<open>The memory of a command line\<close>

text \<open>From the argument to the end of what was written to the buffer, nul characters included: commands
  cut their line in place.\<close>

definition c_text :: "string \<Rightarrow> string res" where
  "c_text m = (if nul \<in> set m then Inr (takeWhile (\<lambda>c. c \<noteq> nul) m) else Inl OutOfBounds)"

lemma c_text_nul [simp]:
  assumes "nul \<notin> set s"
  shows "c_text (s @ nul # m) = Inr s"
proof -
  have "\<forall>c \<in> set s. c \<noteq> nul" using assms by metis
  then show ?thesis by (simp add: c_text_def takeWhile_append_all)
qed

section \<open>Registries\<close>

text \<open>Entries under ids that a counter gives out: what adding and deleting must do.\<close>

locale id_registry =
  fixes key :: "'a \<Rightarrow> u32"
    and add :: "'a \<Rightarrow> 'a list \<Rightarrow> 'a list"
    and del :: "u32 \<Rightarrow> 'a list \<Rightarrow> 'a list"
  assumes set_add: "set (add x xs) = insert x (set xs)"
    and distinct_add: "distinct (map key (add x xs)) \<longleftrightarrow> key x \<notin> key ` set xs \<and> distinct (map key xs)"
    and set_del: "distinct (map key xs) \<Longrightarrow> set (del k xs) = {x \<in> set xs. key x \<noteq> k}"
    and distinct_del: "distinct (map key xs) \<Longrightarrow> distinct (map key (del k xs))"
begin

definition reg_wf :: "u32 \<Rightarrow> 'a list \<Rightarrow> bool" where
  "reg_wf n xs \<longleftrightarrow> distinct (map key xs) \<and> (\<forall>x \<in> set xs. key x < n)"

lemma wf_empty: "reg_wf n []"
  by (simp add: reg_wf_def)

lemma wf_add:
  assumes "reg_wf n xs" "key x = n" "n + 1 \<noteq> 0"
  shows "reg_wf (n + 1) (add x xs)"
proof -
  have less: "k < n + 1" if "k \<le> n" for k
  proof -
    have "unat (n + 1) = unat n + 1" using assms(3) by (metis Suc_eq_plus1 add.commute unatSuc)
    with that show ?thesis by (simp add: word_less_nat_alt word_le_nat_alt)
  qed
  have "n \<notin> key ` set xs" using assms(1) by (auto simp: reg_wf_def)
  with assms(1,2) less show ?thesis by (auto simp: reg_wf_def distinct_add set_add)
qed

lemma wf_del: "reg_wf n xs \<Longrightarrow> reg_wf n (del k xs)"
  by (simp add: reg_wf_def distinct_del set_del)

text \<open>With room for \<open>k\<close> more ids before the counter wraps around.\<close>

definition reg_room :: "nat \<Rightarrow> u32 \<Rightarrow> 'a list \<Rightarrow> bool" where
  "reg_room k n xs \<longleftrightarrow> reg_wf n xs \<and> unat n + k < 2 ^ 32"

lemma room_mono: "reg_room k n xs \<Longrightarrow> j \<le> k \<Longrightarrow> reg_room j n xs"
  by (simp add: reg_room_def)

lemma room_del: "reg_room k n xs \<Longrightarrow> reg_room k n (del i xs)"
  by (simp add: reg_room_def wf_del)

lemma room_add:
  assumes "reg_room (Suc k) n xs" "key x = n"
  shows "reg_room k (n + 1) (add x xs)"
proof -
  have "unat (n + 1) = Suc (unat n)"
    using assms(1) by (simp add: reg_room_def unat_word_ariths)
  moreover from this have "n + 1 \<noteq> 0" by (metis nat.simps(3) unsigned_0)
  ultimately show ?thesis using assms wf_add by (simp add: reg_room_def)
qed

lemma deleted: "reg_wf n xs \<Longrightarrow> k \<notin> key ` set (del k xs)"
  by (auto simp: reg_wf_def set_del)

lemma others_stay: "reg_wf n xs \<Longrightarrow> x \<in> set xs \<Longrightarrow> key x \<noteq> k \<Longrightarrow> x \<in> set (del k xs)"
  by (simp add: reg_wf_def set_del)

end

text \<open>The registries of the program link a new entry behind the first one and unlink the first with
  the id.\<close>

lemma linked_registry:
  fixes key :: "'a \<Rightarrow> u32"
  shows "id_registry key insert_after_first (\<lambda>k. remove_first (\<lambda>x. key x = k))"
proof
  fix x :: 'a and xs k
  show "set (insert_after_first x xs) = insert x (set xs)" by simp
  show "distinct (map key (insert_after_first x xs)) \<longleftrightarrow> key x \<notin> key ` set xs \<and> distinct (map key xs)"
    by (simp add: map_insert_after_first)
  assume d: "distinct (map key xs)"
  then show "set (remove_first (\<lambda>x. key x = k) xs) = {x \<in> set xs. key x \<noteq> k}"
    using remove_first_by_key [OF d, of k] by auto
  show "distinct (map key (remove_first (\<lambda>x. key x = k) xs))" using d by (rule distinct_map_remove_first)
qed

section \<open>Command lines\<close>

lemma word_matches_iff:
  assumes "\<forall>c \<in> set v. is_alpha c" "\<forall>c \<in> set w. is_alpha c" "rest = [] \<or> is_space (hd rest)"
  shows "word_matches (v @ rest) w \<longleftrightarrow> v = w"
proof
  assume m: "word_matches (v @ rest) w"
  then have t: "take (length w) (v @ rest) = w" by (simp add: word_matches_def strncmp_eq_def)
  have l: "length w \<le> length v"
  proof (rule ccontr)
    assume "\<not> length w \<le> length v"
    then have lt: "length v < length w" by simp
    then have "rest \<noteq> []" using arg_cong [OF t, of length] by auto
    have "w ! length v = (v @ rest) ! length v" using t lt by (metis nth_take)
    also have "\<dots> = hd rest" using \<open>rest \<noteq> []\<close> by (simp add: nth_append hd_conv_nth)
    finally have "is_alpha (hd rest)" using assms(2) lt nth_mem by metis
    then show False using assms(3) \<open>rest \<noteq> []\<close> space_not_alpha by blast
  qed
  show "v = w"
  proof (rule ccontr)
    assume "v \<noteq> w"
    moreover have w: "w = take (length w) v" using t l by simp
    ultimately have lt: "length w < length v" using l by (metis le_neq_implies_less order_refl take_all)
    have "chr_at (drop (length w) (v @ rest)) = v ! length w" using lt by (simp add: chr_at_def drop_eq_Nil Cons_nth_drop_Suc [symmetric])
    moreover have "is_alpha (v ! length w)" using assms(1) lt nth_mem by blast
    ultimately show False using m space_not_alpha by (auto simp: word_matches_def)
  qed
next
  assume "v = w"
  then show "word_matches (v @ rest) w"
    using assms(3) by (cases rest) (auto simp: word_matches_def strncmp_eq_def)
qed

lemma next_word_args:
  assumes "\<forall>c \<in> set v. is_alpha c" "\<forall>c \<in> set ws. is_space c" "arg = [] \<or> \<not> is_space (hd arg)" "ws \<noteq> [] \<or> arg = []"
  shows "next_word (v @ ws @ arg) = arg"
proof -
  have "dropWhile is_alpha (v @ ws @ arg) = ws @ arg"
    using assms space_not_alpha by (cases ws) (auto simp: dropWhile_append_all)
  then show ?thesis using assms(2,3) by (cases arg) (auto simp: next_word_def dropWhile_append_all)
qed

text \<open>Every command is found under its name and under its shortcut.\<close>

lemma command_words_alpha:
  "\<forall>(n, s, c) \<in> set commands. (\<forall>x \<in> set n. is_alpha x) \<and> (\<forall>t. s = Some t \<longrightarrow> t \<noteq> [] \<and> (\<forall>x \<in> set t. is_alpha x))"
  by (simp add: commands_def is_alpha_def)

definition is_word_of :: "string \<Rightarrow> cmd \<Rightarrow> bool" where
  "is_word_of w c \<longleftrightarrow> (\<exists>n s. (n, s, c) \<in> set commands \<and> (w = n \<or> s = Some w))"

lemma is_the_cmd_iff:
  assumes "\<forall>x \<in> set v. is_alpha x" "rest = [] \<or> is_space (hd rest)" "(n, s, c) \<in> set commands"
  shows "is_the_cmd (v @ rest) (n, s, c) \<longleftrightarrow> v = n \<or> s = Some v"
proof -
  have "(\<forall>x \<in> set n. is_alpha x) \<and> (\<forall>t. s = Some t \<longrightarrow> t \<noteq> [] \<and> (\<forall>x \<in> set t. is_alpha x))"
    using command_words_alpha assms(3) by fastforce
  then show ?thesis
    using word_matches_iff [OF assms(1) _ assms(2)] by (cases s) (auto simp: is_the_cmd_def)
qed

lemma find_command_word:
  assumes "\<forall>x \<in> set v. is_alpha x" "rest = [] \<or> is_space (hd rest)"
  shows "find_command (v @ rest) = map_option (\<lambda>(_, _, c). c) (find (\<lambda>(n, s, c). v = n \<or> s = Some v) commands)"
proof -
  have "find (is_the_cmd (v @ rest)) xs = find (\<lambda>(n, s, c). v = n \<or> s = Some v) xs" if "set xs \<subseteq> set commands" for xs
    using that is_the_cmd_iff [OF assms] by (induction xs) auto
  then show ?thesis by (simp add: find_command_def)
qed

section \<open>An example\<close>

text \<open>Without resolved objects a message is named by its id and its opcode.\<close>

definition example_message :: mctx where
  "example_message = \<lparr>mc_im = (\<lambda>_. free_entry), mc_ro = None, mc_from = SERVER, mc_data = [3, 0, 0, 0, 1, 0, 8, 0]\<rparr>"

lemma example_message_name: "message_name example_message = Inr (Some ''unknown@3.1'')"
proof -
  have "wldbg_parse_message [3, 0, 0, 0, 1, 0, 8, 0] = Inr (True, \<lparr>pm_id = 3, pm_opcode = 1, pm_size = 8, pm_data = 8\<rparr>)"
    by (simp add: wldbg_parse_message_def load32_def Let_def)
  moreover have "show_int 3 = ''3''" "show_int 1 = ''1''" by code_simp+
  ultimately show ?thesis
    by (simp add: example_message_def message_name_def wldbg_get_message_name_def is_valid_interface_def
        wldbg_message_get_object_def snprintf_def)
qed

section \<open>Properties\<close>

definition entry_has :: "string \<Rightarrow> string \<times> string option \<times> cmd \<Rightarrow> bool" where
  "entry_has w p = (case p of (n, s, c) \<Rightarrow> w = n \<or> s = Some w)"

lemma entries_disjoint:
  "p \<in> set commands \<Longrightarrow> q \<in> set commands \<Longrightarrow> entry_has w p \<Longrightarrow> entry_has w q \<Longrightarrow> p = q"
  unfolding commands_def by (auto simp: entry_has_def)

lemma find_unique:
  assumes "\<And>x y. x \<in> set xs \<Longrightarrow> y \<in> set xs \<Longrightarrow> P x \<Longrightarrow> P y \<Longrightarrow> x = y"
  shows "find P xs = Some x \<longleftrightarrow> x \<in> set xs \<and> P x"
proof
  assume "find P xs = Some x"
  then show "x \<in> set xs \<and> P x" by (auto simp: find_Some_iff)
next
  assume x: "x \<in> set xs \<and> P x"
  then obtain y where y: "find P xs = Some y" by (cases "find P xs") (auto simp: find_None_iff)
  then have "y \<in> set xs \<and> P y" by (auto simp: find_Some_iff)
  with x y assms show "find P xs = Some x" by metis
qed

text \<open>C25: A line that starts with an alphabetic word runs exactly the command with that name or that
  shortcut: no abbreviation and no longer word matches, no word names two commands, and the command
  gets what follows the blanks after the word.\<close>

theorem command_lines_unambiguous:
  assumes "\<forall>x \<in> set v. is_alpha x" "\<forall>x \<in> set ws. is_space x" "arg = [] \<or> \<not> is_space (hd arg)" "ws \<noteq> [] \<or> arg = []"
  shows "(find_command (v @ ws @ arg) = Some c \<longleftrightarrow> is_word_of v c) \<and> next_word (v @ ws @ arg) = arg"
proof
  have rest: "ws @ arg = [] \<or> is_space (hd (ws @ arg))" using assms(2,4) by (cases ws) auto
  have "find_command (v @ ws @ arg) = map_option (\<lambda>(_, _, c). c) (find (entry_has v) commands)"
    using find_command_word [OF assms(1) rest] by (simp add: entry_has_def [abs_def])
  moreover have "find (entry_has v) commands = Some p \<longleftrightarrow> p \<in> set commands \<and> entry_has v p" for p
    using entries_disjoint by (intro find_unique)
  ultimately show "find_command (v @ ws @ arg) = Some c \<longleftrightarrow> is_word_of v c"
    by (auto simp: is_word_of_def entry_has_def)
  show "next_word (v @ ws @ arg) = arg" by (rule next_word_args [OF assms])
qed

theorem command_lines_unambiguous_witness:
  "find_command (''so'' @ '' '' @ ''wl_.*'') \<noteq> Some Cmd_send"
proof -
  have "\<not> is_word_of ''so'' Cmd_send" by (simp add: is_word_of_def commands_def)
  moreover have "\<forall>x \<in> set ''so''. is_alpha x" "\<forall>x \<in> set '' ''. is_space x" "\<not> is_space (hd ''wl_.*'')"
    by (simp_all add: is_alpha_def is_space_def)
  ultimately show ?thesis using command_lines_unambiguous [of "''so''" "'' ''" "''wl_.*''" Cmd_send] by simp
qed

end
