(* ===== verification/Breakpoints.thy ===== *)
theory Breakpoints
  imports Interactive_Base
begin

text \<open>
  \<^verbatim>\<open>src/interactive/breakpoints.c\<close>.  A breakpoint's \<open>applies\<close> callback is a constructor, with what it
  keeps in \<open>data\<close>; the message that a name breakpoint points to is its place in the tables of an
  interface.  Creating a breakpoint cuts the command line in place, so the line is a memory.
\<close>

section \<open>Breakpoints\<close>

datatype msg_ref = Msg_ref iptr side nat

datatype 'r applies = Break_on_side | Break_on_id | Break_on_name msg_ref | Break_on_regex 'r

record 'r breakpoint =
  bp_id :: u32
  bp_description :: string
  bp_applies :: "'r applies"
  bp_small_data :: u64

record break_alloc =
  ba_breakpoint :: bool
  ba_description :: bool
  ba_re_data :: bool
  ba_pattern :: bool

definition side_code :: "side \<Rightarrow> u64" where
  "side_code s = (case s of SERVER \<Rightarrow> 0 | CLIENT \<Rightarrow> 1)"

definition break_on_side :: "mctx \<Rightarrow> 'r breakpoint \<Rightarrow> bool" where
  "break_on_side msg b \<longleftrightarrow> side_code (mc_from msg) = bp_small_data b"

definition break_on_id :: "mctx \<Rightarrow> 'r breakpoint \<Rightarrow> bool res" where
  "break_on_id msg b = rbind (load32 (mc_data msg) 0) (\<lambda>p0. Inr (ucast p0 = bp_small_data b))"

definition break_on_name :: "mctx \<Rightarrow> 'r breakpoint \<Rightarrow> msg_ref \<Rightarrow> bool res" where
  "break_on_name msg b data =
     rbind (load32 (mc_data msg) 0) (\<lambda>p0.
     rbind (load32 (mc_data msg) 4) (\<lambda>p1.
       let opcode = p1 AND 0xffff; bopcode = ucast (bp_small_data b) :: u32 in
       if bopcode \<noteq> opcode then Inr False
       else
         (case wldbg_message_get_object (mc_ro msg) p0 of
            None \<Rightarrow> Inr False
          | Some p \<Rightarrow>
              Inr (int (unat opcode) < side_count (mc_from msg) (intf_at (mc_im msg) p) \<and>
                   data = Msg_ref p (mc_from msg) (unat opcode)))))"

definition break_on_regex :: "'r regex_lib \<Rightarrow> mctx \<Rightarrow> 'r \<Rightarrow> bool res" where
  "break_on_regex rx msg re =
     rbind (message_name msg) (\<lambda>name.
       Inr (case name of None \<Rightarrow> False | Some s \<Rightarrow> regexec rx re s = Reg_match))"

definition breakpoint_applies :: "'r regex_lib \<Rightarrow> mctx \<Rightarrow> 'r breakpoint \<Rightarrow> bool res" where
  "breakpoint_applies rx msg b =
     (case bp_applies b of
        Break_on_side \<Rightarrow> Inr (break_on_side msg b)
      | Break_on_id \<Rightarrow> break_on_id msg b
      | Break_on_name d \<Rightarrow> break_on_name msg b d
      | Break_on_regex re \<Rightarrow> break_on_regex rx msg re)"

section \<open>Creating and deleting\<close>

text \<open>The loops over the requests and the events: the last one of the name counts.\<close>

fun find_message :: "wl_message list \<Rightarrow> string \<Rightarrow> nat \<Rightarrow> nat \<Rightarrow> nat option \<Rightarrow> nat option res" where
  "find_message ms name i 0 acc = Inr acc"
| "find_message ms name i (Suc n) acc =
     rbind (nth_res ms i) (\<lambda>wm. find_message ms name (Suc i) n (if wlm_name wm = name then Some i else acc))"

definition find_request_or_event :: "wl_interface \<Rightarrow> string \<Rightarrow> (side \<times> nat) option res" where
  "find_request_or_event intf name =
     rbind (find_message (methods intf) name 0 (nat (method_count intf)) None) (\<lambda>r.
       case r of
         Some i \<Rightarrow> Inr (Some (CLIENT, i))
       | None \<Rightarrow>
           rbind (find_message (events intf) name 0 (nat (event_count intf)) None) (\<lambda>r.
             Inr (map_option (\<lambda>i. (SERVER, i)) r)))"

text \<open>\<open>remove_newline (buf + pos)\<close> in place.\<close>

definition cut_newline :: "string \<Rightarrow> string \<Rightarrow> nat \<Rightarrow> string" where
  "cut_newline m text pos =
     (let n = length (remove_newline (drop pos text)) in
      if pos + n < length text then m[pos + n := nul] else m)"

definition regex_breakpoint ::
    "break_alloc \<Rightarrow> 'r regex_lib \<Rightarrow> u32 \<Rightarrow> string \<Rightarrow> 'r breakpoint option res" where
  "regex_breakpoint al rx bid arg =
     (let pattern = remove_newline (skip_ws arg) in
      if \<not> ba_re_data al then Inr None
      else if \<not> ba_pattern al then Inl UninitRead
      else
        (case regcomp rx pattern of
           None \<Rightarrow> Inr None
         | Some re \<Rightarrow>
             Inr (map_option (\<lambda>d. \<lparr>bp_id = bid, bp_description = d, bp_applies = Break_on_regex re, bp_small_data = 0\<rparr>)
                    (strdupf (ba_description al) (''regex matching '' @ [CHR 0x27] @ pattern @ [CHR 0x27])))))"

definition name_breakpoint ::
    "break_alloc \<Rightarrow> mctx \<Rightarrow> u32 \<Rightarrow> string \<Rightarrow> string \<Rightarrow> ('r breakpoint option \<times> string) res" where
  "name_breakpoint al msg bid m text =
     (let at = length (takeWhile (\<lambda>c. c \<noteq> CHR ''@'') text);
          m1 = m[at := nul];
          rest = drop (at + 1) text in
      rbind (wldbg_message_get_interface (mc_im msg) (mc_ro msg) (take at text)) (\<lambda>r.
        case r of
          None \<Rightarrow> Inr (None, m1)
        | Some p \<Rightarrow>
            let intf = intf_at (mc_im msg) p; m2 = m1[at + length rest := nul]; name = butlast rest in
            rbind (find_request_or_event intf name) (\<lambda>r.
              case r of
                None \<Rightarrow> Inr (None, m2)
              | Some (from, i) \<Rightarrow>
                  if \<not> ba_description al then Inr (None, m2)
                  else
                    let (desc, _) = snprintf 1024 (''break on '' @ intf_name intf @ ''@'' @ name) in
                    if 256 \<le> length desc then Inl OutOfBounds
                    else Inr (Some \<lparr>bp_id = bid, bp_description = desc, bp_applies = Break_on_name (Msg_ref p from i),
                                bp_small_data = word_of_nat i\<rparr>, m2))))"

text \<open>What the text asks for; the second result is the command line afterwards.\<close>

definition parse_breakpoint ::
    "break_alloc \<Rightarrow> 'r regex_lib \<Rightarrow> mctx \<Rightarrow> u32 \<Rightarrow> string \<Rightarrow> string \<Rightarrow> ('r breakpoint option \<times> string) res" where
  "parse_breakpoint al rx msg bid m ln =
     (let side_breakpoint = (\<lambda>d s. if ba_description al
        then Some \<lparr>bp_id = bid, bp_description = d, bp_applies = Break_on_side, bp_small_data = side_code s\<rparr> else None) in
      if ln = ''server'' @ [CHR 0x0A] then Inr (side_breakpoint ''message from server'' SERVER, m)
      else if ln = ''client'' @ [CHR 0x0A] then Inr (side_breakpoint ''message from client'' CLIENT, m)
      else if strncmp_eq ln ''id '' 3 then
        (let id = str_to_uint (drop 3 ln) in
         if id = -1 then Inr (None, m)
         else if \<not> ba_description al then Inr (None, m)
         else Inr (Some \<lparr>bp_id = bid, bp_description = ''break on id '' @ fst (snprintf 4 (show_int id)),
                     bp_applies = Break_on_id, bp_small_data = word_of_int id\<rparr>, m))
      else if strncmp_eq ln ''re '' 3 then
        rbind (regex_breakpoint al rx bid (drop 3 ln)) (\<lambda>b.
          Inr (b, if ba_re_data al then cut_newline m ln (length ln - length (skip_ws (drop 3 ln))) else m))
      else if CHR ''@'' \<in> set ln then name_breakpoint al msg bid m ln
      else Inr (None, m))"

definition create_breakpoint ::
    "break_alloc \<Rightarrow> 'r regex_lib \<Rightarrow> mctx \<Rightarrow> u32 \<Rightarrow> string \<Rightarrow> ('r breakpoint option \<times> u32 \<times> string) res" where
  "create_breakpoint al rx msg next_id m =
     (if \<not> ba_breakpoint al then Inr (None, next_id, m)
      else
        rbind (c_text m) (\<lambda>ln.
        rbind (parse_breakpoint al rx msg next_id m ln) (\<lambda>(b, m').
          Inr (b, if b = None then next_id else next_id + 1, m'))))"

definition delete_breakpoint :: "string \<Rightarrow> 'r breakpoint list \<Rightarrow> 'r breakpoint list" where
  "delete_breakpoint buf bs =
     (let id = str_to_uint buf in
      if id = -1 then bs else remove_first (\<lambda>b. bp_id b = word_of_int id) bs)"

record 'r break_state =
  bs_list :: "'r breakpoint list"
  bs_next :: u32

text \<open>\<open>cmd_break\<close>; the second result is the command line afterwards.\<close>

definition cmd_break ::
    "break_alloc \<Rightarrow> 'r regex_lib \<Rightarrow> mctx \<Rightarrow> string \<Rightarrow> 'r break_state \<Rightarrow> ('r break_state \<times> string) res" where
  "cmd_break al rx msg m st =
     rbind (c_text m) (\<lambda>text.
       if strncmp_eq text ''delete '' 7 then Inr (st\<lparr>bs_list := delete_breakpoint (drop 7 text) (bs_list st)\<rparr>, m)
       else if strncmp_eq text ''d '' 2 then Inr (st\<lparr>bs_list := delete_breakpoint (drop 2 text) (bs_list st)\<rparr>, m)
       else
         rbind (create_breakpoint al rx msg (bs_next st) m) (\<lambda>(b, nid, m').
           Inr (st\<lparr>bs_list := (case b of None \<Rightarrow> bs_list st | Some x \<Rightarrow> insert_after_first x (bs_list st)),
                   bs_next := nid\<rparr>, m')))"

interpretation brk: id_registry bp_id insert_after_first "\<lambda>k. remove_first (\<lambda>b. bp_id b = k)"
  by (rule linked_registry)

section \<open>Lemmas\<close>

lemma create_simps:
  assumes "ba_breakpoint al" "nul \<notin> set ln"
  shows "create_breakpoint al rx msg nid (ln @ nul # m) =
    rbind (parse_breakpoint al rx msg nid (ln @ nul # m) ln) (\<lambda>(b, m').
      Inr (b, if b = None then nid else nid + 1, m'))"
  using assms by (simp add: create_breakpoint_def)

lemma regex_breakpoint_id: "regex_breakpoint al rx k s = Inr (Some b) \<Longrightarrow> bp_id b = k"
  by (auto simp: regex_breakpoint_def Let_def split: if_splits option.splits)

lemma name_breakpoint_id:
  assumes "name_breakpoint al msg k m s = Inr (Some b, m')"
  shows "bp_id b = k"
proof -
  let ?at = "length (takeWhile (\<lambda>c. c \<noteq> CHR ''@'') s)"
  obtain p where p: "wldbg_message_get_interface (mc_im msg) (mc_ro msg) (take ?at s) = Inr (Some p)"
    using assms by (auto simp: name_breakpoint_def Let_def rbind_eq_Inr split: option.splits)
  obtain a i where r: "find_request_or_event (intf_at (mc_im msg) p) (butlast (drop (?at + 1) s)) = Inr (Some (a, i))"
    using assms p by (auto simp: name_breakpoint_def Let_def rbind_eq_Inr split: option.splits)
  show ?thesis
    using assms by (auto simp: name_breakpoint_def Let_def p r [simplified] snprintf_def split: if_splits)
qed

lemma parse_breakpoint_id: "parse_breakpoint al rx msg k m ln = Inr (Some b, m') \<Longrightarrow> bp_id b = k"
  by (auto simp: parse_breakpoint_def Let_def rbind_eq_Inr split: if_splits
      dest: name_breakpoint_id regex_breakpoint_id)

lemma create_breakpoint_id:
  assumes "create_breakpoint al rx msg n m = Inr (b, n', m')"
  shows "case b of None \<Rightarrow> n' = n | Some x \<Rightarrow> bp_id x = n \<and> n' = n + 1"
  using assms parse_breakpoint_id
  by (auto simp: create_breakpoint_def rbind_eq_Inr split: if_splits option.split)

lemma find_message_spec:
  assumes "i + n \<le> length ms"
  shows "\<exists>r. find_message ms name i n acc = Inr r \<and>
    (case r of Some j \<Rightarrow> (acc = Some j \<and> (\<forall>k. i \<le> k \<and> k < i + n \<longrightarrow> wlm_name (ms ! k) \<noteq> name)) \<or>
                (i \<le> j \<and> j < i + n \<and> wlm_name (ms ! j) = name)
     | None \<Rightarrow> acc = None \<and> (\<forall>k. i \<le> k \<and> k < i + n \<longrightarrow> wlm_name (ms ! k) \<noteq> name))"
  using assms
proof (induction n arbitrary: i acc)
  case 0
  then show ?case by (auto split: option.split)
next
  case (Suc n)
  have step: "find_message ms name i (Suc n) acc =
      find_message ms name (Suc i) n (if wlm_name (ms ! i) = name then Some i else acc)"
    using Suc.prems by simp
  obtain r where r: "find_message ms name (Suc i) n (if wlm_name (ms ! i) = name then Some i else acc) = Inr r"
    and s: "case r of
        Some j \<Rightarrow> ((if wlm_name (ms ! i) = name then Some i else acc) = Some j \<and>
            (\<forall>k. Suc i \<le> k \<and> k < Suc i + n \<longrightarrow> wlm_name (ms ! k) \<noteq> name)) \<or>
          (Suc i \<le> j \<and> j < Suc i + n \<and> wlm_name (ms ! j) = name)
      | None \<Rightarrow> (if wlm_name (ms ! i) = name then Some i else acc) = None \<and>
          (\<forall>k. Suc i \<le> k \<and> k < Suc i + n \<longrightarrow> wlm_name (ms ! k) \<noteq> name)"
    using Suc.IH [of "Suc i" "if wlm_name (ms ! i) = name then Some i else acc"] Suc.prems by auto
  have iv: "(i \<le> k \<and> k < i + Suc n) = (k = i \<or> (Suc i \<le> k \<and> k < Suc i + n))" for k by auto
  have split: "(\<forall>k. i \<le> k \<and> k < i + Suc n \<longrightarrow> wlm_name (ms ! k) \<noteq> name) \<longleftrightarrow>
      wlm_name (ms ! i) \<noteq> name \<and> (\<forall>k. Suc i \<le> k \<and> k < Suc i + n \<longrightarrow> wlm_name (ms ! k) \<noteq> name)"
    unfolding iv by blast
  show ?case
  proof (intro exI conjI)
    show "find_message ms name i (Suc n) acc = Inr r" using step r by simp
    show "case r of Some j \<Rightarrow> (acc = Some j \<and> (\<forall>k. i \<le> k \<and> k < i + Suc n \<longrightarrow> wlm_name (ms ! k) \<noteq> name)) \<or>
                (i \<le> j \<and> j < i + Suc n \<and> wlm_name (ms ! j) = name)
     | None \<Rightarrow> acc = None \<and> (\<forall>k. i \<le> k \<and> k < i + Suc n \<longrightarrow> wlm_name (ms ! k) \<noteq> name)"
      using s unfolding split by (cases r) (auto split: if_splits)
  qed
qed

definition has_message :: "wl_interface \<Rightarrow> string \<Rightarrow> bool" where
  "has_message intf name \<longleftrightarrow> name \<in> wlm_name ` set (methods intf) \<union> wlm_name ` set (events intf)"

lemma find_message_table:
  assumes "n = length ms"
  shows "\<exists>r. find_message ms name 0 n None = Inr r \<and>
    (case r of Some j \<Rightarrow> j < length ms \<and> wlm_name (ms ! j) = name | None \<Rightarrow> name \<notin> wlm_name ` set ms)"
proof -
  obtain r where r: "find_message ms name 0 n None = Inr r"
    and s: "case r of Some j \<Rightarrow> (None = Some j \<and> (\<forall>k. 0 \<le> k \<and> k < 0 + n \<longrightarrow> wlm_name (ms ! k) \<noteq> name)) \<or>
        (0 \<le> j \<and> j < 0 + n \<and> wlm_name (ms ! j) = name)
      | None \<Rightarrow> (None :: nat option) = None \<and> (\<forall>k. 0 \<le> k \<and> k < 0 + n \<longrightarrow> wlm_name (ms ! k) \<noteq> name)"
    using find_message_spec [of 0 n ms name None] assms by auto
  show ?thesis
  proof (intro exI conjI)
    show "find_message ms name 0 n None = Inr r" by (rule r)
    show "case r of Some j \<Rightarrow> j < length ms \<and> wlm_name (ms ! j) = name | None \<Rightarrow> name \<notin> wlm_name ` set ms"
      using s assms by (cases r) (auto simp: in_set_conv_nth)
  qed
qed

lemma find_request_or_event_spec:
  assumes "intf_wf intf"
  shows "\<exists>r. find_request_or_event intf name = Inr r \<and>
    (case r of Some (s, j) \<Rightarrow> j < length (side_messages s intf) \<and> wlm_name (side_messages s intf ! j) = name
     | None \<Rightarrow> \<not> has_message intf name)"
proof -
  have n: "nat (method_count intf) = length (methods intf)" "nat (event_count intf) = length (events intf)"
    using assms by (simp_all add: intf_wf_def)
  obtain r where r: "find_message (methods intf) name 0 (nat (method_count intf)) None = Inr r"
    "case r of Some j \<Rightarrow> j < length (methods intf) \<and> wlm_name (methods intf ! j) = name
      | None \<Rightarrow> name \<notin> wlm_name ` set (methods intf)"
    using find_message_table [OF n(1)] by blast
  obtain q where q: "find_message (events intf) name 0 (nat (event_count intf)) None = Inr q"
    "case q of Some j \<Rightarrow> j < length (events intf) \<and> wlm_name (events intf ! j) = name
      | None \<Rightarrow> name \<notin> wlm_name ` set (events intf)"
    using find_message_table [OF n(2)] by blast
  show ?thesis
    using r q by (cases r; cases q) (auto simp: find_request_or_event_def side_messages_def has_message_def)
qed

lemma uint_form_no_nul: "uint_form s ds \<Longrightarrow> nul \<notin> set s"
proof -
  assume "uint_form s ds"
  then have "\<forall>c \<in> set s. is_digit c \<or> is_space c" by (auto simp: uint_form_def)
  then show ?thesis using nul_classes by blast
qed

lemma unat_ucast_u64: "unat (ucast (w :: u32) :: u64) = unat w"
  using unat_u32_less [of w] by (simp add: unsigned_ucast_eq take_bit_nat_eq_self)

text \<open>\<open>b->small_data = id\<close> for an \<open>int\<close>, and the comparison with the \<open>uint32_t\<close> of a message.\<close>

lemma small_data_eq:
  fixes p0 :: u32
  assumes "n < 2 ^ 32"
  shows "(ucast p0 = (word_of_int (sint (word_of_nat n :: u32)) :: u64)) \<longleftrightarrow> unat p0 = n \<and> n < 2 ^ 31"
proof (cases "n < 2 ^ 31")
  case True
  have u: "uint (word_of_nat n :: u32) = int n" using True by (simp add: uint_nat unat_of_nat)
  have "sint (word_of_nat n :: u32) = int n"
    using True by (simp add: sint_uint u signed_take_bit_eq_if_positive bit_iff_odd take_bit_int_eq_self)
  then have "(word_of_int (sint (word_of_nat n :: u32)) :: u64) = word_of_nat n" by simp
  moreover have "unat (word_of_nat n :: u64) = n" using True by (simp add: unat_of_nat)
  moreover have "unat (ucast p0 :: u64) = unat p0" by (rule unat_ucast_u64)
  ultimately show ?thesis using True by (simp add: word_unat_eq_iff)
next
  case False
  let ?s = "sint (word_of_nat n :: u32)"
  have m: "(word_of_nat n :: u32) = word_of_int (int n - 2 ^ 32)"
  proof -
    have "(4294967296 :: u32) = 0" by simp
    then show ?thesis by simp
  qed
  have s: "?s = int n - 2 ^ 32"
    unfolding m using False assms by (subst signed_of_int) (simp add: signed_take_bit_int_eq_self)
  have "uint (word_of_int ?s :: u64) = 2 ^ 64 - 2 ^ 32 + int n"
  proof -
    have "(int n - 2 ^ 32) mod 2 ^ 64 = (int n - 2 ^ 32 + 2 ^ 64) mod 2 ^ 64" by (simp only: mod_add_self2)
    also have "\<dots> = int n - 2 ^ 32 + 2 ^ 64" using False assms by (intro mod_pos_pos_trivial) simp_all
    finally show ?thesis unfolding s uint_word_of_int by simp
  qed
  moreover have "uint (ucast p0 :: u64) < 2 ^ 32"
    unfolding uint_nat unat_ucast_u64 using unsigned_less [of p0, where ?'a = int] by simp
  ultimately have "ucast p0 \<noteq> (word_of_int ?s :: u64)" by auto
  with False show ?thesis by simp
qed

section \<open>Properties\<close>

text \<open>A breakpoint on an object id stops on exactly the messages of that object when the id is
  below \<open>2 ^ 31\<close>; it never stops when the id is larger, so not on any object that the compositor has
  allocated.\<close>

theorem break_on_id_decides:
  assumes "ba_breakpoint al" "ba_description al" "uint_form arg ds" "dec_val ds < 2 ^ 32 - 1"
  shows "\<exists>b m'. create_breakpoint al rx msg nid (''id '' @ arg @ nul # m) = Inr (Some b, nid + 1, m') \<and>
    (\<forall>msg' p0. load32 (mc_data msg') 0 = Inr p0 \<longrightarrow>
       breakpoint_applies rx msg' b = Inr (unat p0 = dec_val ds \<and> dec_val ds < 2 ^ 31))"
proof -
  let ?n = "dec_val ds"
  have e: "str_to_uint arg = sint (word_of_nat ?n :: u32)"
    using str_to_uint_form [OF assms(3)] assms(4) by simp
  have "str_to_uint arg \<noteq> -1"
  proof
    assume "str_to_uint arg = -1"
    then have "(word_of_nat ?n :: u32) = -1" unfolding e by (intro signed_word_eqI) simp
    then have "unat (word_of_nat ?n :: u32) = 2 ^ 32 - 1" by (simp add: unsigned_minus_1_eq_mask mask_eq_exp_minus_1)
    then show False using assms(4) by (simp add: unat_of_nat)
  qed
  moreover have "strncmp_eq (''id '' @ arg) ''id '' 3" by (simp add: strncmp_eq_def)
  moreover have nn: "nul \<notin> set (''id '' @ arg)" using uint_form_no_nul [OF assms(3)] by (simp add: nul_def)
  ultimately have c: "create_breakpoint al rx msg nid ((''id '' @ arg) @ nul # m) = Inr (Some \<lparr>bp_id = nid,
      bp_description = ''break on id '' @ fst (snprintf 4 (show_int (str_to_uint arg))),
      bp_applies = Break_on_id, bp_small_data = word_of_int (str_to_uint arg)\<rparr>, nid + 1, (''id '' @ arg) @ nul # m)"
    unfolding create_simps [OF assms(1) nn] by (simp add: parse_breakpoint_def Let_def assms(2))
  show ?thesis
  proof (intro exI conjI allI impI)
    show "create_breakpoint al rx msg nid (''id '' @ arg @ nul # m) = Inr (Some \<lparr>bp_id = nid,
      bp_description = ''break on id '' @ fst (snprintf 4 (show_int (str_to_uint arg))),
      bp_applies = Break_on_id, bp_small_data = word_of_int (str_to_uint arg)\<rparr>, nid + 1, (''id '' @ arg) @ nul # m)"
      using c by simp
    fix msg' :: mctx and p0
    assume "load32 (mc_data msg') 0 = Inr p0"
    then show "breakpoint_applies rx msg' \<lparr>bp_id = nid,
      bp_description = ''break on id '' @ fst (snprintf 4 (show_int (str_to_uint arg))),
      bp_applies = Break_on_id, bp_small_data = word_of_int (str_to_uint arg)\<rparr> = Inr (unat p0 = ?n \<and> ?n < 2 ^ 31)"
      using small_data_eq [of ?n p0] assms(4) by (simp add: breakpoint_applies_def break_on_id_def e)
  qed
qed

theorem break_on_id_decides_witness:
  "\<exists>b m'. create_breakpoint \<lparr>ba_breakpoint = True, ba_description = True, ba_re_data = True, ba_pattern = True\<rparr>
      \<lparr>regcomp = (\<lambda>_. None), regexec = (\<lambda>(_ :: unit) _. Reg_error)\<rparr>
      \<lparr>mc_im = (\<lambda>_. free_entry), mc_ro = None, mc_from = SERVER, mc_data = [0, 0, 0, 0xff, 0, 0, 8, 0]\<rparr>
      1 (''id '' @ ''4278190080'' @ nul # []) = Inr (Some b, 1 + 1, m') \<and>
    breakpoint_applies \<lparr>regcomp = (\<lambda>_. None), regexec = (\<lambda>(_ :: unit) _. Reg_error)\<rparr>
      \<lparr>mc_im = (\<lambda>_. free_entry), mc_ro = None, mc_from = SERVER, mc_data = [0, 0, 0, 0xff, 0, 0, 8, 0]\<rparr> b = Inr False"
proof -
  have f: "uint_form ''4278190080'' ''4278190080''"
    by (auto simp: uint_form_def is_digit_def intro!: exI [of _ "[]"])
  have d: "dec_val ''4278190080'' = 4278190080" by (simp add: dec_val_def digit_val_def)
  let ?msg = "\<lparr>mc_im = (\<lambda>_. free_entry), mc_ro = None, mc_from = SERVER, mc_data = [0, 0, 0, 0xff, 0, 0, 8, 0]\<rparr>"
  have "load32 (mc_data ?msg) 0 = Inr 4278190080" by (simp add: load32_def)
  moreover note break_on_id_decides [OF _ _ f, of "\<lparr>ba_breakpoint = True, ba_description = True, ba_re_data = True, ba_pattern = True\<rparr>"
        "\<lparr>regcomp = (\<lambda>_. None), regexec = (\<lambda>(_ :: unit) _. Reg_error)\<rparr>" ?msg 1 "[]", unfolded d, simplified]
  ultimately show ?thesis by fastforce
qed

lemma break_on_message_line:
  assumes "ba_breakpoint al" "ba_description al"
    and "nul \<notin> set iname" "nul \<notin> set rest" "CHR ''@'' \<notin> set iname" "CHR '' '' \<notin> set iname" "CHR 0x0A \<notin> set rest"
  shows "create_breakpoint al rx msg nid (iname @ CHR ''@'' # rest @ nul # m) =
    rbind (name_breakpoint al msg nid (iname @ CHR ''@'' # rest @ nul # m) (iname @ CHR ''@'' # rest))
      (\<lambda>(b, m'). Inr (b, if b = None then nid else nid + 1, m'))"
proof -
  let ?t = "iname @ CHR ''@'' # rest"
  have t: "nul \<notin> set ?t" using assms(3,4) by (simp add: nul_def)
  have "CHR ''@'' \<in> set (take 3 ?t) \<or> CHR '' '' \<notin> set (take 3 ?t)"
  proof (cases "length iname < 3")
    case True
    then have "take 3 ?t = iname @ CHR ''@'' # take (2 - length iname) rest" by (simp add: take_Cons')
    then show ?thesis by simp
  next
    case False
    then show ?thesis using assms(6) by (auto dest: in_set_takeD)
  qed
  moreover have "w \<noteq> ''id '' \<and> w \<noteq> ''re ''" if "CHR ''@'' \<in> set w \<or> CHR '' '' \<notin> set w" for w
    using that by auto
  ultimately have "take 3 ?t \<noteq> ''id '' \<and> take 3 ?t \<noteq> ''re ''" by blast
  then have "\<not> strncmp_eq ?t ''id '' 3" "\<not> strncmp_eq ?t ''re '' 3" by (simp_all add: strncmp_eq_def)
  moreover have "?t \<noteq> ''server'' @ [CHR 0x0A]" "?t \<noteq> ''client'' @ [CHR 0x0A]"
  proof -
    have "CHR ''@'' \<in> set ?t" by simp
    moreover have "CHR ''@'' \<notin> set (''server'' @ [CHR 0x0A])" "CHR ''@'' \<notin> set (''client'' @ [CHR 0x0A])" by simp_all
    ultimately show "?t \<noteq> ''server'' @ [CHR 0x0A]" "?t \<noteq> ''client'' @ [CHR 0x0A]" by force+
  qed
  ultimately show ?thesis
    using create_simps [OF assms(1) t, of rx msg nid m] by (simp add: parse_breakpoint_def)
qed

lemma name_breakpoint_line:
  assumes "CHR ''@'' \<notin> set iname"
    and "wldbg_message_get_interface (mc_im msg) (mc_ro msg) iname = Inr (Some p)"
    and "intf_wf (intf_at (mc_im msg) p)" "length (intf_name (intf_at (mc_im msg) p)) + length rest \<le> 240"
    and "ba_description al"
  shows "\<exists>b m'. name_breakpoint al msg nid (iname @ CHR ''@'' # rest @ nul # m) (iname @ CHR ''@'' # rest) =
      Inr (b, iname @ nul # m') \<and> (b = None \<longleftrightarrow> \<not> has_message (intf_at (mc_im msg) p) (butlast rest))"
proof -
  let ?t = "iname @ CHR ''@'' # rest" and ?intf = "intf_at (mc_im msg) p"
  have tw: "takeWhile (\<lambda>c. c \<noteq> CHR ''@'') ?t = iname"
    using assms(1) by (subst takeWhile_append_all) auto
  have m1: "(iname @ CHR ''@'' # rest @ nul # m)[length iname := nul] = iname @ nul # rest @ nul # m"
    by simp
  have m2: "\<exists>m'. (iname @ nul # rest @ nul # m)[length iname + length rest := nul] = iname @ nul # m'"
    by (cases rest) (auto simp: list_update_append)
  obtain r where r: "find_request_or_event ?intf (butlast rest) = Inr r"
    "case r of Some (s, j) \<Rightarrow> j < length (side_messages s ?intf) \<and> wlm_name (side_messages s ?intf ! j) = butlast rest
     | None \<Rightarrow> \<not> has_message ?intf (butlast rest)"
    using find_request_or_event_spec [OF assms(3), of "butlast rest"] by blast
  have has: "has_message ?intf (butlast rest)" if "r = Some (s, j)" for s j
  proof -
    have "butlast rest \<in> wlm_name ` set (side_messages s ?intf)" using r(2) that by (auto intro!: rev_image_eqI nth_mem)
    then show ?thesis by (cases s) (auto simp: has_message_def side_messages_def)
  qed
  have d: "length (fst (snprintf 1024 (''break on '' @ intf_name ?intf @ ''@'' @ butlast rest))) < 256"
    using assms(4) by (simp add: snprintf_def)
  show ?thesis
    using m2 r has d assms(2,5)
    by (auto simp: name_breakpoint_def Let_def tw m1 split: option.splits prod.splits)
qed

text \<open>\<^verbatim>\<open>break interface@message\<close> drops the last character of the line, which is no longer a
  newline, so a breakpoint is created exactly when the shortened name is a message of the interface;
  and the stored line is cut at the \<open>@\<close>, so repeating it by an empty line creates nothing.\<close>

theorem break_at_name_drops_last_char:
  fixes rx :: "'r regex_lib"
  assumes "ba_breakpoint al" "ba_description al"
    and "nul \<notin> set iname" "nul \<notin> set rest" "CHR ''@'' \<notin> set iname" "CHR '' '' \<notin> set iname" "CHR 0x0A \<notin> set rest"
    and "wldbg_message_get_interface (mc_im msg) (mc_ro msg) iname = Inr (Some p)"
    and "intf_wf (intf_at (mc_im msg) p)" "length (intf_name (intf_at (mc_im msg) p)) + length rest \<le> 240"
  shows "\<exists>b nid' m'. create_breakpoint al rx msg nid (iname @ CHR ''@'' # rest @ nul # m) = Inr (b, nid', m') \<and>
    (b \<noteq> None \<longleftrightarrow> has_message (intf_at (mc_im msg) p) (butlast rest)) \<and> c_text m' = Inr iname"
proof -
  obtain b :: "'r breakpoint option" and m' where b: "name_breakpoint al msg nid (iname @ CHR ''@'' # rest @ nul # m) (iname @ CHR ''@'' # rest) =
      Inr (b, iname @ nul # m')" "b = None \<longleftrightarrow> \<not> has_message (intf_at (mc_im msg) p) (butlast rest)"
    using name_breakpoint_line [OF assms(5,8-10,2)] by blast
  then show ?thesis
    using break_on_message_line [OF assms(1-7), of rx msg nid m] assms(3) by auto
qed

theorem break_at_name_drops_last_char_witness:
  "\<exists>b nid' m'. create_breakpoint \<lparr>ba_breakpoint = True, ba_description = True, ba_re_data = True, ba_pattern = True\<rparr>
      \<lparr>regcomp = (\<lambda>_. None), regexec = (\<lambda>(_ :: unit) _. Reg_error)\<rparr>
      \<lparr>mc_im = (\<lambda>_. wl_drm_interface (\<lambda>_. Free_entry)),
        mc_ro = Some \<lparr>ro_client = \<lparr>map_count = 1, map_data = \<lparr>arr_size = 8, arr_alloc = 16, arr_data = [Some (Iface 0), None]\<rparr>\<rparr>,
          ro_server = wldbg_ids_map_init, ro_interfaces = [], ro_additional = []\<rparr>, mc_from = SERVER, mc_data = []\<rparr>
      1 (''wl_drm'' @ CHR ''@'' # ''format'' @ nul # []) = Inr (b, nid', m') \<and> b = None \<and> c_text m' = Inr ''wl_drm''"
proof -
  let ?ro = "\<lparr>ro_client = \<lparr>map_count = 1, map_data = \<lparr>arr_size = 8, arr_alloc = 16, arr_data = [Some (Iface 0), None]\<rparr>\<rparr>,
          ro_server = wldbg_ids_map_init, ro_interfaces = [], ro_additional = []\<rparr>"
  let ?msg = "\<lparr>mc_im = (\<lambda>_. wl_drm_interface (\<lambda>_. Free_entry)), mc_ro = Some ?ro, mc_from = SERVER, mc_data = []\<rparr>"
  let ?al = "\<lparr>ba_breakpoint = True, ba_description = True, ba_re_data = True, ba_pattern = True\<rparr>"
  let ?rx = "\<lparr>regcomp = (\<lambda>_. None), regexec = (\<lambda>(_ :: unit) _. Reg_error)\<rparr>"
  have g: "wldbg_message_get_interface (mc_im ?msg) (mc_ro ?msg) ''wl_drm'' = Inr (Some (Iface 0))"
    by code_simp
  have w: "intf_wf (intf_at (mc_im ?msg) (Iface 0))"
    by (simp add: intf_wf_def wl_drm_interface_def wl_drm_requests_def wl_drm_events_def)
  have n: "\<not> has_message (intf_at (mc_im ?msg) (Iface 0)) (butlast ''format'')"
    by (simp add: has_message_def wl_drm_interface_def wl_drm_requests_def wl_drm_events_def mk_message_def)
  have "\<exists>b nid' m'. create_breakpoint ?al ?rx ?msg 1 (''wl_drm'' @ CHR ''@'' # ''format'' @ nul # []) = Inr (b, nid', m') \<and>
    (b \<noteq> None \<longleftrightarrow> has_message (intf_at (mc_im ?msg) (Iface 0)) (butlast ''format'')) \<and> c_text m' = Inr ''wl_drm''"
    by (rule break_at_name_drops_last_char [OF _ _ _ _ _ _ _ g w]) (simp_all add: nul_def wl_drm_interface_def)
  then obtain b nid' m' where
    "create_breakpoint ?al ?rx ?msg 1 (''wl_drm'' @ CHR ''@'' # ''format'' @ nul # []) = Inr (b, nid', m')"
    "b = None" "c_text m' = Inr ''wl_drm''"
    using n by metis
  then show ?thesis by (intro exI conjI)
qed

end
