(* ===== verification/Filters.thy ===== *)
theory Filters
  imports Interactive_Base
begin

text \<open>
  \<^verbatim>\<open>src/interactive/filters.c\<close> and the decision of \<^verbatim>\<open>src/interactive/interactive.c\<close> whether a
  message is hidden.
\<close>

record 'r flt =
  flt_filter :: string
  flt_regex :: 'r
  flt_show_only :: bool
  flt_id :: u32

record 'r filter_state =
  fs_list :: "'r flt list"
  fs_next :: u32

text \<open>The two allocations of \<open>create_filter\<close> are one outcome: on a failure of either nothing is left.\<close>

definition create_filter :: "bool \<Rightarrow> 'r regex_lib \<Rightarrow> string \<Rightarrow> u32 \<Rightarrow> 'r flt option \<times> u32" where
  "create_filter mem_ok rx pattern next_id =
     (if \<not> mem_ok then (None, next_id)
      else
        (case regcomp rx pattern of
           None \<Rightarrow> (None, next_id)
         | Some re \<Rightarrow>
             (Some \<lparr>flt_filter = pattern, flt_regex = re, flt_show_only = False, flt_id = next_id\<rparr>, next_id + 1)))"

definition cmd_create_filter ::
    "bool \<Rightarrow> 'r regex_lib \<Rightarrow> string \<Rightarrow> bool \<Rightarrow> 'r filter_state \<Rightarrow> 'r filter_state res" where
  "cmd_create_filter mem_ok rx buf show_only st =
     rbind (scan_word 128 buf) (\<lambda>pattern.
       case create_filter mem_ok rx pattern (fs_next st) of
         (None, n) \<Rightarrow> Inr (st\<lparr>fs_next := n\<rparr>)
       | (Some f, n) \<Rightarrow>
           Inr (st\<lparr>fs_list := insert_after_first (f\<lparr>flt_show_only := show_only\<rparr>) (fs_list st), fs_next := n\<rparr>))"

definition cmd_hide :: "bool \<Rightarrow> 'r regex_lib \<Rightarrow> string \<Rightarrow> 'r filter_state \<Rightarrow> 'r filter_state res" where
  "cmd_hide mem_ok rx buf st =
     (let buf = skip_ws buf in if buf = [] then Inr st else cmd_create_filter mem_ok rx buf False st)"

definition cmd_showonly :: "bool \<Rightarrow> 'r regex_lib \<Rightarrow> string \<Rightarrow> 'r filter_state \<Rightarrow> 'r filter_state res" where
  "cmd_showonly mem_ok rx buf st =
     (let buf = skip_ws buf in if buf = [] then Inr st else cmd_create_filter mem_ok rx buf True st)"

definition remove_filter :: "string \<Rightarrow> 'r filter_state \<Rightarrow> 'r filter_state" where
  "remove_filter buf st =
     (if buf = [] then st
      else
        (case scan_uint buf of
           None \<Rightarrow> st
         | Some k \<Rightarrow> st\<lparr>fs_list := remove_first (\<lambda>f. flt_id f = k) (fs_list st)\<rparr>))"

definition cmd_filter :: "string \<Rightarrow> 'r filter_state \<Rightarrow> 'r filter_state" where
  "cmd_filter buf st =
     (if strncmp_eq buf ''delete'' 6 \<or> strncmp_eq buf ''remove'' 6 then remove_filter (skip_ws (drop 6 buf)) st
      else if (chr_at buf = CHR ''d'' \<or> chr_at buf = CHR ''r'') \<and> is_space (chr_at (drop 1 buf))
      then remove_filter (skip_ws (drop 1 buf)) st
      else st)"

text \<open>The loop of \<open>filter_match\<close>; the last argument is \<open>has_show_only\<close>.\<close>

fun filter_loop :: "'r regex_lib \<Rightarrow> mctx \<Rightarrow> 'r flt list \<Rightarrow> bool \<Rightarrow> bool res" where
  "filter_loop rx msg [] has_show_only = Inr has_show_only"
| "filter_loop rx msg (pf # fs) has_show_only =
     rbind (message_name msg) (\<lambda>name.
       case name of
         None \<Rightarrow> filter_loop rx msg fs has_show_only
       | Some buf \<Rightarrow>
           (case regexec rx (flt_regex pf) buf of
              Reg_match \<Rightarrow> Inr (\<not> flt_show_only pf)
            | Reg_error \<Rightarrow> Inr False
            | Reg_nomatch \<Rightarrow> filter_loop rx msg fs (has_show_only \<or> flt_show_only pf)))"

definition filter_match :: "'r regex_lib \<Rightarrow> 'r flt list \<Rightarrow> mctx \<Rightarrow> bool res" where
  "filter_match rx fs msg = filter_loop rx msg fs False"

interpretation flts: id_registry flt_id insert_after_first "\<lambda>k. remove_first (\<lambda>f. flt_id f = k)"
  by (rule linked_registry)

definition filters_wf :: "'r filter_state \<Rightarrow> bool" where
  "filters_wf st \<longleftrightarrow> flts.reg_wf (fs_next st) (fs_list st)"

section \<open>Lemmas\<close>

text \<open>The reference: the first filter that does not fail to match decides.\<close>

definition hidden :: "'r regex_lib \<Rightarrow> 'r flt list \<Rightarrow> string \<Rightarrow> bool" where
  "hidden rx fs s \<longleftrightarrow>
     (case find (\<lambda>f. regexec rx (flt_regex f) s \<noteq> Reg_nomatch) fs of
        None \<Rightarrow> \<exists>f \<in> set fs. flt_show_only f
      | Some f \<Rightarrow> regexec rx (flt_regex f) s = Reg_match \<and> \<not> flt_show_only f)"

lemma filter_loop_hidden:
  assumes "message_name msg = Inr (Some s)"
  shows "filter_loop rx msg fs h = Inr (case find (\<lambda>f. regexec rx (flt_regex f) s \<noteq> Reg_nomatch) fs of
      None \<Rightarrow> h \<or> (\<exists>f \<in> set fs. flt_show_only f)
    | Some f \<Rightarrow> regexec rx (flt_regex f) s = Reg_match \<and> \<not> flt_show_only f)"
  using assms by (induction fs arbitrary: h) (auto split: reg_result.split option.split)

lemma filter_loop_no_name:
  "message_name msg = Inr None \<Longrightarrow> filter_loop rx msg fs h = Inr h"
  by (induction fs) simp_all

lemma filter_loop_fault: "message_name msg = Inl e \<Longrightarrow> fs \<noteq> [] \<Longrightarrow> filter_loop rx msg fs h = Inl e"
  by (cases fs) simp_all

lemma hidden_show_only:
  assumes "\<forall>f \<in> set fs. flt_show_only f" "\<forall>f \<in> set fs. regexec rx (flt_regex f) s \<noteq> Reg_error"
  shows "hidden rx fs s \<longleftrightarrow> fs \<noteq> [] \<and> (\<forall>f \<in> set fs. regexec rx (flt_regex f) s \<noteq> Reg_match)"
proof (cases "find (\<lambda>f. regexec rx (flt_regex f) s \<noteq> Reg_nomatch) fs")
  case None
  then have "\<forall>f \<in> set fs. regexec rx (flt_regex f) s = Reg_nomatch" by (simp add: find_None_iff)
  with None assms(1) show ?thesis by (cases fs) (auto simp: hidden_def)
next
  case (Some f)
  then have f: "f \<in> set fs" "regexec rx (flt_regex f) s \<noteq> Reg_nomatch"
    by (auto simp: find_Some_iff in_set_conv_nth)
  then have "regexec rx (flt_regex f) s = Reg_match"
    using assms(2) reg_result.exhaust by blast
  with Some f(1) assms(1) show ?thesis by (auto simp: hidden_def)
qed

section \<open>Properties\<close>

text \<open>C20: A message is hidden exactly as the reference says: the first filter in the list that
  matches hides it or, being a show-only filter, shows it; a message that no filter matches is hidden
  when there is a show-only filter, so with show-only filters alone the shown messages are those that
  one of them matches.\<close>

theorem filter_match_reference:
  assumes "message_name msg = Inr (Some s)"
  shows "filter_match rx fs msg = Inr (hidden rx fs s) \<and>
    ((\<forall>f \<in> set fs. flt_show_only f \<and> regexec rx (flt_regex f) s \<noteq> Reg_error) \<longrightarrow>
      filter_match rx fs msg = Inr (fs \<noteq> [] \<and> (\<forall>f \<in> set fs. regexec rx (flt_regex f) s \<noteq> Reg_match)))"
proof -
  have "filter_match rx fs msg = Inr (hidden rx fs s)"
    by (simp add: filter_match_def filter_loop_hidden [OF assms] hidden_def split: option.split)
  then show ?thesis using hidden_show_only [of fs rx s] by simp
qed

theorem filter_match_reference_witness:
  "filter_match \<lparr>regcomp = Some, regexec = (\<lambda>re s. if take (length re) s = re then Reg_match else Reg_nomatch)\<rparr>
     [\<lparr>flt_filter = ''wl_'', flt_regex = ''wl_'', flt_show_only = True, flt_id = 0\<rparr>] example_message = Inr True"
proof -
  have "hidden \<lparr>regcomp = Some, regexec = (\<lambda>re s. if take (length re) s = re then Reg_match else Reg_nomatch)\<rparr>
     [\<lparr>flt_filter = ''wl_'', flt_regex = ''wl_'', flt_show_only = True, flt_id = 0\<rparr>] ''unknown@3.1'' = True"
    by (simp add: hidden_def)
  then show ?thesis by (simp only: conjunct1 [OF filter_match_reference [OF example_message_name]])
qed

text \<open>The decimal text of an id, as it was printed, names it.\<close>

lemma scan_uint_show_nat:
  assumes "n < 2 ^ 32"
  shows "scan_uint (show_nat n) = Some (word_of_nat n)"
proof -
  obtain d ds where s: "show_nat n = d # ds" by (cases "show_nat n") auto
  then have d: "is_digit d" using show_nat_digits [of n] by simp
  then have "\<not> is_space d" using space_not_digit by blast
  then have "skip_ws (show_nat n) = show_nat n" by (simp add: skip_ws_def s)
  moreover have "chr_at (show_nat n) \<noteq> CHR ''-''" "chr_at (show_nat n) \<noteq> CHR ''+''"
    using d by (auto simp: s is_digit_def)
  moreover have tw: "takeWhile is_digit (show_nat n) = show_nat n"
    using show_nat_digits [of n] by (simp add: takeWhile_eq_all_conv)
  ultimately show ?thesis
    using assms by (simp add: scan_uint_def Let_def dec_val_show_nat tw del: takeWhile_eq_all_conv)
qed

lemma cmd_create_filter_wf:
  assumes "filters_wf st" "fs_next st + 1 \<noteq> 0" "cmd_create_filter mem_ok rx buf so st = Inr st'"
  shows "filters_wf st'"
proof -
  obtain pattern where p: "scan_word 128 buf = Inr pattern"
    using assms(3) by (auto simp: cmd_create_filter_def rbind_eq_Inr)
  obtain f n where c: "create_filter mem_ok rx pattern (fs_next st) = (f, n)"
    by (cases "create_filter mem_ok rx pattern (fs_next st)")
  have st': "st' = (case f of None \<Rightarrow> st\<lparr>fs_next := n\<rparr>
      | Some g \<Rightarrow> st\<lparr>fs_list := insert_after_first (g\<lparr>flt_show_only := so\<rparr>) (fs_list st), fs_next := n\<rparr>)"
    using assms(3) p c by (cases f) (simp_all add: cmd_create_filter_def)
  show ?thesis
  proof (cases f)
    case None
    with c have "n = fs_next st" by (auto simp: create_filter_def split: if_splits option.splits)
    with None st' assms(1) show ?thesis by (simp add: filters_wf_def)
  next
    case (Some g)
    with c have "n = fs_next st + 1" "flt_id g = fs_next st"
      by (auto simp: create_filter_def split: if_splits option.splits)
    with Some st' assms(1,2) show ?thesis by (simp add: filters_wf_def flts.wf_add)
  qed
qed

lemma remove_filter_wf: "filters_wf st \<Longrightarrow> filters_wf (remove_filter buf st)"
  by (simp add: remove_filter_def filters_wf_def flts.wf_del split: option.split)

text \<open>The ids of the filters stay distinct whatever the user enters, as long as the counter does
  not wrap around, and removing a filter by the number that stands for it removes that filter and no
  other.\<close>

theorem filters_keep_ids:
  assumes "filters_wf st" "fs_next st + 1 \<noteq> 0"
  shows "(\<forall>st'. cmd_hide mem_ok rx buf st = Inr st' \<or> cmd_showonly mem_ok rx buf st = Inr st' \<longrightarrow> filters_wf st') \<and>
    filters_wf (cmd_filter buf st) \<and>
    (n < 2 ^ 32 \<longrightarrow>
      set (fs_list (cmd_filter (''remove '' @ show_nat n) st)) = {f \<in> set (fs_list st). flt_id f \<noteq> word_of_nat n})"
proof (intro conjI allI impI)
  show "filters_wf st'" if "cmd_hide mem_ok rx buf st = Inr st' \<or> cmd_showonly mem_ok rx buf st = Inr st'" for st'
    using that assms cmd_create_filter_wf by (auto simp: cmd_hide_def cmd_showonly_def Let_def split: if_splits)
  show "filters_wf (cmd_filter buf st)" using assms(1) by (simp add: cmd_filter_def remove_filter_wf)
  assume n: "n < 2 ^ 32"
  have "skip_ws ('' '' @ show_nat n) = show_nat n"
    using show_nat_digits [of n] space_not_digit
    by (cases "show_nat n") (auto simp: skip_ws_def is_space_def)
  then have c: "cmd_filter (''remove '' @ show_nat n) st = remove_filter (show_nat n) st"
    by (simp add: cmd_filter_def strncmp_eq_def)
  have "distinct (map flt_id (fs_list st))" using assms(1) by (simp add: filters_wf_def flts.reg_wf_def)
  from flts.set_del [OF this, of "word_of_nat n"] n
  show "set (fs_list (cmd_filter (''remove '' @ show_nat n) st)) = {f \<in> set (fs_list st). flt_id f \<noteq> word_of_nat n}"
    unfolding c by (simp add: remove_filter_def scan_uint_show_nat)
qed

theorem filters_keep_ids_witness:
  "set (fs_list (cmd_filter (''remove '' @ show_nat 1)
     \<lparr>fs_list = [\<lparr>flt_filter = ''a'', flt_regex = ''a'', flt_show_only = True, flt_id = 0\<rparr>,
        \<lparr>flt_filter = ''b'', flt_regex = ''b'', flt_show_only = False, flt_id = 1\<rparr>], fs_next = 2\<rparr>)) =
   {\<lparr>flt_filter = ''a'', flt_regex = ''a'', flt_show_only = True, flt_id = 0\<rparr>}"
proof -
  let ?st = "\<lparr>fs_list = [\<lparr>flt_filter = ''a'', flt_regex = ''a'', flt_show_only = True, flt_id = 0\<rparr>,
        \<lparr>flt_filter = ''b'', flt_regex = ''b'', flt_show_only = False, flt_id = 1\<rparr>], fs_next = 2 :: u32\<rparr>"
  have "filters_wf ?st" by (simp add: filters_wf_def flts.reg_wf_def)
  from filters_keep_ids [OF this, of True "\<lparr>regcomp = Some, regexec = (\<lambda>_ _. Reg_error)\<rparr>" "[]" 1]
  have "set (fs_list (cmd_filter (''remove '' @ show_nat 1) ?st)) = {f \<in> set (fs_list ?st). flt_id f \<noteq> word_of_nat 1}"
    by simp
  also have "\<dots> = {\<lparr>flt_filter = ''a'', flt_regex = ''a'', flt_show_only = True, flt_id = 0\<rparr>}" by auto
  finally show ?thesis .
qed

end
