(* ===== verification/Autocmds.thy ===== *)
theory Autocmds
  imports Interactive_Base
begin

text \<open>
  \<^verbatim>\<open>src/interactive/autocmd.c\<close>: commands that run by themselves on the messages whose name
  matches.
\<close>

record 'r autocmd =
  ac_cmd :: string
  ac_filter :: string
  ac_regex :: 'r
  ac_id :: u32

record 'r autocmd_state =
  as_list :: "'r autocmd list"
  as_next :: u32

text \<open>\<open>ac->cmd\<close> is a memory, as the command that runs from it may cut it.\<close>

definition create_autocmd :: "bool \<Rightarrow> 'r regex_lib \<Rightarrow> string \<Rightarrow> string \<Rightarrow> u32 \<Rightarrow> 'r autocmd option \<times> u32" where
  "create_autocmd mem_ok rx pattern c next_id =
     (if \<not> mem_ok then (None, next_id)
      else
        (case regcomp rx pattern of
           None \<Rightarrow> (None, next_id)
         | Some re \<Rightarrow> (Some \<lparr>ac_cmd = c @ [nul], ac_filter = pattern, ac_regex = re, ac_id = next_id\<rparr>, next_id + 1)))"

text \<open>The scan of \<open>split_buffer\<close>; \<open>prev\<close> is the character before \<open>buf\<close>.\<close>

fun split_scan :: "char option \<Rightarrow> char \<Rightarrow> string \<Rightarrow> nat res" where
  "split_scan terminator prev [] = Inl OutOfBounds"
| "split_scan terminator prev (c # m) =
     (if c = nul then Inr 0
      else if (case terminator of Some t \<Rightarrow> c = t \<and> prev \<noteq> CHR 0x5C | None \<Rightarrow> is_space c) then Inr 0
      else rbind (split_scan terminator c m) (\<lambda>i. Inr (Suc i)))"

definition mem_skip_ws :: "string \<Rightarrow> string res" where
  "mem_skip_ws m = (let r = dropWhile is_space m in if r = [] then Inl OutOfBounds else Inr r)"

text \<open>The result is the memory of the command, if there is one, and the memory of \<open>buf\<close> afterwards.\<close>

definition split_buffer :: "char option \<Rightarrow> char \<Rightarrow> string \<Rightarrow> (string option \<times> string) res" where
  "split_buffer terminator prev m =
     (if m = [] then Inl OutOfBounds
      else if hd m = nul then Inr (None, m)
      else
        rbind (split_scan terminator prev m) (\<lambda>i.
        rbind (mem_skip_ws (drop (Suc i) m)) (\<lambda>rest. Inr (Some rest, m[i := nul]))))"

definition add_autocmd ::
    "bool \<Rightarrow> 'r regex_lib \<Rightarrow> string \<Rightarrow> 'r autocmd_state \<Rightarrow> ('r autocmd_state \<times> string) res" where
  "add_autocmd mem_ok rx m st =
     (if m = [] then Inl OutOfBounds
      else
        let quoted = hd m = CHR 0x22 \<or> hd m = CHR 0x27;
            terminator = (if quoted then Some (hd m) else None);
            buf = (if quoted then tl m else m) in
        rbind (split_buffer terminator (hd m) buf) (\<lambda>(c, buf').
          let m' = (if quoted then hd m # buf' else buf') in
          case c of
            None \<Rightarrow> Inr (st, m')
          | Some rest \<Rightarrow>
              rbind (c_text buf') (\<lambda>pattern.
              rbind (c_text rest) (\<lambda>text.
                case create_autocmd mem_ok rx pattern text (as_next st) of
                  (None, n) \<Rightarrow> Inr (st\<lparr>as_next := n\<rparr>, m')
                | (Some ac, n) \<Rightarrow> Inr (st\<lparr>as_list := insert_after_first ac (as_list st), as_next := n\<rparr>, m')))))"

definition message_match_autocmd :: "'r regex_lib \<Rightarrow> mctx \<Rightarrow> 'r autocmd \<Rightarrow> bool res" where
  "message_match_autocmd rx msg ac =
     rbind (message_name msg) (\<lambda>name.
       Inr (case name of None \<Rightarrow> False | Some s \<Rightarrow> regexec rx (ac_regex ac) s = Reg_match))"

definition remove_autocmd :: "string \<Rightarrow> 'r autocmd_state \<Rightarrow> 'r autocmd_state" where
  "remove_autocmd buf st =
     (if buf = [] then st
      else
        (case scan_uint buf of
           None \<Rightarrow> st
         | Some k \<Rightarrow> st\<lparr>as_list := remove_first (\<lambda>ac. ac_id ac = k) (as_list st)\<rparr>))"

definition cmd_autocmd ::
    "bool \<Rightarrow> 'r regex_lib \<Rightarrow> string \<Rightarrow> 'r autocmd_state \<Rightarrow> ('r autocmd_state \<times> string) res" where
  "cmd_autocmd mem_ok rx m st =
     rbind (c_text m) (\<lambda>text.
       if strncmp_eq text ''add '' 4 then
         (let off = 4 + length (takeWhile is_space (drop 4 m)) in
          rbind (add_autocmd mem_ok rx (drop off m) st) (\<lambda>(st', m'). Inr (st', take off m @ m')))
       else if strncmp_eq text ''remove '' 7 then Inr (remove_autocmd (skip_ws (drop 7 text)) st, m)
       else Inr (st, m))"

interpretation acs: id_registry ac_id insert_after_first "\<lambda>k. remove_first (\<lambda>a. ac_id a = k)"
  by (rule linked_registry)

definition autocmds_wf :: "'r autocmd_state \<Rightarrow> bool" where
  "autocmds_wf st \<longleftrightarrow> acs.reg_wf (as_next st) (as_list st)"

section \<open>Lemmas\<close>

lemma split_scan_plain:
  assumes "\<forall>c \<in> set v. c \<noteq> nul \<and> \<not> is_space c" "is_space c \<or> c = nul"
  shows "split_scan None p (v @ c # m) = Inr (length v)"
  using assms
proof (induction v arbitrary: p)
  case Nil
  then show ?case by (cases "c = nul") simp_all
next
  case (Cons a v)
  then have "split_scan None a (v @ c # m) = Inr (length v)" by simp
  with Cons.prems(1) show ?case by simp
qed

lemma split_scan_quoted:
  assumes "\<forall>c \<in> set v. c \<noteq> nul \<and> c \<noteq> t" "last (p # v) \<noteq> CHR 0x5C" "t \<noteq> nul"
  shows "split_scan (Some t) p (v @ t # m) = Inr (length v)"
  using assms
proof (induction v arbitrary: p)
  case (Cons a v)
  then have "split_scan (Some t) a (v @ t # m) = Inr (length v)" by simp
  with Cons.prems(1) show ?case by simp
qed simp

lemma c_text_upto: "c_text m = Inr s \<Longrightarrow> take (length s) m = s \<and> nul \<notin> set s"
  by (auto simp: c_text_def split: if_splits dest: set_takeWhileD) (metis takeWhile_eq_take)

lemma cmd_autocmd_add:
  assumes "nul \<in> set m" "m = [] \<or> \<not> is_space (hd m)"
  shows "cmd_autocmd mem_ok rx (''add '' @ m) st =
    rbind (add_autocmd mem_ok rx m st) (\<lambda>(st', m'). Inr (st', ''add '' @ m'))"
proof -
  have "c_text (''add '' @ m) = Inr (''add '' @ takeWhile (\<lambda>c. c \<noteq> nul) m)"
    using assms(1) by (simp add: c_text_def nul_def)
  moreover have "takeWhile is_space m = []" using assms(2) by (cases m) auto
  ultimately show ?thesis by (simp add: cmd_autocmd_def strncmp_eq_def)
qed

text \<open>What both forms come to, once the scan has found the end of the pattern.\<close>

lemma split_buffer_at:
  assumes "split_scan terminator p (v @ c # m) = Inr (length v)" "v @ c # m \<noteq> []" "hd (v @ c # m) \<noteq> nul"
    and "mem_skip_ws m = Inr rest"
  shows "split_buffer terminator p (v @ c # m) = Inr (Some rest, v @ nul # m)"
  using assms by (simp add: split_buffer_def)

lemma mem_skip_ws_word:
  "is_space w \<Longrightarrow> nul \<notin> set t \<Longrightarrow> t = [] \<or> \<not> is_space (hd t) \<Longrightarrow> mem_skip_ws (w # t @ nul # m) = Inr (t @ nul # m)"
  "nul \<notin> set t \<Longrightarrow> t = [] \<or> \<not> is_space (hd t) \<Longrightarrow> mem_skip_ws (t @ nul # m) = Inr (t @ nul # m)"
  by (cases t; simp add: mem_skip_ws_def)+

definition with_autocmd :: "string \<Rightarrow> string \<Rightarrow> 'r \<Rightarrow> 'r autocmd_state \<Rightarrow> 'r autocmd_state" where
  "with_autocmd pat c re st =
     st\<lparr>as_list := insert_after_first \<lparr>ac_cmd = c @ [nul], ac_filter = pat, ac_regex = re, ac_id = as_next st\<rparr> (as_list st),
        as_next := as_next st + 1\<rparr>"

lemma add_quoted:
  assumes "regcomp rx pat = Some re" "nul \<notin> set pat" "nul \<notin> set c" "c = [] \<or> \<not> is_space (hd c)"
    and "q = CHR 0x22 \<or> q = CHR 0x27" "q \<notin> set pat" "last (q # pat) \<noteq> CHR 0x5C"
  shows "cmd_autocmd True rx (''add '' @ q # pat @ q # CHR '' '' # c @ nul # m) st =
        Inr (with_autocmd pat c re st, ''add '' @ q # pat @ nul # CHR '' '' # c @ nul # m)"
proof -
  have q: "q \<noteq> nul" "\<not> is_space q" using assms(5) by (auto simp: nul_def is_space_def)
  have "split_scan (Some q) q (pat @ q # CHR '' '' # c @ nul # m) = Inr (length pat)"
    using assms(2,6,7) q by (intro split_scan_quoted) auto
  moreover have "mem_skip_ws (CHR '' '' # c @ nul # m) = Inr (c @ nul # m)"
    by (rule mem_skip_ws_word(1) [OF _ assms(3,4)]) (simp add: is_space_def)
  moreover have "hd (pat @ q # CHR '' '' # c @ nul # m) \<noteq> nul" using assms(2) q by (cases pat) auto
  ultimately have "split_buffer (Some q) q (pat @ q # CHR '' '' # c @ nul # m) =
      Inr (Some (c @ nul # m), pat @ nul # CHR '' '' # c @ nul # m)"
    by (intro split_buffer_at) simp_all
  moreover have "cmd_autocmd True rx (''add '' @ q # pat @ q # CHR '' '' # c @ nul # m) st =
      rbind (add_autocmd True rx (q # pat @ q # CHR '' '' # c @ nul # m) st) (\<lambda>(st', m'). Inr (st', ''add '' @ m'))"
    using q by (intro cmd_autocmd_add) auto
  ultimately show ?thesis
    using assms(1-3,5) by (simp add: add_autocmd_def create_autocmd_def with_autocmd_def Let_def)
qed

lemma add_plain:
  assumes "regcomp rx pat = Some re" "nul \<notin> set pat" "nul \<notin> set c" "c = [] \<or> \<not> is_space (hd c)"
    and "pat \<noteq> []" "hd pat \<noteq> CHR 0x22" "hd pat \<noteq> CHR 0x27" "\<forall>x \<in> set pat. \<not> is_space x"
  shows "cmd_autocmd True rx (''add '' @ pat @ CHR '' '' # c @ nul # m) st =
      Inr (with_autocmd pat c re st, ''add '' @ pat @ nul # c @ nul # m)"
    and "cmd_autocmd True rx (''add '' @ pat @ [nul]) st = Inl OutOfBounds"
proof -
  have pat: "\<forall>x \<in> set pat. x \<noteq> nul \<and> \<not> is_space x" using assms(2,8) by metis
  have hd: "hd (pat @ z) = hd pat" "hd pat \<noteq> nul" "\<not> is_space (hd pat)" "pat @ z \<noteq> []" for z
    using assms(2,5,8) by (cases pat; auto)+
  have "split_scan None (hd pat) (pat @ CHR '' '' # c @ nul # m) = Inr (length pat)"
    using pat by (intro split_scan_plain) (auto simp: is_space_def)
  then have "split_buffer None (hd pat) (pat @ CHR '' '' # c @ nul # m) = Inr (Some (c @ nul # m), pat @ nul # c @ nul # m)"
    using hd mem_skip_ws_word(2) [OF assms(3,4)] by (intro split_buffer_at) simp_all
  moreover have add: "cmd_autocmd True rx (''add '' @ pat @ z) st =
      rbind (add_autocmd True rx (pat @ z) st) (\<lambda>(st', m'). Inr (st', ''add '' @ m'))" if "nul \<in> set z" for z
    using that hd by (intro cmd_autocmd_add) auto
  ultimately show "cmd_autocmd True rx (''add '' @ pat @ CHR '' '' # c @ nul # m) st =
      Inr (with_autocmd pat c re st, ''add '' @ pat @ nul # c @ nul # m)"
    using assms(1-3,5-7) hd by (simp add: add_autocmd_def create_autocmd_def with_autocmd_def Let_def)
  have "split_scan None (hd pat) (pat @ nul # []) = Inr (length pat)"
    using pat by (intro split_scan_plain) auto
  then have "split_buffer None (hd pat) (pat @ [nul]) = Inl OutOfBounds"
    using hd by (simp add: split_buffer_def mem_skip_ws_def)
  moreover have "cmd_autocmd True rx (''add '' @ pat @ [nul]) st =
      rbind (add_autocmd True rx (pat @ [nul]) st) (\<lambda>(st', m'). Inr (st', ''add '' @ m'))"
    by (rule add) simp
  ultimately show "cmd_autocmd True rx (''add '' @ pat @ [nul]) st = Inl OutOfBounds"
    using hd assms(6,7) by (simp add: add_autocmd_def Let_def)
qed

section \<open>Properties\<close>

text \<open>\<^verbatim>\<open>autocmd add\<close> takes the pattern up to the first space, or up to the closing quote when it is
  quoted, and the rest of the line as the command; without a command it reads behind the end of the
  line, which faults unless something was stored there.\<close>

theorem add_autocmd_splits:
  assumes "regcomp rx pat = Some re" "nul \<notin> set pat" "nul \<notin> set c" "c = [] \<or> \<not> is_space (hd c)"
    and "q = CHR 0x22 \<or> q = CHR 0x27"
  shows "(q \<notin> set pat \<and> last (q # pat) \<noteq> CHR 0x5C \<longrightarrow>
      cmd_autocmd True rx (''add '' @ q # pat @ q # CHR '' '' # c @ nul # m) st =
        Inr (with_autocmd pat c re st, ''add '' @ q # pat @ nul # CHR '' '' # c @ nul # m)) \<and>
    (pat \<noteq> [] \<and> hd pat \<noteq> CHR 0x22 \<and> hd pat \<noteq> CHR 0x27 \<and> (\<forall>x \<in> set pat. \<not> is_space x) \<longrightarrow>
      cmd_autocmd True rx (''add '' @ pat @ CHR '' '' # c @ nul # m) st =
        Inr (with_autocmd pat c re st, ''add '' @ pat @ nul # c @ nul # m) \<and>
      cmd_autocmd True rx (''add '' @ pat @ [nul]) st = Inl OutOfBounds)"
  using add_quoted [OF assms] add_plain [OF assms(1-4)] by blast

theorem add_autocmd_splits_witness:
  "cmd_autocmd True \<lparr>regcomp = Some, regexec = (\<lambda>_ _. Reg_match)\<rparr> (''add '' @ ''wl_.*'' @ [nul])
     \<lparr>as_list = [], as_next = 0\<rparr> = Inl OutOfBounds"
proof -
  have "\<forall>x \<in> set ''wl_.*''. \<not> is_space x" by (simp add: is_space_def)
  moreover have "nul \<notin> set ''wl_.*''" by (simp add: nul_def)
  ultimately show ?thesis
    using add_autocmd_splits [of "\<lparr>regcomp = Some, regexec = (\<lambda>_ _. Reg_match)\<rparr>" "''wl_.*''" "''wl_.*''" "[]"
        "CHR 0x22" "[]" "\<lparr>as_list = [], as_next = 0\<rparr>"] by auto
qed

end
