(* ===== verification/Send_Edit.thy ===== *)
theory Send_Edit
  imports Interactive_Base
begin

text \<open>
  \<^verbatim>\<open>src/interactive/send.c\<close> and \<^verbatim>\<open>src/interactive/edit.c\<close>: the two commands that change what
  goes over the wire.  Both print messages; whether printing a message faults is the parameter
  \<open>print\<close>.  The standard input is the string of the characters not read yet.
\<close>

section \<open>Hexadecimal numbers\<close>

definition is_hex :: "char \<Rightarrow> bool" where
  "is_hex c \<longleftrightarrow> is_digit c \<or> (97 \<le> (of_char c :: nat) \<and> (of_char c :: nat) \<le> 102) \<or>
     (65 \<le> (of_char c :: nat) \<and> (of_char c :: nat) \<le> 70)"

definition hex_digit :: "char \<Rightarrow> nat" where
  "hex_digit c = (if is_digit c then of_char c - 48 else if 97 \<le> (of_char c :: nat) then of_char c - 87 else of_char c - 55)"

definition hex_val :: "string \<Rightarrow> nat" where
  "hex_val s = foldl (\<lambda>acc c. 16 * acc + hex_digit c) 0 s"

definition skip_sign :: "string \<Rightarrow> string" where
  "skip_sign s = (if chr_at s = CHR ''-'' \<or> chr_at s = CHR ''+'' then drop 1 s else s)"

definition skip_0x :: "string \<Rightarrow> string" where
  "skip_0x s = (if chr_at s = CHR ''0'' \<and> (chr_at (drop 1 s) = CHR ''x'' \<or> chr_at (drop 1 s) = CHR ''X'') \<and>
     is_hex (chr_at (drop 2 s)) then drop 2 s else s)"

datatype strtol_result =
    No_digits
  | Out_of_range
  | Number int string

text \<open>\<open>strtol (s, &endptr, 16)\<close>.\<close>

definition strtol16 :: "string \<Rightarrow> strtol_result" where
  "strtol16 s =
     (let t = skip_ws s; neg = (chr_at t = CHR ''-''); u = skip_0x (skip_sign t); ds = takeWhile is_hex u;
          v = (if neg then - int (hex_val ds) else int (hex_val ds)) in
      if ds = [] then No_digits
      else if v < - (2 ^ 63) \<or> 2 ^ 63 - 1 < v then Out_of_range
      else Number v (drop (length ds) u))"

text \<open>\<open>scanf\<close> with \<open>%u\<close> and \<open>%x\<close>: the number, if there is one, and the input that is left.\<close>

definition scan_unsigned :: "(char \<Rightarrow> bool) \<Rightarrow> (string \<Rightarrow> nat) \<Rightarrow> bool \<Rightarrow> string \<Rightarrow> u32 option \<times> string" where
  "scan_unsigned dig val neg u =
     (let ds = takeWhile dig u; v = val ds in
      if ds = [] then (None, u)
      else (Some (if 2 ^ 64 \<le> v then - 1 else if neg then - word_of_nat v else word_of_nat v), drop (length ds) u))"

definition scanf_u :: "string \<Rightarrow> u32 option \<times> string" where
  "scanf_u s = (let t = skip_ws s in scan_unsigned is_digit dec_val (chr_at t = CHR ''-'') (skip_sign t))"

definition scanf_x :: "string \<Rightarrow> u32 option \<times> string" where
  "scanf_x s = (let t = skip_ws s in scan_unsigned is_hex hex_val (chr_at t = CHR ''-'') (skip_0x (skip_sign t)))"

lemma skip_lengths: "length (skip_ws s) \<le> length s" "length (skip_sign s) \<le> length s" "length (skip_0x s) \<le> length s"
  by (simp_all add: skip_ws_def skip_sign_def skip_0x_def length_dropWhile_le)

lemma scan_unsigned_shorter:
  assumes "scan_unsigned dig val neg u = (Some w, r)"
  shows "length r < length u"
proof -
  have "takeWhile dig u \<noteq> []" "r = drop (length (takeWhile dig u)) u"
    using assms by (auto simp: scan_unsigned_def Let_def split: if_splits)
  then show ?thesis by (cases u) (auto split: if_splits)
qed

lemma scanf_x_shorter: "scanf_x s = (Some w, r) \<Longrightarrow> length r < length s"
proof -
  assume "scanf_x s = (Some w, r)"
  then have "length r < length (skip_0x (skip_sign (skip_ws s)))"
    by (auto simp: scanf_x_def Let_def dest: scan_unsigned_shorter)
  with skip_lengths show ?thesis by (meson order.strict_trans2 order_trans)
qed

lemma strtol16_shorter: "strtol16 s = Number v r \<Longrightarrow> length r < length s"
proof -
  assume a: "strtol16 s = Number v r"
  let ?u = "skip_0x (skip_sign (skip_ws s))"
  have "takeWhile is_hex ?u \<noteq> []" "r = drop (length (takeWhile is_hex ?u)) ?u"
    using a by (auto simp: strtol16_def Let_def split: if_splits)
  then have "length r < length ?u" by (cases ?u) (auto split: if_splits)
  with skip_lengths show ?thesis by (meson order.strict_trans2 order_trans)
qed

section \<open>Sending\<close>

text \<open>The array \<open>uint32_t buffer[1024]\<close>; \<open>None\<close> is a word that was never written.\<close>

type_synonym wbuf = "u32 option list"

definition empty_wbuf :: wbuf where
  "empty_wbuf = replicate 1024 None"

lemma length_empty_wbuf [simp]: "length empty_wbuf = 1024"
  unfolding empty_wbuf_def by (rule length_replicate)

definition put_word :: "u32 \<Rightarrow> nat \<Rightarrow> wbuf \<Rightarrow> wbuf res" where
  "put_word w i b = (if i < length b then Inr (b[i := Some w]) else Inl OutOfBounds)"

text \<open>\<open>sizeof buffer\<close> is 4096, so that is what the loop compares the index with.\<close>

function data_loop :: "string \<Rightarrow> nat \<Rightarrow> wbuf \<Rightarrow> (nat \<times> wbuf \<times> string) res" where
  "data_loop inp i b =
     (case scanf_x inp of
        (None, rest) \<Rightarrow> Inr (i, b, rest)
      | (Some w, rest) \<Rightarrow>
          rbind (put_word w i b) (\<lambda>b. if 4096 \<le> Suc i then Inr (Suc i, b, rest) else data_loop rest (Suc i) b))"
  by auto
termination by (relation "measure (\<lambda>(inp, _). length inp)") (auto dest: scanf_x_shorter [OF sym])

function arg_loop :: "string \<Rightarrow> nat \<Rightarrow> wbuf \<Rightarrow> (nat \<times> wbuf) option res" where
  "arg_loop buf i b =
     (if buf = [] then Inr (Some (i, b))
      else
        (case strtol16 buf of
           No_digits \<Rightarrow> Inr None
         | Out_of_range \<Rightarrow> Inr None
         | Number v endptr \<Rightarrow>
             if \<not> is_space (chr_at endptr) \<and> chr_at endptr \<noteq> nul then Inr None
             else rbind (put_word (word_of_int v) i b) (\<lambda>b. arg_loop (skip_ws endptr) (Suc i) b)))"
  by auto
termination
  by (relation "measure (\<lambda>(buf, _). length buf)")
     (auto dest!: strtol16_shorter intro: le_less_trans [OF skip_lengths(1)])

definition is_blank :: "char \<Rightarrow> bool" where
  "is_blank c \<longleftrightarrow> c = nul \<or> is_space c"

definition send_target :: "string \<Rightarrow> (side \<times> string) option" where
  "send_target buf =
     (if strncmp_eq buf ''server'' 6 then Some (SERVER, drop 6 buf)
      else if chr_at buf = CHR ''s'' \<and> is_blank (chr_at (drop 1 buf)) then Some (SERVER, drop 1 buf)
      else if strncmp_eq buf ''client'' 6 then Some (CLIENT, drop 6 buf)
      else if chr_at buf = CHR ''c'' \<and> is_blank (chr_at (drop 1 buf)) then Some (CLIENT, drop 1 buf)
      else None)"

text \<open>The message as it is asked for, with its size; \<open>None\<close> is the jump to \<open>out\<close>.\<close>

definition send_interactive :: "string \<Rightarrow> ((u32 \<times> wbuf) \<times> string) res" where
  "send_interactive inp =
     (let b = empty_wbuf; (idw, inp) = scanf_u inp; (opcode, inp) = scanf_u inp in
      rbind (data_loop inp 2 (b[0 := idw])) (\<lambda>(i, b, inp).
        let sz = word_of_nat (4 * i) :: u32 in
        case opcode of
          None \<Rightarrow> Inl UninitRead
        | Some oc \<Rightarrow> rbind (put_word (push_bit 16 sz OR (oc AND 0xffff)) 1 b) (\<lambda>b. Inr ((sz, b), inp))))"

definition send_argument :: "string \<Rightarrow> (u32 \<times> wbuf) option res" where
  "send_argument buf =
     rbind (arg_loop buf 0 empty_wbuf) (\<lambda>r.
       case r of
         None \<Rightarrow> Inr None
       | Some (i, b) \<Rightarrow> (case b ! 1 of None \<Rightarrow> Inl UninitRead | Some w \<Rightarrow> Inr (Some (drop_bit 16 w, b))))"

text \<open>\<open>wl_connection_write (conn, buffer, size)\<close>: more than its buffer holds is refused by the size
  alone, otherwise all the bytes are read.\<close>

definition written_bytes :: "u32 \<Rightarrow> wbuf \<Rightarrow> bytes res" where
  "written_bytes sz b =
     (let n = unat sz; ws = takeWhile (\<lambda>w. w \<noteq> None) b in
      if 4096 < n then Inr (replicate n 0)
      else if 4 * length ws < n then Inl UninitRead
      else Inr (take n (words_bytes (map the ws))))"

text \<open>\<open>conn\<close>: whether \<open>message->connection\<close> is there.  The result is the write that is asked for and
  the input that is left.\<close>

definition cmd_send ::
    "(side \<Rightarrow> wbuf \<Rightarrow> u32 \<Rightarrow> unit res) \<Rightarrow> bool \<Rightarrow> string \<Rightarrow> string \<Rightarrow> ((side \<times> bytes) option \<times> string) res" where
  "cmd_send print conn buf inp =
     (case send_target buf of
        None \<Rightarrow> Inr (None, inp)
      | Some (to, rest) \<Rightarrow>
          if \<not> conn then Inl NullDeref
          else
            let buf = skip_ws rest in
            rbind (if buf = [] then rbind (send_interactive inp) (\<lambda>(m, inp). Inr (Some m, inp))
                   else rbind (send_argument buf) (\<lambda>m. Inr (m, inp))) (\<lambda>(m, inp).
              case m of
                None \<Rightarrow> Inr (None, inp)
              | Some (sz, b) \<Rightarrow>
                  rbind (print (case to of CLIENT \<Rightarrow> SERVER | SERVER \<Rightarrow> CLIENT) b sz) (\<lambda>_.
                    if chr_at inp \<noteq> CHR ''y'' then Inr (None, drop 1 inp)
                    else rbind (written_bytes sz b) (\<lambda>xs. Inr (Some (to, xs), drop 1 inp)))))"

section \<open>Editing\<close>

text \<open>What editing needs from the system: the environment variable that the code asks for, whether the
  message can be stored, the exit status of the editor and the contents of the file afterwards.\<close>

record edit_env =
  ee_getenv :: "string \<Rightarrow> string option"
  ee_store :: bool
  ee_malloc :: bool
  ee_system :: "string \<Rightarrow> bytes \<Rightarrow> int"
  ee_file :: "string \<Rightarrow> bytes \<Rightarrow> bytes option"

definition edit_name :: "edit_env \<Rightarrow> string \<Rightarrow> string option res" where
  "edit_name e buf =
     (if buf = [] then Inr (ee_getenv e ''$EDITOR'')
      else
        let w = take 127 (takeWhile (\<lambda>c. \<not> is_space c) (skip_ws buf)) in
        if w = [] then Inl UninitRead else Inr (Some w))"

text \<open>\<open>read (fd, message->data, 4096)\<close>.\<close>

definition read_message_from_tmpfile :: "bytes option \<Rightarrow> bytes \<Rightarrow> nat \<Rightarrow> (bytes \<times> nat) res" where
  "read_message_from_tmpfile file m sz =
     (case file of
        None \<Rightarrow> Inr (m, sz)
      | Some xs \<Rightarrow>
          let got = take 4096 xs in
          if length m < length got then Inl OutOfBounds else Inr (got @ drop (length got) m, length got))"

text \<open>\<open>m\<close> is the memory from \<open>message->data\<close> on and \<open>sz\<close> is \<open>message->size\<close>.\<close>

definition cmd_edit ::
    "edit_env \<Rightarrow> (bytes \<Rightarrow> nat \<Rightarrow> unit res) \<Rightarrow> string \<Rightarrow> bytes \<Rightarrow> nat \<Rightarrow> (bytes \<times> nat) res" where
  "cmd_edit e print buf m sz =
     rbind (edit_name e buf) (\<lambda>editor.
       case editor of
         None \<Rightarrow> Inr (m, sz)
       | Some ed \<Rightarrow>
           if \<not> ee_store e \<or> \<not> ee_malloc e then Inr (m, sz)
           else if length m < sz then Inl OutOfBounds
           else
             rbind (if ee_system e ed (take sz m) \<noteq> 0 then Inr (m, sz)
                    else read_message_from_tmpfile (ee_file e ed (take sz m)) m sz) (\<lambda>(m, sz).
             rbind (print m sz) (\<lambda>_. Inr (m, sz))))"

section \<open>Lemmas\<close>

declare data_loop.simps [simp del] arg_loop.simps [simp del]

lemma is_hex_digit_char: "d < 16 \<Longrightarrow> is_hex (digit_char d)"
  by (auto simp: is_hex_def is_digit_def digit_char_def)

lemma hex_digit_digit_char: "d < 16 \<Longrightarrow> hex_digit (digit_char d) = d"
  by (auto simp: hex_digit_def is_digit_def digit_char_def)

lemma hex_val_snoc [simp]: "hex_val (s @ [c]) = 16 * hex_val s + hex_digit c"
  by (simp add: hex_val_def)

lemma show_hex_facts: "hex_val (show_hex n) = n \<and> (\<forall>c \<in> set (show_hex n). is_hex c) \<and> show_hex n \<noteq> []"
proof (induction n rule: less_induct)
  case (less n)
  show ?case
  proof (cases "n < 16")
    case True
    then show ?thesis
      by (simp add: show_hex_def show_base.simps [of 16 n] hex_val_def hex_digit_digit_char is_hex_digit_char)
  next
    case False
    then have "hex_val (show_hex (n div 16)) = n div 16 \<and> (\<forall>c \<in> set (show_hex (n div 16)). is_hex c)"
      using less.IH [of "n div 16"] by simp
    with False show ?thesis
      by (auto simp: show_hex_def show_base.simps [of 16 n] hex_digit_digit_char is_hex_digit_char)
  qed
qed

lemma hex_not_special:
  assumes "is_hex c"
  shows "\<not> is_space c" "c \<noteq> CHR ''-''" "c \<noteq> CHR ''+''" "c \<noteq> CHR ''x''" "c \<noteq> CHR ''X''" "c \<noteq> nul"
  using assms by (auto simp: is_hex_def is_digit_def is_space_def nul_def)

text \<open>A word as it is printed, with a space behind it.\<close>

lemma hex_text:
  obtains d ds where "show_hex n = d # ds" "is_hex d" "\<forall>c \<in> set ds. is_hex c"
  using show_hex_facts [of n] by (cases "show_hex n") auto

lemma hex_text_start:
  fixes r :: string and n :: nat
  defines "s \<equiv> show_hex n @ CHR '' '' # r"
  shows "skip_ws s = s" "skip_sign s = s" "chr_at s \<noteq> CHR ''-''" "skip_0x s = s" "takeWhile is_hex s = show_hex n"
proof -
  obtain d ds where d: "show_hex n = d # ds" "is_hex d" "\<forall>c \<in> set ds. is_hex c" by (rule hex_text)
  note nd = hex_not_special [OF d(2)]
  show "skip_ws s = s" "skip_sign s = s" "chr_at s \<noteq> CHR ''-''"
    using nd by (simp_all add: s_def d(1) skip_ws_def skip_sign_def)
  have "chr_at (drop 1 s) \<noteq> CHR ''x'' \<and> chr_at (drop 1 s) \<noteq> CHR ''X''"
    using d(3) hex_not_special by (cases ds) (auto simp: s_def d(1))
  then show "skip_0x s = s" by (simp add: skip_0x_def)
  have "\<not> is_hex (CHR '' '')" by (simp add: is_hex_def is_digit_def)
  then show "takeWhile is_hex s = show_hex n"
    using show_hex_facts [of n] by (simp add: s_def takeWhile_append_all)
qed

lemma strtol16_hex: "strtol16 (show_hex (unat (w :: u32)) @ CHR '' '' # r) = Number (int (unat w)) (CHR '' '' # r)"
proof -
  have "uint w < 4294967296" using unsigned_less [of w, where ?'a = int] by simp
  then have "\<not> uint w < - 9223372036854775808" "\<not> 9223372036854775807 < uint w"
    using uint_ge_0 [of w] by linarith+
  then show ?thesis
    using show_hex_facts [of "unat w"] by (simp add: strtol16_def Let_def hex_text_start)
qed

lemma scanf_x_hex: "scanf_x (show_hex (unat (w :: u32)) @ CHR '' '' # r) = (Some w, CHR '' '' # r)"
proof -
  have "unat w < 2 ^ 64" using unat_u32_less [of w] by simp
  then show ?thesis
    using show_hex_facts [of "unat w"] by (simp add: scanf_x_def scan_unsigned_def Let_def hex_text_start)
qed

definition hexes :: "u32 list \<Rightarrow> string" where
  "hexes ws = concat (map (\<lambda>w. show_hex (unat w) @ '' '') ws)"

lemma hexes_simps [simp]: "hexes [] = []" "hexes (w # ws) = show_hex (unat w) @ CHR '' '' # hexes ws"
  by (simp_all add: hexes_def)

lemma skip_ws_hexes: "skip_ws (CHR '' '' # hexes ws @ r) = skip_ws (hexes ws @ r)" "skip_ws (hexes ws) = hexes ws"
  using hex_text_start(1) by (cases ws; simp add: skip_ws_def is_space_def)+

text \<open>Words written one after the other from index \<open>i\<close> on.\<close>

definition filled :: "nat \<Rightarrow> u32 list \<Rightarrow> wbuf \<Rightarrow> wbuf" where
  "filled i ws b = take i b @ map Some ws @ drop (i + length ws) b"

lemma filled_step:
  "i < length b \<Longrightarrow> filled (Suc i) ws (b[i := Some w]) = filled i (w # ws) b"
  by (simp add: filled_def take_Suc_conv_app_nth list_update_append)

lemma arg_loop_hexes:
  "arg_loop (hexes ws) i b =
     (if i + length ws \<le> length b \<or> ws = [] then Inr (Some (i + length ws, filled i ws b)) else Inl OutOfBounds)"
proof (induction ws arbitrary: i b)
  case Nil
  show ?case by (simp add: arg_loop.simps [of "[]"] filled_def)
next
  case (Cons w ws)
  have ne: "hexes (w # ws) \<noteq> []" by simp
  have "skip_ws (CHR '' '' # hexes ws) = hexes ws" using skip_ws_hexes(1) [of ws "[]"] skip_ws_hexes(2) [of ws] by simp
  then have step: "arg_loop (hexes (w # ws)) i b = rbind (put_word w i b) (\<lambda>b. arg_loop (hexes ws) (Suc i) b)"
    unfolding arg_loop.simps [of "hexes (w # ws)"] if_not_P [OF ne]
    by (simp add: strtol16_hex is_space_def)
  show ?case
  proof (cases "i < length b")
    case True
    then show ?thesis
      unfolding step by (simp add: put_word_def Cons.IH filled_step)
  next
    case False
    then show ?thesis unfolding step by (simp add: put_word_def)
  qed
qed

text \<open>The data that is typed in ends at the first character that is no number, here the answer.\<close>

lemma scanf_x_end: "scanf_x (CHR ''y'' # r) = (None, CHR ''y'' # r)"
  by (simp add: scanf_x_def scan_unsigned_def skip_ws_def skip_sign_def skip_0x_def is_space_def is_hex_def is_digit_def)

lemma scanf_x_space: "scanf_x (CHR '' '' # s) = scanf_x s"
  by (simp add: scanf_x_def skip_ws_def is_space_def)

lemma data_loop_space: "data_loop (CHR '' '' # s) i b = data_loop s i b"
  unfolding data_loop.simps [of "CHR '' '' # s"] data_loop.simps [of s] scanf_x_space ..

lemma data_loop_hexes:
  assumes "length b = 1024" "i \<le> 1024"
  shows "data_loop (hexes ws @ CHR ''y'' # r) i b =
     (if i + length ws \<le> 1024 then Inr (i + length ws, filled i ws b, CHR ''y'' # r) else Inl OutOfBounds)"
  using assms
proof (induction ws arbitrary: i b)
  case Nil
  then show ?case by (simp add: data_loop.simps [of "CHR ''y'' # r"] scanf_x_end filled_def)
next
  case (Cons w ws)
  let ?b = "b[i := Some w]"
  have step: "data_loop (hexes (w # ws) @ CHR ''y'' # r) i b =
      (if i < 1024 then data_loop (hexes ws @ CHR ''y'' # r) (Suc i) ?b else Inl OutOfBounds)"
    using Cons.prems
    unfolding data_loop.simps [of "hexes (w # ws) @ CHR ''y'' # r"]
    by (simp add: scanf_x_hex put_word_def data_loop_space)
  show ?case
  proof (cases "i < 1024")
    case True
    with Cons.prems show ?thesis
      unfolding step by (simp add: Cons.IH filled_step)
  next
    case False
    then show ?thesis unfolding step by simp
  qed
qed

lemma written_bytes_no_overrun: "written_bytes sz b \<noteq> Inl OutOfBounds"
  by (simp add: written_bytes_def Let_def)

lemma send_target_names:
  assumes "(name, who) \<in> {(''server '', SERVER), (''s '', SERVER), (''client '', CLIENT), (''c '', CLIENT)}"
  shows "send_target (name @ r) = Some (who, CHR '' '' # r)"
  using assms by (auto simp: send_target_def strncmp_eq_def is_blank_def is_space_def nul_def)

section \<open>Properties\<close>



text \<open>More words than the array of 1024 holds are written behind it: an argument of 1025 words, or
  1023 words of data in the dialog, whose check compares the index with the size of the array in
  bytes.\<close>

theorem send_overflows:
  assumes "scanf_u inp = (Some i, inp')" "scanf_u inp' = (Some oc, CHR '' '' # hexes ds @ CHR ''y'' # rest)" "hexes ws \<noteq> []"
  shows "(1024 < length ws \<longrightarrow> cmd_send print True (''c '' @ hexes ws) inp0 = Inl OutOfBounds) \<and>
    (cmd_send (\<lambda>_ _ _. Inr ()) True ''c'' inp = Inl OutOfBounds \<longleftrightarrow> 1022 < length ds)"
proof
  have s: "skip_ws ('' '' @ hexes ws) = hexes ws"
    using skip_ws_hexes(1) [of ws "[]"] skip_ws_hexes(2) [of ws] by simp
  have t: "send_target (''c '' @ hexes ws) = Some (CLIENT, '' '' @ hexes ws)" "send_target ''c'' = Some (CLIENT, [])"
    by (simp_all add: send_target_def strncmp_eq_def is_blank_def is_space_def)
  show "1024 < length ws \<longrightarrow> cmd_send print True (''c '' @ hexes ws) inp0 = Inl OutOfBounds"
    using s assms(3) unfolding cmd_send_def t by (auto simp: send_argument_def arg_loop_hexes)
  show "cmd_send (\<lambda>_ _ _. Inr ()) True ''c'' inp = Inl OutOfBounds \<longleftrightarrow> 1022 < length ds"
    unfolding cmd_send_def t using assms(1,2)
    by (auto simp: send_interactive_def data_loop_space data_loop_hexes put_word_def filled_def skip_ws_def Let_def
        rbind_eq_Inl written_bytes_no_overrun)
qed

theorem send_overflows_witness:
  "cmd_send (\<lambda>_ _ _. Inr ()) True ''c'' (''1 2 '' @ hexes [7] @ CHR ''y'' # []) \<noteq> Inl OutOfBounds"
proof -
  have a: "scanf_u (''1 2 '' @ hexes [7] @ CHR ''y'' # []) = (Some 1, '' 2 '' @ hexes [7] @ CHR ''y'' # [])"
    by (simp add: scanf_u_def scan_unsigned_def skip_ws_def skip_sign_def is_space_def is_digit_def dec_val_def digit_val_def)
  have b: "scanf_u ('' 2 '' @ hexes [7] @ CHR ''y'' # []) = (Some 2, CHR '' '' # hexes [7] @ CHR ''y'' # [])"
    by (simp add: scanf_u_def scan_unsigned_def skip_ws_def skip_sign_def is_space_def is_digit_def dec_val_def digit_val_def)
  show ?thesis using send_overflows [OF a b, of "[7]" "\<lambda>_ _ _. Inr ()" "[]"] by simp
qed

end
