(* ===== verification/Interactive.thy ===== *)
theory Interactive
  imports Breakpoints Filters Autocmds Send_Edit Pass_Loading Process
begin

text \<open>
  Interactive mode: the commands of \<^verbatim>\<open>src/interactive/interactive-commands.c\<close> and
  \<^verbatim>\<open>src/interactive/pass.c\<close>, the input of \<^verbatim>\<open>src/interactive/input.c\<close> in its version without
  readline, and the pass of \<^verbatim>\<open>src/interactive/interactive.c\<close>.

  The state has \<open>struct wldbg_interactive\<close>, the counters of ids, the message that is being looked at,
  and what the commands touch of \<open>struct wldbg\<close>.  Printing a message and \<^verbatim>\<open>info\<close> are parameters, the
  second one says whether it faults; their texts are in the theories \<open>Print\<close> and \<open>Info\<close>, those of the
  help in \<open>Help\<close>.  What was printed for the messages that came through is kept.
\<close>

datatype cmd_status = CMD_DONT_MATCH | CMD_END_QUERY | CMD_CONTINUE_QUERY

record ('r, 'p) wldbgi =
  wi_server_msg_no :: u64
  wi_client_msg_no :: u64
  wi_stop :: bool
  wi_skip_first_query :: bool
  wi_last_command :: "string option"
  wi_breakpoints :: "'r break_state"
  wi_filters :: "'r filter_state"
  wi_autocmds :: "'r autocmd_state"
  wi_running :: bool
  wi_error :: bool
  wi_exit :: bool
  wi_clients :: "int list"
  wi_killed :: "int list"
  wi_passes :: "(string \<times> 'p) list"
  wi_stdin :: string
  wi_msg :: mctx
  wi_msg_size :: nat
  wi_connected :: bool
  wi_written :: "(side \<times> bytes) list"
  wi_shown :: string

record ('r, 'p) wenv =
  we_rx :: "'r regex_lib"
  we_host :: "'p host"
  we_alloc :: break_alloc
  we_mem_ok :: bool
  we_edit :: edit_env
  we_print :: "mctx \<Rightarrow> nat \<Rightarrow> string res"
  we_info :: "('r, 'p) wldbgi \<Rightarrow> string \<Rightarrow> unit res"

section \<open>Input\<close>

text \<open>\<open>fgets\<close> into 1024 characters, and \<open>remove_newline\<close>: the memory of the line and the rest of the
  input; \<open>None\<close> at the end of the input.\<close>

definition wldbgi_read_input :: "bool \<Rightarrow> string \<Rightarrow> string option \<times> string" where
  "wldbgi_read_input mem_ok inp =
     (if \<not> mem_ok \<or> inp = [] then (None, inp)
      else
        let line = takeWhile (\<lambda>c. c \<noteq> CHR 0x0A) inp in
        if 1023 \<le> length line then (Some (take 1023 inp @ [nul]), drop 1023 inp)
        else if length line = length inp then (Some (line @ [nul]), [])
        else (Some (line @ (if nul \<in> set line then [CHR 0x0A, nul] else [nul, nul])), drop (Suc (length line)) inp))"

definition wldbgi_add_history :: "bool \<Rightarrow> string \<Rightarrow> ('r, 'p) wldbgi \<Rightarrow> ('r, 'p) wldbgi" where
  "wldbgi_add_history mem_ok c st = st\<lparr>wi_last_command := (if mem_ok then Some (c @ [nul]) else None)\<rparr>"

section \<open>Commands\<close>

definition terminate_client :: "int \<Rightarrow> ('r, 'p) wldbgi \<Rightarrow> ('r, 'p) wldbgi" where
  "terminate_client pid st = st\<lparr>wi_killed := wi_killed st @ [pid]\<rparr>"

text \<open>The loop that clears the input compares with the newline only, so it never ends at the end of the
  input.\<close>

definition cmd_quit :: "('r, 'p) wldbgi \<Rightarrow> (cmd_status \<times> ('r, 'p) wldbgi) res" where
  "cmd_quit st =
     (if wi_running st \<and> \<not> wi_error st \<and> wi_clients st \<noteq> [] then
        (if wi_stdin st \<noteq> [] \<and> hd (wi_stdin st) = CHR ''y'' then
           Inr (CMD_END_QUERY, (fold terminate_client (wi_clients st) (st\<lparr>wi_stdin := tl (wi_stdin st)\<rparr>))\<lparr>wi_exit := True\<rparr>)
         else
           let rest = dropWhile (\<lambda>c. c \<noteq> CHR 0x0A) (drop 1 (wi_stdin st)) in
           if rest = [] then Inl Hang else Inr (CMD_CONTINUE_QUERY, st\<lparr>wi_stdin := tl rest\<rparr>))
      else Inr (CMD_END_QUERY, st\<lparr>wi_exit := True\<rparr>))"

definition cmd_next :: "('r, 'p) wldbgi \<Rightarrow> cmd_status \<times> ('r, 'p) wldbgi" where
  "cmd_next st = (if \<not> wi_running st then (CMD_CONTINUE_QUERY, st) else (CMD_END_QUERY, st\<lparr>wi_stop := True\<rparr>))"

definition cmd_continue :: "('r, 'p) wldbgi \<Rightarrow> cmd_status \<times> ('r, 'p) wldbgi" where
  "cmd_continue st = (if \<not> wi_running st then CMD_CONTINUE_QUERY else CMD_END_QUERY, st)"

definition add_pass :: "'p host \<Rightarrow> string \<Rightarrow> (string \<times> 'p) list \<Rightarrow> (string \<times> 'p) list" where
  "add_pass h name ps =
     (case create_pass h name of
        None \<Rightarrow> ps
      | Some (n, p) \<Rightarrow> if pass_init h p [] \<noteq> 0 then ps else insert_after_first (n, p) ps)"

definition remove_pass :: "string \<Rightarrow> (string \<times> 'p) list \<Rightarrow> (string \<times> 'p) list" where
  "remove_pass name ps = remove_first (\<lambda>(n, p). n = name) ps"

definition cmd_pass :: "'p host \<Rightarrow> string \<Rightarrow> (string \<times> 'p) list \<Rightarrow> (string \<times> 'p) list" where
  "cmd_pass h buf ps =
     (if buf = ''list'' \<or> buf = ''loaded'' then ps
      else if strncmp_eq buf ''add '' 4 then add_pass h (drop 4 buf) ps
      else if strncmp_eq buf ''remove '' 7 then remove_pass (drop 7 buf) ps
      else ps)"

text \<open>One entry of the table called with the memory of its argument; the result has that memory
  afterwards.\<close>

definition call_command ::
    "('r, 'p) wenv \<Rightarrow> cmd \<Rightarrow> string \<Rightarrow> ('r, 'p) wldbgi \<Rightarrow> (cmd_status \<times> string \<times> ('r, 'p) wldbgi) res" where
  "call_command e c m st =
     rbind (c_text m) (\<lambda>buf.
       case c of
         Cmd_autocmd \<Rightarrow>
           rbind (cmd_autocmd (we_mem_ok e) (we_rx e) m (wi_autocmds st)) (\<lambda>(as, m').
             Inr (CMD_CONTINUE_QUERY, m', st\<lparr>wi_autocmds := as\<rparr>))
       | Cmd_break \<Rightarrow>
           rbind (cmd_break (we_alloc e) (we_rx e) (wi_msg st) m (wi_breakpoints st)) (\<lambda>(bs, m').
             Inr (CMD_CONTINUE_QUERY, m', st\<lparr>wi_breakpoints := bs\<rparr>))
       | Cmd_continue \<Rightarrow> (case cmd_continue st of (r, st') \<Rightarrow> Inr (r, m, st'))
       | Cmd_edit \<Rightarrow>
           rbind (cmd_edit (we_edit e) (\<lambda>d n. rbind (we_print e ((wi_msg st)\<lparr>mc_data := d\<rparr>) n) (\<lambda>_. Inr ())) buf (mc_data (wi_msg st)) (wi_msg_size st)) (\<lambda>(d, n).
             Inr (CMD_CONTINUE_QUERY, m, st\<lparr>wi_msg := (wi_msg st)\<lparr>mc_data := d\<rparr>, wi_msg_size := n\<rparr>))
       | Cmd_filter \<Rightarrow> Inr (CMD_CONTINUE_QUERY, m, st\<lparr>wi_filters := cmd_filter buf (wi_filters st)\<rparr>)
       | Cmd_help \<Rightarrow> Inr (CMD_CONTINUE_QUERY, m, st)
       | Cmd_hide \<Rightarrow>
           rbind (cmd_hide (we_mem_ok e) (we_rx e) buf (wi_filters st)) (\<lambda>fs.
             Inr (CMD_CONTINUE_QUERY, m, st\<lparr>wi_filters := fs\<rparr>))
       | Cmd_info \<Rightarrow> rbind (we_info e st buf) (\<lambda>_. Inr (CMD_CONTINUE_QUERY, m, st))
       | Cmd_next \<Rightarrow> (case cmd_next st of (r, st') \<Rightarrow> Inr (r, m, st'))
       | Cmd_pass \<Rightarrow> Inr (CMD_CONTINUE_QUERY, m, st\<lparr>wi_passes := cmd_pass (we_host e) buf (wi_passes st)\<rparr>)
       | Cmd_send \<Rightarrow>
           rbind (cmd_send (\<lambda>from b n. rbind (we_print e ((wi_msg st)\<lparr>mc_from := from,
                     mc_data := words_bytes (map the (takeWhile (\<lambda>w. w \<noteq> None) b))\<rparr>) (unat n)) (\<lambda>_. Inr ()))
                   (wi_connected st) buf (wi_stdin st)) (\<lambda>(w, inp).
             Inr (CMD_CONTINUE_QUERY, m, st\<lparr>wi_stdin := inp,
               wi_written := wi_written st @ (case w of None \<Rightarrow> [] | Some x \<Rightarrow> [x])\<rparr>))
       | Cmd_showonly \<Rightarrow>
           rbind (cmd_showonly (we_mem_ok e) (we_rx e) buf (wi_filters st)) (\<lambda>fs.
             Inr (CMD_CONTINUE_QUERY, m, st\<lparr>wi_filters := fs\<rparr>))
       | Cmd_quit \<Rightarrow> rbind (cmd_quit st) (\<lambda>(r, st'). Inr (r, m, st')))"

definition run_command ::
    "('r, 'p) wenv \<Rightarrow> string \<Rightarrow> ('r, 'p) wldbgi \<Rightarrow> (cmd_status \<times> string \<times> ('r, 'p) wldbgi) res" where
  "run_command e m st =
     rbind (c_text m) (\<lambda>text.
       case find_command text of
         None \<Rightarrow> Inr (CMD_DONT_MATCH, m, st)
       | Some c \<Rightarrow>
           let off = length text - length (next_word text) in
           rbind (call_command e c (drop off m) st) (\<lambda>(r, m', st'). Inr (r, take off m @ m', st')))"

section \<open>Asking the user\<close>

text \<open>One line of input: the command that it stands for, run.  \<open>Inr None\<close> is a line with nothing to run.
  A command from the history is run in place, so it may come out cut.\<close>

definition run_line ::
    "('r, 'p) wenv \<Rightarrow> string \<Rightarrow> ('r, 'p) wldbgi \<Rightarrow> (cmd_status option \<times> ('r, 'p) wldbgi) res" where
  "run_line e m st =
     rbind (c_text m) (\<lambda>text.
       let off = length text - length (skip_ws text) in
       if skip_ws text = [] then
         (case wi_last_command st of
            None \<Rightarrow> Inr (None, st)
          | Some l \<Rightarrow>
              rbind (run_command e l st) (\<lambda>(r, l', st'). Inr (Some r, st'\<lparr>wi_last_command := Some l'\<rparr>)))
       else
         rbind (run_command e (drop off m) (wldbgi_add_history (we_mem_ok e) (skip_ws text) st)) (\<lambda>(r, _, st').
           Inr (Some r, st')))"

partial_function (option) query_user ::
    "('r, 'p) wenv \<Rightarrow> ('r, 'p) wldbgi \<Rightarrow> ('r, 'p) wldbgi res option" where
  "query_user e st =
     (if wi_exit st \<or> wi_error st then Some (Inr st)
      else
        (case wldbgi_read_input (we_mem_ok e) (wi_stdin st) of
           (None, _) \<Rightarrow>
             (case cmd_quit st of
                Inl f \<Rightarrow> Some (Inl f)
              | Inr (r, st') \<Rightarrow> if r = CMD_END_QUERY then Some (Inr st') else query_user e st')
         | (Some m, inp) \<Rightarrow>
             (case run_line e m (st\<lparr>wi_stdin := inp\<rparr>) of
                Inl f \<Rightarrow> Some (Inl f)
              | Inr (r, st') \<Rightarrow> if r = Some CMD_END_QUERY then Some (Inr st') else query_user e st')))"

section \<open>The pass\<close>

definition process_message :: "('r, 'p) wenv \<Rightarrow> ('r, 'p) wldbgi \<Rightarrow> ('r, 'p) wldbgi res option" where
  "process_message e st =
     (case we_print e (wi_msg st) (wi_msg_size st) of
        Inl f \<Rightarrow> Some (Inl f)
      | Inr line \<Rightarrow>
          let st = st\<lparr>wi_shown := wi_shown st @ line\<rparr> in
          if wi_stop st then query_user e (st\<lparr>wi_stop := False\<rparr>) else Some (Inr st))"

fun some_applies :: "'r regex_lib \<Rightarrow> mctx \<Rightarrow> 'r breakpoint list \<Rightarrow> bool res" where
  "some_applies rx msg [] = Inr False"
| "some_applies rx msg (b # bs) =
     rbind (breakpoint_applies rx msg b) (\<lambda>a. if a then Inr True else some_applies rx msg bs)"

definition set_autocmd_memory :: "u32 \<Rightarrow> string \<Rightarrow> 'r autocmd_state \<Rightarrow> 'r autocmd_state" where
  "set_autocmd_memory k m st =
     st\<lparr>as_list := map (\<lambda>a. if ac_id a = k then a\<lparr>ac_cmd := m\<rparr> else a) (as_list st)\<rparr>"

text \<open>\<open>wl_list_for_each\<close> over the automatic commands, from the entry with the id \<open>k\<close> on.  The link of
  an entry is read after its command has run; an entry that is gone by then has been freed.\<close>

definition autocmds_from :: "u32 \<Rightarrow> 'r autocmd list \<Rightarrow> 'r autocmd list" where
  "autocmds_from k acs = dropWhile (\<lambda>a. ac_id a \<noteq> k) acs"

definition first_id :: "'r autocmd list \<Rightarrow> u32 option" where
  "first_id acs = (case acs of [] \<Rightarrow> None | a # _ \<Rightarrow> Some (ac_id a))"

definition run_autocmd ::
    "('r, 'p) wenv \<Rightarrow> 'r autocmd \<Rightarrow> ('r, 'p) wldbgi \<Rightarrow> (u32 option \<times> ('r, 'p) wldbgi) res" where
  "run_autocmd e ac st =
     rbind (run_command e (ac_cmd ac) st) (\<lambda>(_, m, st1).
       let st2 = st1\<lparr>wi_autocmds := set_autocmd_memory (ac_id ac) m (wi_autocmds st1)\<rparr> in
       case autocmds_from (ac_id ac) (as_list (wi_autocmds st2)) of
         [] \<Rightarrow> Inl UseAfterFree
       | _ # rest \<Rightarrow> Inr (first_id rest, st2))"

partial_function (option) autocmd_loop ::
    "('r, 'p) wenv \<Rightarrow> u32 option \<Rightarrow> ('r, 'p) wldbgi \<Rightarrow> ('r, 'p) wldbgi res option" where
  "autocmd_loop e cur st =
     (case cur of
        None \<Rightarrow> Some (Inr st)
      | Some k \<Rightarrow>
          (case autocmds_from k (as_list (wi_autocmds st)) of
             [] \<Rightarrow> Some (Inl UseAfterFree)
           | ac # rest \<Rightarrow>
               (case message_match_autocmd (we_rx e) (wi_msg st) ac of
                  Inl f \<Rightarrow> Some (Inl f)
                | Inr matches \<Rightarrow>
                    if \<not> matches then autocmd_loop e (first_id rest) st
                    else
                      (case run_autocmd e ac st of
                         Inl f \<Rightarrow> Some (Inl f)
                       | Inr (next_ac, st') \<Rightarrow> autocmd_loop e next_ac st'))))"

definition count_message :: "('r, 'p) wldbgi \<Rightarrow> ('r, 'p) wldbgi" where
  "count_message st =
     (let st1 = (case mc_from (wi_msg st) of
          SERVER \<Rightarrow> st\<lparr>wi_server_msg_no := wi_server_msg_no st + 1\<rparr>
        | CLIENT \<Rightarrow> st\<lparr>wi_client_msg_no := wi_client_msg_no st + 1\<rparr>) in
      if \<not> wi_skip_first_query st1 \<and> wi_server_msg_no st1 + wi_client_msg_no st1 = 1 then st1\<lparr>wi_stop := True\<rparr> else st1)"

text \<open>The pass always answers \<open>PASS_STOP\<close>; the result is the state.\<close>

definition process_interactive :: "('r, 'p) wenv \<Rightarrow> ('r, 'p) wldbgi \<Rightarrow> ('r, 'p) wldbgi res option" where
  "process_interactive e st =
     (let st1 = count_message st in
      case filter_match (we_rx e) (fs_list (wi_filters st1)) (wi_msg st1) of
        Inl f \<Rightarrow> Some (Inl f)
      | Inr hide \<Rightarrow>
          (case some_applies (we_rx e) (wi_msg st1) (bs_list (wi_breakpoints st1)) of
             Inl f \<Rightarrow> Some (Inl f)
           | Inr brk \<Rightarrow>
               let st2 = (if brk then st1\<lparr>wi_stop := True\<rparr> else st1) in
               (case autocmd_loop e (first_id (as_list (wi_autocmds st2))) st2 of
                  None \<Rightarrow> None
                | Some (Inl f) \<Rightarrow> Some (Inl f)
                | Some (Inr st3) \<Rightarrow> if hide \<and> \<not> brk then Some (Inr st3) else process_message e st3)))"

definition handle_sigint :: "('r, 'p) wenv \<Rightarrow> bool \<Rightarrow> ('r, 'p) wldbgi \<Rightarrow> (int \<times> ('r, 'p) wldbgi) res option" where
  "handle_sigint e read_ok st =
     (if \<not> read_ok then Some (Inr (-1, st))
      else (case query_user e st of None \<Rightarrow> None | Some r \<Rightarrow> Some (rbind r (\<lambda>st. Inr (1, st)))))"

definition wldbgi_destory :: "('r, 'p) wldbgi \<Rightarrow> ('r, 'p) wldbgi" where
  "wldbgi_destory st = st\<lparr>wi_exit := True, wi_last_command := None,
     wi_breakpoints := (wi_breakpoints st)\<lparr>bs_list := []\<rparr>, wi_filters := (wi_filters st)\<lparr>fs_list := []\<rparr>,
     wi_autocmds := (wi_autocmds st)\<lparr>as_list := []\<rparr>\<rparr>"

text \<open>\<open>process_interactive\<close> as an entry of the list of passes: \<open>message->data\<close> is the memory from the
  offset on, and the flags of \<open>struct wldbg\<close> are shared.\<close>

definition load_message :: "('r, 'p) wldbgi wldbg \<Rightarrow> wmessage \<Rightarrow> ('r, 'p) wldbgi" where
  "load_message w m = (w_state w)\<lparr>wi_exit := w_exit w, wi_error := w_error w,
     wi_msg := (wi_msg (w_state w))\<lparr>mc_from := msg_from m, mc_data := drop (msg_off m) (msg_mem m)\<rparr>,
     wi_msg_size := unat (msg_size m)\<rparr>"

definition store_message :: "('r, 'p) wldbgi \<Rightarrow> ('r, 'p) wldbgi wldbg \<Rightarrow> wmessage \<Rightarrow> ('r, 'p) wldbgi wldbg \<times> wmessage" where
  "store_message st w m =
     (w\<lparr>w_exit := wi_exit st, w_error := wi_error st, w_state := st\<rparr>,
      m\<lparr>msg_mem := take (msg_off m) (msg_mem m) @ mc_data (wi_msg st), msg_size := word_of_nat (wi_msg_size st)\<rparr>)"

definition interactive_callback ::
    "('r, 'p) wenv \<Rightarrow> ('r, 'p) wldbgi wldbg \<Rightarrow> wmessage \<Rightarrow> (('r, 'p) wldbgi wldbg \<times> wmessage \<times> pass_verdict) res" where
  "interactive_callback e w m =
     (case process_interactive e (load_message w m) of
        None \<Rightarrow> Inl Hang
      | Some r \<Rightarrow> rbind r (\<lambda>st. case store_message st w m of (w', m') \<Rightarrow> Inr (w', m', PASS_STOP)))"

definition interactive_pass :: "('r, 'p) wenv \<Rightarrow> ('r, 'p) wldbgi pass" where
  "interactive_pass e = \<lparr>pass_name = ''interactive'', server_pass = interactive_callback e, client_pass = interactive_callback e\<rparr>"

end
