(* ===== verification/Interactive_Facts.thy ===== *)
theory Interactive_Facts
  imports Interactive
begin

text \<open>
  What holds of interactive mode: the table of commands, the end of the dialog, the ids, the message,
  and when the user is asked.
\<close>

section \<open>Input\<close>

lemma scan_unsigned_le: "scan_unsigned dig val neg u = (w, r) \<Longrightarrow> length r \<le> length u"
  by (auto simp: scan_unsigned_def Let_def split: if_splits)

lemma scanf_le: "scanf_u s = (w, r) \<Longrightarrow> length r \<le> length s" "scanf_x s = (w, r) \<Longrightarrow> length r \<le> length s"
proof -
  show "scanf_u s = (w, r) \<Longrightarrow> length r \<le> length s"
    unfolding scanf_u_def Let_def using scan_unsigned_le skip_lengths by (metis order_trans)
  show "scanf_x s = (w, r) \<Longrightarrow> length r \<le> length s"
    unfolding scanf_x_def Let_def using scan_unsigned_le skip_lengths by (metis order_trans)
qed

lemma data_loop_le: "data_loop s i b = Inr (j, b', r) \<Longrightarrow> length r \<le> length s"
proof (induction s i b rule: data_loop.induct)
  case (1 s i b)
  obtain w t where x: "scanf_x s = (w, t)" by (cases "scanf_x s")
  then have t: "length t \<le> length s" by (rule scanf_le)
  show ?case
  proof (cases w)
    case None
    with 1(2) x t show ?thesis by (simp add: data_loop.simps [of s])
  next
    case (Some v)
    then obtain b1 where p: "put_word v i b = Inr b1"
      using 1(2) x by (auto simp: data_loop.simps [of s] rbind_eq_Inr)
    show ?thesis
    proof (cases "4096 \<le> Suc i")
      case True
      with 1(2) x Some p t show ?thesis by (simp add: data_loop.simps [of s])
    next
      case False
      then have "data_loop t (Suc i) b1 = Inr (j, b', r)"
        using 1(2) x Some p by (simp add: data_loop.simps [of s])
      from 1(1) [OF x [symmetric] Some p False this] t show ?thesis by simp
    qed
  qed
qed

lemma send_interactive_le: "send_interactive s = Inr (m, r) \<Longrightarrow> length r \<le> length s"
proof -
  assume a: "send_interactive s = Inr (m, r)"
  obtain w s1 where x: "scanf_u s = (w, s1)" by (cases "scanf_u s")
  obtain v s2 where y: "scanf_u s1 = (v, s2)" by (cases "scanf_u s1")
  obtain i b s3 where d: "data_loop s2 2 (empty_wbuf[0 := w]) = Inr (i, b, s3)" "r = s3"
    using a x y by (auto simp: send_interactive_def Let_def rbind_eq_Inr split: option.splits)
  show ?thesis using scanf_le(1) [OF x] scanf_le(1) [OF y] data_loop_le [OF d(1)] d(2) by simp
qed

lemma cmd_send_le:
  assumes "cmd_send pr conn buf s = Inr (w, r)"
  shows "length r \<le> length s"
proof (cases "send_target buf")
  case None
  with assms show ?thesis by (simp add: cmd_send_def)
next
  case (Some p)
  then obtain t u where p: "send_target buf = Some (t, u)" by (cases p) auto
  have conn: conn using assms p by (cases conn) (simp_all add: cmd_send_def)
  let ?ask = "if skip_ws u = [] then rbind (send_interactive s) (\<lambda>(m, inp). Inr (Some m, inp))
    else rbind (send_argument (skip_ws u)) (\<lambda>m. Inr (m, s))"
  obtain m s1 where a: "?ask = Inr (m, s1)"
    using assms p conn by (auto simp: cmd_send_def Let_def rbind_eq_Inr simp del: split_paired_Ex)
  have "length s1 \<le> length s"
    using a by (auto simp: rbind_eq_Inr dest: send_interactive_le split: if_splits)
  moreover have "r = s1 \<or> r = drop 1 s1"
    using assms unfolding cmd_send_def Let_def p using a conn
    by (cases m) (auto simp: rbind_eq_Inr split: if_splits)
  ultimately show ?thesis by auto
qed

lemma cmd_quit_less:
  assumes "cmd_quit st = Inr (CMD_CONTINUE_QUERY, st')"
  shows "length (wi_stdin st') < length (wi_stdin st)"
proof -
  let ?rest = "dropWhile (\<lambda>c. c \<noteq> CHR 0x0A) (drop 1 (wi_stdin st))"
  have r: "?rest \<noteq> []" "st' = st\<lparr>wi_stdin := tl ?rest\<rparr>"
    using assms by (auto simp: cmd_quit_def Let_def split: if_splits)
  have "length ?rest \<le> length (drop 1 (wi_stdin st))" by (rule length_dropWhile_le)
  with r show ?thesis by (cases "wi_stdin st") (auto simp del: length_greater_0_conv)
qed

lemma read_input_less:
  assumes "wldbgi_read_input mem_ok inp = (Some m, r)"
  shows "length r < length inp"
proof -
  have "length (takeWhile (\<lambda>c. c \<noteq> CHR 0x0A) inp) \<le> length inp" by (rule length_takeWhile_le)
  with assms show ?thesis by (auto simp: wldbgi_read_input_def Let_def split: if_splits)
qed

lemma fold_terminate: "fold terminate_client ps st = st\<lparr>wi_killed := wi_killed st @ ps\<rparr>"
  by (induction ps arbitrary: st) (simp_all add: terminate_client_def)

lemma cmd_quit_frame:
  assumes "cmd_quit st = Inr (r, st')"
  shows "\<exists>inp k x. st' = st\<lparr>wi_stdin := inp, wi_killed := k, wi_exit := x\<rparr> \<and> length inp \<le> length (wi_stdin st)"
proof (cases "wi_running st \<and> \<not> wi_error st \<and> wi_clients st \<noteq> []")
  case run: True
  show ?thesis
  proof (cases "wi_stdin st \<noteq> [] \<and> hd (wi_stdin st) = CHR ''y''")
    case True
    with assms run have "st' = st\<lparr>wi_stdin := tl (wi_stdin st), wi_killed := wi_killed st @ wi_clients st, wi_exit := True\<rparr>"
      by (simp add: cmd_quit_def fold_terminate)
    then show ?thesis by (metis diff_le_self length_tl)
  next
    case False
    have "length (dropWhile (\<lambda>c. c \<noteq> CHR 0x0A) (drop 1 (wi_stdin st))) \<le> length (drop 1 (wi_stdin st))"
      by (rule length_dropWhile_le)
    moreover have "st' = st\<lparr>wi_stdin := tl (dropWhile (\<lambda>c. c \<noteq> CHR 0x0A) (drop 1 (wi_stdin st))),
        wi_killed := wi_killed st, wi_exit := wi_exit st\<rparr>"
      using assms run False by (auto simp: cmd_quit_def Let_def split: if_splits)
    ultimately show ?thesis
      by (intro exI [of _ "tl (dropWhile (\<lambda>c. c \<noteq> CHR 0x0A) (drop 1 (wi_stdin st)))"] exI [of _ "wi_killed st"]
          exI [of _ "wi_exit st"] conjI) simp_all
  qed
next
  case False
  with assms have "st' = st\<lparr>wi_stdin := wi_stdin st, wi_killed := wi_killed st, wi_exit := True\<rparr>"
    by (auto simp: cmd_quit_def)
  then show ?thesis by blast
qed

lemma read_tmpfile_length: "read_message_from_tmpfile file d n = Inr (d', n') \<Longrightarrow> length d' = length d"
  by (auto simp: read_message_from_tmpfile_def Let_def split: option.splits if_splits)

lemma cmd_edit_length:
  assumes "cmd_edit ev pr buf d n = Inr (d', n')"
  shows "length d' = length d"
proof -
  obtain ed where ed: "edit_name ev buf = Inr ed" using assms by (auto simp: cmd_edit_def rbind_eq_Inr)
  show ?thesis
  proof (cases "ed = None \<or> \<not> ee_store ev \<or> \<not> ee_malloc ev")
    case True
    with assms ed show ?thesis by (auto simp: cmd_edit_def split: option.splits)
  next
    case False
    then obtain x where x: "ed = Some x" "ee_store ev" "ee_malloc ev" by auto
    then obtain d1 n1 where "(if ee_system ev x (take n d) \<noteq> 0 then Inr (d, n)
        else read_message_from_tmpfile (ee_file ev x (take n d)) d n) = Inr (d1, n1)" "d' = d1"
      using assms ed by (auto simp: cmd_edit_def rbind_eq_Inr simp del: split_paired_Ex split: if_split_asm)
    then show ?thesis by (auto dest: read_tmpfile_length split: if_splits)
  qed
qed

text \<open>What a command can change: the input shrinks, only \<^verbatim>\<open>edit\<close> touches the message, and each registry
  belongs to its own commands.\<close>

definition keeps :: "cmd \<Rightarrow> ('r, 'p) wldbgi \<Rightarrow> ('r, 'p) wldbgi \<Rightarrow> bool" where
  "keeps c st st' \<longleftrightarrow> length (wi_stdin st') \<le> length (wi_stdin st) \<and>
     (\<exists>d. wi_msg st' = (wi_msg st)\<lparr>mc_data := d\<rparr> \<and> length d = length (mc_data (wi_msg st))) \<and>
     (c \<noteq> Cmd_edit \<longrightarrow> wi_msg st' = wi_msg st \<and> wi_msg_size st' = wi_msg_size st) \<and>
     (c \<noteq> Cmd_break \<longrightarrow> wi_breakpoints st' = wi_breakpoints st) \<and>
     (c \<noteq> Cmd_autocmd \<longrightarrow> wi_autocmds st' = wi_autocmds st) \<and>
     (c \<notin> {Cmd_filter, Cmd_hide, Cmd_showonly} \<longrightarrow> wi_filters st' = wi_filters st)"

lemma keeps_plain:
  assumes "length (wi_stdin st') \<le> length (wi_stdin st)" "wi_msg st' = wi_msg st" "wi_msg_size st' = wi_msg_size st"
    and "c \<noteq> Cmd_break \<Longrightarrow> wi_breakpoints st' = wi_breakpoints st"
    and "c \<noteq> Cmd_autocmd \<Longrightarrow> wi_autocmds st' = wi_autocmds st"
    and "c \<notin> {Cmd_filter, Cmd_hide, Cmd_showonly} \<Longrightarrow> wi_filters st' = wi_filters st"
  shows "keeps c st st'"
proof -
  have "wi_msg st = (wi_msg st)\<lparr>mc_data := mc_data (wi_msg st)\<rparr>" by simp
  then show ?thesis unfolding keeps_def using assms by metis
qed

lemma call_command_keeps:
  assumes "call_command e c m st = Inr (r, m', st')"
  shows "keeps c st st'"
proof (cases c)
  case Cmd_autocmd
  with assms show ?thesis
    by (intro keeps_plain) (auto simp: call_command_def rbind_eq_Inr simp del: split_paired_Ex)
next
  case Cmd_break
  with assms show ?thesis
    by (intro keeps_plain) (auto simp: call_command_def rbind_eq_Inr simp del: split_paired_Ex)
next
  case Cmd_edit
  with assms obtain d n where d: "st' = st\<lparr>wi_msg := (wi_msg st)\<lparr>mc_data := d\<rparr>, wi_msg_size := n\<rparr>"
    "length d = length (mc_data (wi_msg st))"
    by (auto simp: call_command_def rbind_eq_Inr simp del: split_paired_Ex dest!: cmd_edit_length)
  then show ?thesis by (auto simp: keeps_def Cmd_edit)
next
  case Cmd_send
  with assms obtain w inp where "length inp \<le> length (wi_stdin st)" "st' = st\<lparr>wi_stdin := inp, wi_written := w\<rparr>"
    by (auto simp: call_command_def rbind_eq_Inr simp del: split_paired_Ex dest!: cmd_send_le)
  then show ?thesis by (intro keeps_plain) simp_all
next
  case Cmd_quit
  with assms have "cmd_quit st = Inr (r, st')"
    by (auto simp: call_command_def rbind_eq_Inr simp del: split_paired_Ex)
  from cmd_quit_frame [OF this] show ?thesis by (auto intro!: keeps_plain)
qed (use assms in \<open>auto simp: call_command_def rbind_eq_Inr cmd_next_def cmd_continue_def simp del: split_paired_Ex intro!: keeps_plain
  split: if_splits\<close>)

lemma keeps_refl: "keeps c st st"
  by (intro keeps_plain) simp_all

lemma run_command_cases:
  assumes "run_command e m st = Inr (r, m', st')"
  obtains (none) "r = CMD_DONT_MATCH" "m' = m" "st' = st"
  | (command) c off m1 where "call_command e c (drop off m) st = Inr (r, m1, st')" "m' = take off m @ m1"
  using assms by (auto simp: run_command_def rbind_eq_Inr Let_def split: option.splits simp del: split_paired_Ex)

lemma run_command_keeps:
  assumes "run_command e m st = Inr (r, m', st')"
  obtains c where "keeps c st st'"
  using assms by (rule run_command_cases) (blast intro: keeps_refl dest: call_command_keeps)+

lemma keeps_history: "keeps c (wldbgi_add_history ok t st) st' \<Longrightarrow> keeps c st st'"
  by (simp add: keeps_def wldbgi_add_history_def)

lemma keeps_last: "keeps c st st' \<Longrightarrow> keeps c st (st'\<lparr>wi_last_command := l\<rparr>)"
  by (simp add: keeps_def)

lemma run_line_keeps:
  assumes "run_line e m st = Inr (r, st')"
  obtains c where "keeps c st st'"
proof -
  obtain ln where t: "c_text m = Inr ln" using assms by (auto simp: run_line_def rbind_eq_Inr)
  show ?thesis
  proof (cases "skip_ws ln = []")
    case True
    show ?thesis
    proof (cases "wi_last_command st")
      case None
      with assms t True have "st' = st" by (simp add: run_line_def)
      then show ?thesis using that keeps_refl by blast
    next
      case (Some l)
      with assms t True obtain q l' st1 where "run_command e l st = Inr (q, l', st1)"
        "st' = st1\<lparr>wi_last_command := Some l'\<rparr>"
        by (auto simp: run_line_def rbind_eq_Inr simp del: split_paired_Ex)
      then show ?thesis using that keeps_last run_command_keeps by metis
    qed
  next
    case False
    with assms t obtain q l' where
      "run_command e (drop (length ln - length (skip_ws ln)) m) (wldbgi_add_history (we_mem_ok e) (skip_ws ln) st) =
        Inr (q, l', st')"
      by (auto simp: run_line_def rbind_eq_Inr Let_def simp del: split_paired_Ex)
    then show ?thesis using that keeps_history run_command_keeps by metis
  qed
qed

section \<open>The end of the dialog\<close>

lemma query_user_total: "\<exists>r. query_user e st = Some r"
proof (induction "length (wi_stdin st)" arbitrary: st rule: less_induct)
  case less
  show ?case
  proof (cases "wi_exit st \<or> wi_error st")
    case True
    then show ?thesis by (simp add: query_user.simps [of e st])
  next
    case run: False
    obtain mo inp where ri: "wldbgi_read_input (we_mem_ok e) (wi_stdin st) = (mo, inp)"
      by (cases "wldbgi_read_input (we_mem_ok e) (wi_stdin st)")
    show ?thesis
    proof (cases mo)
      case None
      show ?thesis
      proof (cases "cmd_quit st")
        case (Inl f)
        with run ri None show ?thesis by (simp add: query_user.simps [of e st])
      next
        case (Inr p)
        obtain r st' where p: "p = (r, st')" by (cases p)
        show ?thesis
        proof (cases "r = CMD_END_QUERY")
          case True
          with run ri None Inr p show ?thesis by (simp add: query_user.simps [of e st])
        next
          case False
          then have "r = CMD_CONTINUE_QUERY"
            using Inr p by (auto simp: cmd_quit_def Let_def split: if_splits)
          with Inr p have "length (wi_stdin st') < length (wi_stdin st)" by (simp add: cmd_quit_less)
          then have "\<exists>q. query_user e st' = Some q" by (rule less)
          with run ri None Inr p False show ?thesis by (simp add: query_user.simps [of e st])
        qed
      qed
    next
      case (Some m)
      then have less': "length inp < length (wi_stdin st)" using ri read_input_less by blast
      show ?thesis
      proof (cases "run_line e m (st\<lparr>wi_stdin := inp\<rparr>)")
        case (Inl f)
        with run ri Some show ?thesis by (simp add: query_user.simps [of e st])
      next
        case (Inr p)
        obtain r st' where p: "p = (r, st')" by (cases p)
        from Inr p obtain c where "keeps c (st\<lparr>wi_stdin := inp\<rparr>) st'" by (auto elim: run_line_keeps)
        with less' have "length (wi_stdin st') < length (wi_stdin st)" by (simp add: keeps_def)
        then have "\<exists>q. query_user e st' = Some q" by (rule less)
        with run ri Some Inr p show ?thesis by (simp add: query_user.simps [of e st])
      qed
    qed
  qed
qed

text \<open>C23: The dialog with the user always comes to an end or to a fault, as every round takes input;
  and at the end of the input it quits when no client runs, but while a client runs it hangs in the
  loop that waits for a newline.\<close>

theorem query_user_ends:
  "(\<exists>r. query_user e st = Some r) \<and>
   (wi_stdin st = [] \<and> \<not> wi_exit st \<and> \<not> wi_error st \<longrightarrow>
     query_user e st = Some (if wi_running st \<and> wi_clients st \<noteq> [] then Inl Hang else Inr (st\<lparr>wi_exit := True\<rparr>)))"
proof
  show "\<exists>r. query_user e st = Some r" by (rule query_user_total)
  show "wi_stdin st = [] \<and> \<not> wi_exit st \<and> \<not> wi_error st \<longrightarrow>
     query_user e st = Some (if wi_running st \<and> wi_clients st \<noteq> [] then Inl Hang else Inr (st\<lparr>wi_exit := True\<rparr>))"
    by (auto simp: query_user.simps [of e st] wldbgi_read_input_def cmd_quit_def)
qed

section \<open>The registries\<close>

lemma cmd_break_room:
  assumes "cmd_break al rx msg m st = Inr (st', m')" "brk.reg_room (Suc k) (bs_next st) (bs_list st)"
  shows "brk.reg_room k (bs_next st') (bs_list st')"
proof -
  obtain ln where t: "c_text m = Inr ln" using assms(1) by (auto simp: cmd_break_def rbind_eq_Inr)
  have del: "brk.reg_room k (bs_next st) (delete_breakpoint s (bs_list st))" for s
    using assms(2) by (auto simp: delete_breakpoint_def Let_def intro: brk.room_del brk.room_mono)
  show ?thesis
  proof (cases "strncmp_eq ln ''delete '' 7 \<or> strncmp_eq ln ''d '' 2")
    case True
    with assms(1) t del show ?thesis by (auto simp: cmd_break_def split: if_splits)
  next
    case False
    with assms(1) t obtain b n m1 where c: "create_breakpoint al rx msg (bs_next st) m = Inr (b, n, m1)"
      and st': "st' = st\<lparr>bs_list := (case b of None \<Rightarrow> bs_list st | Some x \<Rightarrow> insert_after_first x (bs_list st)), bs_next := n\<rparr>"
      by (auto simp: cmd_break_def rbind_eq_Inr simp del: split_paired_Ex)
    show ?thesis
      using create_breakpoint_id [OF c] assms(2) brk.room_add brk.room_mono [OF assms(2), of k]
      by (auto simp: st' split: option.splits)
  qed
qed

lemma cmd_create_filter_room:
  assumes "cmd_create_filter ok rx buf so st = Inr st'" "flts.reg_room (Suc k) (fs_next st) (fs_list st)"
  shows "flts.reg_room k (fs_next st') (fs_list st')"
proof -
  obtain pattern where p: "scan_word 128 buf = Inr pattern"
    using assms(1) by (auto simp: cmd_create_filter_def rbind_eq_Inr)
  show ?thesis
  proof (cases "ok \<and> regcomp rx pattern \<noteq> None")
    case True
    then obtain re where "ok" "regcomp rx pattern = Some re" by auto
    with assms(1) p have "st' = st\<lparr>fs_list := insert_after_first
        \<lparr>flt_filter = pattern, flt_regex = re, flt_show_only = so, flt_id = fs_next st\<rparr> (fs_list st), fs_next := fs_next st + 1\<rparr>"
      by (simp add: cmd_create_filter_def create_filter_def)
    then show ?thesis using assms(2) by (simp add: flts.room_add)
  next
    case False
    with assms(1) p have "st' = st" by (auto simp: cmd_create_filter_def create_filter_def split: option.splits)
    then show ?thesis using flts.room_mono [OF assms(2), of k] by simp
  qed
qed

lemma filter_commands_room:
  assumes "flts.reg_room (Suc k) (fs_next st) (fs_list st)"
  shows "cmd_hide ok rx buf st = Inr st' \<Longrightarrow> flts.reg_room k (fs_next st') (fs_list st')"
    and "cmd_showonly ok rx buf st = Inr st' \<Longrightarrow> flts.reg_room k (fs_next st') (fs_list st')"
    and "flts.reg_room k (fs_next (cmd_filter buf st)) (fs_list (cmd_filter buf st))"
proof -
  note room = flts.room_mono [OF assms, of k, simplified]
  show "cmd_hide ok rx buf st = Inr st' \<Longrightarrow> flts.reg_room k (fs_next st') (fs_list st')"
    using assms room cmd_create_filter_room by (auto simp: cmd_hide_def Let_def split: if_splits)
  show "cmd_showonly ok rx buf st = Inr st' \<Longrightarrow> flts.reg_room k (fs_next st') (fs_list st')"
    using assms room cmd_create_filter_room by (auto simp: cmd_showonly_def Let_def split: if_splits)
  show "flts.reg_room k (fs_next (cmd_filter buf st)) (fs_list (cmd_filter buf st))"
    using room by (auto simp: cmd_filter_def remove_filter_def flts.room_del split: option.splits)
qed

lemma add_autocmd_cases:
  assumes "add_autocmd ok rx m st = Inr (st', m')"
  shows "st' = st \<or> (\<exists>p t re. st' = with_autocmd p t re st)"
proof -
  define q where "q \<longleftrightarrow> hd m = CHR 0x22 \<or> hd m = CHR 0x27"
  have ne: "m \<noteq> []" using assms by (auto simp: add_autocmd_def)
  obtain c b where s: "split_buffer (if q then Some (hd m) else None) (hd m) (if q then tl m else m) = Inr (c, b)"
    using assms ne unfolding add_autocmd_def Let_def q_def [symmetric] by (auto simp: rbind_eq_Inr simp del: split_paired_Ex)
  note eq = assms [unfolded add_autocmd_def Let_def q_def [symmetric] if_not_P [OF ne] s]
  show ?thesis
  proof (cases c)
    case None
    with eq show ?thesis by simp
  next
    case (Some rest)
    with eq obtain p t where "c_text b = Inr p" "c_text rest = Inr t" by (auto simp: rbind_eq_Inr)
    with eq Some have "st' = st \<or> (\<exists>re. st' = with_autocmd p t re st)"
      by (auto simp: create_autocmd_def with_autocmd_def split: if_splits option.splits)
    then show ?thesis by blast
  qed
qed

lemma cmd_autocmd_room:
  assumes "cmd_autocmd ok rx m st = Inr (st', m')" "acs.reg_room (Suc k) (as_next st) (as_list st)"
  shows "acs.reg_room k (as_next st') (as_list st')"
proof -
  note room = acs.room_mono [OF assms(2), of k, simplified]
  obtain ln where t: "c_text m = Inr ln" using assms(1) by (auto simp: cmd_autocmd_def rbind_eq_Inr)
  show ?thesis
  proof (cases "strncmp_eq ln ''add '' 4")
    case False
    with assms(1) t room show ?thesis
      by (auto simp: cmd_autocmd_def remove_autocmd_def acs.room_del split: if_splits option.splits)
  next
    case True
    define a where "a = drop (4 + length (takeWhile is_space (drop 4 m))) m"
    from True assms(1) t obtain m1 where add: "add_autocmd ok rx a st = Inr (st', m1)"
      by (auto simp: cmd_autocmd_def rbind_eq_Inr Let_def a_def simp del: split_paired_Ex)
    from add_autocmd_cases [OF this] show ?thesis using room acs.room_add [OF assms(2)] by (auto simp: with_autocmd_def)
  qed
qed

definition registries_room :: "nat \<Rightarrow> ('r, 'p) wldbgi \<Rightarrow> bool" where
  "registries_room k st \<longleftrightarrow>
     brk.reg_room k (bs_next (wi_breakpoints st)) (bs_list (wi_breakpoints st)) \<and>
     flts.reg_room k (fs_next (wi_filters st)) (fs_list (wi_filters st)) \<and>
     acs.reg_room k (as_next (wi_autocmds st)) (as_list (wi_autocmds st))"

lemma registries_room_mono: "registries_room k st \<Longrightarrow> j \<le> k \<Longrightarrow> registries_room j st"
  using brk.room_mono flts.room_mono acs.room_mono by (auto simp: registries_room_def)

lemma registries_room_cong:
  "wi_breakpoints st' = wi_breakpoints st \<Longrightarrow> wi_filters st' = wi_filters st \<Longrightarrow> wi_autocmds st' = wi_autocmds st \<Longrightarrow>
    registries_room k st' \<longleftrightarrow> registries_room k st"
  by (simp add: registries_room_def)

lemma call_command_room:
  assumes "call_command e c m st = Inr (r, m', st')" "registries_room (Suc k) st"
  shows "registries_room k st'"
proof -
  have room: "registries_room k st" by (rule registries_room_mono [OF assms(2)]) simp
  note k = call_command_keeps [OF assms(1), unfolded keeps_def]
  obtain ln where ln: "c_text m = Inr ln" using assms(1) by (auto simp: call_command_def rbind_eq_Inr)
  note eq = assms(1) [unfolded call_command_def ln rbind_Inr]
  consider "c = Cmd_autocmd" | "c = Cmd_break" | "c \<in> {Cmd_filter, Cmd_hide, Cmd_showonly}"
    | "c \<notin> {Cmd_autocmd, Cmd_break, Cmd_filter, Cmd_hide, Cmd_showonly}" by auto
  then show ?thesis
  proof cases
    case 1
    with eq obtain ac m1 where "cmd_autocmd (we_mem_ok e) (we_rx e) m (wi_autocmds st) = Inr (ac, m1)" "wi_autocmds st' = ac"
      by (auto simp: rbind_eq_Inr)
    with 1 k room assms(2) cmd_autocmd_room show ?thesis by (auto simp: registries_room_def)
  next
    case 2
    with eq obtain bs m1 where "cmd_break (we_alloc e) (we_rx e) (wi_msg st) m (wi_breakpoints st) = Inr (bs, m1)"
      "wi_breakpoints st' = bs"
      by (auto simp: rbind_eq_Inr)
    with 2 k room assms(2) cmd_break_room show ?thesis by (auto simp: registries_room_def)
  next
    case 3
    with eq have "cmd_hide (we_mem_ok e) (we_rx e) ln (wi_filters st) = Inr (wi_filters st') \<or>
        cmd_showonly (we_mem_ok e) (we_rx e) ln (wi_filters st) = Inr (wi_filters st') \<or>
        wi_filters st' = cmd_filter ln (wi_filters st)"
      by (auto simp: rbind_eq_Inr)
    with filter_commands_room assms(2) have "flts.reg_room k (fs_next (wi_filters st')) (fs_list (wi_filters st'))"
      by (auto simp: registries_room_def)
    moreover have "c \<noteq> Cmd_autocmd" "c \<noteq> Cmd_break" using 3 by auto
    ultimately show ?thesis using k room by (simp add: registries_room_def)
  next
    case 4
    then have "c \<noteq> Cmd_autocmd" "c \<noteq> Cmd_break" "c \<notin> {Cmd_filter, Cmd_hide, Cmd_showonly}" by auto
    with k room show ?thesis using registries_room_cong by metis
  qed
qed

lemma run_command_room:
  assumes "run_command e m st = Inr (r, m', st')" "registries_room (Suc k) st"
  shows "registries_room k st'"
  using assms(1)
proof (cases rule: run_command_cases)
  case none
  with assms(2) show ?thesis using registries_room_mono by fastforce
next
  case (command c off m1)
  then show ?thesis using assms(2) call_command_room by blast
qed

lemma run_line_room:
  assumes "run_line e m st = Inr (r, st')" "registries_room (Suc k) st"
  shows "registries_room k st'"
proof -
  obtain ln where t: "c_text m = Inr ln" using assms(1) by (auto simp: run_line_def rbind_eq_Inr)
  show ?thesis
  proof (cases "skip_ws ln = []")
    case False
    with assms(1) t obtain q l' where
      "run_command e (drop (length ln - length (skip_ws ln)) m) (wldbgi_add_history (we_mem_ok e) (skip_ws ln) st) = Inr (q, l', st')"
      by (auto simp: run_line_def rbind_eq_Inr Let_def simp del: split_paired_Ex)
    then show ?thesis
      by (rule run_command_room) (use assms(2) in \<open>simp add: registries_room_def wldbgi_add_history_def\<close>)
  next
    case empty: True
    show ?thesis
    proof (cases "wi_last_command st")
      case None
      with assms t empty registries_room_mono show ?thesis by (fastforce simp: run_line_def)
    next
      case (Some l)
      with assms t empty obtain q l' st1 where "run_command e l st = Inr (q, l', st1)"
        "st' = st1\<lparr>wi_last_command := Some l'\<rparr>"
        by (auto simp: run_line_def rbind_eq_Inr simp del: split_paired_Ex)
      with run_command_room [OF _ assms(2)] show ?thesis by (auto simp: registries_room_def)
    qed
  qed
qed

text \<open>The rounds of the dialog.\<close>

lemma query_user_induct [consumes 1, case_names flags fault quit again last_line line]:
  assumes "query_user e st = Some r"
    and "\<And>st. wi_exit st \<or> wi_error st \<Longrightarrow> P st (Inr st)"
    and "\<And>st f. P st (Inl f)"
    and "\<And>st st'. cmd_quit st = Inr (CMD_END_QUERY, st') \<Longrightarrow> P st (Inr st')"
    and "\<And>st st' r. cmd_quit st = Inr (CMD_CONTINUE_QUERY, st') \<Longrightarrow> P st' r \<Longrightarrow> P st r"
    and "\<And>st m inp st'. wldbgi_read_input (we_mem_ok e) (wi_stdin st) = (Some m, inp) \<Longrightarrow>
      run_line e m (st\<lparr>wi_stdin := inp\<rparr>) = Inr (Some CMD_END_QUERY, st') \<Longrightarrow> P st (Inr st')"
    and "\<And>st m inp q st' r. wldbgi_read_input (we_mem_ok e) (wi_stdin st) = (Some m, inp) \<Longrightarrow>
      run_line e m (st\<lparr>wi_stdin := inp\<rparr>) = Inr (q, st') \<Longrightarrow> P st' r \<Longrightarrow> P st r"
  shows "P st r"
proof -
  have "e' = e \<longrightarrow> P st r" if "query_user e' st = Some r" for e' st r
  proof (rule query_user.raw_induct [where P = "\<lambda>e' st r. e' = e \<longrightarrow> P st r", OF _ that], goal_cases)
    case (1 qu e' st r)
    note IH = 1(1) and eq = 1(2)
    show ?case
    proof
      assume e: "e' = e"
      note eq = eq [unfolded e]
      obtain mo inp where ri: "wldbgi_read_input (we_mem_ok e) (wi_stdin st) = (mo, inp)"
        by (cases "wldbgi_read_input (we_mem_ok e) (wi_stdin st)")
      show "P st r"
      proof (cases "wi_exit st \<or> wi_error st")
        case True
        with eq assms(2) show ?thesis by auto
      next
        case run: False
        show ?thesis
        proof (cases mo)
          case None
          show ?thesis
          proof (cases "cmd_quit st")
            case (Inl f)
            with eq run ri None assms(3) show ?thesis by auto
          next
            case (Inr p)
            obtain q st' where p: "p = (q, st')" by (cases p)
            then have q: "q = CMD_END_QUERY \<or> q = CMD_CONTINUE_QUERY"
              using Inr by (auto simp: cmd_quit_def Let_def split: if_splits)
            show ?thesis
            proof (cases "q = CMD_END_QUERY")
              case True
              with eq run ri None Inr p assms(4) show ?thesis by auto
            next
              case False
              with eq run ri None Inr p have "qu e st' = Some r" by simp
              with IH have "P st' r" by blast
              with assms(5) [OF _ this] Inr p q False show ?thesis by blast
            qed
          qed
        next
          case (Some m)
          show ?thesis
          proof (cases "run_line e m (st\<lparr>wi_stdin := inp\<rparr>)")
            case (Inl f)
            with eq run ri Some assms(3) show ?thesis by auto
          next
            case (Inr p)
            obtain q st' where p: "p = (q, st')" by (cases p)
            show ?thesis
            proof (cases "q = Some CMD_END_QUERY")
              case True
              with eq run ri Some Inr p assms(6) show ?thesis by auto
            next
              case False
              with eq run ri Some Inr p have "qu e st' = Some r" by simp
              with IH have "P st' r" by blast
              with assms(7) ri Some Inr p show ?thesis by blast
            qed
          qed
        qed
      qed
    qed
  qed
  with assms(1) show ?thesis by blast
qed

lemma query_user_room:
  assumes "query_user e st = Some (Inr st')" "registries_room (length (wi_stdin st)) st"
  shows "registries_room (length (wi_stdin st')) st'"
proof -
  have quit: "registries_room (length (wi_stdin s')) s'" if q: "cmd_quit s = Inr (q, s')"
    and r: "registries_room (length (wi_stdin s)) s" for q s s'
  proof -
    from cmd_quit_frame [OF q] obtain inp k x where "s' = s\<lparr>wi_stdin := inp, wi_killed := k, wi_exit := x\<rparr>"
      "length inp \<le> length (wi_stdin s)" by blast
    then show ?thesis using registries_room_mono [OF r] by (simp add: registries_room_def)
  qed
  have one_line: "registries_room (length (wi_stdin s')) s'"
    if l: "wldbgi_read_input (we_mem_ok e) (wi_stdin s) = (Some m, inp)" "run_line e m (s\<lparr>wi_stdin := inp\<rparr>) = Inr (q, s')"
    and r: "registries_room (length (wi_stdin s)) s" for m inp q s s'
  proof -
    have "Suc (length inp) \<le> length (wi_stdin s)" using read_input_less [OF l(1)] by simp
    from registries_room_mono [OF r this] have "registries_room (Suc (length inp)) (s\<lparr>wi_stdin := inp\<rparr>)"
      by (simp add: registries_room_def)
    from run_line_room [OF l(2) this] have "registries_room (length inp) s'" .
    moreover obtain c where "keeps c (s\<lparr>wi_stdin := inp\<rparr>) s'" using l(2) by (rule run_line_keeps)
    then have "length (wi_stdin s') \<le> length inp" by (simp add: keeps_def)
    ultimately show ?thesis by (rule registries_room_mono)
  qed
  have "case r of Inl _ \<Rightarrow> True | Inr s' \<Rightarrow> registries_room (length (wi_stdin s)) s \<longrightarrow> registries_room (length (wi_stdin s')) s'"
    if "query_user e s = Some r" for s r
    using that
  proof (induction rule: query_user_induct)
    case (again s s' r)
    then show ?case using quit by (auto split: sum.splits)
  next
    case (line s m inp q s' r)
    then show ?case using one_line by (auto split: sum.splits)
  qed (use quit one_line in \<open>auto\<close>)
  from this [OF assms(1)] assms(2) show ?thesis by simp
qed

text \<open>C21: Whatever the user enters, the ids of the breakpoints, of the filters and of the automatic
  commands stay distinct and below their counters, provided there are as many ids left as there are
  characters of input.\<close>

theorem dialog_keeps_registries:
  assumes "query_user e st = Some (Inr st')" "registries_room (length (wi_stdin st)) st"
  shows "distinct (map bp_id (bs_list (wi_breakpoints st'))) \<and> (\<forall>b \<in> set (bs_list (wi_breakpoints st')). bp_id b < bs_next (wi_breakpoints st')) \<and>
    distinct (map flt_id (fs_list (wi_filters st'))) \<and> (\<forall>f \<in> set (fs_list (wi_filters st')). flt_id f < fs_next (wi_filters st')) \<and>
    distinct (map ac_id (as_list (wi_autocmds st'))) \<and> (\<forall>a \<in> set (as_list (wi_autocmds st')). ac_id a < as_next (wi_autocmds st'))"
  using query_user_room [OF assms]
  by (simp add: registries_room_def brk.reg_room_def flts.reg_room_def acs.reg_room_def brk.reg_wf_def flts.reg_wf_def acs.reg_wf_def)

definition fresh_wldbgi :: "string \<Rightarrow> (string, unit) wldbgi" where
  "fresh_wldbgi inp = \<lparr>wi_server_msg_no = 0, wi_client_msg_no = 0, wi_stop = False, wi_skip_first_query = False,
     wi_last_command = None, wi_breakpoints = \<lparr>bs_list = [], bs_next = 1\<rparr>, wi_filters = \<lparr>fs_list = [], fs_next = 0\<rparr>,
     wi_autocmds = \<lparr>as_list = [], as_next = 0\<rparr>, wi_running = False, wi_error = False, wi_exit = False, wi_clients = [],
     wi_killed = [], wi_passes = [], wi_stdin = inp, wi_msg = example_message, wi_msg_size = 8, wi_connected = True,
     wi_written = [], wi_shown = []\<rparr>"

definition plain_regex :: "string regex_lib" where
  "plain_regex = \<lparr>regcomp = Some, regexec = (\<lambda>re s. if take (length re) s = re then Reg_match else Reg_nomatch)\<rparr>"

definition plain_env :: "(string, unit) wenv" where
  "plain_env = \<lparr>we_rx = plain_regex,
     we_host = \<lparr>h_exists = (\<lambda>_. False), h_loaded = (\<lambda>_. False), h_dlopen = (\<lambda>_. False), h_dlsym = (\<lambda>_. None),
       h_load_once = (\<lambda>_. False), h_eexist = (\<lambda>_. False), h_home = None, h_libdir = [], h_objdir = [], h_list_pass = (),
       h_mem_ok = True, h_init = (\<lambda>_. None)\<rparr>,
     we_alloc = \<lparr>ba_breakpoint = True, ba_description = True, ba_re_data = True, ba_pattern = True\<rparr>, we_mem_ok = True,
     we_edit = \<lparr>ee_getenv = (\<lambda>_. None), ee_store = True, ee_malloc = True, ee_system = (\<lambda>_ _. 0), ee_file = (\<lambda>_ _. None)\<rparr>,
     we_print = (\<lambda>_ _. Inr []), we_info = (\<lambda>_ _. Inr ())\<rparr>"

theorem query_user_ends_witness:
  "query_user plain_env ((fresh_wldbgi [])\<lparr>wi_running := True, wi_clients := [5]\<rparr>) = Some (Inl Hang)"
  using query_user_ends [of plain_env "(fresh_wldbgi [])\<lparr>wi_running := True, wi_clients := [5]\<rparr>"]
  by (simp add: fresh_wldbgi_def)

lemma example_hide:
  "run_line plain_env (''hide wl_'' @ [nul, nul]) (fresh_wldbgi inp) =
   Inr (Some CMD_CONTINUE_QUERY, (fresh_wldbgi inp)\<lparr>wi_last_command := Some (''hide wl_'' @ [nul]),
     wi_filters := \<lparr>fs_list = [\<lparr>flt_filter = ''wl_'', flt_regex = ''wl_'', flt_show_only = False, flt_id = 0\<rparr>], fs_next = 1\<rparr>\<rparr>)"
proof -
  have "find_command ''hide wl_'' = Some Cmd_hide" "next_word ''hide wl_'' = ''wl_''" "scan_word 128 ''wl_'' = Inr ''wl_''"
    by code_simp+
  then show ?thesis
    by (simp add: run_line_def c_text_def nul_def skip_ws_def is_space_def wldbgi_add_history_def run_command_def
        call_command_def cmd_hide_def plain_env_def plain_regex_def cmd_create_filter_def create_filter_def fresh_wldbgi_def)
qed

lemma example_quit:
  assumes "\<not> wi_running st"
  shows "run_line plain_env (''q'' @ [nul, nul]) st = Inr (Some CMD_END_QUERY, st\<lparr>wi_last_command := Some (''q'' @ [nul]), wi_exit := True\<rparr>)"
proof -
  have "find_command ''q'' = Some Cmd_quit" "next_word ''q'' = []" by code_simp+
  then show ?thesis using assms
    by (simp add: run_line_def c_text_def nul_def skip_ws_def is_space_def wldbgi_add_history_def run_command_def
        call_command_def cmd_quit_def plain_env_def)
qed

theorem dialog_keeps_registries_witness:
  "\<exists>st'. query_user plain_env (fresh_wldbgi (''hide wl_'' @ [CHR 0x0A] @ ''q'' @ [CHR 0x0A])) = Some (Inr st') \<and>
     length (fs_list (wi_filters st')) = 1 \<and> distinct (map flt_id (fs_list (wi_filters st')))"
proof -
  let ?in = "''hide wl_'' @ [CHR 0x0A] @ ''q'' @ [CHR 0x0A]"
  let ?st1 = "(fresh_wldbgi (''q'' @ [CHR 0x0A]))\<lparr>wi_last_command := Some (''hide wl_'' @ [nul]),
     wi_filters := \<lparr>fs_list = [\<lparr>flt_filter = ''wl_'', flt_regex = ''wl_'', flt_show_only = False, flt_id = 0\<rparr>], fs_next = 1\<rparr>\<rparr>"
  let ?st2 = "?st1\<lparr>wi_stdin := [], wi_last_command := Some (''q'' @ [nul]), wi_exit := True\<rparr>"
  have r1: "wldbgi_read_input True ?in = (Some (''hide wl_'' @ [nul, nul]), ''q'' @ [CHR 0x0A])"
    and r2: "wldbgi_read_input True (''q'' @ [CHR 0x0A]) = (Some (''q'' @ [nul, nul]), [])"
    by (simp_all add: wldbgi_read_input_def nul_def)
  have m: "we_mem_ok plain_env" by (simp add: plain_env_def)
  have f: "\<not> wi_exit (fresh_wldbgi i)" "\<not> wi_error (fresh_wldbgi i)" "wi_stdin (fresh_wldbgi i) = i"
    "(fresh_wldbgi i)\<lparr>wi_stdin := j\<rparr> = fresh_wldbgi j" "\<not> wi_running (fresh_wldbgi i)" for i j
    by (simp_all add: fresh_wldbgi_def)
  have "run_line plain_env (''q'' @ [nul, nul]) (?st1\<lparr>wi_stdin := []\<rparr>) = Inr (Some CMD_END_QUERY, ?st2)"
    using example_quit [of "?st1\<lparr>wi_stdin := []\<rparr>"] f by simp
  then have q2: "query_user plain_env ?st1 = Some (Inr ?st2)"
    unfolding query_user.simps [of plain_env ?st1] using f m r2 by simp
  have q: "query_user plain_env (fresh_wldbgi ?in) = Some (Inr ?st2)"
    unfolding query_user.simps [of plain_env "fresh_wldbgi ?in"] using f m r1 q2 example_hide by simp
  have "registries_room (length (wi_stdin (fresh_wldbgi ?in))) (fresh_wldbgi ?in)"
    by (simp add: registries_room_def fresh_wldbgi_def brk.reg_room_def flts.reg_room_def acs.reg_room_def
        brk.wf_empty flts.wf_empty acs.wf_empty)
  from dialog_keeps_registries [OF q this] q show ?thesis by (intro exI [of _ ?st2]) simp
qed

section \<open>When the user is asked\<close>

text \<open>The pass over messages that come one after the other.\<close>

fun process_all :: "('r, 'p) wenv \<Rightarrow> ('r, 'p) wldbgi \<Rightarrow> (mctx \<times> nat) list \<Rightarrow> ('r, 'p) wldbgi res option" where
  "process_all e st [] = Some (Inr st)"
| "process_all e st ((m, n) # ms) =
     (case process_interactive e (st\<lparr>wi_msg := m, wi_msg_size := n\<rparr>) of
        None \<Rightarrow> None
      | Some (Inl f) \<Rightarrow> Some (Inl f)
      | Some (Inr st') \<Rightarrow> process_all e st' ms)"

definition msg_hidden :: "'r regex_lib \<Rightarrow> 'r flt list \<Rightarrow> mctx \<Rightarrow> bool" where
  "msg_hidden rx fs m \<longleftrightarrow> (case message_name m of Inr (Some s) \<Rightarrow> hidden rx fs s | _ \<Rightarrow> False)"

lemma filter_match_hidden:
  assumes "message_name m = Inr (Some s)"
  shows "filter_match rx fs m = Inr (msg_hidden rx fs m)"
  by (simp add: filter_match_def filter_loop_hidden [OF assms] msg_hidden_def hidden_def assms split: option.split)

lemma count_message_frame:
  "wi_filters (count_message st) = wi_filters st" "wi_breakpoints (count_message st) = wi_breakpoints st"
  "wi_autocmds (count_message st) = wi_autocmds st" "wi_msg (count_message st) = wi_msg st"
  "wi_stdin (count_message st) = wi_stdin st" "wi_msg_size (count_message st) = wi_msg_size st"
  "wi_stop st \<Longrightarrow> wi_stop (count_message st)"
  by (simp_all add: count_message_def Let_def split: side.split)

lemma process_decides:
  assumes "as_list (wi_autocmds st) = []" "message_name (wi_msg st) = Inr (Some s)"
    and "some_applies (we_rx e) (wi_msg st) (bs_list (wi_breakpoints st)) = Inr brk"
  shows "process_interactive e st =
    (let st1 = (count_message st)\<lparr>wi_stop := wi_stop (count_message st) \<or> brk\<rparr> in
     if msg_hidden (we_rx e) (fs_list (wi_filters st)) (wi_msg st) \<and> \<not> brk then Some (Inr st1) else process_message e st1)"
proof -
  have "(if brk then (count_message st)\<lparr>wi_stop := True\<rparr> else count_message st) =
      (count_message st)\<lparr>wi_stop := wi_stop (count_message st) \<or> brk\<rparr>"
    by (cases brk) simp_all
  then show ?thesis
    using assms filter_match_hidden [OF assms(2), of "we_rx e" "fs_list (wi_filters st)"]
    by (simp add: process_interactive_def count_message_frame first_id_def autocmd_loop.simps Let_def)
qed

definition quiet :: "('r, 'p) wenv \<Rightarrow> ('r, 'p) wldbgi \<Rightarrow> mctx \<Rightarrow> bool" where
  "quiet e st m \<longleftrightarrow> (\<exists>s. message_name m = Inr (Some s)) \<and>
     some_applies (we_rx e) m (bs_list (wi_breakpoints st)) = Inr False"

lemma process_hidden:
  assumes "as_list (wi_autocmds st) = []" "quiet e st m" "msg_hidden (we_rx e) (fs_list (wi_filters st)) m" "wi_stop st"
  shows "\<exists>st'. process_interactive e (st\<lparr>wi_msg := m, wi_msg_size := n\<rparr>) = Some (Inr st') \<and> wi_stop st' \<and>
    wi_stdin st' = wi_stdin st \<and> wi_filters st' = wi_filters st \<and> wi_breakpoints st' = wi_breakpoints st \<and>
    wi_autocmds st' = wi_autocmds st"
proof -
  let ?st = "st\<lparr>wi_msg := m, wi_msg_size := n\<rparr>"
  obtain s where "message_name (wi_msg ?st) = Inr (Some s)" using assms(2) by (auto simp: quiet_def)
  from process_decides [OF _ this, of e False] assms show ?thesis
    by (simp add: quiet_def Let_def count_message_frame)
qed

text \<open>C26: After \<^verbatim>\<open>next\<close>, hidden messages that no breakpoint stops on pass without a question, and the
  user is asked at the first message that is shown, with the input as it was.\<close>

theorem next_stops_at_first_shown:
  assumes "as_list (wi_autocmds st) = []" "wi_stop st" "we_print e m n = Inr line"
    and "\<forall>(h, k) \<in> set hs. quiet e st h \<and> msg_hidden (we_rx e) (fs_list (wi_filters st)) h"
    and "quiet e st m" "\<not> msg_hidden (we_rx e) (fs_list (wi_filters st)) m"
  shows "\<exists>st'. process_all e st (hs @ [(m, n)]) = query_user e st' \<and> wi_msg st' = m \<and> wi_stdin st' = wi_stdin st \<and>
    \<not> wi_stop st' \<and> wi_filters st' = wi_filters st \<and> wi_breakpoints st' = wi_breakpoints st"
  using assms(1,2,4-6)
proof (induction hs arbitrary: st)
  case Nil
  let ?st = "st\<lparr>wi_msg := m, wi_msg_size := n\<rparr>"
  let ?st1 = "(count_message ?st)\<lparr>wi_shown := wi_shown (count_message ?st) @ line, wi_stop := False\<rparr>"
  obtain s where s: "message_name (wi_msg ?st) = Inr (Some s)" using Nil.prems(4) by (auto simp: quiet_def)
  have "process_interactive e ?st = query_user e ?st1"
    using process_decides [OF _ s, of e False] Nil.prems assms(3)
    by (simp add: quiet_def Let_def count_message_frame process_message_def)
  then have "process_all e st ([] @ [(m, n)]) = query_user e ?st1"
    by (cases "query_user e ?st1") (auto split: sum.split)
  then show ?case by (intro exI [of _ ?st1]) (simp add: count_message_frame)
next
  case (Cons p hs)
  obtain h k where p: "p = (h, k)" by (cases p)
  have h: "quiet e st h" "msg_hidden (we_rx e) (fs_list (wi_filters st)) h" using Cons.prems(3) p by auto
  obtain st1 where st1: "process_interactive e (st\<lparr>wi_msg := h, wi_msg_size := k\<rparr>) = Some (Inr st1)" "wi_stop st1"
    "wi_stdin st1 = wi_stdin st" "wi_filters st1 = wi_filters st" "wi_breakpoints st1 = wi_breakpoints st"
    "wi_autocmds st1 = wi_autocmds st"
    using process_hidden [OF Cons.prems(1) h Cons.prems(2), of k] by blast
  have "\<exists>st'. process_all e st1 (hs @ [(m, n)]) = query_user e st' \<and> wi_msg st' = m \<and> wi_stdin st' = wi_stdin st1 \<and>
    \<not> wi_stop st' \<and> wi_filters st' = wi_filters st1 \<and> wi_breakpoints st' = wi_breakpoints st1"
    using Cons.prems st1 by (intro Cons.IH) (simp_all add: quiet_def)
  then show ?case using st1 p by simp
qed

theorem next_stops_at_first_shown_witness:
  "\<exists>st'. process_all plain_env ((fresh_wldbgi ''q'')\<lparr>wi_stop := True,
       wi_filters := \<lparr>fs_list = [\<lparr>flt_filter = ''unknown@7'', flt_regex = ''unknown@7'', flt_show_only = False, flt_id = 0\<rparr>],
         fs_next = 1\<rparr>\<rparr>)
     ([(example_message\<lparr>mc_data := [7, 0, 0, 0, 1, 0, 8, 0]\<rparr>, 8)] @ [(example_message, 8)]) = query_user plain_env st' \<and>
   wi_msg st' = example_message \<and> wi_stdin st' = ''q'' \<and> \<not> wi_stop st'"
proof -
  let ?f = "\<lparr>flt_filter = ''unknown@7'', flt_regex = ''unknown@7'', flt_show_only = False, flt_id = 0\<rparr>"
  let ?h = "example_message\<lparr>mc_data := [7, 0, 0, 0, 1, 0, 8, 0]\<rparr>"
  have "wldbg_parse_message [7, 0, 0, 0, 1, 0, 8, 0] = Inr (True, \<lparr>pm_id = 7, pm_opcode = 1, pm_size = 8, pm_data = 8\<rparr>)"
    by (simp add: wldbg_parse_message_def load32_def Let_def)
  moreover have "show_int 7 = ''7''" "show_int 1 = ''1''" by code_simp+
  ultimately have h: "message_name ?h = Inr (Some ''unknown@7.1'')"
    by (simp add: example_message_def message_name_def wldbg_get_message_name_def is_valid_interface_def
        wldbg_message_get_object_def snprintf_def)
  let ?st = "(fresh_wldbgi ''q'')\<lparr>wi_stop := True, wi_filters := \<lparr>fs_list = [?f], fs_next = 1\<rparr>\<rparr>"
  have q: "quiet plain_env ?st ?h" "quiet plain_env ?st example_message"
    using h example_message_name by (simp_all add: quiet_def fresh_wldbgi_def)
  have "msg_hidden (we_rx plain_env) [?f] ?h" "\<not> msg_hidden (we_rx plain_env) [?f] example_message"
    by (simp_all add: msg_hidden_def h example_message_name hidden_def plain_env_def plain_regex_def)
  with q have "\<exists>st'. process_all plain_env ?st ([(?h, 8)] @ [(example_message, 8)]) = query_user plain_env st' \<and>
      wi_msg st' = example_message \<and> wi_stdin st' = wi_stdin ?st \<and> \<not> wi_stop st' \<and> wi_filters st' = wi_filters ?st \<and>
      wi_breakpoints st' = wi_breakpoints ?st"
    by (intro next_stops_at_first_shown) (simp_all add: fresh_wldbgi_def plain_env_def)
  then show ?thesis by (auto simp: fresh_wldbgi_def)
qed

section \<open>Automatic commands\<close>

lemma run_autocmd_remove:
  assumes "n < 2 ^ 32"
  shows "run_command e (''autocmd remove '' @ show_nat n @ [nul]) st = Inr (CMD_CONTINUE_QUERY, ''autocmd remove '' @ show_nat n @ [nul],
    st\<lparr>wi_autocmds := (wi_autocmds st)\<lparr>as_list := remove_first (\<lambda>a. ac_id a = word_of_nat n) (as_list (wi_autocmds st))\<rparr>\<rparr>)"
proof -
  let ?arg = "''remove '' @ show_nat n"
  have dig: "\<forall>c \<in> set (show_nat n). c \<noteq> nul \<and> \<not> is_space c"
    using show_nat_digits [of n] nul_classes(2) space_not_digit by metis
  have nul: "nul \<notin> set ?arg" "nul \<notin> set (''autocmd '' @ ?arg)" using dig by (auto simp: nul_def)
  have ct: "c_text (?arg @ [nul]) = Inr ?arg" "c_text ((''autocmd '' @ ?arg) @ [nul]) = Inr (''autocmd '' @ ?arg)"
    by (rule c_text_nul [OF nul(1)], rule c_text_nul [OF nul(2)])
  have "\<forall>x \<in> set ''autocmd''. is_alpha x" by (simp add: is_alpha_def)
  note find_command_word [OF this, of "'' '' @ ?arg"] next_word_args [OF this, of "'' ''" ?arg]
  then have "find_command (''autocmd '' @ ?arg) = Some Cmd_autocmd" "next_word (''autocmd '' @ ?arg) = ?arg"
    by (simp_all add: is_space_def commands_def)
  moreover have "skip_ws (show_nat n) = show_nat n"
    using dig by (cases "show_nat n") (auto simp: skip_ws_def)
  ultimately show ?thesis
    using ct assms scan_uint_show_nat
    by (simp add: run_command_def call_command_def cmd_autocmd_def remove_autocmd_def strncmp_eq_def)
qed

text \<open>An automatic command that removes itself is freed while the list is walked: when it matches,
  its link is read from freed memory.\<close>

theorem autocmd_removing_itself_uses_freed:
  assumes "autocmds_wf (wi_autocmds st)" "as_list (wi_autocmds st) = a # acs"
    and "ac_cmd a = ''autocmd remove '' @ show_nat (unat (ac_id a)) @ [nul]"
    and "message_name (wi_msg st) = Inr (Some s)" "regexec (we_rx e) (ac_regex a) s = Reg_match"
    and "some_applies (we_rx e) (wi_msg st) (bs_list (wi_breakpoints st)) = Inr brk"
  shows "process_interactive e st = Some (Inl UseAfterFree)"
proof -
  let ?rm = "remove_first (\<lambda>b. ac_id b = ac_id a) (as_list (wi_autocmds st))"
  have "unat (ac_id a) < 2 ^ 32" using unat_u32_less [of "ac_id a"] by simp
  note run = run_autocmd_remove [OF this, of e]
  have gone: "ac_id a \<notin> ac_id ` set ?rm"
    using acs.deleted [of "as_next (wi_autocmds st)" "as_list (wi_autocmds st)" "ac_id a"] assms(1) by (simp add: autocmds_wf_def)
  have "run_autocmd e a st' = Inl UseAfterFree" if "wi_autocmds st' = wi_autocmds st" for st'
  proof -
    have "autocmds_from (ac_id a) (map (\<lambda>b. if ac_id b = ac_id a then b\<lparr>ac_cmd := m\<rparr> else b) ?rm) = []" for m
      using gone by (auto simp: autocmds_from_def dropWhile_eq_Nil_conv image_iff)
    then show ?thesis
      unfolding run_autocmd_def assms(3) run using that by (simp add: set_autocmd_memory_def)
  qed
  moreover have "message_match_autocmd (we_rx e) (wi_msg st) a = Inr True"
    using assms(4,5) by (simp add: message_match_autocmd_def)
  ultimately have "autocmd_loop e (Some (ac_id a)) st' = Some (Inl UseAfterFree)"
    if "wi_autocmds st' = wi_autocmds st" "wi_msg st' = wi_msg st" for st'
    using that assms(2) by (simp add: autocmd_loop.simps [of e "Some (ac_id a)"] autocmds_from_def)
  then show ?thesis
    using assms filter_match_hidden [OF assms(4), of "we_rx e"]
    by (simp add: process_interactive_def count_message_frame first_id_def Let_def)
qed

theorem autocmd_removing_itself_uses_freed_witness:
  "process_interactive plain_env ((fresh_wldbgi [])\<lparr>wi_autocmds := \<lparr>as_list =
      [\<lparr>ac_cmd = ''autocmd remove 0'' @ [nul], ac_filter = ''unknown'', ac_regex = ''unknown'', ac_id = 0\<rparr>], as_next = 1\<rparr>\<rparr>) =
   Some (Inl UseAfterFree)"
proof -
  let ?a = "\<lparr>ac_cmd = ''autocmd remove 0'' @ [nul], ac_filter = ''unknown'', ac_regex = ''unknown'', ac_id = 0\<rparr>"
  let ?st = "(fresh_wldbgi [])\<lparr>wi_autocmds := \<lparr>as_list = [?a], as_next = 1\<rparr>\<rparr>"
  have "show_nat 0 = ''0''" by code_simp
  then have "ac_cmd ?a = ''autocmd remove '' @ show_nat (unat (ac_id ?a)) @ [nul]" by simp
  moreover have "autocmds_wf (wi_autocmds ?st)" by (simp add: autocmds_wf_def acs.reg_wf_def)
  ultimately show ?thesis
    by (intro autocmd_removing_itself_uses_freed [of _ ?a "[]" "''unknown@3.1''" _ False])
       (simp_all add: fresh_wldbgi_def plain_env_def plain_regex_def example_message_name)
qed

end
