(* ===== verification/Objinfo.thy ===== *)
theory Objinfo
  imports Message_Args
begin

text \<open>
  What the objinfo pass gathers about objects: \<^verbatim>\<open>src/objinfo/\<close> and \<^verbatim>\<open>src/objinfo-pass.c\<close>.

  An information is reached only through the map, under the id that it carries, so it is a value in
  the map; its \<open>void *\<close> is a constructor of \<open>info\<close>, and a handler that takes it for another struct
  is the fault \<open>TypeConfusion\<close>.
\<close>

section \<open>Data\<close>

record wl_buffer_info =
  bi_width :: u32
  bi_height :: u32
  bi_offset :: u32
  bi_stride :: u32
  bi_format :: u32
  bi_released :: bool

text \<open>\<open>struct wldbg_wl_surface_info\<close> without its pointer to the committed state, and with it.\<close>

record surface_state =
  ss_wl_buffer_id :: u32
  ss_attached_x :: u32
  ss_attached_y :: u32
  ss_buffer_scale :: u32
  ss_last_frame_id :: u32

record wl_surface_info =
  si_state :: surface_state
  si_commited :: "surface_state option"

record xdg_configure =
  xc_width :: u32
  xc_height :: u32
  xc_serial :: u32
  xc_acked :: bool

record xdg_surface_info =
  xs_configures :: "xdg_configure list"
  xs_configures_num :: u64
  xs_title :: "string option"
  xs_app_id :: "string option"
  xs_wl_surface_id :: u32
  xs_parent_id :: u32

text \<open>The name of a seat is not initialised when the information is created.\<close>

datatype seat_name = Name_uninit | Name_null | Name string

record wl_seat_info =
  st_capabilities :: u32
  st_name :: seat_name

datatype info =
    Buffer_info wl_buffer_info
  | Surface_info wl_surface_info
  | Xdg_info xdg_surface_info
  | Seat_info wl_seat_info

record object_info =
  oi_interface :: "iptr option"
  oi_id :: u32
  oi_version :: "u32 option"
  oi_info :: info

record objects_info =
  ob_client :: "object_info ids_map"
  ob_server :: "object_info ids_map"

record obj_env =
  oe_malloc :: bool
  oe_strdup :: bool
  oe_array :: "u64 \<Rightarrow> bool"
  oe_junk :: "object_info option"
  oe_seat_interface :: iptr

definition zero_buffer :: wl_buffer_info where
  "zero_buffer = \<lparr>bi_width = 0, bi_height = 0, bi_offset = 0, bi_stride = 0, bi_format = 0, bi_released = False\<rparr>"

definition zero_state :: surface_state where
  "zero_state = \<lparr>ss_wl_buffer_id = 0, ss_attached_x = 0, ss_attached_y = 0, ss_buffer_scale = 0, ss_last_frame_id = 0\<rparr>"

definition zero_configure :: xdg_configure where
  "zero_configure = \<lparr>xc_width = 0, xc_height = 0, xc_serial = 0, xc_acked = False\<rparr>"

definition zero_xdg :: xdg_surface_info where
  "zero_xdg = \<lparr>xs_configures = replicate 10 zero_configure, xs_configures_num = 0, xs_title = None, xs_app_id = None,
     xs_wl_surface_id = 0, xs_parent_id = 0\<rparr>"

section \<open>The map\<close>

definition create_objects_info :: objects_info where
  "create_objects_info = \<lparr>ob_client = wldbg_ids_map_init, ob_server = wldbg_ids_map_init\<rparr>"

definition objects_info_put :: "obj_env \<Rightarrow> objects_info \<Rightarrow> u32 \<Rightarrow> object_info option \<Rightarrow> objects_info res" where
  "objects_info_put e ob i v =
     (if WL_SERVER_ID_START \<le> i
      then rbind (wldbg_ids_map_insert (oe_array e) (oe_junk e) (ob_server ob) (i - WL_SERVER_ID_START) v) (\<lambda>m.
             Inr (ob\<lparr>ob_server := m\<rparr>))
      else rbind (wldbg_ids_map_insert (oe_array e) (oe_junk e) (ob_client ob) i v) (\<lambda>m. Inr (ob\<lparr>ob_client := m\<rparr>)))"

definition objects_info_get :: "objects_info \<Rightarrow> u32 \<Rightarrow> object_info option" where
  "objects_info_get ob i =
     (if WL_SERVER_ID_START \<le> i then wldbg_ids_map_get (ob_server ob) (i - WL_SERVER_ID_START)
      else wldbg_ids_map_get (ob_client ob) i)"

text \<open>An assignment through the pointer that \<open>objects_info_get\<close> returned.\<close>

definition cell_set :: "u32 \<Rightarrow> object_info \<Rightarrow> object_info ids_map \<Rightarrow> object_info ids_map" where
  "cell_set i v m = m\<lparr>map_data := (map_data m)\<lparr>arr_data := (arr_data (map_data m))[unat i := Some v]\<rparr>\<rparr>"

definition objects_info_set :: "objects_info \<Rightarrow> u32 \<Rightarrow> object_info \<Rightarrow> objects_info" where
  "objects_info_set ob i v =
     (if WL_SERVER_ID_START \<le> i then ob\<lparr>ob_server := cell_set (i - WL_SERVER_ID_START) v (ob_server ob)\<rparr>
      else ob\<lparr>ob_client := cell_set i v (ob_client ob)\<rparr>)"

text \<open>The callbacks \<open>destroy\<close>: \<open>free\<close>, \<open>destroy_wl_surface_info\<close>, \<open>destroy_xdg_surface_info\<close> and
  \<open>free_seat\<close>.\<close>

definition destroy_info :: "info \<Rightarrow> unit res" where
  "destroy_info i =
     (case i of
        Seat_info s \<Rightarrow> (if st_name s = Name_uninit then Inl UninitRead else Inr ())
      | _ \<Rightarrow> Inr ())"

definition wldbg_object_info_free :: "obj_env \<Rightarrow> objects_info \<Rightarrow> object_info \<Rightarrow> objects_info res" where
  "wldbg_object_info_free e ob i =
     rbind (objects_info_put e ob (oi_id i) None) (\<lambda>ob.
     rbind (destroy_info (oi_info i)) (\<lambda>_. Inr ob))"

fun destroy_infos :: "object_info option list \<Rightarrow> unit res" where
  "destroy_infos [] = Inr ()"
| "destroy_infos (None # is) = destroy_infos is"
| "destroy_infos (Some i # is) = rbind (destroy_info (oi_info i)) (\<lambda>_. destroy_infos is)"

definition map_cells :: "object_info ids_map \<Rightarrow> object_info option list" where
  "map_cells m = map (\<lambda>i. wldbg_ids_map_get m (word_of_nat i)) [0..<unat (map_count m)]"

definition destroy_objects_info :: "objects_info \<Rightarrow> unit res" where
  "destroy_objects_info ob = destroy_infos (map_cells (ob_client ob) @ map_cells (ob_server ob))"

section \<open>Arguments\<close>

definition next_data :: "bytes \<Rightarrow> resolved_message \<Rightarrow> (nat option \<times> resolved_message) res" where
  "next_data m rm =
     rbind (wldbg_resolved_message_next_argument m rm) (\<lambda>(a, rm').
       case a of None \<Rightarrow> Inl NullDeref | Some a \<Rightarrow> Inr (arg_data a, rm'))"

text \<open>\<open>*arg->data\<close>.\<close>

definition next_u32 :: "bytes \<Rightarrow> resolved_message \<Rightarrow> (u32 \<times> resolved_message) res" where
  "next_u32 m rm =
     rbind (next_data m rm) (\<lambda>(d, rm').
       case d of None \<Rightarrow> Inl NullDeref | Some p \<Rightarrow> rbind (load32 m p) (\<lambda>w. Inr (w, rm')))"

definition message_is :: "resolved_message \<Rightarrow> string \<Rightarrow> bool" where
  "message_is rm name \<longleftrightarrow> (case rm_message rm of None \<Rightarrow> False | Some wm \<Rightarrow> wlm_name wm = name)"

definition first_type :: "resolved_message \<Rightarrow> iptr option res" where
  "first_type rm =
     (case rm_message rm of
        None \<Rightarrow> Inl NullDeref
      | Some wm \<Rightarrow> (case wlm_types wm of None \<Rightarrow> Inl NullDeref | Some ts \<Rightarrow> nth_res ts 0))"

section \<open>Buffers\<close>

definition handle_shm_pool_message ::
    "obj_env \<Rightarrow> bytes \<Rightarrow> objects_info \<Rightarrow> resolved_message \<Rightarrow> side \<Rightarrow> objects_info res" where
  "handle_shm_pool_message e m ob rm from =
     (if from = CLIENT \<and> message_is rm ''create_buffer'' then
        if \<not> oe_malloc e then Inr ob
        else
          rbind (first_type rm) (\<lambda>t.
          rbind (next_u32 m rm) (\<lambda>(i, rm).
          rbind (next_u32 m rm) (\<lambda>(offset, rm).
          rbind (next_u32 m rm) (\<lambda>(width, rm).
          rbind (next_u32 m rm) (\<lambda>(height, rm).
          rbind (next_u32 m rm) (\<lambda>(stride, rm).
          rbind (next_u32 m rm) (\<lambda>(format, rm).
            objects_info_put e ob i
              (Some \<lparr>oi_interface = t, oi_id = i, oi_version = None,
                 oi_info = Buffer_info (zero_buffer\<lparr>bi_offset := offset, bi_width := width, bi_height := height,
                   bi_stride := stride, bi_format := format\<rparr>)\<rparr>))))))))
      else Inr ob)"

definition as_buffer :: "info \<Rightarrow> wl_buffer_info res" where
  "as_buffer i = (case i of Buffer_info b \<Rightarrow> Inr b | _ \<Rightarrow> Inl TypeConfusion)"

definition set_released :: "bool \<Rightarrow> objects_info \<Rightarrow> object_info \<Rightarrow> objects_info res" where
  "set_released r ob i =
     rbind (as_buffer (oi_info i)) (\<lambda>b.
       Inr (objects_info_set ob (oi_id i) (i\<lparr>oi_info := Buffer_info (b\<lparr>bi_released := r\<rparr>)\<rparr>)))"

definition handle_wl_buffer_message ::
    "obj_env \<Rightarrow> objects_info \<Rightarrow> resolved_message \<Rightarrow> side \<Rightarrow> objects_info res" where
  "handle_wl_buffer_message e ob rm from =
     (case objects_info_get ob (pm_id (rm_base rm)) of
        None \<Rightarrow> Inr ob
      | Some i \<Rightarrow>
          if from = SERVER then (if message_is rm ''release'' then set_released True ob i else Inr ob)
          else if message_is rm ''destroy'' then wldbg_object_info_free e ob i
          else Inr ob)"

section \<open>Surfaces\<close>

definition handle_wl_compositor_message ::
    "obj_env \<Rightarrow> bytes \<Rightarrow> objects_info \<Rightarrow> resolved_message \<Rightarrow> side \<Rightarrow> objects_info res" where
  "handle_wl_compositor_message e m ob rm from =
     (if from = CLIENT \<and> message_is rm ''create_surface'' then
        if \<not> oe_malloc e then Inr ob
        else
          rbind (first_type rm) (\<lambda>t.
          rbind (next_u32 m rm) (\<lambda>(i, rm).
            objects_info_put e ob i
              (Some \<lparr>oi_interface = t, oi_id = i, oi_version = None,
                 oi_info = Surface_info \<lparr>si_state = zero_state, si_commited = None\<rparr>\<rparr>)))
      else Inr ob)"

definition make_wl_buffer_unreleased :: "objects_info \<Rightarrow> u32 \<Rightarrow> objects_info res" where
  "make_wl_buffer_unreleased ob i =
     (case objects_info_get ob i of None \<Rightarrow> Inr ob | Some b \<Rightarrow> set_released False ob b)"

definition as_surface :: "info \<Rightarrow> wl_surface_info res" where
  "as_surface i = (case i of Surface_info s \<Rightarrow> Inr s | _ \<Rightarrow> Inl TypeConfusion)"

definition set_surface :: "objects_info \<Rightarrow> object_info \<Rightarrow> wl_surface_info \<Rightarrow> objects_info" where
  "set_surface ob i s = objects_info_set ob (oi_id i) (i\<lparr>oi_info := Surface_info s\<rparr>)"

text \<open>\<open>commit\<close>: the state is copied to the committed one and reset.\<close>

definition commit_surface :: "bool \<Rightarrow> wl_surface_info \<Rightarrow> wl_surface_info" where
  "commit_surface mem_ok s =
     (if si_commited s = None \<and> \<not> mem_ok then s else \<lparr>si_state = zero_state, si_commited = Some (si_state s)\<rparr>)"

definition handle_wl_surface_message ::
    "obj_env \<Rightarrow> bytes \<Rightarrow> objects_info \<Rightarrow> resolved_message \<Rightarrow> side \<Rightarrow> objects_info res" where
  "handle_wl_surface_message e m ob rm from =
     (case objects_info_get ob (pm_id (rm_base rm)) of
        None \<Rightarrow> Inr ob
      | Some i \<Rightarrow>
          if from = SERVER then Inr ob
          else if message_is rm ''frame'' then
            rbind (next_u32 m rm) (\<lambda>(cb, rm).
            rbind (as_surface (oi_info i)) (\<lambda>s.
              Inr (set_surface ob i (s\<lparr>si_state := (si_state s)\<lparr>ss_last_frame_id := cb\<rparr>\<rparr>))))
          else if message_is rm ''attach'' then
            rbind (next_u32 m rm) (\<lambda>(b, rm).
            rbind (as_surface (oi_info i)) (\<lambda>s.
            rbind (next_u32 m rm) (\<lambda>(x, rm).
            rbind (next_u32 m rm) (\<lambda>(y, rm).
              make_wl_buffer_unreleased
                (set_surface ob i (s\<lparr>si_state := (si_state s)\<lparr>ss_wl_buffer_id := b, ss_attached_x := x, ss_attached_y := y\<rparr>\<rparr>)) b))))
          else if message_is rm ''commit'' then
            rbind (as_surface (oi_info i)) (\<lambda>s. Inr (set_surface ob i (commit_surface (oe_malloc e) s)))
          else if message_is rm ''destroy'' then wldbg_object_info_free e ob i
          else Inr ob)"

section \<open>Shell surfaces\<close>

definition handle_xdg_shell_message ::
    "obj_env \<Rightarrow> bytes \<Rightarrow> objects_info \<Rightarrow> resolved_message \<Rightarrow> side \<Rightarrow> objects_info res" where
  "handle_xdg_shell_message e m ob rm from =
     (if from = CLIENT \<and> message_is rm ''get_xdg_surface'' then
        if \<not> oe_malloc e then Inr ob
        else
          rbind (first_type rm) (\<lambda>t.
          rbind (next_u32 m rm) (\<lambda>(i, rm).
          rbind (next_u32 m rm) (\<lambda>(surf, rm).
            objects_info_put e ob i
              (Some \<lparr>oi_interface = t, oi_id = i, oi_version = None,
                 oi_info = Xdg_info (zero_xdg\<lparr>xs_wl_surface_id := surf\<rparr>)\<rparr>))))
      else Inr ob)"

definition as_xdg :: "info \<Rightarrow> xdg_surface_info res" where
  "as_xdg i = (case i of Xdg_info x \<Rightarrow> Inr x | _ \<Rightarrow> Inl TypeConfusion)"

text \<open>The ring of the last ten configures.\<close>

definition add_configure :: "u32 \<Rightarrow> u32 \<Rightarrow> u32 \<Rightarrow> xdg_surface_info \<Rightarrow> xdg_surface_info" where
  "add_configure w h serial x =
     x\<lparr>xs_configures := (xs_configures x)[unat (xs_configures_num x mod 10) :=
          \<lparr>xc_width = w, xc_height = h, xc_serial = serial, xc_acked = False\<rparr>],
       xs_configures_num := xs_configures_num x + 1\<rparr>"

fun ack_first :: "u32 \<Rightarrow> xdg_configure list \<Rightarrow> xdg_configure list" where
  "ack_first serial [] = []"
| "ack_first serial (c # cs) =
     (if xc_serial c = serial then c\<lparr>xc_acked := True\<rparr> # cs else c # ack_first serial cs)"

definition set_xdg :: "objects_info \<Rightarrow> object_info \<Rightarrow> xdg_surface_info \<Rightarrow> objects_info" where
  "set_xdg ob i x = objects_info_set ob (oi_id i) (i\<lparr>oi_info := Xdg_info x\<rparr>)"

definition handle_xdg_surface_message ::
    "obj_env \<Rightarrow> bytes \<Rightarrow> objects_info \<Rightarrow> resolved_message \<Rightarrow> side \<Rightarrow> objects_info res" where
  "handle_xdg_surface_message e m ob rm from =
     (case objects_info_get ob (pm_id (rm_base rm)) of
        None \<Rightarrow> Inr ob
      | Some i \<Rightarrow>
          if from = SERVER then
            if message_is rm ''configure'' then
              rbind (as_xdg (oi_info i)) (\<lambda>x.
              rbind (next_u32 m rm) (\<lambda>(w, rm).
              rbind (next_u32 m rm) (\<lambda>(h, rm).
              rbind (wldbg_resolved_message_next_argument m rm) (\<lambda>(_, rm).
              rbind (next_u32 m rm) (\<lambda>(serial, rm).
                Inr (set_xdg ob i (add_configure w h serial x)))))))
            else Inr ob
          else if message_is rm ''set_title'' then
            rbind (wldbg_resolved_message_next_argument m rm) (\<lambda>(a, rm).
              case (case a of None \<Rightarrow> None | Some a \<Rightarrow> arg_data a) of
                None \<Rightarrow> Inr ob
              | Some p \<Rightarrow>
                  rbind (as_xdg (oi_info i)) (\<lambda>x.
                  rbind (c_str (drop p m)) (\<lambda>s.
                    Inr (set_xdg ob i (x\<lparr>xs_title := (if oe_strdup e then Some s else None)\<rparr>)))))
          else if message_is rm ''ack_configure'' then
            rbind (next_u32 m rm) (\<lambda>(serial, rm).
            rbind (as_xdg (oi_info i)) (\<lambda>x.
              Inr (set_xdg ob i (x\<lparr>xs_configures := ack_first serial (xs_configures x)\<rparr>))))
          else if message_is rm ''destroy'' then wldbg_object_info_free e ob i
          else Inr ob)"

section \<open>Seats\<close>

text \<open>The result is \<open>None\<close> when memory runs out.\<close>

definition create_wl_seat_info :: "obj_env \<Rightarrow> bytes \<Rightarrow> resolved_message \<Rightarrow> object_info option res" where
  "create_wl_seat_info e m rm =
     (if \<not> oe_malloc e then Inr None
      else
        rbind (next_u32 m rm) (\<lambda>(version, rm).
        rbind (next_u32 m rm) (\<lambda>(i, rm).
          Inr (Some \<lparr>oi_interface = Some (oe_seat_interface e), oi_id = i, oi_version = Some version,
            oi_info = Seat_info \<lparr>st_capabilities = 0, st_name = Name_uninit\<rparr>\<rparr>))))"

definition handle_bind :: "obj_env \<Rightarrow> bytes \<Rightarrow> objects_info \<Rightarrow> resolved_message \<Rightarrow> string \<Rightarrow> objects_info res" where
  "handle_bind e m ob rm name =
     (if name = ''wl_seat'' then
        rbind (create_wl_seat_info e m rm) (\<lambda>i.
          case i of
            None \<Rightarrow> Inr ob
          | Some i \<Rightarrow> rbind (rassert (0 < oi_id i)) (\<lambda>_. objects_info_put e ob (oi_id i) (Some i)))
      else Inr ob)"

definition handle_wl_registry_message ::
    "obj_env \<Rightarrow> bytes \<Rightarrow> objects_info \<Rightarrow> resolved_message \<Rightarrow> side \<Rightarrow> objects_info res" where
  "handle_wl_registry_message e m ob rm from =
     (if from = CLIENT \<and> message_is rm ''bind'' then
        rbind (wldbg_resolved_message_next_argument m rm) (\<lambda>(_, rm).
        rbind (next_data m rm) (\<lambda>(d, rm).
          case d of
            None \<Rightarrow> Inl NullDeref
          | Some p \<Rightarrow> rbind (c_str (drop p m)) (\<lambda>name. handle_bind e m ob rm name)))
      else Inr ob)"

definition as_seat :: "info \<Rightarrow> wl_seat_info res" where
  "as_seat i = (case i of Seat_info s \<Rightarrow> Inr s | _ \<Rightarrow> Inl TypeConfusion)"

definition handle_wl_seat_message ::
    "obj_env \<Rightarrow> bytes \<Rightarrow> objects_info \<Rightarrow> resolved_message \<Rightarrow> side \<Rightarrow> objects_info res" where
  "handle_wl_seat_message e m ob rm from =
     (case objects_info_get ob (pm_id (rm_base rm)) of
        None \<Rightarrow> Inr ob
      | Some i \<Rightarrow>
          if from = SERVER then
            if message_is rm ''name'' then
              rbind (next_data m rm) (\<lambda>(d, rm).
                case d of
                  None \<Rightarrow> Inr ob
                | Some p \<Rightarrow>
                    rbind (as_seat (oi_info i)) (\<lambda>s.
                    rbind (c_str (drop p m)) (\<lambda>n.
                      Inr (objects_info_set ob (oi_id i)
                        (i\<lparr>oi_info := Seat_info (s\<lparr>st_name := (if oe_strdup e then Name n else Name_null)\<rparr>)\<rparr>)))))
            else if message_is rm ''capabilities'' then
              rbind (next_u32 m rm) (\<lambda>(c, rm).
              rbind (as_seat (oi_info i)) (\<lambda>s.
                Inr (objects_info_set ob (oi_id i) (i\<lparr>oi_info := Seat_info (s\<lparr>st_capabilities := c\<rparr>)\<rparr>))))
            else Inr ob
          else Inr ob)"

section \<open>The pass\<close>

text \<open>The pass always answers \<open>PASS_NEXT\<close>; a message that does not resolve is let through.\<close>

definition gather_info ::
    "obj_env \<Rightarrow> imem \<Rightarrow> resolved_objects option \<Rightarrow> side \<Rightarrow> bytes \<Rightarrow> objects_info \<Rightarrow> objects_info res" where
  "gather_info e im ro from m ob =
     rbind (wldbg_resolve_message im ro from m) (\<lambda>(ok, rm).
       if \<not> ok then Inr ob
       else
         (case rm_interface rm of
            None \<Rightarrow> Inl NullDeref
          | Some p \<Rightarrow>
              let name = intf_name (intf_at im p) in
              if name = ''wl_surface'' then handle_wl_surface_message e m ob rm from
              else if name = ''xdg_surface'' then handle_xdg_surface_message e m ob rm from
              else if name = ''wl_buffer'' then handle_wl_buffer_message e ob rm from
              else if name = ''wl_compositor'' then handle_wl_compositor_message e m ob rm from
              else if name = ''wl_shm_pool'' then handle_shm_pool_message e m ob rm from
              else if name = ''xdg_shell'' then handle_xdg_shell_message e m ob rm from
              else if name = ''wl_registry'' then handle_wl_registry_message e m ob rm from
              else if name = ''wl_seat'' then handle_wl_seat_message e m ob rm from
              else Inr ob))"

text \<open>What the other parts ask for, and how the pass is added: behind the first pass, once.\<close>

definition wldbg_message_get_object_info :: "objects_info option \<Rightarrow> u32 \<Rightarrow> object_info option" where
  "wldbg_message_get_object_info oi i = (case oi of None \<Rightarrow> None | Some ob \<Rightarrow> objects_info_get ob i)"

definition wldbg_add_objinfo_pass :: "bool \<Rightarrow> 'p \<Rightarrow> bool \<Rightarrow> 'p list \<Rightarrow> int \<times> bool \<times> 'p list" where
  "wldbg_add_objinfo_pass mem_ok pass gathering passes =
     (if gathering then (0, gathering, passes)
      else if \<not> mem_ok then (- 1, gathering, passes)
      else (0, True, (case passes of [] \<Rightarrow> [pass] | p # ps \<Rightarrow> p # pass # ps)))"

end
