(* ===== verification/Objinfo_Facts.thy ===== *)
theory Objinfo_Facts
  imports Objinfo
begin

text \<open>
  What the gathered information satisfies: the map stays well formed and every information stands
  under its own id; a struct is taken for another one only where the pass trusts the peer; the double
  buffering of surfaces; the ring of configures; and the clean-up.
\<close>

section \<open>The map\<close>

definition info_ok :: "object_info \<Rightarrow> bool" where
  "info_ok i \<longleftrightarrow> (case oi_info i of Xdg_info x \<Rightarrow> length (xs_configures x) = 10 | _ \<Rightarrow> True)"

definition objects_wf :: "objects_info \<Rightarrow> bool" where
  "objects_wf ob \<longleftrightarrow> ids_map_wf (ob_client ob) \<and> ids_map_wf (ob_server ob) \<and>
     (\<forall>k i. objects_info_get ob k = Some i \<longrightarrow> oi_id i = k \<and> info_ok i)"

lemma objects_wf_create: "objects_wf create_objects_info"
  by (simp add: objects_wf_def create_objects_info_def objects_info_get_def ids_map_wf_init ids.get_init)

lemma infos_put_as_split:
  "objects_info_put e ob i v =
     rbind (if WL_SERVER_ID_START \<le> i
            then rbind (wldbg_ids_map_insert (oe_array e) (oe_junk e) (ob_server ob) (i - WL_SERVER_ID_START) v)
                   (\<lambda>s'. Inr (ob_client ob, s'))
            else rbind (wldbg_ids_map_insert (oe_array e) (oe_junk e) (ob_client ob) i v)
                   (\<lambda>c'. Inr (c', ob_server ob)))
       (\<lambda>(c, s). Inr (ob\<lparr>ob_client := c, ob_server := s\<rparr>))"
  by (simp add: objects_info_put_def rbind_assoc)

lemma objects_info_put_get:
  assumes "ids_map_wf (ob_client ob)" "ids_map_wf (ob_server ob)" "objects_info_put e ob i v = Inr ob'"
  shows "ids_map_wf (ob_client ob') \<and> ids_map_wf (ob_server ob') \<and> objects_info_get ob' = (objects_info_get ob)(i := v)"
proof -
  obtain c s where put: "(if WL_SERVER_ID_START \<le> i
            then rbind (wldbg_ids_map_insert (oe_array e) (oe_junk e) (ob_server ob) (i - WL_SERVER_ID_START) v)
                   (\<lambda>s'. Inr (ob_client ob, s'))
            else rbind (wldbg_ids_map_insert (oe_array e) (oe_junk e) (ob_client ob) i v)
                   (\<lambda>c'. Inr (c', ob_server ob))) = Inr (c, s)" and ob': "ob' = ob\<lparr>ob_client := c, ob_server := s\<rparr>"
    using assms(3) by (auto simp: infos_put_as_split rbind_eq_Inr simp del: split_paired_Ex)
  have "ids_map_wf c \<and> ids_map_wf s \<and> objects_info_get ob' j = (if j = i then v else objects_info_get ob j)" for j
    using ids.split_put [OF assms(1,2) put, of j] by (cases "j = i") (auto simp: ob' objects_info_get_def)
  then show ?thesis by (auto simp: ob' fun_eq_iff)
qed

lemma objects_info_put_fault:
  assumes "objects_wf ob" "objects_info_put e ob i v = Inl f"
  shows "f = Aborted"
  using assms ids.split_put_fault [of "ob_client ob" "ob_server ob"]
  by (auto simp: infos_put_as_split objects_wf_def rbind_eq_Inl split: prod.splits)

lemma objects_wf_put:
  assumes "objects_wf ob" "objects_info_put e ob i v = Inr ob'" "\<And>x. v = Some x \<Longrightarrow> oi_id x = i \<and> info_ok x"
  shows "objects_wf ob'"
  using assms objects_info_put_get [of ob e i v ob'] by (auto simp: objects_wf_def split: if_splits)

lemma cell_set_insert:
  assumes "ids_map_wf m" "wldbg_ids_map_get m i = Some x"
  shows "ids_map_wf (cell_set i v m) \<and> wldbg_ids_map_get (cell_set i v m) = (wldbg_ids_map_get m)(i := Some v)"
proof -
  have i: "i < map_count m" using assms(2) by (simp add: wldbg_ids_map_get_def split: if_splits)
  then have "i \<noteq> - 1" by (metis not_less word_order.extremum)
  moreover have "wldbg_ids_map_insert (\<lambda>_. True) None m i (Some v) = Inr (cell_set i v m)"
    using wldbg_ids_map_insert_old [OF assms(1) i] by (simp add: cell_set_def)
  ultimately show ?thesis using ids.ins_inv [OF assms(1)] ids.get_ins [OF assms(1)] by blast
qed

lemma objects_info_set_get:
  assumes "ids_map_wf (ob_client ob)" "ids_map_wf (ob_server ob)" "objects_info_get ob i = Some x"
  shows "ids_map_wf (ob_client (objects_info_set ob i v)) \<and> ids_map_wf (ob_server (objects_info_set ob i v)) \<and>
    objects_info_get (objects_info_set ob i v) = (objects_info_get ob)(i := Some v)"
  using assms cell_set_insert [of "ob_server ob" "i - WL_SERVER_ID_START" x v] cell_set_insert [of "ob_client ob" i x v]
  by (auto simp: objects_info_set_def objects_info_get_def fun_eq_iff split: if_splits)

lemma objects_wf_set:
  assumes "objects_wf ob" "objects_info_get ob k = Some x" "oi_id v = oi_id x" "info_ok v"
  shows "objects_wf (objects_info_set ob (oi_id x) v)"
proof -
  have "oi_id x = k" using assms(1,2) by (simp add: objects_wf_def)
  with assms show ?thesis using objects_info_set_get [of ob k x v] by (auto simp: objects_wf_def)
qed

section \<open>The invariant\<close>

lemma objects_wf_free:
  assumes "objects_wf ob" "wldbg_object_info_free e ob i = Inr ob'"
  shows "objects_wf ob'"
  using assms objects_wf_put by (fastforce simp: wldbg_object_info_free_def rbind_eq_Inr)

lemma set_released_wf:
  assumes "objects_wf ob" "objects_info_get ob k = Some x" "set_released r ob x = Inr ob'"
  shows "objects_wf ob'"
  using assms objects_wf_set [OF assms(1,2)] by (auto simp: set_released_def rbind_eq_Inr info_ok_def)

lemma make_unreleased_wf: "objects_wf ob \<Longrightarrow> make_wl_buffer_unreleased ob k = Inr ob' \<Longrightarrow> objects_wf ob'"
  using set_released_wf by (auto simp: make_wl_buffer_unreleased_def split: option.splits)

lemma set_surface_wf:
  assumes "objects_wf ob" "objects_info_get ob k = Some x"
  shows "objects_wf (set_surface ob x s)"
  using objects_wf_set [OF assms] by (simp add: set_surface_def info_ok_def)

lemma length_ack_first [simp]: "length (ack_first serial cs) = length cs"
  by (induction cs) simp_all

lemma set_xdg_wf:
  assumes "objects_wf ob" "objects_info_get ob k = Some x" "length (xs_configures s) = 10"
  shows "objects_wf (set_xdg ob x s)"
  using objects_wf_set [OF assms(1,2)] assms(3) by (simp add: set_xdg_def info_ok_def)

lemma as_xdg_length:
  assumes "objects_wf ob" "objects_info_get ob k = Some x" "as_xdg (oi_info x) = Inr s"
  shows "length (xs_configures s) = 10"
  using assms by (auto simp: objects_wf_def info_ok_def as_xdg_def split: info.splits)

lemma buffer_message_wf: "objects_wf ob \<Longrightarrow> handle_wl_buffer_message e ob rm sd = Inr ob' \<Longrightarrow> objects_wf ob'"
  by (auto simp: handle_wl_buffer_message_def dest: set_released_wf objects_wf_free split: option.splits if_splits)

lemma compositor_message_wf:
  assumes "objects_wf ob" "handle_wl_compositor_message e m ob rm sd = Inr ob'"
  shows "objects_wf ob'"
proof (cases "sd = CLIENT \<and> message_is rm ''create_surface'' \<and> oe_malloc e")
  case True
  with assms(2) obtain t i where "objects_info_put e ob i (Some \<lparr>oi_interface = t, oi_id = i, oi_version = None,
      oi_info = Surface_info \<lparr>si_state = zero_state, si_commited = None\<rparr>\<rparr>) = Inr ob'"
    by (auto simp: handle_wl_compositor_message_def rbind_eq_Inr)
  then show ?thesis by (rule objects_wf_put [OF assms(1)]) (auto simp: info_ok_def)
qed (use assms in \<open>auto simp: handle_wl_compositor_message_def split: if_splits\<close>)

lemma shm_pool_message_wf:
  assumes "objects_wf ob" "handle_shm_pool_message e m ob rm sd = Inr ob'"
  shows "objects_wf ob'"
proof (cases "sd = CLIENT \<and> message_is rm ''create_buffer'' \<and> oe_malloc e")
  case True
  with assms(2) obtain t i b where "objects_info_put e ob i (Some \<lparr>oi_interface = t, oi_id = i, oi_version = None,
      oi_info = Buffer_info b\<rparr>) = Inr ob'"
    by (auto simp: handle_shm_pool_message_def rbind_eq_Inr)
  then show ?thesis by (rule objects_wf_put [OF assms(1)]) (auto simp: info_ok_def)
qed (use assms in \<open>auto simp: handle_shm_pool_message_def split: if_splits\<close>)

lemma xdg_shell_message_wf:
  assumes "objects_wf ob" "handle_xdg_shell_message e m ob rm sd = Inr ob'"
  shows "objects_wf ob'"
proof (cases "sd = CLIENT \<and> message_is rm ''get_xdg_surface'' \<and> oe_malloc e")
  case True
  with assms(2) obtain t i s where "objects_info_put e ob i (Some \<lparr>oi_interface = t, oi_id = i, oi_version = None,
      oi_info = Xdg_info (zero_xdg\<lparr>xs_wl_surface_id := s\<rparr>)\<rparr>) = Inr ob'"
    by (auto simp: handle_xdg_shell_message_def rbind_eq_Inr)
  then show ?thesis by (rule objects_wf_put [OF assms(1)]) (auto simp: info_ok_def zero_xdg_def)
qed (use assms in \<open>auto simp: handle_xdg_shell_message_def split: if_splits\<close>)

lemma handle_bind_wf:
  assumes "objects_wf ob" "handle_bind e m ob rm name = Inr ob'"
  shows "objects_wf ob'"
proof (cases "name = ''wl_seat'' \<and> oe_malloc e")
  case True
  with assms(2) obtain v i where "objects_info_put e ob i (Some \<lparr>oi_interface = Some (oe_seat_interface e), oi_id = i,
      oi_version = Some v, oi_info = Seat_info \<lparr>st_capabilities = 0, st_name = Name_uninit\<rparr>\<rparr>) = Inr ob'"
    by (auto simp: handle_bind_def create_wl_seat_info_def rbind_eq_Inr simp del: split_paired_Ex)
  then show ?thesis by (rule objects_wf_put [OF assms(1)]) (auto simp: info_ok_def)
qed (use assms in \<open>auto simp: handle_bind_def create_wl_seat_info_def split: if_splits\<close>)

lemma registry_message_wf:
  "objects_wf ob \<Longrightarrow> handle_wl_registry_message e m ob rm sd = Inr ob' \<Longrightarrow> objects_wf ob'"
  by (auto simp: handle_wl_registry_message_def rbind_eq_Inr simp del: split_paired_Ex
      split: if_splits option.splits) (metis handle_bind_wf)

lemma seat_message_wf:
  assumes "objects_wf ob" "handle_wl_seat_message e m ob rm sd = Inr ob'"
  shows "objects_wf ob'"
proof (cases "objects_info_get ob (pm_id (rm_base rm))")
  case None
  with assms show ?thesis by (simp add: handle_wl_seat_message_def)
next
  case (Some x)
  have "ob' = ob \<or> (\<exists>s. ob' = objects_info_set ob (oi_id x) (x\<lparr>oi_info := Seat_info s\<rparr>))"
    using assms(2) Some by (auto simp: handle_wl_seat_message_def rbind_eq_Inr simp del: split_paired_Ex
        split: if_splits option.splits)
  then show ?thesis using assms(1) objects_wf_set [OF assms(1) Some] by (auto simp: info_ok_def)
qed

lemma surface_message_wf:
  assumes "objects_wf ob" "handle_wl_surface_message e m ob rm sd = Inr ob'"
  shows "objects_wf ob'"
proof (cases "objects_info_get ob (pm_id (rm_base rm))")
  case None
  with assms show ?thesis by (simp add: handle_wl_surface_message_def)
next
  case (Some x)
  have "ob' = ob \<or> (\<exists>s. ob' = set_surface ob x s) \<or> (\<exists>s b. make_wl_buffer_unreleased (set_surface ob x s) b = Inr ob') \<or>
      wldbg_object_info_free e ob x = Inr ob'"
    using assms(2) Some by (auto simp: handle_wl_surface_message_def rbind_eq_Inr simp del: split_paired_Ex split: if_splits) blast
  then show ?thesis
    using assms(1) set_surface_wf [OF assms(1) Some] make_unreleased_wf objects_wf_free [OF assms(1)] by blast
qed

lemma xdg_surface_message_wf:
  assumes "objects_wf ob" "handle_xdg_surface_message e m ob rm sd = Inr ob'"
  shows "objects_wf ob'"
proof (cases "objects_info_get ob (pm_id (rm_base rm))")
  case None
  with assms show ?thesis by (simp add: handle_xdg_surface_message_def)
next
  case (Some x)
  have set: "objects_wf (set_xdg ob x s')" if "as_xdg (oi_info x) = Inr s" "length (xs_configures s') = length (xs_configures s)" for s s'
    using that set_xdg_wf [OF assms(1) Some] as_xdg_length [OF assms(1) Some] by metis
  show ?thesis
    using assms Some set objects_wf_free [OF assms(1)]
    by (auto simp: handle_xdg_surface_message_def add_configure_def rbind_eq_Inr simp del: split_paired_Ex
        split: if_splits option.splits)
qed

lemmas handlers_wf = buffer_message_wf compositor_message_wf shm_pool_message_wf xdg_shell_message_wf registry_message_wf
  seat_message_wf surface_message_wf xdg_surface_message_wf

lemma gather_info_wf:
  assumes "objects_wf ob" "gather_info e im ro sd m ob = Inr ob'"
  shows "objects_wf ob'"
  using assms
  by (auto simp: gather_info_def rbind_eq_Inr Let_def simp del: split_paired_Ex split: if_splits option.splits
      dest: handlers_wf)

section \<open>Struct types\<close>

text \<open>Computations that never take one struct for another.\<close>

definition typesafe :: "'a res \<Rightarrow> bool" where
  "typesafe r \<longleftrightarrow> r \<noteq> Inl TypeConfusion"

named_theorems typesafes "operations that are type safe"

lemma typesafe_Inr [typesafes]: "typesafe (Inr a)"
  by (simp add: typesafe_def)

lemma typesafe_Inl [simp]: "typesafe (Inl f) \<longleftrightarrow> f \<noteq> TypeConfusion"
  by (simp add: typesafe_def)

lemma typesafe_bind [typesafes]: "typesafe r \<Longrightarrow> (\<And>a. r = Inr a \<Longrightarrow> typesafe (f a)) \<Longrightarrow> typesafe (rbind r f)"
  by (cases r) (auto simp: typesafe_def)

lemma typesafe_base [typesafes]: "typesafe (load32 m p)" "typesafe (nth_res xs i)" "typesafe (rassert b)"
  by (simp_all add: typesafe_def load32_def nth_res_def rassert_def)

lemma typesafe_c_str [typesafes]: "typesafe (c_str bs)"
  by (induction bs rule: c_str.induct) (auto intro!: typesafes)

lemma typesafe_next_argument [typesafes]: "typesafe (wldbg_resolved_message_next_argument m rm)"
  by (auto simp: wldbg_resolved_message_next_argument_def initialize_iterator_def advance_def get_data_ptr_def Let_def
      split: option.splits list.splits prod.splits intro!: typesafes)

lemma typesafe_resolve [typesafes]: "typesafe (wldbg_resolve_message im ro sd m)"
  by (auto simp: wldbg_resolve_message_def wldbg_parse_message_def Let_def split: prod.splits intro!: typesafes)

lemma typesafe_next_data [typesafes]: "typesafe (next_data m rm)"
  by (auto simp: next_data_def split: option.splits prod.splits intro!: typesafes)

lemma typesafe_next_u32 [typesafes]: "typesafe (next_u32 m rm)"
  by (auto simp: next_u32_def split: option.splits prod.splits intro!: typesafes)

lemma typesafe_first_type [typesafes]: "typesafe (first_type rm)"
  by (auto simp: first_type_def split: option.splits intro!: typesafes)

lemma typesafe_put: "objects_wf ob \<Longrightarrow> typesafe (objects_info_put e ob i v)"
  using objects_info_put_fault [of ob e i v] by (auto simp: typesafe_def)

lemma typesafe_free: "objects_wf ob \<Longrightarrow> typesafe (wldbg_object_info_free e ob i)"
  by (auto simp: wldbg_object_info_free_def destroy_info_def intro!: typesafes typesafe_put split: info.splits)

lemma typesafe_creation:
  assumes "objects_wf ob"
  shows "typesafe (handle_wl_compositor_message e m ob rm sd)" "typesafe (handle_shm_pool_message e m ob rm sd)"
    "typesafe (handle_xdg_shell_message e m ob rm sd)" "typesafe (handle_wl_registry_message e m ob rm sd)"
  using assms typesafe_put
  by (auto simp: handle_wl_compositor_message_def handle_shm_pool_message_def handle_xdg_shell_message_def
      handle_wl_registry_message_def handle_bind_def create_wl_seat_info_def split: option.splits prod.splits intro!: typesafes)

definition kind_ok :: "string \<Rightarrow> info \<Rightarrow> bool" where
  "kind_ok name i \<longleftrightarrow>
     (name = ''wl_surface'' \<longrightarrow> (\<exists>s. i = Surface_info s)) \<and> (name = ''xdg_surface'' \<longrightarrow> (\<exists>x. i = Xdg_info x)) \<and>
     (name = ''wl_buffer'' \<longrightarrow> (\<exists>b. i = Buffer_info b)) \<and> (name = ''wl_seat'' \<longrightarrow> (\<exists>s. i = Seat_info s))"

definition infos_match :: "imem \<Rightarrow> resolved_objects option \<Rightarrow> objects_info \<Rightarrow> bool" where
  "infos_match im ro ob \<longleftrightarrow>
     (\<forall>k p i. wldbg_message_get_object ro k = Some p \<longrightarrow> objects_info_get ob k = Some i \<longrightarrow>
        kind_ok (intf_name (intf_at im p)) (oi_info i))"

lemma resolve_known_object:
  assumes "wldbg_resolve_message im ro sd m = Inr (True, rm)"
  shows "\<exists>p. wldbg_message_get_object ro (pm_id (rm_base rm)) = Some p \<and> rm_interface rm = Some p"
  using assms by (auto simp: wldbg_resolve_message_def rbind_eq_Inr Let_def zero_resolved_def is_valid_interface_def
      split: option.splits if_splits)

definition info_kind :: "objects_info \<Rightarrow> u32 \<Rightarrow> (info \<Rightarrow> bool) \<Rightarrow> bool" where
  "info_kind ob k K \<longleftrightarrow> (\<forall>i. objects_info_get ob k = Some i \<longrightarrow> K (oi_info i))"

definition is_buffer :: "info \<Rightarrow> bool" where
  "is_buffer i \<longleftrightarrow> (\<exists>b. i = Buffer_info b)"

lemma typesafe_as [simp]:
  "typesafe (as_buffer i) \<longleftrightarrow> (\<exists>b. i = Buffer_info b)" "typesafe (as_surface i) \<longleftrightarrow> (\<exists>s. i = Surface_info s)"
  "typesafe (as_xdg i) \<longleftrightarrow> (\<exists>x. i = Xdg_info x)" "typesafe (as_seat i) \<longleftrightarrow> (\<exists>s. i = Seat_info s)"
  by (cases i; simp add: as_buffer_def as_surface_def as_xdg_def as_seat_def typesafe_Inr)+

lemma typesafe_set_released: "typesafe (set_released r ob i) \<longleftrightarrow> is_buffer (oi_info i)"
  by (cases "oi_info i") (auto simp: set_released_def is_buffer_def as_buffer_def typesafe_Inr)

lemma typesafe_buffer:
  assumes "objects_wf ob" "info_kind ob (pm_id (rm_base rm)) is_buffer"
  shows "typesafe (handle_wl_buffer_message e ob rm sd)"
  using assms typesafe_free
  by (auto simp: handle_wl_buffer_message_def info_kind_def typesafe_set_released intro: typesafe_Inr split: option.splits)

lemma typesafe_seat:
  assumes "info_kind ob (pm_id (rm_base rm)) (\<lambda>i. \<exists>s. i = Seat_info s)"
  shows "typesafe (handle_wl_seat_message e m ob rm sd)"
  using assms
  by (auto simp: handle_wl_seat_message_def info_kind_def split: option.splits intro!: typesafes)

lemma typesafe_xdg:
  assumes "objects_wf ob" "info_kind ob (pm_id (rm_base rm)) (\<lambda>i. \<exists>x. i = Xdg_info x)"
  shows "typesafe (handle_xdg_surface_message e m ob rm sd)"
  using assms typesafe_free
  by (auto simp: handle_xdg_surface_message_def info_kind_def split: option.splits intro!: typesafes)

text \<open>The surface handler follows the id of a buffer that the client names.\<close>

definition attach_trusts :: "bytes \<Rightarrow> objects_info \<Rightarrow> resolved_message \<Rightarrow> side \<Rightarrow> bool" where
  "attach_trusts m ob rm sd \<longleftrightarrow>
     sd = CLIENT \<and> message_is rm ''attach'' \<and>
     (\<exists>b rm'. next_u32 m rm = Inr (b, rm') \<and> \<not> info_kind ob b is_buffer)"

lemma unreleased_confusion:
  assumes "objects_wf ob" "objects_info_get ob k = Some x" "oi_info x = Surface_info s0" "info_kind ob b is_buffer"
  shows "typesafe (make_wl_buffer_unreleased (set_surface ob x s) b)"
proof -
  have x: "oi_id x = k" using assms(1,2) by (simp add: objects_wf_def)
  have "b \<noteq> k" using assms(2-4) by (auto simp: info_kind_def is_buffer_def)
  moreover have "objects_info_get (set_surface ob x s) = (objects_info_get ob)(k := Some (x\<lparr>oi_info := Surface_info s\<rparr>))"
    using objects_info_set_get [of ob k x] assms(1,2) by (simp add: set_surface_def x objects_wf_def)
  ultimately show ?thesis
    using assms(4) by (auto simp: make_wl_buffer_unreleased_def typesafe_set_released info_kind_def intro: typesafe_Inr split: option.splits)
qed

lemma typesafe_surface:
  assumes "objects_wf ob" "info_kind ob (pm_id (rm_base rm)) (\<lambda>i. \<exists>s. i = Surface_info s)" "\<not> attach_trusts m ob rm sd"
  shows "typesafe (handle_wl_surface_message e m ob rm sd)"
proof (cases "objects_info_get ob (pm_id (rm_base rm))")
  case None
  then show ?thesis by (simp add: handle_wl_surface_message_def typesafe_Inr)
next
  case (Some x)
  then obtain s0 where s0: "oi_info x = Surface_info s0" using assms(2) by (auto simp: info_kind_def)
  have b: "typesafe (make_wl_buffer_unreleased (set_surface ob x s) b)"
    if "next_u32 m rm = Inr (b, rm')" "sd = CLIENT" "message_is rm ''attach''" for s b rm'
    using that assms(3) unreleased_confusion [OF assms(1) Some s0] by (auto simp: attach_trusts_def)
  have sd: "sd = SERVER \<or> sd = CLIENT" by (cases sd) auto
  then show ?thesis
    using s0 Some b typesafe_free [OF assms(1)]
    by (auto simp: handle_wl_surface_message_def split: prod.splits intro!: typesafes)
qed

section \<open>Reading a message that was encoded\<close>

text \<open>A message of a known object: its table entry \<open>wm\<close>, the name of its interface.\<close>

definition known :: "imem \<Rightarrow> resolved_objects \<Rightarrow> side \<Rightarrow> u32 \<Rightarrow> u32 \<Rightarrow> string \<Rightarrow> string \<Rightarrow> string \<Rightarrow> bool" where
  "known im ro sd oid opcode iface name sg \<longleftrightarrow>
     (\<exists>p wm. wldbg_message_get_object (Some ro) oid = Some p \<and> is_valid_interface im (Some p) \<and>
        intf_name (intf_at im p) = iface \<and> opcode < 2 ^ 16 \<and>
        opcode < word_of_int (side_count sd (intf_at im p)) \<and>
        side_messages sd (intf_at im p) ! unat opcode = wm \<and> wlm_name wm = name \<and>
        wlm_signature wm = Some sg \<and> nul \<notin> set sg)"

lemma known_message:
  assumes "imem_wf im" "known im ro sd oid opcode iface name sg"
    and "8 + length (wire_body as) < 2 ^ 16" "list_all2 wire_fits (sig_args sg False) as"
  shows "\<exists>rm args p. wldbg_resolve_message im (Some ro) sd (message_bytes oid opcode as @ post) = Inr (True, rm) \<and>
    pm_id (rm_base rm) = oid \<and> rm_interface rm = Some p \<and> intf_name (intf_at im p) = iface \<and>
    (\<forall>n. message_is rm n \<longleftrightarrow> n = name) \<and> reads (message_bytes oid opcode as @ post) rm args \<and>
    map arg_type args = map fst (sig_args sg False) \<and>
    map (read_arg (message_bytes oid opcode as @ post)) args = map Inr as"
proof -
  obtain p wm where k: "wldbg_message_get_object (Some ro) oid = Some p" "is_valid_interface im (Some p)"
    "intf_name (intf_at im p) = iface" "opcode < 2 ^ 16" "opcode < word_of_int (side_count sd (intf_at im p))"
    "wlm_signature (side_messages sd (intf_at im p) ! unat opcode) = Some sg" "nul \<notin> set sg"
    "wlm_name (side_messages sd (intf_at im p) ! unat opcode) = name"
    using assms(2) by (auto simp: known_def)
  obtain rm args rm' where r: "wldbg_resolve_message im (Some ro) sd (message_bytes oid opcode as @ post) = Inr (True, rm)"
    "pm_id (rm_base rm) = oid" "wldbg_resolved_message_reset_iterator rm = rm" "rm_interface rm = Some p"
    "rm_message rm = Some (side_messages sd (intf_at im p) ! unat opcode)"
    "all_arguments (Suc (length sg)) (message_bytes oid opcode as @ post)
       (wldbg_resolved_message_reset_iterator rm) = Some (Inr (args, rm'))"
    "map (\<lambda>a. (arg_type a, arg_nullable a)) args = sig_args sg False"
    "map (read_arg (message_bytes oid opcode as @ post)) args = map Inr as"
    using resolve_and_drain [OF assms(3) k(4,1,2) assms(1) k(5,6,7) assms(4), of post]
    by (elim exE conjE) (rule that)
  have "map arg_type args = map fst (sig_args sg False)" by (simp flip: r(7))
  moreover have "message_is rm n \<longleftrightarrow> n = name" for n using r(5) k(8) by (auto simp: message_is_def)
  ultimately show ?thesis using r(1,2,4,8) k(3) all_arguments_reads [OF r(6) [unfolded r(3)]] by (intro exI conjI allI)
qed

lemma next_u32_reads:
  assumes "reads m rm (a # as)" "read_arg m a = Inr (WWord w)"
  shows "\<exists>rm'. next_u32 m rm = Inr (w, rm') \<and> reads m rm' as"
proof -
  obtain rm' where rm': "wldbg_resolved_message_next_argument m rm = Inr (Some a, rm')" "reads m rm' as"
    using assms(1) by auto
  moreover obtain d where "arg_data a = Some d" "load32 m d = Inr w"
    using assms(2) by (auto simp: read_arg_def rbind_eq_Inr split: option.splits if_splits)
  ultimately show ?thesis by (simp add: next_u32_def next_data_def)
qed

lemma next_u32s:
  assumes "reads m rm args" "map (read_arg m) args = Inr (WWord w) # rest"
  obtains rm' args' where "next_u32 m rm = Inr (w, rm')" "reads m rm' args'" "map (read_arg m) args' = rest"
  using assms next_u32_reads [of m rm "hd args" "tl args" w] by (cases args) auto

section \<open>Surfaces\<close>

text \<open>Requests to a surface, and what they mean: a commit publishes what was attached last and the last
  callback since the commit before, and nothing of it stays pending.\<close>

datatype surface_request = Frame u32 | Attach u32 u32 u32 | Commit

fun request_bytes :: "u32 \<Rightarrow> surface_request \<Rightarrow> bytes" where
  "request_bytes oid (Frame cb) = message_bytes oid 3 [WWord cb]"
| "request_bytes oid (Attach b x y) = message_bytes oid 1 [WWord b, WWord x, WWord y]"
| "request_bytes oid Commit = message_bytes oid 6 []"

fun request_state :: "surface_request \<Rightarrow> surface_state \<Rightarrow> surface_state" where
  "request_state (Frame cb) s = s\<lparr>ss_last_frame_id := cb\<rparr>"
| "request_state (Attach b x y) s = s\<lparr>ss_wl_buffer_id := b, ss_attached_x := x, ss_attached_y := y\<rparr>"
| "request_state Commit s = s"

definition pending :: "surface_request list \<Rightarrow> surface_state" where
  "pending rs = fold request_state (rev (takeWhile (\<lambda>r. r \<noteq> Commit) (rev rs))) zero_state"

definition published :: "surface_request list \<Rightarrow> surface_state option" where
  "published rs = (case dropWhile (\<lambda>r. r \<noteq> Commit) (rev rs) of [] \<Rightarrow> None | _ # before \<Rightarrow> Some (pending (rev before)))"

definition unrelease :: "object_info \<Rightarrow> object_info" where
  "unrelease i = (case oi_info i of Buffer_info b \<Rightarrow> i\<lparr>oi_info := Buffer_info (b\<lparr>bi_released := False\<rparr>)\<rparr> | _ \<Rightarrow> i)"

definition surface_view :: "u32 \<Rightarrow> surface_request list \<Rightarrow> (u32 \<Rightarrow> object_info option) \<Rightarrow> u32 \<Rightarrow> object_info option" where
  "surface_view oid rs g k =
     (if k = oid then map_option (\<lambda>x. x\<lparr>oi_info := Surface_info \<lparr>si_state = pending rs, si_commited = published rs\<rparr>\<rparr>) (g oid)
      else if \<exists>x y. Attach k x y \<in> set rs then map_option unrelease (g k)
      else g k)"

fun gather_requests :: "obj_env \<Rightarrow> imem \<Rightarrow> resolved_objects \<Rightarrow> u32 \<Rightarrow> surface_request list \<Rightarrow> objects_info \<Rightarrow> objects_info res" where
  "gather_requests e im ro oid [] ob = Inr ob"
| "gather_requests e im ro oid (r # rs) ob =
     rbind (gather_info e im (Some ro) CLIENT (request_bytes oid r) ob) (gather_requests e im ro oid rs)"

lemma gather_requests_snoc:
  "gather_requests e im ro oid (rs @ [r]) ob =
     rbind (gather_requests e im ro oid rs ob) (gather_info e im (Some ro) CLIENT (request_bytes oid r))"
proof (induction rs arbitrary: ob)
  case Nil
  show ?case by (cases "gather_info e im (Some ro) CLIENT (request_bytes oid r) ob") simp_all
next
  case (Cons a rs)
  then show ?case by (cases "gather_info e im (Some ro) CLIENT (request_bytes oid a) ob") simp_all
qed

lemma pending_snoc [simp]:
  "pending [] = zero_state" "pending (rs @ [r]) = (if r = Commit then zero_state else request_state r (pending rs))"
  by (simp_all add: pending_def)

lemma published_snoc [simp]:
  "published [] = None" "published (rs @ [r]) = (if r = Commit then Some (pending rs) else published rs)"
  by (simp_all add: published_def)

definition knows_surface :: "imem \<Rightarrow> resolved_objects \<Rightarrow> u32 \<Rightarrow> bool" where
  "knows_surface im ro oid \<longleftrightarrow>
     known im ro CLIENT oid 3 ''wl_surface'' ''frame'' ''n'' \<and> known im ro CLIENT oid 1 ''wl_surface'' ''attach'' ''?oii'' \<and>
     known im ro CLIENT oid 6 ''wl_surface'' ''commit'' ''''"

lemma known_message_obtain:
  assumes "imem_wf im" "known im ro sd oid opcode iface name sg" "m = message_bytes oid opcode as"
    and "8 + length (wire_body as) < 2 ^ 16" "list_all2 wire_fits (sig_args sg False) as"
  obtains rm args p where "wldbg_resolve_message im (Some ro) sd m = Inr (True, rm)" "pm_id (rm_base rm) = oid"
    "rm_interface rm = Some p" "intf_name (intf_at im p) = iface" "\<And>n. message_is rm n \<longleftrightarrow> n = name"
    "reads m rm args" "map (read_arg m) args = map Inr as"
  using known_message [OF assms(1,2,4,5), of "[]"] unfolding append_Nil2 assms(3) [symmetric]
  by (elim exE conjE) (rule that, assumption+, blast, assumption+)

lemma gather_surface:
  assumes "wldbg_resolve_message im (Some ro) sd m = Inr (True, rm)" "rm_interface rm = Some p"
    "intf_name (intf_at im p) = ''wl_surface''"
  shows "gather_info e im (Some ro) sd m ob = handle_wl_surface_message e m ob rm sd"
  using assms by (simp add: gather_info_def)

lemma set_surface_get:
  assumes "objects_wf ob" "objects_info_get ob k = Some x"
  shows "objects_info_get (set_surface ob x s) = (objects_info_get ob)(k := Some (x\<lparr>oi_info := Surface_info s\<rparr>))"
proof -
  have "oi_id x = k" using assms by (simp add: objects_wf_def)
  then show ?thesis
    using objects_info_set_get [of ob k x] assms by (simp add: set_surface_def objects_wf_def)
qed

lemma gather_frame:
  assumes "imem_wf im" "knows_surface im ro oid" "objects_info_get ob oid = Some x" "oi_info x = Surface_info s"
    and m: "m = request_bytes oid (Frame cb)"
  shows "gather_info e im (Some ro) CLIENT m ob =
    Inr (set_surface ob x (s\<lparr>si_state := request_state (Frame cb) (si_state s)\<rparr>))"
proof -
  have k: "known im ro CLIENT oid 3 ''wl_surface'' ''frame'' ''n''" using assms(2) by (simp add: knows_surface_def)
  have fits: "list_all2 wire_fits (sig_args ''n'' False) [WWord cb]" by (simp add: wire_fits_def is_digit_def)
  have md: "m = message_bytes oid 3 [WWord cb]" and len: "8 + length (wire_body [WWord cb]) < 2 ^ 16" by (simp_all add: m)
  obtain rm args p where rm: "wldbg_resolve_message im (Some ro) CLIENT m = Inr (True, rm)" "pm_id (rm_base rm) = oid"
    "rm_interface rm = Some p" "intf_name (intf_at im p) = ''wl_surface''" "\<And>n. message_is rm n \<longleftrightarrow> n = ''frame''"
    "reads m rm args" "map (read_arg m) args = map Inr [WWord cb]"
    by (rule known_message_obtain [OF assms(1) k md len fits], rule that)
  obtain rm' args' where "next_u32 m rm = Inr (cb, rm')" using next_u32s [OF rm(6)] rm(7) by auto
  then show ?thesis
    unfolding gather_surface [OF rm(1,3,4)]
    using rm(2,5) assms(3,4) by (simp add: handle_wl_surface_message_def as_surface_def)
qed

lemma gather_commit:
  assumes "imem_wf im" "knows_surface im ro oid" "objects_info_get ob oid = Some x" "oi_info x = Surface_info s" "oe_malloc e"
    and m: "m = request_bytes oid Commit"
  shows "gather_info e im (Some ro) CLIENT m ob =
    Inr (set_surface ob x \<lparr>si_state = zero_state, si_commited = Some (si_state s)\<rparr>)"
proof -
  have k: "known im ro CLIENT oid 6 ''wl_surface'' ''commit'' ''''" using assms(2) by (simp add: knows_surface_def)
  have fits: "list_all2 wire_fits (sig_args '''' False) []" by simp
  have md: "m = message_bytes oid 6 []" and len: "8 + length (wire_body []) < 2 ^ 16" by (simp_all add: m)
  obtain rm args p where rm: "wldbg_resolve_message im (Some ro) CLIENT m = Inr (True, rm)" "pm_id (rm_base rm) = oid"
    "rm_interface rm = Some p" "intf_name (intf_at im p) = ''wl_surface''" "\<And>n. message_is rm n \<longleftrightarrow> n = ''commit''"
    "reads m rm args" "map (read_arg m) args = map Inr []"
    by (rule known_message_obtain [OF assms(1) k md len fits], rule that)
  show ?thesis
    unfolding gather_surface [OF rm(1,3,4)]
    using rm(2,5) assms(3-5) by (simp add: handle_wl_surface_message_def as_surface_def commit_surface_def)
qed

lemma gather_attach:
  assumes "imem_wf im" "knows_surface im ro oid" "objects_info_get ob oid = Some x" "oi_info x = Surface_info s"
    and m: "m = request_bytes oid (Attach b px py)"
  shows "gather_info e im (Some ro) CLIENT m ob =
    make_wl_buffer_unreleased (set_surface ob x (s\<lparr>si_state := request_state (Attach b px py) (si_state s)\<rparr>)) b"
proof -
  have k: "known im ro CLIENT oid 1 ''wl_surface'' ''attach'' ''?oii''" using assms(2) by (simp add: knows_surface_def)
  have fits: "list_all2 wire_fits (sig_args ''?oii'' False) [WWord b, WWord px, WWord py]" by (simp add: wire_fits_def is_digit_def)
  have md: "m = message_bytes oid 1 [WWord b, WWord px, WWord py]" and len: "8 + length (wire_body [WWord b, WWord px, WWord py]) < 2 ^ 16" by (simp_all add: m)
  obtain rm args p where rm: "wldbg_resolve_message im (Some ro) CLIENT m = Inr (True, rm)" "pm_id (rm_base rm) = oid"
    "rm_interface rm = Some p" "intf_name (intf_at im p) = ''wl_surface''" "\<And>n. message_is rm n \<longleftrightarrow> n = ''attach''"
    "reads m rm args" "map (read_arg m) args = map Inr [WWord b, WWord px, WWord py]"
    by (rule known_message_obtain [OF assms(1) k md len fits], rule that)
  obtain rm1 args1 where 1: "next_u32 m rm = Inr (b, rm1)" "reads m rm1 args1" "map (read_arg m) args1 = map Inr [WWord px, WWord py]"
    using next_u32s [OF rm(6)] rm(7) by (metis list.simps(9))
  obtain rm2 args2 where 2: "next_u32 m rm1 = Inr (px, rm2)" "reads m rm2 args2" "map (read_arg m) args2 = map Inr [WWord py]"
    using next_u32s [OF 1(2)] 1(3) by (metis list.simps(9))
  obtain rm3 where "next_u32 m rm2 = Inr (py, rm3)" using next_u32s [OF 2(2)] 2(3) by (metis list.simps(9))
  then show ?thesis
    unfolding gather_surface [OF rm(1,3,4)]
    using rm(2,5) assms(3,4) 1(1) 2(1) by (simp add: handle_wl_surface_message_def as_surface_def)
qed

lemma make_unreleased_get:
  assumes "objects_wf ob" "info_kind ob b is_buffer"
  shows "\<exists>ob'. make_wl_buffer_unreleased ob b = Inr ob' \<and> objects_wf ob' \<and>
    objects_info_get ob' = (objects_info_get ob)(b := map_option unrelease (objects_info_get ob b))"
proof (cases "objects_info_get ob b")
  case None
  then show ?thesis using assms(1) by (auto simp: make_wl_buffer_unreleased_def fun_eq_iff)
next
  case (Some y)
  then obtain bi where bi: "oi_info y = Buffer_info bi" using assms(2) by (auto simp: info_kind_def is_buffer_def)
  have y: "oi_id y = b" using assms(1) Some by (simp add: objects_wf_def)
  have r: "make_wl_buffer_unreleased ob b = Inr (objects_info_set ob b (unrelease y))"
    using Some bi y by (simp add: make_wl_buffer_unreleased_def set_released_def as_buffer_def unrelease_def)
  moreover have "objects_info_get (objects_info_set ob b (unrelease y)) = (objects_info_get ob)(b := Some (unrelease y))"
    using objects_info_set_get [of ob b y] assms(1) Some by (simp add: objects_wf_def)
  ultimately show ?thesis using make_unreleased_wf [OF assms(1) r] Some by simp
qed

lemma unrelease_simps [simp]:
  "unrelease (unrelease i) = unrelease i" "is_buffer (oi_info (unrelease i)) \<longleftrightarrow> is_buffer (oi_info i)"
  by (simp_all add: unrelease_def is_buffer_def split: info.splits)

lemma surface_view_kind:
  assumes "info_kind ob b is_buffer" "b \<noteq> oid" "objects_info_get ob' b = surface_view oid rs (objects_info_get ob) b"
  shows "info_kind ob' b is_buffer"
  using assms by (auto simp: info_kind_def surface_view_def split: if_splits)

lemma surface_requests_run:
  assumes "objects_wf ob" "imem_wf im" "knows_surface im ro oid" "objects_info_get ob oid = Some x"
    and "oi_info x = Surface_info \<lparr>si_state = zero_state, si_commited = None\<rparr>" "oe_malloc e"
    and "\<And>b px py. Attach b px py \<in> set rs \<Longrightarrow> info_kind ob b is_buffer"
  shows "\<exists>ob'. gather_requests e im ro oid rs ob = Inr ob' \<and> objects_wf ob' \<and>
    objects_info_get ob' = surface_view oid rs (objects_info_get ob)"
  using assms(7)
proof (induction rs rule: rev_induct)
  case Nil
  then show ?case using assms(1,4,5) by (auto simp: surface_view_def fun_eq_iff)
next
  case (snoc r rs)
  let ?g = "objects_info_get ob"
  obtain ob1 where ob1: "gather_requests e im ro oid rs ob = Inr ob1" "objects_wf ob1" "objects_info_get ob1 = surface_view oid rs ?g"
    using snoc by auto
  let ?s = "\<lparr>si_state = pending rs, si_commited = published rs\<rparr>" and ?x = "x\<lparr>oi_info := Surface_info \<lparr>si_state = pending rs, si_commited = published rs\<rparr>\<rparr>"
  have g1: "objects_info_get ob1 oid = Some ?x" using ob1(3) assms(4) by (simp add: surface_view_def)
  have i1: "oi_info ?x = Surface_info ?s" by simp
  note set1 = set_surface_get [OF ob1(2) g1] and wf1 = set_surface_wf [OF ob1(2) g1]
  have step: "gather_requests e im ro oid (rs @ [r]) ob = gather_info e im (Some ro) CLIENT (request_bytes oid r) ob1"
    by (simp add: gather_requests_snoc ob1(1))
  show ?case
  proof (cases r)
    case (Frame cb)
    show ?thesis
      unfolding step unfolding Frame gather_frame [OF assms(2,3) g1 i1 refl]
      using wf1 set1 ob1(3) assms(4) by (auto simp: surface_view_def fun_eq_iff)
  next
    case Commit
    show ?thesis
      unfolding step unfolding Commit gather_commit [OF assms(2,3) g1 i1 assms(6) refl]
      using wf1 set1 ob1(3) assms(4) by (auto simp: surface_view_def fun_eq_iff)
  next
    case (Attach b px py)
    let ?ob2 = "set_surface ob1 ?x (?s\<lparr>si_state := request_state (Attach b px py) (si_state ?s)\<rparr>)"
    have b: "info_kind ob b is_buffer" using snoc.prems Attach by auto
    then have "b \<noteq> oid" using assms(4,5) by (auto simp: info_kind_def is_buffer_def)
    moreover have "info_kind ?ob2 b is_buffer"
      using surface_view_kind [OF b \<open>b \<noteq> oid\<close>, of ob1 rs] ob1(3) set1 \<open>b \<noteq> oid\<close> by (simp add: info_kind_def)
    ultimately show ?thesis
      unfolding step unfolding Attach gather_attach [OF assms(2,3) g1 i1 refl]
      using make_unreleased_get [of ?ob2 b] wf1 set1 ob1(3) assms(4)
      by (auto simp: surface_view_def fun_eq_iff option.map_comp comp_def)
  qed
qed

section \<open>The ring of configures\<close>

definition configure :: "u32 \<times> u32 \<times> u32 \<Rightarrow> xdg_configure" where
  "configure c = (case c of (w, h, s) \<Rightarrow> \<lparr>xc_width = w, xc_height = h, xc_serial = s, xc_acked = False\<rparr>)"

definition add_configures :: "(u32 \<times> u32 \<times> u32) list \<Rightarrow> xdg_surface_info \<Rightarrow> xdg_surface_info" where
  "add_configures cs x = fold (\<lambda>(w, h, s). add_configure w h s) cs x"

lemma add_configures_snoc:
  assumes "length cs < 2 ^ 64"
  shows "xs_configures_num (add_configures cs zero_xdg) = of_nat (length cs)"
    "xs_configures (add_configures (cs @ [c]) zero_xdg) =
      (xs_configures (add_configures cs zero_xdg))[length cs mod 10 := configure c]"
proof -
  show num: "xs_configures_num (add_configures cs zero_xdg) = of_nat (length cs)"
    by (induction cs rule: rev_induct) (auto simp: add_configures_def add_configure_def zero_xdg_def)
  have "unat (of_nat (length cs) :: u64) = length cs" using assms by (simp add: unat_of_nat)
  then have "unat ((of_nat (length cs) :: u64) mod 10) = length cs mod 10" by (simp only: unat_mod) simp
  then show "xs_configures (add_configures (cs @ [c]) zero_xdg) =
      (xs_configures (add_configures cs zero_xdg))[length cs mod 10 := configure c]"
    using num by (cases c) (simp add: add_configures_def add_configure_def configure_def)
qed

lemma add_configures_kept:
  assumes "length cs < 2 ^ 64"
  shows "length (xs_configures (add_configures cs zero_xdg)) = 10 \<and>
    (\<forall>i < length cs. length cs \<le> i + 10 \<longrightarrow> xs_configures (add_configures cs zero_xdg) ! (i mod 10) = configure (cs ! i))"
  using assms
proof (induction cs rule: rev_induct)
  case Nil
  show ?case by (simp add: add_configures_def zero_xdg_def)
next
  case (snoc c cs)
  have ih: "length (xs_configures (add_configures cs zero_xdg)) = 10"
    "\<And>i. i < length cs \<Longrightarrow> length cs \<le> i + 10 \<Longrightarrow> xs_configures (add_configures cs zero_xdg) ! (i mod 10) = configure (cs ! i)"
    using snoc.IH snoc.prems by simp_all
  have slot: "i mod 10 \<noteq> length cs mod 10" if "i < length cs" "length cs < i + 10" for i
  proof
    assume "i mod 10 = length cs mod 10"
    then have "10 dvd length cs - i" using that(1) by (metis less_imp_le mod_eq_dvd_iff_nat)
    then show False using that by (auto dest!: dvd_imp_le)
  qed
  have upd: "xs_configures (add_configures (cs @ [c]) zero_xdg) =
      (xs_configures (add_configures cs zero_xdg))[length cs mod 10 := configure c]"
    by (rule add_configures_snoc) (use snoc.prems in simp)
  have "(xs_configures (add_configures cs zero_xdg))[length cs mod 10 := configure c] ! (i mod 10) = configure ((cs @ [c]) ! i)"
    if "i < length (cs @ [c])" "length (cs @ [c]) \<le> i + 10" for i
  proof (cases "i = length cs")
    case True
    then show ?thesis using ih(1) by simp
  next
    case False
    then show ?thesis using that slot [of i] ih(2) [of i] by (simp add: nth_append)
  qed
  then show ?case unfolding upd using ih(1) by (simp only: length_list_update) blast
qed

section \<open>The clean-up\<close>

lemma destroy_infos_fault:
  "destroy_infos is = (if \<exists>i s. Some i \<in> set is \<and> oi_info i = Seat_info s \<and> st_name s = Name_uninit then Inl UninitRead else Inr ())"
proof (induction "is" rule: destroy_infos.induct)
  case (3 i "is")
  show ?case
  proof (cases "oi_info i")
    case (Seat_info s)
    then show ?thesis using 3 by (auto simp: destroy_info_def)
  qed (use 3 in \<open>auto simp: destroy_info_def\<close>)
qed auto

lemma map_cells_set:
  "Some x \<in> set (map_cells m) \<longleftrightarrow> (\<exists>k. wldbg_ids_map_get m k = Some x)"
proof
  assume "\<exists>k. wldbg_ids_map_get m k = Some x"
  then obtain k where k: "wldbg_ids_map_get m k = Some x" by blast
  then have "k < map_count m" by (simp add: wldbg_ids_map_get_def split: if_splits)
  then have "unat k \<in> set [0..<unat (map_count m)]" by (simp add: word_less_nat_alt)
  then have "wldbg_ids_map_get m (word_of_nat (unat k)) \<in> set (map_cells m)" unfolding map_cells_def set_map by (rule imageI)
  then show "Some x \<in> set (map_cells m)" using k by simp
qed (auto simp: map_cells_def)

lemma destroy_uninit_seat:
  assumes "objects_info_get ob k = Some i" "oi_info i = Seat_info s" "st_name s = Name_uninit"
  shows "destroy_objects_info ob = Inl UninitRead"
proof -
  have "Some i \<in> set (map_cells (ob_client ob) @ map_cells (ob_server ob))"
    using assms(1) map_cells_set by (auto simp: objects_info_get_def split: if_splits)
  then show ?thesis using assms(2,3) unfolding destroy_objects_info_def destroy_infos_fault by auto
qed

section \<open>Seats\<close>

lemma next_blob_reads:
  assumes "reads m rm (a # as)" "read_arg m a = Inr (WBlob (str_bytes s @ [0]))" "nul \<notin> set s"
  shows "\<exists>d rm'. next_data m rm = Inr (Some d, rm') \<and> c_str (drop d m) = Inr s \<and> reads m rm' as"
proof -
  obtain rm' where rm': "wldbg_resolved_message_next_argument m rm = Inr (Some a, rm')" "reads m rm' as"
    using assms(1) by auto
  obtain d n where d: "arg_data a = Some d" "take n (drop d m) = str_bytes s @ [0]"
    using assms(2) by (auto simp: read_arg_def rbind_eq_Inr split: option.splits if_splits)
  have "drop d m = str_bytes s @ 0 # drop n (drop d m)"
    using append_take_drop_id [of n "drop d m"] unfolding d(2) by simp
  then have "c_str (drop d m) = Inr s" using c_str_str_bytes [OF assms(3)] by simp
  then show ?thesis using rm' d(1) by (auto simp: next_data_def)
qed

lemma objects_info_put_stores:
  assumes "objects_wf ob" "\<And>n. oe_array e n"
  shows "\<exists>ob'. objects_info_put e ob i v = Inr ob' \<and> objects_info_get ob' = (objects_info_get ob)(i := v)"
proof -
  have wf: "ids_map_wf (ob_client ob)" "ids_map_wf (ob_server ob)" using assms(1) by (simp_all add: objects_wf_def)
  have "\<exists>ob'. objects_info_put e ob i v = Inr ob'"
    using wldbg_ids_map_insert_cases [OF wf(1) client_id_legal, of i "oe_array e" "oe_junk e" v]
      wldbg_ids_map_insert_cases [OF wf(2) server_id_legal, of i "oe_array e" "oe_junk e" v] assms(2)
    by (fastforce simp: objects_info_put_def)
  then show ?thesis using objects_info_put_get [OF wf] by blast
qed

definition bind_seat :: "u32 \<Rightarrow> u32 \<Rightarrow> u32 \<Rightarrow> u32 \<Rightarrow> bytes" where
  "bind_seat oid name v i = message_bytes oid 0 [WWord name, WBlob (str_bytes ''wl_seat'' @ [0]), WWord v, WWord i]"

definition fresh_seat :: "obj_env \<Rightarrow> u32 \<Rightarrow> u32 \<Rightarrow> object_info" where
  "fresh_seat e v i = \<lparr>oi_interface = Some (oe_seat_interface e), oi_id = i, oi_version = Some v,
     oi_info = Seat_info \<lparr>st_capabilities = 0, st_name = Name_uninit\<rparr>\<rparr>"

lemma gather_bind_seat:
  assumes "imem_wf im" "known im ro CLIENT oid 0 ''wl_registry'' ''bind'' ''usun''" "oe_malloc e" "0 < i"
    and m: "m = bind_seat oid name v i"
  shows "gather_info e im (Some ro) CLIENT m ob = objects_info_put e ob i (Some (fresh_seat e v i))"
proof -
  let ?as = "[WWord name, WBlob (str_bytes ''wl_seat'' @ [0]), WWord v, WWord i]"
  have len: "length (wire_body ?as) = 24" using length_wire_blob [of "str_bytes ''wl_seat'' @ [0]"]
    by (simp add: str_bytes_def div_roundup4_def)
  have fits: "list_all2 wire_fits (sig_args ''usun'' False) ?as" by (simp add: wire_fits_def is_digit_def str_bytes_def)
  have sz: "8 + length (wire_body ?as) < 2 ^ 16" unfolding len by simp
  obtain rm args p where rm: "wldbg_resolve_message im (Some ro) CLIENT m = Inr (True, rm)" "pm_id (rm_base rm) = oid"
    "rm_interface rm = Some p" "intf_name (intf_at im p) = ''wl_registry''" "\<And>n. message_is rm n \<longleftrightarrow> n = ''bind''"
    "reads m rm args" "map (read_arg m) args = map Inr ?as"
    by (rule known_message_obtain [OF assms(1,2) m [unfolded bind_seat_def] sz fits], rule that)
  obtain a1 as1 where a1: "args = a1 # as1" "map (read_arg m) as1 = map Inr (tl ?as)"
    using rm(7) by (cases args) auto
  obtain a2 as2 where a2: "as1 = a2 # as2" "read_arg m a2 = Inr (WBlob (str_bytes ''wl_seat'' @ [0]))"
    "map (read_arg m) as2 = map Inr [WWord v, WWord i]"
    using a1(2) by (cases as1) auto
  obtain rm1 where r1: "wldbg_resolved_message_next_argument m rm = Inr (Some a1, rm1)" "reads m rm1 as1"
    using rm(6) a1(1) by auto
  have n: "nul \<notin> set ''wl_seat''" by (simp add: nul_def)
  obtain d rm2 where r2: "next_data m rm1 = Inr (Some d, rm2)" "c_str (drop d m) = Inr ''wl_seat''" "reads m rm2 as2"
    using next_blob_reads [OF r1(2) [unfolded a2(1)] a2(2) n] by blast
  obtain rm3 args3 where r3: "next_u32 m rm2 = Inr (v, rm3)" "reads m rm3 args3" "map (read_arg m) args3 = map Inr [WWord i]"
    using next_u32s [OF r2(3)] a2(3) by (metis list.simps(9))
  obtain rm4 where r4: "next_u32 m rm3 = Inr (i, rm4)" using next_u32s [OF r3(2)] r3(3) by (metis list.simps(9))
  have "gather_info e im (Some ro) CLIENT m ob = handle_wl_registry_message e m ob rm CLIENT"
    using rm(1,3,4) by (simp add: gather_info_def)
  also have "\<dots> = objects_info_put e ob i (Some (fresh_seat e v i))"
    using rm(5) r1(1) r2(1,2) r3(1) r4 assms(3,4)
    by (simp add: handle_wl_registry_message_def handle_bind_def create_wl_seat_info_def rassert_def fresh_seat_def)
  finally show ?thesis .
qed

lemma add_configures_slot:
  assumes "length cs < 2 ^ 64" "j < 10"
  shows "xs_configures (add_configures cs zero_xdg) ! j = zero_configure \<or>
    (\<exists>i < length cs. i mod 10 = j \<and> xs_configures (add_configures cs zero_xdg) ! j = configure (cs ! i))"
  using assms(1)
proof (induction cs rule: rev_induct)
  case Nil
  show ?case using assms(2) by (simp add: add_configures_def zero_xdg_def)
next
  case (snoc c cs)
  have len: "length (xs_configures (add_configures cs zero_xdg)) = 10" using add_configures_kept [of cs] snoc.prems by simp
  have upd: "xs_configures (add_configures (cs @ [c]) zero_xdg) =
      (xs_configures (add_configures cs zero_xdg))[length cs mod 10 := configure c]"
    by (rule add_configures_snoc) (use snoc.prems in simp)
  show ?case
  proof (cases "j = length cs mod 10")
    case True
    then show ?thesis unfolding upd using len by (intro disjI2 exI [of _ "length cs"]) simp
  next
    case False
    then have same: "xs_configures (add_configures (cs @ [c]) zero_xdg) ! j = xs_configures (add_configures cs zero_xdg) ! j"
      unfolding upd by simp
    show ?thesis
      unfolding same using snoc.IH snoc.prems by (auto simp: nth_append)
  qed
qed

lemma ack_first_at:
  assumes "i < length cs" "\<And>j. j < i \<Longrightarrow> xc_serial (cs ! i) = s \<Longrightarrow> xc_serial (cs ! j) \<noteq> s"
  shows "ack_first s cs ! i = (if xc_serial (cs ! i) = s then (cs ! i)\<lparr>xc_acked := True\<rparr> else cs ! i)"
  using assms
proof (induction cs arbitrary: i)
  case (Cons c cs)
  show ?case
  proof (cases i)
    case (Suc k)
    have "\<And>j. j < k \<Longrightarrow> xc_serial (cs ! k) = s \<Longrightarrow> xc_serial (cs ! j) \<noteq> s" using Cons.prems(2) Suc by fastforce
    then show ?thesis using Cons.IH [of k] Cons.prems Suc by fastforce
  qed auto
qed simp

lemma xc_serial_configure: "xc_serial (configure c) = snd (snd c)"
  by (simp add: configure_def split: prod.splits)

lemma acked_configure: "(configure c)\<lparr>xc_acked := False\<rparr> = configure c"
  by (simp add: configure_def split: prod.splits)

lemma gather_info_typesafe:
  assumes "objects_wf ob" "infos_match im ro ob"
    and no: "\<And>rm p. wldbg_resolve_message im ro sd m = Inr (True, rm) \<Longrightarrow> rm_interface rm = Some p \<Longrightarrow>
      intf_name (intf_at im p) = ''wl_surface'' \<Longrightarrow> \<not> attach_trusts m ob rm sd"
  shows "typesafe (gather_info e im ro sd m ob)"
proof (cases "wldbg_resolve_message im ro sd m")
  case (Inl f)
  then show ?thesis using typesafe_resolve [of im ro sd m] by (simp add: gather_info_def)
next
  case (Inr r)
  obtain ok rm where r: "wldbg_resolve_message im ro sd m = Inr (ok, rm)" using Inr by (cases r) simp
  show ?thesis
  proof (cases ok)
    case False
    then show ?thesis using r by (simp add: gather_info_def typesafe_Inr)
  next
    case True
    obtain p where p: "wldbg_message_get_object ro (pm_id (rm_base rm)) = Some p" "rm_interface rm = Some p"
      using resolve_known_object [of im ro sd m rm] r True by auto
    let ?name = "intf_name (intf_at im p)" and ?k = "info_kind ob (pm_id (rm_base rm))"
    have kind: "?k (kind_ok ?name)" using assms(2) p(1) by (simp add: infos_match_def info_kind_def)
    then have "?name = ''wl_surface'' \<Longrightarrow> ?k (\<lambda>i. \<exists>s. i = Surface_info s)" "?name = ''xdg_surface'' \<Longrightarrow> ?k (\<lambda>i. \<exists>x. i = Xdg_info x)"
      "?name = ''wl_buffer'' \<Longrightarrow> ?k is_buffer" "?name = ''wl_seat'' \<Longrightarrow> ?k (\<lambda>i. \<exists>s. i = Seat_info s)"
      by (simp_all add: info_kind_def kind_ok_def is_buffer_def)
    then show ?thesis
      using r True p(2) no [of rm p] typesafe_creation [OF assms(1)] typesafe_surface [OF assms(1)]
        typesafe_xdg [OF assms(1)] typesafe_buffer [OF assms(1)] typesafe_seat
      by (simp add: gather_info_def Let_def typesafe_Inr)
  qed
qed

section \<open>Properties\<close>

text \<open>The interfaces that the examples below run on, cut down to what is used.\<close>

definition sample_intf :: "string \<Rightarrow> wl_message list \<Rightarrow> wl_interface" where
  "sample_intf name ms = \<lparr>intf_name = name, intf_version = 1, method_count = int (length ms), methods = ms,
     event_count = 0, events = []\<rparr>"

definition sample_imem :: imem where
  "sample_imem n =
     (if n = 0 then sample_intf ''wl_surface''
        [mk_message ''destroy'' '''' [], mk_message ''attach'' ''?oii'' [], mk_message ''damage'' ''iiii'' [],
         mk_message ''frame'' ''n'' [], mk_message ''set_opaque_region'' ''?o'' [],
         mk_message ''set_input_region'' ''?o'' [], mk_message ''commit'' '''' []]
      else sample_intf ''wl_registry'' [mk_message ''bind'' ''usun'' []])"

definition sample_objects :: resolved_objects where
  "sample_objects = \<lparr>ro_client = \<lparr>map_count = 3, map_data = \<lparr>arr_size = 24, arr_alloc = 32,
     arr_data = [None, Some (Iface 0), Some (Iface 1), None]\<rparr>\<rparr>,
     ro_server = wldbg_ids_map_init, ro_interfaces = [], ro_additional = []\<rparr>"

definition sample_surface :: object_info where
  "sample_surface = \<lparr>oi_interface = Some (Iface 0), oi_id = 1, oi_version = None,
     oi_info = Surface_info \<lparr>si_state = zero_state, si_commited = None\<rparr>\<rparr>"

definition sample_infos :: objects_info where
  "sample_infos = \<lparr>ob_client = \<lparr>map_count = 2, map_data = \<lparr>arr_size = 16, arr_alloc = 16,
     arr_data = [None, Some sample_surface]\<rparr>\<rparr>, ob_server = wldbg_ids_map_init\<rparr>"

definition sample_env :: obj_env where
  "sample_env = \<lparr>oe_malloc = True, oe_strdup = True, oe_array = \<lambda>_. True, oe_junk = None, oe_seat_interface = Iface 2\<rparr>"

lemma not_server_id_1: "\<not> WL_SERVER_ID_START \<le> 1"
  by (simp add: WL_SERVER_ID_START_def word_le_nat_alt)

lemma not_server_id_2: "\<not> WL_SERVER_ID_START \<le> 2"
  by (simp add: WL_SERVER_ID_START_def)

lemma sample_imem_wf: "imem_wf sample_imem"
  by (simp add: imem_wf_def sample_imem_def intf_wf_def sample_intf_def)

lemma sample_get: "objects_info_get sample_infos k = (if k = 1 then Some sample_surface else None)"
proof (cases "k = 0 \<or> k = 1")
  case True
  then show ?thesis
    using not_server_id_1 by (auto simp: objects_info_get_def sample_infos_def wldbg_ids_map_get_def)
next
  case False
  then have "\<not> k < 2" by unat_arith
  then show ?thesis using False
    by (auto simp: objects_info_get_def sample_infos_def wldbg_ids_map_get_def wldbg_ids_map_init_def)
qed

lemma sample_wf: "objects_wf sample_infos"
  unfolding objects_wf_def sample_get
  by (simp add: sample_infos_def ids_map_wf_init) (simp add: ids_map_wf_def arr_wf_def sample_surface_def info_ok_def cell_bytes_def exI [of _ 4])

lemma sample_knows:
  "knows_surface sample_imem sample_objects 1" "known sample_imem sample_objects CLIENT 2 0 ''wl_registry'' ''bind'' ''usun''"
  by (simp_all add: knows_surface_def known_def sample_objects_def wldbg_message_get_object_def resolved_objects_get_def
      not_server_id_1 not_server_id_2 wldbg_ids_map_get_def is_valid_interface_def sample_imem_def sample_intf_def side_count_def
      side_messages_def mk_message_def nul_def)

text \<open>C13: The pass tracks the double buffering of a surface: after any sequence of \<open>frame\<close>, \<open>attach\<close> and
  \<open>commit\<close> requests to a new surface, encoded as a client sends them, the committed state is what was
  requested between the last two commits, the pending state what was requested since the last one,
  every buffer that was attached counts as not released, and no other information has changed.\<close>

theorem surface_double_buffered:
  assumes "objects_wf ob" "imem_wf im" "knows_surface im ro oid" "objects_info_get ob oid = Some x"
    and "oi_info x = Surface_info \<lparr>si_state = zero_state, si_commited = None\<rparr>" "oe_malloc e"
    and "\<And>b px py. Attach b px py \<in> set rs \<Longrightarrow> info_kind ob b is_buffer"
  shows "\<exists>ob'. gather_requests e im ro oid rs ob = Inr ob' \<and>
    objects_info_get ob' = surface_view oid rs (objects_info_get ob)"
  using surface_requests_run [OF assms(1-6), of rs] assms(7) by blast

theorem surface_double_buffered_witness:
  "\<exists>ob'. gather_requests sample_env sample_imem sample_objects 1 [Attach 7 1 2, Frame 9, Commit, Attach 0 3 4] sample_infos = Inr ob' \<and>
    objects_info_get ob' 1 = Some (sample_surface\<lparr>oi_info := Surface_info
      \<lparr>si_state = zero_state\<lparr>ss_attached_x := 3, ss_attached_y := 4\<rparr>,
       si_commited = Some (zero_state\<lparr>ss_wl_buffer_id := 7, ss_attached_x := 1, ss_attached_y := 2, ss_last_frame_id := 9\<rparr>)\<rparr>\<rparr>)"
proof -
  let ?rs = "[Attach 7 1 2, Frame 9, Commit, Attach 0 3 4]"
  have g: "objects_info_get sample_infos 1 = Some sample_surface" by (simp add: sample_get)
  have "\<exists>ob'. gather_requests sample_env sample_imem sample_objects 1 ?rs sample_infos = Inr ob' \<and>
      objects_info_get ob' = surface_view 1 ?rs (objects_info_get sample_infos)"
    by (rule surface_double_buffered [OF sample_wf sample_imem_wf sample_knows(1) g])
       (auto simp: sample_surface_def sample_env_def info_kind_def sample_get)
  then obtain ob' where ob': "gather_requests sample_env sample_imem sample_objects 1 ?rs sample_infos = Inr ob'"
    "objects_info_get ob' 1 = surface_view 1 ?rs (objects_info_get sample_infos) 1" by metis
  moreover have "surface_view 1 ?rs (objects_info_get sample_infos) 1 = Some (sample_surface\<lparr>oi_info := Surface_info
      \<lparr>si_state = zero_state\<lparr>ss_attached_x := 3, ss_attached_y := 4\<rparr>,
       si_commited = Some (zero_state\<lparr>ss_wl_buffer_id := 7, ss_attached_x := 1, ss_attached_y := 2, ss_last_frame_id := 9\<rparr>)\<rparr>\<rparr>)"
    by (simp add: surface_view_def g pending_def published_def zero_state_def)
  ultimately show ?thesis by auto
qed

text \<open>When a client binds a seat, its information is stored with the version and id of the request,
  but until the server announces the name of the seat, destroying the gathered informations frees a
  pointer that was never initialised.\<close>

theorem bound_seat_uninit:
  assumes "imem_wf im" "known im ro CLIENT oid 0 ''wl_registry'' ''bind'' ''usun''" "objects_wf ob"
    and "oe_malloc e" "\<And>n. oe_array e n" "0 < i"
  shows "\<exists>ob'. gather_info e im (Some ro) CLIENT (bind_seat oid name v i) ob = Inr ob' \<and>
    objects_info_get ob' = (objects_info_get ob)(i := Some (fresh_seat e v i)) \<and>
    destroy_objects_info ob' = Inl UninitRead"
proof -
  obtain ob' where ob': "objects_info_put e ob i (Some (fresh_seat e v i)) = Inr ob'"
    "objects_info_get ob' = (objects_info_get ob)(i := Some (fresh_seat e v i))"
    using objects_info_put_stores [OF assms(3,5)] by blast
  have "destroy_objects_info ob' = Inl UninitRead"
    by (rule destroy_uninit_seat [of _ i "fresh_seat e v i" "\<lparr>st_capabilities = 0, st_name = Name_uninit\<rparr>"])
       (simp_all add: ob'(2) fresh_seat_def)
  then show ?thesis using ob' gather_bind_seat [OF assms(1,2,4,6) refl] by auto
qed

theorem bound_seat_uninit_witness:
  "\<exists>ob'. gather_info sample_env sample_imem (Some sample_objects) CLIENT (bind_seat 2 4 5 6) sample_infos = Inr ob' \<and>
    objects_info_get ob' 6 = Some (fresh_seat sample_env 5 6) \<and> destroy_objects_info ob' = Inl UninitRead"
  using bound_seat_uninit [OF sample_imem_wf sample_knows(2) sample_wf, of sample_env 6 4 5]
  by (auto simp: sample_env_def)

text \<open>C34: The ring keeps the last ten configures of a surface whatever their number: each is found at its
  number modulo ten with its size and serial; and when the serials are distinct and not zero, an
  acknowledgement marks exactly the kept one that has the serial.\<close>

theorem last_ten_configures:
  assumes "length cs < 2 ^ 64" "i < length cs" "length cs \<le> i + 10" "distinct (0 # map (snd \<circ> snd) cs)"
  shows "xs_configures (add_configures cs zero_xdg) ! (i mod 10) = configure (cs ! i) \<and>
    ack_first s (xs_configures (add_configures cs zero_xdg)) ! (i mod 10) =
      (configure (cs ! i))\<lparr>xc_acked := (snd (snd (cs ! i)) = s)\<rparr>"
proof -
  let ?x = "xs_configures (add_configures cs zero_xdg)"
  have k: "length ?x = 10" "?x ! (i mod 10) = configure (cs ! i)"
    using add_configures_kept [OF assms(1)] assms(2,3) by auto
  have other: "xc_serial (?x ! j) \<noteq> snd (snd (cs ! i))" if j: "j < i mod 10" for j
  proof -
    have "j < 10" using j by (rule order.strict_trans) simp
    then have "?x ! j = zero_configure \<or> (\<exists>i' < length cs. i' mod 10 = j \<and> ?x ! j = configure (cs ! i'))"
      by (rule add_configures_slot [OF assms(1)])
    then show ?thesis
    proof (elim disjE exE conjE)
    assume "?x ! j = zero_configure"
    then show ?thesis using assms(2,4) by (auto simp: zero_configure_def)
  next
    fix i' assume i': "i' < length cs" "i' mod 10 = j" "?x ! j = configure (cs ! i')"
    then have "i' \<noteq> i" using j by auto
    then show ?thesis using i' assms(2,4) by (simp add: xc_serial_configure distinct_conv_nth [of "map _ cs"])
  qed
  qed
  have "ack_first s ?x ! (i mod 10) =
      (if xc_serial (?x ! (i mod 10)) = s then (?x ! (i mod 10))\<lparr>xc_acked := True\<rparr> else ?x ! (i mod 10))"
    by (rule ack_first_at) (use k other in \<open>auto simp: xc_serial_configure\<close>)
  then show ?thesis using k(2) by (auto simp: xc_serial_configure acked_configure)
qed

theorem last_ten_configures_witness:
  "ack_first 12 (xs_configures (add_configures [(640, 480, 11), (800, 600, 12)] zero_xdg)) ! (1 mod 10) =
     (configure (800, 600, 12))\<lparr>xc_acked := True\<rparr>"
  using last_ten_configures [of "[(640, 480, 11), (800, 600, 12)]" 1 12] by simp

end
