(* ===== verification/Fixed.thy ===== *)
theory Fixed
  imports Wldbg_Prelude "HOL-Library.Log_Nat"
begin

text \<open>
  The fixed-point numbers of the protocol, \<^verbatim>\<open>wayland/wayland-util.h\<close>: signed 24.8 in 32 bits.  The
  conversions to and from \<open>double\<close> store to one member of a union and read the other one, so they
  depend on the bits of a double.

  A finite double is its value, a rational.  \<open>fl\<close> rounds the exact result of an operation to 53
  significant bits, to nearest with ties to even; \<open>double_of_bits\<close> and \<open>bits_of_double\<close> are the two
  views of the union for normal numbers.  Exponents out of the range of a double do not occur.
\<close>

section \<open>Doubles\<close>

text \<open>Two to an integer power.\<close>

definition two_to :: "int \<Rightarrow> rat" where
  "two_to k = (if 0 \<le> k then 2 ^ nat k else 1 / 2 ^ nat (- k))"

text \<open>The exponent \<open>k\<close> with \<open>2 ^ k \<le> x < 2 ^ (k + 1)\<close>, for positive \<open>x\<close>.\<close>

definition exponent_of :: "rat \<Rightarrow> int" where
  "exponent_of x =
     (if 1 \<le> x then int (floorlog 2 (nat \<lfloor>x\<rfloor>)) - 1
      else - int (floorlog 2 (nat (\<lceil>1 / x\<rceil> - 1))))"

definition round_half_even :: "rat \<Rightarrow> int" where
  "round_half_even x =
     (let q = \<lfloor>x\<rfloor>; r = x - of_int q in
      if r < 1 / 2 \<or> (r = 1 / 2 \<and> even q) then q else q + 1)"

definition fl :: "rat \<Rightarrow> rat" where
  "fl x =
     (if x = 0 then 0
      else let e = exponent_of \<bar>x\<bar> - 52 in of_int (round_half_even (x / two_to e)) * two_to e)"

definition double_of_bits :: "u64 \<Rightarrow> rat option" where
  "double_of_bits b =
     (let s = bit b 63; ex = uint (take_bit 11 (drop_bit 52 b)); m = uint (take_bit 52 b) in
      if ex = 0 \<or> ex = 2047 then None
      else Some ((if s then -1 else 1) * of_int (2 ^ 52 + m) * two_to (ex - 1075)))"

definition bits_of_double :: "rat \<Rightarrow> u64" where
  "bits_of_double x =
     (let ex = exponent_of \<bar>x\<bar> in
      (if x < 0 then push_bit 63 1 else 0) + push_bit 52 (word_of_int (ex + 1023)) +
      word_of_int (\<lfloor>\<bar>x\<bar> / two_to (ex - 52)\<rfloor> - 2 ^ 52))"

section \<open>The conversions\<close>

definition wl_fixed_to_double :: "u32 \<Rightarrow> rat option" where
  "wl_fixed_to_double f =
     (let i = push_bit 52 (1023 + 44) + push_bit 51 1 + scast f :: u64 in
      map_option (\<lambda>d. fl (d - 3 * 2 ^ 43)) (double_of_bits i))"

definition wl_fixed_from_double :: "rat \<Rightarrow> u32" where
  "wl_fixed_from_double d = ucast (bits_of_double (fl (d + 3 * 2 ^ (51 - 8))))"

text \<open>Division of C: towards zero.\<close>

definition wl_fixed_to_int :: "u32 \<Rightarrow> int" where
  "wl_fixed_to_int f = sgn (sint f) * (\<bar>sint f\<bar> div 256)"

text \<open>The multiplication may overflow, which is undefined: \<open>None\<close>.\<close>

definition wl_fixed_from_int :: "int \<Rightarrow> u32 option" where
  "wl_fixed_from_int i =
     (if - (2 ^ 31) \<le> i * 256 \<and> i * 256 < 2 ^ 31 then Some (word_of_int (i * 256)) else None)"

text \<open>\<^verbatim>\<open>%f\<close>.\<close>

definition printf_f :: "rat \<Rightarrow> string" where
  "printf_f x =
     (let n = nat (round_half_even (\<bar>x\<bar> * 1000000)); frac = show_nat (n mod 1000000) in
      (if x < 0 then ''-'' else '''') @ show_nat (n div 1000000) @ ''.'' @
      replicate (6 - length frac) (CHR ''0'') @ frac)"

section \<open>Rounding\<close>

lemma two_to_pos [simp]: "0 < two_to k"
  by (simp add: two_to_def)

lemma two_to_nonzero [simp]: "two_to k \<noteq> 0"
  using two_to_pos [of k] by linarith

lemma two_to_add: "two_to (a + b) = two_to a * two_to b"
proof -
  have powi: "two_to k = 2 powi k" for k by (simp add: two_to_def power_int_def inverse_eq_divide power_one_over)
  show ?thesis by (simp add: powi power_int_add)
qed

lemma two_to_mono: "a \<le> b \<Longrightarrow> two_to a \<le> two_to b"
proof -
  assume "a \<le> b"
  then have "1 \<le> two_to (b - a)" by (simp add: two_to_def)
  then have "two_to a * 1 \<le> two_to a * two_to (b - a)" by (intro mult_left_mono) (simp_all add: less_imp_le)
  then show ?thesis by (simp flip: two_to_add)
qed

lemma round_half_even_int [simp]: "round_half_even (of_int n) = n"
  by (simp add: round_half_even_def)

lemma floorlog2_bounds:
  assumes "0 < n"
  shows "0 < floorlog 2 n" "2 ^ (floorlog 2 n - 1) \<le> n" "n < 2 ^ floorlog 2 n"
  using floorlog_bounds [OF assms, of 2] assms by (simp_all add: floorlog_def)

lemma exponent_of_le:
  assumes "0 < x"
  shows "two_to (exponent_of x) \<le> x"
proof (cases "1 \<le> x")
  case True
  then have f: "1 \<le> \<lfloor>x\<rfloor>" by simp
  let ?n = "nat \<lfloor>x\<rfloor>"
  have "0 < ?n" using f by simp
  note b = floorlog2_bounds(1,2) [OF this]
  from b(2) have "(of_nat (2 ^ (floorlog 2 ?n - 1)) :: rat) \<le> of_nat ?n" by (simp only: of_nat_le_iff)
  also have "\<dots> \<le> x" using f by simp
  finally have "(2 :: rat) ^ (floorlog 2 ?n - 1) \<le> x" by simp
  moreover have "nat (int (floorlog 2 ?n) - 1) = floorlog 2 ?n - 1" using b(1) by simp
  ultimately show ?thesis using True b(1) by (simp add: exponent_of_def two_to_def)
next
  case False
  then have "1 < 1 / x" using assms by (simp add: less_divide_eq)
  then have f: "2 \<le> \<lceil>1 / x\<rceil>" by linarith
  let ?n = "nat (\<lceil>1 / x\<rceil> - 1)"
  have "?n < 2 ^ floorlog 2 ?n" using f by (intro floorlog2_bounds) simp
  then have "int ?n < int (2 ^ floorlog 2 ?n)" by (simp only: of_nat_less_iff)
  then have "\<lceil>1 / x\<rceil> \<le> 2 ^ floorlog 2 ?n" using f by (simp add: nat_less_iff del: zero_less_ceiling)
  then have "1 / x \<le> 2 ^ floorlog 2 ?n" by (simp add: ceiling_le_iff)
  then have "1 / 2 ^ floorlog 2 ?n \<le> x" using assms by (simp add: field_simps)
  then show ?thesis using False by (cases "floorlog 2 ?n = 0") (simp_all add: exponent_of_def two_to_def)
qed

lemma exponent_of_less:
  assumes "0 < x" "x < two_to k"
  shows "exponent_of x < k"
proof (rule ccontr)
  assume "\<not> exponent_of x < k"
  then have "two_to k \<le> two_to (exponent_of x)" by (intro two_to_mono) simp
  with exponent_of_le [OF assms(1)] assms(2) show False by linarith
qed

text \<open>A number of at most 53 bits is not rounded.\<close>

lemma fl_exact:
  assumes "\<bar>n\<bar> < 2 ^ 53"
  shows "fl (of_int n * two_to k) = of_int n * two_to k"
proof (cases "n = 0")
  case True
  then show ?thesis by (simp add: fl_def)
next
  case False
  let ?x = "of_int n * two_to k"
  let ?e = "exponent_of \<bar>?x\<bar> - 52"
  have ax: "\<bar>?x\<bar> = of_int \<bar>n\<bar> * two_to k" by (simp add: abs_mult less_imp_le)
  have "(of_int \<bar>n\<bar> :: rat) < of_int (2 ^ 53)" using assms by (simp only: of_int_less_iff)
  then have "\<bar>?x\<bar> < two_to 53 * two_to k" unfolding ax by (intro mult_strict_right_mono) (simp_all add: two_to_def)
  then have "exponent_of \<bar>?x\<bar> < 53 + k" using False by (intro exponent_of_less) (simp_all add: two_to_add)
  then have ge: "0 \<le> k - ?e" by simp
  have "?x / two_to ?e = of_int n * (two_to k / two_to ?e)" by simp
  also have "two_to k / two_to ?e = two_to (k - ?e)"
    using two_to_add [of "k - ?e" ?e] by (simp add: field_simps)
  also have "of_int n * two_to (k - ?e) = of_int (n * 2 ^ nat (k - ?e))" using ge by (simp add: two_to_def)
  finally have q: "?x / two_to ?e = of_int (n * 2 ^ nat (k - ?e))" .
  have "fl ?x = of_int (round_half_even (?x / two_to ?e)) * two_to ?e" using False by (simp add: fl_def Let_def)
  also have "\<dots> = ?x / two_to ?e * two_to ?e" by (simp only: q round_half_even_int)
  finally show ?thesis by simp
qed

section \<open>To double\<close>

lemma uint_of_int64: "0 \<le> k \<Longrightarrow> k < 2 ^ 64 \<Longrightarrow> uint (word_of_int k :: u64) = k"
  by (simp add: uint_word_of_int)

lemma sint_u32_bounds: "- (2 ^ 31) \<le> sint (f :: u32)" "sint (f :: u32) < 2 ^ 31"
  using sint_greater_eq [of f] sint_less [of f] by simp_all

lemma uint_field: "uint (take_bit n (drop_bit k (w :: u64))) = uint w div 2 ^ k mod 2 ^ n"
proof -
  have "uint (take_bit n (drop_bit k w)) = take_bit n (drop_bit k (uint w))"
    using take_bit_int_eq_self [of "uint w" 64] uint_lt2p [of w]
    by (simp only: unsigned_take_bit_eq unsigned_drop_bit_eq) simp
  then show ?thesis by (simp only: take_bit_eq_mod drop_bit_eq_div)
qed

lemma double_of_bits_int:
  assumes "0 < ex" "ex < 2047" "0 \<le> m" "m < 2 ^ 52"
  shows "double_of_bits (word_of_int (ex * 2 ^ 52 + m)) = Some (of_int (2 ^ 52 + m) * two_to (ex - 1075))"
proof -
  let ?k = "ex * 2 ^ 52 + m"
  have u: "uint (word_of_int ?k :: u64) = ?k" using assms by (intro uint_of_int64) simp_all
  have d: "?k div 2 ^ 52 = ex" "?k mod 2 ^ 52 = m" using assms by simp_all
  have "\<not> bit (word_of_int ?k :: u64) 63"
  proof -
    have "?k div 2 ^ 63 = 0" using assms by (intro div_pos_pos_trivial) simp_all
    then have "\<not> bit ?k 63" unfolding bit_iff_odd by simp
    then show ?thesis by (simp only: bit_word_of_int_iff) simp
  qed
  moreover have "uint (take_bit 11 (drop_bit 52 (word_of_int ?k :: u64))) = ex"
    unfolding uint_field u d(1) using assms by simp
  moreover have "uint (take_bit 52 (word_of_int ?k :: u64)) = m"
    unfolding unsigned_take_bit_eq u using d(2) by (simp only: take_bit_eq_mod)
  ultimately show ?thesis using assms by (simp add: double_of_bits_def Let_def)
qed

lemma fixed_to_double_value: "wl_fixed_to_double f = Some (of_int (sint f) / 256)"
proof -
  let ?m = "2 ^ 51 + sint f"
  have m: "0 \<le> ?m" "?m < 2 ^ 52" using sint_u32_bounds [of f] by simp_all
  have i: "push_bit 52 (1023 + 44) + push_bit 51 1 + scast f = (word_of_int (1067 * 2 ^ 52 + ?m) :: u64)"
    by (simp add: push_bit_eq_mult)
  have "wl_fixed_to_double f = Some (fl (of_int (2 ^ 52 + ?m) * two_to (1067 - 1075) - 3 * 2 ^ 43))"
    unfolding wl_fixed_to_double_def Let_def i using double_of_bits_int [of 1067 ?m] m by simp
  also have "of_int (2 ^ 52 + ?m) * two_to (1067 - 1075) - 3 * 2 ^ 43 = of_int (sint f) * two_to (- 8)"
    by (simp add: two_to_def field_simps)
  also have "fl \<dots> = of_int (sint f) * two_to (- 8)"
    using sint_u32_bounds [of f] by (intro fl_exact) simp
  finally show ?thesis by (simp add: two_to_def)
qed

section \<open>From double\<close>

lemma exponent_of_44:
  assumes "2 ^ 44 \<le> x" "x < 2 ^ 45"
  shows "exponent_of x = 44"
proof -
  have x: "1 \<le> x" "0 < x" using assms(1) by simp_all
  have "exponent_of x < 45" using x(2) assms(2) by (intro exponent_of_less) (simp_all add: two_to_def)
  moreover have "\<not> exponent_of x < 44"
  proof
    assume lt: "exponent_of x < 44"
    have n: "2 ^ 44 \<le> nat \<lfloor>x\<rfloor>" using assms(1) by (simp add: le_floor_iff nat_le_iff le_nat_iff)
    then have "nat \<lfloor>x\<rfloor> < 2 ^ floorlog 2 (nat \<lfloor>x\<rfloor>)" using x by (intro floorlog2_bounds) simp
    also have "\<dots> \<le> 2 ^ 44" using lt x by (intro power_increasing) (simp_all add: exponent_of_def)
    finally show False using n by simp
  qed
  ultimately show ?thesis by simp
qed

lemma round_half_even_add: "even k \<Longrightarrow> round_half_even (x + of_int k) = round_half_even x + k"
  by (simp add: round_half_even_def Let_def)

lemma round_half_even_near: "of_int (round_half_even x) - 1 / 2 \<le> x \<and> x \<le> of_int (round_half_even x) + 1 / 2"
proof -
  have "of_int \<lfloor>x\<rfloor> \<le> x" "x < of_int \<lfloor>x\<rfloor> + 1" by linarith+
  then show ?thesis by (simp add: round_half_even_def Let_def) linarith
qed

lemma low_half: "(ucast (word_of_int (k + 2 ^ 32 * n) :: u64) :: u32) = word_of_int k"
proof -
  have "(ucast (word_of_int (k + 2 ^ 32 * n) :: u64) :: u32) = word_of_int (take_bit 64 (k + 2 ^ 32 * n))"
    by (simp only: ucast_eq unsigned_of_int) simp
  also have "\<dots> = word_of_int k"
    by (simp only: word_of_int_eq_iff take_bit_take_bit) (simp add: take_bit_eq_mod)
  finally show ?thesis .
qed

lemma fixed_from_double_value:
  assumes "\<bar>d\<bar> < 2 ^ 43 - 1"
  shows "wl_fixed_from_double d = word_of_int (round_half_even (d * 256))"
proof -
  let ?s = "d + 3 * 2 ^ 43" and ?r = "round_half_even (d * 256)"
  have s: "2 ^ 44 \<le> ?s" "?s < 2 ^ 45" using assms by (simp_all add: abs_less_iff)
  have r: "\<bar>of_int ?r\<bar> < (2 ^ 51 :: rat)"
    using round_half_even_near [of "d * 256"] assms by (simp add: abs_less_iff)
  then have "of_int \<bar>?r\<bar> < (of_int (2 ^ 51) :: rat)" by simp
  then have ri: "\<bar>?r\<bar> < 2 ^ 51" by (simp only: of_int_less_iff)
  have "?s / two_to (44 - 52) = d * 256 + of_int (3 * 2 ^ 51)" by (simp add: two_to_def field_simps)
  then have rs: "round_half_even (?s / two_to (44 - 52)) = ?r + 3 * 2 ^ 51"
    using round_half_even_add [of "3 * 2 ^ 51" "d * 256"] by simp
  have fl: "fl ?s = of_int (?r + 3 * 2 ^ 51) * two_to (- 8)"
    using s rs exponent_of_44 [OF s] by (simp add: fl_def Let_def)
  have b: "2 ^ 44 \<le> fl ?s" "fl ?s < 2 ^ 45"
    using r unfolding fl by (simp_all add: two_to_def abs_less_iff)
  have "\<lfloor>fl ?s / two_to (44 - 52)\<rfloor> = ?r + 3 * 2 ^ 51"
    unfolding fl by simp
  then have "bits_of_double (fl ?s) = push_bit 52 1067 + word_of_int (?r + 3 * 2 ^ 51 - 2 ^ 52)"
    using b exponent_of_44 [OF b] by (simp add: bits_of_double_def Let_def)
  also have "push_bit 52 1067 + word_of_int (?r + 3 * 2 ^ 51 - 2 ^ 52) = (word_of_int (?r + 2 ^ 32 * 1119354880) :: u64)"
    by (simp add: push_bit_eq_mult algebra_simps)
  finally have "wl_fixed_from_double d = ucast (word_of_int (?r + 2 ^ 32 * 1119354880) :: u64)"
    by (simp add: wl_fixed_from_double_def)
  also have "\<dots> = word_of_int ?r" by (rule low_half)
  finally show ?thesis .
qed

section \<open>Printing\<close>

text \<open>Any double is printed within half a millionth.\<close>

lemma printf_f_near:
  fixes x :: rat
  defines "n \<equiv> nat (round_half_even (\<bar>x\<bar> * 1000000))"
  shows "\<bar>of_nat (n div 1000000) + of_nat (n mod 1000000) / 1000000 - \<bar>x\<bar>\<bar> \<le> 1 / 2000000"
proof -
  let ?r = "round_half_even (\<bar>x\<bar> * 1000000)"
  have near: "of_int ?r - 1 / 2 \<le> \<bar>x\<bar> * 1000000" "\<bar>x\<bar> * 1000000 \<le> of_int ?r + 1 / 2"
    using round_half_even_near [of "\<bar>x\<bar> * 1000000"] by simp_all
  have "- 1 / 2 \<le> (of_int ?r :: rat)" using near(2) abs_ge_zero [of x] by linarith
  then have r: "0 \<le> ?r" by linarith
  have "of_nat (n div 1000000) + of_nat (n mod 1000000) / 1000000 = (of_nat (n div 1000000 * 1000000 + n mod 1000000) / 1000000 :: rat)"
    by (simp only: of_nat_add of_nat_mult) (simp add: field_simps)
  also have "\<dots> = of_int ?r / 1000000" using r by (simp add: n_def of_nat_nat)
  finally have "of_nat (n div 1000000) + of_nat (n mod 1000000) / 1000000 = (of_int ?r / 1000000 :: rat)" .
  then show ?thesis using near unfolding abs_le_iff by linarith
qed

lemma round_signed: "round_half_even (signed (f :: u32)) = sint f"
  by (metis of_int_sint round_half_even_int)

lemma signed_sign:
  "(0 :: rat) \<le> signed f \<longleftrightarrow> 0 \<le> sint (f :: u32)" "(signed f :: rat) = 0 \<longleftrightarrow> sint f = 0"
  using of_int_0_le_iff [where ?'a = rat, of "sint f"] of_int_eq_0_iff [where ?'a = rat, of "sint f"]
  by (simp_all only: of_int_sint)

section \<open>Properties\<close>

text \<open>C19: The trick with the union is exact: for every 32-bit number it gives the number of 256ths, the
  way back returns the same number, and on any double below \<open>2 ^ 43\<close> the way back is rounding to the
  nearest 256th, ties to even, cut to 32 bits.\<close>

theorem fixed_double_exact:
  "wl_fixed_to_double f = Some (of_int (sint f) / 256) \<and>
   (\<bar>d\<bar> < 2 ^ 43 - 1 \<longrightarrow> wl_fixed_from_double d = word_of_int (round_half_even (d * 256))) \<and>
   map_option wl_fixed_from_double (wl_fixed_to_double f) = Some f"
proof (intro conjI impI)
  show v: "wl_fixed_to_double f = Some (of_int (sint f) / 256)" by (rule fixed_to_double_value)
  show "wl_fixed_from_double d = word_of_int (round_half_even (d * 256))" if "\<bar>d\<bar> < 2 ^ 43 - 1"
    using that by (rule fixed_from_double_value)
  have "(\<bar>of_int (sint f)\<bar> :: rat) \<le> of_int (2 ^ 31)"
    using sint_u32_bounds [of f] by (simp only: of_int_abs [symmetric] of_int_le_iff)
  then have "\<bar>of_int (sint f) / 256\<bar> < (2 ^ 43 - 1 :: rat)" by (simp add: abs_if split: if_splits)
  from fixed_from_double_value [OF this]
  show "map_option wl_fixed_from_double (wl_fixed_to_double f) = Some f"
    by (simp add: v round_signed)
qed

text \<open>The conversions to and from integers: every integer that can be represented comes back, and
  the conversion to an integer cuts the fraction off, towards zero.\<close>

theorem fixed_int_truncates:
  "(wl_fixed_from_int i = Some f \<longrightarrow> wl_fixed_to_int f = i) \<and>
   (\<exists>d. wl_fixed_to_double f = Some d \<and> wl_fixed_to_int f = (if 0 \<le> d then \<lfloor>d\<rfloor> else \<lceil>d\<rceil>))"
proof
  show "wl_fixed_from_int i = Some f \<longrightarrow> wl_fixed_to_int f = i"
  proof
    assume a: "wl_fixed_from_int i = Some f"
    then have f: "f = word_of_int (i * 256)" and b: "- (2 ^ 31) \<le> i * 256" "i * 256 < 2 ^ 31"
      by (auto simp: wl_fixed_from_int_def split: if_splits)
    have "sint f = i * 256" unfolding f using b by (simp only: signed_of_int) (simp add: signed_take_bit_int_eq_self)
    then show "wl_fixed_to_int f = i" by (simp add: wl_fixed_to_int_def abs_mult sgn_mult sgn_mult_abs)
  qed
  have "(if 0 \<le> sint f then sint f div 256 else - (- sint f div 256)) =
      (if 0 \<le> sint f then \<lfloor>of_int (sint f) / 256 :: rat\<rfloor> else \<lceil>of_int (sint f) / 256 :: rat\<rceil>)"
    using floor_divide_of_int_eq [of "sint f" 256, where 'a = rat] floor_divide_of_int_eq [of "- sint f" 256, where 'a = rat]
    by (simp add: ceiling_def)
  then show "\<exists>d. wl_fixed_to_double f = Some d \<and> wl_fixed_to_int f = (if 0 \<le> d then \<lfloor>d\<rfloor> else \<lceil>d\<rceil>)"
    unfolding fixed_to_double_value
    using signed_sign [of f] by (intro exI [of _ "of_int (sint f) / 256"] conjI refl) (auto simp: wl_fixed_to_int_def sgn_if)
qed

theorem fixed_double_exact_witness:
  "wl_fixed_from_double (1 / 3) = 85 \<and> wl_fixed_from_double (- (1 / 512)) = 0"
proof -
  have "\<lfloor>256 / 3 :: rat\<rfloor> = 85" "\<lfloor>- (1 / 2) :: rat\<rfloor> = - 1" by (simp_all add: floor_eq_iff)
  then have "round_half_even (1 / 3 * 256) = 85" "round_half_even (- (1 / 512) * 256) = 0"
    by (simp_all add: round_half_even_def Let_def)
  then show ?thesis
    using fixed_double_exact [of 0 "1 / 3"] fixed_double_exact [of 0 "- (1 / 512)"] by simp
qed

theorem fixed_int_truncates_witness: "wl_fixed_to_int (word_of_int (- 7 * 256)) = - 7 \<and> wl_fixed_to_int (- 1) = 0"
  using fixed_int_truncates [of "- 7" "word_of_int (- 7 * 256)"]
  by (simp add: wl_fixed_from_int_def wl_fixed_to_int_def)

end
