(* ===== verification/Print.thy ===== *)
theory Print
  imports Message_Args Fixed
begin

text \<open>
  Printing of messages: \<^verbatim>\<open>src/print.c\<close>.  The text that goes to the standard output is the result.

  The numbers behind the names of keys (\<^verbatim>\<open>linux/input.h\<close>), of the capabilities of a seat and of the
  drag-and-drop actions (generated by libwayland) are parameters, and so is whether libwayland is
  new enough to have the actions.
\<close>

unbundle bit_operations_syntax

section \<open>Environment\<close>

record dnd_actions =
  da_none :: u32
  da_copy :: u32
  da_move :: u32
  da_ask :: u32

record print_env =
  pe_server_mode :: "int option"
  pe_program :: "string option"
  pe_pid :: int
  pe_key :: "string \<Rightarrow> u32"
  pe_keyboard :: u32
  pe_pointer :: u32
  pe_touch :: u32
  pe_actions :: "dnd_actions option"

section \<open>Formatting\<close>

fun join :: "string \<Rightarrow> string list \<Rightarrow> string" where
  "join sep [] = ''''"
| "join sep [x] = x"
| "join sep (x # y # xs) = x @ sep @ join sep (y # xs)"

text \<open>\<^verbatim>\<open>%-*s\<close> and \<^verbatim>\<open>%04x\<close>.\<close>

definition pad_right :: "int \<Rightarrow> string \<Rightarrow> string" where
  "pad_right w s = s @ replicate (nat \<bar>w\<bar> - length s) (CHR '' '')"

definition hex4 :: "nat \<Rightarrow> string" where
  "hex4 n = replicate (4 - length (show_hex n)) (CHR ''0'') @ show_hex n"

text \<open>\<^verbatim>\<open>%f\<close> of \<open>wl_fixed_to_double\<close>, which is never an infinity (\<open>fixed_to_double_value\<close>).\<close>

definition show_fixed :: "u32 \<Rightarrow> string" where
  "show_fixed f = printf_f (the (wl_fixed_to_double f))"

section \<open>Keys, modifiers, capabilities, actions, states\<close>

definition key_names :: "string list" where
  "key_names =
   [''RESERVED'', ''ESC'', ''1'', ''2'', ''3'', ''4'', ''5'', ''6'', ''7'', ''8'', ''9'', ''0'', ''MINUS'',
    ''EQUAL'', ''BACKSPACE'', ''TAB'', ''Q'', ''W'', ''E'', ''R'', ''T'', ''Y'', ''U'', ''I'', ''O'', ''P'',
    ''LEFTBRACE'', ''RIGHTBRACE'', ''ENTER'', ''LEFTCTRL'', ''A'', ''S'', ''D'', ''F'', ''G'', ''H'', ''J'',
    ''K'', ''L'', ''SEMICOLON'', ''APOSTROPHE'', ''GRAVE'', ''LEFTSHIFT'', ''BACKSLASH'', ''Z'', ''X'',
    ''C'', ''V'', ''B'', ''N'', ''M'', ''COMMA'', ''DOT'', ''SLASH'', ''RIGHTSHIFT'', ''KPASTERISK'',
    ''LEFTALT'', ''SPACE'', ''CAPSLOCK'', ''F1'', ''F2'', ''F3'', ''F4'', ''F5'', ''F6'', ''F7'', ''F8'',
    ''F9'', ''F10'', ''NUMLOCK'', ''SCROLLLOCK'', ''KP7'', ''KP8'', ''KP9'', ''KPMINUS'', ''KP4'', ''KP5'',
    ''KP6'', ''KPPLUS'', ''KP1'', ''KP2'', ''KP3'', ''KP0'', ''KPDOT'', ''ZENKAKUHANKAKU'', ''102ND'',
    ''F11'', ''F12'', ''RO'', ''KATAKANA'', ''HIRAGANA'', ''HENKAN'', ''KATAKANAHIRAGANA'', ''MUHENKAN'',
    ''KPJPCOMMA'', ''KPENTER'', ''RIGHTCTRL'', ''KPSLASH'', ''SYSRQ'', ''RIGHTALT'', ''LINEFEED'', ''HOME'',
    ''UP'', ''PAGEUP'', ''LEFT'', ''RIGHT'', ''END'', ''DOWN'', ''PAGEDOWN'', ''INSERT'', ''DELETE'',
    ''MACRO'', ''MUTE'', ''VOLUMEDOWN'', ''VOLUMEUP'', ''POWER'', ''KPEQUAL'', ''KPPLUSMINUS'', ''PAUSE'',
    ''SCALE'', ''LEFTMETA'', ''RIGHTMETA'', ''COMPOSE'', ''STOP'', ''AGAIN'', ''PROPS'', ''UNDO'', ''FRONT'',
    ''COPY'', ''OPEN'', ''PASTE'', ''FIND'', ''CUT'', ''HELP'', ''MENU'', ''CALC'', ''SETUP'', ''SLEEP'',
    ''WAKEUP'', ''FILE'', ''SENDFILE'', ''DELETEFILE'', ''XFER'', ''PROG1'', ''PROG2'', ''WWW'', ''MSDOS'',
    ''SCREENLOCK'', ''DIRECTION'', ''CYCLEWINDOWS'', ''MAIL'', ''BOOKMARKS'', ''COMPUTER'', ''BACK'',
    ''FORWARD'', ''CLOSECD'', ''EJECTCD'', ''EJECTCLOSECD'', ''NEXTSONG'', ''PLAYPAUSE'', ''PREVIOUSSONG'',
    ''STOPCD'', ''RECORD'', ''REWIND'', ''PHONE'', ''ISO'', ''CONFIG'', ''HOMEPAGE'', ''REFRESH'', ''EXIT'',
    ''MOVE'', ''EDIT'', ''SCROLLUP'', ''SCROLLDOWN'', ''KPLEFTPAREN'', ''KPRIGHTPAREN'', ''NEW'', ''REDO'',
    ''F13'', ''F14'', ''F15'', ''F16'', ''F17'', ''F18'', ''F19'', ''F20'', ''F21'', ''F22'', ''F23'',
    ''F24'', ''PLAYCD'', ''PAUSECD'', ''PROG3'', ''PROG4'', ''DASHBOARD'', ''SUSPEND'', ''CLOSE'', ''PLAY'',
    ''FASTFORWARD'', ''BASSBOOST'', ''PRINT'', ''HP'', ''CAMERA'', ''SOUND'', ''QUESTION'', ''EMAIL'',
    ''CHAT'', ''SEARCH'', ''CONNECT'', ''FINANCE'', ''SPORT'', ''SHOP'', ''ALTERASE'', ''CANCEL'',
    ''BRIGHTNESSDOWN'', ''BRIGHTNESSUP'', ''MEDIA'', ''SWITCHVIDEOMODE'', ''KBDILLUMTOGGLE'',
    ''KBDILLUMDOWN'', ''KBDILLUMUP'', ''SEND'', ''REPLY'', ''FORWARDMAIL'', ''SAVE'', ''DOCUMENTS'',
    ''BATTERY'', ''BLUETOOTH'', ''WLAN'', ''UWB'', ''UNKNOWN'']"

definition print_key :: "print_env \<Rightarrow> u32 \<Rightarrow> string" where
  "print_key e p =
     (case find (\<lambda>k. pe_key e k = p) key_names of
        Some k \<Rightarrow> CHR 0x27 # k @ [CHR 0x27]
      | None \<Rightarrow> show_nat (unat p))"

definition MODIFIERS :: "string list" where
  "MODIFIERS = [''SHIFT'', ''CAPS'', ''CTRL'', ''ALT'', ''MOD2'', ''MOD3'', ''MOD4'', ''MOD5'']"

definition modifier :: "nat \<Rightarrow> string" where
  "modifier i = (if i < length MODIFIERS then MODIFIERS ! i else ''0x'' @ show_hex (2 ^ i))"

definition print_modifiers :: "u32 \<Rightarrow> string" where
  "print_modifiers p = join ''|'' [modifier i. i \<leftarrow> [0..<32], p AND push_bit i 1 \<noteq> 0]"

text \<open>The functions below give \<open>None\<close> when they print nothing and return 0.\<close>

definition print_wl_keyboard_message :: "print_env \<Rightarrow> string \<Rightarrow> string \<Rightarrow> nat \<Rightarrow> u32 \<Rightarrow> string option" where
  "print_wl_keyboard_message e iface name pos p =
     (if iface \<noteq> ''wl_keyboard'' then None
      else if name = ''modifiers'' then
        if pos = 2 \<or> pos = 6 \<or> p = 0 then None else Some (print_modifiers p)
      else if name = ''key'' then
        if pos = 5 then Some (if p = 1 then ''press'' else ''release'')
        else if pos = 4 then Some (print_key e p)
        else None
      else None)"

definition print_wl_seat_message :: "print_env \<Rightarrow> string \<Rightarrow> string \<Rightarrow> u32 \<Rightarrow> string option" where
  "print_wl_seat_message e iface name p =
     (if iface \<noteq> ''wl_seat'' then None
      else if name = ''capabilities'' then
        let caps = (if p AND pe_keyboard e \<noteq> 0 then [''keyboard''] else []) @
                   (if p AND pe_pointer e \<noteq> 0 then [''pointer''] else []) @
                   (if p AND pe_touch e \<noteq> 0 then [''touch''] else [])
        in Some (if caps = [] then ''none'' else join '' | '' caps)
      else None)"

definition print_actions :: "dnd_actions \<Rightarrow> u32 \<Rightarrow> string" where
  "print_actions a act =
     (if act = da_none a then ''none''
      else
        join ''|''
          ((if act AND da_copy a \<noteq> 0 then [''copy''] else []) @
           (if act AND da_move a \<noteq> 0 then [''move''] else []) @
           (if act AND da_ask a \<noteq> 0 then [''ask''] else [])))"

definition print_wl_data_source_message ::
    "dnd_actions \<Rightarrow> string \<Rightarrow> string \<Rightarrow> nat \<Rightarrow> u32 \<Rightarrow> string option res" where
  "print_wl_data_source_message a iface name pos p =
     (if iface \<noteq> ''wl_data_source'' then Inr None
      else if name = ''action'' \<or> name = ''set_actions'' then
        rbind (rassert (pos = 0)) (\<lambda>_. Inr (Some (print_actions a p)))
      else Inr None)"

definition print_wl_data_offer_message ::
    "dnd_actions \<Rightarrow> string \<Rightarrow> string \<Rightarrow> nat \<Rightarrow> u32 \<Rightarrow> string option res" where
  "print_wl_data_offer_message a iface name pos p =
     (if iface \<noteq> ''wl_data_offer'' then Inr None
      else if name = ''action'' then rbind (rassert (pos = 0)) (\<lambda>_. Inr (Some (print_actions a p)))
      else if name = ''set_actions'' then rbind (rassert (pos \<le> 1)) (\<lambda>_. Inr (Some (print_actions a p)))
      else if name = ''source_actions'' then rbind (rassert (pos = 0)) (\<lambda>_. Inr (Some (print_actions a p)))
      else Inr None)"

definition surface_state_name :: "u32 \<Rightarrow> string" where
  "surface_state_name w =
     (if w = 1 then ''maximized'' else if w = 2 then ''fullscreen'' else if w = 3 then ''resizing''
      else if w = 4 then ''activated'' else ''unknown'')"

text \<open>\<open>data[0]\<close>, \dots, \<open>data[n - 1]\<close>.\<close>

fun load_words :: "bytes \<Rightarrow> nat \<Rightarrow> nat \<Rightarrow> u32 list res" where
  "load_words m d 0 = Inr []"
| "load_words m d (Suc n) = rbind (load32 m d) (\<lambda>w. rbind (load_words m (d + 4) n) (\<lambda>ws. Inr (w # ws)))"

definition print_xdg_surface_message ::
    "bytes \<Rightarrow> string \<Rightarrow> string \<Rightarrow> nat \<Rightarrow> nat \<Rightarrow> nat \<Rightarrow> string option res" where
  "print_xdg_surface_message m iface name pos d len =
     (if iface \<noteq> ''xdg_surface'' then Inr None
      else if pos = 2 \<and> name = ''configure'' then
        rbind (load_words m d len) (\<lambda>ws.
          Inr (Some (if ws = [] then ''none'' else join ''|'' (map surface_state_name ws))))
      else Inr None)"

definition print_array :: "bytes \<Rightarrow> nat option \<Rightarrow> nat \<Rightarrow> nat \<Rightarrow> string res" where
  "print_array m p len howmany =
     (if len = 0 then Inr ''(nil)''
      else
        case p of
          None \<Rightarrow> Inl NullDeref
        | Some d \<Rightarrow>
            rbind (load_words m d (min howmany len)) (\<lambda>ws.
              Inr (''['' @ join '' '' (map (\<lambda>w. hex4 (unat w)) ws) @ (if howmany < len then '' ...'' else '''') @ '']'')))"

definition print_id :: "u32 \<Rightarrow> string" where
  "print_id i =
     (if WL_SERVER_ID_START \<le> i then ''SRV'' @ show_int (sint (i - WL_SERVER_ID_START)) else show_int (sint i))"

section \<open>Arguments\<close>

definition data_word :: "bytes \<Rightarrow> resolved_arg \<Rightarrow> u32 res" where
  "data_word m a = (case arg_data a of None \<Rightarrow> Inl NullDeref | Some d \<Rightarrow> load32 m d)"

text \<open>What is printed for an unsigned argument.\<close>

definition print_uint :: "print_env \<Rightarrow> string \<Rightarrow> string \<Rightarrow> nat \<Rightarrow> u32 \<Rightarrow> string res" where
  "print_uint e iface name pos w =
     (case print_wl_keyboard_message e iface name (pos + 2) w of
        Some s \<Rightarrow> Inr s
      | None \<Rightarrow>
          (case print_wl_seat_message e iface name w of
             Some s \<Rightarrow> Inr s
           | None \<Rightarrow>
               (case pe_actions e of
                  None \<Rightarrow> Inr (show_nat (unat w))
                | Some a \<Rightarrow>
                    rbind (print_wl_data_source_message a iface name pos w) (\<lambda>r.
                      case r of
                        Some s \<Rightarrow> Inr s
                      | None \<Rightarrow>
                          rbind (print_wl_data_offer_message a iface name pos w) (\<lambda>r.
                            case r of Some s \<Rightarrow> Inr s | None \<Rightarrow> Inr (show_nat (unat w)))))))"

definition type_name :: "imem \<Rightarrow> wl_message \<Rightarrow> nat \<Rightarrow> string res" where
  "type_name im wm pos =
     (case wlm_types wm of
        None \<Rightarrow> Inl NullDeref
      | Some ts \<Rightarrow>
          rbind (nth_res ts pos) (\<lambda>t.
            Inr (case t of None \<Rightarrow> ''[unknown]'' | Some p \<Rightarrow> intf_name (intf_at im p))))"

definition print_arg ::
    "print_env \<Rightarrow> imem \<Rightarrow> resolved_objects option \<Rightarrow> bytes \<Rightarrow> string \<Rightarrow> wl_message \<Rightarrow> nat \<Rightarrow> resolved_arg \<Rightarrow> string res" where
  "print_arg e im ro m iface wm pos a =
     (if arg_type a = CHR ''u'' then rbind (data_word m a) (\<lambda>w. print_uint e iface (wlm_name wm) pos w)
      else if arg_type a = CHR ''i'' then rbind (data_word m a) (\<lambda>w. Inr (show_int (sint w)))
      else if arg_type a = CHR ''f'' then rbind (data_word m a) (\<lambda>w. Inr (show_fixed w))
      else if arg_type a = CHR ''s'' then
        (case arg_data a of
           None \<Rightarrow> Inr ([CHR ''0'', CHR '':'', CHR 0x22, CHR 0x22])
         | Some d \<Rightarrow>
             rbind (load32 m (d - 4)) (\<lambda>n.
             rbind (c_str (drop d m)) (\<lambda>s.
               Inr (show_nat (unat n) @ '':'' @ [CHR 0x22] @ s @ [CHR 0x22]))))
      else if arg_type a = CHR ''o'' then
        rbind (data_word m a) (\<lambda>w.
          Inr (case wldbg_message_get_object ro w of
                 None \<Rightarrow> ''nil''
               | Some p \<Rightarrow> intf_name (intf_at im p) @ ''@'' @ print_id w))
      else if arg_type a = CHR ''n'' then
        rbind (type_name im wm pos) (\<lambda>t.
        rbind (data_word m a) (\<lambda>w.
          Inr (''new id '' @ t @ ''@'' @ (if w \<noteq> 0 then print_id w else ''nil''))))
      else if arg_type a = CHR ''a'' then
        rbind (case arg_data a of
                 None \<Rightarrow> Inr 0
               | Some d \<Rightarrow> rbind (load32 m (d - 4)) (\<lambda>n. Inr (div_roundup4 (unat n)))) (\<lambda>len.
        rbind (case arg_data a of
                 None \<Rightarrow> Inr None
               | Some d \<Rightarrow> if len = 0 then Inr None else print_xdg_surface_message m iface (wlm_name wm) pos d len) (\<lambda>r.
          case r of
            Some s \<Rightarrow> Inr s
          | None \<Rightarrow> rbind (print_array m (arg_data a) len 8) (\<lambda>s. Inr (''array:'' @ s))))
      else if arg_type a = CHR ''h'' then Inr ''fd''
      else Inr '''')"

section \<open>Messages\<close>

definition WL_CLOSURE_MAX_ARGS :: nat where
  "WL_CLOSURE_MAX_ARGS = 20"

text \<open>The loop over the arguments; behind the last argument that is printed the loop has already written
  the comma.\<close>

function print_args ::
    "print_env \<Rightarrow> imem \<Rightarrow> resolved_objects option \<Rightarrow> bytes \<Rightarrow> string \<Rightarrow> wl_message \<Rightarrow> nat \<Rightarrow> resolved_message \<Rightarrow> string res" where
  "print_args e im ro m iface wm pos rm =
     rbind (wldbg_resolved_message_next_argument m rm) (\<lambda>(a, rm').
       case a of
         None \<Rightarrow> Inr ''''
       | Some a \<Rightarrow>
           let sep = (if 0 < pos then '', '' else '''') in
           if WL_CLOSURE_MAX_ARGS \<le> pos then Inr sep
           else
             rbind (print_arg e im ro m iface wm pos a) (\<lambda>s.
             rbind (print_args e im ro m iface wm (pos + 1) rm') (\<lambda>rest. Inr (sep @ s @ rest))))"
  by pat_completeness auto

termination
  by (relation "measure (\<lambda>(e, im, ro, m, iface, wm, pos, rm). WL_CLOSURE_MAX_ARGS - pos)") auto

declare print_args.simps [simp del]

definition print_client :: "print_env \<Rightarrow> string" where
  "print_client e =
     (case pe_server_mode e of
        None \<Rightarrow> ''''
      | Some w \<Rightarrow>
          (case pe_program e of
             Some prog \<Rightarrow> ''['' @ pad_right w prog @ '' |'' @ pad_right 5 (show_int (pe_pid e)) @ ''] ''
           | None \<Rightarrow> ''[? |'' @ pad_right 5 (show_int (pe_pid e)) @ ''] ''))"

definition print_opcode :: "parsed_message \<Rightarrow> string" where
  "print_opcode b =
     ''[opcode '' @ show_nat (unat (pm_opcode b)) @ ''][size '' @ show_nat (unat (pm_size b)) @ ''B]'' @ [CHR 0x0A]"

definition wldbg_message_print ::
    "print_env \<Rightarrow> imem \<Rightarrow> resolved_objects option \<Rightarrow> side \<Rightarrow> bytes \<Rightarrow> string res" where
  "wldbg_message_print e im ro from m =
     (let start = print_client e @ (case from of SERVER \<Rightarrow> ''S'' | CLIENT \<Rightarrow> ''C'') @ '': '' in
      rbind (wldbg_resolve_message im ro from m) (\<lambda>(ok, rm).
        if \<not> ok then
          rbind (wldbg_parse_message m) (\<lambda>(parsed, base).
            Inr (start @
              (if \<not> parsed then ''_failed_parsing_message_'' @ [CHR 0x0A]
               else ''unknown@'' @ print_id (pm_id base) @ ''.'' @ print_opcode base)))
        else
          (case (rm_interface rm, rm_message rm) of
             (Some p, Some wm) \<Rightarrow>
               let intf = intf_at im p; base = rm_base rm;
                   start = start @ intf_name intf @ ''@'' @ print_id (pm_id base) @ ''.''
               in if (word_of_int (side_count from intf) :: u32) \<le> pm_opcode base then
                    Inr (start @ ''_buggy '' @ (case from of SERVER \<Rightarrow> ''event'' | CLIENT \<Rightarrow> ''request'') @ ''_'' @
                         print_opcode base)
                  else
                    rbind (print_args e im ro m (intf_name intf) wm 0 rm) (\<lambda>args.
                      Inr (start @ wlm_name wm @ ''('' @ args @ '')'' @ [CHR 0x0A]))
           | _ \<Rightarrow> Inl NullDeref)))"

end
