(* ===== verification/Print_Facts.thy ===== *)
theory Print_Facts
  imports Print
begin

text \<open>
  What printing shows: for every message of a known object, encoded as a sender does, the printed line
  is a function of the values that were sent.
\<close>

section \<open>Values\<close>

text \<open>The text of one value.\<close>

definition array_text :: "u32 list \<Rightarrow> string" where
  "array_text ws =
     (if ws = [] then ''(nil)''
      else ''['' @ join '' '' (map (\<lambda>w. hex4 (unat w)) (take 8 ws)) @ (if 8 < length ws then '' ...'' else '''') @ '']'')"

definition value_text ::
    "print_env \<Rightarrow> imem \<Rightarrow> resolved_objects option \<Rightarrow> string \<Rightarrow> wl_message \<Rightarrow> nat \<Rightarrow> char \<Rightarrow> wire_arg \<Rightarrow> string res" where
  "value_text e im ro iface wm pos c a =
     (case a of
        WWord w \<Rightarrow>
          if c = CHR ''u'' then print_uint e iface (wlm_name wm) pos w
          else if c = CHR ''i'' then Inr (show_int (sint w))
          else if c = CHR ''f'' then Inr (show_fixed w)
          else if c = CHR ''o'' then
            Inr (case wldbg_message_get_object ro w of
                   None \<Rightarrow> ''nil''
                 | Some p \<Rightarrow> intf_name (intf_at im p) @ ''@'' @ print_id w)
          else rbind (type_name im wm pos) (\<lambda>t. Inr (''new id '' @ t @ ''@'' @ (if w \<noteq> 0 then print_id w else ''nil'')))
      | WBlob bs \<Rightarrow>
          if c = CHR ''s'' then
            rbind (if bs = [] then Inr '''' else c_str bs) (\<lambda>s.
              Inr (show_nat (length bs) @ '':'' @ [CHR 0x22] @ s @ [CHR 0x22]))
          else
            rbind (load_words bs 0 (length bs div 4)) (\<lambda>ws.
              Inr (if iface = ''xdg_surface'' \<and> wlm_name wm = ''configure'' \<and> pos = 2 \<and> ws \<noteq> []
                   then join ''|'' (map surface_state_name ws) else ''array:'' @ array_text ws)))"

text \<open>Strings end with a nul, arrays hold words.\<close>

definition printable :: "char \<times> bool \<Rightarrow> wire_arg \<Rightarrow> bool" where
  "printable t a \<longleftrightarrow>
     wire_fits t a \<and>
     (case a of WWord _ \<Rightarrow> True
      | WBlob bs \<Rightarrow> if fst t = CHR ''s'' then bs = [] \<or> 0 \<in> set bs else length bs mod 4 = 0)"

text \<open>What is printed for an argument that reads as \<open>r\<close>: a descriptor is not read, and the type of
  a new object is looked up before its id.\<close>

definition read_text ::
    "print_env \<Rightarrow> imem \<Rightarrow> resolved_objects option \<Rightarrow> string \<Rightarrow> wl_message \<Rightarrow> nat \<Rightarrow> char \<Rightarrow> wire_arg res \<Rightarrow> string res" where
  "read_text e im ro iface wm pos c r =
     (if c = CHR ''h'' then Inr ''fd''
      else rbind (if c = CHR ''n'' then type_name im wm pos else Inr '''') (\<lambda>_.
           rbind r (value_text e im ro iface wm pos c)))"

fun texts ::
    "print_env \<Rightarrow> imem \<Rightarrow> resolved_objects option \<Rightarrow> string \<Rightarrow> wl_message \<Rightarrow> nat \<Rightarrow> (char \<times> bool) list \<Rightarrow> wire_arg res list \<Rightarrow> string list res" where
  "texts e im ro iface wm pos (t # ts) (r # rs) =
     rbind (read_text e im ro iface wm pos (fst t) r) (\<lambda>s.
     rbind (texts e im ro iface wm (pos + 1) ts rs) (\<lambda>ss. Inr (s # ss)))"
| "texts e im ro iface wm pos _ _ = Inr []"

section \<open>One argument\<close>

lemma c_str_append: "0 \<in> set bs \<Longrightarrow> c_str (bs @ r) = c_str bs"
  by (induction bs) auto

lemma load_words_drop: "load_words m (d + k) n = load_words (drop d m) k n"
  by (induction n arbitrary: k) (simp_all add: load32_drop add.assoc)

lemma load_words_take: "k + 4 * n \<le> l \<Longrightarrow> l \<le> length m \<Longrightarrow> load_words (take l m) k n = load_words m k n"
  by (induction n arbitrary: k) (simp_all add: load32_take)

lemma load_words_length: "load_words m d n = Inr ws \<Longrightarrow> length ws = n"
  by (induction n arbitrary: d ws) (auto simp: rbind_eq_Inr)

lemma load_words_prefix:
  "load_words m d n = Inr ws \<Longrightarrow> k \<le> n \<Longrightarrow> load_words m d k = Inr (take k ws)"
proof (induction n arbitrary: d k ws)
  case (Suc n)
  then show ?case by (cases k) (auto simp: rbind_eq_Inr)
qed simp

lemma load_words_in: "d + 4 * n \<le> length m \<Longrightarrow> \<exists>ws. load_words m d n = Inr ws"
proof (induction n arbitrary: d)
  case (Suc n)
  then obtain w where "load32 m d = Inr w" using load32_in [of d m] by auto
  then show ?case using Suc.IH [of "d + 4"] Suc.prems by auto
qed simp

lemma next_argument_data:
  assumes "wldbg_resolved_message_next_argument m rm = Inr (Some a, rm')"
  shows "\<exists>pos. get_data_ptr m (arg_type a) pos = Inr (arg_data a)"
  using assms
  by (auto simp: wldbg_resolved_message_next_argument_def initialize_iterator_def rbind_eq_Inr Let_def
      split: option.splits list.splits prod.splits if_splits)

lemma blob_data:
  assumes "read_arg m a = Inr (WBlob bs)" "get_data_ptr m (arg_type a) pos = Inr (arg_data a)"
  obtains (absent) "arg_data a = None" "bs = []"
  | (present) d n where "arg_data a = Some d" "load32 m (d - 4) = Inr n" "unat n = length bs" "bs \<noteq> []"
      "d + length bs \<le> length m" "drop d m = bs @ drop (d + length bs) m"
proof (cases "arg_data a")
  case None
  then show ?thesis using assms(1) absent by (auto simp: read_arg_def split: if_splits)
next
  case (Some d)
  obtain n where n: "load32 m (d - 4) = Inr n" "d + unat n \<le> length m" "bs = take (unat n) (drop d m)"
    "arg_type a = CHR ''s'' \<or> arg_type a = CHR ''a''"
    using assms(1) Some by (auto simp: read_arg_def rbind_eq_Inr split: if_splits)
  have "d = pos + 4" "n \<noteq> 0" using assms(2) n(1,4) Some by (auto simp: get_data_ptr_def rbind_eq_Inr split: if_splits)
  then have "unat n \<noteq> 0" by (simp add: unat_eq_0)
  moreover have len: "length bs = unat n" using n(2,3) by simp
  moreover have "drop d m = bs @ drop (d + length bs) m"
    using append_take_drop_id [of "unat n" "drop d m"] n(3) len by (simp add: add.commute)
  ultimately show ?thesis using present [OF Some n(1)] n(2) by fastforce
qed

lemma print_array_words:
  assumes "load_words m d len = Inr ws"
  shows "print_array m (Some d) len 8 = Inr (array_text ws)"
proof -
  have "length ws = len" by (rule load_words_length [OF assms])
  moreover have "load_words m d (min 8 len) = Inr (take 8 ws)"
    using load_words_prefix [OF assms, of "min 8 len"] \<open>length ws = len\<close> by (simp add: min_def)
  ultimately show ?thesis by (auto simp: print_array_def array_text_def)
qed

lemma print_string:
  assumes "arg_type a = CHR ''s''" "read_arg m a = Inr (WBlob bs)" "bs = [] \<or> 0 \<in> set bs"
    and "get_data_ptr m (arg_type a) pos' = Inr (arg_data a)"
  shows "print_arg e im ro m iface wm pos a = value_text e im ro iface wm pos (CHR ''s'') (WBlob bs)"
  using assms(2,4)
proof (cases rule: blob_data)
  case absent
  have "show_nat 0 = ''0''" by (simp add: show_nat_def show_base.simps digit_char_def char_of_def bit_0)
  then show ?thesis using assms(1) absent by (simp add: print_arg_def value_text_def)
next
  case (present d n)
  have "c_str (drop d m) = c_str bs" using present(4,6) assms(3) c_str_append by metis
  then show ?thesis using assms(1) present by (simp add: print_arg_def value_text_def)
qed

lemma print_words:
  assumes "arg_type a = CHR ''a''" "read_arg m a = Inr (WBlob bs)" "length bs mod 4 = 0"
    and "get_data_ptr m (arg_type a) pos' = Inr (arg_data a)"
  shows "print_arg e im ro m iface wm pos a = value_text e im ro iface wm pos (CHR ''a'') (WBlob bs)"
  using assms(2,4)
proof (cases rule: blob_data)
  case absent
  then show ?thesis using assms(1) by (simp add: print_arg_def value_text_def print_array_def array_text_def)
next
  case (present d n)
  have len: "div_roundup4 (length bs) = length bs div 4" "length bs div 4 \<noteq> 0" "4 * (length bs div 4) = length bs"
    using assms(3) present(4) unfolding div_roundup4_def by (auto simp: div_eq_0_iff)
  obtain ws where ws: "load_words bs 0 (length bs div 4) = Inr ws"
    using load_words_in [of 0 "length bs div 4" bs] len(3) by auto
  have "load_words m d (length bs div 4) = load_words (drop d m) 0 (length bs div 4)" using load_words_drop [of m d 0] by simp
  also have "\<dots> = load_words bs 0 (length bs div 4)"
    using load_words_take [of 0 "length bs div 4" "length bs" "drop d m"] len(3) present(5,6) by simp
  finally have m: "load_words m d (length bs div 4) = Inr ws" using ws by simp
  have "ws \<noteq> []" using load_words_length [OF ws] len(2) by auto
  then show ?thesis
    using assms(1) present len ws m print_array_words [OF m]
    by (simp add: print_arg_def value_text_def print_xdg_surface_message_def)
qed

lemma print_arg_word:
  assumes "arg_type a \<in> set ''uifonh''"
  shows "print_arg e im ro m iface wm pos a = read_text e im ro iface wm pos (arg_type a) (read_arg m a)"
proof -
  have "read_arg m a = rbind (data_word m a) (\<lambda>w. Inr (WWord w))"
    using assms by (auto simp: read_arg_def data_word_def split: option.splits)
  then show ?thesis using assms by (auto simp: print_arg_def read_text_def value_text_def rbind_assoc intro!: rbind_cong)
qed

definition shown :: "char \<times> bool \<Rightarrow> wire_arg res \<Rightarrow> bool" where
  "shown t r \<longleftrightarrow> fst t \<in> set ''uifonh'' \<or> (\<exists>v. r = Inr v \<and> printable t v)"

lemma print_arg_read:
  assumes "arg_type a = fst t" "shown t (read_arg m a)" "get_data_ptr m (arg_type a) pos' = Inr (arg_data a)"
  shows "print_arg e im ro m iface wm pos a = read_text e im ro iface wm pos (fst t) (read_arg m a)"
proof (cases "fst t \<in> set ''uifonh''")
  case True
  then show ?thesis using print_arg_word assms(1) by metis
next
  case False
  then obtain v where v: "read_arg m a = Inr v" "printable t v" using assms(2) by (auto simp: shown_def)
  then obtain bs where bs: "v = WBlob bs" "fst t = CHR ''s'' \<or> fst t = CHR ''a''"
    using False by (cases v) (auto simp: printable_def wire_fits_def)
  then show ?thesis
    using v assms print_string [of a m bs pos'] print_words [of a m bs pos'] by (auto simp: printable_def read_text_def)
qed

lemma printable_carried:
  "list_all2 (\<lambda>t v. case v of None \<Rightarrow> fst t = CHR ''h'' | Some a \<Rightarrow> printable t a) ts vs \<Longrightarrow> list_all2 sent_fits ts vs"
  by (erule list_all2_mono) (auto simp: sent_fits_def printable_def split: option.splits)

lemma sent_shown:
  assumes "list_all2 (\<lambda>t v. case v of None \<Rightarrow> fst t = CHR ''h'' | Some a \<Rightarrow> printable t a) ts vs" "word_tail vs"
  shows "list_all2 shown ts (seen vs post)"
  using assms
proof (induction rule: list_all2_induct)
  case (Cons t ts v vs)
  show ?case
  proof (cases v)
    case None
    have "list_all2 sent_fits (t # ts) (v # vs)" using Cons.hyps None printable_carried [OF Cons.hyps(2)] by (simp add: sent_fits_def)
    then have "list_all (\<lambda>t. fst t \<in> set ''uifonh'') (t # ts)" "length (t # ts) = length (seen (v # vs) post)"
      using sent_word_types [of "t # ts" "v # vs"] Cons.prems None list_all2_lengthD [OF Cons.hyps(2)]
      by (simp_all add: word_tail_def seen_def Let_def)
    then show ?thesis by (auto simp: list_all2_conv_all_nth list_all_length shown_def)
  next
    case (Some a)
    then show ?thesis using Cons by (simp add: seen_Some shown_def word_tail_def)
  qed
qed (simp add: seen_def)

section \<open>All arguments\<close>

lemma join_Cons: "join sep (x # xs) = x @ (if xs = [] then '''' else sep @ join sep xs)"
  by (cases xs) simp_all

lemma print_args_texts:
  assumes "reads m rm args" "map arg_type args = map fst ts" "map (read_arg m) args = rs"
    and "list_all2 shown ts rs" "pos + length rs \<le> WL_CLOSURE_MAX_ARGS"
  shows "print_args e im ro m iface wm pos rm =
    rbind (texts e im ro iface wm pos ts rs) (\<lambda>ss.
      Inr (if ss = [] then '''' else (if 0 < pos then '', '' else '''') @ join '', '' ss))"
  using assms
proof (induction args arbitrary: rm ts rs pos)
  case Nil
  then show ?case by (auto simp: print_args.simps [of _ _ _ _ _ _ _ rm])
next
  case (Cons a args)
  obtain t ts' rs' where s: "ts = t # ts'" "rs = read_arg m a # rs'" "arg_type a = fst t"
    using Cons.prems(2,3) by auto
  obtain rm' where rm': "wldbg_resolved_message_next_argument m rm = Inr (Some a, rm')" "reads m rm' args"
    using Cons.prems(1) by auto
  obtain p where p: "get_data_ptr m (arg_type a) p = Inr (arg_data a)" using next_argument_data [OF rm'(1)] by blast
  have v: "print_arg e im ro m iface wm pos a = read_text e im ro iface wm pos (fst t) (read_arg m a)"
    using print_arg_read [OF s(3) _ p] Cons.prems(4) s(1,2) by simp
  have ih: "print_args e im ro m iface wm (pos + 1) rm' =
    rbind (texts e im ro iface wm (pos + 1) ts' rs') (\<lambda>ss. Inr (if ss = [] then '''' else '', '' @ join '', '' ss))"
    using Cons.IH [OF rm'(2), of ts' rs' "pos + 1"] Cons.prems s(1,2) by simp
  have lt: "\<not> WL_CLOSURE_MAX_ARGS \<le> pos" using Cons.prems(5) s(2) by simp
  show ?case
    unfolding print_args.simps [of _ _ _ _ _ _ _ rm]
    using rm'(1) v ih lt s(1,2) by (simp add: rbind_assoc join_Cons Let_def)
qed

text \<open>The check for messages beyond the table never applies: such a message does not resolve.\<close>

lemma resolved_not_buggy:
  assumes "wldbg_resolve_message im ro sd m = Inr (True, rm)" "rm_interface rm = Some p"
  shows "\<not> word_of_int (side_count sd (intf_at im p)) \<le> pm_opcode (rm_base rm)"
  using assms by (auto simp: wldbg_resolve_message_def rbind_eq_Inr Let_def zero_resolved_def split: if_splits)

section \<open>Properties\<close>

text \<open>C14: Printing a message of a known object with at most 20 arguments writes its side, interface,
  id and name, and between the parentheses the texts of what the argument iterator reads, separated by
  commas: up to the first file descriptor the texts of exactly the values the sender encoded, whatever
  follows the message in memory.  A descriptor is shown as \<open>fd\<close>, and behind it the line shows wrong
  values, each argument as the word one further for each descriptor before it and the last ones as
  words behind the message.  Printing faults only where the text of a value does or the memory ends.\<close>

theorem message_print_shows_values:
  assumes "8 + length (wire_body (carried vs)) < 2 ^ 16" "opcode < 2 ^ 16"
    and "wldbg_message_get_object (Some ro) oid = Some p"
    and "is_valid_interface im (Some p)" "imem_wf im"
    and "opcode < word_of_int (side_count sd (intf_at im p))"
    and "side_messages sd (intf_at im p) ! unat opcode = wm"
    and "wlm_signature wm = Some sg" "nul \<notin> set sg"
    and "list_all2 (\<lambda>t v. case v of None \<Rightarrow> fst t = CHR ''h'' | Some a \<Rightarrow> printable t a) (sig_args sg False) vs"
    and "word_tail vs" "length vs \<le> WL_CLOSURE_MAX_ARGS"
  shows "wldbg_message_print e im (Some ro) sd (message_bytes oid opcode (carried vs) @ post) =
    rbind (texts e im (Some ro) (intf_name (intf_at im p)) wm 0 (sig_args sg False)
      (if None \<notin> set vs then map (\<lambda>v. Inr (the v)) vs
       else map (\<lambda>v. Inr (the v)) (takeWhile (\<lambda>v. v \<noteq> None) vs) @
         map (behind_descriptor (carried (dropWhile (\<lambda>v. v \<noteq> None) vs)) post)
           [0..<length (dropWhile (\<lambda>v. v \<noteq> None) vs)])) (\<lambda>ss.
      Inr (print_client e @ (case sd of SERVER \<Rightarrow> ''S: '' | CLIENT \<Rightarrow> ''C: '') @ intf_name (intf_at im p) @ ''@'' @
           print_id oid @ ''.'' @ wlm_name wm @ ''('' @ join '', '' ss @ '')'' @ [CHR 0x0A]))"
proof -
  let ?m = "message_bytes oid opcode (carried vs) @ post"
  have sig: "wlm_signature (side_messages sd (intf_at im p) ! unat opcode) = Some sg" using assms(7,8) by simp
  obtain rm args rm' where r: "wldbg_resolve_message im (Some ro) sd ?m = Inr (True, rm)"
    "pm_id (rm_base rm) = oid" "wldbg_resolved_message_reset_iterator rm = rm" "rm_interface rm = Some p" "rm_message rm = Some wm"
    "all_arguments (Suc (length sg)) ?m (wldbg_resolved_message_reset_iterator rm) = Some (Inr (args, rm'))"
    "map (\<lambda>a. (arg_type a, arg_nullable a)) args = sig_args sg False" "map (read_arg ?m) args = seen vs post"
    using resolve_and_drain_sent [OF assms(1-6) sig assms(9) printable_carried [OF assms(10)] assms(11), of post]
    unfolding assms(7) by (elim exE conjE) (rule that)
  have types: "map arg_type args = map fst (sig_args sg False)" by (simp flip: r(7))
  have start: "reads ?m rm args" using all_arguments_reads [OF r(6)] unfolding r(3) .
  have n: "length (seen vs post) \<le> WL_CLOSURE_MAX_ARGS"
    using arg_cong [OF r(8), of length] arg_cong [OF r(7), of length] list_all2_lengthD [OF assms(10)] assms(12) by simp
  have "print_args e im (Some ro) ?m (intf_name (intf_at im p)) wm 0 rm =
    rbind (texts e im (Some ro) (intf_name (intf_at im p)) wm 0 (sig_args sg False) (seen vs post)) (\<lambda>ss. Inr (join '', '' ss))"
    unfolding print_args_texts [OF start types r(8) sent_shown [OF assms(10,11)], of 0, simplified, OF n] by (rule rbind_cong) auto
  then show ?thesis
    unfolding seen_cases [symmetric] using r(1,2,4,5) resolved_not_buggy [OF r(1,4)]
    by (cases sd) (simp_all add: wldbg_message_print_def Let_def rbind_assoc)
qed

text \<open>\<open>wl_drm.create_prime_buffer\<close> with a buffer of 640 times 480: the line shows the descriptor, then
  480 as the width and the format as the height, and ends with the word that follows the message.\<close>

theorem message_print_shows_values_witness:
  "wldbg_message_print \<lparr>pe_server_mode = None, pe_program = None, pe_pid = 0, pe_key = (\<lambda>_. 0), pe_keyboard = 2,
       pe_pointer = 1, pe_touch = 4, pe_actions = None\<rparr>
      (\<lambda>n. if n = 7 then wl_drm_interface (\<lambda>_. Iface 0) else free_entry\<lparr>intf_name := ''wl_buffer''\<rparr>)
      (Some \<lparr>ro_client = \<lparr>map_count = 3, map_data = \<lparr>arr_size = 24, arr_alloc = 32,
               arr_data = [None, None, Some (Iface 7), None]\<rparr>\<rparr>,
             ro_server = wldbg_ids_map_init, ro_interfaces = [], ro_additional = []\<rparr>)
      CLIENT (message_bytes 2 3 (map WWord [9, 640, 480, 5, 0, 2560, 1, 2, 3, 4]) @ bytes32 77) =
    Inr (''C: wl_drm@2.create_prime_buffer(new id wl_buffer@9, fd, 480, 5, 0, 2560, 1, 2, 3, 4, 77)'' @ [CHR 0x0A])"
proof -
  let ?im = "\<lambda>n. if n = 7 then wl_drm_interface (\<lambda>_. Iface 0) else free_entry\<lparr>intf_name := ''wl_buffer''\<rparr>"
  let ?vs = "Some (WWord 9) # None # map (\<lambda>w. Some (WWord w)) [640, 480, 5, 0, 2560, 1, 2, 3, 4]"
  let ?ro = "\<lparr>ro_client = \<lparr>map_count = 3, map_data = \<lparr>arr_size = 24, arr_alloc = 32,
               arr_data = [None, None, Some (Iface 7), None]\<rparr>\<rparr>,
             ro_server = wldbg_ids_map_init, ro_interfaces = [], ro_additional = []\<rparr>"
  let ?wm = "mk_message ''create_prime_buffer'' ''2nhiiuiiiiii'' (drop 18 (drm_types (\<lambda>_. Iface 0)))"
  let ?e = "\<lparr>pe_server_mode = None, pe_program = None, pe_pid = 0, pe_key = (\<lambda>_. 0), pe_keyboard = 2,
       pe_pointer = 1, pe_touch = 4, pe_actions = None\<rparr> :: print_env"
  have obj: "wldbg_message_get_object (Some ?ro) 2 = Some (Iface 7)"
    by (simp add: wldbg_message_get_object_def resolved_objects_get_def WL_SERVER_ID_START_def wldbg_ids_map_get_def)
  have valid: "is_valid_interface ?im (Some (Iface 7))" by (simp add: is_valid_interface_def wl_drm_interface_def)
  have "intf_wf (free_entry\<lparr>intf_name := ''wl_buffer''\<rparr>)" by (simp add: intf_wf_def free_entry_def)
  then have wf: "imem_wf ?im" by (simp add: imem_wf_def protocol_tables_wf)
  have opc: "3 < (word_of_int (side_count CLIENT (intf_at ?im (Iface 7))) :: u32)"
    by (simp add: side_count_def wl_drm_interface_def)
  have wm: "side_messages CLIENT (intf_at ?im (Iface 7)) ! unat (3 :: u32) = ?wm"
    by (simp add: side_messages_def wl_drm_interface_def wl_drm_requests_def)
  have sg: "wlm_signature ?wm = Some ''2nhiiuiiiiii''" by (simp add: mk_message_def)
  have ch: "nul \<notin> set ''2nhiiuiiiiii''" and tl: "word_tail ?vs"
    and fits: "list_all2 (\<lambda>t v. case v of None \<Rightarrow> fst t = CHR ''h'' | Some a \<Rightarrow> printable t a)
      (sig_args ''2nhiiuiiiiii'' False) ?vs"
    by (simp_all add: nul_def printable_def wire_fits_def is_digit_def word_tail_def is_word_def)
  have size: "8 + length (wire_body (carried ?vs)) < 2 ^ 16" and op: "(3 :: u32) < 2 ^ 16"
    and n: "length ?vs \<le> WL_CLOSURE_MAX_ARGS" by (simp_all add: WL_CLOSURE_MAX_ARGS_def)
  have sent: "carried ?vs = map WWord [9, 640, 480, 5, 0, 2560, 1, 2, 3, 4]" by simp
  have shifted: "map (behind_descriptor (carried (dropWhile (\<lambda>v. v \<noteq> None) ?vs)) (bytes32 77))
      [0..<length (dropWhile (\<lambda>v. v \<noteq> None) ?vs)] = map (\<lambda>w. Inr (WWord w)) [640, 480, 5, 0, 2560, 1, 2, 3, 4, 77]"
    using load32_bytes32 [of 77 "[]"] by (simp add: behind_descriptor_def upt_rec)
  show ?thesis
    unfolding message_print_shows_values [OF size op obj valid wf opc wm sg ch fits tl n, of ?e "bytes32 77",
        unfolded sent shifted]
    by (simp add: value_text_def read_text_def type_name_def print_uint_def print_wl_keyboard_message_def print_wl_seat_message_def
        wl_drm_interface_def mk_message_def print_client_def print_id_def drm_types_def Let_def show_int_def show_nat_def show_base.simps
        digit_char_def WL_SERVER_ID_START_def is_digit_def) (simp add: char_of_def bit_0 bit_simps)
qed

end
