(* ===== verification/Wl_List.thy ===== *)
theory Wl_List
  imports Wldbg_Prelude
begin

text \<open>
  The intrusive doubly linked lists of \<^verbatim>\<open>wayland/wayland-util.c\<close>, on the pointers.

  A link (a list head or the link of an element) is a cell of a heap of addresses; a pointer is
  \<open>None\<close> for \<open>NULL\<close>.  A cell that is not in the heap was freed.  Reading through a pointer fetches
  the cell, and the functions read and write in the order of the code, so aliasing is as there.
\<close>

section \<open>Links\<close>

record wl_list =
  l_prev :: "nat option"
  l_next :: "nat option"

type_synonym lheap = "nat \<Rightarrow> wl_list option"

definition link_at :: "lheap \<Rightarrow> nat option \<Rightarrow> (nat \<times> wl_list) res" where
  "link_at h p =
     (case p of
        None \<Rightarrow> Inl NullDeref
      | Some a \<Rightarrow> (case h a of None \<Rightarrow> Inl UseAfterFree | Some n \<Rightarrow> Inr (a, n)))"

definition get_next :: "lheap \<Rightarrow> nat option \<Rightarrow> nat option res" where
  "get_next h p = rbind (link_at h p) (\<lambda>(a, n). Inr (l_next n))"

definition get_prev :: "lheap \<Rightarrow> nat option \<Rightarrow> nat option res" where
  "get_prev h p = rbind (link_at h p) (\<lambda>(a, n). Inr (l_prev n))"

definition set_next :: "nat option \<Rightarrow> nat option \<Rightarrow> lheap \<Rightarrow> lheap res" where
  "set_next p v h = rbind (link_at h p) (\<lambda>(a, n). Inr (h(a \<mapsto> n\<lparr>l_next := v\<rparr>)))"

definition set_prev :: "nat option \<Rightarrow> nat option \<Rightarrow> lheap \<Rightarrow> lheap res" where
  "set_prev p v h = rbind (link_at h p) (\<lambda>(a, n). Inr (h(a \<mapsto> n\<lparr>l_prev := v\<rparr>)))"

section \<open>Operations\<close>

definition wl_list_init :: "nat \<Rightarrow> lheap \<Rightarrow> lheap res" where
  "wl_list_init l h = rbind (set_prev (Some l) (Some l) h) (set_next (Some l) (Some l))"

definition wl_list_insert :: "nat \<Rightarrow> nat \<Rightarrow> lheap \<Rightarrow> lheap res" where
  "wl_list_insert l e h =
     rbind (set_prev (Some e) (Some l) h) (\<lambda>h.
     rbind (get_next h (Some l)) (\<lambda>n.
     rbind (set_next (Some e) n h) (\<lambda>h.
     rbind (set_next (Some l) (Some e) h) (\<lambda>h.
     rbind (get_next h (Some e)) (\<lambda>n.
       set_prev n (Some e) h)))))"

definition wl_list_remove :: "nat \<Rightarrow> lheap \<Rightarrow> lheap res" where
  "wl_list_remove e h =
     rbind (get_prev h (Some e)) (\<lambda>p.
     rbind (get_next h (Some e)) (\<lambda>n.
     rbind (set_next p n h) (\<lambda>h.
     rbind (get_next h (Some e)) (\<lambda>n.
     rbind (get_prev h (Some e)) (\<lambda>p.
     rbind (set_prev n p h) (\<lambda>h.
     rbind (set_next (Some e) None h) (\<lambda>h.
       set_prev (Some e) None h)))))))"

text \<open>The loop of \<open>wl_list_length\<close> from \<open>e\<close> with \<open>count\<close> links counted; it ends only at the head.\<close>

partial_function (option) length_loop :: "lheap \<Rightarrow> nat \<Rightarrow> nat option \<Rightarrow> u32 \<Rightarrow> u32 res option" where
  "length_loop h l e count =
     (if e = Some l then Some (Inr count)
      else
        case get_next h e of
          Inl f \<Rightarrow> Some (Inl f)
        | Inr e' \<Rightarrow> length_loop h l e' (count + 1))"

definition wl_list_length :: "lheap \<Rightarrow> nat \<Rightarrow> u32 res option" where
  "wl_list_length h l =
     (case get_next h (Some l) of Inl f \<Rightarrow> Some (Inl f) | Inr e \<Rightarrow> length_loop h l e 0)"

definition wl_list_empty :: "lheap \<Rightarrow> nat \<Rightarrow> bool res" where
  "wl_list_empty h l = rbind (get_next h (Some l)) (\<lambda>n. Inr (n = Some l))"

definition wl_list_insert_list :: "nat \<Rightarrow> nat \<Rightarrow> lheap \<Rightarrow> lheap res" where
  "wl_list_insert_list l other h =
     rbind (wl_list_empty h other) (\<lambda>empty.
       if empty then Inr h
       else
         rbind (get_next h (Some other)) (\<lambda>first.
         rbind (set_prev first (Some l) h) (\<lambda>h.
         rbind (get_prev h (Some other)) (\<lambda>last.
         rbind (get_next h (Some l)) (\<lambda>n.
         rbind (set_next last n h) (\<lambda>h.
         rbind (get_next h (Some l)) (\<lambda>n.
         rbind (get_prev h (Some other)) (\<lambda>last.
         rbind (set_prev n last h) (\<lambda>h.
         rbind (get_next h (Some other)) (\<lambda>first.
           set_next (Some l) first h))))))))))"

text \<open>\<open>wl_list_for_each\<close> and \<open>wl_list_for_each_safe\<close>: the body gets the link of the current element.
  The first macro reads the next link after the body, the second one before.\<close>

partial_function (option) for_each ::
    "(nat option \<Rightarrow> lheap \<Rightarrow> lheap res) \<Rightarrow> nat \<Rightarrow> nat option \<Rightarrow> lheap \<Rightarrow> lheap res option" where
  "for_each body l pos h =
     (if pos = Some l then Some (Inr h)
      else
        case rbind (body pos h) (\<lambda>h. rbind (get_next h pos) (\<lambda>n. Inr (h, n))) of
          Inl f \<Rightarrow> Some (Inl f)
        | Inr (h, n) \<Rightarrow> for_each body l n h)"

definition wl_list_for_each :: "(nat option \<Rightarrow> lheap \<Rightarrow> lheap res) \<Rightarrow> nat \<Rightarrow> lheap \<Rightarrow> lheap res option" where
  "wl_list_for_each body l h =
     (case get_next h (Some l) of Inl f \<Rightarrow> Some (Inl f) | Inr pos \<Rightarrow> for_each body l pos h)"

partial_function (option) for_each_safe ::
    "(nat option \<Rightarrow> lheap \<Rightarrow> lheap res) \<Rightarrow> nat \<Rightarrow> nat option \<Rightarrow> nat option \<Rightarrow> lheap \<Rightarrow> lheap res option" where
  "for_each_safe body l pos tmp h =
     (if pos = Some l then Some (Inr h)
      else
        case rbind (body pos h) (\<lambda>h. rbind (get_next h tmp) (\<lambda>n. Inr (h, n))) of
          Inl f \<Rightarrow> Some (Inl f)
        | Inr (h, n) \<Rightarrow> for_each_safe body l tmp n h)"

definition wl_list_for_each_safe :: "(nat option \<Rightarrow> lheap \<Rightarrow> lheap res) \<Rightarrow> nat \<Rightarrow> lheap \<Rightarrow> lheap res option" where
  "wl_list_for_each_safe body l h =
     (case rbind (get_next h (Some l)) (\<lambda>pos. rbind (get_next h pos) (\<lambda>tmp. Inr (pos, tmp))) of
        Inl f \<Rightarrow> Some (Inl f)
      | Inr (pos, tmp) \<Rightarrow> for_each_safe body l pos tmp h)"

section \<open>Rings\<close>

text \<open>Where a link points, two links that point at each other, a walk over such pairs, and a list: the
  head and the elements are distinct and the walk over them returns to the head.\<close>

definition nx :: "lheap \<Rightarrow> nat \<Rightarrow> nat option" where
  "nx h a = (case h a of None \<Rightarrow> None | Some n \<Rightarrow> l_next n)"

definition pv :: "lheap \<Rightarrow> nat \<Rightarrow> nat option" where
  "pv h a = (case h a of None \<Rightarrow> None | Some n \<Rightarrow> l_prev n)"

fun walk :: "lheap \<Rightarrow> nat list \<Rightarrow> bool" where
  "walk h (a # b # xs) \<longleftrightarrow> nx h a = Some b \<and> pv h b = Some a \<and> walk h (b # xs)"
| "walk h _ \<longleftrightarrow> True"

definition list_at :: "lheap \<Rightarrow> nat \<Rightarrow> nat list \<Rightarrow> bool" where
  "list_at h l xs \<longleftrightarrow> distinct (l # xs) \<and> walk h (l # xs @ [l])"

lemma walk_append: "walk h (xs @ [a]) \<and> walk h (a # ys) \<longleftrightarrow> walk h (xs @ a # ys)"
  by (induction h xs rule: walk.induct) (auto split: list.splits)

text \<open>Every link of a ring is as good a head as the first one.\<close>

lemma list_at_rotate: "list_at h l (xs @ x # ys) \<longleftrightarrow> list_at h x (ys @ l # xs)"
proof -
  have "walk h (l # (xs @ x # ys) @ [l]) \<longleftrightarrow> walk h ((l # xs) @ [x]) \<and> walk h ((x # ys) @ [l])"
    using walk_append [of h "l # xs" x "ys @ [l]"] by simp
  also have "\<dots> \<longleftrightarrow> walk h (x # (ys @ l # xs) @ [x])"
    using walk_append [of h "x # ys" l "xs @ [x]"] by auto
  finally show ?thesis unfolding list_at_def by auto
qed

text \<open>A walk depends on where its links but the last point to and come from but the first.\<close>

lemma walk_cong:
  "(\<And>a. a \<in> set (butlast xs) \<Longrightarrow> nx h' a = nx h a) \<Longrightarrow> (\<And>a. a \<in> set (tl xs) \<Longrightarrow> pv h' a = pv h a) \<Longrightarrow>
     walk h' xs = walk h xs"
  by (induction h xs rule: walk.induct) auto

lemma list_at_cong:
  "(\<And>a. a \<in> set (l # xs) \<Longrightarrow> nx h' a = nx h a \<and> pv h' a = pv h a) \<Longrightarrow> list_at h' l xs = list_at h l xs"
  unfolding list_at_def using walk_cong [of "l # xs @ [l]" h' h] by (auto simp: butlast_append)

text \<open>The effect of one assignment.\<close>

definition upd_next :: "nat \<Rightarrow> nat option \<Rightarrow> lheap \<Rightarrow> lheap" where
  "upd_next a v h = h(a \<mapsto> (the (h a))\<lparr>l_next := v\<rparr>)"

definition upd_prev :: "nat \<Rightarrow> nat option \<Rightarrow> lheap \<Rightarrow> lheap" where
  "upd_prev a v h = h(a \<mapsto> (the (h a))\<lparr>l_prev := v\<rparr>)"

lemma access_live [simp]:
  assumes "a \<in> dom h"
  shows "get_next h (Some a) = Inr (nx h a)" "get_prev h (Some a) = Inr (pv h a)"
    "set_next (Some a) v h = Inr (upd_next a v h)" "set_prev (Some a) v h = Inr (upd_prev a v h)"
  using assms
  by (auto simp: get_next_def get_prev_def set_next_def set_prev_def link_at_def nx_def pv_def upd_next_def upd_prev_def)

lemma access_null [simp]: "get_next h None = Inl NullDeref" "get_prev h None = Inl NullDeref"
  by (simp_all add: get_next_def get_prev_def link_at_def)

lemma upd_simps [simp]:
  "dom (upd_next a v h) = insert a (dom h)" "dom (upd_prev a v h) = insert a (dom h)"
  "nx (upd_next a v h) = (nx h)(a := v)" "pv (upd_prev a v h) = (pv h)(a := v)"
  "a \<in> dom h \<Longrightarrow> pv (upd_next a v h) = pv h" "a \<in> dom h \<Longrightarrow> nx (upd_prev a v h) = nx h"
  by (auto simp: upd_next_def upd_prev_def nx_def pv_def fun_eq_iff)

lemma live_if_linked: "nx h a = Some b \<Longrightarrow> a \<in> dom h" "pv h a = Some b \<Longrightarrow> a \<in> dom h"
  by (auto simp: nx_def pv_def split: option.splits)

section \<open>What the operations do to the pointers\<close>

lemma init_links:
  assumes "l \<in> dom h"
  shows "\<exists>h'. wl_list_init l h = Inr h' \<and> nx h' = (nx h)(l := Some l) \<and> pv h' = (pv h)(l := Some l) \<and> dom h' = dom h"
  using assms by (auto simp: wl_list_init_def)

lemma insert_links:
  assumes "nx h l = Some n" "n \<in> dom h" "e \<in> dom h" "e \<noteq> l" "e \<noteq> n"
  shows "\<exists>h'. wl_list_insert l e h = Inr h' \<and> nx h' = (nx h)(e := Some n, l := Some e) \<and>
    pv h' = (pv h)(e := Some l, n := Some e) \<and> dom h' = dom h"
  using assms live_if_linked(1) [OF assms(1)] by (simp add: wl_list_insert_def insert_absorb)

lemma remove_links:
  assumes "nx h e = Some n" "pv h e = Some p" "n \<in> dom h" "p \<in> dom h" "n \<noteq> e" "p \<noteq> e"
  shows "\<exists>h'. wl_list_remove e h = Inr h' \<and> nx h' = (nx h)(p := Some n, e := None) \<and>
    pv h' = (pv h)(n := Some p, e := None) \<and> dom h' = dom h"
  using assms live_if_linked(1) [OF assms(1)] by (simp add: wl_list_remove_def insert_absorb)

lemma insert_list_links:
  assumes "nx h other = Some f" "pv h other = Some t" "nx h l = Some n" "f \<in> dom h" "t \<in> dom h" "n \<in> dom h"
    "f \<noteq> other" "t \<noteq> other" "other \<noteq> l" "other \<noteq> n" "t \<noteq> l" "f \<noteq> n"
  shows "\<exists>h'. wl_list_insert_list l other h = Inr h' \<and> nx h' = (nx h)(t := Some n, l := Some f) \<and>
    pv h' = (pv h)(f := Some l, n := Some t) \<and> dom h' = dom h"
  using assms live_if_linked(1) [OF assms(1)] live_if_linked(1) [OF assms(3)]
  by (simp add: wl_list_insert_list_def wl_list_empty_def insert_absorb)

section \<open>What they do to lists\<close>

lemma walk_keep:
  "walk h xs \<Longrightarrow> (\<And>a. a \<in> set (butlast xs) \<Longrightarrow> nx h' a = nx h a) \<Longrightarrow> (\<And>a. a \<in> set (tl xs) \<Longrightarrow> pv h' a = pv h a) \<Longrightarrow>
     walk h' xs"
  using walk_cong by blast

lemma tl_not_hd: "distinct xs \<Longrightarrow> a \<in> set (tl xs) \<Longrightarrow> a \<noteq> hd xs \<and> a \<in> set xs"
  by (cases xs) auto

lemma butlast_not_last: "distinct xs \<Longrightarrow> a \<in> set (butlast xs) \<Longrightarrow> a \<noteq> last xs \<and> a \<in> set xs"
  by (cases xs rule: rev_cases) auto

lemma walk_join:
  "walk h xs \<Longrightarrow> walk h ys \<Longrightarrow> xs \<noteq> [] \<Longrightarrow> ys \<noteq> [] \<Longrightarrow> nx h (last xs) = Some (hd ys) \<Longrightarrow>
     pv h (hd ys) = Some (last xs) \<Longrightarrow> walk h (xs @ ys)"
  by (induction h xs rule: walk.induct) (auto simp: neq_Nil_conv)

lemma walk_butlast: "walk h (x # xs @ [y]) \<Longrightarrow> walk h xs"
proof (cases xs rule: rev_cases)
  case (snoc ys z)
  then show "walk h (x # xs @ [y]) \<Longrightarrow> walk h xs" using walk_append [of h "x # ys" z "[y]"] by (cases ys) auto
qed simp

lemma walk_live: "walk h (xs @ [a]) \<Longrightarrow> b \<in> set xs \<Longrightarrow> b \<in> dom h"
proof (induction xs)
  case (Cons x xs)
  obtain y ys where y: "xs @ [a] = y # ys" by (cases xs) auto
  with Cons show ?case using live_if_linked(1) [of h x y] by auto
qed simp

lemma walk_last: "walk h (xs @ [a, b]) \<Longrightarrow> nx h a = Some b \<and> pv h b = Some a"
  using walk_append [of h xs a "[b]"] by simp

lemma list_at_live: "list_at h l xs \<Longrightarrow> set (l # xs) \<subseteq> dom h"
  unfolding list_at_def using walk_live [of h "l # xs" l] by auto

lemma list_at_first: "list_at h l xs \<Longrightarrow> nx h l = Some (hd (xs @ [l])) \<and> pv h (hd (xs @ [l])) = Some l"
  unfolding list_at_def by (cases xs) auto

lemma list_at_last: "list_at h l xs \<Longrightarrow> pv h l = Some (last (l # xs)) \<and> nx h (last (l # xs)) = Some l"
  unfolding list_at_def using walk_last [of h "butlast (l # xs)" "last (l # xs)" l] by (metis append.assoc append_Cons append_Nil append_butlast_last_id list.distinct(1))

lemma list_at_empty_ring: "nx h l = Some l \<Longrightarrow> pv h l = Some l \<Longrightarrow> list_at h l []"
  by (simp add: list_at_def)

lemma insert_first:
  assumes "list_at h l xs" "e \<in> dom h" "e \<notin> set (l # xs)"
  shows "\<exists>h'. wl_list_insert l e h = Inr h' \<and> list_at h' l (e # xs) \<and> dom h' = dom h \<and>
    (\<forall>a. a \<notin> set (l # e # xs) \<longrightarrow> nx h' a = nx h a \<and> pv h' a = pv h a)"
proof -
  let ?n = "hd (xs @ [l])"
  have n: "nx h l = Some ?n" "?n \<in> dom h" "e \<noteq> ?n" "?n \<in> set (l # xs)"
    using list_at_first [OF assms(1)] list_at_live [OF assms(1)] assms(3) by (cases xs; auto)+
  obtain h' where h': "wl_list_insert l e h = Inr h'" "nx h' = (nx h)(e := Some ?n, l := Some e)"
    "pv h' = (pv h)(e := Some l, ?n := Some e)" "dom h' = dom h"
    using insert_links [OF n(1,2) assms(2) _ n(3)] assms(3) by auto
  have d: "distinct (l # xs)" and w: "walk h (xs @ [l])"
    using assms(1) by (cases xs; simp add: list_at_def)+
  have "walk h' (xs @ [l])"
  proof (rule walk_keep [OF w])
    show "nx h' a = nx h a" if "a \<in> set (butlast (xs @ [l]))" for a using that d assms(3) h'(2) by auto
    show "pv h' a = pv h a" if "a \<in> set (tl (xs @ [l]))" for a
      using tl_not_hd [OF _ that] d assms(3) h'(3) by auto
  qed
  moreover have "nx h' e = Some ?n" "pv h' ?n = Some e" "nx h' l = Some e" "pv h' e = Some l"
    using h'(2,3) n(3) assms(3) by auto
  ultimately have "walk h' (l # (e # xs) @ [l])" by (cases xs) auto
  then show ?thesis using h' d assms(3) n(4) by (auto simp: list_at_def)
qed

text \<open>Inserting behind any link of a list.\<close>

lemma insert_behind:
  assumes "list_at h l (xs @ p # ys)" "e \<in> dom h" "e \<notin> set (l # xs @ p # ys)"
  shows "\<exists>h'. wl_list_insert p e h = Inr h' \<and> list_at h' l (xs @ p # e # ys) \<and> dom h' = dom h \<and>
    (\<forall>a. a \<notin> set (l # e # xs @ p # ys) \<longrightarrow> nx h' a = nx h a \<and> pv h' a = pv h a)"
proof -
  obtain h' where "wl_list_insert p e h = Inr h'" "list_at h' p (e # ys @ l # xs)" "dom h' = dom h"
    "\<forall>a. a \<notin> set (p # e # ys @ l # xs) \<longrightarrow> nx h' a = nx h a \<and> pv h' a = pv h a"
    using insert_first [of h p "ys @ l # xs" e] assms list_at_rotate by auto
  then show ?thesis using list_at_rotate [of h' l xs p "e # ys"] by auto
qed

lemma remove_link:
  assumes "list_at h l (xs @ e # ys)"
  shows "\<exists>h'. wl_list_remove e h = Inr h' \<and> list_at h' l (xs @ ys) \<and> nx h' e = None \<and> pv h' e = None \<and> dom h' = dom h \<and>
    (\<forall>a. a \<notin> set (l # xs @ e # ys) \<longrightarrow> nx h' a = nx h a \<and> pv h' a = pv h a)"
proof -
  let ?zs = "ys @ l # xs" let ?n = "hd ?zs" and ?p = "last ?zs"
  have ring: "list_at h e ?zs" using assms list_at_rotate by blast
  then have d: "distinct (e # ?zs)" and w: "walk h (e # ?zs @ [e])" by (simp_all add: list_at_def)
  have mem: "?n \<in> set ?zs" "?p \<in> set ?zs" by (cases ys; auto) (auto intro: last_in_set)
  have links: "nx h e = Some ?n" "pv h e = Some ?p" using list_at_first [OF ring] list_at_last [OF ring] by (cases ys; auto)+
  have ends: "?n \<in> dom h" "?p \<in> dom h" "?n \<noteq> e" "?p \<noteq> e"
    using subsetD [OF list_at_live [OF ring]] mem d by (simp_all only: set_simps distinct.simps insert_iff) blast+
  obtain h' where h': "wl_list_remove e h = Inr h'" "nx h' = (nx h)(?p := Some ?n, e := None)"
    "pv h' = (pv h)(?n := Some ?p, e := None)" "dom h' = dom h"
    using remove_links [OF links ends] by blast
  have "walk h' ?zs"
  proof (rule walk_keep [OF walk_butlast [OF w]])
    show "nx h' a = nx h a" if "a \<in> set (butlast ?zs)" for a
      using butlast_not_last [OF _ that] d h'(2) by auto
    show "pv h' a = pv h a" if "a \<in> set (tl ?zs)" for a
      using tl_not_hd [OF _ that] d h'(3) by auto
  qed
  moreover have "nx h' ?p = Some ?n" "pv h' ?n = Some ?p" using h'(2,3) mem d by auto
  ultimately have ring': "walk h' (?zs @ [?n])"
    using walk_join [of h' ?zs "[?n]"] by simp
  have "list_at h' l (xs @ ys)"
  proof (cases ys)
    case Nil
    then show ?thesis using ring' d by (simp add: list_at_def)
  next
    case (Cons y ys')
    then have "list_at h' y (ys' @ l # xs)" using ring' d by (simp add: list_at_def)
    then show ?thesis using Cons list_at_rotate by blast
  qed
  then show ?thesis using h' mem d by auto
qed

lemma insert_list_at:
  assumes "list_at h l xs" "list_at h k ys" "set (l # xs) \<inter> set (k # ys) = {}"
  shows "\<exists>h'. wl_list_insert_list l k h = Inr h' \<and> list_at h' l (ys @ xs) \<and> dom h' = dom h \<and>
    (\<forall>a. a \<notin> set (l # ys @ xs) \<longrightarrow> nx h' a = nx h a \<and> pv h' a = pv h a)"
proof (cases "ys = []")
  case True
  then show ?thesis using assms list_at_first [OF assms(2)] list_at_live [OF assms(2)]
    by (simp add: wl_list_insert_list_def wl_list_empty_def)
next
  case False
  let ?f = "hd ys" and ?t = "last ys" and ?n = "hd (xs @ [l])"
  have links: "nx h k = Some ?f" "pv h k = Some ?t" "nx h l = Some ?n"
    using False list_at_first [OF assms(1)] list_at_first [OF assms(2)] list_at_last [OF assms(2)] by auto
  have mem: "?f \<in> set ys" "?t \<in> set ys" "?n \<in> set (l # xs)" using False by (auto simp: hd_append)
  have d: "distinct (l # xs)" "distinct (k # ys)" "walk h (xs @ [l])" "walk h (k # ys @ [k])"
    using assms(1,2) by (cases xs; simp add: list_at_def)+
  obtain h' where h': "wl_list_insert_list l k h = Inr h'" "nx h' = (nx h)(?t := Some ?n, l := Some ?f)"
    "pv h' = (pv h)(?f := Some l, ?n := Some ?t)" "dom h' = dom h"
    using insert_list_links [OF links] mem d assms(3) list_at_live [OF assms(1)] list_at_live [OF assms(2)] by fastforce
  have ys: "walk h' ys"
  proof (rule walk_keep [OF walk_butlast [OF d(4)]])
    show "nx h' a = nx h a" if "a \<in> set (butlast ys)" for a
      using butlast_not_last [OF _ that] d(2) assms(3) h'(2) by auto
    show "pv h' a = pv h a" if "a \<in> set (tl ys)" for a
      using tl_not_hd [OF _ that] d(2) mem(3) assms(3) h'(3) by auto
  qed
  have xs: "walk h' (xs @ [l])"
  proof (rule walk_keep [OF d(3)])
    show "nx h' a = nx h a" if "a \<in> set (butlast (xs @ [l]))" for a using that d(1) mem(2) assms(3) h'(2) by auto
    show "pv h' a = pv h a" if "a \<in> set (tl (xs @ [l]))" for a
      using tl_not_hd [OF _ that] d(1) mem(1) assms(3) h'(3) by auto
  qed
  have "nx h' l = Some ?f" "pv h' ?f = Some l" "nx h' ?t = Some ?n" "pv h' ?n = Some ?t"
    using h'(2,3) mem assms(3) by auto
  then have "walk h' (ys @ xs @ [l])"
    using walk_join [OF ys xs False] by simp
  then have "walk h' (l # (ys @ xs) @ [l])" using \<open>nx h' l = Some ?f\<close> \<open>pv h' ?f = Some l\<close> False by (cases ys) auto
  then show ?thesis using h' d(1,2) assms(3) mem by (auto simp: list_at_def)
qed

section \<open>Many lists\<close>

text \<open>The heap implements a family of disjoint lists, each under its head; the operations are described on
  the contents.\<close>

type_synonym lists = "nat \<Rightarrow> nat list option"

definition lists_at :: "lheap \<Rightarrow> lists \<Rightarrow> bool" where
  "lists_at h L \<longleftrightarrow>
     (\<forall>l xs. L l = Some xs \<longrightarrow> list_at h l xs) \<and>
     (\<forall>l xs k ys. L l = Some xs \<longrightarrow> L k = Some ys \<longrightarrow> l \<noteq> k \<longrightarrow> set (l # xs) \<inter> set (k # ys) = {})"

datatype list_op = Init nat | Insert nat nat | Remove nat | Insert_list nat nat

fun list_step :: "list_op \<Rightarrow> lheap \<Rightarrow> lheap res" where
  "list_step (Init l) h = wl_list_init l h"
| "list_step (Insert p e) h = wl_list_insert p e h"
| "list_step (Remove e) h = wl_list_remove e h"
| "list_step (Insert_list l k) h = wl_list_insert_list l k h"

fun behind :: "nat \<Rightarrow> nat \<Rightarrow> nat list \<Rightarrow> nat list" where
  "behind p e [] = []"
| "behind p e (x # xs) = (if x = p then x # e # xs else x # behind p e xs)"

fun spec_step :: "list_op \<Rightarrow> lists \<Rightarrow> lists" where
  "spec_step (Init l) L = L(l \<mapsto> [])"
| "spec_step (Insert p e) L = (\<lambda>l. map_option (\<lambda>xs. if l = p then e # xs else behind p e xs) (L l))"
| "spec_step (Remove e) L = (\<lambda>l. map_option (remove1 e) (L l))"
| "spec_step (Insert_list l k) L = L(l \<mapsto> the (L k) @ the (L l), k := None)"

text \<open>What the caller has to see to: links are live, an inserted one is in no list, a removed one is an
  element of a list, and a list is not inserted into itself.  The head of a list that was inserted
  into another one is not a list any more until it is initialised again.\<close>

definition in_list :: "lists \<Rightarrow> nat \<Rightarrow> bool" where
  "in_list L a \<longleftrightarrow> (\<exists>l xs. L l = Some xs \<and> a \<in> set (l # xs))"

fun allowed :: "nat set \<Rightarrow> lists \<Rightarrow> list_op \<Rightarrow> bool" where
  "allowed D L (Init l) \<longleftrightarrow> l \<in> D \<and> \<not> in_list L l"
| "allowed D L (Insert p e) \<longleftrightarrow> e \<in> D \<and> \<not> in_list L e \<and> in_list L p"
| "allowed D L (Remove e) \<longleftrightarrow> in_list L e \<and> L e = None"
| "allowed D L (Insert_list l k) \<longleftrightarrow> L l \<noteq> None \<and> L k \<noteq> None \<and> l \<noteq> k"

fun run_list_ops :: "list_op list \<Rightarrow> lheap \<Rightarrow> lheap res" where
  "run_list_ops [] h = Inr h"
| "run_list_ops (op # ops) h = rbind (list_step op h) (run_list_ops ops)"

fun allowed_all :: "nat set \<Rightarrow> lists \<Rightarrow> list_op list \<Rightarrow> bool" where
  "allowed_all D L [] \<longleftrightarrow> True"
| "allowed_all D L (op # ops) \<longleftrightarrow> allowed D L op \<and> allowed_all D (spec_step op L) ops"

lemma lists_at_update:
  assumes "lists_at h L" "L l = Some xs" "list_at h' l ys" "set (l # ys) \<subseteq> insert e (set (l # xs))" "\<not> in_list L e \<or> e \<in> set (l # xs)"
    and same: "\<And>a. a \<notin> insert e (set (l # xs)) \<Longrightarrow> nx h' a = nx h a \<and> pv h' a = pv h a"
  shows "lists_at h' (L(l \<mapsto> ys))"
proof -
  have far: "set (k # zs) \<inter> insert e (set (l # xs)) = {}" if "L k = Some zs" "k \<noteq> l" for k zs
  proof -
    have "set (k # zs) \<inter> set (l # xs) = {}" using assms(1,2) that unfolding lists_at_def by blast
    moreover have "e \<notin> set (k # zs) \<or> e \<in> set (l # xs)" using assms(5) that unfolding in_list_def by blast
    ultimately show ?thesis by blast
  qed
  have "list_at h' k zs" if "L k = Some zs" "k \<noteq> l" for k zs
    using list_at_cong [of k zs h' h] same far [OF that] assms(1) that unfolding lists_at_def by blast
  moreover have "set (k # zs) \<inter> set (l # ys) = {}" if "L k = Some zs" "k \<noteq> l" for k zs
    using far [OF that] assms(4) by blast
  ultimately show ?thesis using assms(1,3) unfolding lists_at_def by (auto simp: Int_commute)
qed

lemma behind_other [simp]: "p \<notin> set xs \<Longrightarrow> behind p e xs = xs"
  by (induction xs) auto

lemma behind_split [simp]: "p \<notin> set xs \<Longrightarrow> behind p e (xs @ p # ys) = xs @ p # e # ys"
  by (induction xs) auto

lemma lists_atD: "lists_at h L \<Longrightarrow> L l = Some xs \<Longrightarrow> list_at h l xs"
  by (simp add: lists_at_def)

lemma only_list:
  "lists_at h L \<Longrightarrow> L l = Some xs \<Longrightarrow> a \<in> set (l # xs) \<Longrightarrow> L k = Some ys \<Longrightarrow> k \<noteq> l \<Longrightarrow> a \<noteq> k \<and> a \<notin> set ys"
  unfolding lists_at_def by (metis disjoint_iff list.set_intros)

lemma list_at_keep:
  "list_at h l xs \<Longrightarrow> (\<And>a. a \<in> set (l # xs) \<Longrightarrow> nx h' a = nx h a \<and> pv h' a = pv h a) \<Longrightarrow> list_at h' l xs"
  using list_at_cong by blast

lemma insert_step:
  assumes "lists_at h L" "allowed (dom h) L (Insert p e)"
  shows "\<exists>h'. wl_list_insert p e h = Inr h' \<and> lists_at h' (spec_step (Insert p e) L) \<and> dom h' = dom h"
proof -
  obtain l xs where l: "L l = Some xs" "p \<in> set (l # xs)" using assms(2) by (auto simp: in_list_def)
  have e: "e \<in> dom h" "\<not> in_list L e" "e \<notin> set (l # xs)" using assms(2) l(1) by (auto simp: in_list_def)
  note ring = lists_atD [OF assms(1) l(1)]
  let ?ys = "if l = p then e # xs else behind p e xs"
  have "\<exists>h'. wl_list_insert p e h = Inr h' \<and> list_at h' l ?ys \<and> dom h' = dom h \<and> set ?ys \<subseteq> insert e (set xs) \<and>
      (\<forall>a. a \<notin> insert e (set (l # xs)) \<longrightarrow> nx h' a = nx h a \<and> pv h' a = pv h a)"
  proof (cases "l = p")
    case True
    then show ?thesis using insert_first [OF ring e(1,3)] by auto
  next
    case False
    then obtain as bs where s: "xs = as @ p # bs" "p \<notin> set as" using l(2) by (auto dest: split_list_first)
    show ?thesis using insert_behind [of h l as p bs e] ring e(1,3) False unfolding s(1) by (auto simp: s(2))
  qed
  then obtain h' where h': "wl_list_insert p e h = Inr h'" "list_at h' l ?ys" "dom h' = dom h" "set ?ys \<subseteq> insert e (set xs)"
    "\<And>a. a \<notin> insert e (set (l # xs)) \<Longrightarrow> nx h' a = nx h a \<and> pv h' a = pv h a" by blast
  have "lists_at h' (L(l \<mapsto> ?ys))"
    by (rule lists_at_update [OF assms(1) l(1) h'(2) _ _ h'(5)]) (use h'(4) e(2) in auto)
  moreover have "spec_step (Insert p e) L = L(l \<mapsto> ?ys)"
  proof (rule ext)
    fix k
    show "spec_step (Insert p e) L k = (L(l \<mapsto> ?ys)) k"
      using l only_list [OF assms(1) l, of k] by (cases "k = l"; cases "L k") auto
  qed
  ultimately show ?thesis using h'(1,3) by (simp del: spec_step.simps)
qed

lemma remove_step:
  assumes "lists_at h L" "allowed (dom h) L (Remove e)"
  shows "\<exists>h'. wl_list_remove e h = Inr h' \<and> lists_at h' (spec_step (Remove e) L) \<and> dom h' = dom h"
proof -
  obtain l xs where l: "L l = Some xs" "e \<in> set xs" using assms(2) by (auto simp: in_list_def)
  obtain as bs where s: "xs = as @ e # bs" "e \<notin> set as" using split_list_first [OF l(2)] by blast
  note ring = lists_atD [OF assms(1) l(1)]
  obtain h' where h': "wl_list_remove e h = Inr h'" "list_at h' l (as @ bs)" "dom h' = dom h"
    "\<And>a. a \<notin> set (l # as @ e # bs) \<Longrightarrow> nx h' a = nx h a \<and> pv h' a = pv h a"
    using remove_link [of h l as e bs] ring s by blast
  have r: "remove1 e xs = as @ bs" using s by (simp add: remove1_append)
  have "lists_at h' (L(l \<mapsto> as @ bs))"
    by (rule lists_at_update [OF assms(1) l(1) h'(2), of e]) (use h'(4) l(2) s(1) in auto)
  moreover have "spec_step (Remove e) L = L(l \<mapsto> as @ bs)"
  proof (rule ext)
    fix k
    show "spec_step (Remove e) L k = (L(l \<mapsto> as @ bs)) k"
      using l(1) r only_list [OF assms(1) l(1), of e k] l(2) by (cases "k = l"; cases "L k") (auto simp: remove1_idem)
  qed
  ultimately show ?thesis using h'(1,3) by (simp del: spec_step.simps)
qed

lemma init_step:
  assumes "lists_at h L" "allowed (dom h) L (Init l)"
  shows "\<exists>h'. wl_list_init l h = Inr h' \<and> lists_at h' (spec_step (Init l) L) \<and> dom h' = dom h"
proof -
  obtain h' where h': "wl_list_init l h = Inr h'" "nx h' = (nx h)(l := Some l)" "pv h' = (pv h)(l := Some l)" "dom h' = dom h"
    using init_links [of l h] assms(2) by auto
  have l: "l \<notin> set (k # xs)" if "L k = Some xs" for k xs using assms(2) that by (auto simp: in_list_def)
  have "list_at h' k xs" if "L k = Some xs" for k xs
    by (rule list_at_keep [OF lists_atD [OF assms(1) that]]) (use l [OF that] h'(2,3) in auto)
  moreover have "list_at h' l []" using h'(2,3) by (simp add: list_at_empty_ring)
  ultimately have "lists_at h' (L(l \<mapsto> []))" using assms(1) l unfolding lists_at_def by (auto split: if_splits)
  then show ?thesis using h'(1,4) by simp
qed

lemma insert_list_step:
  assumes "lists_at h L" "allowed (dom h) L (Insert_list l k)"
  shows "\<exists>h'. wl_list_insert_list l k h = Inr h' \<and> lists_at h' (spec_step (Insert_list l k) L) \<and> dom h' = dom h"
proof -
  obtain xs ys where l: "L l = Some xs" "L k = Some ys" "l \<noteq> k" using assms(2) by auto
  have d: "set (l # xs) \<inter> set (k # ys) = {}" using assms(1) l unfolding lists_at_def by blast
  obtain h' where h': "wl_list_insert_list l k h = Inr h'" "list_at h' l (ys @ xs)" "dom h' = dom h"
    "\<And>a. a \<notin> set (l # ys @ xs) \<Longrightarrow> nx h' a = nx h a \<and> pv h' a = pv h a"
    using insert_list_at [OF lists_atD [OF assms(1) l(1)] lists_atD [OF assms(1) l(2)] d] by blast
  have far: "set (j # zs) \<inter> set (l # ys @ xs) = {}" if "L j = Some zs" "j \<noteq> l" "j \<noteq> k" for j zs
  proof -
    have "set (j # zs) \<inter> set (l # xs) = {}" "set (j # zs) \<inter> set (k # ys) = {}"
      using assms(1) l(1,2) that unfolding lists_at_def by blast+
    then show ?thesis by auto
  qed
  have "list_at h' j zs" if "L j = Some zs" "j \<noteq> l" "j \<noteq> k" for j zs
    using list_at_cong [of j zs h' h] h'(4) far [OF that] lists_atD [OF assms(1) that(1)] by blast
  then have "lists_at h' (L(l \<mapsto> ys @ xs, k := None))"
    using h'(2) far assms(1) unfolding lists_at_def by (auto simp: Int_commute split: if_splits)
  then show ?thesis using h'(1,3) l by simp
qed

lemma list_op_step:
  assumes "lists_at h L" "allowed (dom h) L op"
  shows "\<exists>h'. list_step op h = Inr h' \<and> lists_at h' (spec_step op L) \<and> dom h' = dom h"
  using assms insert_step remove_step init_step insert_list_step by (cases op) (simp_all del: spec_step.simps allowed.simps)

lemma list_ops_run:
  assumes "lists_at h L" "allowed_all (dom h) L ops"
  shows "\<exists>h'. run_list_ops ops h = Inr h' \<and> lists_at h' (fold spec_step ops L) \<and> dom h' = dom h"
  using assms
proof (induction ops arbitrary: h L)
  case (Cons op ops)
  then obtain h1 where "list_step op h = Inr h1" "lists_at h1 (spec_step op L)" "dom h1 = dom h"
    using list_op_step [of h L op] by auto
  then show ?case using Cons.IH [of h1 "spec_step op L"] Cons.prems by auto
qed simp

section \<open>Length and loops\<close>

lemma length_loop_walk:
  "walk h (a # xs @ [l]) \<Longrightarrow> l \<notin> set (a # xs) \<Longrightarrow> length_loop h l (Some a) c = Some (Inr (c + 1 + of_nat (length xs)))"
proof (induction xs arbitrary: a c)
  case Nil
  then show ?case by (simp add: length_loop.simps [of h l "Some a"] length_loop.simps [of h l "Some l"] live_if_linked(1) [of h a l])
next
  case (Cons b xs)
  then show ?case by (simp add: length_loop.simps [of h l "Some a"] live_if_linked(1) [of h a b] ac_simps)
qed

lemma length_at:
  assumes "list_at h l xs"
  shows "wl_list_length h l = Some (Inr (of_nat (length xs)))"
proof (cases xs)
  case Nil
  then show ?thesis using list_at_first [OF assms] list_at_live [OF assms]
    by (simp add: wl_list_length_def length_loop.simps [of h l "Some l"])
next
  case (Cons x ys)
  have "walk h (x # ys @ [l])" "l \<notin> set (x # ys)" using assms Cons by (auto simp: list_at_def)
  then show ?thesis using length_loop_walk [of h x ys l 0] list_at_first [OF assms] list_at_live [OF assms] Cons
    by (simp add: wl_list_length_def)
qed

lemma empty_at: "list_at h l xs \<Longrightarrow> wl_list_empty h l = Inr (xs = [])"
  using list_at_first [of h l xs] list_at_live [of h l xs] by (cases xs) (auto simp: wl_list_empty_def list_at_def)

text \<open>Taking every element out and releasing it, as the clean-up of the program does.\<close>

fun release :: "nat option \<Rightarrow> lheap \<Rightarrow> lheap res" where
  "release None h = Inl NullDeref"
| "release (Some a) h = rbind (wl_list_remove a h) (\<lambda>h. Inr (h(a := None)))"

lemma release_first:
  assumes "list_at h l (x # xs)"
  shows "\<exists>h'. release (Some x) h = Inr h' \<and> list_at h' l xs \<and> dom h' = dom h - {x}"
proof -
  obtain h1 where h1: "wl_list_remove x h = Inr h1" "list_at h1 l xs" "dom h1 = dom h"
    using remove_link [of h l "[]" x xs] assms by auto
  have "x \<notin> set (l # xs)" using assms by (auto simp: list_at_def)
  then have "list_at (h1(x := None)) l xs"
    by (intro list_at_keep [OF h1(2)]) (auto simp: nx_def pv_def)
  then show ?thesis using h1(1,3) by auto
qed

lemma for_each_safe_release:
  assumes "list_at h l xs" "pos = hd (xs @ [l])" "tmp = hd (tl (xs @ [l]) @ [l])"
  shows "\<exists>h'. for_each_safe release l (Some pos) (Some tmp) h = Some (Inr h') \<and> list_at h' l [] \<and> dom h' = dom h - set xs"
  using assms
proof (induction xs arbitrary: h pos tmp)
  case Nil
  then show ?case by (simp add: for_each_safe.simps [of _ l "Some l"])
next
  case (Cons x xs)
  obtain h1 where h1: "release (Some x) h = Inr h1" "list_at h1 l xs" "dom h1 = dom h - {x}"
    using release_first [OF Cons.prems(1)] by blast
  have tmp: "tmp = hd (xs @ [l])" and pos: "pos = x" "x \<noteq> l" using Cons.prems by (cases xs; auto simp: list_at_def)+
  have "get_next h1 (Some tmp) = Inr (Some (hd (tl (xs @ [l]) @ [l])))"
  proof (cases xs)
    case Nil
    then show ?thesis using h1(2) list_at_first [OF h1(2)] list_at_live [OF h1(2)] tmp by simp
  next
    case (Cons y ys)
    have "walk h1 (y # ys @ [l])" using h1(2) Cons by (simp add: list_at_def)
    then have "nx h1 y = Some (hd (ys @ [l]))" by (cases ys) auto
    then show ?thesis using list_at_live [OF h1(2)] tmp Cons by (cases ys) auto
  qed
  then show ?case
    using Cons.IH [OF h1(2) tmp refl] h1(1,3) pos by (auto simp: for_each_safe.simps [of _ l "Some x"])
qed

lemma for_each_release:
  assumes "list_at h l (x # xs)"
  shows "for_each release l (Some x) h = Some (Inl UseAfterFree)"
proof -
  obtain h1 where "release (Some x) h = Inr h1" "dom h1 = dom h - {x}" using release_first [OF assms] by blast
  moreover from this have "get_next h1 (Some x) = Inl UseAfterFree" by (auto simp: get_next_def link_at_def split: option.splits)
  ultimately show ?thesis using assms by (simp add: for_each.simps [of _ l "Some x"] list_at_def)
qed

section \<open>Properties\<close>

text \<open>C7: Whatever sequence of initialisations, insertions, removals and insertions of whole lists is run on
  the pointers, as long as each operation is used as intended, no access is invalid, the rings
  represent exactly the lists that the same operations give on contents, disjoint from each other,
  and length and emptiness are those of the contents.\<close>

theorem lists_refined:
  assumes "lists_at h L" "allowed_all (dom h) L ops"
  shows "\<exists>h'. run_list_ops ops h = Inr h' \<and> lists_at h' (fold spec_step ops L) \<and>
    (\<forall>l xs. fold spec_step ops L l = Some xs \<longrightarrow>
       wl_list_length h' l = Some (Inr (of_nat (length xs))) \<and> wl_list_empty h' l = Inr (xs = []))"
  using list_ops_run [OF assms] lists_atD length_at empty_at by blast

theorem lists_refined_witness:
  "\<exists>h'. run_list_ops [Init 0, Init 1, Insert 0 2, Insert 2 3, Insert 0 4, Insert_list 1 0, Remove 2, Init 0]
      (\<lambda>a. if a < 5 then Some \<lparr>l_prev = None, l_next = None\<rparr> else None) = Inr h' \<and>
    list_at h' 1 [4, 3] \<and> list_at h' 0 [] \<and> wl_list_length h' 1 = Some (Inr 2)"
proof -
  let ?h = "\<lambda>a. if a < 5 then Some \<lparr>l_prev = None, l_next = None\<rparr> else None"
  let ?ops = "[Init 0, Init 1, Insert 0 2, Insert 2 3, Insert 0 4, Insert_list 1 0, Remove 2, Init 0]"
  have dom: "dom ?h = {..<5}" by (auto split: if_splits)
  have L: "fold spec_step ?ops (\<lambda>_. None) = [1 \<mapsto> [4, 3], 0 \<mapsto> []]"
    by (rule ext) (simp add: fun_upd_def)
  have start: "lists_at ?h (\<lambda>_. None)" by (simp add: lists_at_def)
  have ops: "allowed_all (dom ?h) (\<lambda>_. None) ?ops"
    unfolding dom by (simp add: in_list_def fun_upd_def) (auto split: if_splits)
  show ?thesis
    using lists_refined [OF start ops] unfolding L by (auto simp: lists_at_def)
qed

text \<open>C31: A loop with the safe macro may take every element out of the list and free it: it visits all of
  them, leaves an empty list and frees exactly the elements.  With the plain macro the same body
  makes the loop read the link of the first element after it was freed.\<close>

theorem safe_loop_may_release:
  assumes "list_at h l xs"
  shows "(\<exists>h'. wl_list_for_each_safe release l h = Some (Inr h') \<and> list_at h' l [] \<and> dom h' = dom h - set xs) \<and>
    wl_list_for_each release l h = Some (if xs = [] then Inr h else Inl UseAfterFree)"
proof -
  let ?pos = "hd (xs @ [l])" and ?tmp = "hd (tl (xs @ [l]) @ [l])"
  have pos: "get_next h (Some l) = Inr (Some ?pos)"
    using list_at_first [OF assms] list_at_live [OF assms] by simp
  have "get_next h (Some ?pos) = Inr (Some ?tmp)"
  proof (cases xs)
    case Nil
    then show ?thesis using pos by simp
  next
    case (Cons x ys)
    then have "walk h (x # ys @ [l])" using assms by (simp add: list_at_def)
    then have "nx h x = Some (hd (ys @ [l]))" by (cases ys) auto
    then show ?thesis using list_at_live [OF assms] Cons by (cases ys) auto
  qed
  moreover have "for_each release l (Some ?pos) h = Some (if xs = [] then Inr h else Inl UseAfterFree)"
    using for_each_release [of h l "hd xs" "tl xs"] assms by (cases xs) (auto simp: for_each.simps [of _ l "Some l"])
  ultimately show ?thesis
    using for_each_safe_release [OF assms refl refl] pos by (simp add: wl_list_for_each_safe_def wl_list_for_each_def)
qed

theorem safe_loop_may_release_witness:
  "wl_list_for_each release 0 [0 \<mapsto> \<lparr>l_prev = Some 1, l_next = Some 1\<rparr>, 1 \<mapsto> \<lparr>l_prev = Some 0, l_next = Some 0\<rparr>] =
     Some (Inl UseAfterFree)"
proof -
  have "list_at [0 \<mapsto> \<lparr>l_prev = Some 1, l_next = Some 1\<rparr>, 1 \<mapsto> \<lparr>l_prev = Some 0, l_next = Some 0\<rparr>] 0 [1]"
    by (simp add: list_at_def nx_def pv_def)
  from safe_loop_may_release [OF this] show ?thesis by simp
qed

end
