(* ===== verification/Wl_Map.thy ===== *)
theory Wl_Map
  imports Ids_Map
begin

text \<open>
  The id allocator of \<^verbatim>\<open>wayland/wayland-util.c\<close>: \<open>wl_map\<close>, two growable arrays of tagged pointers
  with the free entries of the own side on a list through the entries.

  An entry is the machine word of the union: bit 0 marks a free entry, whose other bits are the
  next free index doubled; bit 1 of a used one is its flag.
\<close>

unbundle bit_operations_syntax

section \<open>Entries\<close>

definition map_entry_is_free :: "u64 \<Rightarrow> bool" where
  "map_entry_is_free e \<longleftrightarrow> e AND 1 \<noteq> 0"

definition map_entry_get_data :: "u64 \<Rightarrow> u64" where
  "map_entry_get_data e = e AND NOT 3"

definition map_entry_get_flags :: "u64 \<Rightarrow> u32" where
  "map_entry_get_flags e = ucast (drop_bit 1 e AND 1)"

record wl_map =
  mp_client :: "u64 wl_array"
  mp_server :: "u64 wl_array"
  mp_side :: u32
  mp_free :: u32

definition WL_MAP_SERVER_SIDE :: u32 where
  "WL_MAP_SERVER_SIDE = 0"

definition WL_MAP_CLIENT_SIDE :: u32 where
  "WL_MAP_CLIENT_SIDE = 1"

section \<open>Operations\<close>

definition wl_map_init :: "u32 \<Rightarrow> wl_map" where
  "wl_map_init side = \<lparr>mp_client = wl_array_init, mp_server = wl_array_init, mp_side = side, mp_free = 0\<rparr>"

text \<open>\<open>start[i]\<close>, read and written; \<open>entries->size / sizeof *start\<close>.\<close>

definition entry_get :: "u64 wl_array \<Rightarrow> nat \<Rightarrow> u64 res" where
  "entry_get a i = nth_res (arr_data a) i"

definition entry_set :: "nat \<Rightarrow> u64 \<Rightarrow> u64 wl_array \<Rightarrow> u64 wl_array res" where
  "entry_set i v a =
     (if i < length (arr_data a) then Inr (a\<lparr>arr_data := (arr_data a)[i := v]\<rparr>) else Inl OutOfBounds)"

definition entry_count :: "u64 wl_array \<Rightarrow> u32" where
  "entry_count a = ucast (arr_size a div 8)"

text \<open>\<open>entry->data = data; entry->next |= (flags & 0x1) << 1\<close>.\<close>

definition tagged :: "u32 \<Rightarrow> u64 \<Rightarrow> u64" where
  "tagged flags d = d OR ucast (push_bit 1 (flags AND 1))"

definition wl_map_insert_new ::
    "(u64 \<Rightarrow> bool) \<Rightarrow> u64 \<Rightarrow> wl_map \<Rightarrow> u32 \<Rightarrow> u64 \<Rightarrow> (u32 \<times> wl_map) res" where
  "wl_map_insert_new mem_ok junk m flags d =
     (let client = (mp_side m = WL_MAP_CLIENT_SIDE);
          entries = (if client then mp_client m else mp_server m);
          base = (if client then 0 else WL_SERVER_ID_START);
          store = (\<lambda>a. if client then m\<lparr>mp_client := a\<rparr> else m\<lparr>mp_server := a\<rparr>)
      in if mp_free m \<noteq> 0 then
           let i = unat (drop_bit 1 (mp_free m)) in
           rbind (entry_get entries i) (\<lambda>e.
           rbind (entry_set i (tagged flags d) entries) (\<lambda>a.
             Inr (word_of_nat i + base, (store a)\<lparr>mp_free := ucast e\<rparr>)))
         else
           rbind (wl_array_add mem_ok junk entries 8) (\<lambda>(p, a).
             case p of
               None \<Rightarrow> Inr (0, store a)
             | Some off \<Rightarrow>
                 let i = off div cell_bytes in
                 rbind (entry_set i (tagged flags d) a) (\<lambda>a. Inr (word_of_nat i + base, store a))))"

text \<open>The array an id belongs to and its index there.\<close>

definition entries_of :: "wl_map \<Rightarrow> u32 \<Rightarrow> u64 wl_array" where
  "entries_of m i = (if i < WL_SERVER_ID_START then mp_client m else mp_server m)"

definition index_of :: "u32 \<Rightarrow> u32" where
  "index_of i = (if i < WL_SERVER_ID_START then i else i - WL_SERVER_ID_START)"

definition with_entries :: "wl_map \<Rightarrow> u32 \<Rightarrow> u64 wl_array \<Rightarrow> wl_map" where
  "with_entries m i a = (if i < WL_SERVER_ID_START then m\<lparr>mp_client := a\<rparr> else m\<lparr>mp_server := a\<rparr>)"

definition wl_map_insert_at ::
    "(u64 \<Rightarrow> bool) \<Rightarrow> u64 \<Rightarrow> wl_map \<Rightarrow> u32 \<Rightarrow> u32 \<Rightarrow> u64 \<Rightarrow> (int \<times> wl_map) res" where
  "wl_map_insert_at mem_ok junk m flags i d =
     (let entries = entries_of m i; k = index_of i; count = entry_count entries in
      if count < k then Inr (- 1, m)
      else
        rbind (if count = k then rbind (wl_array_add mem_ok junk entries 8) (\<lambda>(_, a). Inr a) else Inr entries) (\<lambda>a.
        rbind (entry_set (unat k) (tagged flags d) a) (\<lambda>a. Inr (0, with_entries m i a))))"

definition wl_map_reserve_new :: "(u64 \<Rightarrow> bool) \<Rightarrow> u64 \<Rightarrow> wl_map \<Rightarrow> u32 \<Rightarrow> (int \<times> wl_map) res" where
  "wl_map_reserve_new mem_ok junk m i =
     (if mp_side m = (if i < WL_SERVER_ID_START then WL_MAP_CLIENT_SIDE else WL_MAP_SERVER_SIDE) then Inr (- 1, m)
      else
        let entries = entries_of m i; k = index_of i; count = entry_count entries in
        if count < k then Inr (- 1, m)
        else if count = k then
          rbind (wl_array_add mem_ok junk entries 8) (\<lambda>(_, a).
          rbind (entry_set (unat k) 0 a) (\<lambda>a. Inr (0, with_entries m i a)))
        else rbind (entry_get entries (unat k)) (\<lambda>e. Inr (if e \<noteq> 0 then - 1 else 0, m)))"

definition wl_map_remove :: "wl_map \<Rightarrow> u32 \<Rightarrow> wl_map res" where
  "wl_map_remove m i =
     (if mp_side m = (if i < WL_SERVER_ID_START then WL_MAP_SERVER_SIDE else WL_MAP_CLIENT_SIDE) then Inr m
      else
        rbind (entry_set (unat (index_of i)) (ucast (mp_free m)) (entries_of m i)) (\<lambda>a.
          Inr ((with_entries m i a)\<lparr>mp_free := push_bit 1 (index_of i) OR 1\<rparr>)))"

definition wl_map_lookup :: "wl_map \<Rightarrow> u32 \<Rightarrow> u64 res" where
  "wl_map_lookup m i =
     (if index_of i < entry_count (entries_of m i) then
        rbind (entry_get (entries_of m i) (unat (index_of i))) (\<lambda>e.
          Inr (if map_entry_is_free e then 0 else map_entry_get_data e))
      else Inr 0)"

definition wl_map_lookup_flags :: "wl_map \<Rightarrow> u32 \<Rightarrow> u32 res" where
  "wl_map_lookup_flags m i =
     (if index_of i < entry_count (entries_of m i) then
        rbind (entry_get (entries_of m i) (unat (index_of i))) (\<lambda>e.
          Inr (if map_entry_is_free e then 0 else map_entry_get_flags e))
      else Inr 0)"

text \<open>\<open>wl_map_for_each\<close> with a callback on some state.\<close>

fun entries_loop :: "u64 wl_array \<Rightarrow> nat \<Rightarrow> nat \<Rightarrow> (u64 \<Rightarrow> 's \<Rightarrow> 's) \<Rightarrow> 's \<Rightarrow> 's res" where
  "entries_loop a i 0 f s = Inr s"
| "entries_loop a i (Suc n) f s =
     rbind (entry_get a i) (\<lambda>e.
       entries_loop a (i + 1) n f (if e \<noteq> 0 \<and> \<not> map_entry_is_free e then f (map_entry_get_data e) s else s))"

definition for_each_helper :: "u64 wl_array \<Rightarrow> (u64 \<Rightarrow> 's \<Rightarrow> 's) \<Rightarrow> 's \<Rightarrow> 's res" where
  "for_each_helper a f s = entries_loop a 0 ((unat (arr_size a) + 7) div 8) f s"

definition wl_map_for_each :: "wl_map \<Rightarrow> (u64 \<Rightarrow> 's \<Rightarrow> 's) \<Rightarrow> 's \<Rightarrow> 's res" where
  "wl_map_for_each m f s = rbind (for_each_helper (mp_client m) f s) (for_each_helper (mp_server m) f)"

section \<open>Well-formed maps\<close>

definition n_entries :: "u64 wl_array \<Rightarrow> nat" where
  "n_entries a = unat (arr_size a) div 8"

definition table_wf :: "u64 wl_array \<Rightarrow> bool" where
  "table_wf a \<longleftrightarrow> arr_wf a \<and> unat (arr_size a) mod 8 = 0 \<and> n_entries a \<le> 2 ^ 24"

text \<open>The free entries from \<open>fl\<close> on; the last one holds 0, not a tagged index.\<close>

fun free_chain :: "u64 wl_array \<Rightarrow> u32 \<Rightarrow> nat list \<Rightarrow> bool" where
  "free_chain a fl [] \<longleftrightarrow> fl = 0"
| "free_chain a fl (i # is) \<longleftrightarrow>
     fl = push_bit 1 (word_of_nat i) OR 1 \<and> i < n_entries a \<and>
     (\<exists>nxt. arr_data a ! i = ucast nxt \<and> free_chain a nxt is)"

definition own_table :: "wl_map \<Rightarrow> u64 wl_array" where
  "own_table m = (if mp_side m = WL_MAP_CLIENT_SIDE then mp_client m else mp_server m)"

definition own_id :: "wl_map \<Rightarrow> u32 \<Rightarrow> bool" where
  "own_id m i \<longleftrightarrow> (i < WL_SERVER_ID_START) = (mp_side m = WL_MAP_CLIENT_SIDE)"

definition allocated :: "wl_map \<Rightarrow> nat list \<Rightarrow> u32 \<Rightarrow> bool" where
  "allocated m fs i \<longleftrightarrow>
     unat (index_of i) < n_entries (entries_of m i) \<and> \<not> (own_id m i \<and> unat (index_of i) \<in> set fs)"

definition map_wf :: "wl_map \<Rightarrow> nat list \<Rightarrow> bool" where
  "map_wf m fs \<longleftrightarrow>
     (mp_side m = WL_MAP_CLIENT_SIDE \<or> mp_side m = WL_MAP_SERVER_SIDE) \<and>
     table_wf (mp_client m) \<and> table_wf (mp_server m) \<and>
     distinct fs \<and> free_chain (own_table m) (mp_free m) fs \<and>
     (\<forall>i. allocated m fs i \<longrightarrow> \<not> map_entry_is_free (arr_data (entries_of m i) ! unat (index_of i)))"

text \<open>The abstract map: an allocated id has its pointer and its flag.\<close>

type_synonym id_map = "u32 \<Rightarrow> (u64 \<times> u32) option"

definition represents :: "wl_map \<Rightarrow> id_map \<Rightarrow> bool" where
  "represents m A \<longleftrightarrow>
     (\<exists>fs. map_wf m fs \<and>
        (\<forall>i. A i =
           (if allocated m fs i
            then Some (map_entry_get_data (arr_data (entries_of m i) ! unat (index_of i)),
                       map_entry_get_flags (arr_data (entries_of m i) ! unat (index_of i)))
            else None)))"

section \<open>Tags\<close>

lemma three_mask: "(3 :: u64) = mask 2"
  by (simp add: mask_eq_exp_minus_1)

lemma bit_tagged: "bit (tagged f d) n \<longleftrightarrow> bit d n \<or> n = 1 \<and> bit f 0"
proof -
  have "bit (push_bit 1 (f AND 1)) n \<longleftrightarrow> n = 1 \<and> bit f 0"
    by (simp only: bit_push_bit_iff bit_and_iff bit_1_iff possible_bit_word) auto
  then show ?thesis unfolding tagged_def bit_or_iff bit_unsigned_iff by (auto simp: possible_bit_word)
qed

lemma aligned_bits:
  assumes "d AND 3 = (0 :: u64)" "n < 2"
  shows "\<not> bit d n"
proof
  assume "bit d n"
  then have "bit (d AND 3) n" using assms(2) by (simp add: three_mask bit_simps possible_bit_word)
  then show False using assms(1) by simp
qed

lemma is_free_bit: "map_entry_is_free e \<longleftrightarrow> bit e 0"
proof -
  have "e AND 1 \<noteq> 0 \<longleftrightarrow> (\<exists>n. bit (e AND 1) n)" by (metis bit_0_eq bot_apply bot_bool_def bit_eqI)
  then show ?thesis by (simp only: map_entry_is_free_def bit_and_iff bit_1_iff) auto
qed

lemma tagged_entry:
  assumes "d AND 3 = 0"
  shows "\<not> map_entry_is_free (tagged f d)" "map_entry_get_data (tagged f d) = d"
    "map_entry_get_flags (tagged f d) = f AND 1"
proof -
  show "\<not> map_entry_is_free (tagged f d)" using aligned_bits [OF assms] by (simp add: is_free_bit bit_tagged)
  show "map_entry_get_data (tagged f d) = d"
    using aligned_bits [OF assms, of 0] aligned_bits [OF assms, of 1]
    by (intro bit_eqI) (auto simp: map_entry_get_data_def three_mask bit_simps bit_tagged possible_bit_word less_2_cases_iff
        intro!: Nat.gr0I)
  show "map_entry_get_flags (tagged f d) = f AND 1"
    using aligned_bits [OF assms]
    by (intro bit_eqI)
       (auto simp only: map_entry_get_flags_def bit_unsigned_iff bit_and_iff bit_1_iff bit_drop_bit_eq comp_apply bit_tagged possible_bit_word)
qed

section \<open>Tables and chains\<close>

lemma entry_count_n: "table_wf a \<Longrightarrow> unat (entry_count a) = n_entries a"
proof -
  assume "table_wf a"
  then have "unat (arr_size a div 8) < 2 ^ 32" by (simp add: table_wf_def n_entries_def unat_div)
  then show ?thesis by (simp add: entry_count_def n_entries_def unat_div unsigned_ucast_eq unsigned_take_bit_eq take_bit_nat_eq_self)
qed

lemma entry_in_block: "table_wf a \<Longrightarrow> k < n_entries a \<Longrightarrow> k < length (arr_data a)"
  by (auto simp: table_wf_def arr_wf_def n_entries_def cell_bytes_def)

lemma chain_in_table: "free_chain a fl fs \<Longrightarrow> k \<in> set fs \<Longrightarrow> k < n_entries a"
  by (induction a fl fs rule: free_chain.induct) auto

lemma free_entry:
  "free_chain a fl fs \<Longrightarrow> k \<in> set fs \<Longrightarrow> arr_data a ! k = 0 \<or> map_entry_is_free (arr_data a ! k)"
proof (induction a fl fs rule: free_chain.induct)
  case (2 a fl i "is")
  then obtain nxt where nxt: "arr_data a ! i = ucast nxt" "free_chain a nxt is" by auto
  show ?case
  proof (cases "k = i")
    case True
    have "nxt = 0 \<or> bit nxt 0" using nxt(2) by (cases "is") (auto simp: bit_simps)
    then show ?thesis using True nxt(1) by (auto simp: is_free_bit bit_simps)
  next
    case False
    then show ?thesis using 2 nxt by auto
  qed
qed simp

lemma chain_keep:
  "free_chain a fl fs \<Longrightarrow> n_entries a \<le> n_entries a' \<Longrightarrow> (\<And>k. k \<in> set fs \<Longrightarrow> arr_data a' ! k = arr_data a ! k) \<Longrightarrow>
     free_chain a' fl fs"
  by (induction a fl fs rule: free_chain.induct) force+

lemma table_wf_entries: "map_wf m fs \<Longrightarrow> table_wf (entries_of m i)"
  by (simp add: map_wf_def entries_of_def)

lemma own_entries: "map_wf m fs \<Longrightarrow> own_id m i \<Longrightarrow> entries_of m i = own_table m"
  by (auto simp: own_id_def entries_of_def own_table_def)

lemma index_inj: "index_of i = index_of j \<Longrightarrow> (i < WL_SERVER_ID_START) = (j < WL_SERVER_ID_START) \<Longrightarrow> i = j"
  by (auto simp: index_of_def split: if_splits)

lemma lookup_represented:
  assumes "represents m A"
  shows "wl_map_lookup m i = Inr (case A i of None \<Rightarrow> 0 | Some (d, f) \<Rightarrow> d)"
    "wl_map_lookup_flags m i = Inr (case A i of None \<Rightarrow> 0 | Some (d, f) \<Rightarrow> f)"
proof -
  obtain fs where wf: "map_wf m fs" and A: "A i =
      (if allocated m fs i
       then Some (map_entry_get_data (arr_data (entries_of m i) ! unat (index_of i)),
                  map_entry_get_flags (arr_data (entries_of m i) ! unat (index_of i)))
       else None)" using assms by (auto simp: represents_def)
  have range: "index_of i < entry_count (entries_of m i) \<longleftrightarrow> unat (index_of i) < n_entries (entries_of m i)"
    by (simp add: word_less_nat_alt entry_count_n [OF table_wf_entries [OF wf]])
  have get: "entry_get (entries_of m i) (unat (index_of i)) = Inr (arr_data (entries_of m i) ! unat (index_of i))"
    if "unat (index_of i) < n_entries (entries_of m i)"
    using entry_in_block [OF table_wf_entries [OF wf] that] by (simp add: entry_get_def)
  have free: "arr_data (entries_of m i) ! unat (index_of i) = 0 \<or> map_entry_is_free (arr_data (entries_of m i) ! unat (index_of i))"
    if "unat (index_of i) < n_entries (entries_of m i)" "\<not> allocated m fs i"
    using that free_entry [of "own_table m" "mp_free m" fs] wf own_entries [OF wf, of i] by (auto simp: allocated_def map_wf_def)
  have used: "\<not> map_entry_is_free (arr_data (entries_of m i) ! unat (index_of i))" if "allocated m fs i"
    using wf that by (simp add: map_wf_def)
  show "wl_map_lookup m i = Inr (case A i of None \<Rightarrow> 0 | Some (d, f) \<Rightarrow> d)"
    using range get free used by (auto simp: A wl_map_lookup_def map_entry_get_data_def allocated_def)
  show "wl_map_lookup_flags m i = Inr (case A i of None \<Rightarrow> 0 | Some (d, f) \<Rightarrow> f)"
    using range get free used by (auto simp: A wl_map_lookup_flags_def map_entry_get_flags_def allocated_def)
qed

section \<open>One entry changes\<close>

lemma represents_update:
  assumes wf: "map_wf m fs" and A: "\<And>i. A i =
      (if allocated m fs i
       then Some (map_entry_get_data (arr_data (entries_of m i) ! unat (index_of i)),
                  map_entry_get_flags (arr_data (entries_of m i) ! unat (index_of i)))
       else None)"
    and k: "k = unat (index_of i)" and a: "a = entries_of m i"
    and a': "table_wf a'" "k < n_entries a'" "\<And>j. j \<noteq> k \<Longrightarrow> (j < n_entries a') = (j < n_entries a)"
      "\<And>j. j \<noteq> k \<Longrightarrow> j < n_entries a \<Longrightarrow> arr_data a' ! j = arr_data a ! j"
    and m': "m' = (with_entries m i a')\<lparr>mp_free := fl\<rparr>"
    and fs: "distinct fs'" "free_chain (own_table m') fl fs'" "own_id m i \<Longrightarrow> set fs' - {k} = set fs - {k}" "\<not> own_id m i \<Longrightarrow> fs' = fs"
    and used: "k \<notin> set fs' \<or> \<not> own_id m i \<Longrightarrow> \<not> map_entry_is_free (arr_data a' ! k)"
  shows "represents m' (A(i := if own_id m i \<and> k \<in> set fs' then None
      else Some (map_entry_get_data (arr_data a' ! k), map_entry_get_flags (arr_data a' ! k))))"
proof -
  have own: "own_id m' j = own_id m j" for j by (simp add: m' own_id_def with_entries_def)
  have ent: "entries_of m' j = (if (j < WL_SERVER_ID_START) = (i < WL_SERVER_ID_START) then a' else entries_of m j)" for j
    by (simp add: m' entries_of_def with_entries_def)
  have other: "allocated m' fs' j = allocated m fs j \<and>
      (allocated m fs j \<longrightarrow> arr_data (entries_of m' j) ! unat (index_of j) = arr_data (entries_of m j) ! unat (index_of j))"
    if "j \<noteq> i" for j
  proof (cases "(j < WL_SERVER_ID_START) = (i < WL_SERVER_ID_START)")
    case True
    then have same: "entries_of m j = a" "own_id m j = own_id m i" by (simp_all add: a entries_of_def own_id_def)
    have ne: "unat (index_of j) \<noteq> k" using index_inj [of j i] that True by (auto simp: k word_unat_eq_iff)
    then have "unat (index_of j) \<in> set fs' \<longleftrightarrow> unat (index_of j) \<in> set fs" if "own_id m i" using fs(3) that by blast
    then show ?thesis using a'(3) [OF ne] a'(4) [OF ne] True same own ent [of j] by (auto simp: allocated_def)
  next
    case False
    then have "own_id m j \<longleftrightarrow> \<not> own_id m i" by (auto simp: own_id_def)
    then show ?thesis using False ent [of j] own fs(4) by (auto simp: allocated_def)
  qed
  have self: "entries_of m' i = a'" "allocated m' fs' i \<longleftrightarrow> \<not> (own_id m i \<and> k \<in> set fs')"
    using ent [of i] own a'(2) by (simp_all add: allocated_def k)
  have "map_wf m' fs'"
    unfolding map_wf_def
  proof (intro conjI allI impI)
    show "mp_side m' = WL_MAP_CLIENT_SIDE \<or> mp_side m' = WL_MAP_SERVER_SIDE" "table_wf (mp_client m')" "table_wf (mp_server m')"
      using wf a'(1) by (auto simp: m' with_entries_def map_wf_def)
    show "distinct fs'" "free_chain (own_table m') (mp_free m') fs'" using fs(1,2) by (simp_all add: m')
    fix j assume "allocated m' fs' j"
    then show "\<not> map_entry_is_free (arr_data (entries_of m' j) ! unat (index_of j))"
      using other [of j] self used wf by (cases "j = i") (auto simp: k map_wf_def)
  qed
  then show ?thesis
    unfolding represents_def using other self by (intro exI [of _ fs']) (auto simp: A k)
qed

section \<open>The operations\<close>

definition put_entry :: "u64 wl_array \<Rightarrow> nat \<Rightarrow> u64 \<Rightarrow> u64 wl_array" where
  "put_entry a k v = a\<lparr>arr_data := (arr_data a)[k := v]\<rparr>"

lemma put_entry_simps [simp]:
  "n_entries (put_entry a k v) = n_entries a" "table_wf (put_entry a k v) = table_wf a"
  "arr_data (put_entry a k v) = (arr_data a)[k := v]"
  by (simp_all add: put_entry_def n_entries_def table_wf_def arr_wf_def)

lemma entry_set_in: "k < length (arr_data a) \<Longrightarrow> entry_set k v a = Inr (put_entry a k v)"
  by (simp add: entry_set_def put_entry_def)

lemma chain_put: "free_chain a fl fs \<Longrightarrow> k \<notin> set fs \<Longrightarrow> free_chain (put_entry a k v) fl fs"
  by (rule chain_keep) (auto, metis nth_list_update_neq)

lemma own_table_with:
  "own_id m i \<Longrightarrow> own_table ((with_entries m i a)\<lparr>mp_free := fl\<rparr>) = a"
  "\<not> own_id m i \<Longrightarrow> own_table ((with_entries m i a)\<lparr>mp_free := fl\<rparr>) = own_table m"
  by (auto simp: own_table_def with_entries_def own_id_def)

lemma chain_index:
  assumes "k < 2 ^ 24"
  shows "unat (drop_bit 1 (push_bit 1 (word_of_nat k) OR 1 :: u32)) = k"
proof -
  have k: "unat (word_of_nat k :: u32) = k" using assms by (simp add: unat_of_nat)
  have "(word_of_nat k :: u32) = take_bit 31 (word_of_nat k)"
    using assms by (simp add: word_unat_eq_iff k unsigned_take_bit_eq take_bit_nat_eq_self)
  then have high: "bit (word_of_nat k :: u32) n \<Longrightarrow> n < 31" for n by (metis bit_take_bit_iff)
  have "drop_bit 1 (push_bit 1 (word_of_nat k) OR 1 :: u32) = word_of_nat k"
  proof (rule bit_eqI)
    fix n
    show "bit (drop_bit 1 (push_bit 1 (word_of_nat k) OR 1 :: u32)) n = bit (word_of_nat k :: u32) n"
      using high [of n] by (simp only: bit_drop_bit_eq comp_apply bit_or_iff bit_push_bit_iff bit_1_iff possible_bit_word) auto
  qed
  then show ?thesis using k by simp
qed

text \<open>The id of an index of the own table.\<close>

definition own_base :: "wl_map \<Rightarrow> u32" where
  "own_base m = (if mp_side m = WL_MAP_CLIENT_SIDE then 0 else WL_SERVER_ID_START)"

lemma own_index:
  assumes "k < 2 ^ 24"
  shows "unat (index_of (word_of_nat k + own_base m)) = k" "own_id m (word_of_nat k + own_base m)"
proof -
  have k: "unat (word_of_nat k :: u32) = k" using assms by (simp add: unat_of_nat)
  have low: "(word_of_nat k :: u32) < WL_SERVER_ID_START" using assms by (simp add: word_less_nat_alt k WL_SERVER_ID_START_def)
  have "unat (word_of_nat k + WL_SERVER_ID_START) = k + 0xff000000"
    using assms by (simp add: unat_word_ariths k WL_SERVER_ID_START_def)
  then have high: "\<not> word_of_nat k + WL_SERVER_ID_START < WL_SERVER_ID_START"
    by (simp add: word_less_nat_alt WL_SERVER_ID_START_def)
  show "unat (index_of (word_of_nat k + own_base m)) = k" "own_id m (word_of_nat k + own_base m)"
    using low high k by (simp_all add: own_base_def index_of_def own_id_def)
qed

lemma insert_new_reuse:
  assumes "represents m A" "d AND 3 = 0" "mp_free m \<noteq> 0"
  shows "\<exists>i m'. wl_map_insert_new mem_ok junk m f d = Inr (i, m') \<and> own_id m i \<and> A i = None \<and>
    represents m' (A(i \<mapsto> (d, f AND 1)))"
proof -
  obtain fs where wf: "map_wf m fs" and A: "\<And>i. A i =
      (if allocated m fs i
       then Some (map_entry_get_data (arr_data (entries_of m i) ! unat (index_of i)),
                  map_entry_get_flags (arr_data (entries_of m i) ! unat (index_of i)))
       else None)" using assms(1) by (auto simp: represents_def)
  obtain k fs' where fs: "fs = k # fs'" using wf assms(3) by (cases fs) (auto simp: map_wf_def)
  then obtain nxt where chain: "mp_free m = push_bit 1 (word_of_nat k) OR 1" "k < n_entries (own_table m)"
    "arr_data (own_table m) ! k = ucast nxt" "free_chain (own_table m) nxt fs'" "k \<notin> set fs'"
    using wf by (auto simp: map_wf_def)
  let ?i = "word_of_nat k + own_base m"
  have tw: "table_wf (own_table m)" using wf by (simp add: map_wf_def own_table_def)
  then have k24: "k < 2 ^ 24" using chain(2) by (simp add: table_wf_def)
  note idx = own_index(1) [OF k24, of m] own_index(2) [OF k24, of m]
  have ent: "entries_of m ?i = own_table m" using own_entries [OF wf idx(2)] .
  let ?a = "put_entry (own_table m) k (tagged f d)" and ?m = "(with_entries m ?i (put_entry (own_table m) k (tagged f d)))\<lparr>mp_free := nxt\<rparr>"
  have blk: "k < length (arr_data (own_table m))" by (rule entry_in_block [OF tw chain(2)])
  have run: "wl_map_insert_new mem_ok junk m f d = Inr (?i, ?m)"
  proof -
    have free: "unat (drop_bit 1 (mp_free m)) = k" using chain_index [OF k24] chain(1) by simp
    have get: "entry_get (own_table m) k = Inr (ucast nxt)" using blk chain(3) by (simp add: entry_get_def)
    have nxt: "ucast (ucast nxt :: u64) = nxt" by (rule bit_eqI) (simp add: bit_simps possible_bit_word)
    show ?thesis
      using assms(3) get entry_set_in [OF blk, of "tagged f d"] idx(2)
      unfolding wl_map_insert_new_def free Let_def own_table_def own_base_def with_entries_def own_id_def
      by (cases "mp_side m = WL_MAP_CLIENT_SIDE") (simp_all add: nxt)
  qed
  have "represents ?m (A(?i := if own_id m ?i \<and> k \<in> set fs' then None
      else Some (map_entry_get_data (arr_data ?a ! k), map_entry_get_flags (arr_data ?a ! k))))"
  proof (rule represents_update [OF wf A _ _ _ _ _ _ refl])
    show "free_chain (own_table ?m) nxt fs'"
      using chain_put [OF chain(4,5)] own_table_with(1) [OF idx(2)] by simp
  qed (use idx ent tw chain(2,5) fs wf blk tagged_entry(1) [OF assms(2)] in \<open>auto simp: map_wf_def\<close>)
  moreover have "A ?i = None" using A [of ?i] idx fs by (simp add: allocated_def)
  ultimately show ?thesis
    using run idx chain(5) blk tagged_entry(2,3) [OF assms(2)] by (intro exI [of _ ?i] exI [of _ ?m]) simp
qed

text \<open>A table that grows by one entry.\<close>

lemma table_append:
  assumes "table_wf a" "n_entries a < 2 ^ 24" "\<And>n. mem_ok n"
  obtains a' cells where "wl_array_add mem_ok junk a 8 = Inr (Some (8 * n_entries a), a')" "table_wf a'"
    "n_entries a' = n_entries a + 1" "arr_data a' = arr_data a @ cells"
proof -
  have sz: "unat (arr_size a) = 8 * n_entries a" using assms(1) by (auto simp: table_wf_def n_entries_def)
  have wf: "arr_wf a" and fits: "unat (arr_size a) + unat (8 :: u64) \<le> 2 ^ 63"
    using assms(1,2) sz by (auto simp: table_wf_def)
  from wf fits show ?thesis
  proof (cases rule: wl_array_add_cases [where mem_ok = mem_ok and junk = junk])
    case (added a' cells)
    have sz': "unat (arr_size a') = 8 * (n_entries a + 1)" using added(3) sz by simp
    then have n: "n_entries a' = n_entries a + 1" by (simp add: n_entries_def)
    moreover have "table_wf a'" unfolding table_wf_def n using added(2) sz' assms(2) by simp
    ultimately show ?thesis using that [of a' cells] added(1,4) unfolding sz by blast
  qed (use assms(3) in simp)
qed

lemma insert_new_append:
  assumes "represents m A" "d AND 3 = 0" "mp_free m = 0" "n_entries (own_table m) < 2 ^ 24" "\<And>n. mem_ok n"
  shows "\<exists>i m'. wl_map_insert_new mem_ok junk m f d = Inr (i, m') \<and> own_id m i \<and> A i = None \<and>
    represents m' (A(i \<mapsto> (d, f AND 1)))"
proof -
  obtain fs where wf: "map_wf m fs" and A: "\<And>i. A i =
      (if allocated m fs i
       then Some (map_entry_get_data (arr_data (entries_of m i) ! unat (index_of i)),
                  map_entry_get_flags (arr_data (entries_of m i) ! unat (index_of i)))
       else None)" using assms(1) by (auto simp: represents_def)
  have odd: "push_bit 1 w OR 1 \<noteq> (0 :: u32)" for w
  proof
    assume "push_bit 1 w OR 1 = (0 :: u32)"
    moreover have "bit (push_bit 1 w OR 1 :: u32) 0" by (simp only: bit_or_iff bit_1_iff possible_bit_word) simp
    ultimately show False by simp
  qed
  have fs: "fs = []"
  proof (cases fs)
    case (Cons k fs')
    then show ?thesis using wf assms(3) odd [of "word_of_nat k"] by (simp add: map_wf_def)
  qed simp
  let ?k = "n_entries (own_table m)" let ?i = "word_of_nat ?k + own_base m"
  have tw: "table_wf (own_table m)" using wf by (simp add: map_wf_def own_table_def)
  note idx = own_index(1) [OF assms(4), of m] own_index(2) [OF assms(4), of m]
  have ent: "entries_of m ?i = own_table m" using own_entries [OF wf idx(2)] .
  obtain a' cells where a': "wl_array_add mem_ok junk (own_table m) 8 = Inr (Some (8 * ?k), a')" "table_wf a'"
    "n_entries a' = ?k + 1" "arr_data a' = arr_data (own_table m) @ cells"
    using table_append [OF tw assms(4,5)] .
  have blk: "?k < length (arr_data a')" using entry_in_block [OF a'(2)] a'(3) by simp
  let ?a = "put_entry a' ?k (tagged f d)" and ?m = "(with_entries m ?i (put_entry a' ?k (tagged f d)))\<lparr>mp_free := 0\<rparr>"
  have run: "wl_map_insert_new mem_ok junk m f d = Inr (?i, ?m)"
    using assms(3) a'(1) entry_set_in [OF blk, of "tagged f d"] idx(2)
    unfolding wl_map_insert_new_def Let_def own_table_def own_base_def with_entries_def own_id_def
    by (cases "mp_side m = WL_MAP_CLIENT_SIDE") (simp_all add: cell_bytes_def)
  have "represents ?m (A(?i := if own_id m ?i \<and> ?k \<in> set [] then None
      else Some (map_entry_get_data (arr_data ?a ! ?k), map_entry_get_flags (arr_data ?a ! ?k))))"
  proof (rule represents_update [OF wf A _ _ _ _ _ _ refl])
    show "(j < n_entries ?a) = (j < ?k)" if "j \<noteq> ?k" for j using a'(3) that by auto
    show "arr_data ?a ! j = arr_data (own_table m) ! j" if "j \<noteq> ?k" "j < ?k" for j
      using that a'(4) entry_in_block [OF tw] by (simp add: nth_append)
  qed (use idx ent tw fs a' blk tagged_entry(1) [OF assms(2)] in auto)
  moreover have "A ?i = None" using A [of ?i] idx ent by (simp add: allocated_def)
  ultimately show ?thesis
    using run idx blk tagged_entry(2,3) [OF assms(2)] by (intro exI [of _ ?i] exI [of _ ?m]) simp
qed

lemma remove_effect:
  assumes "represents m A" "A i \<noteq> None"
  shows "\<exists>m'. wl_map_remove m i = Inr m' \<and> represents m' (if own_id m i then A(i := None) else A)"
proof -
  obtain fs where wf: "map_wf m fs" and A: "\<And>i. A i =
      (if allocated m fs i
       then Some (map_entry_get_data (arr_data (entries_of m i) ! unat (index_of i)),
                  map_entry_get_flags (arr_data (entries_of m i) ! unat (index_of i)))
       else None)" using assms(1) by (auto simp: represents_def)
  show ?thesis
  proof (cases "own_id m i")
    case False
    then have "wl_map_remove m i = Inr m" using wf
      by (auto simp: wl_map_remove_def own_id_def map_wf_def WL_MAP_CLIENT_SIDE_def WL_MAP_SERVER_SIDE_def)
    then show ?thesis using False assms(1) by simp
  next
    case True
    let ?k = "unat (index_of i)" and ?a = "entries_of m i"
    have alloc: "allocated m fs i" using assms(2) A [of i] by (auto split: if_splits)
    then have k: "?k < n_entries ?a" "?k \<notin> set fs" using True by (auto simp: allocated_def)
    have tw: "table_wf ?a" by (rule table_wf_entries [OF wf])
    have blk: "?k < length (arr_data ?a)" by (rule entry_in_block [OF tw k(1)])
    let ?fl = "push_bit 1 (index_of i) OR 1"
    let ?a' = "put_entry ?a ?k (ucast (mp_free m))" and ?m = "(with_entries m i (put_entry ?a ?k (ucast (mp_free m))))\<lparr>mp_free := push_bit 1 (index_of i) OR 1\<rparr>"
    have run: "wl_map_remove m i = Inr ?m"
      using True wf entry_set_in [OF blk, of "ucast (mp_free m)"]
      by (auto simp: wl_map_remove_def own_id_def map_wf_def WL_MAP_CLIENT_SIDE_def WL_MAP_SERVER_SIDE_def)
    have "represents ?m (A(i := if own_id m i \<and> ?k \<in> set (?k # fs) then None
        else Some (map_entry_get_data (arr_data ?a' ! ?k), map_entry_get_flags (arr_data ?a' ! ?k))))"
    proof (rule represents_update [OF wf A refl refl _ _ _ _ refl])
      have "free_chain ?a' (mp_free m) fs" using chain_put [OF _ k(2)] wf own_entries [OF wf True] by (simp add: map_wf_def)
      then show "free_chain (own_table ?m) ?fl (?k # fs)"
        unfolding own_table_with(1) [OF True] using k(1) blk by auto
    qed (use True tw k wf in \<open>auto simp: map_wf_def\<close>)
    then show ?thesis using run True by auto
  qed
qed

lemma insert_at_effect:
  assumes "represents m A" "d AND 3 = 0" "\<And>n. mem_ok n"
    and where_: "A i \<noteq> None \<or> unat (index_of i) = n_entries (entries_of m i) \<and> unat (index_of i) < 2 ^ 24"
  shows "\<exists>m'. wl_map_insert_at mem_ok junk m f i d = Inr (0, m') \<and> represents m' (A(i \<mapsto> (d, f AND 1)))"
proof -
  obtain fs where wf: "map_wf m fs" and A: "\<And>i. A i =
      (if allocated m fs i
       then Some (map_entry_get_data (arr_data (entries_of m i) ! unat (index_of i)),
                  map_entry_get_flags (arr_data (entries_of m i) ! unat (index_of i)))
       else None)" using assms(1) by (auto simp: represents_def)
  let ?k = "unat (index_of i)" and ?a = "entries_of m i"
  have tw: "table_wf ?a" by (rule table_wf_entries [OF wf])
  have used: "A i \<noteq> None \<longleftrightarrow> allocated m fs i" using A [of i] by simp
  then have k: "?k < n_entries ?a \<or> ?k = n_entries ?a \<and> ?k < 2 ^ 24" using where_ unfolding allocated_def by blast
  have free: "?k \<notin> set fs" if "own_id m i"
  proof
    assume "?k \<in> set fs"
    moreover have "free_chain ?a (mp_free m) fs" using wf own_entries [OF wf that] by (simp add: map_wf_def)
    ultimately have "?k < n_entries ?a" using chain_in_table by blast
    then show False using where_ used \<open>?k \<in> set fs\<close> that unfolding allocated_def by auto
  qed
  have "\<exists>a' cells. (if entry_count ?a = index_of i then rbind (wl_array_add mem_ok junk ?a 8) (\<lambda>(_, a). Inr a) else Inr ?a) = Inr a' \<and>
      table_wf a' \<and> n_entries a' = max (n_entries ?a) (?k + 1) \<and> arr_data a' = arr_data ?a @ cells"
  proof (cases "?k < n_entries ?a")
    case True
    then have "entry_count ?a \<noteq> index_of i" using entry_count_n [OF tw] by auto
    then show ?thesis using True tw by (intro exI [of _ ?a] exI [of _ "[]"]) (auto simp: max_def)
  next
    case False
    then have n: "?k = n_entries ?a" "n_entries ?a < 2 ^ 24" using k by auto
    then have c: "entry_count ?a = index_of i" using entry_count_n [OF tw] by (simp add: word_unat_eq_iff)
    obtain a' cells where "wl_array_add mem_ok junk ?a 8 = Inr (Some (8 * n_entries ?a), a')" "table_wf a'"
      "n_entries a' = n_entries ?a + 1" "arr_data a' = arr_data ?a @ cells"
      using table_append [OF tw n(2) assms(3), where junk = junk] .
    then show ?thesis using c n(1) by (intro exI [of _ a'] exI [of _ cells]) simp
  qed
  then obtain a' cells where a': "(if entry_count ?a = index_of i then rbind (wl_array_add mem_ok junk ?a 8) (\<lambda>(_, a). Inr a) else Inr ?a) = Inr a'"
    "table_wf a'" "n_entries a' = max (n_entries ?a) (?k + 1)" "arr_data a' = arr_data ?a @ cells" by blast
  have blk: "?k < length (arr_data a')" using entry_in_block [OF a'(2)] a'(3) by simp
  let ?a' = "put_entry a' ?k (tagged f d)" and ?m = "(with_entries m i (put_entry a' ?k (tagged f d)))\<lparr>mp_free := mp_free m\<rparr>"
  have "\<not> entry_count ?a < index_of i" using k by (auto simp: word_less_nat_alt entry_count_n [OF tw])
  then have run: "wl_map_insert_at mem_ok junk m f i d = Inr (0, ?m)"
    using a'(1) entry_set_in [OF blk, of "tagged f d"] by (simp add: wl_map_insert_at_def Let_def with_entries_def)
  have old: "arr_data ?a' ! j = arr_data ?a ! j" if "j \<noteq> ?k" "j < n_entries ?a" for j
    using that a'(4) entry_in_block [OF tw] by (simp add: nth_append)
  have "represents ?m (A(i := if own_id m i \<and> ?k \<in> set fs then None
      else Some (map_entry_get_data (arr_data ?a' ! ?k), map_entry_get_flags (arr_data ?a' ! ?k))))"
  proof (rule represents_update [OF wf A refl refl _ _ _ old refl])
    show "(j < n_entries ?a') = (j < n_entries ?a)" if "j \<noteq> ?k" for j using a'(3) k that by auto
    show "free_chain (own_table ?m) (mp_free m) fs"
    proof (cases "own_id m i")
      case True
      then have chain: "free_chain ?a (mp_free m) fs" using wf own_entries [OF wf] by (simp add: map_wf_def)
      show ?thesis unfolding own_table_with(1) [OF True]
      proof (rule chain_keep [OF chain])
        show "arr_data ?a' ! j = arr_data ?a ! j" if "j \<in> set fs" for j
          using old [of j] chain_in_table [OF chain that] free [OF True] that by metis
      qed (use a'(3) in simp)
    next
      case False
      then show ?thesis using own_table_with(2) [OF False] wf by (simp add: map_wf_def)
    qed
  qed (use wf a' blk tagged_entry(1) [OF assms(2)] in \<open>auto simp: map_wf_def\<close>)
  moreover have "\<not> (own_id m i \<and> ?k \<in> set fs)" using free by blast
  ultimately show ?thesis using run blk tagged_entry(2,3) [OF assms(2)] by (auto simp only: if_False put_entry_simps nth_list_update_eq)
qed

lemma represents_init:
  "side = WL_MAP_CLIENT_SIDE \<or> side = WL_MAP_SERVER_SIDE \<Longrightarrow> represents (wl_map_init side) (\<lambda>_. None)"
  unfolding represents_def
  by (intro exI [of _ "[]"])
     (auto simp: map_wf_def wl_map_init_def table_wf_def arr_wf_init allocated_def entries_of_def n_entries_def wl_array_init_def
       own_table_def arr_wf_def)

section \<open>Properties\<close>

text \<open>The operations as steps, with what the caller has to see to and what the step does to the abstract
  map; the id is the one handed out.\<close>

datatype map_op = Insert_new u32 u64 | Insert_at u32 u32 u64 | Remove_id u32

fun map_step :: "(u64 \<Rightarrow> bool) \<Rightarrow> u64 \<Rightarrow> map_op \<Rightarrow> wl_map \<Rightarrow> (u32 \<times> wl_map) res" where
  "map_step mem_ok junk (Insert_new f d) m = wl_map_insert_new mem_ok junk m f d"
| "map_step mem_ok junk (Insert_at f i d) m = rbind (wl_map_insert_at mem_ok junk m f i d) (\<lambda>(r, m). Inr (if r = 0 then i else - 1, m))"
| "map_step mem_ok junk (Remove_id i) m = rbind (wl_map_remove m i) (\<lambda>m. Inr (i, m))"

fun map_pre :: "map_op \<Rightarrow> wl_map \<Rightarrow> id_map \<Rightarrow> bool" where
  "map_pre (Insert_new f d) m A \<longleftrightarrow> d AND 3 = 0 \<and> n_entries (own_table m) < 2 ^ 24"
| "map_pre (Insert_at f i d) m A \<longleftrightarrow>
     d AND 3 = 0 \<and> (A i \<noteq> None \<or> unat (index_of i) = n_entries (entries_of m i) \<and> unat (index_of i) < 2 ^ 24)"
| "map_pre (Remove_id i) m A \<longleftrightarrow> A i \<noteq> None"

fun map_post :: "map_op \<Rightarrow> wl_map \<Rightarrow> id_map \<Rightarrow> u32 \<Rightarrow> id_map \<Rightarrow> bool" where
  "map_post (Insert_new f d) m A i A' \<longleftrightarrow> own_id m i \<and> A i = None \<and> A' = A(i \<mapsto> (d, f AND 1))"
| "map_post (Insert_at f j d) m A i A' \<longleftrightarrow> A' = A(j \<mapsto> (d, f AND 1))"
| "map_post (Remove_id j) m A i A' \<longleftrightarrow> A' = (if own_id m j then A(j := None) else A)"

text \<open>C8: The map refines a partial function from ids to pointers and flags: whatever is inserted,
  removed and inserted again, a new id is never one that is in use and belongs to the own side,
  exactly that id changes, and a lookup gives the pointer and the flag that were stored last, or
  nothing.\<close>

theorem map_refines_partial_function:
  assumes "represents m A" "map_pre op m A" "\<And>n. mem_ok n"
  shows "\<exists>i m' A'. map_step mem_ok junk op m = Inr (i, m') \<and> map_post op m A i A' \<and> represents m' A' \<and>
    (\<forall>j. wl_map_lookup m' j = Inr (case A' j of None \<Rightarrow> 0 | Some (d, f) \<Rightarrow> d) \<and>
         wl_map_lookup_flags m' j = Inr (case A' j of None \<Rightarrow> 0 | Some (d, f) \<Rightarrow> f))"
proof -
  have "\<exists>i m' A'. map_step mem_ok junk op m = Inr (i, m') \<and> map_post op m A i A' \<and> represents m' A'"
  proof (cases op)
    case (Insert_new f d)
    then show ?thesis
      using insert_new_reuse [OF assms(1), where d = d and mem_ok = mem_ok and junk = junk and f = f]
        insert_new_append [OF assms(1) _ _ _ assms(3), where d = d and junk = junk and f = f] assms(2)
      by (cases "mp_free m = 0") auto
  next
    case (Insert_at f i d)
    then show ?thesis using insert_at_effect [OF assms(1), where mem_ok = mem_ok and d = d and i = i and junk = junk and f = f] assms(2,3) by auto
  next
    case (Remove_id i)
    then show ?thesis using remove_effect [OF assms(1), of i] assms(2) by auto
  qed
  then show ?thesis using lookup_represented by blast
qed

theorem map_refines_partial_function_witness:
  "\<exists>i m' A'. map_step (\<lambda>_. True) 0 (Insert_new 1 0x1000) (wl_map_init WL_MAP_SERVER_SIDE) = Inr (i, m') \<and>
    A' = [i \<mapsto> (0x1000, 1)] \<and> represents m' A' \<and> wl_map_lookup m' i = Inr 0x1000 \<and> wl_map_lookup_flags m' i = Inr 1"
proof -
  have pre: "map_pre (Insert_new 1 0x1000) (wl_map_init WL_MAP_SERVER_SIDE) (\<lambda>_. None)"
    by (simp add: own_table_def wl_map_init_def n_entries_def wl_array_init_def)
  have start: "represents (wl_map_init WL_MAP_SERVER_SIDE) (\<lambda>_. None)" by (rule represents_init) simp
  show ?thesis
    using map_refines_partial_function [OF start pre, of "\<lambda>_. True" 0] by fastforce
qed

end
