(* ===== verification/Wl_Os.thy ===== *)
theory Wl_Os
  imports Wldbg_Prelude
begin

text \<open>
  The wrappers of \<^verbatim>\<open>wayland/wayland-os.c\<close> that make descriptors which are closed on
  \<open>exec\<close>, on kernels old and new.

  The kernel is the table of the open descriptors with their close-on-exec flags, and the outcome of
  every system call in turn, which is the parameter \<open>sys\<close>: an error number, or the number the call
  returns.  The build options \<open>EPOLL_CLOEXEC\<close> and \<open>HAVE_ACCEPT4\<close> are parameters too.
\<close>

section \<open>Kernel\<close>

datatype errno = EINVAL | ENOSYS | Other_errno

datatype sys_outcome = Returns int | Fails errno

record kernel =
  k_calls :: nat
  k_open :: "int \<Rightarrow> bool option"

type_synonym syscalls = "nat \<Rightarrow> sys_outcome"

text \<open>A call that makes a descriptor, closed on \<open>exec\<close> or not.\<close>

definition open_fd :: "syscalls \<Rightarrow> bool \<Rightarrow> kernel \<Rightarrow> sys_outcome \<times> kernel" where
  "open_fd sys cloexec k =
     (case sys (k_calls k) of
        Returns fd \<Rightarrow> (Returns fd, k\<lparr>k_calls := k_calls k + 1, k_open := (k_open k)(fd \<mapsto> cloexec)\<rparr>)
      | r \<Rightarrow> (r, k\<lparr>k_calls := k_calls k + 1\<rparr>))"

definition fcntl_getfd :: "syscalls \<Rightarrow> int \<Rightarrow> kernel \<Rightarrow> sys_outcome \<times> kernel" where
  "fcntl_getfd sys fd k = (sys (k_calls k), k\<lparr>k_calls := k_calls k + 1\<rparr>)"

definition fcntl_set_cloexec :: "syscalls \<Rightarrow> int \<Rightarrow> kernel \<Rightarrow> sys_outcome \<times> kernel" where
  "fcntl_set_cloexec sys fd k =
     (case sys (k_calls k) of
        Returns r \<Rightarrow> (Returns r, k\<lparr>k_calls := k_calls k + 1, k_open := (k_open k)(fd \<mapsto> True)\<rparr>)
      | r \<Rightarrow> (r, k\<lparr>k_calls := k_calls k + 1\<rparr>))"

definition sys_close :: "int \<Rightarrow> kernel \<Rightarrow> kernel" where
  "sys_close fd k = k\<lparr>k_calls := k_calls k + 1, k_open := (k_open k)(fd := None)\<rparr>"

section \<open>Operations\<close>

definition set_cloexec_or_close :: "syscalls \<Rightarrow> int \<Rightarrow> kernel \<Rightarrow> int \<times> kernel" where
  "set_cloexec_or_close sys fd k =
     (if fd = - 1 then (- 1, k)
      else
        case fcntl_getfd sys fd k of
          (Fails _, k) \<Rightarrow> (- 1, sys_close fd k)
        | (Returns flags, k) \<Rightarrow>
            if flags = - 1 then (- 1, sys_close fd k)
            else
              (case fcntl_set_cloexec sys fd k of
                 (Fails _, k) \<Rightarrow> (- 1, sys_close fd k)
               | (Returns _, k) \<Rightarrow> (fd, k)))"

text \<open>The common shape: the call with the flag, and when the kernel does not know it, the call without,
  followed by \<open>set_cloexec_or_close\<close>.  \<open>socket\<close>, \<open>fcntl (F_DUPFD)\<close>, \<open>epoll_create\<close> and \<open>accept\<close>
  differ only in the error number that tells.\<close>

definition result_fd :: "sys_outcome \<Rightarrow> int" where
  "result_fd r = (case r of Returns fd \<Rightarrow> fd | Fails _ \<Rightarrow> - 1)"

definition without_flag :: "syscalls \<Rightarrow> kernel \<Rightarrow> int \<times> kernel" where
  "without_flag sys k = (case open_fd sys False k of (r, k) \<Rightarrow> set_cloexec_or_close sys (result_fd r) k)"

definition with_flag :: "syscalls \<Rightarrow> errno \<Rightarrow> kernel \<Rightarrow> int \<times> kernel" where
  "with_flag sys unknown k =
     (case open_fd sys True k of
        (Returns fd, k) \<Rightarrow> (fd, k)
      | (Fails e, k) \<Rightarrow> if e \<noteq> unknown then (- 1, k) else without_flag sys k)"

definition wl_os_socket_cloexec :: "syscalls \<Rightarrow> kernel \<Rightarrow> int \<times> kernel" where
  "wl_os_socket_cloexec sys k = with_flag sys EINVAL k"

definition wl_os_dupfd_cloexec :: "syscalls \<Rightarrow> kernel \<Rightarrow> int \<times> kernel" where
  "wl_os_dupfd_cloexec sys k = with_flag sys EINVAL k"

definition wl_os_epoll_create_cloexec :: "syscalls \<Rightarrow> bool \<Rightarrow> kernel \<Rightarrow> int \<times> kernel" where
  "wl_os_epoll_create_cloexec sys epoll_cloexec k =
     (if epoll_cloexec then with_flag sys EINVAL k else without_flag sys k)"

definition wl_os_accept_cloexec :: "syscalls \<Rightarrow> bool \<Rightarrow> kernel \<Rightarrow> int \<times> kernel" where
  "wl_os_accept_cloexec sys have_accept4 k =
     (if have_accept4 then with_flag sys ENOSYS k else without_flag sys k)"

text \<open>A received message: its length, and its control messages, the descriptors or \<open>None\<close> for one of
  another kind.  The kernel opens the descriptors it delivers.\<close>

type_synonym cmsgs = "int list option list"

fun open_all :: "bool \<Rightarrow> int list \<Rightarrow> kernel \<Rightarrow> kernel" where
  "open_all cloexec [] k = k"
| "open_all cloexec (fd # fds) k = open_all cloexec fds (k\<lparr>k_open := (k_open k)(fd \<mapsto> cloexec)\<rparr>)"

definition recvmsg_fds :: "cmsgs \<Rightarrow> int list" where
  "recvmsg_fds ms = concat (map (\<lambda>m. case m of None \<Rightarrow> [] | Some fds \<Rightarrow> fds) ms)"

definition recvmsg :: "syscalls \<Rightarrow> bool \<Rightarrow> cmsgs \<Rightarrow> kernel \<Rightarrow> (sys_outcome \<times> cmsgs) \<times> kernel" where
  "recvmsg sys cloexec ms k =
     (let k' = k\<lparr>k_calls := k_calls k + 1\<rparr> in
      case sys (k_calls k) of
        Returns n \<Rightarrow> ((Returns n, ms), open_all cloexec (recvmsg_fds ms) k')
      | Fails e \<Rightarrow> ((Fails e, []), k'))"

fun set_all_cloexec :: "syscalls \<Rightarrow> int list \<Rightarrow> kernel \<Rightarrow> int list \<times> kernel" where
  "set_all_cloexec sys [] k = ([], k)"
| "set_all_cloexec sys (fd # fds) k =
     (case set_cloexec_or_close sys fd k of
        (r, k) \<Rightarrow> (case set_all_cloexec sys fds k of (rs, k) \<Rightarrow> (r # rs, k)))"

fun set_cmsgs :: "syscalls \<Rightarrow> cmsgs \<Rightarrow> kernel \<Rightarrow> cmsgs \<times> kernel" where
  "set_cmsgs sys [] k = ([], k)"
| "set_cmsgs sys (None # ms) k = (case set_cmsgs sys ms k of (rs, k) \<Rightarrow> (None # rs, k))"
| "set_cmsgs sys (Some fds # ms) k =
     (case set_all_cloexec sys fds k of
        (fds, k) \<Rightarrow> (case set_cmsgs sys ms k of (rs, k) \<Rightarrow> (Some fds # rs, k)))"

definition recvmsg_cloexec_fallback :: "syscalls \<Rightarrow> cmsgs \<Rightarrow> kernel \<Rightarrow> (int \<times> cmsgs) \<times> kernel" where
  "recvmsg_cloexec_fallback sys ms k =
     (case recvmsg sys False ms k of
        ((Fails _, ms), k) \<Rightarrow> ((- 1, ms), k)
      | ((Returns n, ms), k) \<Rightarrow> (case set_cmsgs sys ms k of (ms, k) \<Rightarrow> ((n, ms), k)))"

text \<open>\<open>ms\<close> are the control messages of the message that is waiting.\<close>

definition wl_os_recvmsg_cloexec :: "syscalls \<Rightarrow> cmsgs \<Rightarrow> kernel \<Rightarrow> (int \<times> cmsgs) \<times> kernel" where
  "wl_os_recvmsg_cloexec sys ms k =
     (case recvmsg sys True ms k of
        ((Returns n, ms), k) \<Rightarrow> ((n, ms), k)
      | ((Fails e, _), k) \<Rightarrow> if e \<noteq> EINVAL then ((- 1, []), k) else recvmsg_cloexec_fallback sys ms k)"

section \<open>No descriptor leaks\<close>

text \<open>What every wrapper promises: on failure the table is as it was, on success it has one more
  entry, and that one is closed on \<open>exec\<close>.\<close>

definition fd_result :: "(int \<Rightarrow> bool option) \<Rightarrow> int \<times> kernel \<Rightarrow> bool" where
  "fd_result t = (\<lambda>(r, k).
     if r = - 1 then k_open k = t else 0 \<le> r \<and> t r = None \<and> k_open k = t(r \<mapsto> True))"

text \<open>Descriptors the kernel makes are not open yet.\<close>

definition fresh_fd :: "(int \<Rightarrow> bool option) \<Rightarrow> sys_outcome \<Rightarrow> bool" where
  "fresh_fd t r = (case r of Returns fd \<Rightarrow> 0 \<le> fd \<and> t fd = None | Fails _ \<Rightarrow> True)"

lemma fresh_fd_simps [simp]:
  "fresh_fd t (Returns fd) \<longleftrightarrow> 0 \<le> fd \<and> t fd = None" "fresh_fd t (Fails e)"
  by (simp_all add: fresh_fd_def)

lemmas kernel_defs = open_fd_def fcntl_getfd_def fcntl_set_cloexec_def sys_close_def

lemma set_cloexec_open:
  assumes "k_open k = t(fd \<mapsto> b)" "t fd = None" "0 \<le> fd"
  shows "fd_result t (set_cloexec_or_close sys fd k)"
  using assms by (auto simp: set_cloexec_or_close_def kernel_defs fd_result_def split: sys_outcome.splits)

lemma without_flag_result:
  assumes "fresh_fd (k_open k) (sys (k_calls k))"
  shows "fd_result (k_open k) (without_flag sys k)"
proof (cases "sys (k_calls k)")
  case (Returns fd)
  let ?k = "k\<lparr>k_calls := k_calls k + 1, k_open := (k_open k)(fd \<mapsto> False)\<rparr>"
  have "without_flag sys k = set_cloexec_or_close sys fd ?k"
    using Returns by (simp add: without_flag_def open_fd_def result_fd_def)
  then show ?thesis using set_cloexec_open [of ?k "k_open k" fd False sys] assms Returns by simp
qed (simp add: without_flag_def open_fd_def result_fd_def set_cloexec_or_close_def fd_result_def)

lemma with_flag_result:
  assumes "fresh_fd (k_open k) (sys (k_calls k))"
    and "\<And>e. sys (k_calls k) = Fails e \<Longrightarrow> fresh_fd (k_open k) (sys (k_calls k + 1))"
  shows "fd_result (k_open k) (with_flag sys e k)"
proof (cases "sys (k_calls k)")
  case (Fails x)
  then show ?thesis
    using assms(2) [OF Fails] without_flag_result [of "k\<lparr>k_calls := k_calls k + 1\<rparr>" sys]
    by (simp add: with_flag_def open_fd_def) (simp add: fd_result_def)
qed (use assms(1) in \<open>auto simp: with_flag_def open_fd_def fd_result_def\<close>)

text \<open>A received message: every descriptor that is handed on is closed on \<open>exec\<close>, every other one the
  message carried is closed again.\<close>

lemma set_all_cloexec_result:
  assumes "set_all_cloexec sys fds k = (rs, k')" "distinct fds" "\<forall>fd \<in> set fds. 0 \<le> fd"
  shows "length rs = length fds \<and> set rs \<subseteq> insert (- 1) (set fds) \<and>
    (\<forall>fd. k_open k' fd = (if fd \<in> set fds then if fd \<in> set rs then Some True else None else k_open k fd))"
  using assms
proof (induction fds arbitrary: k rs k')
  case (Cons fd fds)
  obtain r k1 where 1: "set_cloexec_or_close sys fd k = (r, k1)" by fastforce
  obtain rs' k2 where 2: "set_all_cloexec sys fds k1 = (rs', k2)" by fastforce
  have eq: "rs = r # rs'" "k' = k2" using Cons.prems(1) 1 2 by auto
  have "fd \<noteq> - 1" using Cons.prems(3) by auto
  then have k1: "r = - 1 \<and> k_open k1 = (k_open k)(fd := None) \<or> r = fd \<and> k_open k1 = (k_open k)(fd \<mapsto> True)"
    using 1 by (auto simp: set_cloexec_or_close_def kernel_defs split: sys_outcome.splits if_splits)
  have ih: "length rs' = length fds" "set rs' \<subseteq> insert (- 1) (set fds)"
    "\<And>g. k_open k2 g = (if g \<in> set fds then if g \<in> set rs' then Some True else None else k_open k1 g)"
    using Cons.IH [OF 2] Cons.prems(2,3) by auto
  have "- 1 \<notin> set fds" "fd \<notin> set fds" using Cons.prems(2,3) by auto
  then show ?case using k1 ih \<open>fd \<noteq> - 1\<close> by (auto simp: eq)
qed simp

section \<open>Properties\<close>

text \<open>Every wrapper either fails and leaves the open descriptors as they were, or returns a new
  descriptor that is closed on \<open>exec\<close> and changes no other, on a kernel that knows the flag as on one
  that does not.\<close>

theorem os_fds_cloexec:
  assumes "fresh_fd (k_open k) (sys (k_calls k))"
    and "\<And>e. sys (k_calls k) = Fails e \<Longrightarrow> fresh_fd (k_open k) (sys (k_calls k + 1))"
    and f: "f \<in> {wl_os_socket_cloexec sys, wl_os_dupfd_cloexec sys,
      wl_os_epoll_create_cloexec sys flag, wl_os_accept_cloexec sys flag}"
  shows "case f k of (r, k') \<Rightarrow>
    if r = - 1 then k_open k' = k_open k
    else 0 \<le> r \<and> k_open k r = None \<and> k_open k' = (k_open k)(r \<mapsto> True)"
proof -
  have "fd_result (k_open k) (f k)"
    using f with_flag_result [OF assms(1,2)] without_flag_result [of k sys, OF assms(1)]
    by (auto simp: wl_os_socket_cloexec_def wl_os_dupfd_cloexec_def wl_os_epoll_create_cloexec_def
        wl_os_accept_cloexec_def)
  then show ?thesis by (simp add: fd_result_def)
qed

text \<open>A kernel that does not know the flag.\<close>

theorem os_fds_cloexec_witness:
  "\<exists>k'. wl_os_dupfd_cloexec (\<lambda>n. if n = 0 then Fails EINVAL else if n = 1 then Returns 5 else Returns 0)
     \<lparr>k_calls = 0, k_open = [3 \<mapsto> False]\<rparr> = (5, k') \<and> k_open k' = [3 \<mapsto> False, 5 \<mapsto> True]"
proof -
  let ?sys = "\<lambda>n :: nat. if n = 0 then Fails EINVAL else if n = 1 then Returns 5 else Returns 0"
  let ?k = "\<lparr>k_calls = 0, k_open = [3 \<mapsto> False]\<rparr>"
  have "fst (wl_os_dupfd_cloexec ?sys ?k) = 5"
    by (simp add: wl_os_dupfd_cloexec_def with_flag_def without_flag_def kernel_defs result_fd_def set_cloexec_or_close_def)
  then show ?thesis
    using os_fds_cloexec [of ?k ?sys "wl_os_dupfd_cloexec ?sys" True]
    by (cases "wl_os_dupfd_cloexec ?sys ?k") auto
qed

end
