(* ===== verification/Closure.thy ===== *)
theory Closure
  imports Connection Wl_Map Wl_Os Print
begin

text \<open>
  The closures of \<^verbatim>\<open>wayland/connection.c\<close>: a message taken apart into its arguments, made from
  the arguments of a call (\<open>wl_closure_marshal\<close>) or from the bytes of a connection
  (\<open>wl_connection_demarshal\<close>), put on a connection again (\<open>wl_closure_send\<close>, \<open>wl_closure_queue\<close>)
  and printed.

  The union \<open>wl_argument\<close> is the member that was written last; the members of 32 bits share a
  constructor, reading another member than was written is the fault \<open>TypeConfusion\<close>.  A \<open>char *\<close> is
  the memory from the pointer on, an array its record with the memory behind its pointer.  A pointer
  to an object is an address, looked up in the store \<open>ostore\<close> of the objects that are alive; 0 is
  \<open>NULL\<close>.
\<close>

unbundle bit_operations_syntax

section \<open>Signatures\<close>

definition is_arg_type :: "char \<Rightarrow> bool" where
  "is_arg_type c \<longleftrightarrow> c \<in> set ''iufsonah''"

fun next_arg_loop :: "string \<Rightarrow> bool \<Rightarrow> (char \<times> bool) \<times> string" where
  "next_arg_loop [] nullable = ((nul, nullable), [])"
| "next_arg_loop (c # sg) nullable =
     (if is_arg_type c then ((c, nullable), sg) else next_arg_loop sg (nullable \<or> c = CHR ''?''))"

definition get_next_argument :: "string \<Rightarrow> (char \<times> bool) \<times> string" where
  "get_next_argument sg = next_arg_loop sg False"

fun arg_count_for_signature :: "string \<Rightarrow> nat" where
  "arg_count_for_signature [] = 0"
| "arg_count_for_signature (c # sg) =
     (if is_arg_type c then 1 + arg_count_for_signature sg else arg_count_for_signature sg)"

definition signature_of :: "wl_message \<Rightarrow> string res" where
  "signature_of msg = (case wlm_signature msg of None \<Rightarrow> Inl NullDeref | Some sg \<Rightarrow> Inr sg)"

fun count_arrays :: "string \<Rightarrow> nat" where
  "count_arrays [] = 0"
| "count_arrays (c # sg) = (if c = CHR ''a'' then 1 + count_arrays sg else count_arrays sg)"

definition wl_message_count_arrays :: "wl_message \<Rightarrow> nat res" where
  "wl_message_count_arrays msg = rbind (signature_of msg) (\<lambda>sg. Inr (count_arrays sg))"

text \<open>\<open>atoi\<close>, as the C library does it: \<open>strtol\<close>, which saturates, cut to an \<open>int\<close>.\<close>

definition atoi_string :: "string \<Rightarrow> int" where
  "atoi_string s =
     (let s = dropWhile is_space s;
          neg = (chr_at s = CHR ''-'');
          s = (if neg \<or> chr_at s = CHR ''+'' then drop 1 s else s);
          v = dec_val (takeWhile is_digit s)
      in sint (word_of_int (if neg then - int (min v (2 ^ 63)) else int (min v (2 ^ 63 - 1))) :: u32))"

definition wl_message_get_since :: "wl_message \<Rightarrow> int res" where
  "wl_message_get_since msg =
     rbind (signature_of msg) (\<lambda>sg. let since = atoi_string sg in Inr (if since = 0 then 1 else since))"

section \<open>Arguments and closures\<close>

record wl_object =
  obj_interface :: iptr
  obj_id :: u32

type_synonym ostore = "u64 \<Rightarrow> wl_object option"

definition object_at :: "ostore \<Rightarrow> u64 \<Rightarrow> wl_object res" where
  "object_at st p =
     (if p = 0 then Inl NullDeref else case st p of None \<Rightarrow> Inl UseAfterFree | Some ob \<Rightarrow> Inr ob)"

datatype wl_argument =
    Arg_word u32
  | Arg_string "bytes option"
  | Arg_object u64
  | Arg_array "u8 wl_array option"

fun word_member :: "wl_argument \<Rightarrow> u32 res" where
  "word_member (Arg_word w) = Inr w"
| "word_member _ = Inl TypeConfusion"

fun string_member :: "wl_argument \<Rightarrow> bytes option res" where
  "string_member (Arg_string p) = Inr p"
| "string_member _ = Inl TypeConfusion"

fun object_member :: "wl_argument \<Rightarrow> u64 res" where
  "object_member (Arg_object p) = Inr p"
| "object_member _ = Inl TypeConfusion"

fun array_member :: "wl_argument \<Rightarrow> u8 wl_array option res" where
  "array_member (Arg_array p) = Inr p"
| "array_member _ = Inl TypeConfusion"

record wl_closure =
  cl_count :: nat
  cl_message :: wl_message
  cl_opcode :: u32
  cl_sender_id :: u32
  cl_args :: "wl_argument list"

text \<open>The first \<open>n\<close> arguments; \<open>cl_args\<close> holds those that were written.\<close>

definition closure_args :: "wl_closure \<Rightarrow> nat \<Rightarrow> wl_argument list res" where
  "closure_args cl n = (if n \<le> length (cl_args cl) then Inr (take n (cl_args cl)) else Inl UninitRead)"

section \<open>Marshalling\<close>

text \<open>One turn of the loop of \<open>wl_closure_marshal\<close>; \<open>None\<close> is the jump to \<open>err_null\<close>.\<close>

definition marshal_arg ::
    "syscalls \<Rightarrow> ostore \<Rightarrow> char \<Rightarrow> bool \<Rightarrow> wl_argument \<Rightarrow> kernel \<Rightarrow> (wl_argument option \<times> kernel) res" where
  "marshal_arg sys st t nullable a k =
     (if t \<in> set ''fui'' then Inr (Some a, k)
      else if t = CHR ''s'' then
        rbind (string_member a) (\<lambda>p. Inr (if \<not> nullable \<and> p = None then None else Some a, k))
      else if t = CHR ''o'' then
        rbind (object_member a) (\<lambda>p. Inr (if \<not> nullable \<and> p = 0 then None else Some a, k))
      else if t = CHR ''n'' then
        rbind (object_member a) (\<lambda>p.
          if \<not> nullable \<and> p = 0 then Inr (None, k)
          else if p = 0 then Inr (Some (Arg_word 0), k)
          else rbind (object_at st p) (\<lambda>ob. Inr (Some (Arg_word (obj_id ob)), k)))
      else if t = CHR ''a'' then
        rbind (array_member a) (\<lambda>p. Inr (if \<not> nullable \<and> p = None then None else Some a, k))
      else if t = CHR ''h'' then
        rbind (word_member a) (\<lambda>fd.
          case wl_os_dupfd_cloexec sys k of
            (dup_fd, k) \<Rightarrow> if dup_fd < 0 then Inl Aborted else Inr (Some (Arg_word (word_of_int dup_fd)), k))
      else Inl AssertFailed)"

fun marshal_loop ::
    "syscalls \<Rightarrow> ostore \<Rightarrow> string \<Rightarrow> wl_argument list \<Rightarrow> kernel \<Rightarrow> (wl_argument list option \<times> kernel) res" where
  "marshal_loop sys st sg [] k = Inr (Some [], k)"
| "marshal_loop sys st sg (a # as) k =
     (case get_next_argument sg of
        ((t, nullable), sg) \<Rightarrow>
          rbind (marshal_arg sys st t nullable a k) (\<lambda>(r, k).
            case r of
              None \<Rightarrow> Inr (None, k)
            | Some a \<Rightarrow> rbind (marshal_loop sys st sg as k) (\<lambda>(r, k). Inr (map_option ((#) a) r, k))))"

definition wl_closure_marshal ::
    "syscalls \<Rightarrow> bool \<Rightarrow> ostore \<Rightarrow> u64 \<Rightarrow> u32 \<Rightarrow> wl_argument list \<Rightarrow> wl_message \<Rightarrow> kernel \<Rightarrow>
     (wl_closure option \<times> kernel) res" where
  "wl_closure_marshal sys mem_ok st sender opcode args msg k =
     rbind (signature_of msg) (\<lambda>sg.
       let n = arg_count_for_signature sg in
       if WL_CLOSURE_MAX_ARGS < n then Inr (None, k)
       else if \<not> mem_ok then Inr (None, k)
       else if length args < n then Inl OutOfBounds
       else
         rbind (marshal_loop sys st sg (take n args) k) (\<lambda>(r, k).
           case r of
             None \<Rightarrow> Inr (None, k)
           | Some as \<Rightarrow>
               rbind (object_at st sender) (\<lambda>ob.
                 Inr (Some \<lparr>cl_count = n, cl_message = msg, cl_opcode = opcode, cl_sender_id = obj_id ob,
                        cl_args = as\<rparr>, k))))"

text \<open>The arguments of a variadic call; taking one that is not there, or at another type than it was
  passed, is undefined.\<close>

definition va_arg :: "char \<Rightarrow> wl_argument \<Rightarrow> wl_argument res" where
  "va_arg t a =
     (if t \<in> set ''iufh'' then rbind (word_member a) (\<lambda>_. Inr a)
      else if t = CHR ''s'' then rbind (string_member a) (\<lambda>_. Inr a)
      else if t \<in> set ''on'' then rbind (object_member a) (\<lambda>_. Inr a)
      else rbind (array_member a) (\<lambda>_. Inr a))"

fun wl_argument_from_va_list :: "string \<Rightarrow> nat \<Rightarrow> wl_argument list \<Rightarrow> wl_argument list res" where
  "wl_argument_from_va_list sg 0 ap = Inr []"
| "wl_argument_from_va_list sg (Suc n) ap =
     (case get_next_argument sg of
        ((t, _), sg) \<Rightarrow>
          if t = nul then Inr []
          else
            (case ap of
               [] \<Rightarrow> Inl OutOfBounds
             | a # ap \<Rightarrow>
                 rbind (va_arg t a) (\<lambda>a.
                 rbind (wl_argument_from_va_list sg n ap) (\<lambda>as. Inr (a # as)))))"

definition wl_closure_vmarshal ::
    "syscalls \<Rightarrow> bool \<Rightarrow> ostore \<Rightarrow> u64 \<Rightarrow> u32 \<Rightarrow> wl_argument list \<Rightarrow> wl_message \<Rightarrow> kernel \<Rightarrow>
     (wl_closure option \<times> kernel) res" where
  "wl_closure_vmarshal sys mem_ok st sender opcode ap msg k =
     rbind (signature_of msg) (\<lambda>sg.
     rbind (wl_argument_from_va_list sg WL_CLOSURE_MAX_ARGS ap) (\<lambda>args.
       wl_closure_marshal sys mem_ok st sender opcode args msg k))"

section \<open>Demarshalling\<close>

text \<open>
  The state of the loop of \<open>wl_connection_demarshal\<close>: where \<open>p\<close> points, in words, how many of the
  records at \<open>closure->extra\<close> are left, the connection and the map of the objects.
\<close>

record demarshal_state =
  dm_pos :: nat
  dm_extra :: nat
  dm_conn :: wl_connection
  dm_objects :: wl_map

definition take_word :: "bytes \<Rightarrow> demarshal_state \<Rightarrow> (u32 \<times> demarshal_state) res" where
  "take_word m s = rbind (load32 m (4 * dm_pos s)) (\<lambda>w. Inr (w, s\<lparr>dm_pos := dm_pos s + 1\<rparr>))"

text \<open>\<open>en\<close> is \<open>end\<close>; \<open>None\<close> is the jump to \<open>err\<close>.\<close>

definition demarshal_string ::
    "bytes \<Rightarrow> nat \<Rightarrow> demarshal_state \<Rightarrow> (wl_argument option \<times> demarshal_state) res" where
  "demarshal_string m en s =
     rbind (take_word m s) (\<lambda>(len, s).
       if len = 0 then Inr (Some (Arg_string None), s)
       else
         let p = dm_pos s; nxt = p + div_roundup4 (unat len) in
         if en < nxt then Inr (None, s)
         else
           rbind (nth_res m (4 * p + unat len - 1)) (\<lambda>b.
             if b \<noteq> 0 then Inr (None, s)
             else Inr (Some (Arg_string (Some (drop (4 * p) m))), s\<lparr>dm_pos := nxt\<rparr>)))"

definition demarshal_array ::
    "bytes \<Rightarrow> nat \<Rightarrow> demarshal_state \<Rightarrow> (wl_argument option \<times> demarshal_state) res" where
  "demarshal_array m en s =
     rbind (take_word m s) (\<lambda>(len, s).
       let p = dm_pos s; nxt = p + div_roundup4 (unat len) in
       if en < nxt then Inr (None, s)
       else if dm_extra s = 0 then Inl OutOfBounds
       else Inr (Some (Arg_array (Some \<lparr>arr_size = ucast len, arr_alloc = 0, arr_data = drop (4 * p) m\<rparr>)),
              s\<lparr>dm_pos := nxt, dm_extra := dm_extra s - 1\<rparr>))"

definition demarshal_new_id ::
    "(u64 \<Rightarrow> bool) \<Rightarrow> u64 \<Rightarrow> bool \<Rightarrow> bytes \<Rightarrow> demarshal_state \<Rightarrow> (wl_argument option \<times> demarshal_state) res" where
  "demarshal_new_id mem_ok junk nullable m s =
     rbind (take_word m s) (\<lambda>(w, s).
       if w = 0 \<and> \<not> nullable then Inr (None, s)
       else
         rbind (wl_map_reserve_new mem_ok junk (dm_objects s) w) (\<lambda>(r, objects).
           Inr (if r < 0 then None else Some (Arg_word w), s\<lparr>dm_objects := objects\<rparr>)))"

definition demarshal_fd :: "demarshal_state \<Rightarrow> (wl_argument option \<times> demarshal_state) res" where
  "demarshal_fd s =
     (let b = fds_in (dm_conn s) in
      if buf_tail b = buf_head b then Inr (None, s)
      else
        rbind (wl_buffer_copy b 4) (\<lambda>xs.
        rbind (load32 xs 0) (\<lambda>fd.
          Inr (Some (Arg_word fd), s\<lparr>dm_conn := (dm_conn s)\<lparr>fds_in := buf_consume b 4\<rparr>\<rparr>))))"

definition demarshal_arg ::
    "(u64 \<Rightarrow> bool) \<Rightarrow> u64 \<Rightarrow> bytes \<Rightarrow> nat \<Rightarrow> char \<Rightarrow> bool \<Rightarrow> demarshal_state \<Rightarrow>
     (wl_argument option \<times> demarshal_state) res" where
  "demarshal_arg mem_ok junk m en t nullable s =
     (if t \<in> set ''uif'' then rbind (take_word m s) (\<lambda>(w, s). Inr (Some (Arg_word w), s))
      else if t = CHR ''s'' then demarshal_string m en s
      else if t = CHR ''o'' then
        rbind (take_word m s) (\<lambda>(w, s). Inr (if w = 0 \<and> \<not> nullable then None else Some (Arg_word w), s))
      else if t = CHR ''n'' then demarshal_new_id mem_ok junk nullable m s
      else if t = CHR ''a'' then demarshal_array m en s
      else if t = CHR ''h'' then demarshal_fd s
      else Inl AssertFailed)"

text \<open>The loop over the signature.  A message that ends too early is reported with the word at \<open>p\<close>,
  which lies behind the end.\<close>

fun demarshal_loop ::
    "(u64 \<Rightarrow> bool) \<Rightarrow> u64 \<Rightarrow> bytes \<Rightarrow> nat \<Rightarrow> nat \<Rightarrow> string \<Rightarrow> demarshal_state \<Rightarrow>
     (wl_argument list option \<times> demarshal_state) res" where
  "demarshal_loop mem_ok junk m en 0 sg s = Inr (Some [], s)"
| "demarshal_loop mem_ok junk m en (Suc n) sg s =
     (case get_next_argument sg of
        ((t, nullable), sg) \<Rightarrow>
          if t \<noteq> CHR ''h'' \<and> en < dm_pos s + 1 then
            rbind (load32 m (4 * dm_pos s)) (\<lambda>_. Inr (None, s))
          else
            rbind (demarshal_arg mem_ok junk m en t nullable s) (\<lambda>(r, s).
              case r of
                None \<Rightarrow> Inr (None, s)
              | Some a \<Rightarrow>
                  rbind (demarshal_loop mem_ok junk m en n sg s) (\<lambda>(r, s). Inr (map_option ((#) a) r, s))))"

text \<open>\<open>mem\<close> tells whether the closure can be allocated, \<open>mem_ok\<close> and \<open>junk\<close> are those of the map.\<close>

definition wl_connection_demarshal ::
    "bool \<Rightarrow> (u64 \<Rightarrow> bool) \<Rightarrow> u64 \<Rightarrow> wl_connection \<Rightarrow> u32 \<Rightarrow> wl_map \<Rightarrow> wl_message \<Rightarrow>
     (wl_closure option \<times> wl_connection \<times> wl_map) res" where
  "wl_connection_demarshal mem mem_ok junk c sz objects msg =
     rbind (signature_of msg) (\<lambda>sg.
       let n = arg_count_for_signature sg; size = unat sz in
       if WL_CLOSURE_MAX_ARGS < n then Inr (None, wl_connection_consume c size, objects)
       else
         rbind (wl_message_count_arrays msg) (\<lambda>num_arrays.
           if \<not> mem then Inr (None, wl_connection_consume c size, objects)
           else
             rbind (wl_connection_copy c size) (\<lambda>m.
             rbind (load32 m 0) (\<lambda>sender.
             rbind (load32 m 4) (\<lambda>op.
             rbind (demarshal_loop mem_ok junk m (size div 4) n sg
                      \<lparr>dm_pos = 2, dm_extra = num_arrays, dm_conn = c, dm_objects = objects\<rparr>) (\<lambda>(r, s).
               Inr (map_option (\<lambda>as. \<lparr>cl_count = n, cl_message = msg, cl_opcode = op AND 0xffff,
                                       cl_sender_id = sender, cl_args = as\<rparr>) r,
                    wl_connection_consume (dm_conn s) size, dm_objects s)))))))"

section \<open>Looking up objects\<close>

definition wl_interface_equal :: "imem \<Rightarrow> iptr \<Rightarrow> iptr \<Rightarrow> bool" where
  "wl_interface_equal im a b \<longleftrightarrow> a = b \<or> intf_name (intf_at im a) = intf_name (intf_at im b)"

definition type_at :: "wl_message \<Rightarrow> nat \<Rightarrow> iptr option res" where
  "type_at msg i = (case wlm_types msg of None \<Rightarrow> Inl NullDeref | Some ts \<Rightarrow> nth_res ts i)"

text \<open>\<open>zombie\<close> is the address of \<open>global_zombie_object\<close>.  The flag is that the object was found and
  has the type.\<close>

definition lookup_object ::
    "imem \<Rightarrow> ostore \<Rightarrow> u64 \<Rightarrow> wl_map \<Rightarrow> wl_message \<Rightarrow> nat \<Rightarrow> u32 \<Rightarrow> (bool \<times> u64) res" where
  "lookup_object im st zombie objects msg i w =
     rbind (wl_map_lookup objects w) (\<lambda>p.
       let ob = (if p = zombie then 0 else p) in
       if p \<noteq> zombie \<and> p = 0 \<and> w \<noteq> 0 then Inr (False, 0)
       else if ob = 0 then Inr (True, 0)
       else
         rbind (type_at msg i) (\<lambda>ty.
           case ty of
             None \<Rightarrow> Inr (True, ob)
           | Some ty \<Rightarrow>
               rbind (object_at st ob) (\<lambda>obj.
                 Inr (if wl_interface_equal im (obj_interface obj) ty then (True, ob) else (False, 0)))))"

fun lookup_loop ::
    "imem \<Rightarrow> ostore \<Rightarrow> u64 \<Rightarrow> wl_map \<Rightarrow> wl_message \<Rightarrow> nat \<Rightarrow> string \<Rightarrow> wl_argument list \<Rightarrow>
     (int \<times> wl_argument list) res" where
  "lookup_loop im st zombie objects msg i sg [] = Inr (0, [])"
| "lookup_loop im st zombie objects msg i sg (a # as) =
     (case get_next_argument sg of
        ((t, _), sg) \<Rightarrow>
          if t = CHR ''o'' then
            rbind (word_member a) (\<lambda>w.
            rbind (lookup_object im st zombie objects msg i w) (\<lambda>(ok, p).
              if \<not> ok then Inr (- 1, Arg_object 0 # as)
              else
                rbind (lookup_loop im st zombie objects msg (i + 1) sg as) (\<lambda>(r, as).
                  Inr (r, Arg_object p # as))))
          else
            rbind (lookup_loop im st zombie objects msg (i + 1) sg as) (\<lambda>(r, as). Inr (r, a # as)))"

definition wl_closure_lookup_objects ::
    "imem \<Rightarrow> ostore \<Rightarrow> u64 \<Rightarrow> wl_closure \<Rightarrow> wl_map \<Rightarrow> (int \<times> wl_closure) res" where
  "wl_closure_lookup_objects im st zombie cl objects =
     rbind (signature_of (cl_message cl)) (\<lambda>sg.
     rbind (closure_args cl (arg_count_for_signature sg)) (\<lambda>as.
     rbind (lookup_loop im st zombie objects (cl_message cl) 0 sg as) (\<lambda>(r, as').
       Inr (r, cl\<lparr>cl_args := as' @ drop (length as') (cl_args cl)\<rparr>))))"

section \<open>Serialising and sending\<close>

fun copy_fds_loop ::
    "string \<Rightarrow> wl_argument list \<Rightarrow> wl_connection \<Rightarrow> send_result list \<Rightarrow>
     (int \<times> wl_connection \<times> send_result list) res option" where
  "copy_fds_loop sg [] c rs = Some (Inr (0, c, rs))"
| "copy_fds_loop sg (a # as) c rs =
     (case get_next_argument sg of
        ((t, _), sg) \<Rightarrow>
          if t \<noteq> CHR ''h'' then copy_fds_loop sg as c rs
          else
            (case word_member a of
               Inl e \<Rightarrow> Some (Inl e)
             | Inr fd \<Rightarrow>
                 (case wl_connection_put_fd rs c fd of
                    None \<Rightarrow> None
                  | Some (Inl e) \<Rightarrow> Some (Inl e)
                  | Some (Inr (r, c, rs)) \<Rightarrow>
                      if r \<noteq> 0 then Some (Inr (- 1, c, rs)) else copy_fds_loop sg as c rs)))"

definition closure_signature :: "wl_closure \<Rightarrow> (string \<times> wl_argument list) res" where
  "closure_signature cl =
     rbind (signature_of (cl_message cl)) (\<lambda>sg.
     rbind (closure_args cl (arg_count_for_signature sg)) (\<lambda>as. Inr (sg, as)))"

definition copy_fds_to_connection ::
    "send_result list \<Rightarrow> wl_closure \<Rightarrow> wl_connection \<Rightarrow>
     (int \<times> wl_connection \<times> send_result list) res option" where
  "copy_fds_to_connection rs cl c =
     (case closure_signature cl of
        Inl e \<Rightarrow> Some (Inl e)
      | Inr (sg, as) \<Rightarrow> copy_fds_loop sg as c rs)"

text \<open>The words of one argument as \<open>buffer_size_for_closure\<close> counts them, in \<open>uint32_t\<close>.\<close>

definition string_size :: "bytes \<Rightarrow> u32 res" where
  "string_size m = rbind (c_str m) (\<lambda>s. Inr (of_nat (length s) + 1))"

definition arg_words :: "char \<Rightarrow> wl_argument \<Rightarrow> u32 res" where
  "arg_words t a =
     (if t \<in> set ''uifon'' then Inr 1
      else if t = CHR ''s'' then
        rbind (string_member a) (\<lambda>p.
          case p of
            None \<Rightarrow> Inr 1
          | Some m \<Rightarrow> rbind (string_size m) (\<lambda>n. Inr (of_nat (1 + div_roundup4 (unat n)))))
      else if t = CHR ''a'' then
        rbind (array_member a) (\<lambda>p.
          case p of
            None \<Rightarrow> Inr 1
          | Some ar \<Rightarrow> Inr (of_nat (1 + div_roundup4 (unat (ucast (arr_size ar) :: u32)))))
      else Inr 0)"

fun size_loop :: "string \<Rightarrow> wl_argument list \<Rightarrow> u32 \<Rightarrow> u32 res" where
  "size_loop sg [] n = Inr (n + 2)"
| "size_loop sg (a # as) n =
     (case get_next_argument sg of
        ((t, _), sg) \<Rightarrow> rbind (arg_words t a) (\<lambda>k. size_loop sg as (n + k)))"

definition buffer_size_for_closure :: "wl_closure \<Rightarrow> u32 res" where
  "buffer_size_for_closure cl = rbind (closure_signature cl) (\<lambda>(sg, as). size_loop sg as 0)"

text \<open>The buffer is bytes, \<open>p\<close> counts words; \<open>None\<close> is the jump to \<open>overflow\<close>.\<close>

definition put_words :: "u32 list \<Rightarrow> nat \<Rightarrow> bytes \<Rightarrow> (nat \<times> bytes) option res" where
  "put_words ws p buf = rbind (memcpy_to buf (4 * p) (words_bytes ws)) (\<lambda>buf. Inr (Some (p + length ws, buf)))"

text \<open>\<open>*p++ = size\<close>, the check of the room and the copy of \<open>size\<close> bytes from \<open>src\<close>.\<close>

definition put_blob :: "u32 \<Rightarrow> bytes \<Rightarrow> nat \<Rightarrow> nat \<Rightarrow> bytes \<Rightarrow> (nat \<times> bytes) option res" where
  "put_blob n src en p buf =
     rbind (memcpy_to buf (4 * p) (bytes32 n)) (\<lambda>buf.
       let p = p + 1; words = div_roundup4 (unat n) in
       if en < p + words then Inr None
       else
         rbind (memcpy_from src 0 (unat n)) (\<lambda>xs.
         rbind (memcpy_to buf (4 * p) xs) (\<lambda>buf. Inr (Some (p + words, buf)))))"

definition serialize_arg ::
    "ostore \<Rightarrow> nat \<Rightarrow> char \<Rightarrow> wl_argument \<Rightarrow> nat \<Rightarrow> bytes \<Rightarrow> (nat \<times> bytes) option res" where
  "serialize_arg st en t a p buf =
     (if t \<in> set ''uifn'' then rbind (word_member a) (\<lambda>w. put_words [w] p buf)
      else if t = CHR ''o'' then
        rbind (object_member a) (\<lambda>ob.
        rbind (if ob = 0 then Inr 0 else rbind (object_at st ob) (\<lambda>obj. Inr (obj_id obj))) (\<lambda>w. put_words [w] p buf))
      else if t = CHR ''s'' then
        rbind (string_member a) (\<lambda>s.
          case s of
            None \<Rightarrow> put_words [0] p buf
          | Some m \<Rightarrow> rbind (string_size m) (\<lambda>n. put_blob n m en p buf))
      else if t = CHR ''a'' then
        rbind (array_member a) (\<lambda>ar.
          case ar of
            None \<Rightarrow> put_words [0] p buf
          | Some ar \<Rightarrow> put_blob (ucast (arr_size ar)) (arr_data ar) en p buf)
      else Inr (Some (p, buf)))"

fun serialize_loop ::
    "ostore \<Rightarrow> nat \<Rightarrow> string \<Rightarrow> wl_argument list \<Rightarrow> nat \<Rightarrow> bytes \<Rightarrow> (nat \<times> bytes) option res" where
  "serialize_loop st en sg [] p buf = Inr (Some (p, buf))"
| "serialize_loop st en sg (a # as) p buf =
     (case get_next_argument sg of
        ((t, _), sg) \<Rightarrow>
          if t = CHR ''h'' then serialize_loop st en sg as p buf
          else if en < p + 1 then Inr None
          else
            rbind (serialize_arg st en t a p buf) (\<lambda>r.
              case r of None \<Rightarrow> Inr None | Some (p, buf) \<Rightarrow> serialize_loop st en sg as p buf))"

definition serialize_closure :: "ostore \<Rightarrow> wl_closure \<Rightarrow> bytes \<Rightarrow> nat \<Rightarrow> (int \<times> bytes) res" where
  "serialize_closure st cl buf en =
     (if en < 2 then Inr (- 1, buf)
      else
        rbind (closure_signature cl) (\<lambda>(sg, as).
        rbind (serialize_loop st en sg as 2 buf) (\<lambda>r.
          case r of
            None \<Rightarrow> Inr (- 1, buf)
          | Some (p, buf) \<Rightarrow>
              let size = of_nat (4 * p) :: u32 in
              rbind (memcpy_to buf 0 (words_bytes [cl_sender_id cl, push_bit 16 size OR (cl_opcode cl AND 0xffff)])) (\<lambda>buf.
                Inr (sint size, buf)))))"

text \<open>\<open>wl_closure_send\<close> and \<open>wl_closure_queue\<close> differ in how the bytes are written.  \<open>fresh\<close> is what
  the block for the buffer holds before it is written to.\<close>

definition send_with ::
    "(send_result list \<Rightarrow> wl_connection \<Rightarrow> bytes \<Rightarrow> (int \<times> wl_connection \<times> send_result list) res option) \<Rightarrow>
     bool \<Rightarrow> (nat \<Rightarrow> u8) \<Rightarrow> ostore \<Rightarrow> send_result list \<Rightarrow> wl_closure \<Rightarrow> wl_connection \<Rightarrow>
     (int \<times> wl_connection \<times> send_result list) res option" where
  "send_with write mem_ok fresh st rs cl c =
     (case copy_fds_to_connection rs cl c of
        None \<Rightarrow> None
      | Some (Inl e) \<Rightarrow> Some (Inl e)
      | Some (Inr (r, c, rs)) \<Rightarrow>
          if r \<noteq> 0 then Some (Inr (- 1, c, rs))
          else
            (case buffer_size_for_closure cl of
               Inl e \<Rightarrow> Some (Inl e)
             | Inr n \<Rightarrow>
                 if \<not> mem_ok then Some (Inr (- 1, c, rs))
                 else
                   (case serialize_closure st cl (map fresh [0..<4 * unat n]) (unat n) of
                      Inl e \<Rightarrow> Some (Inl e)
                    | Inr (len, buf) \<Rightarrow>
                        if len < 0 then Some (Inr (- 1, c, rs)) else write rs c (take (nat len) buf))))"

definition wl_closure_send ::
    "bool \<Rightarrow> (nat \<Rightarrow> u8) \<Rightarrow> ostore \<Rightarrow> send_result list \<Rightarrow> wl_closure \<Rightarrow> wl_connection \<Rightarrow>
     (int \<times> wl_connection \<times> send_result list) res option" where
  "wl_closure_send = send_with wl_connection_write"

definition wl_closure_queue ::
    "bool \<Rightarrow> (nat \<Rightarrow> u8) \<Rightarrow> ostore \<Rightarrow> send_result list \<Rightarrow> wl_closure \<Rightarrow> wl_connection \<Rightarrow>
     (int \<times> wl_connection \<times> send_result list) res option" where
  "wl_closure_queue = send_with wl_connection_queue"

section \<open>Printing\<close>

text \<open>\<open>fprintf\<close> of a null string is undefined.  \<open>sec\<close> and \<open>nsec\<close> are the clock.\<close>

definition closure_print_arg ::
    "imem \<Rightarrow> ostore \<Rightarrow> wl_message \<Rightarrow> nat \<Rightarrow> char \<Rightarrow> wl_argument \<Rightarrow> string res" where
  "closure_print_arg im st msg i t a =
     (if t = CHR ''u'' then rbind (word_member a) (\<lambda>w. Inr (show_nat (unat w)))
      else if t = CHR ''i'' then rbind (word_member a) (\<lambda>w. Inr (show_int (sint w)))
      else if t = CHR ''f'' then rbind (word_member a) (\<lambda>w. Inr (show_fixed w))
      else if t = CHR ''s'' then
        rbind (string_member a) (\<lambda>p.
          case p of
            None \<Rightarrow> Inl NullDeref
          | Some m \<Rightarrow> rbind (c_str m) (\<lambda>s. Inr ([CHR 0x22] @ s @ [CHR 0x22])))
      else if t = CHR ''o'' then
        rbind (object_member a) (\<lambda>p.
          if p = 0 then Inr ''nil''
          else rbind (object_at st p) (\<lambda>ob.
                 Inr (intf_name (intf_at im (obj_interface ob)) @ ''@'' @ show_nat (unat (obj_id ob)))))
      else if t = CHR ''n'' then
        rbind (type_at msg i) (\<lambda>ty.
        rbind (word_member a) (\<lambda>w.
          Inr (''new id '' @ (case ty of None \<Rightarrow> ''[unknown]'' | Some p \<Rightarrow> intf_name (intf_at im p)) @ ''@'' @
               (if w \<noteq> 0 then show_nat (unat w) else ''nil''))))
      else if t = CHR ''a'' then Inr ''array''
      else if t = CHR ''h'' then rbind (word_member a) (\<lambda>w. Inr (''fd '' @ show_int (sint w)))
      else Inr '''')"

fun closure_print_loop ::
    "imem \<Rightarrow> ostore \<Rightarrow> wl_message \<Rightarrow> nat \<Rightarrow> string \<Rightarrow> wl_argument list \<Rightarrow> string res" where
  "closure_print_loop im st msg i sg [] = Inr ''''"
| "closure_print_loop im st msg i sg (a # as) =
     (case get_next_argument sg of
        ((t, _), sg) \<Rightarrow>
          rbind (closure_print_arg im st msg i t a) (\<lambda>s.
          rbind (closure_print_loop im st msg (i + 1) sg as) (\<lambda>rest.
            Inr ((if 0 < i then '', '' else '''') @ s @ rest))))"

text \<open>\<^verbatim>\<open>[%10.3f]\<close> of a number of thousandths.\<close>

definition show_time :: "u32 \<Rightarrow> string" where
  "show_time time =
     (let frac = show_nat (unat time mod 1000);
          s = show_nat (unat time div 1000) @ ''.'' @ replicate (3 - length frac) (CHR ''0'') @ frac
      in replicate (10 - length s) (CHR '' '') @ s)"

definition wl_closure_print ::
    "imem \<Rightarrow> ostore \<Rightarrow> int \<Rightarrow> int \<Rightarrow> wl_closure \<Rightarrow> u64 \<Rightarrow> bool \<Rightarrow> string res" where
  "wl_closure_print im st sec nsec cl target sending =
     rbind (signature_of (cl_message cl)) (\<lambda>sg.
     rbind (object_at st target) (\<lambda>ob.
     rbind (closure_args cl (cl_count cl)) (\<lambda>as.
     rbind (closure_print_loop im st (cl_message cl) 0 sg as) (\<lambda>args.
       Inr (''['' @ show_time (word_of_int (sec * 1000000 + nsec div 1000)) @ ''] '' @
            (if sending then '' -> '' else '''') @ intf_name (intf_at im (obj_interface ob)) @ ''@'' @
            show_nat (unat (obj_id ob)) @ ''.'' @ wlm_name (cl_message cl) @ ''('' @ args @ '')'' @ [CHR 0x0A])))))"

end
