(* ===== verification/Closure_Facts.thy ===== *)
theory Closure_Facts
  imports Closure
begin

text \<open>
  What the closures promise: the buffer they are serialised into is exactly as large as was computed,
  and what one side serialises the other side demarshals.  The signature is seen as the list of its
  argument types, and the bytes of an argument as a relation, since the padding holds whatever the
  memory held before.
\<close>

unbundle bit_operations_syntax

section \<open>Signatures as lists of types\<close>

fun tokens :: "bool \<Rightarrow> string \<Rightarrow> (char \<times> bool) list" where
  "tokens nullable [] = []"
| "tokens nullable (c # sg) =
     (if is_arg_type c then (c, nullable) # tokens False sg else tokens (nullable \<or> c = CHR ''?'') sg)"

lemma length_tokens: "length (tokens b sg) = arg_count_for_signature sg"
  by (induction b sg rule: tokens.induct) auto

lemma next_argument_token:
  assumes "tokens b sg = (t, nl) # ts"
  obtains sg' where "next_arg_loop sg b = ((t, nl), sg')" "tokens False sg' = ts"
  using assms by (induction sg b rule: next_arg_loop.induct) (auto split: if_splits)

lemma get_next_argument_token:
  assumes "tokens False sg = (t, nl) # ts"
  obtains sg' where "get_next_argument sg = ((t, nl), sg')" "tokens False sg' = ts"
  using next_argument_token [OF assms] that by (auto simp: get_next_argument_def)

lemma token_types: "(t, nl) \<in> set (tokens b sg) \<Longrightarrow> is_arg_type t"
  by (induction b sg rule: tokens.induct) (auto split: if_splits)

lemma count_arrays_tokens: "count_arrays sg = length (filter (\<lambda>t. fst t = CHR ''a'') (tokens b sg))"
  by (induction b sg rule: tokens.induct) (auto simp: is_arg_type_def)

section \<open>Arguments that fit a signature\<close>

definition object_id :: "ostore \<Rightarrow> u64 \<Rightarrow> u32" where
  "object_id st p = (if p = 0 then 0 else case st p of None \<Rightarrow> 0 | Some ob \<Rightarrow> obj_id ob)"

fun blob_ok :: "u8 wl_array \<Rightarrow> bool" where
  "blob_ok ar \<longleftrightarrow> unat (arr_size ar) < 2 ^ 32 \<and> unat (arr_size ar) \<le> length (arr_data ar)"

text \<open>An argument of the type the signature asks for, alive and not null where it must not be.\<close>

fun arg_ok :: "ostore \<Rightarrow> char \<times> bool \<Rightarrow> wl_argument \<Rightarrow> bool" where
  "arg_ok st (t, nl) (Arg_word w) \<longleftrightarrow> t \<in> set ''uifh'' \<or> t = CHR ''n'' \<and> (w \<noteq> 0 \<or> nl)"
| "arg_ok st (t, nl) (Arg_object p) \<longleftrightarrow>
     t = CHR ''o'' \<and> (if p = 0 then nl else st p \<noteq> None \<and> (object_id st p \<noteq> 0 \<or> nl))"
| "arg_ok st (t, nl) (Arg_string p) \<longleftrightarrow>
     t = CHR ''s'' \<and> (case p of None \<Rightarrow> nl | Some m \<Rightarrow> \<exists>s. c_str m = Inr s \<and> length s + 1 < 2 ^ 32)"
| "arg_ok st (t, nl) (Arg_array p) \<longleftrightarrow>
     t = CHR ''a'' \<and> (case p of None \<Rightarrow> nl | Some ar \<Rightarrow> blob_ok ar)"

text \<open>The words an argument takes in the message.\<close>

fun arg_len :: "char \<Rightarrow> wl_argument \<Rightarrow> nat" where
  "arg_len t (Arg_word w) = (if t = CHR ''h'' then 0 else 1)"
| "arg_len t (Arg_object p) = 1"
| "arg_len t (Arg_string p) =
     (case p of None \<Rightarrow> 1 | Some m \<Rightarrow> (case c_str m of Inl e \<Rightarrow> 1 | Inr s \<Rightarrow> 1 + div_roundup4 (length s + 1)))"
| "arg_len t (Arg_array p) = (case p of None \<Rightarrow> 1 | Some ar \<Rightarrow> 1 + div_roundup4 (unat (arr_size ar)))"

fun body_len :: "(char \<times> bool) list \<Rightarrow> wl_argument list \<Rightarrow> nat" where
  "body_len (t # ts) (a # as) = arg_len (fst t) a + body_len ts as"
| "body_len ts as = 0"

lemma c_str_bounds: "c_str m = Inr s \<Longrightarrow> length s < length m \<and> m ! length s = 0"
  by (induction m arbitrary: s rule: c_str.induct) (auto simp: rbind_eq_Inr split: if_splits)

lemma c_str_prefix: "c_str m = Inr s \<Longrightarrow> c_str (take (length s + 1) m @ xs) = Inr s"
  by (induction m arbitrary: s rule: c_str.induct) (auto simp: rbind_eq_Inr split: if_splits)

lemma unat_u32_nat: "n < 2 ^ 32 \<Longrightarrow> unat (of_nat n :: u32) = n"
  by (simp add: unat_of_nat)

lemma string_size_ok:
  assumes "c_str m = Inr s" "length s + 1 < 2 ^ 32"
  shows "\<exists>n. string_size m = Inr n \<and> unat n = length s + 1"
proof -
  have "string_size m = Inr (of_nat (length s + 1))" using assms(1) by (simp add: string_size_def)
  then show ?thesis using unat_u32_nat [OF assms(2)] by blast
qed

lemma array_size_ok: "unat (w :: u64) < 2 ^ 32 \<Longrightarrow> unat (ucast w :: u32) = unat w"
  by (simp add: unsigned_ucast_eq unsigned_take_bit_eq take_bit_nat_eq_self)

lemma arg_words_len:
  assumes "arg_ok st (t, nl) a"
  shows "arg_words t a = Inr (of_nat (arg_len t a))"
proof (cases a)
  case (Arg_string p)
  then show ?thesis
  proof (cases p)
    case (Some m)
    then obtain s where s: "t = CHR ''s''" "c_str m = Inr s" "length s + 1 < 2 ^ 32"
      using assms Arg_string by auto
    obtain n where "string_size m = Inr n" "unat n = length s + 1" using string_size_ok [OF s(2,3)] by blast
    then show ?thesis using Some Arg_string s by (simp add: arg_words_def)
  qed (use assms in \<open>auto simp: arg_words_def\<close>)
next
  case (Arg_array p)
  then show ?thesis using assms array_size_ok by (cases p) (auto simp: arg_words_def)
qed (use assms in \<open>auto simp: arg_words_def\<close>)

lemma size_loop_len:
  assumes "list_all2 (arg_ok st) ts as" "tokens False sg = ts"
  shows "size_loop sg as n = Inr (n + of_nat (body_len ts as) + 2)"
  using assms
proof (induction ts as arbitrary: sg n rule: list_all2_induct)
  case (Cons t ts a as)
  obtain c nl where t: "t = (c, nl)" by (cases t)
  then obtain sg' where sg': "get_next_argument sg = ((c, nl), sg')" "tokens False sg' = ts"
    using Cons.prems get_next_argument_token by metis
  have "arg_words c a = Inr (of_nat (arg_len c a))" using arg_words_len Cons.hyps(1) t by blast
  then show ?case using Cons.IH [OF sg'(2)] sg'(1) t by (simp add: add.assoc)
qed simp

section \<open>The bytes of the arguments\<close>

definition blob_wire :: "bytes \<Rightarrow> bytes \<Rightarrow> bool" where
  "blob_wire xs w \<longleftrightarrow> (\<exists>pad. w = bytes32 (of_nat (length xs)) @ xs @ pad \<and> length w = 4 * (1 + div_roundup4 (length xs)))"

fun arg_wire :: "ostore \<Rightarrow> char \<Rightarrow> wl_argument \<Rightarrow> bytes \<Rightarrow> bool" where
  "arg_wire st t (Arg_word x) w \<longleftrightarrow> w = (if t = CHR ''h'' then [] else bytes32 x)"
| "arg_wire st t (Arg_object p) w \<longleftrightarrow> w = bytes32 (object_id st p)"
| "arg_wire st t (Arg_string p) w \<longleftrightarrow>
     (case p of
        None \<Rightarrow> w = bytes32 0
      | Some m \<Rightarrow> \<exists>s. c_str m = Inr s \<and> blob_wire (take (length s + 1) m) w)"
| "arg_wire st t (Arg_array p) w \<longleftrightarrow>
     (case p of None \<Rightarrow> w = bytes32 0 | Some ar \<Rightarrow> blob_wire (take (unat (arr_size ar)) (arr_data ar)) w)"

fun body_wire :: "ostore \<Rightarrow> (char \<times> bool) list \<Rightarrow> wl_argument list \<Rightarrow> bytes \<Rightarrow> bool" where
  "body_wire st (t # ts) (a # as) w \<longleftrightarrow> (\<exists>w1 w2. w = w1 @ w2 \<and> arg_wire st (fst t) a w1 \<and> body_wire st ts as w2)"
| "body_wire st ts as w \<longleftrightarrow> w = []"

lemma arg_wire_length:
  assumes "arg_ok st (t, nl) a" "arg_wire st t a w"
  shows "length w = 4 * arg_len t a"
proof (cases a)
  case (Arg_string p)
  then show ?thesis
  proof (cases p)
    case (Some m)
    then obtain s where s: "c_str m = Inr s" "blob_wire (take (length s + 1) m) w"
      using assms(2) Arg_string by auto
    have "length s + 1 \<le> length m" using c_str_bounds [OF s(1)] by simp
    then show ?thesis using s Some Arg_string by (auto simp: blob_wire_def min_def)
  qed (use assms Arg_string in auto)
next
  case (Arg_array p)
  then show ?thesis using assms by (cases p) (auto simp: blob_wire_def min_def)
qed (use assms in auto)

lemma put_word_at:
  assumes "4 * p + 4 \<le> length buf"
  shows "put_words [w] p buf = Inr (Some (p + 1, take (4 * p) buf @ bytes32 w @ drop (4 * (p + 1)) buf))"
  using assms by (simp add: put_words_def memcpy_to_def add.commute)

lemma drop_between: "a \<le> b \<Longrightarrow> drop a xs = take (b - a) (drop a xs) @ drop b xs"
  by (metis append_take_drop_id drop_drop le_add_diff_inverse2)

lemma put_blob_at:
  assumes "length buf = 4 * en" "p + 1 + div_roundup4 (unat n) \<le> en" "unat n \<le> length src"
  shows "\<exists>w. put_blob n src en p buf =
      Inr (Some (p + (1 + div_roundup4 (unat n)),
        take (4 * p) buf @ w @ drop (4 * (p + (1 + div_roundup4 (unat n)))) buf)) \<and>
    blob_wire (take (unat n) src) w"
proof -
  let ?k = "div_roundup4 (unat n)" and ?xs = "take (unat n) src"
  have k: "unat n \<le> 4 * ?k" by (rule div_roundup4_bounds)
  let ?b1 = "take (4 * p) buf @ bytes32 n @ drop (4 * p + 4) buf"
  let ?pad = "take (4 * ?k - unat n) (drop (4 * p + 4 + unat n) buf)"
  have 1: "memcpy_to buf (4 * p) (bytes32 n) = Inr ?b1" using assms by (simp add: memcpy_to_def)
  have xs: "length ?xs = unat n" using assms(3) by simp
  have len: "length ?b1 = 4 * en" using assms by simp
  have pre: "take (4 * p + 4) ?b1 = take (4 * p) buf @ bytes32 n" using assms by simp
  have post: "drop (4 * p + 4 + unat n) ?b1 = drop (4 * p + 4 + unat n) buf" using assms k by (simp add: ac_simps)
  have 2: "memcpy_to ?b1 (4 * (p + 1)) ?xs = Inr (take (4 * p + 4) ?b1 @ ?xs @ drop (4 * p + 4 + unat n) ?b1)"
    unfolding memcpy_to_def xs len using assms k by simp
  have tail: "drop (4 * p + 4 + unat n) buf = ?pad @ drop (4 * (p + (1 + ?k))) buf"
    using drop_between [of "4 * p + 4 + unat n" "4 * (p + (1 + ?k))" buf] k by (simp add: ac_simps)
  let ?w = "bytes32 n @ ?xs @ ?pad"
  have eq: "take (4 * p) buf @ ?w @ drop (4 * (p + (1 + ?k))) buf = take (4 * p + 4) ?b1 @ ?xs @ drop (4 * p + 4 + unat n) ?b1"
    unfolding pre post by (subst tail) (simp only: append_assoc)
  have "memcpy_from src 0 (unat n) = Inr ?xs" using assms(3) by (simp add: memcpy_from_def)
  then have "put_blob n src en p buf = Inr (Some (p + (1 + ?k), take (4 * p) buf @ ?w @ drop (4 * (p + (1 + ?k))) buf))"
    unfolding eq put_blob_def 1 rbind_Inr Let_def using assms(2) 2 by simp
  moreover have "length ?w = 4 * (1 + ?k)" using assms k by simp
  then have "blob_wire ?xs ?w" unfolding blob_wire_def xs by (intro exI [of _ ?pad]) simp
  ultimately show ?thesis by blast
qed

lemma object_word:
  assumes "p = 0 \<or> st p \<noteq> None"
  shows "(if p = 0 then Inr 0 else rbind (object_at st p) (\<lambda>obj. Inr (obj_id obj))) = Inr (object_id st p)"
  using assms by (auto simp: object_at_def object_id_def)

lemma serialize_arg_wire:
  assumes "arg_ok st (t, nl) a" "t \<noteq> CHR ''h''" "length buf = 4 * en" "p + arg_len t a \<le> en"
  shows "\<exists>w. serialize_arg st en t a p buf =
      Inr (Some (p + arg_len t a, take (4 * p) buf @ w @ drop (4 * (p + arg_len t a)) buf)) \<and> arg_wire st t a w"
proof (cases a)
  case (Arg_word x)
  then show ?thesis using assms put_word_at [of p buf x] by (auto simp: serialize_arg_def)
next
  case (Arg_object ob)
  have "ob = 0 \<or> st ob \<noteq> None" using assms(1) Arg_object by (auto split: if_splits)
  then have word: "(if ob = 0 then Inr 0 else rbind (object_at st ob) (\<lambda>obj. Inr (obj_id obj))) = Inr (object_id st ob)"
    using object_word [of ob st] by (simp only:)
  show ?thesis using Arg_object assms put_word_at [of p buf "object_id st ob"]
    by (auto simp: serialize_arg_def word simp del: if_split)
next
  case (Arg_string q)
  show ?thesis
  proof (cases q)
    case None
    then show ?thesis using Arg_string assms put_word_at [of p buf 0] by (auto simp: serialize_arg_def)
  next
    case (Some m)
    then obtain s where s: "t = CHR ''s''" "c_str m = Inr s" "length s + 1 < 2 ^ 32" using assms(1) Arg_string by auto
    obtain n where n: "string_size m = Inr n" "unat n = length s + 1" using string_size_ok [OF s(2,3)] by blast
    have "length s + 1 \<le> length m" using c_str_bounds [OF s(2)] by simp
    then show ?thesis using put_blob_at [OF assms(3), of p n m] n s Some Arg_string assms(4)
      by (auto simp: serialize_arg_def)
  qed
next
  case (Arg_array q)
  show ?thesis
  proof (cases q)
    case None
    then show ?thesis using Arg_array assms put_word_at [of p buf 0] by (auto simp: serialize_arg_def)
  next
    case (Some ar)
    then have ar: "t = CHR ''a''" "unat (arr_size ar) < 2 ^ 32" "unat (arr_size ar) \<le> length (arr_data ar)"
      using assms(1) Arg_array by auto
    show ?thesis using put_blob_at [OF assms(3), of p "ucast (arr_size ar)" "arr_data ar"] ar Some Arg_array assms(4)
        array_size_ok [OF ar(2)]
      by (auto simp: serialize_arg_def)
  qed
qed

lemma serialize_loop_wire:
  assumes "list_all2 (arg_ok st) ts as" "tokens False sg = ts" "length buf = 4 * en" "p + body_len ts as \<le> en"
  shows "\<exists>w. serialize_loop st en sg as p buf =
      Inr (Some (p + body_len ts as, take (4 * p) buf @ w @ drop (4 * (p + body_len ts as)) buf)) \<and>
    body_wire st ts as w \<and> length w = 4 * body_len ts as"
  using assms
proof (induction ts as arbitrary: sg p buf rule: list_all2_induct)
  case (Cons t ts a as)
  obtain c nl where t: "t = (c, nl)" by (cases t)
  then obtain sg' where sg': "get_next_argument sg = ((c, nl), sg')" "tokens False sg' = ts"
    using Cons.prems get_next_argument_token by metis
  have ok: "arg_ok st (c, nl) a" using Cons.hyps t by simp
  show ?case
  proof (cases "c = CHR ''h''")
    case True
    then have "arg_len c a = 0" "arg_wire st c a []" using ok by (cases a; auto)+
    moreover have "p + body_len ts as \<le> en" using Cons.prems(3) t True \<open>arg_len c a = 0\<close> by simp
    then obtain w where "serialize_loop st en sg' as p buf =
        Inr (Some (p + body_len ts as, take (4 * p) buf @ w @ drop (4 * (p + body_len ts as)) buf))"
      "body_wire st ts as w" "length w = 4 * body_len ts as"
      using Cons.IH [OF sg'(2) Cons.prems(2)] by blast
    ultimately show ?thesis using sg'(1) t True
      by (intro exI [of _ w] conjI) (simp_all del: arg_wire.simps, rule exI [of _ "[]"], simp del: arg_wire.simps)
  next
    case False
    let ?k = "arg_len c a"
    have le: "p + ?k + body_len ts as \<le> en" using Cons.prems(3) t by simp
    obtain w where w: "serialize_arg st en c a p buf = Inr (Some (p + ?k, take (4 * p) buf @ w @ drop (4 * (p + ?k)) buf))"
      "arg_wire st c a w" using serialize_arg_wire [OF ok False Cons.prems(2), of p] le by auto
    have lw: "length w = 4 * ?k" by (rule arg_wire_length [OF ok w(2)])
    let ?b = "take (4 * p) buf @ w @ drop (4 * (p + ?k)) buf"
    have lb: "length ?b = 4 * en" using Cons.prems(2) le lw by simp
    have tk: "take (4 * (p + ?k)) ?b = take (4 * p) buf @ w" using Cons.prems(2) le lw by simp
    have dr: "drop (4 * (p + ?k + body_len ts as)) ?b = drop (4 * (p + ?k + body_len ts as)) buf"
      using Cons.prems(2) le lw by (simp add: ac_simps)
    have "?k \<noteq> 0" using False by (cases a) (auto split: option.splits sum.splits)
    then have room: "\<not> en < p + 1" using le by simp
    obtain v where v: "serialize_loop st en sg' as (p + ?k) ?b =
        Inr (Some (p + ?k + body_len ts as, take (4 * (p + ?k)) ?b @ v @ drop (4 * (p + ?k + body_len ts as)) ?b))"
      "body_wire st ts as v" "length v = 4 * body_len ts as"
      using Cons.IH [OF sg'(2) lb le] by blast
    have "serialize_loop st en sg (a # as) p buf = serialize_loop st en sg' as (p + ?k) ?b"
      using sg'(1) False room w(1) by simp
    then show ?thesis using v w(2) lw t unfolding tk dr
      by (intro exI [of _ "w @ v"]) (auto simp: add.assoc)
  qed
qed simp

section \<open>Serialising a closure\<close>

definition closure_ok :: "ostore \<Rightarrow> wl_closure \<Rightarrow> string \<Rightarrow> bool" where
  "closure_ok st cl sg \<longleftrightarrow>
     wlm_signature (cl_message cl) = Some sg \<and> list_all2 (arg_ok st) (tokens False sg) (cl_args cl)"

definition closure_len :: "wl_closure \<Rightarrow> string \<Rightarrow> nat" where
  "closure_len cl sg = 2 + body_len (tokens False sg) (cl_args cl)"

definition header_words :: "wl_closure \<Rightarrow> u32 \<Rightarrow> u32 list" where
  "header_words cl sz = [cl_sender_id cl, push_bit 16 sz OR (cl_opcode cl AND 0xffff)]"

lemma closure_signature_ok:
  assumes "closure_ok st cl sg"
  shows "closure_signature cl = Inr (sg, cl_args cl)"
proof -
  have "length (cl_args cl) = arg_count_for_signature sg"
    using assms by (metis closure_ok_def length_tokens list_all2_lengthD)
  then show ?thesis using assms
    by (simp add: closure_ok_def closure_signature_def signature_of_def closure_args_def)
qed

lemma buffer_size_len:
  assumes "closure_ok st cl sg" "closure_len cl sg < 2 ^ 32"
  shows "\<exists>n. buffer_size_for_closure cl = Inr n \<and> unat n = closure_len cl sg"
proof -
  have "buffer_size_for_closure cl = Inr (of_nat (body_len (tokens False sg) (cl_args cl)) + 2)"
    using size_loop_len [of st "tokens False sg" "cl_args cl" sg 0] closure_signature_ok [OF assms(1)] assms(1)
    by (simp add: buffer_size_for_closure_def closure_ok_def)
  also have "of_nat (body_len (tokens False sg) (cl_args cl)) + 2 = (of_nat (closure_len cl sg) :: u32)"
    by (simp add: closure_len_def)
  finally show ?thesis using unat_u32_nat [OF assms(2)] by blast
qed

lemma serialize_closure_wire:
  assumes "closure_ok st cl sg" "4 * closure_len cl sg < 2 ^ 31" "length buf = 4 * closure_len cl sg"
  shows "\<exists>w. serialize_closure st cl buf (closure_len cl sg) =
      Inr (int (4 * closure_len cl sg), words_bytes (header_words cl (of_nat (4 * closure_len cl sg))) @ w) \<and>
    body_wire st (tokens False sg) (cl_args cl) w \<and> length w = 4 * body_len (tokens False sg) (cl_args cl)"
proof -
  let ?ts = "tokens False sg" and ?as = "cl_args cl" and ?n = "closure_len cl sg"
  have ok: "list_all2 (arg_ok st) ?ts ?as" using assms(1) by (simp add: closure_ok_def)
  obtain w where w: "serialize_loop st ?n sg ?as 2 buf =
      Inr (Some (?n, take (4 * 2) buf @ w @ drop (4 * ?n) buf))" "body_wire st ?ts ?as w" "length w = 4 * body_len ?ts ?as"
    using serialize_loop_wire [OF ok refl assms(3), of 2] by (auto simp: closure_len_def)
  let ?sz = "of_nat (4 * ?n) :: u32"
  have sz: "sint ?sz = int (4 * ?n)"
    using assms(2) by (simp only: signed_of_nat) (simp add: signed_take_bit_int_eq_self)
  have "memcpy_to (take (4 * 2) buf @ w @ drop (4 * ?n) buf) 0 (words_bytes (header_words cl ?sz)) =
      Inr (words_bytes (header_words cl ?sz) @ w)"
    using assms(3) w(3) by (simp add: memcpy_to_def header_words_def closure_len_def)
  then have "serialize_closure st cl buf ?n = Inr (int (4 * ?n), words_bytes (header_words cl ?sz) @ w)"
    using closure_signature_ok [OF assms(1)] w(1) sz
    by (simp only: serialize_closure_def header_words_def rbind_Inr Let_def prod.case option.case) (simp add: closure_len_def)
  then show ?thesis using w by blast
qed

section \<open>Demarshalling what was serialised\<close>

text \<open>The argument the receiver has: the same word, the id of the same object, a string and an array
  with the same contents; an array that is not there comes out empty.\<close>

fun received :: "ostore \<Rightarrow> wl_argument \<Rightarrow> wl_argument \<Rightarrow> bool" where
  "received st (Arg_word x) a \<longleftrightarrow> a = Arg_word x"
| "received st (Arg_object p) a \<longleftrightarrow> a = Arg_word (object_id st p)"
| "received st (Arg_string p) a \<longleftrightarrow>
     (case p of
        None \<Rightarrow> a = Arg_string None
      | Some m \<Rightarrow> \<exists>m'. a = Arg_string (Some m') \<and> c_str m' = c_str m)"
| "received st (Arg_array p) a \<longleftrightarrow>
     (\<exists>ar. a = Arg_array (Some ar) \<and>
       (case p of
          None \<Rightarrow> arr_size ar = 0
        | Some ar' \<Rightarrow> arr_size ar = arr_size ar' \<and>
            take (unat (arr_size ar)) (arr_data ar) = take (unat (arr_size ar')) (arr_data ar')))"

text \<open>The descriptors and the new ids of a message, in order, and their reservation.\<close>

fun message_fds :: "(char \<times> bool) list \<Rightarrow> wl_argument list \<Rightarrow> u32 list" where
  "message_fds (t # ts) (Arg_word w # as) = (if fst t = CHR ''h'' then w # message_fds ts as else message_fds ts as)"
| "message_fds (t # ts) (_ # as) = message_fds ts as"
| "message_fds ts as = []"

fun message_new_ids :: "(char \<times> bool) list \<Rightarrow> wl_argument list \<Rightarrow> u32 list" where
  "message_new_ids (t # ts) (Arg_word w # as) =
     (if fst t = CHR ''n'' then w # message_new_ids ts as else message_new_ids ts as)"
| "message_new_ids (t # ts) (_ # as) = message_new_ids ts as"
| "message_new_ids ts as = []"

fun reserves :: "(u64 \<Rightarrow> bool) \<Rightarrow> u64 \<Rightarrow> u32 list \<Rightarrow> wl_map \<Rightarrow> wl_map \<Rightarrow> bool" where
  "reserves mem_ok junk [] mp mp' \<longleftrightarrow> mp' = mp"
| "reserves mem_ok junk (i # ids) mp mp' \<longleftrightarrow>
     (\<exists>mp1. wl_map_reserve_new mem_ok junk mp i = Inr (0, mp1) \<and> reserves mem_ok junk ids mp1 mp')"

lemma take_word_at:
  "length pre = 4 * dm_pos s \<Longrightarrow> take_word (pre @ bytes32 x @ post) s = Inr (x, s\<lparr>dm_pos := dm_pos s + 1\<rparr>)"
  by (simp add: take_word_def) (metis load32_at rbind_Inr)

lemma blob_wire_split:
  assumes "blob_wire xs w"
  obtains pad where "w = bytes32 (of_nat (length xs)) @ xs @ pad"
    "length w = 4 * (1 + div_roundup4 (length xs))"
  using assms by (auto simp: blob_wire_def)

lemma demarshal_string_at:
  assumes "c_str src = Inr str" "length str + 1 < 2 ^ 32" "blob_wire (take (length str + 1) src) w"
    and "length pre = 4 * dm_pos s" "length (pre @ w @ post) = 4 * en"
  shows "\<exists>m'. demarshal_string (pre @ w @ post) en s =
      Inr (Some (Arg_string (Some m')), s\<lparr>dm_pos := dm_pos s + (1 + div_roundup4 (length str + 1))\<rparr>) \<and> c_str m' = Inr str"
proof -
  let ?l = "length str + 1" and ?m = "pre @ w @ post"
  let ?xs = "take ?l src"
  have b: "length str < length src" "src ! length str = 0" using c_str_bounds [OF assms(1)] by auto
  then have l: "length ?xs = ?l" by simp
  obtain pad where w: "w = bytes32 (of_nat ?l) @ ?xs @ pad" "length w = 4 * (1 + div_roundup4 ?l)"
    using blob_wire_split [OF assms(3)] unfolding l by metis
  have n: "unat (of_nat ?l :: u32) = ?l" by (rule unat_u32_nat [OF assms(2)])
  then have z: "(of_nat ?l :: u32) \<noteq> 0" by (metis add_is_0 unsigned_0 zero_neq_one)
  have tk: "take_word ?m s = Inr (of_nat ?l, s\<lparr>dm_pos := dm_pos s + 1\<rparr>)"
    unfolding w(1) append_assoc by (rule take_word_at [OF assms(4)])
  have room: "\<not> en < dm_pos s + 1 + div_roundup4 ?l" using assms(4,5) w(2) by simp
  have dr: "drop (4 * (dm_pos s + 1)) ?m = ?xs @ pad @ post"
    unfolding w(1) using assms(4) by (simp add: add.commute)
  have "?m ! (4 * (dm_pos s + 1) + ?l - 1) = drop (4 * (dm_pos s + 1)) ?m ! length str"
    by (subst nth_drop) (use assms(4) w in \<open>simp_all add: ac_simps\<close>)
  also have "\<dots> = 0" unfolding dr using b by (simp add: nth_append)
  finally have last: "nth_res ?m (4 * (dm_pos s + 1) + ?l - 1) = Inr 0"
    using assms(4) w(1) l by (simp add: nth_res_def)
  have "demarshal_string ?m en s =
      Inr (Some (Arg_string (Some (drop (4 * (dm_pos s + 1)) ?m))), s\<lparr>dm_pos := dm_pos s + 1 + div_roundup4 ?l\<rparr>)"
    unfolding demarshal_string_def tk using z n room last by (simp add: Let_def del: of_nat_Suc of_nat_add)
  moreover have "c_str (drop (4 * (dm_pos s + 1)) ?m) = Inr str"
    unfolding dr by (rule c_str_prefix [OF assms(1)])
  ultimately show ?thesis by (simp add: add.assoc)
qed

lemma demarshal_array_at:
  assumes "blob_ok src" "blob_wire (take (unat (arr_size src)) (arr_data src)) w" "0 < dm_extra s"
    and "length pre = 4 * dm_pos s" "length (pre @ w @ post) = 4 * en"
  shows "\<exists>ar. demarshal_array (pre @ w @ post) en s =
      Inr (Some (Arg_array (Some ar)), s\<lparr>dm_pos := dm_pos s + (1 + div_roundup4 (unat (arr_size src))),
        dm_extra := dm_extra s - 1\<rparr>) \<and>
    arr_size ar = arr_size src \<and> take (unat (arr_size src)) (arr_data ar) = take (unat (arr_size src)) (arr_data src)"
proof -
  let ?l = "unat (arr_size src)" and ?m = "pre @ w @ post"
  let ?xs = "take ?l (arr_data src)"
  have l: "length ?xs = ?l" and small: "?l < 2 ^ 32" using assms(1) by simp_all
  obtain pad where w: "w = bytes32 (of_nat ?l) @ ?xs @ pad" "length w = 4 * (1 + div_roundup4 ?l)"
    using blob_wire_split [OF assms(2)] unfolding l by metis
  have n: "unat (of_nat ?l :: u32) = ?l" by (rule unat_u32_nat [OF small])
  have tk: "take_word ?m s = Inr (of_nat ?l, s\<lparr>dm_pos := dm_pos s + 1\<rparr>)"
    unfolding w(1) append_assoc by (rule take_word_at [OF assms(4)])
  have room: "\<not> en < dm_pos s + 1 + div_roundup4 ?l" using assms(4,5) w(2) by simp
  have dr: "drop (4 * (dm_pos s + 1)) ?m = ?xs @ pad @ post"
    unfolding w(1) using assms(4) by (simp add: add.commute)
  let ?ar = "\<lparr>arr_size = ucast (of_nat ?l :: u32), arr_alloc = 0, arr_data = drop (4 * (dm_pos s + 1)) ?m\<rparr>"
  have "unat (arr_size ?ar) = ?l" using n small by (simp add: unsigned_ucast_eq unsigned_take_bit_eq)
  then have sz: "arr_size ?ar = arr_size src" by (metis unsigned_word_eqI)
  have "demarshal_array ?m en s =
      Inr (Some (Arg_array (Some ?ar)), s\<lparr>dm_pos := dm_pos s + 1 + div_roundup4 ?l, dm_extra := dm_extra s - 1\<rparr>)"
    unfolding demarshal_array_def tk using n room assms(3) by (simp add: Let_def)
  moreover have "take ?l (arr_data ?ar) = ?xs" using dr l by simp
  ultimately show ?thesis using sz by (intro exI [of _ ?ar]) (simp add: add.assoc)
qed

lemma demarshal_fd_at:
  assumes "buf_wf (fds_in (dm_conn s))" "contents (fds_in (dm_conn s)) = bytes32 fd @ rest"
  shows "\<exists>b. demarshal_fd s = Inr (Some (Arg_word fd), s\<lparr>dm_conn := (dm_conn s)\<lparr>fds_in := b\<rparr>\<rparr>) \<and>
    buf_wf b \<and> contents b = rest"
proof -
  let ?b = "fds_in (dm_conn s)"
  have "contents ?b \<noteq> []" using assms(2) length_bytes32 [of fd] by (metis append_is_Nil_conv list.size(3) zero_neq_numeral)
  then have ne: "buf_tail ?b \<noteq> buf_head ?b" using size_zero_iff [of ?b] by (auto simp: wl_buffer_size_def)
  have "wl_buffer_copy ?b 4 = Inr (bytes32 fd)"
    using wl_buffer_copy_contents [OF assms(1), of 4] assms(2) by simp
  moreover have "load32 (bytes32 fd) 0 = Inr fd" using load32_bytes32 [of fd "[]"] by simp
  ultimately show ?thesis
    using ne buf_consume_contents [OF assms(1), of 4] assms(2)
    by (intro exI [of _ "buf_consume ?b 4"]) (simp add: demarshal_fd_def Let_def)
qed

lemma fds_in_same [simp]: "c\<lparr>fds_in := fds_in c\<rparr> = c"
  by simp

lemma demarshal_arg_at:
  assumes ok: "arg_ok st (t, nl) a" and wire: "arg_wire st t a w"
    and len: "length pre = 4 * dm_pos s" "length (pre @ w @ post) = 4 * en"
    and fds: "buf_wf (fds_in (dm_conn s))" "contents (fds_in (dm_conn s)) = words_bytes (message_fds [(t, nl)] [a]) @ rest"
    and ids: "reserves mem_ok junk (message_new_ids [(t, nl)] [a]) (dm_objects s) mp'"
    and extra: "t = CHR ''a'' \<Longrightarrow> 0 < dm_extra s"
  shows "\<exists>a' b. demarshal_arg mem_ok junk (pre @ w @ post) en t nl s =
      Inr (Some a', s\<lparr>dm_pos := dm_pos s + arg_len t a, dm_extra := dm_extra s - (if t = CHR ''a'' then 1 else 0),
        dm_conn := (dm_conn s)\<lparr>fds_in := b\<rparr>, dm_objects := mp'\<rparr>) \<and>
    received st a a' \<and> buf_wf b \<and> contents b = rest"
proof -
  let ?m = "pre @ w @ post"
  have tk: "take_word ?m s = Inr (x, s\<lparr>dm_pos := dm_pos s + 1\<rparr>)" if "w = bytes32 x" for x
    unfolding that by (rule take_word_at [OF len(1)])
  show ?thesis
  proof (cases a)
    case (Arg_word x)
    then consider "t \<in> set ''uif''" | "t = CHR ''n''" "x \<noteq> 0 \<or> nl" | "t = CHR ''h''" using ok by auto
    then show ?thesis
    proof cases
      case 1
      then show ?thesis using Arg_word tk [of x] wire fds ids
        by (intro exI [of _ "Arg_word x"] exI [of _ "fds_in (dm_conn s)"]) (auto simp: demarshal_arg_def)
    next
      case 2
      then show ?thesis using Arg_word tk [of x] wire fds ids
        by (intro exI [of _ "Arg_word x"] exI [of _ "fds_in (dm_conn s)"])
          (auto simp: demarshal_arg_def demarshal_new_id_def)
    next
      case 3
      then show ?thesis using Arg_word demarshal_fd_at [of s x rest] fds ids by (auto simp: demarshal_arg_def)
    qed
  next
    case (Arg_object p)
    let ?x = "object_id st p"
    have "t = CHR ''o''" "?x \<noteq> 0 \<or> nl" using ok Arg_object by (auto simp: object_id_def split: if_splits)
    then show ?thesis using Arg_object tk [of ?x] wire fds ids
      by (intro exI [of _ "Arg_word ?x"] exI [of _ "fds_in (dm_conn s)"]) (auto simp: demarshal_arg_def)
  next
    case (Arg_string p)
    then have t: "t = CHR ''s''" using ok by auto
    show ?thesis
    proof (cases p)
      case None
      then show ?thesis using Arg_string t tk [of 0] wire fds ids
        by (intro exI [of _ "Arg_string None"] exI [of _ "fds_in (dm_conn s)"])
          (auto simp: demarshal_arg_def demarshal_string_def)
    next
      case (Some src)
      then obtain str where str: "c_str src = Inr str" "length str + 1 < 2 ^ 32" "blob_wire (take (length str + 1) src) w"
        using ok wire Arg_string by auto
      obtain m' where "demarshal_string ?m en s =
          Inr (Some (Arg_string (Some m')), s\<lparr>dm_pos := dm_pos s + (1 + div_roundup4 (length str + 1))\<rparr>)" "c_str m' = Inr str"
        using demarshal_string_at [OF str len] by blast
      then show ?thesis using Arg_string Some t str(1) fds ids
        by (intro exI [of _ "Arg_string (Some m')"] exI [of _ "fds_in (dm_conn s)"]) (auto simp: demarshal_arg_def)
    qed
  next
    case (Arg_array p)
    then have t: "t = CHR ''a''" using ok by auto
    show ?thesis
    proof (cases p)
      case None
      have "4 * en = 4 * dm_pos s + 4 + length post" using len None Arg_array wire by simp
      then have "\<not> en < dm_pos s + 1" by simp
      then show ?thesis using Arg_array None t tk [of 0] wire fds ids extra
        by (intro exI [of _ "Arg_array (Some \<lparr>arr_size = 0, arr_alloc = 0, arr_data = drop (4 * (dm_pos s + 1)) ?m\<rparr>)"]
            exI [of _ "fds_in (dm_conn s)"])
          (auto simp: demarshal_arg_def demarshal_array_def Let_def div_roundup4_def)
    next
      case (Some src)
      then have "blob_ok src" "blob_wire (take (unat (arr_size src)) (arr_data src)) w"
        using ok wire Arg_array by auto
      from demarshal_array_at [OF this extra [OF t] len] obtain ar where
        "demarshal_array ?m en s = Inr (Some (Arg_array (Some ar)),
          s\<lparr>dm_pos := dm_pos s + (1 + div_roundup4 (unat (arr_size src))), dm_extra := dm_extra s - 1\<rparr>)"
        "arr_size ar = arr_size src" "take (unat (arr_size src)) (arr_data ar) = take (unat (arr_size src)) (arr_data src)"
        by blast
      then show ?thesis using Arg_array Some t fds ids
        by (intro exI [of _ "Arg_array (Some ar)"] exI [of _ "fds_in (dm_conn s)"]) (auto simp: demarshal_arg_def)
    qed
  qed
qed

text \<open>What a type contributes to the message and to the state, split off the front.\<close>

lemma message_fds_Cons: "message_fds (t # ts) (a # as) = message_fds [t] [a] @ message_fds ts as"
  by (cases a) auto

lemma message_new_ids_Cons: "message_new_ids (t # ts) (a # as) = message_new_ids [t] [a] @ message_new_ids ts as"
  by (cases a) auto

lemma reserves_append: "reserves mem_ok junk (is @ js) mp mp' \<longleftrightarrow>
    (\<exists>mp1. reserves mem_ok junk is mp mp1 \<and> reserves mem_ok junk js mp1 mp')"
  for "is" :: "u32 list"
  by (induction "is" arbitrary: mp) auto

definition array_types :: "(char \<times> bool) list \<Rightarrow> nat" where
  "array_types ts = length (filter (\<lambda>t. fst t = CHR ''a'') ts)"

lemma demarshal_loop_at:
  assumes "list_all2 (arg_ok st) ts as" "tokens False sg = ts" "body_wire st ts as w"
    and "length pre = 4 * dm_pos s" "length (pre @ w @ post) = 4 * en"
    and "buf_wf (fds_in (dm_conn s))" "contents (fds_in (dm_conn s)) = words_bytes (message_fds ts as) @ rest"
    and "reserves mem_ok junk (message_new_ids ts as) (dm_objects s) mp'" "array_types ts \<le> dm_extra s"
  shows "\<exists>as' s'. demarshal_loop mem_ok junk (pre @ w @ post) en (length as) sg s = Inr (Some as', s') \<and>
    list_all2 (received st) as as' \<and> dm_objects s' = mp' \<and>
    (\<exists>b. dm_conn s' = (dm_conn s)\<lparr>fds_in := b\<rparr> \<and> buf_wf b \<and> contents b = rest)"
  using assms
proof (induction ts as arbitrary: sg w pre s rule: list_all2_induct)
  case Nil
  then show ?case by (auto intro!: exI [of _ "fds_in (dm_conn s)"])
next
  case (Cons ty ts a as)
  obtain t nl where ty: "ty = (t, nl)" by (cases ty)
  have ok: "arg_ok st (t, nl) a" using Cons.hyps(1) ty by simp
  obtain sg' where sg': "get_next_argument sg = ((t, nl), sg')" "tokens False sg' = ts"
    using Cons.prems(1) ty get_next_argument_token by metis
  obtain w1 w2 where w: "w = w1 @ w2" "arg_wire st t a w1" "body_wire st ts as w2" using Cons.prems(2) ty by auto
  have lw: "length w1 = 4 * arg_len t a" by (rule arg_wire_length [OF ok w(2)])
  have m: "pre @ w @ post = pre @ w1 @ (w2 @ post)" and m': "pre @ w @ post = (pre @ w1) @ w2 @ post"
    by (simp_all add: w)
  obtain mp1 where mp1: "reserves mem_ok junk (message_new_ids [(t, nl)] [a]) (dm_objects s) mp1"
    "reserves mem_ok junk (message_new_ids ts as) mp1 mp'"
    using Cons.prems(7) unfolding ty message_new_ids_Cons [of "(t, nl)" ts a as] reserves_append by blast
  have fds: "contents (fds_in (dm_conn s)) =
      words_bytes (message_fds [(t, nl)] [a]) @ words_bytes (message_fds ts as) @ rest"
    using Cons.prems(6) unfolding ty message_fds_Cons [of "(t, nl)" ts a as] by simp
  have ex: "0 < dm_extra s" if "t = CHR ''a''" using Cons.prems(8) that ty by (simp add: array_types_def)
  obtain a' b where a: "demarshal_arg mem_ok junk (pre @ w @ post) en t nl s =
      Inr (Some a', s\<lparr>dm_pos := dm_pos s + arg_len t a, dm_extra := dm_extra s - (if t = CHR ''a'' then 1 else 0),
        dm_conn := (dm_conn s)\<lparr>fds_in := b\<rparr>, dm_objects := mp1\<rparr>)"
    "received st a a'" "buf_wf b" "contents b = words_bytes (message_fds ts as) @ rest"
    using demarshal_arg_at [OF ok w(2) Cons.prems(3) Cons.prems(4) [unfolded m] Cons.prems(5) fds mp1(1) ex]
    unfolding m by blast
  let ?s = "s\<lparr>dm_pos := dm_pos s + arg_len t a, dm_extra := dm_extra s - (if t = CHR ''a'' then 1 else 0),
        dm_conn := (dm_conn s)\<lparr>fds_in := b\<rparr>, dm_objects := mp1\<rparr>"
  have pos: "length (pre @ w1) = 4 * dm_pos ?s" using Cons.prems(3) lw by simp
  have left: "array_types ts \<le> dm_extra ?s" using Cons.prems(8) ty by (auto simp: array_types_def)
  obtain as' s' where r: "demarshal_loop mem_ok junk (pre @ w @ post) en (length as) sg' ?s = Inr (Some as', s')"
    "list_all2 (received st) as as'" "dm_objects s' = mp'"
    "\<exists>b. dm_conn s' = (dm_conn ?s)\<lparr>fds_in := b\<rparr> \<and> buf_wf b \<and> contents b = rest"
    using Cons.IH [OF sg'(2) w(3) pos Cons.prems(4) [unfolded m'] _ _ _ left] a(3,4) mp1(2) unfolding m' by auto
  have room: "\<not> (t \<noteq> CHR ''h'' \<and> en < dm_pos s + 1)"
  proof -
    have "4 * dm_pos s + 4 * arg_len t a \<le> 4 * en" using Cons.prems(3,4) lw w(1) by simp
    moreover have "arg_len t a \<noteq> 0" if "t \<noteq> CHR ''h''" using that by (cases a) (auto split: option.splits sum.splits)
    ultimately show ?thesis by fastforce
  qed
  have "demarshal_loop mem_ok junk (pre @ w @ post) en (length (a # as)) sg s = Inr (Some (a' # as'), s')"
    using sg'(1) room a(1) r(1) by (simp only: demarshal_loop.simps length_Cons prod.case if_False rbind_Inr option.case) simp
  then show ?case using a(2) r(2-4) by auto
qed

lemma demarshal_serialized:
  assumes ok: "closure_ok st cl sg" and n: "length (cl_args cl) \<le> 20"
    and w: "body_wire st (tokens False sg) (cl_args cl) w" "length w = 4 * body_len (tokens False sg) (cl_args cl)"
    and c: "conn_wf c" "contents (conn_in c) = (words_bytes (header_words cl sz) @ w) @ rest"
    and fds: "contents (fds_in c) = words_bytes (message_fds (tokens False sg) (cl_args cl)) @ frest"
    and ids: "reserves mem_ok junk (message_new_ids (tokens False sg) (cl_args cl)) mp mp'"
  shows "\<exists>as c'. wl_connection_demarshal True mem_ok junk c (of_nat (4 * closure_len cl sg)) mp (cl_message cl) =
      Inr (Some \<lparr>cl_count = length (cl_args cl), cl_message = cl_message cl, cl_opcode = cl_opcode cl AND 0xffff,
                 cl_sender_id = cl_sender_id cl, cl_args = as\<rparr>, c', mp') \<and>
    list_all2 (received st) (cl_args cl) as \<and> conn_wf c' \<and> contents (conn_in c') = rest \<and> contents (fds_in c') = frest"
proof -
  let ?ts = "tokens False sg" and ?as = "cl_args cl" and ?m = "words_bytes (header_words cl sz) @ w"
  let ?n = "4 * closure_len cl sg"
  have sig: "wlm_signature (cl_message cl) = Some sg" and all: "list_all2 (arg_ok st) ?ts ?as"
    using ok by (simp_all add: closure_ok_def)
  have cnt: "arg_count_for_signature sg = length ?as" using all by (metis length_tokens list_all2_lengthD)
  have lm: "length ?m = ?n" using w(2) by (simp add: header_words_def closure_len_def)
  have "length (contents (conn_in c)) \<le> 4096" using ring.abs_cap c(1) by (auto simp: conn_wf_def)
  then have small: "?n \<le> 4096" using c(2) lm by simp
  have sz: "unat (of_nat ?n :: u32) = ?n" by (rule unat_u32_nat) (use small in simp)
  have wf: "buf_wf (conn_in c)" "buf_wf (fds_in c)" using c(1) by (simp_all add: conn_wf_def)
  have copy: "wl_connection_copy c ?n = Inr ?m"
    using wl_buffer_copy_contents [OF wf(1), of ?n] c(2) lm by (simp add: wl_connection_copy_def)
  have hd: "load32 ?m 0 = Inr (cl_sender_id cl)"
    "load32 ?m 4 = Inr (push_bit 16 sz OR (cl_opcode cl AND 0xffff))"
    using load32_bytes32 load32_append_right [of "bytes32 (cl_sender_id cl)" 4]
    by (simp_all add: header_words_def load32_bytes32)
  let ?s = "\<lparr>dm_pos = 2, dm_extra = count_arrays sg, dm_conn = c, dm_objects = mp\<rparr>"
  obtain as s' where loop: "demarshal_loop mem_ok junk ?m (closure_len cl sg) (length ?as) sg ?s = Inr (Some as, s')"
    "list_all2 (received st) ?as as" "dm_objects s' = mp'"
    "\<exists>b. dm_conn s' = c\<lparr>fds_in := b\<rparr> \<and> buf_wf b \<and> contents b = frest"
    using demarshal_loop_at [OF all refl w(1), of "words_bytes (header_words cl sz)" ?s "[]" "closure_len cl sg" frest mem_ok junk mp']
      lm wf fds ids by (auto simp: header_words_def array_types_def count_arrays_tokens [of _ False])
  obtain b where b: "dm_conn s' = c\<lparr>fds_in := b\<rparr>" "buf_wf b" "contents b = frest" using loop(4) by blast
  let ?c = "wl_connection_consume (dm_conn s') ?n"
  have out: "conn_wf ?c \<and> contents (conn_in ?c) = rest \<and> contents (fds_in ?c) = frest"
    using buf_consume_contents [OF wf(1), of ?n] c b lm by (auto simp: wl_connection_consume_def conn_wf_def)
  have small16: "4096 < (2 :: nat) ^ 16" by simp
  have "?n div 4 = closure_len cl sg" by simp
  then have "wl_connection_demarshal True mem_ok junk c (of_nat ?n) mp (cl_message cl) =
      Inr (Some \<lparr>cl_count = length ?as, cl_message = cl_message cl, cl_opcode = cl_opcode cl AND 0xffff,
                 cl_sender_id = cl_sender_id cl, cl_args = as\<rparr>, ?c, mp')"
    using n copy hd loop(1,3)
    by (simp only: wl_connection_demarshal_def wl_message_count_arrays_def signature_of_def sig option.case rbind_Inr Let_def
        sz cnt header_parts(2) [OF small16] WL_CLOSURE_MAX_ARGS_def prod.case) simp
  then show ?thesis using loop(2) out by blast
qed

section \<open>Properties\<close>

text \<open>C18: The buffer of a closure is exactly as large as was computed: whatever the memory held before,
  serialising never runs into the check for the room and fills the buffer to its end, with the
  sender, the size and the opcode in front.\<close>

theorem closure_fits_buffer:
  assumes "closure_ok st cl sg" "4 * closure_len cl sg < 2 ^ 31"
  shows "\<exists>n w. buffer_size_for_closure cl = Inr n \<and> unat n = closure_len cl sg \<and>
    serialize_closure st cl (map fresh [0..<4 * unat n]) (unat n) =
      Inr (4 * int (unat n), words_bytes (header_words cl (4 * n)) @ w) \<and>
    4 * unat n = length (words_bytes (header_words cl (4 * n)) @ w)"
proof -
  obtain n where n: "buffer_size_for_closure cl = Inr n" "unat n = closure_len cl sg"
    using buffer_size_len [OF assms(1)] assms(2) by auto
  have sz: "of_nat (4 * closure_len cl sg) = 4 * n" by (simp flip: n(2))
  obtain w where w: "serialize_closure st cl (map fresh [0..<4 * unat n]) (unat n) =
      Inr (int (4 * unat n), words_bytes (header_words cl (4 * n)) @ w)"
    "length w = 4 * body_len (tokens False sg) (cl_args cl)"
    using serialize_closure_wire [OF assms, of "map fresh [0..<4 * unat n]"] unfolding sz n(2) by auto
  have "4 * unat n = length (words_bytes (header_words cl (4 * n)) @ w)"
    unfolding n(2) using w(2) by (simp add: header_words_def closure_len_def)
  then show ?thesis using n w(1) by (intro exI [of _ n] exI [of _ w]) simp
qed

definition bind_message :: wl_message where
  "bind_message = \<lparr>wlm_name = ''bind'', wlm_signature = Some ''2us?on'', wlm_types = Some [None, None, None, None]\<rparr>"

text \<open>A closure with a word, a string, no object and a new id.\<close>

definition example_closure :: wl_closure where
  "example_closure = \<lparr>cl_count = 4, cl_message = bind_message, cl_opcode = 3, cl_sender_id = 2,
     cl_args = [Arg_word 7, Arg_string (Some (str_bytes ''ab'' @ [0])), Arg_object 0, Arg_word 1]\<rparr>"

lemma example_tokens:
  "tokens False ''2us?on'' = [(CHR ''u'', False), (CHR ''s'', False), (CHR ''o'', True), (CHR ''n'', False)]"
  by (simp add: is_arg_type_def)

lemma example_string: "c_str (str_bytes ''ab'' @ [0]) = Inr ''ab''"
  using c_str_str_bytes [of "''ab''" "[]"] by (simp add: nul_def)

lemma example_closure_ok: "closure_ok st example_closure ''2us?on''"
  unfolding closure_ok_def example_tokens
  by (simp add: example_closure_def bind_message_def example_string)

lemma example_closure_len: "closure_len example_closure ''2us?on'' = 7"
  unfolding closure_len_def example_tokens
  by (simp add: example_closure_def example_string div_roundup4_def)

lemma example_serialised:
  "\<exists>n buf. buffer_size_for_closure example_closure = Inr n \<and> unat n = 7 \<and>
    serialize_closure st example_closure (map fresh [0..<28]) 7 = Inr (28, buf) \<and> length buf = 28"
proof -
  have "closure_len example_closure ''2us?on'' < 2 ^ 32" "4 * closure_len example_closure ''2us?on'' < 2 ^ 31"
    by (simp_all add: example_closure_len)
  from buffer_size_len [OF example_closure_ok [of st] this(1)]
    serialize_closure_wire [OF example_closure_ok [of st] this(2), of "map fresh [0..<28]"]
  obtain n w where n: "buffer_size_for_closure example_closure = Inr n" "unat n = 7"
    and w: "serialize_closure st example_closure (map fresh [0..<28]) 7 =
        Inr (28, words_bytes (header_words example_closure 28) @ w)"
      "length w = 4 * body_len (tokens False ''2us?on'') (cl_args example_closure)"
    unfolding example_closure_len by auto
  have "length (words_bytes (header_words example_closure 28) @ w) = 28"
    using w(2) example_closure_len by (simp add: header_words_def closure_len_def del: tokens.simps)
  then show ?thesis using n w(1) by blast
qed

theorem closure_fits_buffer_witness:
  "\<exists>n w. buffer_size_for_closure example_closure = Inr n \<and>
    serialize_closure (\<lambda>_. None) example_closure (map (\<lambda>_. 0xee) [0..<28]) 7 = Inr (28, w) \<and> length w = 28"
proof -
  have "4 * closure_len example_closure ''2us?on'' < 2 ^ 31" by (simp add: example_closure_len)
  from closure_fits_buffer [OF example_closure_ok [of "\<lambda>_. None"] this, of "\<lambda>_. 0xee"] obtain n w where
    n: "buffer_size_for_closure example_closure = Inr n" "unat n = 7" and
    "serialize_closure (\<lambda>_. None) example_closure (map (\<lambda>_. 0xee) [0..<4 * unat n]) (unat n) =
      Inr (4 * int (unat n), words_bytes (header_words example_closure (4 * n)) @ w)"
    "4 * unat n = length (words_bytes (header_words example_closure (4 * n)) @ w)"
    unfolding example_closure_len by blast
  then show ?thesis unfolding n(2) by (intro exI [of _ n] exI [of _ "words_bytes (header_words example_closure (4 * n)) @ w"]) simp
qed

text \<open>C9: What one side serialises the other side demarshals: from a connection that holds the bytes of a
  closure, whatever comes behind them, its descriptors and a map that accepts its new ids, the
  receiver gets the same sender, opcode and arguments, and the connection is left with exactly what
  came behind.\<close>

theorem closure_roundtrip:
  assumes "closure_ok st cl sg" "length (cl_args cl) \<le> 20" "4 * closure_len cl sg \<le> 4096"
    and "conn_wf c"
    and "serialize_closure st cl (map fresh [0..<4 * closure_len cl sg]) (closure_len cl sg) = Inr (n, buf)"
    and "contents (conn_in c) = buf @ rest"
    and "contents (fds_in c) = words_bytes (message_fds (tokens False sg) (cl_args cl)) @ frest"
    and "reserves mem_ok junk (message_new_ids (tokens False sg) (cl_args cl)) mp mp'"
  shows "\<exists>as c'. wl_connection_demarshal True mem_ok junk c (word_of_int n) mp (cl_message cl) =
      Inr (Some \<lparr>cl_count = length (cl_args cl), cl_message = cl_message cl, cl_opcode = cl_opcode cl AND 0xffff,
                 cl_sender_id = cl_sender_id cl, cl_args = as\<rparr>, c', mp') \<and>
    list_all2 (received st) (cl_args cl) as \<and> conn_wf c' \<and> contents (conn_in c') = rest \<and> contents (fds_in c') = frest"
proof -
  have "4 * closure_len cl sg < 2 ^ 31" using assms(3) by simp
  then obtain w where w: "n = int (4 * closure_len cl sg)"
    "buf = words_bytes (header_words cl (of_nat (4 * closure_len cl sg))) @ w"
    "body_wire st (tokens False sg) (cl_args cl) w" "length w = 4 * body_len (tokens False sg) (cl_args cl)"
    using serialize_closure_wire [OF assms(1), of "map fresh [0..<4 * closure_len cl sg]"] assms(5) by auto
  have n: "(word_of_int n :: u32) = of_nat (4 * closure_len cl sg)" unfolding w(1) by simp
  show ?thesis unfolding n
    by (rule demarshal_serialized [OF assms(1,2) w(3,4) assms(4) assms(6) [unfolded w(2)] assms(7,8)])
qed


text \<open>A server whose map holds one object of the client and is offered the next id.\<close>

definition example_map :: wl_map where
  "example_map = (wl_map_init WL_MAP_SERVER_SIDE)\<lparr>mp_client := \<lparr>arr_size = 8, arr_alloc = 16, arr_data = [0x1000, 0]\<rparr>\<rparr>"

lemma example_reserves:
  "reserves (\<lambda>_. True) 0 [1] example_map
     (example_map\<lparr>mp_client := \<lparr>arr_size = 16, arr_alloc = 16, arr_data = [0x1000, 0]\<rparr>\<rparr>)"
  by (simp add: example_map_def wl_map_reserve_new_def wl_map_init_def entries_of_def index_of_def entry_count_def
      wl_array_add_def grow_alloc.simps entry_set_def with_entries_def Let_def WL_MAP_SERVER_SIDE_def WL_MAP_CLIENT_SIDE_def
      WL_SERVER_ID_START_def)

theorem closure_roundtrip_witness:
  "\<exists>c as c' mp. wl_connection_demarshal True (\<lambda>_. True) 0 c 28 example_map bind_message =
      Inr (Some \<lparr>cl_count = 4, cl_message = bind_message, cl_opcode = 3, cl_sender_id = 2, cl_args = as\<rparr>, c', mp) \<and>
    list_all2 (received (\<lambda>_. None)) (cl_args example_closure) as \<and> contents (conn_in c') = [9, 9, 9, 9]"
proof -
  let ?cl = "example_closure" and ?sg = "''2us?on''" and ?st = "\<lambda>_. None :: wl_object option"
  obtain buf where
    buf: "serialize_closure ?st ?cl (map (\<lambda>_. 0xee) [0..<4 * closure_len ?cl ?sg]) (closure_len ?cl ?sg) = Inr (28, buf)"
      "length buf = 28"
    using example_serialised [of ?st "\<lambda>_. 0xee"] unfolding example_closure_len by auto
  obtain b where b: "buf_wf b" "contents b = buf @ [9, 9, 9, 9]"
    using wl_buffer_put_contents [OF empty_buffer_wf(1), of "buf @ [9, 9, 9, 9]"] buf(2) empty_buffer_wf(2) by auto
  let ?c = "(wl_connection_create 4)\<lparr>conn_in := b\<rparr>"
  have wf: "conn_wf ?c" using conn_wf_create [of 4] b(1) by (simp add: conn_wf_def)
  have fds: "contents (fds_in ?c) = words_bytes (message_fds (tokens False ?sg) (cl_args ?cl)) @ []"
    unfolding example_tokens by (simp add: wl_connection_create_def empty_buffer_wf example_closure_def)
  have ids: "reserves (\<lambda>_. True) 0 (message_new_ids (tokens False ?sg) (cl_args ?cl)) example_map
     (example_map\<lparr>mp_client := \<lparr>arr_size = 16, arr_alloc = 16, arr_data = [0x1000, 0]\<rparr>\<rparr>)"
    unfolding example_tokens using example_reserves by (simp add: example_closure_def del: reserves.simps)
  have cl: "length (cl_args ?cl) = 4" "cl_message ?cl = bind_message" "cl_opcode ?cl AND 0xffff = 3" "cl_sender_id ?cl = 2"
    by (simp_all add: example_closure_def)
  have "length (cl_args ?cl) \<le> 20" "4 * closure_len ?cl ?sg \<le> 4096" "contents (conn_in ?c) = buf @ [9, 9, 9, 9]"
    using b by (simp_all add: cl example_closure_len)
  from closure_roundtrip [OF example_closure_ok [of ?st] this(1,2) wf buf(1) this(3) fds ids]
  show ?thesis unfolding cl by (simp only: word_of_int_numeral) blast
qed

end
