(* ===== verification/Closure_Calls.thy ===== *)
theory Closure_Calls
  imports Closure_Facts
begin

text \<open>
  The ends of a call: what \<open>wl_closure_marshal\<close> accepts, what \<open>wl_closure_lookup_objects\<close> makes of the
  ids that arrived, and the order in which \<open>wl_closure_send\<close> hands the bytes to the connection.
\<close>

section \<open>Marshalling\<close>

text \<open>An argument as the caller passes it, by the types of the variadic call: objects are alive and
  have an id, also the one that is to be made.\<close>

definition object_alive :: "ostore \<Rightarrow> u64 \<Rightarrow> bool" where
  "object_alive st p \<longleftrightarrow> (\<exists>ob. st p = Some ob \<and> obj_id ob \<noteq> 0)"

fun call_ok :: "ostore \<Rightarrow> char \<times> bool \<Rightarrow> wl_argument \<Rightarrow> bool" where
  "call_ok st (t, nl) (Arg_word w) \<longleftrightarrow> t \<in> set ''uifh''"
| "call_ok st (t, nl) (Arg_object p) \<longleftrightarrow> t \<in> set ''on'' \<and> (p = 0 \<or> object_alive st p)"
| "call_ok st (t, nl) (Arg_string p) \<longleftrightarrow>
     t = CHR ''s'' \<and> (\<forall>m. p = Some m \<longrightarrow> (\<exists>s. c_str m = Inr s \<and> length s + 1 < 2 ^ 32))"
| "call_ok st (t, nl) (Arg_array p) \<longleftrightarrow> t = CHR ''a'' \<and> (\<forall>ar. p = Some ar \<longrightarrow> blob_ok ar)"

text \<open>A null argument where the signature allows none.\<close>

definition null_arg :: "wl_argument \<Rightarrow> bool" where
  "null_arg a \<longleftrightarrow> a \<in> {Arg_object 0, Arg_string None, Arg_array None}"

definition bad_null :: "char \<times> bool \<Rightarrow> wl_argument \<Rightarrow> bool" where
  "bad_null t a \<longleftrightarrow> \<not> snd t \<and> null_arg a"

text \<open>A kernel that never runs out of descriptors.\<close>

definition always_fds :: "syscalls \<Rightarrow> bool" where
  "always_fds sys \<longleftrightarrow> (\<forall>n. \<exists>fd. sys n = Returns fd \<and> 0 \<le> fd)"

lemma dupfd_works:
  assumes "always_fds sys"
  shows "\<exists>fd k'. wl_os_dupfd_cloexec sys k = (fd, k') \<and> 0 \<le> fd"
  using spec [OF assms [unfolded always_fds_def], of "k_calls k"] by (auto simp: wl_os_dupfd_cloexec_def with_flag_def open_fd_def)

lemma marshal_arg_effect:
  assumes "call_ok st (t, nl) a" "always_fds sys"
  shows "\<exists>r k'. marshal_arg sys st t nl a k = Inr (r, k') \<and> (r = None \<longleftrightarrow> bad_null (t, nl) a) \<and>
    (\<forall>a'. r = Some a' \<longrightarrow> arg_ok st (t, nl) a')"
proof (cases a)
  case (Arg_word w)
  obtain fd k' where "wl_os_dupfd_cloexec sys k = (fd, k')" "0 \<le> fd" using dupfd_works [OF assms(2)] by blast
  then show ?thesis using Arg_word assms(1) by (auto simp: marshal_arg_def bad_null_def null_arg_def)
next
  case (Arg_object p)
  then show ?thesis using assms(1)
    by (auto simp: marshal_arg_def bad_null_def null_arg_def object_alive_def object_at_def object_id_def)
next
  case (Arg_string p)
  then show ?thesis using assms(1) by (cases p) (auto simp: marshal_arg_def bad_null_def null_arg_def)
next
  case (Arg_array p)
  then show ?thesis using assms(1) by (cases p) (auto simp: marshal_arg_def bad_null_def null_arg_def)
qed

lemma marshal_loop_effect:
  assumes "list_all2 (call_ok st) ts as" "tokens False sg = ts" "always_fds sys"
  shows "\<exists>r k'. marshal_loop sys st sg as k = Inr (r, k') \<and>
    (r = None \<longleftrightarrow> \<not> list_all2 (\<lambda>t a. \<not> bad_null t a) ts as) \<and>
    (\<forall>as'. r = Some as' \<longrightarrow> list_all2 (arg_ok st) ts as')"
  using assms(1,2)
proof (induction ts as arbitrary: sg k rule: list_all2_induct)
  case (Cons ty ts a as)
  obtain t nl where ty: "ty = (t, nl)" by (cases ty)
  obtain sg' where sg': "get_next_argument sg = ((t, nl), sg')" "tokens False sg' = ts"
    using Cons.prems ty get_next_argument_token by metis
  obtain r k1 where r: "marshal_arg sys st t nl a k = Inr (r, k1)" "r = None \<longleftrightarrow> bad_null (t, nl) a"
    "\<And>a'. r = Some a' \<Longrightarrow> arg_ok st (t, nl) a'"
    using marshal_arg_effect [OF Cons.hyps(1) [unfolded ty] assms(3)] by blast
  obtain q k2 where "marshal_loop sys st sg' as k1 = Inr (q, k2)"
    "q = None \<longleftrightarrow> \<not> list_all2 (\<lambda>t a. \<not> bad_null t a) ts as" "\<And>as'. q = Some as' \<Longrightarrow> list_all2 (arg_ok st) ts as'"
    using Cons.IH [OF sg'(2)] by blast
  then show ?case using r sg'(1) ty by (cases r) auto
qed simp

section \<open>Looking up objects\<close>

text \<open>What has become of an argument: an id is replaced by the object, null for an object that was
  destroyed, and a given type is kept.\<close>

definition looked_up ::
    "imem \<Rightarrow> ostore \<Rightarrow> u64 \<Rightarrow> wl_map \<Rightarrow> wl_message \<Rightarrow> nat \<Rightarrow> char \<Rightarrow> wl_argument \<Rightarrow> wl_argument \<Rightarrow> bool" where
  "looked_up im st zombie objects msg i t a a' \<longleftrightarrow>
     (if t = CHR ''o'' then
        \<exists>w q. a = Arg_word w \<and> wl_map_lookup objects w = Inr q \<and> (q = 0 \<longrightarrow> w = 0) \<and>
          a' = Arg_object (if q = zombie then 0 else q) \<and>
          (\<forall>ty. q \<noteq> zombie \<and> q \<noteq> 0 \<and> type_at msg i = Inr (Some ty) \<longrightarrow>
             (\<exists>ob. st q = Some ob \<and> intf_name (intf_at im (obj_interface ob)) = intf_name (intf_at im ty)))
      else a' = a)"

lemma lookup_object_ok:
  assumes "lookup_object im st zombie objects msg i w = Inr (True, p)" "zombie \<noteq> 0"
  shows "looked_up im st zombie objects msg i (CHR ''o'') (Arg_word w) (Arg_object p)"
proof -
  obtain q where q: "wl_map_lookup objects w = Inr q" using assms(1) by (auto simp: lookup_object_def rbind_eq_Inr)
  show ?thesis unfolding looked_up_def if_P [OF refl]
    using assms
    by (intro exI [of _ w] exI [of _ q])
       (auto simp: q lookup_object_def rbind_eq_Inr object_at_def wl_interface_equal_def Let_def split: if_splits option.splits)
qed

lemma lookup_loop_ok:
  assumes "lookup_loop im st zombie objects msg i sg as = Inr (0, as')" "length (tokens False sg) = length as" "zombie \<noteq> 0"
  shows "length as' = length as \<and> (\<forall>j < length as.
    looked_up im st zombie objects msg (i + j) (fst (tokens False sg ! j)) (as ! j) (as' ! j))"
  using assms(1,2)
proof (induction as arbitrary: i sg as')
  case (Cons a as)
  obtain t nl ts where tok: "tokens False sg = (t, nl) # ts"
    using Cons.prems(2) by (cases "tokens False sg") auto
  obtain sg' where sg': "get_next_argument sg = ((t, nl), sg')" "tokens False sg' = ts"
    using get_next_argument_token [OF tok] .
  have len: "length (tokens False sg') = length as" using Cons.prems(2) tok sg'(2) by simp
  obtain a' bs where a': "as' = a' # bs" "lookup_loop im st zombie objects msg (i + 1) sg' as = Inr (0, bs)"
    "looked_up im st zombie objects msg i t a a'"
  proof (cases "t = CHR ''o''")
    case True
    then obtain w p bs where "a = Arg_word w" "lookup_object im st zombie objects msg i w = Inr (True, p)"
      "lookup_loop im st zombie objects msg (i + 1) sg' as = Inr (0, bs)" "as' = Arg_object p # bs"
      using Cons.prems(1) sg'(1) by (cases a) (auto simp: rbind_eq_Inr split: if_splits)
    then show ?thesis using that lookup_object_ok assms(3) True by blast
  next
    case False
    then show ?thesis using Cons.prems(1) sg'(1) that by (auto simp: rbind_eq_Inr looked_up_def)
  qed
  have ih: "length bs = length as" "\<And>j. j < length as \<Longrightarrow>
      looked_up im st zombie objects msg (i + 1 + j) (fst (ts ! j)) (as ! j) (bs ! j)"
    using Cons.IH [OF a'(2) len] sg'(2) by auto
  show ?case unfolding a'(1) tok
  proof (intro conjI allI impI)
    fix j assume "j < length (a # as)"
    then show "looked_up im st zombie objects msg (i + j) (fst (((t, nl) # ts) ! j)) ((a # as) ! j) ((a' # bs) ! j)"
      using a'(3) ih(2) [of "j - 1"] by (cases j) auto
  qed (use ih(1) in simp)
qed simp

section \<open>Sending\<close>

definition stream :: "wl_connection \<Rightarrow> bytes" where
  "stream c = data_sent c @ contents (conn_out c)"

lemma flush_fds_shrink:
  assumes "conn_wf c" "wl_connection_flush rs c = Some (Inr (ret, c', rs'))"
  shows "length (contents (fds_out c')) \<le> length (contents (fds_out c))"
proof (cases "want_flush c")
  case True
  then obtain ok c1 where c1: "flush_loop rs c = Some (Inr (ok, c1, rs'))" "fds_out c' = fds_out c1"
    using assms(2) by (auto simp: wl_connection_flush_def split: option.splits sum.splits if_splits)
  show ?thesis using flush_loop_effect [OF assms(1) c1(1)] c1(2) by (auto simp: fds_flushed_def)
qed (use assms(2) in \<open>auto simp: wl_connection_flush_def\<close>)

lemma put_fd_effect:
  assumes "conn_wf c" "length (contents (fds_out c)) + 4 \<le> 4096" "wl_connection_put_fd rs c fd = Some r"
  shows "\<exists>ret c' rs'. r = Inr (ret, c', rs') \<and> conn_wf c' \<and> stream c' = stream c \<and>
    length (contents (fds_out c')) \<le> length (contents (fds_out c)) + 4"
proof -
  have put: "\<exists>b. wl_buffer_put (fds_out c1) (bytes32 fd) = Inr (0, b) \<and> conn_wf (c1\<lparr>fds_out := b\<rparr>) \<and>
      length (contents b) = length (contents (fds_out c1)) + 4"
    if "conn_wf c1" "length (contents (fds_out c1)) + 4 \<le> 4096" for c1
  proof -
    have "buf_wf (fds_out c1)" using that(1) by (simp add: conn_wf_def)
    from wl_buffer_put_contents [OF this, of "bytes32 fd"] that show ?thesis by (auto simp: conn_wf_def)
  qed
  show ?thesis
  proof (cases "unat (wl_buffer_size (fds_out c)) = MAX_FDS_OUT * 4")
    case False
    then show ?thesis using put [OF assms(1,2)] assms(3)
      by (auto simp: wl_connection_put_fd_def flush_if_def stream_def data_sent_def)
  next
    case True
    let ?c = "c\<lparr>want_flush := True\<rparr>"
    obtain q where q: "wl_connection_flush rs ?c = Some q"
      using assms(3) True by (auto simp: wl_connection_put_fd_def flush_if_def split: option.splits)
    obtain ret c1 rs1 where f: "q = Inr (ret, c1, rs1)" "conn_wf c1" "stream c1 = stream c"
      using flush_effect [OF _ q] assms(1) by (auto simp: stream_def)
    have fds: "length (contents (fds_out c1)) \<le> length (contents (fds_out c))"
      using flush_fds_shrink [OF _ q [unfolded f(1)]] assms(1) by simp
    then obtain b where b: "wl_buffer_put (fds_out c1) (bytes32 fd) = Inr (0, b)" "conn_wf (c1\<lparr>fds_out := b\<rparr>)"
      "length (contents b) = length (contents (fds_out c1)) + 4" using put [OF f(2)] assms(2) by auto
    show ?thesis
    proof (cases "ret < 0")
      case True
      then have "r = Inr (-1, c1, rs1)" using assms(3) \<open>unat _ = _\<close> q f(1)
        by (simp add: wl_connection_put_fd_def flush_if_def)
      then show ?thesis using f fds by simp
    next
      case False
      then have "r = Inr (0, c1\<lparr>fds_out := b\<rparr>, rs1)" using assms(3) \<open>unat _ = _\<close> q f(1) b(1)
        by (simp add: wl_connection_put_fd_def flush_if_def)
      then show ?thesis using f fds b by (simp add: stream_def data_sent_def)
    qed
  qed
qed

lemma copy_fds_loop_effect:
  assumes "list_all2 (arg_ok st) ts as" "tokens False sg = ts" "conn_wf c"
    and "length (contents (fds_out c)) + 4 * length as \<le> 4096" "copy_fds_loop sg as c rs = Some r"
  shows "\<exists>ret c' rs'. r = Inr (ret, c', rs') \<and> conn_wf c' \<and> stream c' = stream c \<and> (ret = 0 \<or> ret = -1)"
  using assms
proof (induction ts as arbitrary: sg c rs rule: list_all2_induct)
  case (Cons ty ts a as)
  obtain t nl where ty: "ty = (t, nl)" by (cases ty)
  obtain sg' where sg': "get_next_argument sg = ((t, nl), sg')" "tokens False sg' = ts"
    using Cons.prems(1) ty get_next_argument_token by metis
  show ?case
  proof (cases "t = CHR ''h''")
    case False
    then have "copy_fds_loop sg' as c rs = Some r" using Cons.prems(4) sg'(1) by simp
    moreover have "length (contents (fds_out c)) + 4 * length as \<le> 4096" using Cons.prems(3) by simp
    ultimately show ?thesis using Cons.IH [OF sg'(2) Cons.prems(2)] by blast
  next
    case True
    then obtain fd where fd: "a = Arg_word fd" using Cons.hyps(1) ty by (cases a) auto
    obtain q where q: "wl_connection_put_fd rs c fd = Some q"
      using Cons.prems(4) sg'(1) True fd by (cases "wl_connection_put_fd rs c fd") auto
    obtain ret c1 rs1 where c1: "q = Inr (ret, c1, rs1)" "conn_wf c1" "stream c1 = stream c"
      "length (contents (fds_out c1)) \<le> length (contents (fds_out c)) + 4"
      using put_fd_effect [OF Cons.prems(2) _ q] Cons.prems(3) by auto
    have run: "Some r = (if ret \<noteq> 0 then Some (Inr (- 1, c1, rs1)) else copy_fds_loop sg' as c1 rs1)"
      using Cons.prems(4) sg'(1) True fd q c1(1) by simp
    have "length (contents (fds_out c1)) + 4 * length as \<le> 4096" using c1(4) Cons.prems(3) by simp
    from Cons.IH [OF sg'(2) c1(2) this] show ?thesis using run c1 by (cases "ret = 0") auto
  qed
next
  case Nil
  then have "r = Inr (0, c, rs)" by simp
  then show ?case using Nil.prems(2) by simp
qed

section \<open>Properties\<close>

text \<open>Marshalling succeeds exactly when no argument is null that the signature does not allow to be,
  and what it makes fits the signature, with ids for the new objects; it never faults on the
  arguments of a call as the signature asks for them.\<close>

theorem marshal_checks_nulls:
  assumes "wlm_signature msg = Some sg" "list_all2 (call_ok st) (tokens False sg) args" "length args \<le> 20"
    and "object_alive st sender" "sender \<noteq> 0" "always_fds sys"
  shows "\<exists>r k'. wl_closure_marshal sys True st sender opcode args msg k = Inr (r, k') \<and>
    (r = None \<longleftrightarrow> \<not> list_all2 (\<lambda>t a. \<not> bad_null t a) (tokens False sg) args) \<and>
    (\<forall>cl. r = Some cl \<longrightarrow> closure_ok st cl sg \<and> cl_opcode cl = opcode \<and> Some (cl_sender_id cl) = map_option obj_id (st sender))"
proof -
  have n: "arg_count_for_signature sg = length args" using assms(2) by (metis length_tokens list_all2_lengthD)
  obtain r k' where r: "marshal_loop sys st sg args k = Inr (r, k')"
    "r = None \<longleftrightarrow> \<not> list_all2 (\<lambda>t a. \<not> bad_null t a) (tokens False sg) args"
    "\<And>as'. r = Some as' \<Longrightarrow> list_all2 (arg_ok st) (tokens False sg) as'"
    using marshal_loop_effect [OF assms(2) refl assms(6)] by blast
  obtain ob where ob: "st sender = Some ob" using assms(4) by (auto simp: object_alive_def)
  show ?thesis
    using assms(1,3,5) r ob
    by (cases r) (auto simp: wl_closure_marshal_def signature_of_def n WL_CLOSURE_MAX_ARGS_def object_at_def closure_ok_def Let_def)
qed

definition call_message :: wl_message where
  "call_message = \<lparr>wlm_name = ''attach'', wlm_signature = Some ''?oin'', wlm_types = Some [None, None, None]\<rparr>"

lemma call_tokens: "tokens False ''?oin'' = [(CHR ''o'', True), (CHR ''i'', False), (CHR ''n'', False)]"
  by (simp add: is_arg_type_def)

theorem marshal_checks_nulls_witness:
  "\<exists>k'. wl_closure_marshal (\<lambda>_. Returns 9) True [0x10 \<mapsto> \<lparr>obj_interface = Iface 0, obj_id = 4\<rparr>] 0x10 1
      [Arg_object 0, Arg_word 3, Arg_object 0] call_message \<lparr>k_calls = 0, k_open = Map.empty\<rparr> = Inr (None, k')"
proof -
  let ?st = "[0x10 :: u64 \<mapsto> \<lparr>obj_interface = Iface 0, obj_id = 4\<rparr>]"
  let ?args = "[Arg_object 0, Arg_word 3, Arg_object 0]" and ?ts = "tokens False ''?oin''"
  have ok: "list_all2 (call_ok ?st) ?ts ?args" unfolding call_tokens by simp
  have null: "\<not> list_all2 (\<lambda>t a. \<not> bad_null t a) ?ts ?args" unfolding call_tokens by (simp add: bad_null_def null_arg_def)
  have sig: "wlm_signature call_message = Some ''?oin''" by (simp add: call_message_def)
  have "object_alive ?st 0x10" "always_fds (\<lambda>_. Returns 9)" "length ?args \<le> 20" "(0x10 :: u64) \<noteq> 0"
    by (simp_all add: object_alive_def always_fds_def)
  from marshal_checks_nulls [OF sig ok this(3,1,4,2), of 1 "\<lparr>k_calls = 0, k_open = Map.empty\<rparr>"] null show ?thesis by auto
qed

text \<open>After a successful lookup every object argument is the object with the id that arrived, null for
  the null id and for objects that were destroyed, and never an object of another interface than the
  message declares; the other arguments are as they were.\<close>

theorem lookup_objects_typed:
  assumes "wl_closure_lookup_objects im st zombie cl objects = Inr (0, cl')" "zombie \<noteq> 0"
    and "wlm_signature (cl_message cl) = Some sg" "j < arg_count_for_signature sg"
  shows "looked_up im st zombie objects (cl_message cl) j (fst (tokens False sg ! j)) (cl_args cl ! j) (cl_args cl' ! j)"
proof -
  let ?n = "arg_count_for_signature sg"
  obtain as' where as': "?n \<le> length (cl_args cl)" "lookup_loop im st zombie objects (cl_message cl) 0 sg (take ?n (cl_args cl)) = Inr (0, as')"
    "cl_args cl' = as' @ drop (length as') (cl_args cl)"
    using assms(1,3)
    by (auto simp: wl_closure_lookup_objects_def signature_of_def closure_args_def rbind_eq_Inr split: if_splits)
  have "length (tokens False sg) = length (take ?n (cl_args cl))" using as'(1) by (simp add: length_tokens)
  from lookup_loop_ok [OF as'(2) this assms(2)] show ?thesis
    using as'(1,3) assms(4) by (auto simp: nth_append)
qed

definition arrived_closure :: wl_closure where
  "arrived_closure = \<lparr>cl_count = 2, cl_message = \<lparr>wlm_name = ''set'', wlm_signature = Some ''o?o'',
     wlm_types = Some [Some (Iface 0), None]\<rparr>, cl_opcode = 0, cl_sender_id = 1, cl_args = [Arg_word 1, Arg_word 0]\<rparr>"

text \<open>The map has the object at 0x1000 for the id 1.\<close>

theorem lookup_objects_typed_witness:
  "\<exists>cl' im. wl_closure_lookup_objects im [0x1000 \<mapsto> \<lparr>obj_interface = Iface 0, obj_id = 1\<rparr>] 0x2000 arrived_closure
      (example_map\<lparr>mp_client := \<lparr>arr_size = 16, arr_alloc = 16, arr_data = [0, 0x1000]\<rparr>\<rparr>) = Inr (0, cl') \<and>
    cl_args cl' ! 0 = Arg_object 0x1000"
proof -
  let ?st = "[0x1000 :: u64 \<mapsto> \<lparr>obj_interface = Iface 0, obj_id = 1\<rparr>]" and ?im = "\<lambda>_. unknown_interface"
  let ?mp = "example_map\<lparr>mp_client := \<lparr>arr_size = 16, arr_alloc = 16, arr_data = [0, 0x1000]\<rparr>\<rparr>"
  have look: "wl_map_lookup ?mp 1 = Inr 0x1000" "wl_map_lookup ?mp 0 = Inr 0"
    by (simp_all add: wl_map_lookup_def entries_of_def index_of_def entry_count_def entry_get_def map_entry_is_free_def
        map_entry_get_data_def WL_SERVER_ID_START_def)
  have sig: "wlm_signature (cl_message arrived_closure) = Some ''o?o''" by (simp add: arrived_closure_def)
  obtain cl' where run: "wl_closure_lookup_objects ?im ?st 0x2000 arrived_closure ?mp = Inr (0, cl')"
    by (simp add: wl_closure_lookup_objects_def arrived_closure_def signature_of_def closure_args_def get_next_argument_def
        is_arg_type_def lookup_object_def look type_at_def object_at_def wl_interface_equal_def Let_def)
  have toks: "tokens False ''o?o'' = [(CHR ''o'', False), (CHR ''o'', True)]" by (simp add: is_arg_type_def)
  have "(0x2000 :: u64) \<noteq> 0" "0 < arg_count_for_signature ''o?o''" by (simp_all add: is_arg_type_def)
  from lookup_objects_typed [OF run this(1) sig this(2)] have "cl_args cl' ! 0 = Arg_object 0x1000"
    unfolding toks by (auto simp: looked_up_def arrived_closure_def look)
  then show ?thesis using run by blast
qed

lemma closure_send_effect:
  assumes "closure_ok st cl sg" "4 * closure_len cl sg \<le> 4096" "conn_wf c"
    and "length (contents (fds_out c)) + 4 * length (cl_args cl) \<le> 4096"
    and "wl_closure_send True fresh st rs cl c = Some r"
  shows "\<exists>ret c' rs' n buf. r = Inr (ret, c', rs') \<and> conn_wf c' \<and> (ret = 0 \<or> ret = -1) \<and>
    serialize_closure st cl (map fresh [0..<4 * closure_len cl sg]) (closure_len cl sg) = Inr (n, buf) \<and>
    data_sent c' @ contents (conn_out c') = data_sent c @ contents (conn_out c) @ (if ret = 0 then buf else [])"
proof -
  let ?n = "closure_len cl sg"
  obtain n where n: "buffer_size_for_closure cl = Inr n" "unat n = ?n"
    using buffer_size_len [OF assms(1)] assms(2) by auto
  have "4 * ?n < 2 ^ 31" using assms(2) by simp
  then obtain buf where buf: "serialize_closure st cl (map fresh [0..<4 * ?n]) ?n = Inr (int (4 * ?n), buf)" "length buf = 4 * ?n"
    using serialize_closure_wire [OF assms(1), of "map fresh [0..<4 * ?n]"] by (auto simp: header_words_def closure_len_def)
  have sig: "closure_signature cl = Inr (sg, cl_args cl)" by (rule closure_signature_ok [OF assms(1)])
  obtain q where q: "copy_fds_loop sg (cl_args cl) c rs = Some q"
    using assms(5) by (cases "copy_fds_loop sg (cl_args cl) c rs")
      (auto simp: wl_closure_send_def send_with_def copy_fds_to_connection_def sig)
  have ok: "list_all2 (arg_ok st) (tokens False sg) (cl_args cl)" using assms(1) by (simp add: closure_ok_def)
  obtain x c1 rs1 where c1: "q = Inr (x, c1, rs1)" "conn_wf c1" "stream c1 = stream c" "x = 0 \<or> x = -1"
    using copy_fds_loop_effect [OF ok refl assms(3,4) q] by blast
  have run: "Some r = (if x \<noteq> 0 then Some (Inr (- 1, c1, rs1)) else wl_connection_write rs1 c1 buf)"
    using assms(5) c1(1) q sig n buf
    by (auto simp: wl_closure_send_def send_with_def copy_fds_to_connection_def take_all nat_mult_distrib)
  show ?thesis
  proof (cases "x = 0")
    case False
    then show ?thesis using run c1 buf(1) by (auto simp: stream_def)
  next
    case True
    then have w: "wl_connection_write rs1 c1 buf = Some r" using run by simp
    have "length buf \<le> 4096" using buf(2) assms(2) by simp
    from write_effect [OF c1(2) this w] show ?thesis using c1(3) buf(1) by (fastforce simp: stream_def)
  qed
qed

lemma closure_send_wants_flush:
  "wl_closure_send mem_ok fresh st rs cl c = Some (Inr (0, c', rs')) \<Longrightarrow> want_flush c'"
  by (auto simp: wl_closure_send_def send_with_def wl_connection_write_def flush_if_def rbind_eq_Inr
      split: if_splits option.splits sum.splits)

text \<open>C27: Sending a closure puts its bytes behind everything sent before, whole or not at all, whatever the
  kernel does with the descriptors and bytes that are flushed to make room.\<close>

theorem closure_sent_in_order:
  assumes "closure_ok st cl sg" "4 * closure_len cl sg \<le> 4096" "conn_wf c"
    and "length (contents (fds_out c)) + 4 * length (cl_args cl) \<le> 4096"
    and "wl_closure_send True fresh st rs cl c = Some r"
  shows "\<exists>ret c' rs' n buf. r = Inr (ret, c', rs') \<and> conn_wf c' \<and> (ret = 0 \<or> ret = -1) \<and>
    serialize_closure st cl (map fresh [0..<4 * closure_len cl sg]) (closure_len cl sg) = Inr (n, buf) \<and>
    data_sent c' @ contents (conn_out c') = data_sent c @ contents (conn_out c) @ (if ret = 0 then buf else [])"
  by (rule closure_send_effect [OF assms])

theorem closure_sent_in_order_witness:
  "\<exists>ret c' rs' n buf. wl_closure_send True (\<lambda>_. 0xee) (\<lambda>_. None) [] example_closure (wl_connection_create 4) = Some (Inr (ret, c', rs')) \<and>
    serialize_closure (\<lambda>_. None) example_closure (map (\<lambda>_. 0xee) [0..<28]) 7 = Inr (n, buf) \<and>
    data_sent c' @ contents (conn_out c') = (if ret = 0 then buf else [])"
proof -
  let ?c = "wl_connection_create 4" and ?st = "\<lambda>_. None :: wl_object option"
  have new: "contents (conn_out ?c) = []" "contents (fds_out ?c) = []" "data_sent ?c = []"
    by (simp_all add: wl_connection_create_def empty_buffer_wf data_sent_def)
  obtain n buf where
    n: "buffer_size_for_closure example_closure = Inr n" "unat n = 7"
    "serialize_closure ?st example_closure (map (\<lambda>_. 0xee) [0..<28]) 7 = Inr (28, buf)" "length buf = 28"
    using example_serialised [of ?st "\<lambda>_. 0xee"] by blast
  have "copy_fds_to_connection [] example_closure ?c = Some (Inr (0, ?c, []))"
    using closure_signature_ok [OF example_closure_ok [of ?st]]
    by (simp add: copy_fds_to_connection_def) (simp add: example_closure_def get_next_argument_def is_arg_type_def)
  moreover have "\<not> out_full ?c 28" by (simp add: out_full_def size_contents new)
  ultimately obtain r where r: "wl_closure_send True (\<lambda>_. 0xee) ?st [] example_closure ?c = Some r"
    using n by (simp add: wl_closure_send_def send_with_def wl_connection_write_def flush_if_def)
  have "4 * closure_len example_closure ''2us?on'' \<le> 4096"
    "length (contents (fds_out ?c)) + 4 * length (cl_args example_closure) \<le> 4096"
    by (simp_all add: example_closure_len new, simp add: example_closure_def)
  from closure_sent_in_order [OF example_closure_ok this(1) conn_wf_create this(2) r] r show ?thesis
    unfolding example_closure_len by (auto simp: new)
qed

end
