(* ===== verification/Through.thy ===== *)
theory Through
  imports Closure_Calls Process
begin

text \<open>
  A request on its way through the debugger: the library of the client puts a closure on its
  connection (\<^verbatim>\<open>wayland/connection.c\<close>), \<open>dispatch_messages\<close> of \<^verbatim>\<open>src/wldbg.c\<close> hands
  it to the passes and to the server, whose library reads it and takes it apart.
\<close>

section \<open>Facts\<close>

lemma serialized_well_framed:
  assumes "closure_ok st cl sg" "4 * closure_len cl sg \<le> 4096"
    and "serialize_closure st cl (map fresh [0..<4 * closure_len cl sg]) (closure_len cl sg) = Inr (n, buf)"
  shows "well_framed buf" "length buf = 4 * closure_len cl sg"
proof -
  let ?n = "4 * closure_len cl sg"
  have "?n < 2 ^ 31" using assms(2) by simp
  then obtain w where w: "buf = words_bytes (header_words cl (of_nat ?n)) @ w" "length w = 4 * body_len (tokens False sg) (cl_args cl)"
    using serialize_closure_wire [OF assms(1), of "map fresh [0..<?n]"] assms(3) by auto
  show len: "length buf = ?n" using w by (simp add: header_words_def closure_len_def)
  have "load32 buf 4 = Inr (push_bit 16 (of_nat ?n) OR (cl_opcode cl AND 0xffff))"
    using load32_append_right [of "bytes32 (cl_sender_id cl)" 4]
    by (simp add: w(1) header_words_def load32_bytes32)
  moreover have "?n < 2 ^ 16" by (rule le_less_trans [OF assms(2)]) simp
  ultimately show "well_framed buf"
    using header_parts(1) [of ?n] len by (simp add: well_framed_def closure_len_def)
qed

text \<open>What the client's library has written when the send and the flush succeed.\<close>

lemma send_and_flush:
  assumes "closure_ok st cl sg" "length (cl_args cl) \<le> 20" "4 * closure_len cl sg \<le> 4096"
    and "conn_wf k" "contents (conn_out k) = []" "contents (fds_out k) = []"
    and "wl_closure_send True fresh st rs cl k = Some (Inr (0, k1, rs1))"
    and "wl_connection_flush rs1 k1 = Some (Inr (len, k2, rs2))" "0 \<le> len"
  obtains n buf where
    "serialize_closure st cl (map fresh [0..<4 * closure_len cl sg]) (closure_len cl sg) = Inr (n, buf)"
    "data_sent k2 = data_sent k @ buf"
proof -
  have "length (contents (fds_out k)) + 4 * length (cl_args cl) \<le> 4096" using assms(2,6) by simp
  from closure_send_effect [OF assms(1,3,4) this assms(7)] obtain n buf where
    buf: "serialize_closure st cl (map fresh [0..<4 * closure_len cl sg]) (closure_len cl sg) = Inr (n, buf)"
    "conn_wf k1" "data_sent k1 @ contents (conn_out k1) = data_sent k @ buf"
    using assms(5) by auto
  from flush_effect [OF buf(2) assms(8)] closure_send_wants_flush [OF assms(7)] assms(9)
  have "data_sent k2 = data_sent k1 @ contents (conn_out k1)" by auto
  then show thesis using that buf by simp
qed

text \<open>The server's library reads the bytes of a closure and takes it apart.\<close>

lemma read_and_demarshal:
  assumes "closure_ok st cl sg" "length (cl_args cl) \<le> 20" "4 * closure_len cl sg \<le> 4096"
    and "message_fds (tokens False sg) (cl_args cl) = []"
    and "serialize_closure st cl (map fresh [0..<4 * closure_len cl sg]) (closure_len cl sg) = Inr (n, buf)"
    and "conn_wf c" "contents (conn_in c) = []" "contents (fds_in c) = []"
    and "reserves mem_ok junk (message_new_ids (tokens False sg) (cl_args cl)) mp mp'"
  shows "\<exists>c1 as c2. wl_connection_read [Received buf []] c = Some (Inr (int (4 * closure_len cl sg), c1, [])) \<and>
    wl_connection_demarshal True mem_ok junk c1 (of_nat (4 * closure_len cl sg)) mp (cl_message cl) =
      Inr (Some \<lparr>cl_count = length (cl_args cl), cl_message = cl_message cl, cl_opcode = cl_opcode cl AND 0xffff,
                 cl_sender_id = cl_sender_id cl, cl_args = as\<rparr>, c2, mp') \<and>
    list_all2 (received st) (cl_args cl) as \<and> contents (conn_in c2) = []"
proof -
  let ?n = "4 * closure_len cl sg"
  have len: "length buf = ?n" by (rule serialized_well_framed(2) [OF assms(1,3,5)])
  then have "buf \<noteq> []" by (auto simp: closure_len_def)
  then obtain c1 where c1: "wl_connection_read [Received buf []] c = Some (Inr (int ?n, c1, []))"
    "conn_wf c1" "contents (conn_in c1) = buf @ []" "contents (fds_in c1) = []"
    using connection_read_appends [OF assms(6), of "[Received buf []]" buf "[]" "[]"] assms(3,7,8) len
    by (auto simp: rights_bytes_def)
  have "?n < 2 ^ 31" using assms(3) by simp
  then obtain w where w: "buf = words_bytes (header_words cl (of_nat ?n)) @ w"
    "body_wire st (tokens False sg) (cl_args cl) w" "length w = 4 * body_len (tokens False sg) (cl_args cl)"
    using serialize_closure_wire [OF assms(1), of "map fresh [0..<?n]"] assms(5) by auto
  have "contents (fds_in c1) = words_bytes (message_fds (tokens False sg) (cl_args cl)) @ []" using c1(4) assms(4) by simp
  from demarshal_serialized [OF assms(1,2) w(2,3) c1(2) c1(3) [unfolded w(1)] this assms(9)] c1(1)
  show ?thesis by blast
qed

section \<open>Properties\<close>

text \<open>C4: With wldbg between them and passes that only look at the message, a request without descriptors
  that the client's library sends and flushes arrives at the server's library as it was sent, from the
  same object, with the same opcode and arguments, when the passes do not fault on it and no \<open>sendmsg\<close>
  of wldbg fails.\<close>

theorem request_reaches_server:
  assumes "guarded_passes ps calm" "calm w 1" "\<not> w_pass_whole_buffer w" "\<not> w_exit w" "\<not> w_error w"
    and "closure_ok st cl sg" "length (cl_args cl) \<le> 20" "4 * closure_len cl sg \<le> 4096"
    and "message_fds (tokens False sg) (cl_args cl) = []"
    and "conn_wf k" "contents (conn_out k) = []" "contents (fds_out k) = []"
    and "wl_closure_send True fresh st rs0 cl k = Some (Inr (0, k1, rs1))"
    and "wl_connection_flush rs1 k1 = Some (Inr (len, k2, rs2))" "0 \<le> len"
    and "conn_wf (wc_client wc)" "conn_wf (wc_server wc)" "contents (fds_in (wc_client wc)) = []"
    and "contents (conn_in (wc_client wc)) = []" "contents (conn_out (wc_server wc)) = []"
    and "length buffer = 4096" "4096 \<le> accepted rs" "Send_error \<notin> set rs"
    and "conn_wf c" "contents (conn_in c) = []" "contents (fds_in c) = []"
    and "reserves mem_ok junk (message_new_ids (tokens False sg) (cl_args cl)) mp mp'"
  defines "request \<equiv> drop (length (data_sent k)) (data_sent k2)"
  shows "\<exists>r. dispatch_messages ps w [Received request []] again rs buffer wc CLIENT = Some r \<and>
    (case run_passes ps w \<lparr>msg_mem = request @ drop (length request) buffer, msg_off = 0,
            msg_size = of_nat (length request), msg_from = CLIENT\<rparr> of
       Inl e \<Rightarrow> r = Inl e
     | Inr (w', _) \<Rightarrow> \<exists>wc' rs' c1 as c2. r = Inr (1, w', wc', rs') \<and>
        wl_connection_read [Received (drop (length (data_sent (wc_server wc))) (data_sent (wc_server wc'))) []] c =
          Some (Inr (int (4 * closure_len cl sg), c1, [])) \<and>
        wl_connection_demarshal True mem_ok junk c1 (of_nat (4 * closure_len cl sg)) mp (cl_message cl) =
          Inr (Some \<lparr>cl_count = length (cl_args cl), cl_message = cl_message cl, cl_opcode = cl_opcode cl AND 0xffff,
                 cl_sender_id = cl_sender_id cl, cl_args = as\<rparr>, c2, mp') \<and>
        list_all2 (received st) (cl_args cl) as \<and> contents (conn_in c2) = [])"
proof -
  obtain n buf where buf:
    "serialize_closure st cl (map fresh [0..<4 * closure_len cl sg]) (closure_len cl sg) = Inr (n, buf)"
    "data_sent k2 = data_sent k @ buf"
    by (rule send_and_flush [OF assms(6-8,10-15)])
  have req: "request = concat [buf]" using buf(2) by (simp add: request_def)
  note framed = serialized_well_framed [OF assms(6,8) buf(1)]
  have ends: "end_of CLIENT wc = wc_client wc" "end_of (other_side CLIENT) wc = wc_server wc" for wc
    by (simp_all add: end_of_def other_side_def)
  have fits: "length (concat [buf]) \<le> 4096" "length (concat [buf]) \<le> accepted rs" "list_all well_framed [buf]" "[buf] \<noteq> []"
    using framed assms(8,22) by simp_all
  have calm: "calm w (length [buf])" using assms(2) by simp
  let ?m = "\<lparr>msg_mem = request @ drop (length request) buffer, msg_off = 0,
            msg_size = of_nat (length request), msg_from = CLIENT\<rparr>"
  have over: "run_over ps w ?m [length buf] = rbind (run_passes ps w ?m) (\<lambda>(w', _). Inr w')"
    by (simp add: req)
  from dispatch_forwards [OF assms(1) calm fits(3,4,1), of CLIENT wc buffer rs again, unfolded ends,
      OF assms(16-21) assms(3-5) fits(2)] assms(23)
  obtain r where r: "dispatch_messages ps w [Received request []] again rs buffer wc CLIENT = Some r"
    "(\<exists>e. r = Inl e \<and> run_over ps w ?m [length buf] = Inl e) \<or>
     (\<exists>w' wc' rs'. r = Inr (1, w', wc', rs') \<and> data_sent (wc_server wc') = data_sent (wc_server wc) @ request \<and>
        run_over ps w ?m [length buf] = Inr w')"
    unfolding req by auto
  note read = read_and_demarshal [OF assms(6-9) buf(1) assms(24-27)]
  show ?thesis
  proof (cases "run_passes ps w ?m")
    case (Inl e)
    then show ?thesis using r over by auto
  next
    case (Inr p)
    then obtain w' wc' rs' where "r = Inr (1, w', wc', rs')" "data_sent (wc_server wc') = data_sent (wc_server wc) @ request"
      "fst p = w'"
      using r(2) over by (cases p) auto
    then show ?thesis using r(1) Inr read unfolding req by (cases p) fastforce
  qed
qed

lemma example_sent:
  "\<exists>k1 k2. wl_closure_send True (\<lambda>_. 0xee) (\<lambda>_. None) [Sent 28] example_closure (wl_connection_create 4) =
      Some (Inr (0, k1, [Sent 28])) \<and>
    wl_connection_flush [Sent 28] k1 = Some (Inr (28, k2, []))"
proof -
  let ?k = "wl_connection_create 4" and ?st = "\<lambda>_. None :: wl_object option"
  have new: "contents (conn_out ?k) = []" by (simp add: wl_connection_create_def empty_buffer_wf)
  obtain n buf where
    n: "buffer_size_for_closure example_closure = Inr n" "unat n = 7"
    "serialize_closure ?st example_closure (map (\<lambda>_. 0xee) [0..<28]) 7 = Inr (28, buf)" "length buf = 28"
    using example_serialised [of ?st "\<lambda>_. 0xee"] by blast
  have fds: "copy_fds_to_connection [Sent 28] example_closure ?k = Some (Inr (0, ?k, [Sent 28]))"
    using closure_signature_ok [OF example_closure_ok [of ?st]]
    by (simp add: copy_fds_to_connection_def) (simp add: example_closure_def get_next_argument_def is_arg_type_def)
  have "\<not> out_full ?k (length buf)" by (simp add: out_full_def size_contents new n)
  then obtain b where b: "put_out buf ?k [Sent 28] = Inr (0, ?k\<lparr>conn_out := b\<rparr>, [Sent 28])"
    "conn_wf (?k\<lparr>conn_out := b\<rparr>)" "contents b = buf"
    using put_out_effect [OF conn_wf_create, where xs = buf and rs = "[Sent 28]"] new by fastforce
  let ?k1 = "?k\<lparr>conn_out := b, want_flush := True\<rparr>"
  have send: "wl_closure_send True (\<lambda>_. 0xee) ?st [Sent 28] example_closure ?k = Some (Inr (0, ?k1, [Sent 28]))"
    using fds n b(1) \<open>\<not> out_full ?k (length buf)\<close>
    by (simp add: wl_closure_send_def send_with_def wl_connection_write_def flush_if_def)
  have wf: "conn_wf ?k1" using b(2) by (simp add: conn_wf_def)
  have ne: "contents (conn_out ?k1) \<noteq> []" using b(3) n(4) by auto
  obtain k2 where k2: "flush_loop [Sent 28] ?k1 = Some (Inr (True, k2, []))"
    using wf ne
  proof (cases rule: flush_loop_turn [where rs = "[Sent 28]"])
    case (sent m rs' j fo c')
    then have "contents (conn_out c') = []"
      using buf_consume_contents [of b 28] b n(4) by (simp add: conn_wf_def)
    then show thesis using sent(1,2) flush_loop_done that by simp
  qed simp_all
  obtain e where "flush_loop [Sent 28] ?k1 = Some e" "\<exists>ok c' rs'. e = Inr (ok, c', rs') \<and> buf_head (conn_out c') = buf_head (conn_out ?k1)"
    using flush_loop_effect [OF wf k2] k2 by auto
  then have "buf_head (conn_out k2) = buf_head b" using k2 by auto
  then have "sint (buf_head (conn_out k2) - buf_tail b) = 28"
    using sint_small [of b] b(2,3) n(4) by (simp add: conn_wf_def wl_buffer_size_def)
  then have "wl_connection_flush [Sent 28] ?k1 = Some (Inr (28, k2\<lparr>want_flush := False\<rparr>, []))"
    using k2 by (simp add: wl_connection_flush_def)
  then show ?thesis using send by blast
qed

lemma no_passes_transparent: "transparent_passes []"
  by unfold_locales auto

theorem request_reaches_server_witness:
  "\<exists>k1 k2 w' wc' rs' c1 as c2 mp'.
    wl_closure_send True (\<lambda>_. 0xee) (\<lambda>_. None) [Sent 28] example_closure (wl_connection_create 4) =
      Some (Inr (0, k1, [Sent 28])) \<and>
    wl_connection_flush [Sent 28] k1 = Some (Inr (28, k2, [])) \<and>
    dispatch_messages [] \<lparr>w_exit = False, w_error = False, w_pass_whole_buffer = False, w_state = ()\<rparr>
      [Received (data_sent k2) []] False (replicate 4096 (Sent 1)) (replicate 4096 0)
      \<lparr>wc_server = wl_connection_create 4, wc_client = wl_connection_create 5\<rparr> CLIENT = Some (Inr (1, w', wc', rs')) \<and>
    wl_connection_read [Received (data_sent (wc_server wc')) []] (wl_connection_create 6) = Some (Inr (28, c1, [])) \<and>
    wl_connection_demarshal True (\<lambda>_. True) 0 c1 28 example_map bind_message =
      Inr (Some \<lparr>cl_count = 4, cl_message = bind_message, cl_opcode = 3, cl_sender_id = 2, cl_args = as\<rparr>, c2, mp') \<and>
    list_all2 (received (\<lambda>_. None)) (cl_args example_closure) as"
proof -
  let ?k = "wl_connection_create 4" and ?st = "\<lambda>_. None :: wl_object option" and ?sg = "''2us?on''"
  let ?w = "\<lparr>w_exit = False, w_error = False, w_pass_whole_buffer = False, w_state = ()\<rparr>"
  let ?wc = "\<lparr>wc_server = wl_connection_create 4, wc_client = wl_connection_create 5\<rparr>"
  obtain k1 k2 where k: "wl_closure_send True (\<lambda>_. 0xee) ?st [Sent 28] example_closure ?k = Some (Inr (0, k1, [Sent 28]))"
    "wl_connection_flush [Sent 28] k1 = Some (Inr (28, k2, []))"
    using example_sent by blast
  have cl: "length (cl_args example_closure) \<le> 20" "4 * closure_len example_closure ?sg \<le> 4096"
    "message_fds (tokens False ?sg) (cl_args example_closure) = []"
    unfolding example_tokens by (simp_all add: example_closure_len, simp_all add: example_closure_def)
  have vals: "length (cl_args example_closure) = 4" "cl_message example_closure = bind_message"
    "cl_opcode example_closure AND 0xffff = 3" "cl_sender_id example_closure = 2" "4 * closure_len example_closure ?sg = 28"
    by (simp_all add: example_closure_len, simp_all add: example_closure_def)
  have ids: "reserves (\<lambda>_. True) 0 (message_new_ids (tokens False ?sg) (cl_args example_closure)) example_map
     (example_map\<lparr>mp_client := \<lparr>arr_size = 16, arr_alloc = 16, arr_data = [0x1000, 0]\<rparr>\<rparr>)"
    unfolding example_tokens using example_reserves by (simp add: example_closure_def del: reserves.simps)
  have new: "conn_wf (wl_connection_create fd)" "contents (conn_in (wl_connection_create fd)) = []"
    "contents (conn_out (wl_connection_create fd)) = []" "contents (fds_in (wl_connection_create fd)) = []"
    "contents (fds_out (wl_connection_create fd)) = []" "data_sent (wl_connection_create fd) = []" for fd
    by (simp add: conn_wf_create) (simp_all add: wl_connection_create_def empty_buffer_wf data_sent_def)
  have acc: "4096 \<le> accepted (replicate 4096 (Sent 1))" by (simp add: accepted_def)
  have wc: "conn_wf (wc_client ?wc)" "conn_wf (wc_server ?wc)" "contents (fds_in (wc_client ?wc)) = []"
    "contents (conn_in (wc_client ?wc)) = []" "contents (conn_out (wc_server ?wc)) = []" by (simp_all add: new)
  have flags: "\<not> w_pass_whole_buffer ?w" "\<not> w_exit ?w" "\<not> w_error ?w" by simp_all
  have quiet: "Send_error \<notin> set (replicate 4096 (Sent 1))" by simp
  have "(0 :: int) \<le> 28" "length (replicate 4096 (0 :: u8)) = 4096" by simp_all
  from request_reaches_server [OF transparent_guarded [OF no_passes_transparent] TrueI flags example_closure_ok [of ?st] cl
      new(1) new(3) new(5) k this(1) wc this(2) acc quiet new(1) new(2) new(4) ids, of False 6, unfolded vals]
  show ?thesis using k by (auto simp: new)
qed

end
