(* ===== verification/Demarshal_Safety.thy ===== *)
theory Demarshal_Safety
  imports Closure_Facts
begin

text \<open>
  Demarshalling bytes that nobody vouches for.  The messages of a hostile peer are taken apart without
  an access outside the message, with one exception, which is stated exactly: when the words end
  where the next argument should begin, the report of the error reads the word behind the end.
\<close>

section \<open>Reserving ids\<close>

text \<open>Tables that have room for \<open>k\<close> more entries.\<close>

definition tables_room :: "wl_map \<Rightarrow> nat \<Rightarrow> bool" where
  "tables_room mp k \<longleftrightarrow> (\<forall>a \<in> {mp_client mp, mp_server mp}. table_wf a \<and> n_entries a + k \<le> 2 ^ 24)"

lemma tables_room_less: "tables_room mp k \<Longrightarrow> j \<le> k \<Longrightarrow> tables_room mp j"
  by (auto simp: tables_room_def)

lemma tables_room_with:
  "tables_room mp k \<Longrightarrow> table_wf a \<Longrightarrow> n_entries a + k \<le> 2 ^ 24 \<Longrightarrow> tables_room (with_entries mp i a) k"
  by (auto simp: tables_room_def with_entries_def)

lemma reserve_new_safe:
  assumes "tables_room mp (Suc k)" "\<And>n. mem_ok n"
  shows "\<exists>r mp'. wl_map_reserve_new mem_ok junk mp i = Inr (r, mp') \<and> tables_room mp' k"
proof -
  let ?a = "entries_of mp i" and ?k = "unat (index_of i)"
  have a: "table_wf ?a" "n_entries ?a + Suc k \<le> 2 ^ 24"
    using assms(1) by (auto simp: tables_room_def entries_of_def)
  have room: "tables_room mp k" using tables_room_less [OF assms(1)] by simp
  have cnt: "unat (entry_count ?a) = n_entries ?a" by (rule entry_count_n [OF a(1)])
  obtain a' cells where a': "wl_array_add mem_ok junk ?a 8 = Inr (Some (8 * n_entries ?a), a')" "table_wf a'"
    "n_entries a' = n_entries ?a + 1" using table_append [where mem_ok = mem_ok and junk = junk, OF a(1) _ assms(2)] a(2) by auto
  consider "entry_count ?a < index_of i" | "entry_count ?a = index_of i" | "index_of i < entry_count ?a" by fastforce
  then show ?thesis
  proof cases
    case 2
    then have k: "?k = n_entries ?a" using cnt by simp
    then have blk: "?k < length (arr_data a')" using entry_in_block [OF a'(2)] a'(3) by simp
    let ?b = "put_entry a' ?k 0"
    have "tables_room (with_entries mp i ?b) k"
      using tables_room_with [OF room] a a' by simp
    then show ?thesis using 2 a'(1) entry_set_in [OF blk, of 0] room
      by (auto simp: wl_map_reserve_new_def Let_def)
  next
    case 3
    then have "?k < n_entries ?a" using cnt by (simp add: word_less_nat_alt)
    then have "entry_get ?a ?k = Inr (arr_data ?a ! ?k)" using entry_in_block [OF a(1)] by (simp add: entry_get_def)
    then show ?thesis using 3 room by (auto simp: wl_map_reserve_new_def Let_def)
  qed (use room in \<open>auto simp: wl_map_reserve_new_def Let_def\<close>)
qed

section \<open>Messages that end too early\<close>

text \<open>The words run out where the next argument should begin: all before it are whole.\<close>

fun runs_out :: "bytes \<Rightarrow> nat \<Rightarrow> (char \<times> bool) list \<Rightarrow> nat \<Rightarrow> bool" where
  "runs_out m en [] p \<longleftrightarrow> False"
| "runs_out m en ((t, nl) # ts) p \<longleftrightarrow>
     (if t = CHR ''h'' then runs_out m en ts p
      else if en < p + 1 then True
      else if t \<in> set ''sa'' then
        (case load32 m (4 * p) of
           Inl _ \<Rightarrow> False
         | Inr n \<Rightarrow> p + 1 + div_roundup4 (unat n) \<le> en \<and> runs_out m en ts (p + 1 + div_roundup4 (unat n)))
      else runs_out m en ts (p + 1))"

text \<open>The state of the loop between two arguments, with the types \<open>ts\<close> to come.\<close>

definition dm_inv :: "wl_connection \<Rightarrow> (char \<times> bool) list \<Rightarrow> demarshal_state \<Rightarrow> bool" where
  "dm_inv c ts s \<longleftrightarrow>
     array_types ts \<le> dm_extra s \<and> tables_room (dm_objects s) (length ts) \<and>
     (\<exists>b. dm_conn s = c\<lparr>fds_in := b\<rparr> \<and> buf_wf b \<and> length (contents b) mod 4 = 0)"

lemma dm_inv_tail: "dm_inv c (t # ts) s \<Longrightarrow> dm_inv c ts s"
  using tables_room_less by (fastforce simp: dm_inv_def array_types_def split: if_splits)

lemma dm_inv_pos [simp]: "dm_inv c ts (s\<lparr>dm_pos := p\<rparr>) = dm_inv c ts s"
  by (simp add: dm_inv_def)

lemma dm_inv_end: "dm_inv c ts s \<Longrightarrow> dm_inv c [] s"
  by (auto simp: dm_inv_def array_types_def intro: tables_room_less)

lemma take_word_in:
  assumes "dm_pos s < length m div 4"
  obtains x where "take_word m s = Inr (x, s\<lparr>dm_pos := dm_pos s + 1\<rparr>)" "load32 m (4 * dm_pos s) = Inr x"
proof -
  have "4 * dm_pos s + 4 \<le> length m" using assms by linarith
  then show ?thesis using that load32_in [of "4 * dm_pos s" m] by (auto simp: take_word_def)
qed

lemma demarshal_fd_safe:
  assumes "dm_inv c (t # ts) s"
  shows "\<exists>r s'. demarshal_fd s = Inr (r, s') \<and> dm_pos s' = dm_pos s \<and> dm_inv c ts s'"
proof -
  obtain b where b: "dm_conn s = c\<lparr>fds_in := b\<rparr>" "buf_wf b" "length (contents b) mod 4 = 0"
    using assms by (auto simp: dm_inv_def)
  show ?thesis
  proof (cases "contents b")
    case Nil
    then have "buf_tail b = buf_head b" using size_zero_iff [of b] by (simp add: wl_buffer_size_def)
    then show ?thesis using b dm_inv_tail [OF assms] by (auto simp: demarshal_fd_def)
  next
    case (Cons x xs)
    then have ne: "buf_tail b \<noteq> buf_head b" using size_zero_iff [of b] by (auto simp: wl_buffer_size_def)
    have four: "4 \<le> length (contents b)" using b(3) Cons by (cases "length (contents b) < 4") auto
    obtain w where "load32 (take 4 (contents b)) 0 = Inr w" using load32_in [of 0 "take 4 (contents b)"] four by auto
    moreover have "wl_buffer_copy b 4 = Inr (take 4 (contents b))" by (rule wl_buffer_copy_contents [OF b(2) four])
    ultimately have run: "demarshal_fd s = Inr (Some (Arg_word w), s\<lparr>dm_conn := (dm_conn s)\<lparr>fds_in := buf_consume b 4\<rparr>\<rparr>)"
      using ne b(1) by (simp add: demarshal_fd_def Let_def)
    have "length (contents (buf_consume b 4)) mod 4 = 0" "buf_wf (buf_consume b 4)"
      using buf_consume_contents [OF b(2) four] b(3) four by (simp_all add: mod_diff_eq le_mod_geq)
    then show ?thesis using run b(1) dm_inv_tail [OF assms] by (auto simp: dm_inv_def)
  qed
qed

lemma demarshal_arg_safe:
  assumes inv: "dm_inv c ((t, nl) # ts) s" and t: "is_arg_type t" and mem: "\<And>n. mem_ok n"
    and room: "t \<noteq> CHR ''h'' \<Longrightarrow> dm_pos s + 1 \<le> en" and en: "en = length m div 4"
    and words: "\<not> runs_out m en ((t, nl) # ts) (dm_pos s)"
  shows "\<exists>r s'. demarshal_arg mem_ok junk m en t nl s = Inr (r, s') \<and> dm_inv c [] s' \<and>
    (r \<noteq> None \<longrightarrow> dm_inv c ts s' \<and> \<not> runs_out m en ts (dm_pos s'))"
proof (cases "t = CHR ''h''")
  case True
  obtain r s' where "demarshal_fd s = Inr (r, s')" "dm_pos s' = dm_pos s" "dm_inv c ts s'"
    using demarshal_fd_safe [OF inv] by blast
  then show ?thesis using True words dm_inv_end by (auto simp: demarshal_arg_def)
next
  case False
  let ?s = "s\<lparr>dm_pos := dm_pos s + 1\<rparr>"
  obtain x where x: "take_word m s = Inr (x, ?s)" "load32 m (4 * dm_pos s) = Inr x"
    using take_word_in [of s m] room [OF False] en by auto
  have tl: "dm_inv c ts ?s" "dm_inv c [] ?s" using dm_inv_tail [OF inv] dm_inv_end by auto
  have here: "\<not> en < dm_pos s + 1" using room [OF False] by simp
  let ?q = "dm_pos s + 1 + div_roundup4 (unat x)"
  consider "t \<in> set ''uifo''" | "t = CHR ''s''" | "t = CHR ''n''" | "t = CHR ''a''"
    using t False by (auto simp: is_arg_type_def)
  then show ?thesis
  proof cases
    case 1
    then have "\<not> runs_out m en ts (dm_pos s + 1)" using words here by auto
    then show ?thesis using 1 x(1) tl by (auto simp: demarshal_arg_def)
  next
    case 2
    then have next_ok: "?q \<le> en \<Longrightarrow> \<not> runs_out m en ts ?q" using words here x(2) by simp
    show ?thesis
    proof (cases "x = 0")
      case True
      then have "\<not> runs_out m en ts (dm_pos s + 1)" using next_ok room [OF False] by (simp add: div_roundup4_def)
      then show ?thesis using True 2 x(1) tl by (auto simp: demarshal_arg_def demarshal_string_def)
    next
      case nz: False
      show ?thesis
      proof (cases "en < ?q")
        case True
        then show ?thesis using nz 2 x(1) tl by (auto simp: demarshal_arg_def demarshal_string_def Let_def)
      next
        case False
        have "0 < unat x" using nz by (simp add: unat_gt_0)
        moreover have "4 * (dm_pos s + 1) + unat x \<le> 4 * en"
          using False div_roundup4_bounds(1) [of "unat x"] by (simp only: not_less) presburger
        moreover have "4 * en \<le> length m" using en by simp
        ultimately have "4 * (dm_pos s + 1) + unat x - 1 < length m" by linarith
        then have "nth_res m (4 * (dm_pos s + 1) + unat x - 1) = Inr (m ! (4 * (dm_pos s + 1) + unat x - 1))" by simp
        then show ?thesis using nz False 2 x(1) tl next_ok
          by (auto simp: demarshal_arg_def demarshal_string_def Let_def)
      qed
    qed
  next
    case 3
    then have next_ok: "\<not> runs_out m en ts (dm_pos s + 1)" using words here by auto
    obtain r mp' where r: "wl_map_reserve_new mem_ok junk (dm_objects s) x = Inr (r, mp')" "tables_room mp' (length ts)"
      using reserve_new_safe [where mem_ok = mem_ok and junk = junk and i = x and mp = "dm_objects s" and k = "length ts", OF _ mem]
        inv by (auto simp: dm_inv_def)
    have "dm_inv c ts (?s\<lparr>dm_objects := mp'\<rparr>)" "dm_inv c [] (?s\<lparr>dm_objects := mp'\<rparr>)"
      using tl r(2) dm_inv_end by (auto simp: dm_inv_def array_types_def intro: tables_room_less)
    then show ?thesis using 3 x(1) r(1) next_ok tl by (auto simp: demarshal_arg_def demarshal_new_id_def)
  next
    case 4
    then have next_ok: "?q \<le> en \<Longrightarrow> \<not> runs_out m en ts ?q" using words here x(2) by simp
    have ex: "0 < dm_extra s" using inv 4 by (simp add: dm_inv_def array_types_def)
    have "dm_inv c ts (s\<lparr>dm_pos := ?q, dm_extra := dm_extra s - 1\<rparr>)"
      "dm_inv c [] (s\<lparr>dm_pos := ?q, dm_extra := dm_extra s - 1\<rparr>)"
      using inv 4 by (auto simp: dm_inv_def array_types_def intro: tables_room_less)
    then show ?thesis using 4 ex x(1) next_ok tl
      by (auto simp: demarshal_arg_def demarshal_array_def Let_def)
  qed
qed

lemma demarshal_loop_safe:
  assumes "\<And>n. mem_ok n" "en = length m div 4" "dm_inv c (tokens False sg) s"
    and "\<not> runs_out m en (tokens False sg) (dm_pos s)"
  shows "\<exists>r s'. demarshal_loop mem_ok junk m en (length (tokens False sg)) sg s = Inr (r, s') \<and> dm_inv c [] s'"
  using assms(3,4)
proof (induction "tokens False sg" arbitrary: sg s)
  case Nil
  then show ?case by (metis demarshal_loop.simps(1) list.size(3))
next
  case (Cons ty ts)
  obtain t nl where ty: "ty = (t, nl)" by (cases ty)
  have tok: "tokens False sg = (t, nl) # ts" using Cons.hyps(2) ty by simp
  obtain sg' where sg': "get_next_argument sg = ((t, nl), sg')" "tokens False sg' = ts"
    using get_next_argument_token [OF tok] .
  have "is_arg_type t" using token_types [of t nl False sg] tok by simp
  have room: "dm_pos s + 1 \<le> en" if "t \<noteq> CHR ''h''" using Cons.prems(2) that tok by (auto split: if_splits)
  obtain r s' where r: "demarshal_arg mem_ok junk m en t nl s = Inr (r, s')" "dm_inv c [] s'"
    "r \<noteq> None \<longrightarrow> dm_inv c ts s' \<and> \<not> runs_out m en ts (dm_pos s')"
    using demarshal_arg_safe [where mem_ok = mem_ok and junk = junk,
        OF Cons.prems(1) [unfolded tok] \<open>is_arg_type t\<close> assms(1) _ assms(2) Cons.prems(2) [unfolded tok]] room
    by blast
  have here: "\<not> (t \<noteq> CHR ''h'' \<and> en < dm_pos s + 1)" using room by auto
  show ?case
  proof (cases r)
    case None
    then show ?thesis using r sg'(1) here tok by auto
  next
    case (Some a)
    then obtain q s'' where "demarshal_loop mem_ok junk m en (length ts) sg' s' = Inr (q, s'')" "dm_inv c [] s''"
      using Cons.hyps(1) [of sg' s'] sg'(2) r(3) by auto
    then show ?thesis using Some r(1) sg'(1) here tok by auto
  qed
qed

text \<open>A connection on which the bytes \<open>xs\<close> wait.\<close>

lemma waiting_connection:
  assumes "length xs \<le> 4096"
  obtains c where "conn_wf c" "contents (conn_in c) = xs" "contents (fds_in c) = []"
proof -
  obtain b where b: "buf_wf b" "contents b = xs"
    using wl_buffer_put_contents [OF empty_buffer_wf(1), of xs] empty_buffer_wf(2) assms by auto
  let ?c = "(wl_connection_create 4)\<lparr>conn_in := b\<rparr>"
  have "conn_wf ?c" using conn_wf_create [of 4] b(1) by (simp add: conn_wf_def)
  then show ?thesis using that [of ?c] b(2) by (simp add: wl_connection_create_def empty_buffer_wf)
qed

lemma tables_room_init: "k \<le> 2 ^ 24 \<Longrightarrow> tables_room (wl_map_init side) k"
  by (auto simp: tables_room_def wl_map_init_def table_wf_def n_entries_def wl_array_init_def arr_wf_def)

definition word_message :: wl_message where
  "word_message = \<lparr>wlm_name = ''ack'', wlm_signature = Some ''u'', wlm_types = Some [None]\<rparr>"

lemma word_tokens: "tokens False ''u'' = [(CHR ''u'', False)]"
  by (simp add: is_arg_type_def)

section \<open>Properties\<close>

text \<open>C10: Whatever bytes a peer sends, demarshalling takes the message apart or refuses it without an
  access outside the message, the buffers or the tables, and removes exactly the message from the
  connection, unless the words of the message run out where an argument should begin.\<close>

theorem demarshal_safe:
  assumes "wlm_signature msg = Some sg" "arg_count_for_signature sg \<le> 20"
    and "conn_wf c" "8 \<le> unat sz" "unat sz \<le> length (contents (conn_in c))" "length (contents (fds_in c)) mod 4 = 0"
    and "tables_room mp 20" "\<And>n. mem_ok n"
    and "\<not> runs_out (take (unat sz) (contents (conn_in c))) (unat sz div 4) (tokens False sg) 2"
  shows "\<exists>r c' mp'. wl_connection_demarshal True mem_ok junk c sz mp msg = Inr (r, c', mp') \<and> conn_wf c' \<and>
    contents (conn_in c') = drop (unat sz) (contents (conn_in c))"
proof -
  let ?m = "take (unat sz) (contents (conn_in c))" and ?ts = "tokens False sg"
  have wf: "buf_wf (conn_in c)" "buf_wf (fds_in c)" using assms(3) by (simp_all add: conn_wf_def)
  have copy: "wl_connection_copy c (unat sz) = Inr ?m"
    using wl_buffer_copy_contents [OF wf(1) assms(5)] by (simp add: wl_connection_copy_def)
  have lm: "length ?m = unat sz" using assms(5) by simp
  obtain x y where xy: "load32 ?m 0 = Inr x" "load32 ?m 4 = Inr y"
    using load32_in [of 0 ?m] load32_in [of 4 ?m] assms(4) unfolding lm by auto
  let ?s = "\<lparr>dm_pos = 2, dm_extra = count_arrays sg, dm_conn = c, dm_objects = mp\<rparr>"
  have n: "length ?ts = arg_count_for_signature sg" by (rule length_tokens)
  have "dm_inv c ?ts ?s"
    using tables_room_less [OF assms(7), of "length ?ts"] assms(2,6) wf n
    by (auto simp: dm_inv_def array_types_def count_arrays_tokens [of _ False] intro!: exI [of _ "fds_in c"])
  then obtain r s' where r: "demarshal_loop mem_ok junk ?m (unat sz div 4) (arg_count_for_signature sg) sg ?s = Inr (r, s')"
    "dm_inv c [] s'"
    using demarshal_loop_safe [where mem_ok = mem_ok and junk = junk, OF assms(8), of "unat sz div 4" ?m c sg ?s] lm assms(9) n by auto
  then obtain b where b: "dm_conn s' = c\<lparr>fds_in := b\<rparr>" "buf_wf b" by (auto simp: dm_inv_def)
  let ?c = "wl_connection_consume (dm_conn s') (unat sz)"
  have "conn_wf ?c \<and> contents (conn_in ?c) = drop (unat sz) (contents (conn_in c))"
    using buf_consume_contents [OF wf(1) assms(5)] assms(3) b by (auto simp: wl_connection_consume_def conn_wf_def)
  moreover have "\<exists>q. wl_connection_demarshal True mem_ok junk c sz mp msg = Inr (q, ?c, dm_objects s')"
    using assms(2) copy xy r(1)
    by (simp add: wl_connection_demarshal_def wl_message_count_arrays_def signature_of_def assms(1) Let_def WL_CLOSURE_MAX_ARGS_def)
  ultimately show ?thesis by blast
qed

theorem demarshal_safe_witness:
  "\<exists>c r c' mp'. wl_connection_demarshal True (\<lambda>_. True) 0 c 12 (wl_map_init WL_MAP_SERVER_SIDE) word_message = Inr (r, c', mp') \<and>
    contents (conn_in c) = words_bytes [3, 0xc0001, 7, 9] \<and> contents (conn_in c') = words_bytes [9]"
proof -
  obtain c where c: "conn_wf c" "contents (conn_in c) = words_bytes [3, 0xc0001, 7, 9]" "contents (fds_in c) = []"
    using waiting_connection [of "words_bytes [3, 0xc0001, 7, 9]"] by auto
  have pre: "wlm_signature word_message = Some ''u''" "arg_count_for_signature ''u'' \<le> 20" "8 \<le> unat (12 :: u32)"
    by (simp_all add: word_message_def is_arg_type_def)
  have len: "unat (12 :: u32) \<le> length (contents (conn_in c))" "length (contents (fds_in c)) mod 4 = 0"
    by (simp_all add: c)
  have room: "tables_room (wl_map_init WL_MAP_SERVER_SIDE) 20" by (rule tables_room_init) simp
  have words: "\<not> runs_out (take (unat (12 :: u32)) (contents (conn_in c))) (unat (12 :: u32) div 4) (tokens False ''u'') 2"
    unfolding word_tokens by simp
  show ?thesis
    using demarshal_safe [OF pre(1,2) c(1) pre(3) len room TrueI words, of 0] c(2) by auto
qed

text \<open>A message of nothing but its header, for a signature whose first argument is not a descriptor,
  is refused with a read of the word behind the end of the message.\<close>

theorem demarshal_header_only_overreads:
  assumes "wlm_signature msg = Some sg" "arg_count_for_signature sg \<le> 20"
    and "tokens False sg = (t, nl) # ts" "t \<noteq> CHR ''h''"
    and "conn_wf c" "8 \<le> length (contents (conn_in c))"
  shows "wl_connection_demarshal True mem_ok junk c 8 mp msg = Inl OutOfBounds"
proof -
  let ?m = "take 8 (contents (conn_in c))"
  have copy: "wl_connection_copy c 8 = Inr ?m"
    using wl_buffer_copy_contents [of "conn_in c" 8] assms(5,6) by (simp add: wl_connection_copy_def conn_wf_def)
  obtain x y where xy: "load32 ?m 0 = Inr x" "load32 ?m 4 = Inr y"
    using load32_in [of 0 ?m] load32_in [of 4 ?m] assms(6) by auto
  have n: "arg_count_for_signature sg = Suc (length ts)" using length_tokens [of False sg] assms(3) by simp
  obtain sg' where sg': "get_next_argument sg = ((t, nl), sg')" using get_next_argument_token [OF assms(3)] .
  have "load32 ?m 8 = Inl OutOfBounds" by (simp add: load32_def)
  then have "demarshal_loop mem_ok junk ?m 2 (Suc (length ts)) sg
      \<lparr>dm_pos = 2, dm_extra = count_arrays sg, dm_conn = c, dm_objects = mp\<rparr> = Inl OutOfBounds"
    using sg' assms(4) by simp
  then show ?thesis using copy xy n assms(2)
    by (simp add: wl_connection_demarshal_def wl_message_count_arrays_def signature_of_def assms(1) Let_def WL_CLOSURE_MAX_ARGS_def)
qed

theorem demarshal_header_only_overreads_witness:
  "\<exists>c. conn_wf c \<and> contents (conn_in c) = words_bytes [3, 0x80001] \<and>
    wl_connection_demarshal True (\<lambda>_. True) 0 c 8 (wl_map_init WL_MAP_SERVER_SIDE) word_message = Inl OutOfBounds"
proof -
  obtain c where c: "conn_wf c" "contents (conn_in c) = words_bytes [3, 0x80001]"
    using waiting_connection [of "words_bytes [3, 0x80001]"] by auto
  have pre: "wlm_signature word_message = Some ''u''" "arg_count_for_signature ''u'' \<le> 20"
    by (simp_all add: word_message_def is_arg_type_def)
  have "8 \<le> length (contents (conn_in c))" by (simp add: c)
  from demarshal_header_only_overreads [OF pre word_tokens _ c(1) this] c show ?thesis by auto
qed

end
