(* ===== verification/Dump.thy ===== *)
theory Dump
  imports Print
begin

text \<open>
  The dump pass, \<^verbatim>\<open>passes/dump.c\<close>: its options, the text it prints for a message, the file it
  writes and its statistics.

  The text on the standard output and the bytes in the file are results.  The memory the pass
  allocates is not cleared, so what its counters start from is a parameter.
\<close>

unbundle bit_operations_syntax

section \<open>State\<close>

definition SEPARATE :: u32 where "SEPARATE = 1"
definition DECIMAL :: u32 where "DECIMAL = 2"
definition DECODE :: u32 where "DECODE = 4"
definition TOFILE :: u32 where "TOFILE = 8"
definition RAW :: u32 where "RAW = 16"
definition CLIENTONLY :: u32 where "CLIENTONLY = 32"
definition SERVERONLY :: u32 where "SERVERONLY = 64"
definition STATS :: u32 where "STATS = 128"
definition NOOUT :: u32 where "NOOUT = 256"
definition HUMAN :: u32 where "HUMAN = 512"

lemmas option_bits = SEPARATE_def DECIMAL_def DECODE_def TOFILE_def RAW_def CLIENTONLY_def SERVERONLY_def STATS_def
  NOOUT_def HUMAN_def

definition has :: "u32 \<Rightarrow> u32 \<Rightarrow> bool" where
  "has options flag \<longleftrightarrow> options AND flag \<noteq> 0"

record dump =
  dp_options :: u32
  dp_file :: "string option"
  dp_in_msg :: u64
  dp_out_msg :: u64
  dp_in_bytes :: u64
  dp_out_bytes :: u64

section \<open>Options\<close>

record dump_args =
  da_flags :: u32
  da_file :: "string option"
  da_exit :: bool

definition set_flag :: "u32 \<Rightarrow> dump_args \<Rightarrow> dump_args" where
  "set_flag f a = a\<lparr>da_flags := da_flags a OR f\<rparr>"

text \<open>One argument and what follows it in \<open>argv\<close>, which ends with a null pointer.\<close>

definition dump_option :: "string \<Rightarrow> string list \<Rightarrow> dump_args \<Rightarrow> dump_args" where
  "dump_option s rest a =
     (if s = ''raw'' then set_flag RAW a
      else if s = ''decode'' then set_flag DECODE a
      else if s = ''human'' then set_flag HUMAN a
      else if s = ''separate'' then set_flag SEPARATE a
      else if s = ''decimal'' then set_flag DECIMAL a
      else if s = ''client'' then set_flag CLIENTONLY a
      else if s = ''server'' then set_flag SERVERONLY a
      else if s = ''stats'' then set_flag STATS a
      else if s = ''statistics'' then set_flag STATS a
      else if s = ''no-output'' then set_flag NOOUT a
      else if s = ''help'' then a\<lparr>da_exit := True\<rparr>
      else if s = ''to-file'' then
        (set_flag TOFILE a)\<lparr>da_file := (case rest of [] \<Rightarrow> None | f # _ \<Rightarrow> Some f)\<rparr>
      else a)"

fun dump_options :: "string list \<Rightarrow> dump_args \<Rightarrow> dump_args" where
  "dump_options [] a = a"
| "dump_options (s # rest) a = dump_options rest (dump_option s rest a)"

text \<open>\<open>fresh\<close> is the memory that \<open>malloc\<close> returns, \<open>opens\<close> whether a file can be created; creating
  one without a name fails.  The result is \<open>-1\<close> or the pass data, and whether the program exits.\<close>

definition dump_init :: "dump option \<Rightarrow> (string \<Rightarrow> bool) \<Rightarrow> string list \<Rightarrow> dump option \<times> bool" where
  "dump_init fresh opens argv =
     (case fresh of
        None \<Rightarrow> (None, False)
      | Some d \<Rightarrow>
          let a = dump_options (drop 1 argv) \<lparr>da_flags = 0, da_file = dp_file d, da_exit = False\<rparr>;
              flags = (if has (da_flags a) HUMAN then da_flags a else da_flags a OR RAW);
              opened = (case da_file a of None \<Rightarrow> False | Some f \<Rightarrow> opens f)
          in if has flags TOFILE \<and> \<not> opened then (None, da_exit a)
             else (Some (d\<lparr>dp_options := flags, dp_file := da_file a\<rparr>), da_exit a))"

section \<open>Messages\<close>

definition hex_word :: "u32 \<Rightarrow> string" where
  "hex_word w = (let s = show_hex (unat w) in replicate (8 - length s) (CHR ''0'') @ s)"

definition word_text :: "u32 \<Rightarrow> u32 \<Rightarrow> string" where
  "word_text options w = (if has options DECIMAL then show_int (sint w) else hex_word w) @ '' ''"

text \<open>\<^verbatim>\<open>%2lu\<close>.\<close>

definition pad_left2 :: "string \<Rightarrow> string" where
  "pad_left2 s = replicate (2 - length s) (CHR '' '') @ s"

text \<open>What is printed in front of a message inside the data, from the two words of its header.\<close>

definition header_text :: "u32 \<Rightarrow> u32 \<Rightarrow> u32 \<Rightarrow> string" where
  "header_text options w h =
     (if has options DECODE then
        [CHR 0x0A] @ '' id: '' @ show_nat (unat w) @ '' opcode: '' @ show_nat (unat (h AND 0xffff)) @
        '' size: '' @ show_nat (unat (drop_bit 16 h)) @ '':'' @ [CHR 0x0A, CHR 0x09]
      else [CHR 0x0A] @ '' | '' @ pad_left2 (show_nat (unat (drop_bit 16 h))) @ '' | '')"

text \<open>The loop over the words: \<open>left\<close> of them are to come, the next is number \<open>i\<close>, and \<open>sz\<close> bytes of
  the current message remain.  \<open>m\<close> is the memory from \<open>message->data\<close> on.\<close>

fun dump_words :: "u32 \<Rightarrow> bytes \<Rightarrow> nat \<Rightarrow> nat \<Rightarrow> nat \<Rightarrow> u64 \<Rightarrow> string res" where
  "dump_words options m msize 0 i sz = Inr ''''"
| "dump_words options m msize (Suc left) i sz =
     rbind (if has options SEPARATE then
              rbind (if sz = 0 \<and> i + 1 < msize then
                       rbind (load32 m (4 * (i + 1))) (\<lambda>h.
                       rbind (load32 m (4 * i)) (\<lambda>w. Inr (header_text options w h, ucast (drop_bit 16 h))))
                     else Inr ('''', sz)) (\<lambda>(s, sz). Inr (s, sz - 4))
            else Inr ('''', sz)) (\<lambda>(s, sz).
     rbind (load32 m (4 * i)) (\<lambda>w.
     rbind (dump_words options m msize left (i + 1) sz) (\<lambda>rest. Inr (s @ word_text options w @ rest))))"

text \<open>A message as the pass sees it: where it comes from, its bytes with what follows in memory, its
  length.\<close>

record dump_msg =
  dm_from :: side
  dm_data :: bytes
  dm_size :: nat

text \<open>\<open>human\<close> is the text of \<open>wldbg_message_print\<close>, \<open>writes\<close> how many bytes the file takes.\<close>

definition dump_to_file :: "nat \<Rightarrow> dump_msg \<Rightarrow> bytes res" where
  "dump_to_file writes msg =
     (if dm_size msg \<le> length (dm_data msg) then Inr (take (min writes (dm_size msg)) (dm_data msg)) else Inl OutOfBounds)"

definition dump_message :: "(dump_msg \<Rightarrow> string res) \<Rightarrow> nat \<Rightarrow> dump_msg \<Rightarrow> dump \<Rightarrow> (string \<times> bytes) res" where
  "dump_message human writes msg d =
     (let options = dp_options d in
      rbind (if has options TOFILE then dump_to_file writes msg else Inr []) (\<lambda>file.
        if has options TOFILE \<and> \<not> has options (NOT TOFILE) then Inr ('''', file)
        else if has options NOOUT then Inr ('''', file)
        else
          let options = (if has options DECODE then options OR SEPARATE else options) in
          rbind (if has options HUMAN then human msg else Inr '''') (\<lambda>text.
            if \<not> has options RAW then Inr (text, file)
            else
              rbind (dump_words options (dm_data msg) (dm_size msg) (dm_size msg div 4) 0 0) (\<lambda>ws.
                Inr (text @ (case dm_from msg of CLIENT \<Rightarrow> ''CLIENT: '' | SERVER \<Rightarrow> ''SERVER: '') @ ws @ [CHR 0x0A], file)))))"

definition dump_in :: "(dump_msg \<Rightarrow> string res) \<Rightarrow> nat \<Rightarrow> dump \<Rightarrow> dump_msg \<Rightarrow> (dump \<times> string \<times> bytes) res" where
  "dump_in human writes d msg =
     (let d = (if has (dp_options d) STATS
               then d\<lparr>dp_in_msg := dp_in_msg d + 1, dp_in_bytes := dp_in_bytes d + of_nat (dm_size msg)\<rparr> else d)
      in if has (dp_options d) CLIENTONLY \<and> \<not> has (dp_options d) SERVERONLY then Inr (d, '''', [])
         else rbind (dump_message human writes msg d) (\<lambda>r. Inr (d, r)))"

definition dump_out :: "(dump_msg \<Rightarrow> string res) \<Rightarrow> nat \<Rightarrow> dump \<Rightarrow> dump_msg \<Rightarrow> (dump \<times> string \<times> bytes) res" where
  "dump_out human writes d msg =
     (let d = (if has (dp_options d) STATS
               then d\<lparr>dp_out_msg := dp_out_msg d + 1, dp_out_bytes := dp_out_bytes d + of_nat (dm_size msg)\<rparr> else d)
      in if has (dp_options d) SERVERONLY \<and> \<not> has (dp_options d) CLIENTONLY then Inr (d, '''', [])
         else rbind (dump_message human writes msg d) (\<lambda>r. Inr (d, r)))"

definition stats_line :: "string \<Rightarrow> u64 \<Rightarrow> u64 \<Rightarrow> string" where
  "stats_line who n b =
     ''Messages from '' @ who @ '': '' @ show_nat (unat n) @ '' ('' @ show_nat (unat b) @ '' bytes)'' @ [CHR 0x0A]"

definition dump_destroy :: "dump \<Rightarrow> string" where
  "dump_destroy d =
     (if has (dp_options d) STATS then
        ''----------------------'' @ [CHR 0x0A] @ stats_line ''server'' (dp_in_msg d) (dp_in_bytes d) @
        stats_line ''client'' (dp_out_msg d) (dp_out_bytes d) @ ''----------------------'' @ [CHR 0x0A]
      else '''')"

section \<open>Facts\<close>

lemma has_or [simp]: "has (a OR b) f \<longleftrightarrow> has a f \<or> has b f"
  unfolding has_def by (simp add: bit.conj_disj_distrib2) (metis bit.disj_zero_right or_eq_0_iff)

lemma options_grow: "has (da_flags a) f \<Longrightarrow> has (da_flags (dump_options argv a)) f"
proof (induction argv a rule: dump_options.induct)
  case (2 s rest a)
  have "has (da_flags (dump_option s rest a)) f" using 2(2) by (simp add: dump_option_def set_flag_def)
  then show ?case using 2(1) by simp
qed simp

text \<open>Messages by their words: the sender, the opcode and the words behind the header.\<close>

record wire_message =
  wm_id :: u32
  wm_opcode :: u32
  wm_body :: "u32 list"

definition wm_words :: "wire_message \<Rightarrow> u32 list" where
  "wm_words w = [wm_id w, push_bit 16 (of_nat (4 * (2 + length (wm_body w)))) OR (wm_opcode w AND 0xffff)] @ wm_body w"

definition wm_fits :: "wire_message \<Rightarrow> bool" where
  "wm_fits w \<longleftrightarrow> 4 * (2 + length (wm_body w)) < 2 ^ 16"

definition show_words :: "u32 \<Rightarrow> u32 list \<Rightarrow> string" where
  "show_words options ws = concat (map (word_text options) ws)"

text \<open>One message on a line of its own: the header and the words.\<close>

definition show_wire :: "u32 \<Rightarrow> wire_message \<Rightarrow> string" where
  "show_wire options w =
     (if has options DECODE then
        [CHR 0x0A] @ '' id: '' @ show_nat (unat (wm_id w)) @ '' opcode: '' @ show_nat (unat (wm_opcode w AND 0xffff)) @
        '' size: '' @ show_nat (4 * (2 + length (wm_body w))) @ '':'' @ [CHR 0x0A, CHR 0x09]
      else [CHR 0x0A] @ '' | '' @ pad_left2 (show_nat (4 * (2 + length (wm_body w)))) @ '' | '') @
     show_words options (wm_words w)"

text \<open>The words of a message behind the first: no header until all bytes of it are counted.\<close>

lemma dump_words_body:
  assumes "has options SEPARATE" "i + length ws \<le> length all" "\<And>j. j < length ws \<Longrightarrow> all ! (i + j) = ws ! j" "length ws < 2 ^ 16"
  shows "dump_words options (words_bytes all @ rest) msize (length ws + n) i (of_nat (4 * length ws)) =
    rbind (dump_words options (words_bytes all @ rest) msize n (i + length ws) 0) (\<lambda>s. Inr (show_words options ws @ s))"
  using assms(2-4)
proof (induction ws arbitrary: i)
  case Nil
  then show ?case by (cases "dump_words options (words_bytes all @ rest) msize n i 0") (simp_all add: show_words_def)
next
  case (Cons w ws)
  have ld: "load32 (words_bytes all @ rest) (4 * i) = Inr w"
    using load32_words_bytes [of i all rest] Cons.prems(1) Cons.prems(2) [of 0] by simp
  have "unat (of_nat (4 * length (w # ws)) :: u64) = 4 * length (w # ws)"
    using Cons.prems(3) by (simp only: unat_of_nat) simp
  then have nz: "(of_nat (4 * length (w # ws)) :: u64) \<noteq> 0" by (metis length_0_conv list.distinct(1) mult_is_0 unsigned_0 zero_neq_numeral)
  have sz: "(of_nat (4 * length (w # ws)) :: u64) - 4 = of_nat (4 * length ws)" by simp
  have "all ! (i + 1 + j) = ws ! j" if "j < length ws" for j using Cons.prems(2) [of "Suc j"] that by simp
  then have ih: "dump_words options (words_bytes all @ rest) msize (length ws + n) (i + 1) (of_nat (4 * length ws)) =
    rbind (dump_words options (words_bytes all @ rest) msize n (i + 1 + length ws) 0) (\<lambda>s. Inr (show_words options ws @ s))"
    using Cons.IH [of "i + 1"] Cons.prems(1,3) by simp
  have "dump_words options (words_bytes all @ rest) msize (Suc (length ws + n)) i (of_nat (4 * length (w # ws))) =
    rbind (dump_words options (words_bytes all @ rest) msize (length ws + n) (i + 1) (of_nat (4 * length ws)))
      (\<lambda>r. Inr (word_text options w @ r))"
    unfolding dump_words.simps(2) using assms(1) nz ld sz by simp
  also have "\<dots> = rbind (dump_words options (words_bytes all @ rest) msize n (i + length (w # ws)) 0)
      (\<lambda>s. Inr (show_words options (w # ws) @ s))"
    unfolding ih rbind_assoc by (simp add: show_words_def)
  finally show ?case by simp
qed


lemma dump_words_messages:
  assumes "has options SEPARATE" "\<forall>w \<in> set ws. wm_fits w" "all = pre @ concat (map wm_words ws)" "4 * length all \<le> msize"
  shows "dump_words options (words_bytes all @ rest) msize (length all - length pre) (length pre) 0 =
    Inr (concat (map (show_wire options) ws))"
  using assms(2,3)
proof (induction ws arbitrary: pre)
  case (Cons w ws)
  let ?h = "push_bit 16 (of_nat (4 * (2 + length (wm_body w)))) OR (wm_opcode w AND 0xffff) :: u32"
  let ?ws = "tl (wm_words w)" and ?i = "length pre" and ?m = "words_bytes all @ rest"
  let ?n = "length (concat (map wm_words ws))"
  have words: "wm_words w = wm_id w # ?ws" "?ws = ?h # wm_body w" by (simp_all add: wm_words_def)
  have all: "all = pre @ wm_words w @ concat (map wm_words ws)" using Cons.prems(2) by simp
  have len: "length all = ?i + length (wm_words w) + ?n" using all by simp
  have fits: "4 * (2 + length (wm_body w)) < 2 ^ 16" using Cons.prems(1) by (simp add: wm_fits_def)
  have nth: "all ! (?i + j) = wm_words w ! j" if "j < length (wm_words w)" for j using that unfolding all by (simp add: nth_append)
  have l2: "length (wm_words w) = 2 + length (wm_body w)" by (simp add: wm_words_def)
  have ld: "load32 ?m (4 * ?i) = Inr (wm_id w)" "load32 ?m (4 * (?i + 1)) = Inr ?h"
    using load32_words_bytes [of ?i all rest] load32_words_bytes [of "?i + 1" all rest] nth [of 0] nth [of 1] len l2
    by (simp_all add: wm_words_def)
  have sz: "unat (drop_bit 16 ?h) = 4 * (2 + length (wm_body w))" by (rule header_parts(1) [OF fits])
  have "unat (ucast (drop_bit 16 ?h) :: u64) = 4 * (2 + length (wm_body w))"
    using sz fits by (simp add: unsigned_ucast_eq unsigned_take_bit_eq take_bit_nat_eq_self)
  moreover have "(ucast (drop_bit 16 ?h) :: u64) = of_nat (unat (ucast (drop_bit 16 ?h) :: u64))" by simp
  ultimately have "(ucast (drop_bit 16 ?h) :: u64) = of_nat (4 * (2 + length (wm_body w)))" by (simp only:)
  then have start: "(ucast (drop_bit 16 ?h) :: u64) - 4 = of_nat (4 * length ?ws)" unfolding words(2) by simp
  have left: "length all - ?i = Suc (length ?ws + ?n)" using len l2 words(2) by simp
  have room: "?i + 1 < msize" using assms(4) len l2 by simp
  have body: "dump_words options ?m msize (length ?ws + ?n) (?i + 1) (of_nat (4 * length ?ws)) =
    rbind (dump_words options ?m msize ?n (?i + 1 + length ?ws) 0) (\<lambda>s. Inr (show_words options ?ws @ s))"
  proof (rule dump_words_body [OF assms(1)])
    show "?i + 1 + length ?ws \<le> length all" using len l2 words(2) by simp
    show "all ! (?i + 1 + j) = ?ws ! j" if "j < length ?ws" for j
      using nth [of "Suc j"] that words by (metis Suc_less_eq add_Suc_shift length_Cons nth_Cons_Suc plus_1_eq_Suc add.commute add.assoc)
    show "length ?ws < 2 ^ 16" using fits words(2) by simp
  qed
  have n: "?n = length all - length (pre @ wm_words w)" using len by simp
  have pos: "?i + 1 + length ?ws = length (pre @ wm_words w)" using words l2 by simp
  have ih: "dump_words options ?m msize ?n (?i + 1 + length ?ws) 0 = Inr (concat (map (show_wire options) ws))"
    unfolding n pos using Cons.IH [of "pre @ wm_words w"] Cons.prems all by simp
  have hd: "header_text options (wm_id w) ?h @ show_words options (wm_words w) = show_wire options w"
    unfolding header_text_def show_wire_def sz header_parts(2) [OF fits] by simp
  have sw: "show_words options (wm_words w) = word_text options (wm_id w) @ show_words options ?ws"
    by (subst words(1)) (simp add: show_words_def)
  have "dump_words options ?m msize (length all - ?i) ?i 0 =
      Inr (header_text options (wm_id w) ?h @ word_text options (wm_id w) @ show_words options ?ws @ concat (map (show_wire options) ws))"
    unfolding left dump_words.simps(2) using assms(1) room ld start body ih by simp
  also have "\<dots> = Inr (show_wire options w @ concat (map (show_wire options) ws))"
    by (simp only: hd [symmetric] sw append_assoc)
  finally show ?case by simp
qed simp

text \<open>The whole words of a message.\<close>

definition words_in :: "bytes \<Rightarrow> u32 list" where
  "words_in x = map (\<lambda>i. word_of_nat (le_val (take 4 (drop (4 * i) x)))) [0..<length x div 4]"

lemma words_in_words_bytes [simp]: "words_in (words_bytes ws) = ws"
proof (rule nth_equalityI)
  fix i assume "i < length (words_in (words_bytes ws))"
  then have i: "i < length ws" by (simp add: words_in_def)
  then have "load32 (words_bytes ws) (4 * i) = Inr (ws ! i)" using load32_words_bytes [of i ws "[]"] by simp
  then show "words_in (words_bytes ws) ! i = ws ! i" using i by (auto simp: words_in_def load32_def split: if_splits)
qed (simp add: words_in_def)

lemma dump_words_plain:
  assumes "\<not> has options SEPARATE" "sz \<le> length m"
  shows "dump_words options m sz (sz div 4) 0 0 = Inr (show_words options (words_in (take sz m)))"
proof -
  let ?word = "\<lambda>i. word_of_nat (le_val (take 4 (drop (4 * i) m)))"
  have "dump_words options m sz n i k = Inr (show_words options (map ?word [i..<i + n]))"
    if "4 * (i + n) \<le> length m" for n i k
    using that
  proof (induction n arbitrary: i k)
    case (Suc n)
    then have "load32 m (4 * i) = Inr (?word i)" by (simp add: load32_def)
    then show ?case using Suc.IH [of "i + 1"] Suc.prems assms(1) by (simp add: upt_rec [of i] show_words_def)
  qed (simp add: show_words_def)
  from this [of 0 "sz div 4" 0] have "dump_words options m sz (sz div 4) 0 0 = Inr (show_words options (map ?word [0..<sz div 4]))"
    using assms(2) by simp
  moreover have "map ?word [0..<sz div 4] = words_in (take sz m)"
    using assms(2) by (auto simp: words_in_def drop_take min_def)
  ultimately show ?thesis by simp
qed

section \<open>Properties\<close>

text \<open>C30: With the options that separate or decode, the dump of data that holds whole messages is exactly
  these messages, each behind its own header with its size and all its words in order, whatever
  follows in memory.\<close>

theorem dump_separates_messages:
  assumes "has (dp_options d) SEPARATE \<or> has (dp_options d) DECODE" "has (dp_options d) RAW"
    and "\<not> has (dp_options d) NOOUT" "\<not> has (dp_options d) TOFILE" "\<not> has (dp_options d) HUMAN"
    and "\<forall>w \<in> set ws. wm_fits w"
    and "dm_data msg = words_bytes (concat (map wm_words ws)) @ rest" "dm_size msg = 4 * length (concat (map wm_words ws))"
  shows "dump_message human writes msg d =
    Inr ((case dm_from msg of CLIENT \<Rightarrow> ''CLIENT: '' | SERVER \<Rightarrow> ''SERVER: '') @
      concat (map (show_wire (dp_options d)) ws) @ [CHR 0x0A], [])"
proof -
  let ?o = "if has (dp_options d) DECODE then dp_options d OR SEPARATE else dp_options d"
  let ?all = "concat (map wm_words ws)"
  have sep: "has ?o SEPARATE" using assms(1) by (auto simp: has_def option_bits)
  have same: "has ?o f = has (dp_options d) f" if "f \<in> {DECODE, DECIMAL}" for f
    using that by (auto simp: has_def option_bits bit.conj_disj_distrib2)
  have "word_text ?o = word_text (dp_options d)" using same [of DECIMAL] by (auto simp: word_text_def)
  then have "show_wire ?o = show_wire (dp_options d)" using same [of DECODE] by (auto simp: show_wire_def show_words_def)
  moreover have "dump_words ?o (words_bytes ?all @ rest) (dm_size msg) (length ?all - length ([] :: u32 list)) (length ([] :: u32 list)) 0 =
      Inr (concat (map (show_wire ?o) ws))"
    by (rule dump_words_messages [OF sep assms(6)]) (use assms(8) in simp_all)
  ultimately have "dump_words ?o (dm_data msg) (dm_size msg) (dm_size msg div 4) 0 0 = Inr (concat (map (show_wire (dp_options d)) ws))"
    using assms(7,8) by simp
  moreover have "has ?o RAW" "\<not> has ?o HUMAN" using assms(2,5) by (auto simp: has_def option_bits bit.conj_disj_distrib2)
  ultimately show ?thesis using assms(3,4)
    unfolding dump_message_def Let_def by (simp cong: if_cong)
qed

lemma dump_init_flags:
  assumes "dump_init fresh opens argv = (Some d, ex)"
  shows "has (dp_options d) HUMAN \<or> has (dp_options d) RAW"
proof -
  obtain d0 where d0: "fresh = Some d0" using assms by (cases fresh) (auto simp: dump_init_def)
  define a where "a = dump_options (drop 1 argv) \<lparr>da_flags = 0, da_file = dp_file d0, da_exit = False\<rparr>"
  define flags where "flags = (if has (da_flags a) HUMAN then da_flags a else da_flags a OR RAW)"
  have "dp_options d = flags"
    using assms unfolding dump_init_def d0 option.case Let_def a_def [symmetric] flags_def [symmetric]
    by (auto split: if_splits)
  moreover have "has RAW RAW" by (simp add: has_def option_bits)
  ultimately show ?thesis by (simp add: flags_def)
qed

definition fresh_dump :: dump where
  "fresh_dump = \<lparr>dp_options = 0, dp_file = None, dp_in_msg = 77, dp_out_msg = 0, dp_in_bytes = 5, dp_out_bytes = 0\<rparr>"

lemma hex_words:
  "hex_word 3 = ''00000003''" "hex_word 0xc0001 = ''000c0001''" "hex_word 255 = ''000000ff''" "hex_word 4 = ''00000004''"
  "hex_word 0x80000 = ''00080000''" "hex_word 1 = ''00000001''"
  by ((simp add: hex_word_def show_hex_def show_base.simps digit_char_def Let_def, simp add: numeral_eq_Suc, code_simp)+)

theorem dump_separates_messages_witness:
  "dump_message (\<lambda>_. Inl NullDeref) 0 \<lparr>dm_from = CLIENT, dm_data = words_bytes [3, 0xc0001, 255, 4, 0x80000, 9], dm_size = 20\<rparr>
     (fresh_dump\<lparr>dp_options := RAW OR SEPARATE\<rparr>) =
   Inr (''CLIENT: '' @ [CHR 0x0A] @ '' | 12 | 00000003 000c0001 000000ff '' @ [CHR 0x0A] @ '' |  8 | 00000004 00080000 '' @ [CHR 0x0A], [])"
proof -
  let ?ws = "[\<lparr>wm_id = 3, wm_opcode = 1, wm_body = [255]\<rparr>, \<lparr>wm_id = 4, wm_opcode = 0, wm_body = []\<rparr>]"
  let ?msg = "\<lparr>dm_from = CLIENT, dm_data = words_bytes [3, 0xc0001, 255, 4, 0x80000, 9], dm_size = 20\<rparr>"
  have opts: "has (RAW OR SEPARATE) SEPARATE" "has (RAW OR SEPARATE) RAW" "\<not> has (RAW OR SEPARATE) NOOUT"
    "\<not> has (RAW OR SEPARATE) TOFILE" "\<not> has (RAW OR SEPARATE) HUMAN" "\<not> has (RAW OR SEPARATE) DECODE" "\<not> has (RAW OR SEPARATE) DECIMAL"
    by (simp_all add: has_def option_bits)
  have "dump_message (\<lambda>_. Inl NullDeref) 0 ?msg (fresh_dump\<lparr>dp_options := RAW OR SEPARATE\<rparr>) =
    Inr ((case dm_from ?msg of CLIENT \<Rightarrow> ''CLIENT: '' | SERVER \<Rightarrow> ''SERVER: '') @
      concat (map (show_wire (dp_options (fresh_dump\<lparr>dp_options := RAW OR SEPARATE\<rparr>))) ?ws) @ [CHR 0x0A], [])"
    by (rule dump_separates_messages [where rest = "bytes32 9"])
       (simp_all add: opts del: has_or, simp_all add: wm_fits_def wm_words_def)
  moreover have "show_nat 12 = ''12''" "show_nat 8 = ''8''"
    by ((simp add: show_nat_def show_base.simps digit_char_def, code_simp)+)
  ultimately show ?thesis
    by (simp add: show_wire_def opts wm_words_def show_words_def word_text_def hex_words pad_left2_def fresh_dump_def del: has_or)
qed

text \<open>The pass always prints: whatever its arguments, without no-output and human output every message
  is printed, all its words in order, also when it only was to be dumped to a file.\<close>

theorem dump_always_prints:
  assumes "dump_init fresh opens argv = (Some d, ex)" "\<not> has (dp_options d) NOOUT" "\<not> has (dp_options d) HUMAN"
    and "dm_size msg \<le> length (dm_data msg)" "\<not> has (dp_options d) SEPARATE" "\<not> has (dp_options d) DECODE"
  shows "\<exists>out. dump_message human writes msg d =
    Inr ((case dm_from msg of CLIENT \<Rightarrow> ''CLIENT: '' | SERVER \<Rightarrow> ''SERVER: '') @
      show_words (dp_options d) (words_in (take (dm_size msg) (dm_data msg))) @
      [CHR 0x0A], out)"
proof -
  have raw: "has (dp_options d) RAW" using dump_init_flags [OF assms(1)] assms(3) by simp
  then have more: "has (dp_options d) (NOT TOFILE)"
  proof -
    have "NOT TOFILE AND RAW = RAW" by (simp add: option_bits)
    then show ?thesis using raw unfolding has_def by (metis and.assoc bit.conj_zero_left)
  qed
  let ?m = "dm_data msg" and ?o = "dp_options d"
  have words: "dump_words ?o ?m (dm_size msg) (dm_size msg div 4) 0 0 = Inr (show_words ?o (words_in (take (dm_size msg) ?m)))"
    by (rule dump_words_plain [OF assms(5,4)])
  obtain out where out: "(if has ?o TOFILE then dump_to_file writes msg else Inr []) = Inr out"
    using assms(4) by (cases "has ?o TOFILE") (auto simp: dump_to_file_def)
  have "dump_message human writes msg d =
    Inr ((case dm_from msg of CLIENT \<Rightarrow> ''CLIENT: '' | SERVER \<Rightarrow> ''SERVER: '') @
      show_words ?o (words_in (take (dm_size msg) ?m)) @ [CHR 0x0A], out)"
    unfolding dump_message_def Let_def out using assms(2,3,6) raw more words by simp
  then show ?thesis by blast
qed

theorem dump_always_prints_witness:
  "\<exists>d out. dump_init (Some fresh_dump) (\<lambda>_. True) [''dump'', ''to-file'', ''out''] = (Some d, False) \<and>
     dump_message (\<lambda>_. Inl NullDeref) 8 \<lparr>dm_from = SERVER, dm_data = words_bytes [1, 0x80000], dm_size = 8\<rparr> d =
       Inr (''SERVER: 00000001 00080000 '' @ [CHR 0x0A], out)"
proof -
  let ?d = "fresh_dump\<lparr>dp_options := TOFILE OR RAW, dp_file := Some ''out''\<rparr>"
  let ?msg = "\<lparr>dm_from = SERVER, dm_data = words_bytes [1, 0x80000], dm_size = 8\<rparr>"
  have init: "dump_init (Some fresh_dump) (\<lambda>_. True) [''dump'', ''to-file'', ''out''] = (Some ?d, False)"
    by (simp add: dump_init_def dump_option_def set_flag_def has_def option_bits Let_def fresh_dump_def del: has_or)
  have opts: "\<not> has (dp_options ?d) NOOUT" "\<not> has (dp_options ?d) HUMAN" "\<not> has (dp_options ?d) SEPARATE" "\<not> has (dp_options ?d) DECODE"
    "\<not> has (dp_options ?d) DECIMAL"
    by (simp_all add: has_def option_bits del: has_or)
  have len: "dm_size ?msg \<le> length (dm_data ?msg)" by simp
  have "dm_size ?msg = length (words_bytes [1, 0x80000 :: u32])" by simp
  then have ws: "words_in (take (dm_size ?msg) (dm_data ?msg)) = [1, 0x80000]"
    by (simp only: dump_msg.simps take_all [OF order_refl] words_in_words_bytes)
  have "show_words (dp_options ?d) [1, 0x80000] = ''00000001 00080000 ''"
    using opts(5) by (simp add: show_words_def word_text_def hex_words del: has_or)
  then show ?thesis
    using init dump_always_prints [OF init opts(1,2) len opts(3,4), of "\<lambda>_. Inl NullDeref" 8] unfolding ws by auto
qed

end
