(* ===== verification/Own_Passes.thy ===== *)
theory Own_Passes
  imports Process Objinfo Dump
begin

text \<open>
  The passes of the repository at work together: the resolve pass (\<^verbatim>\<open>src/resolve-pass.c\<close>), the
  objinfo pass behind it (\<^verbatim>\<open>src/objinfo-pass.c\<close>) and the dump pass (\<^verbatim>\<open>passes/dump.c\<close>), each a
  \<open>struct wldbg_pass\<close> over the state they share.  They only look, so that what is proved of the
  forwarding of messages holds of them, and what the dump pass prints is what is forwarded.
\<close>

section \<open>The passes\<close>

text \<open>The tables of the connection, which the passes share.\<close>

record shared_state =
  pt_objects :: "resolved_objects option"
  pt_infos :: objects_info

text \<open>With the data of the dump pass, and what was printed and filed.\<close>

record pass_state = shared_state +
  pt_dump :: dump
  pt_text :: string
  pt_file :: bytes

definition message_at :: "wmessage \<Rightarrow> bytes" where
  "message_at m = drop (msg_off m) (msg_mem m)"

definition call_resolve ::
    "(resolved_objects option \<Rightarrow> bytes \<Rightarrow> (pass_verdict \<times> resolved_objects option) res) \<Rightarrow>
     'z shared_state_scheme wldbg \<Rightarrow> wmessage \<Rightarrow> ('z shared_state_scheme wldbg \<times> wmessage \<times> pass_verdict) res" where
  "call_resolve f w m =
     rbind (f (pt_objects (w_state w)) (message_at m)) (\<lambda>(v, ro).
       Inr (w\<lparr>w_state := (w_state w)\<lparr>pt_objects := ro\<rparr>\<rparr>, m, v))"

definition create_resolve_pass :: "ext \<Rightarrow> 'z shared_state_scheme pass" where
  "create_resolve_pass x =
     \<lparr>pass_name = ''resolve'', server_pass = call_resolve (resolve_in x), client_pass = call_resolve (resolve_out x)\<rparr>"

definition call_gather :: "obj_env \<Rightarrow> imem \<Rightarrow>
     'z shared_state_scheme wldbg \<Rightarrow> wmessage \<Rightarrow> ('z shared_state_scheme wldbg \<times> wmessage \<times> pass_verdict) res" where
  "call_gather e im w m =
     rbind (gather_info e im (pt_objects (w_state w)) (msg_from m) (message_at m) (pt_infos (w_state w))) (\<lambda>ob.
       Inr (w\<lparr>w_state := (w_state w)\<lparr>pt_infos := ob\<rparr>\<rparr>, m, PASS_NEXT))"

definition create_objinfo_pass :: "obj_env \<Rightarrow> imem \<Rightarrow> 'z shared_state_scheme pass" where
  "create_objinfo_pass e im = \<lparr>pass_name = ''objinfo'', server_pass = call_gather e im, client_pass = call_gather e im\<rparr>"

definition call_dump ::
    "(dump \<Rightarrow> dump_msg \<Rightarrow> (dump \<times> string \<times> bytes) res) \<Rightarrow>
     pass_state wldbg \<Rightarrow> wmessage \<Rightarrow> (pass_state wldbg \<times> wmessage \<times> pass_verdict) res" where
  "call_dump f w m =
     rbind (f (pt_dump (w_state w)) \<lparr>dm_from = msg_from m, dm_data = message_at m, dm_size = unat (msg_size m)\<rparr>) (\<lambda>(d, t, b).
       let s = w_state w in
       Inr (w\<lparr>w_state := s\<lparr>pt_dump := d, pt_text := pt_text s @ t, pt_file := pt_file s @ b\<rparr>\<rparr>, m, PASS_NEXT))"

definition dump_pass :: "(dump_msg \<Rightarrow> string res) \<Rightarrow> nat \<Rightarrow> pass_state pass" where
  "dump_pass human writes =
     \<lparr>pass_name = ''dump'', server_pass = call_dump (dump_in human writes), client_pass = call_dump (dump_out human writes)\<rparr>"

text \<open>The list after \<^verbatim>\<open>wldbg -g dump\<close>.\<close>

definition own_passes :: "ext \<Rightarrow> obj_env \<Rightarrow> imem \<Rightarrow> (dump_msg \<Rightarrow> string res) \<Rightarrow> nat \<Rightarrow> pass_state pass list" where
  "own_passes x e im human writes = [create_resolve_pass x, create_objinfo_pass e im, dump_pass human writes]"

section \<open>They only look\<close>

lemma transparent_if_each:
  assumes "\<And>p w m w' m' v. p \<in> set ps \<Longrightarrow> call_pass p w m = Inr (w', m', v) \<Longrightarrow>
    m' = m \<and> w_exit w' = w_exit w \<and> w_error w' = w_error w"
  shows "transparent_passes ps"
proof
  fix w w' :: "'a wldbg" and m m'
  show "run_passes ps w m = Inr (w', m') \<Longrightarrow> m' = m \<and> w_exit w' = w_exit w \<and> w_error w' = w_error w"
    using assms
  proof (induction ps arbitrary: w m)
    case (Cons p ps)
    obtain w1 m1 v where p: "call_pass p w m = Inr (w1, m1, v)"
      "(if v = PASS_STOP then Inr (w1, m1) else run_passes ps w1 m1) = Inr (w', m')"
      using Cons.prems(1) by (auto simp: rbind_eq_Inr)
    have one: "m1 = m \<and> w_exit w1 = w_exit w \<and> w_error w1 = w_error w" using Cons.prems(2) [of p w m w1 m1 v] p(1) by simp
    show ?case
    proof (cases "v = PASS_STOP")
      case False
      then have rest: "run_passes ps w1 m1 = Inr (w', m')" using p(2) by simp
      have "m' = m1 \<and> w_exit w' = w_exit w1 \<and> w_error w' = w_error w1"
        by (rule Cons.IH [OF rest]) (rule Cons.prems(2) [OF list.set_intros(2)])
      then show ?thesis using one by simp
    qed (use one p(2) in simp)
  qed simp
qed

interpretation own: transparent_passes "own_passes x e im human writes" for x e im human writes
proof (rule transparent_if_each)
  fix p :: "pass_state pass" and w m w' m' v
  assume "p \<in> set (own_passes x e im human writes)" "call_pass p w m = Inr (w', m', v)"
  then show "m' = m \<and> w_exit w' = w_exit w \<and> w_error w' = w_error w"
    by (auto simp: own_passes_def create_resolve_pass_def create_objinfo_pass_def dump_pass_def call_pass_def
        call_resolve_def call_gather_def call_dump_def Let_def rbind_eq_Inr split: side.splits)
qed

lemma framed_small: "list_all well_framed xs \<Longrightarrow> \<forall>y \<in> set xs. length y < 2 ^ 64"
proof
  fix y assume "list_all well_framed xs" "y \<in> set xs"
  then obtain word :: u32 where "unat (drop_bit 16 word) = length y" by (auto simp: well_framed_def list_all_iff)
  then show "length y < 2 ^ 64" using unat_u32_less [of "drop_bit 16 word"] by simp
qed

section \<open>What is printed\<close>

text \<open>Options under which the dump pass prints every message, and only its words.\<close>

definition plain_options :: "u32 \<Rightarrow> bool" where
  "plain_options options \<longleftrightarrow> has options RAW \<and>
     (\<forall>f \<in> {TOFILE, NOOUT, HUMAN, DECODE, SEPARATE, CLIENTONLY, SERVERONLY}. \<not> has options f)"

definition dump_line :: "u32 \<Rightarrow> side \<Rightarrow> bytes \<Rightarrow> string" where
  "dump_line options sd x =
     (case sd of CLIENT \<Rightarrow> ''CLIENT: '' | SERVER \<Rightarrow> ''SERVER: '') @ show_words options (words_in x) @ [CHR 0x0A]"

lemma dump_message_plain:
  assumes "plain_options (dp_options d)" "dm_data msg = x @ rest" "dm_size msg = length x"
  shows "dump_message human writes msg d = Inr (dump_line (dp_options d) (dm_from msg) x, [])"
proof -
  have o: "has (dp_options d) RAW" "\<not> has (dp_options d) TOFILE" "\<not> has (dp_options d) NOOUT" "\<not> has (dp_options d) HUMAN"
    "\<not> has (dp_options d) DECODE" "\<not> has (dp_options d) SEPARATE"
    using assms(1) by (auto simp: plain_options_def)
  have "dump_words (dp_options d) (dm_data msg) (dm_size msg) (dm_size msg div 4) 0 0 =
      Inr (show_words (dp_options d) (words_in x))"
    using dump_words_plain [OF o(6), of "dm_size msg" "dm_data msg"] assms(2,3) by simp
  then show ?thesis using o by (simp add: dump_message_def dump_line_def)
qed

lemma dump_callback_plain:
  assumes "plain_options (dp_options d)" "dm_data msg = x @ rest" "dm_size msg = length x"
  shows "\<exists>d'. (case dm_from msg of SERVER \<Rightarrow> dump_in human writes d msg | CLIENT \<Rightarrow> dump_out human writes d msg) =
    Inr (d', dump_line (dp_options d) (dm_from msg) x, []) \<and> dp_options d' = dp_options d"
proof -
  have "\<not> has (dp_options d) CLIENTONLY" "\<not> has (dp_options d) SERVERONLY"
    using assms(1) by (auto simp: plain_options_def)
  then show ?thesis using dump_message_plain [OF _ assms(2,3)] assms(1)
    by (cases "dm_from msg") (simp_all add: dump_in_def dump_out_def Let_def)
qed

text \<open>One message: the resolve and the objinfo pass let it through to the dump pass.\<close>

lemma call_resolve_lets_through:
  fixes w :: "pass_state wldbg"
  assumes "call_pass (create_resolve_pass x) w m = Inr (w1, m1, v)"
  shows "m1 = m \<and> v = PASS_NEXT \<and> pt_text (w_state w1) = pt_text (w_state w) \<and> pt_dump (w_state w1) = pt_dump (w_state w)"
proof -
  have "v = PASS_NEXT" if "resolve_in x ro b = Inr (v, ro') \<or> resolve_out x ro b = Inr (v, ro')" for v ro ro' b
    using that
    by (auto simp: resolve_in_def resolve_out_def rbind_eq_Inr Let_def split: option.splits if_splits)
  then show ?thesis using assms
    by (auto simp: create_resolve_pass_def call_pass_def call_resolve_def rbind_eq_Inr split: side.splits)
qed

lemma call_gather_lets_through:
  fixes w :: "pass_state wldbg"
  assumes "call_pass (create_objinfo_pass e im) w m = Inr (w1, m1, v)"
  shows "m1 = m \<and> v = PASS_NEXT \<and> pt_text (w_state w1) = pt_text (w_state w) \<and> pt_dump (w_state w1) = pt_dump (w_state w)"
  using assms by (auto simp: create_objinfo_pass_def call_pass_def call_gather_def rbind_eq_Inr split: side.splits)

lemma own_passes_text:
  assumes "run_passes (own_passes x e im human writes) w m = Inr (w', m')"
    and "plain_options (dp_options (pt_dump (w_state w)))" "message_at m = y @ rest" "unat (msg_size m) = length y"
  shows "pt_text (w_state w') = pt_text (w_state w) @ dump_line (dp_options (pt_dump (w_state w))) (msg_from m) y \<and>
    dp_options (pt_dump (w_state w')) = dp_options (pt_dump (w_state w))"
proof -
  let ?o = "dp_options (pt_dump (w_state w))"
  obtain w1 where w1: "run_passes [create_objinfo_pass e im, dump_pass human writes] w1 m = Inr (w', m')"
    "pt_text (w_state w1) = pt_text (w_state w)" "pt_dump (w_state w1) = pt_dump (w_state w)"
    using assms(1) unfolding own_passes_def run_passes.simps(2) [of "create_resolve_pass x"]
    by (auto simp: rbind_eq_Inr simp del: run_passes.simps dest!: call_resolve_lets_through)
  then obtain w2 where w2: "run_passes [dump_pass human writes] w2 m = Inr (w', m')"
    "pt_text (w_state w2) = pt_text (w_state w)" "pt_dump (w_state w2) = pt_dump (w_state w)"
    unfolding run_passes.simps(2) [of "create_objinfo_pass e im"]
    by (auto simp: rbind_eq_Inr simp del: run_passes.simps dest!: call_gather_lets_through)
  let ?msg = "\<lparr>dm_from = msg_from m, dm_data = message_at m, dm_size = unat (msg_size m)\<rparr>"
  obtain d' where "(case msg_from m of SERVER \<Rightarrow> dump_in human writes (pt_dump (w_state w)) ?msg
      | CLIENT \<Rightarrow> dump_out human writes (pt_dump (w_state w)) ?msg) = Inr (d', dump_line ?o (msg_from m) y, [])"
    "dp_options d' = ?o"
    using dump_callback_plain [OF assms(2), of ?msg y rest human writes] assms(3,4) by auto
  then show ?thesis using w2
    by (cases "msg_from m") (auto simp: call_pass_def dump_pass_def call_dump_def Let_def rbind_eq_Inr split: if_splits)
qed

lemma own_run_over_text:
  assumes "run_over (own_passes x e im human writes) w m (map length xs) = Inr w'" "plain_options (dp_options (pt_dump (w_state w)))"
    and "message_at m = concat xs @ rest" "\<forall>y \<in> set xs. length y < 2 ^ 64"
  shows "pt_text (w_state w') =
    pt_text (w_state w) @ concat (map (dump_line (dp_options (pt_dump (w_state w))) (msg_from m)) xs)"
  using assms
proof (induction xs arbitrary: w m)
  case (Cons y xs)
  let ?m = "m\<lparr>msg_size := of_nat (length y)\<rparr>"
  obtain w1 m1 where w1: "run_passes (own_passes x e im human writes) w ?m = Inr (w1, m1)"
    "run_over (own_passes x e im human writes) w1 (m\<lparr>msg_off := msg_off m + length y\<rparr>) (map length xs) = Inr w'"
    using Cons.prems(1) by (auto simp: rbind_eq_Inr)
  have at: "message_at ?m = y @ (concat xs @ rest)" using Cons.prems(3) by (simp add: message_at_def)
  have "unat (msg_size ?m) = length y" using Cons.prems(4) by (simp add: unat_of_nat)
  note one = own_passes_text [OF w1(1) Cons.prems(2) at this]
  have "message_at (m\<lparr>msg_off := msg_off m + length y\<rparr>) = concat xs @ rest"
    using arg_cong [OF Cons.prems(3), of "drop (length y)"] by (simp add: message_at_def add.commute)
  from Cons.IH [OF w1(2) _ this] one Cons.prems(2,4) show ?case by simp
qed simp

text \<open>A small input: one message of a header only, from the client.\<close>

definition one_message :: bytes where
  "one_message = words_bytes [4, 0x80000]"

definition one_message_conn :: wldbg_connection where
  "one_message_conn = \<lparr>wc_server = wl_connection_create 4, wc_client = (wl_connection_create 5)\<lparr>conn_in :=
     \<lparr>buf_data = words_bytes [4, 0x80000] @ replicate 4088 0, buf_head = 8, buf_tail = 0\<rparr>\<rparr>\<rparr>"

lemma one_message_setup:
  "list_all well_framed [one_message]" "length (concat [one_message]) = 8"
  "conn_wf (end_of CLIENT one_message_conn)" "conn_wf (end_of (other_side CLIENT) one_message_conn)"
  "contents (fds_in (end_of CLIENT one_message_conn)) = []"
  "contents (conn_in (end_of CLIENT one_message_conn)) = concat [one_message]"
  "contents (conn_out (end_of (other_side CLIENT) one_message_conn)) = []"
  "data_sent (end_of (other_side CLIENT) one_message_conn) = []"
  "length (concat [one_message]) \<le> accepted (replicate 8 (Sent 1))" "Send_error \<notin> set (replicate 8 (Sent 1))"
proof -
  let ?b = "\<lparr>buf_data = words_bytes [4, 0x80000] @ replicate 4088 0, buf_head = 8, buf_tail = 0\<rparr>"
  have "load32 (words_bytes [4, 0x80000]) 4 = Inr 0x80000" using load32_words_bytes [of 1 "[4, 0x80000]" "[]"] by simp
  then show "list_all well_framed [one_message]" by (simp add: well_framed_def one_message_def)
  have size: "wl_buffer_size ?b = 8" by (simp add: wl_buffer_size_def)
  have wf: "buf_wf ?b" unfolding buf_wf_def size by simp
  have cont: "contents ?b = words_bytes [4, 0x80000]"
    using ring_load_pure [of "buf_data ?b" 0 8] unfolding contents_def size by simp
  show "conn_wf (end_of CLIENT one_message_conn)" "conn_wf (end_of (other_side CLIENT) one_message_conn)"
    using conn_wf_create wf by (simp_all add: conn_wf_def end_of_def other_side_def one_message_conn_def)
  show "contents (fds_in (end_of CLIENT one_message_conn)) = []"
    "contents (conn_in (end_of CLIENT one_message_conn)) = concat [one_message]"
    "contents (conn_out (end_of (other_side CLIENT) one_message_conn)) = []"
    "data_sent (end_of (other_side CLIENT) one_message_conn) = []"
    using cont by (simp_all add: end_of_def other_side_def wl_connection_create_def empty_buffer_wf one_message_conn_def
        one_message_def data_sent_def)
  show len: "length (concat [one_message]) = 8" by (simp add: one_message_def)
  show "length (concat [one_message]) \<le> accepted (replicate 8 (Sent 1))" unfolding len by (simp add: accepted_def)
  show "Send_error \<notin> set (replicate 8 (Sent 1))" by simp
qed

section \<open>Properties\<close>

text \<open>C5: What the dump pass prints is what is forwarded.  With the resolve, objinfo and dump passes on a
  buffer of framed messages, when the run of the passes over the messages faults, so does the
  debugger; else, if no \<open>sendmsg\<close> fails, all bytes arrive on the other side and exactly the words of each
  message were printed, a line for each, in their order.\<close>

theorem dumped_is_forwarded:
  fixes x e im human writes
  assumes "list_all well_framed xs" "xs \<noteq> []" "plain_options (dp_options (pt_dump (w_state w)))"
    and "conn_wf (end_of sd wc)" "conn_wf (end_of (other_side sd) wc)"
    and "contents (fds_in (end_of sd wc)) = []" "contents (conn_in (end_of sd wc)) = concat xs"
    and "contents (conn_out (end_of (other_side sd) wc)) = []"
    and "length buffer = 4096" "\<not> w_pass_whole_buffer w" "\<not> w_exit w" "\<not> w_error w"
    and "length (concat xs) \<le> accepted rs" "Send_error \<notin> set rs"
  defines "ps \<equiv> own_passes x e im human writes"
  shows "\<exists>r. process_data ps w rs buffer wc sd (length (concat xs)) = Some r \<and>
    (case run_over ps w \<lparr>msg_mem = concat xs @ drop (length (concat xs)) buffer, msg_off = 0,
            msg_size = of_nat (length (concat xs)), msg_from = sd\<rparr> (map length xs) of
       Inl f \<Rightarrow> r = Inl f
     | Inr w' \<Rightarrow> \<exists>wc' rs'. r = Inr (int (length xs), w', wc', rs') \<and>
        data_sent (end_of (other_side sd) wc') = data_sent (end_of (other_side sd) wc) @ concat xs \<and>
        pt_text (w_state w') =
          pt_text (w_state w) @ concat (map (dump_line (dp_options (pt_dump (w_state w))) sd) xs))"
proof -
  let ?m = "\<lparr>msg_mem = concat xs @ drop (length (concat xs)) buffer, msg_off = 0,
      msg_size = of_nat (length (concat xs)), msg_from = sd\<rparr>"
  have at: "message_at ?m = concat xs @ drop (length (concat xs)) buffer" by (simp add: message_at_def)
  have printed: "pt_text (w_state w') = pt_text (w_state w) @ concat (map (dump_line (dp_options (pt_dump (w_state w))) sd) xs)"
    if "run_over ps w ?m (map length xs) = Inr w'" for w'
    using own_run_over_text [OF that [unfolded ps_def] assms(3) at framed_small [OF assms(1)]] by simp
  from process_data_forwards [OF own.transparent_passes_axioms [of x e im human writes, folded ps_def] assms(1,2,4-13)]
  obtain r where r: "process_data ps w rs buffer wc sd (length (concat xs)) = Some r"
    "(\<exists>f. r = Inl f \<and> run_over ps w ?m (map length xs) = Inl f) \<or>
     (\<exists>w' wc' rs'. r = Inr (int (length xs), w', wc', rs') \<and>
        data_sent (end_of (other_side sd) wc') = data_sent (end_of (other_side sd) wc) @ concat xs \<and>
        run_over ps w ?m (map length xs) = Inr w')"
    using assms(14) by blast
  then show ?thesis using printed by (cases "run_over ps w ?m (map length xs)") auto
qed

definition example_env :: obj_env where
  "example_env = \<lparr>oe_malloc = True, oe_strdup = True, oe_array = \<lambda>_. True, oe_junk = None, oe_seat_interface = Iface 1\<rparr>"

theorem dumped_is_forwarded_witness:
  "\<exists>w' wc' rs'. process_data (own_passes (sample_ext (\<lambda>_. free_entry)) example_env (\<lambda>_. free_entry) (\<lambda>_. Inl NullDeref) 0)
      \<lparr>w_exit = False, w_error = False, w_pass_whole_buffer = False,
       w_state = \<lparr>pt_objects = None, pt_infos = create_objects_info, pt_dump = fresh_dump\<lparr>dp_options := RAW\<rparr>, pt_text = [], pt_file = []\<rparr>\<rparr>
      (replicate 8 (Sent 1)) (replicate 4096 0)
      \<lparr>wc_server = wl_connection_create 4, wc_client = (wl_connection_create 5)\<lparr>conn_in :=
         \<lparr>buf_data = words_bytes [4, 0x80000] @ replicate 4088 0, buf_head = 8, buf_tail = 0\<rparr>\<rparr>\<rparr>
      CLIENT 8 = Some (Inr (1, w', wc', rs')) \<and>
    pt_text (w_state w') = ''CLIENT: 00000004 00080000 '' @ [CHR 0x0A] \<and>
    data_sent (wc_server wc') = words_bytes [4, 0x80000]"
proof -
  let ?ext = "sample_ext (\<lambda>_. free_entry)"
  let ?w = "\<lparr>w_exit = False, w_error = False, w_pass_whole_buffer = False,
    w_state = \<lparr>pt_objects = None, pt_infos = create_objects_info, pt_dump = fresh_dump\<lparr>dp_options := RAW\<rparr>, pt_text = [], pt_file = []\<rparr>\<rparr>"
  have plain: "plain_options (dp_options (pt_dump (w_state ?w)))"
    by (simp add: plain_options_def has_def option_bits del: has_or)
  have flags: "length (replicate 4096 (0 :: u8)) = 4096" "\<not> w_pass_whole_buffer ?w" "\<not> w_exit ?w" "\<not> w_error ?w" by simp_all
  have "\<not> has RAW DECIMAL" by (simp add: has_def option_bits)
  then have line: "dump_line RAW CLIENT one_message = ''CLIENT: 00000004 00080000 '' @ [CHR 0x0A]"
    by (simp only: dump_line_def one_message_def words_in_words_bytes) (simp add: show_words_def word_text_def hex_words)
  note one = one_message_setup
  let ?ps = "own_passes ?ext example_env (\<lambda>_. free_entry) (\<lambda>_. Inl NullDeref) 0"
  let ?m = "\<lparr>msg_mem = one_message @ drop 8 (replicate 4096 0), msg_off = 0, msg_size = 8, msg_from = CLIENT\<rparr>"
  have ld: "load32 (one_message @ b) 0 = Inr 4" "load32 (one_message @ b) 4 = Inr 0x80000" for b
    using load32_words_bytes [of 0 "[4, 0x80000]"] load32_words_bytes [of 1 "[4, 0x80000]"] by (simp_all add: one_message_def)
  have r: "call_pass (create_resolve_pass ?ext) ?w ?m = Inr (?w, ?m, PASS_NEXT)"
    by (simp add: call_pass_def create_resolve_pass_def call_resolve_def resolve_out_def message_at_def ld
        wldbg_message_get_object_def del: drop_replicate)
  have g: "call_pass (create_objinfo_pass example_env (\<lambda>_. free_entry)) ?w ?m = Inr (?w, ?m, PASS_NEXT)"
    by (simp add: call_pass_def create_objinfo_pass_def call_gather_def gather_info_def message_at_def
        wldbg_resolve_message_def wldbg_parse_message_def ld Let_def del: drop_replicate)
  obtain d' where d: "dump_out (\<lambda>_. Inl NullDeref) 0 (pt_dump (w_state ?w))
      \<lparr>dm_from = CLIENT, dm_data = one_message @ drop 8 (replicate 4096 0), dm_size = 8\<rparr> = Inr (d', dump_line RAW CLIENT one_message, [])"
    using dump_callback_plain [OF plain, of "\<lparr>dm_from = CLIENT, dm_data = one_message @ drop 8 (replicate 4096 0), dm_size = 8\<rparr>"
        one_message _ "\<lambda>_. Inl NullDeref" 0] one(2) by (auto simp del: drop_replicate)
  have "\<exists>w'. call_pass (dump_pass (\<lambda>_. Inl NullDeref) 0) ?w ?m = Inr (w', ?m, PASS_NEXT)"
    using d by (simp add: call_pass_def dump_pass_def call_dump_def message_at_def Let_def del: drop_replicate)
  then obtain w' where over: "run_over ?ps ?w ?m [8] = Inr w'"
    using r g by (auto simp: own_passes_def simp del: drop_replicate)
  have len: "length one_message = 8" "concat [one_message] = one_message" using one(2) by simp_all
  have "\<exists>w' wc' rs'. process_data ?ps ?w (replicate 8 (Sent 1)) (replicate 4096 0) one_message_conn CLIENT 8 =
      Some (Inr (1, w', wc', rs')) \<and> pt_text (w_state w') = ''CLIENT: 00000004 00080000 '' @ [CHR 0x0A] \<and>
      data_sent (wc_server wc') = one_message"
    using dumped_is_forwarded [OF one(1) _ plain one(3-7) flags one(9,10), of ?ext example_env "\<lambda>_. free_entry" "\<lambda>_. Inl NullDeref" 0]
      line over unfolding len one(8) list.map
    by (auto simp: end_of_def other_side_def simp del: drop_replicate run_over.simps)
  then show ?thesis unfolding one_message_conn_def one_message_def .
qed

end
