(* ===== verification/Info.thy ===== *)
theory Info
  imports Interactive Objinfo_Facts Dispatch Print
begin

text \<open>
  What the command \<open>info\<close> prints: \<^verbatim>\<open>src/interactive/info.c\<close> and
  \<^verbatim>\<open>src/interactive/objinfo-info.c\<close>.  The text is the result.

  What \<open>printf\<close> makes of a null pointer for \<^verbatim>\<open>%s\<close> is not defined; it is the parameter
  \<open>null_text\<close>, \<open>Inl NullDeref\<close> by the letter of the standard and the text \<^verbatim>\<open>(null)\<close> with
  glibc.
\<close>

unbundle bit_operations_syntax

definition nl :: string where
  "nl = [CHR 0x0A]"

definition tab :: string where
  "tab = [CHR 0x09]"

definition quoted :: "string \<Rightarrow> string" where
  "quoted s = [CHR 0x27] @ s @ [CHR 0x27]"

definition show_s :: "string res \<Rightarrow> string option \<Rightarrow> string res" where
  "show_s null_text p = (case p of None \<Rightarrow> null_text | Some s \<Rightarrow> Inr s)"

definition show_u :: "u32 \<Rightarrow> string" where
  "show_u w = show_nat (unat w)"

definition show_d :: "u32 \<Rightarrow> string" where
  "show_d w = show_int (sint w)"

definition pad_to :: "nat \<Rightarrow> string \<Rightarrow> string" where
  "pad_to n s = replicate (n - length s) (CHR '' '') @ s"

fun rconcat :: "string res list \<Rightarrow> string res" where
  "rconcat [] = Inr ''''"
| "rconcat (r # rs) = rbind r (\<lambda>s. rbind (rconcat rs) (\<lambda>t. Inr (s @ t)))"

section \<open>Information about objects\<close>

definition print_wl_buffer_info :: "wl_buffer_info \<Rightarrow> nat \<Rightarrow> string" where
  "print_wl_buffer_info b ind =
     (let sp = replicate ind (CHR '' '') in
      sp @ ''-- wl_buffer --'' @ nl @
      sp @ ''  offset: '' @ show_d (bi_offset b) @ nl @
      sp @ ''  size: '' @ show_d (bi_width b) @ ''x'' @ show_d (bi_height b) @ nl @
      sp @ ''  stride: '' @ show_d (bi_stride b) @ nl @
      sp @ ''  format: '' @ show_u (bi_format b) @ nl)"

text \<open>The fields of a state and the buffer that is attached.\<close>

definition print_surface_state :: "objects_info \<Rightarrow> surface_state \<Rightarrow> nat \<Rightarrow> string res" where
  "print_surface_state ob s ind =
     (let sp = replicate ind (CHR '' '') in
      rbind (if ss_wl_buffer_id s \<noteq> 0 then
               rbind (case objects_info_get ob (ss_wl_buffer_id s) of
                        None \<Rightarrow> Inr (sp @ ''NO BUFFER!'' @ nl)
                      | Some i \<Rightarrow> rbind (as_buffer (oi_info i)) (\<lambda>b. Inr (print_wl_buffer_info b (ind + 2))))
                 (\<lambda>t. Inr (nl @ sp @ ''Attached buffer ->'' @ nl @ t))
             else Inr '''') (\<lambda>attached.
        Inr (sp @ ''-- wl_surface --'' @ nl @
             sp @ ''Current / pending ->'' @ nl @ nl @
             sp @ ''  wl_buffer: '' @ show_u (ss_wl_buffer_id s) @ nl @
             sp @ ''  attached to: '' @ show_u (ss_attached_x s) @ ''x'' @ show_u (ss_attached_y s) @ nl @
             sp @ ''  buffer scale: '' @ show_u (ss_buffer_scale s) @ nl @
             sp @ ''  last frame id: '' @ show_u (ss_last_frame_id s) @ nl @ attached)))"

definition print_wl_surface_info :: "objects_info \<Rightarrow> wl_surface_info \<Rightarrow> nat \<Rightarrow> string res" where
  "print_wl_surface_info ob s ind =
     rbind (print_surface_state ob (si_state s) ind) (\<lambda>t.
       case si_commited s of
         None \<Rightarrow> Inr t
       | Some c \<Rightarrow>
           rbind (print_surface_state ob c (ind + 2)) (\<lambda>u.
             Inr (t @ nl @ replicate ind (CHR '' '') @ ''Commited ->'' @ nl @ u)))"

definition print_configure :: "nat \<Rightarrow> xdg_configure \<Rightarrow> string" where
  "print_configure k c =
     ''  ['' @ pad_right 2 (show_nat k) @ '']: width: '' @ pad_to 5 (show_u (xc_width c)) @ '', height: '' @
     pad_to 5 (show_u (xc_height c)) @ '', state: -- , serial: '' @ pad_to 5 (show_u (xc_serial c)) @
     '', acked: '' @ (if xc_acked c then ''1'' else ''0'') @ nl"

text \<open>The loop over the ring, \<open>left\<close> turns before \<open>ord\<close> is 10; both counters have 8 bits.\<close>

fun print_configures :: "nat \<Rightarrow> u8 \<Rightarrow> u8 \<Rightarrow> xdg_configure list \<Rightarrow> string res" where
  "print_configures 0 i ord cs = Inr ''''"
| "print_configures (Suc left) i ord cs =
     (let i = i mod 10 in
      rbind (nth_res cs (unat i)) (\<lambda>c.
      rbind (print_configures left (i + 1) (ord + 1) cs) (\<lambda>t. Inr (print_configure (unat ord + 1) c @ t))))"

definition print_xdg_surface_info :: "string res \<Rightarrow> objects_info \<Rightarrow> xdg_surface_info \<Rightarrow> string res" where
  "print_xdg_surface_info null_text ob x =
     rbind (show_s null_text (xs_title x)) (\<lambda>title.
     rbind (show_s null_text (xs_app_id x)) (\<lambda>app.
     rbind (print_configures 10 (ucast (xs_configures_num x mod 10)) 0 (xs_configures x)) (\<lambda>cs.
     rbind (case objects_info_get ob (xs_wl_surface_id x) of None \<Rightarrow> Inl AssertFailed | Some i \<Rightarrow> Inr i) (\<lambda>i.
     rbind (as_surface (oi_info i)) (\<lambda>s.
     rbind (print_wl_surface_info ob s 2) (\<lambda>t.
       Inr ('' -- xdg_surface --'' @ nl @ ''Tile: '' @ quoted title @ nl @ ''App id: '' @ quoted app @ nl @
            ''Last 10 configures (out of '' @ show_nat (unat (xs_configures_num x)) @ ''):'' @ nl @ cs @ t)))))))"

definition print_capabilities :: "print_env \<Rightarrow> u32 \<Rightarrow> string" where
  "print_capabilities e p =
     (let kb = (p AND pe_keyboard e \<noteq> 0); pt = (p AND pe_pointer e \<noteq> 0); tc = (p AND pe_touch e \<noteq> 0) in
      (if kb then ''keyboard'' else '''') @
      (if pt then (if kb then '' | '' else '''') @ ''pointer'' else '''') @
      (if tc then (if kb \<or> pt then '' | '' else '''') @ ''touch'' else '''') @
      (if \<not> kb \<and> \<not> pt \<and> \<not> tc then ''none'' else ''''))"

definition print_wl_seat_info :: "string res \<Rightarrow> print_env \<Rightarrow> wl_seat_info \<Rightarrow> u32 option \<Rightarrow> nat \<Rightarrow> string res" where
  "print_wl_seat_info null_text e s version ind =
     (let sp = replicate ind (CHR '' '') in
      rbind (case st_name s of Name_uninit \<Rightarrow> Inl UninitRead | Name_null \<Rightarrow> null_text | Name n \<Rightarrow> Inr n) (\<lambda>name.
      rbind (case version of None \<Rightarrow> Inl UninitRead | Some v \<Rightarrow> Inr v) (\<lambda>v.
        Inr (sp @ ''-- wl_seat --'' @ nl @ sp @ ''  name: '' @ [CHR 0x22] @ name @ [CHR 0x22] @ nl @
             sp @ ''  version: '' @ show_u v @ nl @ sp @ ''  capabilities: '' @ print_capabilities e (st_capabilities s) @ nl))))"

definition as_seat_info :: "info \<Rightarrow> wl_seat_info res" where
  "as_seat_info i = (case i of Seat_info s \<Rightarrow> Inr s | _ \<Rightarrow> Inl TypeConfusion)"

definition print_objinfo :: "string res \<Rightarrow> print_env \<Rightarrow> imem \<Rightarrow> objects_info \<Rightarrow> object_info \<Rightarrow> string res" where
  "print_objinfo null_text e im ob i =
     (case oi_interface i of
        None \<Rightarrow> Inl NullDeref
      | Some p \<Rightarrow>
          let name = intf_name (intf_at im p) in
          rbind (if name = ''xdg_surface'' then
                   rbind (as_xdg (oi_info i)) (print_xdg_surface_info null_text ob)
                 else if name = ''wl_buffer'' then
                   rbind (as_buffer (oi_info i)) (\<lambda>b. Inr (print_wl_buffer_info b 0))
                 else if name = ''wl_surface'' then
                   rbind (as_surface (oi_info i)) (\<lambda>s. print_wl_surface_info ob s 0)
                 else if name = ''wl_seat'' then
                   rbind (as_seat_info (oi_info i)) (\<lambda>s. print_wl_seat_info null_text e s (oi_version i) 0)
                 else Inr '''') (\<lambda>t.
            Inr (''Info about object: '' @ show_u (oi_id i) @ '' ['' @ name @ '']'' @ nl @ t)))"

definition map_infos :: "object_info ids_map \<Rightarrow> object_info list" where
  "map_infos m = List.map_filter (\<lambda>i. wldbg_ids_map_get m (word_of_nat i)) [0..<unat (map_count m)]"

definition print_all_objinfo :: "string res \<Rightarrow> print_env \<Rightarrow> imem \<Rightarrow> objects_info \<Rightarrow> string res" where
  "print_all_objinfo null_text e im ob =
     rconcat (map (print_objinfo null_text e im ob) (map_infos (ob_client ob) @ map_infos (ob_server ob)))"

text \<open>The infos of the connection; an empty text on the standard output stands for the message on the
  standard error.\<close>

definition print_object_info ::
    "string res \<Rightarrow> print_env \<Rightarrow> imem \<Rightarrow> bool \<Rightarrow> objects_info option \<Rightarrow> string \<Rightarrow> string res" where
  "print_object_info null_text e im gathering oi buf =
     (if \<not> gathering then
        Inr (''Not gathering information about objects, run wldbg with -g or -objinfo option ;)'' @ nl)
      else if strncmp_eq buf ''all'' 4 then
        (case oi of None \<Rightarrow> Inl NullDeref | Some ob \<Rightarrow> print_all_objinfo null_text e im ob)
      else
        let i = str_to_uint buf in
        if i = - 1 then Inr ''''
        else
          (case wldbg_message_get_object_info oi (word_of_int i) of
             None \<Rightarrow> Inr (''No information about '' @ show_int i @ nl)
           | Some info \<Rightarrow> (case oi of None \<Rightarrow> Inl AssertFailed | Some ob \<Rightarrow> print_objinfo null_text e im ob info)))"

section \<open>The command\<close>

definition print_object :: "imem \<Rightarrow> u32 \<times> iptr option \<Rightarrow> string" where
  "print_object im = (\<lambda>(i, p).
     (let name = (case p of None \<Rightarrow> ''NULL'' | Some q \<Rightarrow> intf_name (intf_at im q)) in
      if WL_SERVER_ID_START \<le> i then tab @ ''SRV '' @ show_u (i - WL_SERVER_ID_START) @ '' -> '' @ name @ nl
      else tab @ show_u i @ '' -> '' @ name @ nl))"

definition print_objects :: "mctx \<Rightarrow> string" where
  "print_objects msg = concat (map (print_object (mc_im msg)) (wldbg_message_objects_iterate (mc_ro msg)))"

definition print_breakpoints :: "('r, 'p) wldbgi \<Rightarrow> string" where
  "print_breakpoints st =
     (if bs_list (wi_breakpoints st) = [] then ''No breakpoints'' @ nl
      else concat (map (\<lambda>b. show_u (bp_id b) @ '': break on '' @ bp_description b @ nl) (bs_list (wi_breakpoints st))))"

text \<open>The command of an automatic command ends at the first nul of its memory.\<close>

definition print_autocmds :: "('r, 'p) wldbgi \<Rightarrow> string" where
  "print_autocmds st =
     (if as_list (wi_autocmds st) = [] then ''No autocommands'' @ nl
      else concat (map (\<lambda>a. show_u (ac_id a) @ '': run '' @ quoted (takeWhile (\<lambda>c. c \<noteq> nul) (ac_cmd a)) @ '' on '' @
                          quoted (ac_filter a) @ nl) (as_list (wi_autocmds st))))"

definition print_filters :: "('r, 'p) wldbgi \<Rightarrow> string" where
  "print_filters st =
     (if fs_list (wi_filters st) = [] then ''No filters'' @ nl
      else concat (map (\<lambda>f. show_u (flt_id f) @ '': '' @ (if flt_show_only f then ''show'' else ''hide'') @ '' '' @
                          flt_filter f @ nl) (fs_list (wi_filters st))))"

definition bit01 :: "bool \<Rightarrow> string" where
  "bit01 b = (if b then ''1'' else ''0'')"

definition heap_text :: "string res \<Rightarrow> sys \<Rightarrow> nat option \<Rightarrow> string res" where
  "heap_text null_text s p = (case p of None \<Rightarrow> null_text | Some _ \<Rightarrow> Sockets.deref p s)"

text \<open>The values stand in the order of the code, which is not that of the labels.\<close>

definition info_wldbg :: "string res \<Rightarrow> ('g, 'o) evloop \<Rightarrow> string res" where
  "info_wldbg null_text el =
     (let start = nl @ ''-- Wldbg -- '' @ nl @
          ''Monitored fds num: '' @ show_d (of_nat (length (el_monitored el))) @ nl @
          ''Resolving objects: '' @ bit01 (el_resolving el) @ nl @
          ''Gathering objinfo: '' @ bit01 (el_gathering el) @ nl @
          ''Flags:'' @ tab @ ''pass_whole_buffer : '' @ bit01 (el_pass_whole_buffer el) @ nl @
          tab @ ''running           : '' @ bit01 (el_running el) @ nl @
          tab @ ''error             : '' @ bit01 (el_error el) @ nl @
          tab @ ''exit              : '' @ bit01 (el_exit el) @ nl @
          tab @ ''server_mode       : '' @ bit01 (el_server_mode el) @ nl;
          sm = el_sm el; ptr = heap_text null_text (el_sys el);
          line = (\<lambda>label v. rbind v (\<lambda>s. Inr (tab @ label @ '': '' @ quoted s @ nl)))
      in if \<not> el_server_mode el then Inr start
         else
           rbind (rconcat
             [line ''old socket name'' (ptr (sm_old_socket_path sm)),
              line ''old socket path'' (ptr (sm_wldbg_socket_path sm)),
              line ''wldbg socket path'' (ptr (sm_old_socket_name sm)),
              line ''wldbg socket path'' (ptr (sm_wldbg_socket_name sm)),
              line ''lock address'' (ptr (sm_lock_addr sm)),
              line ''connect to'' (show_s null_text (sm_connect_to sm))]) (\<lambda>t.
             Inr (start @ ''Server mode:'' @ nl @ t @ ''Connections number: '' @ show_int (el_conns_num el) @ nl)))"

text \<open>What is shown of a connection.\<close>

record conn_details =
  cd_server_pid :: int
  cd_client_pid :: int
  cd_program :: "string option"
  cd_path :: "string option"
  cd_argc :: int
  cd_argv :: "string option list"

fun print_argv :: "string res \<Rightarrow> nat \<Rightarrow> nat \<Rightarrow> string option list \<Rightarrow> string res" where
  "print_argv null_text 0 i argv = Inr ''''"
| "print_argv null_text (Suc left) i argv =
     rbind (nth_res argv i) (\<lambda>p.
     rbind (show_s null_text p) (\<lambda>s.
     rbind (print_argv null_text left (i + 1) argv) (\<lambda>t.
       Inr (tab @ ''      :   argv['' @ show_nat i @ '']='' @ quoted s @ nl @ t))))"

definition print_connection :: "string res \<Rightarrow> nat \<Rightarrow> conn_details \<Rightarrow> string res" where
  "print_connection null_text n c =
     rbind (show_s null_text (cd_program c)) (\<lambda>program.
     rbind (show_s null_text (cd_path c)) (\<lambda>path.
     rbind (print_argv null_text (nat (cd_argc c)) 0 (cd_argv c)) (\<lambda>args.
       Inr (show_nat n @ ''.'' @ nl @ tab @ ''server: pid='' @ show_int (cd_server_pid c) @ nl @
            tab @ ''client: pid='' @ show_int (cd_client_pid c) @ nl @
            tab @ ''      : program='' @ quoted program @ nl @ tab @ ''      : path='' @ quoted path @ nl @
            tab @ ''      : argc='' @ quoted (show_int (cd_argc c)) @ nl @ args))))"

definition info_connections :: "string res \<Rightarrow> conn_details list \<Rightarrow> string res" where
  "info_connections null_text cs =
     rbind (rconcat (map (\<lambda>(i, c). print_connection null_text (i + 1) c) (enumerate 0 cs))) (\<lambda>t.
       Inr (nl @ ''-- Connections -- '' @ nl @ t))"

definition cmd_info_help :: string where
  "cmd_info_help =
     ''info WHAT (i WHAT)'' @ nl @ nl @ ''objects (o)'' @ nl @ ''objects (o) ID'' @ nl @ ''message (m)'' @ nl @
     ''breakpoints (b)'' @ nl @ ''filters (f)'' @ nl @ ''process (proc, p)'' @ nl @ ''connection (conn, c)'' @ nl"

text \<open>All that the command looks at.\<close>

record ('r, 'p, 'g, 'o) info_ctx =
  ic_null :: "string res"
  ic_print :: print_env
  ic_msg :: mctx
  ic_size :: nat
  ic_wldbgi :: "('r, 'p) wldbgi"
  ic_loop :: "('g, 'o) evloop"
  ic_conns :: "conn_details list"
  ic_infos :: "objects_info option"

definition print_objects_info :: "('r, 'p, 'g, 'o) info_ctx \<Rightarrow> string \<Rightarrow> string res" where
  "print_objects_info x buf =
     (let i = skip_ws buf in
      if i \<noteq> [] then
        print_object_info (ic_null x) (ic_print x) (mc_im (ic_msg x)) (el_gathering (ic_loop x)) (ic_infos x) i
      else Inr (print_objects (ic_msg x)))"

text \<open>The macro \<open>MATCH\<close>; its size counts the nul of the literal and one more.\<close>

definition MATCH :: "string \<Rightarrow> string \<Rightarrow> bool" where
  "MATCH buf s \<longleftrightarrow> strncmp_eq buf s (length s + 2)"

definition print_message_info :: "('r, 'p, 'g, 'o) info_ctx \<Rightarrow> string" where
  "print_message_info x =
     ''Sender: '' @ (case mc_from (ic_msg x) of SERVER \<Rightarrow> ''server'' | CLIENT \<Rightarrow> ''client'') @ '' (no. '' @
     show_nat (unat (case mc_from (ic_msg x) of SERVER \<Rightarrow> wi_server_msg_no (ic_wldbgi x) | CLIENT \<Rightarrow> wi_client_msg_no (ic_wldbgi x))) @
     ''), size: '' @ show_nat (ic_size x) @ nl"

definition cmd_info :: "('r, 'p, 'g, 'o) info_ctx \<Rightarrow> string \<Rightarrow> string res" where
  "cmd_info x buf =
     (if MATCH buf ''m'' \<or> MATCH buf ''message'' then Inr (print_message_info x)
      else if strncmp_eq buf ''objects'' 7 then print_objects_info x (drop 7 buf)
      else if strncmp_eq buf ''object'' 6 then print_objects_info x (drop 6 buf)
      else if strncmp_eq buf ''o'' 1 then print_objects_info x (drop 1 buf)
      else if MATCH buf ''b'' \<or> MATCH buf ''breakpoints'' then Inr (print_breakpoints (ic_wldbgi x))
      else if MATCH buf ''f'' \<or> MATCH buf ''filters'' then Inr (print_filters (ic_wldbgi x))
      else if MATCH buf ''ac'' \<or> MATCH buf ''autocmd'' \<or> MATCH buf ''autocommands'' then Inr (print_autocmds (ic_wldbgi x))
      else if MATCH buf ''p'' \<or> MATCH buf ''proc'' \<or> MATCH buf ''process'' then
        rbind (info_wldbg (ic_null x) (ic_loop x)) (\<lambda>s.
        rbind (info_connections (ic_null x) (ic_conns x)) (\<lambda>t. Inr (s @ t)))
      else if MATCH buf ''c'' \<or> MATCH buf ''conn'' \<or> MATCH buf ''connection'' then info_connections (ic_null x) (ic_conns x)
      else Inr (''Unknown arguments'' @ nl @ cmd_info_help))"

section \<open>Facts\<close>

lemma MATCH_iff: "MATCH buf s \<longleftrightarrow> buf = s"
proof
  assume "MATCH buf s"
  then have t: "take (length s + 2) buf = s" by (simp add: MATCH_def strncmp_eq_def)
  then have "length s = min (length buf) (length s + 2)" by (metis length_take)
  then have "length buf \<le> length s + 2" by (simp add: min_def split: if_splits)
  then show "buf = s" using t by simp
qed (simp add: MATCH_def strncmp_eq_def)

lemma print_configures_ring:
  assumes "length cs = 10" "unat i \<le> 10" "unat ord + left \<le> 10"
  shows "print_configures left i ord cs =
    Inr (concat (map (\<lambda>k. print_configure (unat ord + k + 1) (cs ! ((unat i + k) mod 10))) [0..<left]))"
  using assms(2,3)
proof (induction left arbitrary: i ord)
  case (Suc left)
  have im: "unat (i mod 10) = unat i mod 10" by (simp add: unat_mod)
  have next_i: "unat (i mod 10 + 1) = unat i mod 10 + 1"
  proof -
    have "unat i mod 10 + 1 < 256" by (rule le_less_trans [of _ 10]) (simp_all add: Suc_leI)
    then show ?thesis by (simp only: unat_word_ariths im) simp
  qed
  have next_ord: "unat (ord + 1) = unat ord + 1" using Suc.prems(2) by (simp add: unat_word_ariths)
  have pos: "(unat (i mod 10 + 1) + k) mod 10 = (unat i + Suc k) mod 10" for k
    unfolding next_i by (metis add.assoc mod_add_left_eq plus_1_eq_Suc add.commute)
  have "unat (i mod 10 + 1) \<le> 10" "unat (ord + 1) + left \<le> 10"
    unfolding next_i next_ord using Suc.prems(2) by (simp_all add: Suc_leI)
  from Suc.IH [OF this] have "print_configures left (i mod 10 + 1) (ord + 1) cs =
      Inr (concat (map (\<lambda>k. print_configure (unat ord + Suc k + 1) (cs ! ((unat i + Suc k) mod 10))) [0..<left]))"
    unfolding pos next_ord by simp
  moreover have "nth_res cs (unat (i mod 10)) = Inr (cs ! (unat i mod 10))" using assms(1) im by simp
  ultimately show ?case by (simp add: Let_def map_upt_Suc del: upt_Suc)
qed simp

section \<open>Properties\<close>

text \<open>For a surface that was configured at least ten times, info lists exactly its last ten configures,
  in the order they came, whatever their number.\<close>

theorem info_lists_last_configures:
  assumes "10 \<le> length cs" "length cs < 2 ^ 64"
  shows "print_configures 10 (ucast (xs_configures_num (add_configures cs zero_xdg) mod 10)) 0
      (xs_configures (add_configures cs zero_xdg)) =
    Inr (concat (map (\<lambda>k. print_configure (k + 1) (configure (cs ! (length cs - 10 + k)))) [0..<10]))"
proof -
  let ?x = "add_configures cs zero_xdg" and ?n = "length cs"
  have num: "unat (xs_configures_num ?x) = ?n"
    using add_configures_snoc(1) [OF assms(2)] assms(2) by (simp add: unat_of_nat)
  then have m: "unat (xs_configures_num ?x mod 10) = ?n mod 10" by (simp add: unat_mod)
  have i: "unat (ucast (xs_configures_num ?x mod 10) :: u8) = ?n mod 10"
  proof -
    have "?n mod 10 < 256" by (rule less_trans [of _ 10]) simp_all
    then show ?thesis by (simp add: unsigned_ucast_eq unsigned_take_bit_eq m take_bit_nat_eq_self)
  qed
  have kept: "length (xs_configures ?x) = 10"
    "\<And>j. j < ?n \<Longrightarrow> ?n \<le> j + 10 \<Longrightarrow> xs_configures ?x ! (j mod 10) = configure (cs ! j)"
    using add_configures_kept [OF assms(2)] by auto
  have at: "xs_configures ?x ! ((?n mod 10 + k) mod 10) = configure (cs ! (?n - 10 + k))" if "k < 10" for k
  proof -
    have "(?n mod 10 + k) mod 10 = (?n - 10 + k + 10) mod 10" using assms(1) by (simp add: mod_add_left_eq)
    also have "\<dots> = (?n - 10 + k) mod 10" by simp
    finally show ?thesis using kept(2) [of "?n - 10 + k"] assms(1) that by simp
  qed
  have "print_configures 10 (ucast (xs_configures_num ?x mod 10)) 0 (xs_configures ?x) =
      Inr (concat (map (\<lambda>k. print_configure (0 + k + 1) (xs_configures ?x ! ((?n mod 10 + k) mod 10))) [0..<10]))"
    using print_configures_ring [OF kept(1), of "ucast (xs_configures_num ?x mod 10)" 0 10] unfolding i
    by (simp add: less_imp_le del: upt_rec_numeral)
  also have "map (\<lambda>k. print_configure (0 + k + 1) (xs_configures ?x ! ((?n mod 10 + k) mod 10))) [0..<10] =
      map (\<lambda>k. print_configure (k + 1) (configure (cs ! (?n - 10 + k)))) [0..<10]"
    by (rule map_cong [OF refl]) (simp add: at del: upt_rec_numeral)
  finally show ?thesis .
qed

theorem info_lists_last_configures_witness:
  "\<exists>t. print_configures 10 (ucast (xs_configures_num (add_configures (replicate 1 (1, 1, 1) @ replicate 10 (640, 480, 7)) zero_xdg) mod 10)) 0
      (xs_configures (add_configures (replicate 1 (1, 1, 1) @ replicate 10 (640, 480, 7)) zero_xdg)) =
    Inr (print_configure 1 (configure (640, 480, 7)) @ t)"
  using info_lists_last_configures [of "replicate 1 (1, 1, 1) @ replicate 10 (640, 480, 7)"]
  by (simp add: upt_rec [of 0])

text \<open>Asking for the information about a shell surface whose surface has gone ends the debugger with a
  failed assertion.\<close>

theorem info_of_orphan_aborts:
  assumes "oi_info i = Xdg_info x" "oi_interface i = Some p" "intf_name (intf_at im p) = ''xdg_surface''"
    and "xs_title x \<noteq> None \<or> null_text = Inr t" "xs_app_id x \<noteq> None \<or> null_text = Inr t"
    and "length (xs_configures x) = 10" "objects_info_get ob (xs_wl_surface_id x) = None"
  shows "print_objinfo null_text e im ob i = Inl AssertFailed"
proof -
  have "unat (ucast (xs_configures_num x mod 10) :: u8) \<le> 10"
  proof -
    have m: "unat (xs_configures_num x mod 10) = unat (xs_configures_num x) mod 10" by (simp add: unat_mod)
    have "unat (xs_configures_num x) mod 10 < 256" by (rule less_trans [of _ 10]) simp_all
    then show ?thesis by (simp add: unsigned_ucast_eq unsigned_take_bit_eq m take_bit_nat_eq_self less_imp_le)
  qed
  from print_configures_ring [OF assms(6) this, of 0 10] obtain s where
    "print_configures 10 (ucast (xs_configures_num x mod 10)) 0 (xs_configures x) = Inr s" by simp
  moreover obtain a b where "show_s null_text (xs_title x) = Inr a" "show_s null_text (xs_app_id x) = Inr b"
    using assms(4,5) by (cases "xs_title x"; cases "xs_app_id x") (auto simp: show_s_def)
  ultimately have "print_xdg_surface_info null_text ob x = Inl AssertFailed"
    using assms(7) by (simp add: print_xdg_surface_info_def)
  then show ?thesis using assms(1-3) by (simp add: print_objinfo_def as_xdg_def)
qed

definition example_print_env :: print_env where
  "example_print_env = \<lparr>pe_server_mode = None, pe_program = None, pe_pid = 0, pe_key = (\<lambda>_. 0), pe_keyboard = 2,
     pe_pointer = 1, pe_touch = 4, pe_actions = None\<rparr>"

theorem info_of_orphan_aborts_witness:
  "print_objinfo (Inr ''(null)'') example_print_env (\<lambda>_. unknown_interface\<lparr>intf_name := ''xdg_surface''\<rparr>) create_objects_info
     \<lparr>oi_interface = Some (Iface 0), oi_id = 5, oi_version = None, oi_info = Xdg_info zero_xdg\<rparr> = Inl AssertFailed"
  by (rule info_of_orphan_aborts [where x = zero_xdg and p = "Iface 0" and t = "''(null)''"])
     (simp_all add: zero_xdg_def create_objects_info_def objects_info_get_def wldbg_ids_map_get_def wldbg_ids_map_init_def WL_SERVER_ID_START_def)

end
