(* ===== verification/List_Pass.thy ===== *)
theory List_Pass
  imports Resolve_Pass
begin

text \<open>
  The pass that lists passes: \<^verbatim>\<open>src/list-pass.c\<close>.  Directories are a parameter: their
  entries in the order \<open>readdir\<close> returns them, each with its name and whether it is a directory.
  The build's \<open>LT_OBJDIR\<close> and \<open>LIBDIR\<close> are parameters too.
\<close>

type_synonym dirs = "string \<Rightarrow> (string \<times> bool) list option"

text \<open>What follows the last dot, \<open>None\<close> without one.\<close>

fun behind_last_dot :: "string \<Rightarrow> string option" where
  "behind_last_dot [] = None"
| "behind_last_dot (c # s) =
     (case behind_last_dot s of
        Some r \<Rightarrow> Some r
      | None \<Rightarrow> if c = CHR ''.'' then Some s else None)"

fun list_entries :: "string \<Rightarrow> (string \<times> bool) list \<Rightarrow> string" where
  "list_entries path [] = ''''"
| "list_entries path ((name, is_dir) # es) =
     (if is_dir then list_entries path es
      else
        case behind_last_dot name of
          None \<Rightarrow> list_entries path es
        | Some ext \<Rightarrow>
            (if ext = ''so'' then ''    '' @ name @ '' ('' @ path @ '')'' @ [CHR 0x0A] else '''') @ list_entries path es)"

definition list_dir :: "dirs \<Rightarrow> string \<Rightarrow> string" where
  "list_dir dirs path = (case dirs path of None \<Rightarrow> '''' | Some es \<Rightarrow> list_entries path es)"

definition list_passes :: "dirs \<Rightarrow> string \<Rightarrow> string \<Rightarrow> string option \<Rightarrow> string" where
  "list_passes dirs lt_objdir libdir home =
     ''    list (hardcoded)'' @ [CHR 0x0A] @ ''    resolve (hardcoded)'' @ [CHR 0x0A] @
     list_dir dirs ''.'' @
     list_dir dirs (fst (snprintf 256 (''passes/'' @ lt_objdir))) @
     (case home of None \<Rightarrow> '''' | Some h \<Rightarrow> list_dir dirs (fst (snprintf 256 (h @ ''/.wldbg'')))) @
     list_dir dirs (fst (snprintf 256 (libdir @ ''/wldbg''))) @
     list_dir dirs ''/usr/local/lib/wldbg'' @
     list_dir dirs ''/usr/lib/wldbg'' @
     list_dir dirs ''/lib/wldbg''"

text \<open>The pass never returns: the text it prints and its exit status.\<close>

definition list_init :: "dirs \<Rightarrow> string \<Rightarrow> string \<Rightarrow> string option \<Rightarrow> int \<Rightarrow> string \<times> int" where
  "list_init dirs lt_objdir libdir home argc =
     (if argc = 1 then (list_passes dirs lt_objdir libdir home, 0)
      else (''Usage: wldbg list'' @ [CHR 0x0A, CHR 0x0A] @ ''List all available passes'' @ [CHR 0x0A], - 1))"

text \<open>The other callbacks; they are never reached.\<close>

definition list_in :: pass_verdict where
  "list_in = PASS_STOP"

definition list_out :: pass_verdict where
  "list_out = PASS_STOP"

definition list_destroy :: "'s \<Rightarrow> 's" where
  "list_destroy s = s"

section \<open>Facts\<close>

lemma behind_last_dot_Some: "behind_last_dot s = Some e \<longleftrightarrow> (\<exists>b. s = b @ CHR ''.'' # e) \<and> CHR ''.'' \<notin> set e"
proof (induction s arbitrary: e)
  case (Cons c s)
  have none: "behind_last_dot s = None \<longleftrightarrow> CHR ''.'' \<notin> set s"
    using Cons.IH by (metis option.exhaust in_set_conv_decomp split_list_last option.distinct(1))
  show ?case
  proof (cases "behind_last_dot s")
    case None
    then have "CHR ''.'' \<notin> set s" using none by simp
    then show ?thesis using None by (auto simp: Cons_eq_append_conv)
  next
    case (Some r)
    then have r: "(\<exists>b. s = b @ CHR ''.'' # r)" "CHR ''.'' \<notin> set r" using Cons.IH by auto
    show ?thesis
    proof
      assume "behind_last_dot (c # s) = Some e"
      then show "(\<exists>b. c # s = b @ CHR ''.'' # e) \<and> CHR ''.'' \<notin> set e"
        using Some r by (auto intro: exI [of _ "c # b" for b])
    next
      assume e: "(\<exists>b. c # s = b @ CHR ''.'' # e) \<and> CHR ''.'' \<notin> set e"
      then obtain b where b: "c # s = b @ CHR ''.'' # e" by blast
      have "b \<noteq> []" using b e Some none by (cases b) auto
      then have "\<exists>b. s = b @ CHR ''.'' # e" using b by (cases b) auto
      then show "behind_last_dot (c # s) = Some e" using Cons.IH [of e] e by auto
    qed
  qed
qed simp

text \<open>The listed entries are those that are not directories and whose names end in \<^verbatim>\<open>.so\<close>, in order.\<close>

lemma list_entries_so:
  "list_entries path es =
     concat (map (\<lambda>(name, _). ''    '' @ name @ '' ('' @ path @ '')'' @ [CHR 0x0A])
       (filter (\<lambda>(name, is_dir). \<not> is_dir \<and> (\<exists>b. name = b @ ''.so'')) es))"
proof (induction path es rule: list_entries.induct)
  case (2 path name is_dir es)
  have "behind_last_dot name = Some ''so'' \<longleftrightarrow> (\<exists>b. name = b @ ''.so'')" by (simp add: behind_last_dot_Some)
  then show ?case using 2 by (cases "behind_last_dot name") auto
qed simp

end
