(* ===== verification/Help.thy ===== *)
theory Help
  imports Info List_Pass
begin

text \<open>
  The help of the interactive mode: the function \<open>cmd_help\<close> of
  \<^verbatim>\<open>src/interactive/interactive-commands.c\<close> and the texts \<open>cmd_*_help\<close> of the commands, with
  what \<^verbatim>\<open>pass list\<close> and \<^verbatim>\<open>pass loaded\<close> of \<^verbatim>\<open>src/interactive/pass.c\<close> print.
\<close>

section \<open>The texts\<close>

definition cmd_quit_help :: "bool \<Rightarrow> string" where
  "cmd_quit_help oneline = (if oneline then ''Quit wldbg'' else '''')"

definition cmd_next_help :: "bool \<Rightarrow> string" where
  "cmd_next_help oneline = (if oneline then ''Wait for next message and stop on it'' else '''')"

definition cmd_continue_help :: "bool \<Rightarrow> string" where
  "cmd_continue_help oneline = (if oneline then ''Continue running program'' else '''')"

definition cmd_help_help :: "bool \<Rightarrow> string" where
  "cmd_help_help oneline =
     (if oneline then ''Show this help message''
      else ''Print help message. Given argument '' @ quoted ''all'' @
           '', print comprehensive help about all commands.'' @ nl)"

definition cmd_autocmd_help :: "bool \<Rightarrow> string" where
  "cmd_autocmd_help oneline =
     (if oneline then ''Add, remove commands that are run automatically''
      else ''Possible arguments:'' @ nl @ tab @ ''add'' @ tab @ tab @ ''- add new autocmd'' @ nl @
           tab @ ''  syntax: add FILTER COMMAND'' @ nl @
           tab @ ''    where REGEXP is an regular expression that is matched against a message'' @ nl @
           tab @ ''remove ID'' @ tab @ ''- remove autocmd identified by ID'' @ nl)"

definition cmd_break_help :: "bool \<Rightarrow> string" where
  "cmd_break_help oneline =
     (if oneline then ''Set or delete breakpoints''
      else ''Set or delete breakpoints'' @ nl @ nl @
           tab @ ''break id ID                - break on id ID'' @ nl @
           tab @ ''break side server|client   - break on message from server/client'' @ nl @
           tab @ ''break re REGEXP            - break on given REGEXP'' @ nl @
           tab @ ''break interface@message    - break on known interface@message'' @ nl @
           tab @ ''break delete ID            - delete breakpoint id'' @ nl @
           tab @ ''break d ID                 - delete breakpoint id'' @ nl @ nl @
           ''Example: b re wl_surface.*'' @ nl)"

definition cmd_edit_help :: "bool \<Rightarrow> string" where
  "cmd_edit_help oneline =
     ''Edit message'' @
     (if oneline then ''''
      else '' :: edit [editor]'' @ nl @ nl @ ''Edit message wldbg stopped on. If no editor is given,'' @ nl @
           ''wldbg looks for one in EDITOR env. variable.'' @ nl)"

definition cmd_filter_help :: "bool \<Rightarrow> string" where
  "cmd_filter_help oneline =
     ''Mange filters created by showonly and hide commands'' @
     (if oneline then '''' else nl @ nl @ '' :: filter delete|remove|d|r ID'' @ nl)"

definition cmd_hide_help :: "bool \<Rightarrow> string" where
  "cmd_hide_help oneline =
     (if oneline then ''Hide particular messages''
      else ''Hide messages matching given extended regular expression'' @ nl @ nl @ ''hide REGEXP'' @ nl)"

definition cmd_showonly_help :: "bool \<Rightarrow> string" where
  "cmd_showonly_help oneline =
     (if oneline then ''Show only particular messages''
      else ''Show only messages matching given extended regular expression.'' @ nl @
           ''Filters are accumulated, so the message is shown if'' @ nl @
           ''it matches any of showonly commands'' @ nl @ nl @ ''showonly REGEXP'' @ nl)"

definition cmd_pass_help :: "bool \<Rightarrow> string" where
  "cmd_pass_help oneline =
     (if oneline then ''Add, remove, list passes''
      else ''Possible arguments:'' @ nl @ tab @ ''list'' @ tab @ tab @ ''- list available passes'' @ nl @
           tab @ ''loaded'' @ tab @ tab @ ''- list loaded passes'' @ nl @
           tab @ ''add NAME'' @ tab @ ''- add pass NAME.so'' @ nl @
           tab @ ''remove NAME'' @ tab @ ''- remove pass NAME'' @ nl)"

definition cmd_send_help :: "bool \<Rightarrow> string" where
  "cmd_send_help oneline =
     ''Send message to server/client'' @
     (if oneline then ''''
      else nl @ nl @ '' :: send server|s|client|c [message]'' @ nl @ nl @
           ''Send command will prompt you for object id (where to send the message)'' @ nl @
           ''and opcode (what is the message) and then for the data of the message.'' @ nl @
           ''Id and opcode are scanned as unsigned decimal numbers and the data'' @ nl @
           ''as a sequence of hexadecimal numbers. If the message is passed as an argument,'' @ nl @
           ''it must contain the header (object id + opcode + size) and whole message'' @ nl @
           ''is scanned as a sequence of hexadecimal nubers (i. e. this sequence of words'' @ nl @
           ''will be send as it is given)'' @ nl)"

text \<open>The member \<open>help\<close> of the entries of \<open>commands\<close>; none is null.\<close>

fun command_help :: "cmd \<Rightarrow> bool \<Rightarrow> string" where
  "command_help Cmd_autocmd oneline = cmd_autocmd_help oneline"
| "command_help Cmd_break oneline = cmd_break_help oneline"
| "command_help Cmd_continue oneline = cmd_continue_help oneline"
| "command_help Cmd_edit oneline = cmd_edit_help oneline"
| "command_help Cmd_filter oneline = cmd_filter_help oneline"
| "command_help Cmd_help oneline = cmd_help_help oneline"
| "command_help Cmd_hide oneline = cmd_hide_help oneline"
| "command_help Cmd_info oneline = (if oneline then ''Show info about entities'' else cmd_info_help)"
| "command_help Cmd_next oneline = cmd_next_help oneline"
| "command_help Cmd_pass oneline = cmd_pass_help oneline"
| "command_help Cmd_send oneline = cmd_send_help oneline"
| "command_help Cmd_showonly oneline = cmd_showonly_help oneline"
| "command_help Cmd_quit oneline = cmd_quit_help oneline"

section \<open>The command\<close>

definition help_entry :: "bool \<Rightarrow> string \<times> string option \<times> cmd \<Rightarrow> string" where
  "help_entry all = (\<lambda>(name, shortcut, c).
     (if all then '' == '' else tab) @ pad_right 12 name @ '' ('' @ (case shortcut of None \<Rightarrow> ''-'' | Some s \<Rightarrow> s) @ '')'' @
     (if all then '' =='' @ nl @ nl @ command_help c False else tab @ '' -- '' @ command_help c True) @
     (if all then nl else '''') @ nl)"

definition cmd_help :: "string \<Rightarrow> string" where
  "cmd_help buf =
     (let all = (buf = ''all''); buf = skip_ws buf in
      if \<not> all \<and> buf \<noteq> [] then
        (case filter (is_the_cmd buf) commands of
           [] \<Rightarrow> ''No such command'' @ nl
         | cs \<Rightarrow> concat (map (\<lambda>(_, _, c). command_help c False) cs))
      else
        nl @
        (if all then ''''
         else ''Try '' @ quoted ''help all'' @ '' or '' @ quoted ''help command_name'' @ '' for verbose output'' @ nl @ nl) @
        concat (map (help_entry all) commands))"

definition loaded_passes :: "(string \<times> 'p) list \<Rightarrow> string" where
  "loaded_passes ps = ''Loaded passes:'' @ nl @ concat (map (\<lambda>(n, _). tab @ '' - '' @ n @ nl) ps)"

text \<open>\<open>available\<close> is the text of \<open>list_passes\<close>; the messages of \<open>add\<close> and \<open>remove\<close> go to the standard
  error.\<close>

definition cmd_pass_text :: "string \<Rightarrow> string \<Rightarrow> (string \<times> 'p) list \<Rightarrow> string" where
  "cmd_pass_text available buf ps =
     (if buf = ''list'' then available
      else if buf = ''loaded'' then loaded_passes ps
      else if strncmp_eq buf ''add '' 4 \<or> strncmp_eq buf ''remove '' 7 then ''''
      else cmd_pass_help False)"

section \<open>Facts\<close>

lemma filter_unique:
  assumes "\<And>x y. x \<in> set xs \<Longrightarrow> y \<in> set xs \<Longrightarrow> P x \<Longrightarrow> P y \<Longrightarrow> x = y" "distinct xs"
  shows "filter P xs = (case find P xs of None \<Rightarrow> [] | Some x \<Rightarrow> [x])"
  using assms
proof (induction xs)
  case (Cons a xs)
  show ?case
  proof (cases "P a")
    case True
    then have "\<forall>x \<in> set xs. \<not> P x" using Cons.prems by auto
    then show ?thesis using True by (simp add: filter_empty_conv)
  next
    case False
    have "filter P xs = (case find P xs of None \<Rightarrow> [] | Some x \<Rightarrow> [x])"
      using Cons.IH Cons.prems by (meson distinct.simps(2) list.set_intros(2))
    then show ?thesis using False by simp
  qed
qed simp

text \<open>Help for a word is the long help of the command that this word runs.\<close>

lemma help_of_word:
  assumes "\<forall>x \<in> set v. is_alpha x" "v \<noteq> []" "rest = [] \<or> is_space (hd rest)" "v @ rest \<noteq> ''all''"
  shows "cmd_help (v @ rest) =
    (case find_command (v @ rest) of None \<Rightarrow> ''No such command'' @ nl | Some c \<Rightarrow> command_help c False)"
proof -
  obtain x v' where v: "v = x # v'" "\<not> is_space x" using assms(1,2) space_not_alpha by (cases v) auto
  then have sk: "skip_ws (v @ rest) = v @ rest" by (simp add: skip_ws_def)
  have "filter (is_the_cmd (v @ rest)) commands =
      (case find (is_the_cmd (v @ rest)) commands of None \<Rightarrow> [] | Some p \<Rightarrow> [p])"
  proof (rule filter_unique)
    show "distinct commands" by (simp add: commands_def)
    fix p q
    assume pq: "p \<in> set commands" "q \<in> set commands" "is_the_cmd (v @ rest) p" "is_the_cmd (v @ rest) q"
    then have "entry_has v p" "entry_has v q"
      using is_the_cmd_iff [OF assms(1,3)] by (auto simp: entry_has_def split: prod.splits)
    then show "p = q" using entries_disjoint pq(1,2) by blast
  qed
  then show ?thesis using assms(2,4) v(1)
    unfolding cmd_help_def sk Let_def find_command_def
    by (cases "find (is_the_cmd (v @ rest)) commands") auto
qed

end
