(* ===== verification/Test_Runner.thy ===== *)
theory Test_Runner
  imports Util_Opts
begin

text \<open>
  The program that runs the unit tests, \<^verbatim>\<open>wayland/test-runner.c\<close> and \<^verbatim>\<open>wayland/test-helpers.c\<close>: the
  allocation functions that count, the leak checks around a test, and the loop that forks a child
  for every test.

  The process under test is its counter, its live heap blocks and its open descriptors.  What libc's
  allocator answers is the parameter \<open>sys_alloc\<close>; \<open>sys_ok\<close> is what the manual pages say of it.  A
  test is a function on the process that returns, or ends the process.
\<close>

section \<open>Counting allocations\<close>

record tproc =
  num_alloc :: int
  sys_calloc_loaded :: bool
  live_blocks :: "nat set"
  open_fds :: "nat set"

record sys_alloc =
  sys_malloc :: "nat set \<Rightarrow> u64 \<Rightarrow> nat option"
  sys_realloc :: "nat set \<Rightarrow> nat \<Rightarrow> u64 \<Rightarrow> nat option"
  sys_calloc :: "nat set \<Rightarrow> u64 \<Rightarrow> u64 \<Rightarrow> nat option"

text \<open>A block handed out is not one that is in use; a resized one may stay where it was.\<close>

definition sys_ok :: "sys_alloc \<Rightarrow> bool" where
  "sys_ok y \<longleftrightarrow>
     (\<forall>L n p. finite L \<longrightarrow> sys_malloc y L n = Some p \<longrightarrow> p \<notin> L) \<and>
     (\<forall>L n k p. finite L \<longrightarrow> sys_calloc y L n k = Some p \<longrightarrow> p \<notin> L) \<and>
     (\<forall>L p n q. finite L \<longrightarrow> sys_realloc y L p n = Some q \<longrightarrow> q \<notin> L - {p})"

definition runner_malloc :: "sys_alloc \<Rightarrow> u64 \<Rightarrow> tproc \<Rightarrow> nat option \<times> tproc" where
  "runner_malloc y sz s =
     (let s = s\<lparr>num_alloc := num_alloc s + 1\<rparr> in
      case sys_malloc y (live_blocks s) sz of
        None \<Rightarrow> (None, s)
      | Some p \<Rightarrow> (Some p, s\<lparr>live_blocks := insert p (live_blocks s)\<rparr>))"

definition runner_free :: "nat option \<Rightarrow> tproc \<Rightarrow> tproc res" where
  "runner_free mem s =
     (let s = (if mem \<noteq> None then s\<lparr>num_alloc := num_alloc s - 1\<rparr> else s) in
      case mem of
        None \<Rightarrow> Inr s
      | Some p \<Rightarrow>
          if p \<in> live_blocks s then Inr (s\<lparr>live_blocks := live_blocks s - {p}\<rparr>)
          else Inl UseAfterFree)"

text \<open>\<open>realloc (NULL, n)\<close> is \<open>malloc (n)\<close>; \<open>realloc (p, 0)\<close> releases \<open>p\<close> and returns \<open>NULL\<close>, as glibc's
  does; when it fails otherwise, \<open>p\<close> stays.\<close>

definition runner_realloc :: "sys_alloc \<Rightarrow> nat option \<Rightarrow> u64 \<Rightarrow> tproc \<Rightarrow> (nat option \<times> tproc) res" where
  "runner_realloc y mem sz s =
     (let s = (if mem = None then s\<lparr>num_alloc := num_alloc s + 1\<rparr> else s) in
      case mem of
        None \<Rightarrow>
          (case sys_malloc y (live_blocks s) sz of
             None \<Rightarrow> Inr (None, s)
           | Some p \<Rightarrow> Inr (Some p, s\<lparr>live_blocks := insert p (live_blocks s)\<rparr>))
      | Some p \<Rightarrow>
          if p \<notin> live_blocks s then Inl UseAfterFree
          else if sz = 0 then Inr (None, s\<lparr>live_blocks := live_blocks s - {p}\<rparr>)
          else
            (case sys_realloc y (live_blocks s) p sz of
               None \<Rightarrow> Inr (None, s)
             | Some q \<Rightarrow> Inr (Some q, s\<lparr>live_blocks := insert q (live_blocks s - {p})\<rparr>)))"

definition runner_calloc :: "sys_alloc \<Rightarrow> u64 \<Rightarrow> u64 \<Rightarrow> tproc \<Rightarrow> nat option \<times> tproc" where
  "runner_calloc y nmemb sz s =
     (if \<not> sys_calloc_loaded s then (None, s)
      else
        let s = s\<lparr>num_alloc := num_alloc s + 1\<rparr> in
        case sys_calloc y (live_blocks s) nmemb sz of
          None \<Rightarrow> (None, s)
        | Some p \<Rightarrow> (Some p, s\<lparr>live_blocks := insert p (live_blocks s)\<rparr>))"

section \<open>Open descriptors\<close>

text \<open>\<open>/proc/self/fd\<close> as \<open>readdir\<close> returns it: the two dot entries and one per open descriptor, the
  one of the directory itself included.\<close>

definition proc_self_fd :: "nat \<Rightarrow> nat set \<Rightarrow> string list" where
  "proc_self_fd dirfd fds =
     [''.'', ''..''] @ map show_nat (sorted_list_of_set (insert dirfd fds))"

definition dot_entry :: "string \<Rightarrow> bool" where
  "dot_entry s \<longleftrightarrow> chr_at s = CHR ''.'' \<and>
     (chr_at (drop 1 s) = nul \<or> (chr_at (drop 1 s) = CHR ''.'' \<and> chr_at (drop 2 s) = nul))"

fun readdir_loop :: "string list \<Rightarrow> int \<Rightarrow> int" where
  "readdir_loop [] count = count"
| "readdir_loop (s # ents) count =
     (if dot_entry s then readdir_loop ents count else readdir_loop ents (count + 1))"

text \<open>\<open>dir\<close> is the descriptor of the opened directory, \<open>err\<close> is \<open>errno\<close> at the end of the loop.\<close>

definition count_open_fds :: "nat option \<Rightarrow> int \<Rightarrow> nat set \<Rightarrow> int res" where
  "count_open_fds dir err fds =
     (case dir of
        None \<Rightarrow> Inl AssertFailed
      | Some d \<Rightarrow>
          let count = readdir_loop (proc_self_fd d fds) 0 in
          rbind (rassert (err = 0)) (\<lambda>_. Inr count))"

text \<open>\<open>execl\<close> returns only when it fails.  The check that is executed is another program.\<close>

definition exec_fd_leak_check :: "bool \<Rightarrow> int \<Rightarrow> (string \<times> string list) res" where
  "exec_fd_leak_check exec_ok nr_expected_fds =
     (let exe = ''./exec-fd-leak-checker''; number = fst (snprintf 15 (show_int nr_expected_fds)) in
      if exec_ok then Inr (exe, [exe, number]) else Inl AssertFailed)"

section \<open>Running one test\<close>

datatype ending = Exited int | Killed int

definition SIGABRT :: int where
  "SIGABRT = 6"

record test =
  test_name :: string
  test_run :: "tproc \<Rightarrow> ending option \<times> tproc"
  must_fail :: bool

text \<open>\<open>opendir\<close> answers with the smallest descriptor that is free.\<close>

definition first_free :: "nat set \<Rightarrow> nat" where
  "first_free fds = hd (filter (\<lambda>d. d \<notin> fds) [0..<Suc (card fds)])"

definition fds_now :: "tproc \<Rightarrow> int res" where
  "fds_now s = count_open_fds (Some (first_free (open_fds s))) 0 (open_fds s)"

definition run_test :: "bool \<Rightarrow> test \<Rightarrow> tproc \<Rightarrow> ending" where
  "run_test leak_check_enabled t s =
     (let cur_alloc = num_alloc s in
      case fds_now s of
        Inl _ \<Rightarrow> Killed SIGABRT
      | Inr cur_fds \<Rightarrow>
          (case test_run t s of
             (Some e, _) \<Rightarrow> e
           | (None, s') \<Rightarrow>
               if leak_check_enabled then
                 if cur_alloc \<noteq> num_alloc s' then Killed SIGABRT
                 else
                   (case fds_now s' of
                      Inl _ \<Rightarrow> Killed SIGABRT
                    | Inr num_fds \<Rightarrow> if cur_fds \<noteq> num_fds then Killed SIGABRT else Exited 0)
               else Exited 0))"

section \<open>The main program\<close>

definition find_test :: "test list \<Rightarrow> string \<Rightarrow> test option" where
  "find_test ts name = List.find (\<lambda>t. test_name t = name) ts"

abbreviation newline :: string where
  "newline \<equiv> [CHR 0x0A]"

definition usage :: "test list \<Rightarrow> string \<Rightarrow> string" where
  "usage ts name =
     ''Usage: '' @ name @ '' [TEST]'' @ newline @ newline @
     ''With no arguments, run all test.  Specify test case to run'' @ newline @
     ''only that test without forking.  Available tests:'' @ newline @ newline @
     concat (map (\<lambda>t. ''  '' @ test_name t @ newline) ts) @ newline"

text \<open>The argument of \<open>alarm\<close>, if it is called, and what is printed.\<close>

definition test_set_timeout :: "int \<Rightarrow> int \<Rightarrow> u32 option \<times> string" where
  "test_set_timeout tmo sec =
     (if tmo = 0 then
        (None, ''Timeout is disabled. Setting new timeout to '' @ show_int sec @ '' suppressed'' @ newline)
      else (Some (word_of_int sec), ''Timeout set to '' @ show_int sec @ '' sec from now.'' @ newline))"

text \<open>What \<open>waitid\<close> reports: the kernel keeps eight bits of an exit status.\<close>

definition child_success :: "ending \<Rightarrow> bool" where
  "child_success e = (case e of Exited c \<Rightarrow> c mod 256 = 0 | Killed _ \<Rightarrow> False)"

definition child_report :: "ending \<Rightarrow> string" where
  "child_report e =
     (case e of
        Exited c \<Rightarrow> ''exit status '' @ show_int (c mod 256)
      | Killed sig \<Rightarrow> ''signal '' @ show_int sig)"

text \<open>The loop over the tests: how many pass, and the log.  \<open>fork_ok i\<close> and \<open>wait_ok i\<close> are the
  kernel's answers in round \<open>i\<close>.\<close>

fun test_loop ::
    "bool \<Rightarrow> (nat \<Rightarrow> bool) \<Rightarrow> (nat \<Rightarrow> bool) \<Rightarrow> tproc \<Rightarrow> test list \<Rightarrow> nat \<Rightarrow> int \<Rightarrow> string \<Rightarrow> (int \<times> string) res" where
  "test_loop lc fork_ok wait_ok s [] i pass log = Inr (pass, log)"
| "test_loop lc fork_ok wait_ok s (t # ts) i pass log =
     rbind (rassert (fork_ok i)) (\<lambda>_.
       let e = run_test lc t s in
       if \<not> wait_ok i then Inl Aborted
       else
         let log = log @ ''test '' @ [CHR 0x22] @ test_name t @ [CHR 0x22] @ '':'' @ [CHR 0x09] @ child_report e;
             success = child_success e;
             success = (if must_fail t then \<not> success else success) in
         if success
         then test_loop lc fork_ok wait_ok s ts (Suc i) (pass + 1) (log @ '', pass.'' @ newline)
         else test_loop lc fork_ok wait_ok s ts (Suc i) pass (log @ '', fail.'' @ newline))"

text \<open>\<open>no_leak\<close> and \<open>to_env\<close> are \<open>NO_ASSERT_LEAK_CHECK\<close> and \<open>WAYLAND_TEST_TIMEOUT\<close>.  The result is
  how the process ends, and what it printed.\<close>

definition initial_timeout :: "string option \<Rightarrow> int" where
  "initial_timeout to_env = (case to_env of None \<Rightarrow> 10 | Some v \<Rightarrow> atoi v)"

definition runner_main ::
    "string option \<Rightarrow> (nat \<Rightarrow> bool) \<Rightarrow> (nat \<Rightarrow> bool) \<Rightarrow> tproc \<Rightarrow> test list \<Rightarrow> string list \<Rightarrow> ending \<times> string" where
  "runner_main no_leak fork_ok wait_ok s ts argv =
     (let s = s\<lparr>sys_calloc_loaded := True\<rparr>; leak_check_enabled = (no_leak = None) in
      if length argv = 2 \<and> argv ! 1 = ''--help'' then (Exited 0, usage ts (argv ! 0))
      else if length argv = 2 then
        (case find_test ts (argv ! 1) of
           None \<Rightarrow>
             (Exited 1, ''unknown test: '' @ [CHR 0x22] @ argv ! 1 @ [CHR 0x22] @ newline @ usage ts (argv ! 0))
         | Some t \<Rightarrow> (run_test leak_check_enabled t s, []))
      else
        (case test_loop leak_check_enabled fork_ok wait_ok s ts 0 0 [] of
           Inl _ \<Rightarrow> (Killed SIGABRT, [])
         | Inr (pass, log) \<Rightarrow>
             let total = int (length ts) in
             (Exited (if pass = total then 0 else 1),
              log @ show_int total @ '' tests, '' @ show_int pass @ '' pass, '' @ show_int (total - pass) @
                '' fail'' @ newline)))"

section \<open>The counter is a balance\<close>

datatype alloc_call =
  Malloc u64
| Free "nat option"
| Realloc "nat option" u64
| Calloc u64 u64

fun do_call :: "sys_alloc \<Rightarrow> alloc_call \<Rightarrow> tproc \<Rightarrow> (nat option \<times> tproc) res" where
  "do_call y (Malloc n) s = Inr (runner_malloc y n s)"
| "do_call y (Free p) s = rbind (runner_free p s) (\<lambda>s'. Inr (None, s'))"
| "do_call y (Realloc p n) s = runner_realloc y p n s"
| "do_call y (Calloc n k) s = Inr (runner_calloc y n k s)"

text \<open>The calls that the counter gets wrong: a request that is refused counts as a block, and so does
  a block that \<open>realloc (p, 0)\<close> has released.\<close>

fun miscounted :: "alloc_call \<Rightarrow> nat option \<Rightarrow> int" where
  "miscounted (Malloc n) r = (if r = None then 1 else 0)"
| "miscounted (Free p) r = 0"
| "miscounted (Realloc None n) r = (if r = None then 1 else 0)"
| "miscounted (Realloc (Some p) n) r = (if n = 0 then 1 else 0)"
| "miscounted (Calloc n k) r = (if r = None then 1 else 0)"

fun do_calls :: "sys_alloc \<Rightarrow> alloc_call list \<Rightarrow> tproc \<Rightarrow> (int \<times> tproc) res" where
  "do_calls y [] s = Inr (0, s)"
| "do_calls y (c # cs) s =
     rbind (do_call y c s) (\<lambda>(r, s').
     rbind (do_calls y cs s') (\<lambda>(w, s''). Inr (miscounted c r + w, s'')))"

definition balance :: "tproc \<Rightarrow> int" where
  "balance s = num_alloc s - int (card (live_blocks s))"

lemma do_call_balance:
  assumes "sys_ok y" "finite (live_blocks s)" "sys_calloc_loaded s" "do_call y c s = Inr (r, s')"
  shows "balance s' = balance s + miscounted c r \<and> finite (live_blocks s') \<and> sys_calloc_loaded s' \<and>
    open_fds s' = open_fds s"
proof (cases c)
  case (Malloc n)
  then show ?thesis using assms
    by (auto simp: runner_malloc_def balance_def sys_ok_def Let_def split: option.splits)
next
  case (Free p)
  have "0 < card (live_blocks s)" if "q \<in> live_blocks s" for q
    using that assms(2) by (auto simp: card_gt_0_iff)
  then show ?thesis using assms Free
    by (cases p) (auto simp: runner_free_def balance_def card_gt_0_iff of_nat_diff Let_def Suc_le_eq split: if_splits)
next
  case (Realloc p n)
  show ?thesis
  proof (cases p)
    case None
    then show ?thesis using assms Realloc
      by (auto simp: runner_realloc_def balance_def sys_ok_def Let_def split: option.splits)
  next
    case (Some q)
    have pos: "q \<in> live_blocks s \<Longrightarrow> 0 < card (live_blocks s)" using assms(2) by (auto simp: card_gt_0_iff)
    then show ?thesis using assms Realloc Some
      by (auto simp: runner_realloc_def balance_def sys_ok_def of_nat_diff card_insert_if Let_def Suc_le_eq split: option.splits if_splits)
  qed
next
  case (Calloc n k)
  then show ?thesis using assms
    by (auto simp: runner_calloc_def balance_def sys_ok_def Let_def split: option.splits)
qed

lemma do_calls_balance:
  assumes "sys_ok y" "finite (live_blocks s)" "sys_calloc_loaded s" "do_calls y cs s = Inr (w, s')"
  shows "balance s' = balance s + w \<and> finite (live_blocks s') \<and> sys_calloc_loaded s' \<and>
    open_fds s' = open_fds s"
  using assms(2-)
proof (induction cs arbitrary: s w)
  case (Cons c cs)
  then obtain r s1 w1 where 1: "do_call y c s = Inr (r, s1)" "do_calls y cs s1 = Inr (w1, s')"
    "w = miscounted c r + w1"
    by (auto simp: rbind_eq_Inr)
  from do_call_balance [OF assms(1) Cons.prems(1,2) 1(1)] Cons.IH [OF _ _ 1(2)] 1(3)
  show ?case by auto
qed simp

section \<open>What passes\<close>

lemma dot_entry_number: "\<not> dot_entry (show_nat n)"
proof -
  obtain c cs where c: "show_nat n = c # cs" "is_digit c"
    using show_nat_digits [of n] by (cases "show_nat n") auto
  then show ?thesis by (auto simp: dot_entry_def is_digit_def)
qed

lemma readdir_loop_numbers: "readdir_loop (map show_nat ns) count = count + int (length ns)"
  by (induction ns arbitrary: count) (simp_all add: dot_entry_number)

lemma count_open_fds_card:
  assumes "finite fds" "d \<notin> fds"
  shows "count_open_fds (Some d) 0 fds = Inr (int (card fds) + 1)"
  using assms by (simp add: count_open_fds_def proc_self_fd_def readdir_loop_numbers dot_entry_def nul_def)

lemma first_free: "finite fds \<Longrightarrow> first_free fds \<notin> fds"
proof -
  assume f: "finite fds"
  have "\<not> {0..<Suc (card fds)} \<subseteq> fds"
  proof
    assume "{0..<Suc (card fds)} \<subseteq> fds"
    from card_mono [OF f this] show False by simp
  qed
  then have "filter (\<lambda>d. d \<notin> fds) [0..<Suc (card fds)] \<noteq> []" by (auto simp: filter_empty_conv simp del: upt_Suc)
  from hd_in_set [OF this] show ?thesis by (simp add: first_free_def del: upt_Suc)
qed

lemma fds_now: "finite (open_fds s) \<Longrightarrow> fds_now s = Inr (int (card (open_fds s)) + 1)"
  by (simp add: fds_now_def count_open_fds_card first_free)


lemma run_test_passes:
  assumes "finite (open_fds s)"
    and "\<And>s'. test_run t s = (None, s') \<Longrightarrow> finite (open_fds s')"
  shows "child_success (run_test lc t s) \<longleftrightarrow>
    (case test_run t s of
       (Some e, _) \<Rightarrow> child_success e
     | (None, s') \<Rightarrow> \<not> lc \<or> num_alloc s' = num_alloc s \<and> card (open_fds s') = card (open_fds s))"
  using assms fds_now
  by (cases "test_run t s"; cases "fst (test_run t s)") (auto simp: run_test_def child_success_def Let_def)

definition as_wanted :: "bool \<Rightarrow> tproc \<Rightarrow> test \<Rightarrow> bool" where
  "as_wanted lc s t \<longleftrightarrow> child_success (run_test lc t s) = (\<not> must_fail t)"

lemma test_loop_counts:
  assumes "\<And>i. fork_ok i" "\<And>i. wait_ok i"
  shows "\<exists>out. test_loop lc fork_ok wait_ok s ts i pass log =
    Inr (pass + int (length (filter (as_wanted lc s) ts)), out)"
proof (induction ts arbitrary: i pass log)
  case Nil
  then show ?case by simp
next
  case (Cons t ts)
  show ?case
    using Cons.IH [of _ "pass + 1"] Cons.IH [of _ pass] assms by (auto simp: as_wanted_def Let_def algebra_simps)
qed

lemma all_counted: "length (filter P xs) = length xs \<longleftrightarrow> (\<forall>x\<in>set xs. P x)"
proof
  assume "length (filter P xs) = length xs"
  then have "filter P xs = xs" by (metis filter_True length_filter_less nat_neq_iff)
  then show "\<forall>x\<in>set xs. P x" by (metis filter_id_conv)
qed simp

lemma runner_exit:
  assumes "\<And>i. fork_ok i" "\<And>i. wait_ok i" "length argv \<noteq> 2"
  shows "\<exists>out. runner_main no_leak fork_ok wait_ok s ts argv =
    (Exited (if \<forall>t\<in>set ts. child_success (run_test (no_leak = None) t (s\<lparr>sys_calloc_loaded := True\<rparr>)) =
       (\<not> must_fail t) then 0 else 1), out)"
proof -
  let ?s = "s\<lparr>sys_calloc_loaded := True\<rparr>"
  obtain out where "test_loop (no_leak = None) fork_ok wait_ok ?s ts 0 0 [] =
      Inr (int (length (filter (as_wanted (no_leak = None) ?s) ts)), out)"
    using test_loop_counts [where s = ?s and lc = "no_leak = None" and pass = 0, OF assms(1,2)] by force
  then show ?thesis
    using assms(3) all_counted [of "as_wanted (no_leak = None) ?s" ts]
    by (auto simp: runner_main_def Let_def as_wanted_def)
qed

text \<open>An allocator to run examples with: addresses are never used again.\<close>

definition bump_alloc :: sys_alloc where
  "bump_alloc = \<lparr>sys_malloc = \<lambda>L n. Some (Suc (Max (insert 0 L))), sys_realloc = \<lambda>L p n. Some p,
     sys_calloc = \<lambda>L n k. Some (Suc (Max (insert 0 L)))\<rparr>"

lemma bump_alloc_ok: "sys_ok bump_alloc"
proof -
  have "Suc (Max (insert 0 L)) \<notin> L" if "finite L" for L :: "nat set"
    using Max_ge [of "insert 0 L" "Suc (Max (insert 0 L))"] that by (metis Suc_n_not_le_n finite.insertI insertI2)
  then show ?thesis by (auto simp: sys_ok_def bump_alloc_def)
qed

definition bare_process :: tproc where
  "bare_process = \<lparr>num_alloc = 0, sys_calloc_loaded = True, live_blocks = {1}, open_fds = {0, 1, 2}\<rparr>"

section \<open>Properties\<close>

text \<open>When nothing the kernel does fails, the runner without arguments exits with success exactly if
  every test ends as its declaration says: with exit status zero (eight bits of it) and nothing
  leaked, or not so for a test that must fail.\<close>

theorem runner_exit_status:
  assumes "\<And>i. fork_ok i" "\<And>i. wait_ok i" "length argv \<noteq> 2"
  shows "\<exists>out. runner_main no_leak fork_ok wait_ok s ts argv =
    (Exited (if \<forall>t\<in>set ts. child_success (run_test (no_leak = None) t (s\<lparr>sys_calloc_loaded := True\<rparr>)) =
       (\<not> must_fail t) then 0 else 1), out)"
  using runner_exit [OF assms] .

text \<open>The leak check is a balance.  For a test that returns after the allocator calls \<open>cs\<close> and leaves
  the descriptors as they were, the check passes exactly if the blocks in use, plus the requests that
  were refused and the blocks that \<open>realloc (p, 0)\<close> released, are as many as the blocks in use before:
  when no call is miscounted it is right about their number.\<close>

theorem leak_check_balance:
  assumes "sys_ok y" "finite (live_blocks s)" "finite (open_fds s)" "sys_calloc_loaded s"
    and "do_calls y cs s = Inr (w, s')"
  shows "run_test True \<lparr>test_name = nm, test_run = (\<lambda>s. case do_calls y cs s of Inl _ \<Rightarrow> (Some (Killed SIGABRT), s)
      | Inr (_, s') \<Rightarrow> (None, s')), must_fail = mf\<rparr> s =
    (if int (card (live_blocks s')) + w = int (card (live_blocks s)) then Exited 0 else Killed SIGABRT)"
proof -
  from do_calls_balance [OF assms(1,2,4,5)]
  have b: "num_alloc s' - int (card (live_blocks s')) = num_alloc s - int (card (live_blocks s)) + w"
    and fds: "open_fds s' = open_fds s" by (auto simp: balance_def)
  from b have "num_alloc s' = num_alloc s \<longleftrightarrow> int (card (live_blocks s')) + w = int (card (live_blocks s))"
    by linarith
  then show ?thesis using assms(5) fds fds_now [OF assms(3)] fds_now [of s'] assms(3)
    by (auto simp: run_test_def Let_def)
qed

text \<open>The check is fooled by a test that releases what it did not allocate.\<close>

theorem leak_check_balance_witness:
  "run_test True \<lparr>test_name = ''t'', test_run = (\<lambda>s. case do_calls bump_alloc [Malloc 8, Free (Some 1)] s of
      Inl _ \<Rightarrow> (Some (Killed SIGABRT), s) | Inr (_, s') \<Rightarrow> (None, s')), must_fail = False\<rparr> bare_process = Exited 0"
proof -
  have "do_calls bump_alloc [Malloc 8, Free (Some 1)] bare_process = Inr (0, bare_process\<lparr>live_blocks := {2}\<rparr>)"
    by (simp add: bump_alloc_def bare_process_def runner_malloc_def runner_free_def Let_def insert_Diff_if)
  from leak_check_balance [OF bump_alloc_ok _ _ _ this, of "''t''" False]
  show ?thesis by (simp add: bare_process_def)
qed

theorem runner_exit_status_witness:
  "\<exists>out. runner_main None (\<lambda>_. True) (\<lambda>_. True) bare_process
    [\<lparr>test_name = ''dies'', test_run = (\<lambda>s. (Some (Killed SIGABRT), s)), must_fail = True\<rparr>] [''tests''] =
    (Exited 0, out)"
  using runner_exit_status [of "\<lambda>_. True" "\<lambda>_. True" "[''tests'']" None bare_process
      "[\<lparr>test_name = ''dies'', test_run = (\<lambda>s. (Some (Killed SIGABRT), s)), must_fail = True\<rparr>]"]
  by (simp add: run_test_def bare_process_def fds_now child_success_def)

end
