(* ===== verification/Unit_Tests.thy ===== *)
theory Unit_Tests
  imports Parse_Message Test_Runner
begin

text \<open>
  The repository's own unit tests, \<^verbatim>\<open>tests/map-test.c\<close>, \<^verbatim>\<open>tests/util-test.c\<close> and
  \<^verbatim>\<open>tests/parse-message-test.c\<close>, as programs over the definitions of this development.  A failing
  \<open>assert\<close> is the fault \<open>AssertFailed\<close>; that a test passes is that it is \<open>Inr ()\<close>.
\<close>

section \<open>The object id map\<close>

text \<open>The map under test with the block that its array owns, in the process that allocates it.  The
  pointers stored are numbers, \<open>junk\<close> is what fresh memory holds.\<close>

type_synonym map_state = "u64 ids_map \<times> nat option \<times> tproc"

definition array_mem_ok :: "sys_alloc \<Rightarrow> nat option \<Rightarrow> tproc \<Rightarrow> u64 \<Rightarrow> bool" where
  "array_mem_ok y blk s n =
     (case blk of
        None \<Rightarrow> sys_malloc y (live_blocks s) n \<noteq> None
      | Some p \<Rightarrow> sys_realloc y (live_blocks s) p n \<noteq> None)"

text \<open>\<open>wl_array_add\<close> calls \<open>malloc\<close> for the first block of an array and \<open>realloc\<close> to enlarge it.\<close>

definition array_block :: "sys_alloc \<Rightarrow> u64 \<Rightarrow> u64 \<Rightarrow> nat option \<Rightarrow> tproc \<Rightarrow> (nat option \<times> tproc) res" where
  "array_block y old new blk s =
     (if new = old then Inr (blk, s)
      else if old = 0 then Inr (runner_malloc y new s)
      else runner_realloc y blk new s)"

definition ids_insert :: "sys_alloc \<Rightarrow> u64 option \<Rightarrow> u32 \<Rightarrow> u64 \<Rightarrow> map_state \<Rightarrow> map_state res" where
  "ids_insert y junk i v = (\<lambda>(m, blk, s).
     rbind (wldbg_ids_map_insert (array_mem_ok y blk s) junk m i (Some v)) (\<lambda>m'.
     rbind (array_block y (arr_alloc (map_data m)) (arr_alloc (map_data m')) blk s) (\<lambda>(blk', s').
       Inr (m', blk', s'))))"

definition ids_release :: "map_state \<Rightarrow> tproc res" where
  "ids_release = (\<lambda>(m, blk, s). runner_free blk s)"

definition map_create :: "tproc \<Rightarrow> tproc res" where
  "map_create s = ids_release (wldbg_ids_map_init, None, s)"

definition assert_get :: "u32 \<Rightarrow> u64 option \<Rightarrow> map_state \<Rightarrow> map_state res" where
  "assert_get i v = (\<lambda>(m, r). rbind (rassert (wldbg_ids_map_get m i = v)) (\<lambda>_. Inr (m, r)))"

definition assert_count :: "u32 \<Rightarrow> map_state \<Rightarrow> map_state res" where
  "assert_count n = (\<lambda>(m, r). rbind (rassert (map_count m = n)) (\<lambda>_. Inr (m, r)))"

fun run_all :: "('s \<Rightarrow> 's res) list \<Rightarrow> 's \<Rightarrow> 's res" where
  "run_all [] s = Inr s"
| "run_all (f # fs) s = rbind (f s) (run_all fs)"

definition map_insert :: "sys_alloc \<Rightarrow> u64 option \<Rightarrow> tproc \<Rightarrow> tproc res" where
  "map_insert y junk s =
     rbind (run_all
       [assert_get 0 None,
        ids_insert y junk 0 0x1, assert_get 0 (Some 0x1),
        ids_insert y junk 1 0x2, assert_get 1 (Some 0x2),
        ids_insert y junk 0 0x3, assert_get 0 (Some 0x3), assert_get 1 (Some 0x2),
        ids_insert y junk 10 0x10, assert_count 11, assert_get 11 None, assert_get 10 (Some 0x10),
        ids_insert y junk 0x55 0x55, assert_count (0x55 + 1), assert_get 0x55 (Some 0x55)]
       (wldbg_ids_map_init, None, s)) ids_release"

section \<open>String helpers\<close>

text \<open>\<open>str + n\<close> is the rest of the string from its \<open>n\<close>-th character on.\<close>

fun assert_all :: "bool list \<Rightarrow> unit res" where
  "assert_all [] = Inr ()"
| "assert_all (b # bs) = rbind (rassert b) (\<lambda>_. assert_all bs)"

definition skip_ws_test :: "unit res" where
  "skip_ws_test = assert_all (map (\<lambda>(str, n). skip_ws str = drop n str)
     [(''  hell'', 2), (''a  hell'', 0), (''hell  '', 0), ('' hell  '', 1), ('''', 0),
      (takeWhile (\<lambda>c. c \<noteq> nul) [nul, CHR ''a'', CHR ''h''], 0), (''   '', 3)])"

definition str_to_uint_test :: "unit res" where
  "str_to_uint_test = assert_all
     [str_to_uint ''0'' = 0, str_to_uint ''1'' = 1, str_to_uint ''a'' = -1, str_to_uint ''1a'' = -1,
      str_to_uint ''a1'' = -1, str_to_uint '''' = -1, str_to_uint ''0 '' = 0, str_to_uint '' 0'' = 0,
      str_to_uint '' 0 '' = 0, str_to_uint ''   '' = -1, str_to_uint '' 0 a'' = -1,
      str_to_uint ''a 123 '' = -1, str_to_uint ''  123 a'' = -1,
      str_to_uint (CHR 0x09 # '' 123 a'') = -1, str_to_uint (CHR 0x09 # '' 123  '') = 123,
      str_to_uint (CHR 0x09 # '' 123'' @ [CHR 0x09]) = 123, str_to_uint ''123'' = 123,
      str_to_uint ''0x123'' = -1]"

section \<open>Messages\<close>

text \<open>Two of the assertions of the first test are assignments: \<open>pm.opcode = 0xfeef && \<dots>\<close> stores the truth
  value of the conjunction.\<close>

definition parse_base_message :: "unit res" where
  "parse_base_message =
     (let data = words_bytes [123, 0x0040feef, 0xd00d, 0xdeed] in
      rbind (wldbg_parse_message data) (\<lambda>(ret, pm).
      rbind (rassert ret) (\<lambda>_.
      rbind (rassert (pm_id pm = 123)) (\<lambda>_.
        let pm = pm\<lparr>pm_opcode := 1\<rparr> in
      rbind (rassert (pm_opcode pm \<noteq> 0)) (\<lambda>_.
        let pm = pm\<lparr>pm_size := 1\<rparr> in
      rbind (rassert (pm_size pm \<noteq> 0)) (\<lambda>_.
      rbind (load32 data (pm_data pm)) (\<lambda>w.
      rbind (rassert (w = 0xd00d)) (\<lambda>_.
      rbind (load32 data (pm_data pm + 4)) (\<lambda>w.
        rassert (w = 0xdeed))))))))))"

definition parse_base_message_fail :: "unit res" where
  "parse_base_message_fail =
     (let data = [123, 0x0002feef, 0xd00d, 0xdeed] in
      rbind (wldbg_parse_message (words_bytes data)) (\<lambda>(ret, pm).
      rbind (rassert (\<not> ret)) (\<lambda>_.
        let data = data[1 := 0x0041feef] in
      rbind (wldbg_parse_message (words_bytes data)) (\<lambda>(ret, pm).
        rassert (\<not> ret)))))"

definition dummy_requests :: "wl_message list" where
  "dummy_requests =
     [\<lparr>wlm_name = ''foo'', wlm_signature = Some ''4i?o2ih'', wlm_types = None\<rparr>,
      \<lparr>wlm_name = ''empty'', wlm_signature = Some '''', wlm_types = None\<rparr>]"

definition dummy_events :: "wl_message list" where
  "dummy_events =
     [\<lparr>wlm_name = ''foo'', wlm_signature = Some ''1s?a?sa?2s'', wlm_types = None\<rparr>,
      \<lparr>wlm_name = ''foo2'', wlm_signature = Some ''1usu'', wlm_types = None\<rparr>]"

definition dummy_interface :: wl_interface where
  "dummy_interface = \<lparr>intf_name = ''dummy_interface'', intf_version = 1,
     method_count = 1, methods = dummy_requests, event_count = 1, events = dummy_events\<rparr>"

text \<open>The initialisers of the tests leave everything else zero.  The tests point \<open>base.data\<close> at the
  arguments themselves.\<close>

definition test_message :: "wl_message \<Rightarrow> resolved_message" where
  "test_message wm = zero_resolved\<lparr>rm_interface := Some (Iface 0), rm_message := Some wm\<rparr>"

text \<open>What a test asserts of the argument that the iterator returns: its type, whether it is
  nullable, and, where the test looks, where it is (in words from the start).  \<open>None\<close> asserts the end.\<close>

fun next_is :: "bytes \<Rightarrow> (char \<times> bool \<times> nat option option) option \<Rightarrow> resolved_message \<Rightarrow> resolved_message res" where
  "next_is m want rm =
     rbind (wldbg_resolved_message_next_argument m rm) (\<lambda>(arg, rm').
     rbind (case (want, arg) of
              (None, _) \<Rightarrow> rassert (arg = None)
            | (Some _, None) \<Rightarrow> Inl AssertFailed
            | (Some (t, nullable, pos), Some a) \<Rightarrow>
                rbind (rassert (arg_type a = t)) (\<lambda>_.
                rbind (rassert (arg_nullable a = nullable)) (\<lambda>_.
                  case pos of None \<Rightarrow> Inr () | Some w \<Rightarrow> rassert (arg_data a = map_option ((*) 4) w))))
       (\<lambda>_. Inr rm'))"

fun next_are :: "bytes \<Rightarrow> (char \<times> bool \<times> nat option option) option list \<Rightarrow> resolved_message \<Rightarrow> resolved_message res" where
  "next_are m [] rm = Inr rm"
| "next_are m (w # ws) rm = rbind (next_is m w rm) (next_are m ws)"

text \<open>\<open>*arg->data == v\<close>.\<close>

definition word_is :: "bytes \<Rightarrow> nat \<Rightarrow> u32 \<Rightarrow> unit res" where
  "word_is m n v = rbind (load32 m (4 * n)) (\<lambda>w. rassert (w = v))"

definition resolved_message_iterator_types :: "unit res" where
  "resolved_message_iterator_types =
     (let m = words_bytes [1, 2, 3, 4];
          rm = wldbg_resolved_message_reset_iterator (test_message (dummy_requests ! 0)) in
      rbind (next_are m
        [Some (CHR ''i'', False, None), Some (CHR ''o'', True, None), Some (CHR ''i'', False, None),
         Some (CHR ''h'', False, None), None] rm) (\<lambda>_. Inr ()))"

definition iterator_test_data :: bytes where
  "iterator_test_data = words_bytes
     [16, 0xdee1, 0xdee2, 0xdee3, 0xdee4, 0, 0, 12, 0xaaa1, 0xaaa2, 0xaaa3, 0]"

definition iterator_test_pass :: "resolved_message \<Rightarrow> resolved_message res" where
  "iterator_test_pass rm =
     (let m = iterator_test_data in
      rbind (next_are m [Some (CHR ''s'', False, Some (Some 1))] rm) (\<lambda>rm.
      rbind (word_is m 1 0xdee1) (\<lambda>_.
      rbind (next_are m
        [Some (CHR ''a'', True, Some None), Some (CHR ''s'', True, Some None),
         Some (CHR ''a'', False, Some (Some 8))] rm) (\<lambda>rm.
      rbind (word_is m 8 0xaaa1) (\<lambda>_.
        next_are m [Some (CHR ''s'', True, Some None), None, None] rm)))))"

definition resolved_iterator_test :: "unit res" where
  "resolved_iterator_test =
     rbind (iterator_test_pass (wldbg_resolved_message_reset_iterator (test_message (dummy_events ! 0)))) (\<lambda>rm.
     rbind (iterator_test_pass (wldbg_resolved_message_reset_iterator rm)) (\<lambda>_. Inr ()))"

definition resolve_message_test2 :: "unit res" where
  "resolve_message_test2 =
     (let m = words_bytes [123, 17, 0xdee1, 0xdee2, 0xdee3, 0xdee4, 0xdee5, 12];
          rm = wldbg_resolved_message_reset_iterator (test_message (dummy_events ! 1)) in
      rbind (next_are m [Some (CHR ''u'', False, Some (Some 0))] rm) (\<lambda>rm.
      rbind (word_is m 0 123) (\<lambda>_.
      rbind (next_are m [Some (CHR ''s'', False, Some (Some 2))] rm) (\<lambda>rm.
      rbind (word_is m 1 17) (\<lambda>_.
      rbind (next_are m [Some (CHR ''u'', False, Some (Some 7))] rm) (\<lambda>rm.
      rbind (word_is m 7 12) (\<lambda>_.
      rbind (next_are m [None, None] rm) (\<lambda>_. Inr ()))))))))"

definition message_no_arguments :: "unit res" where
  "message_no_arguments =
     (let rm = wldbg_resolved_message_reset_iterator (test_message (dummy_requests ! 1)) in
      rbind (next_are [] [None, None] rm) (\<lambda>_. Inr ()))"

section \<open>The suites\<close>

text \<open>A test as the runner sees it.  A failing assertion and \<open>abort ()\<close> end the process with
  \<open>SIGABRT\<close>; what else is undefined is taken to end it with \<open>SIGSEGV\<close>, a failure too.\<close>

definition as_run :: "(tproc \<Rightarrow> tproc res) \<Rightarrow> tproc \<Rightarrow> ending option \<times> tproc" where
  "as_run f s =
     (case f s of
        Inr s' \<Rightarrow> (None, s')
      | Inl e \<Rightarrow> (Some (Killed (if e = AssertFailed \<or> e = Aborted then SIGABRT else 11)), s))"

definition TEST :: "string \<Rightarrow> (tproc \<Rightarrow> tproc res) \<Rightarrow> test" where
  "TEST name f = \<lparr>test_name = name, test_run = as_run f, must_fail = False\<rparr>"

definition without_memory :: "unit res \<Rightarrow> tproc \<Rightarrow> tproc res" where
  "without_memory r s = rbind r (\<lambda>_. Inr s)"

definition map_test_suite :: "sys_alloc \<Rightarrow> u64 option \<Rightarrow> test list" where
  "map_test_suite y junk = [TEST ''map_create'' map_create, TEST ''map_insert'' (map_insert y junk)]"

definition util_test_suite :: "test list" where
  "util_test_suite =
     [TEST ''skip_ws_test'' (without_memory skip_ws_test),
      TEST ''str_to_uint_test'' (without_memory str_to_uint_test)]"

definition parse_message_test_suite :: "test list" where
  "parse_message_test_suite =
     [TEST ''parse_base_message'' (without_memory parse_base_message),
      TEST ''parse_base_message_fail'' (without_memory parse_base_message_fail),
      TEST ''resolved_message_iterator_types'' (without_memory resolved_message_iterator_types),
      TEST ''resolved_iterator_test'' (without_memory resolved_iterator_test),
      TEST ''resolve_message_test2'' (without_memory resolve_message_test2),
      TEST ''message_no_arguments'' (without_memory message_no_arguments)]"

section \<open>The tests pass\<close>

lemma skip_ws_test_passes: "skip_ws_test = Inr ()"
  by (simp add: skip_ws_test_def skip_ws_def is_space_def)

lemma str_to_uint_test_passes: "str_to_uint_test = Inr ()"
  by (simp add: str_to_uint_test_def str_to_uint_def skip_ws_def is_space_def is_digit_def atoi_def
      dec_val_def digit_val_def)

lemma load_word:
  "4 dvd off \<Longrightarrow> off div 4 < length ws \<Longrightarrow> load32 (words_bytes ws) off = Inr (ws ! (off div 4))"
  using load32_words_bytes [of "off div 4" ws "[]"] by simp

lemma parse_tests_pass: "parse_base_message = Inr ()" "parse_base_message_fail = Inr ()"
  by (simp_all add: parse_base_message_def parse_base_message_fail_def wldbg_parse_message_def load_word
      del: words_bytes_Cons)

lemmas iterator_eval = wldbg_resolved_message_next_argument_def initialize_iterator_def
  wldbg_resolved_message_reset_iterator_def signature_get_type_def is_digit_def get_data_ptr_def
  advance_def div_roundup4_def zero_resolved_def zero_arg_def test_message_def dummy_requests_def
  dummy_events_def word_is_def load_word nul_def

lemma iterator_tests_pass: "resolved_message_iterator_types = Inr ()" "resolved_iterator_test = Inr ()"
  "resolve_message_test2 = Inr ()" "message_no_arguments = Inr ()"
  by (simp_all add: resolved_message_iterator_types_def resolved_iterator_test_def
      resolve_message_test2_def message_no_arguments_def iterator_test_data_def iterator_test_pass_def
      iterator_eval Let_def del: words_bytes_Cons)


text \<open>What holds of the map under test between the operations, from the start \<open>s0\<close> on: it owns a
  block exactly when the array has one, and that block is all that was allocated.\<close>

definition map_inv :: "tproc \<Rightarrow> (u32 \<Rightarrow> u64 option) \<Rightarrow> u32 \<Rightarrow> map_state \<Rightarrow> bool" where
  "map_inv s0 f n = (\<lambda>(m, blk, s). ids_map_wf m \<and> wldbg_ids_map_get m = f \<and> map_count m = n \<and>
     (blk = None \<longleftrightarrow> arr_alloc (map_data m) = 0) \<and>
     set_option blk \<inter> live_blocks s0 = {} \<and>
     s = s0\<lparr>num_alloc := num_alloc s0 + (if blk = None then 0 else 1),
            live_blocks := set_option blk \<union> live_blocks s0\<rparr>)"

definition never_refuses :: "sys_alloc \<Rightarrow> bool" where
  "never_refuses y \<longleftrightarrow> (\<forall>L n. sys_malloc y L n \<noteq> None) \<and> (\<forall>L p n. sys_realloc y L p n \<noteq> None)"

lemma inserted_allocated:
  assumes "ids_map_wf m" "map_count m = max c (i + 1)" "i \<noteq> - 1"
  shows "arr_alloc (map_data m) \<noteq> 0"
proof
  assume "arr_alloc (map_data m) = 0"
  then have "map_count m = 0" using assms(1) by (auto simp: ids_map_wf_def arr_wf_def unat_eq_0)
  moreover have "i + 1 \<noteq> 0" using assms(3) by (metis add_eq_0_iff2)
  ultimately show False using assms(2) by (metis max.cobounded2 word_le_0_iff)
qed

lemma array_block_owned:
  assumes y: "sys_ok y" "never_refuses y" and fin: "finite (live_blocks s0)"
    and own: "set_option blk \<inter> live_blocks s0 = {}"
    and s: "s = s0\<lparr>num_alloc := num_alloc s0 + (if blk = None then 0 else 1),
            live_blocks := set_option blk \<union> live_blocks s0\<rparr>"
    and old: "blk = None \<longleftrightarrow> old = 0" and new: "new \<noteq> 0"
  shows "\<exists>p. array_block y old new blk s = Inr (Some p,
        s0\<lparr>num_alloc := num_alloc s0 + 1, live_blocks := insert p (live_blocks s0)\<rparr>) \<and> p \<notin> live_blocks s0"
proof (cases blk)
  case None
  obtain p where p: "sys_malloc y (live_blocks s0) new = Some p"
    using y(2) unfolding never_refuses_def by blast
  then have "p \<notin> live_blocks s0" using y(1) fin by (auto simp: sys_ok_def)
  then show ?thesis using None p old new by (auto simp: array_block_def runner_malloc_def s)
next
  case (Some b)
  obtain q where q: "sys_realloc y (insert b (live_blocks s0)) b new = Some q"
    using y(2) unfolding never_refuses_def by blast
  then have "q \<notin> insert b (live_blocks s0) - {b}"
    using y(1) fin unfolding sys_ok_def by (metis finite_insert)
  then have "q \<notin> live_blocks s0" using own Some by auto
  then show ?thesis using Some q old new own by (auto simp: array_block_def runner_realloc_def s Let_def)
qed

lemma ids_insert_inv:
  assumes y: "sys_ok y" "never_refuses y" and fin: "finite (live_blocks s0)"
    and inv: "map_inv s0 f n st" and i: "i \<noteq> - 1"
  shows "\<exists>st'. ids_insert y junk i v st = Inr st' \<and> map_inv s0 (f(i := Some v)) (max n (i + 1)) st'"
proof -
  obtain m blk s where st: "st = (m, blk, s)" by (cases st)
  have ok: "array_mem_ok y blk s k" for k
    using y(2) by (auto simp: array_mem_ok_def never_refuses_def split: option.splits)
  have m: "ids_map_wf m" using inv by (simp add: map_inv_def st)
  show ?thesis
  proof (cases rule: wldbg_ids_map_insert_cases [where mem_ok = "array_mem_ok y blk s" and junk = junk
        and v = "Some v", OF m i])
    case (1 alloc)
    then show ?thesis using ok by simp
  next
    case (2 m')
    let ?old = "arr_alloc (map_data m)" and ?new = "arr_alloc (map_data m')"
    have fn: "wldbg_ids_map_get m = f" "map_count m = n" "blk = None \<longleftrightarrow> ?old = 0"
      and own: "set_option blk \<inter> live_blocks s0 = {}"
      and s: "s = s0\<lparr>num_alloc := num_alloc s0 + (if blk = None then 0 else 1),
            live_blocks := set_option blk \<union> live_blocks s0\<rparr>"
      using inv by (auto simp: map_inv_def st)
    have new: "?new \<noteq> 0" by (rule inserted_allocated [OF 2(2,4) i])
    then obtain blk' where "array_block y ?old ?new blk s = Inr (Some blk',
        s0\<lparr>num_alloc := num_alloc s0 + 1, live_blocks := insert blk' (live_blocks s0)\<rparr>)"
      "blk' \<notin> live_blocks s0"
      using array_block_owned [OF y fin own s fn(3)] by blast
    then show ?thesis using 2 fn new by (auto simp: ids_insert_def st map_inv_def)
  qed
qed

lemma map_inv_start:
  "map_inv s (\<lambda>_. None) 0 (wldbg_ids_map_init, None, s)"
  by (simp add: map_inv_def ids_map_wf_init fun_eq_iff ids.get_init) (simp add: wldbg_ids_map_init_def wl_array_init_def)

lemma map_inv_checks:
  assumes "map_inv s0 f n st"
  shows "f i = v \<Longrightarrow> assert_get i v st = Inr st" "n = k \<Longrightarrow> assert_count k st = Inr st"
  using assms by (auto simp: map_inv_def assert_get_def assert_count_def)

lemma map_inv_release:
  assumes "map_inv s0 f n st"
  shows "ids_release st = Inr s0"
  using assms by (auto simp: map_inv_def ids_release_def runner_free_def Let_def split: option.splits)

definition passes :: "tproc \<Rightarrow> map_state res \<Rightarrow> bool" where
  "passes s0 r \<longleftrightarrow> (\<exists>st f n. r = Inr st \<and> map_inv s0 f n st)"

lemma run_done: "map_inv s0 f n st \<Longrightarrow> passes s0 (run_all [] st)"
  by (auto simp: passes_def)

lemma run_checks:
  assumes "map_inv s0 f n st"
  shows "f i = v \<Longrightarrow> passes s0 (run_all fs st) \<Longrightarrow> passes s0 (run_all (assert_get i v # fs) st)"
    "n = k \<Longrightarrow> passes s0 (run_all fs st) \<Longrightarrow> passes s0 (run_all (assert_count k # fs) st)"
  using map_inv_checks [OF assms] by auto

lemma run_insert:
  assumes "sys_ok y" "never_refuses y" "finite (live_blocks s0)" "map_inv s0 f n st" "i \<noteq> - 1"
    and "\<And>st'. map_inv s0 (f(i := Some v)) (max n (i + 1)) st' \<Longrightarrow> passes s0 (run_all fs st')"
  shows "passes s0 (run_all (ids_insert y junk i v # fs) st)"
proof -
  obtain st' where "ids_insert y junk i v st = Inr st'" "map_inv s0 (f(i := Some v)) (max n (i + 1)) st'"
    using ids_insert_inv [OF assms(1-5)] by blast
  then show ?thesis using assms(6) by simp
qed

lemma map_tests_pass:
  assumes "sys_ok y" "never_refuses y" "finite (live_blocks s)"
  shows "map_create s = Inr s" "map_insert y junk s = Inr s"
proof -
  show "map_create s = Inr s"
    unfolding map_create_def by (rule map_inv_release [OF map_inv_start])
  have "passes s (run_all
       [assert_get 0 None,
        ids_insert y junk 0 0x1, assert_get 0 (Some 0x1),
        ids_insert y junk 1 0x2, assert_get 1 (Some 0x2),
        ids_insert y junk 0 0x3, assert_get 0 (Some 0x3), assert_get 1 (Some 0x2),
        ids_insert y junk 10 0x10, assert_count 11, assert_get 11 None, assert_get 10 (Some 0x10),
        ids_insert y junk 0x55 0x55, assert_count (0x55 + 1), assert_get 0x55 (Some 0x55)]
       (wldbg_ids_map_init, None, s))"
    by (rule run_checks [OF map_inv_start], simp, rule run_insert [OF assms map_inv_start], simp)
      (rule run_checks, assumption, simp | rule run_insert [OF assms], assumption, simp | rule run_done, assumption)+
  then show "map_insert y junk s = Inr s"
    by (auto simp: map_insert_def passes_def dest: map_inv_release)
qed

lemma run_test_clean:
  "f s = Inr s \<Longrightarrow> finite (open_fds s) \<Longrightarrow> run_test lc (TEST name f) s = Exited 0"
  by (simp add: run_test_def TEST_def as_run_def fds_now Let_def)

lemmas pure_tests_pass = skip_ws_test_passes str_to_uint_test_passes parse_tests_pass iterator_tests_pass

lemma suites_clean:
  assumes "sys_ok y" "never_refuses y" "finite (live_blocks s)" "finite (open_fds s)"
    and "t \<in> set (map_test_suite y junk @ util_test_suite @ parse_message_test_suite)"
  shows "run_test lc t s = Exited 0 \<and> \<not> must_fail t"
proof -
  have "run_test lc (TEST name (without_memory r)) s = Exited 0" if "r = Inr ()" for name r
    using that assms(4) by (intro run_test_clean) (simp_all add: without_memory_def)
  moreover have "run_test lc (TEST name map_create) s = Exited 0"
      "run_test lc (TEST name (map_insert y junk)) s = Exited 0" for name
    using assms(4) map_tests_pass [OF assms(1-3)] by (intro run_test_clean; simp)+
  ultimately show ?thesis using assms(5) pure_tests_pass
    by (auto simp: map_test_suite_def util_test_suite_def parse_message_test_suite_def) (simp_all add: TEST_def)
qed

section \<open>Properties\<close>

text \<open>The three test programs of the repository, run on the definitions of this development by the
  model of the test runner, exit with success whatever fresh memory holds: each of their assertions
  holds of the model, and the map tests return every block they allocate.\<close>

theorem unit_tests_pass:
  assumes "sys_ok y" "never_refuses y" "finite (live_blocks s)" "finite (open_fds s)"
    and "suite \<in> {map_test_suite y junk, util_test_suite, parse_message_test_suite}"
  shows "\<exists>out. runner_main no_leak (\<lambda>_. True) (\<lambda>_. True) s suite [prog] = (Exited 0, out)"
proof -
  let ?s = "s\<lparr>sys_calloc_loaded := True\<rparr>"
  have "child_success (run_test (no_leak = None) t ?s) = (\<not> must_fail t)" if "t \<in> set suite" for t
    using suites_clean [where s = ?s and t = t and junk = junk and lc = "no_leak = None", OF assms(1,2)] assms(3-) that
    by (auto simp: child_success_def)
  then show ?thesis
    using runner_exit [of "\<lambda>_. True" "\<lambda>_. True" "[prog]" no_leak s suite] by auto
qed

theorem unit_tests_pass_witness:
  "\<exists>out. runner_main None (\<lambda>_. True) (\<lambda>_. True) bare_process (map_test_suite bump_alloc (Some 7)) [''map-test''] =
    (Exited 0, out)"
proof -
  have "never_refuses bump_alloc" by (simp add: never_refuses_def bump_alloc_def)
  from unit_tests_pass [OF bump_alloc_ok this, of bare_process "map_test_suite bump_alloc (Some 7)" "Some 7" None]
  show ?thesis by (simp add: bare_process_def)
qed

end
