(* ===== verification/Ownership.thy ===== *)
theory Ownership
  imports Ids_Map
begin

text \<open>
  Who frees what: the functions that release memory, \<^verbatim>\<open>wl_array_release\<close>, \<^verbatim>\<open>wl_map_release\<close>,
  \<^verbatim>\<open>wldbg_ids_map_release\<close>, \<^verbatim>\<open>wl_closure_destroy\<close>, \<^verbatim>\<open>free_arguments\<close> and the failing path of
  \<^verbatim>\<open>copy_arguments\<close>, \<^verbatim>\<open>dealloc_pass\<close>, \<^verbatim>\<open>destroy_resolved_objects\<close>, \<^verbatim>\<open>destroy_objects_info\<close> with the
  destructors of the objects, and \<^verbatim>\<open>wldbgi_destory\<close>.

  The heap maps the address of every live block to the pointers the block holds.  Releasing a block
  that is not live, or reading from one, is \<open>UseAfterFree\<close>; taking a block for another struct is
  \<open>TypeConfusion\<close>.  What libc allocates inside a \<open>regex_t\<close> is not on this heap.
\<close>

section \<open>The heap\<close>

datatype destructor = No_destroy | Plain_free | Destroy_wl_surface | Destroy_xdg_surface | Free_seat

datatype block =
    Raw
  | Pointer_array "nat option list"
  | Surface_block "nat option"
  | Xdg_surface_block "nat option"
  | Seat_block "nat option"
  | Object_info_block destructor "nat option"
  | Objects_info_block "nat ids_map" "nat option" "nat ids_map" "nat option"
  | Resolved_objects_block "nat option" "nat option" "nat list"
  | Breakpoint_block bool "nat option" "nat option"
  | Re_data_block "nat option"
  | Filter_block "nat option"
  | Autocmd_block "nat option" "nat option"
  | Wldbgi_block "nat option" "nat option" "nat list" "nat list" "nat list"
  | Pass_block "nat option"

type_synonym rheap = "nat \<Rightarrow> block option"

definition block_at :: "rheap \<Rightarrow> nat option \<Rightarrow> block res" where
  "block_at h p =
     (case p of
        None \<Rightarrow> Inl NullDeref
      | Some a \<Rightarrow> (case h a of None \<Rightarrow> Inl UseAfterFree | Some b \<Rightarrow> Inr b))"

definition free :: "nat option \<Rightarrow> rheap \<Rightarrow> rheap res" where
  "free p h =
     (case p of
        None \<Rightarrow> Inr h
      | Some a \<Rightarrow> if h a = None then Inl UseAfterFree else Inr (h(a := None)))"

section \<open>Arrays, maps and closures\<close>

text \<open>The argument is the address in the field \<open>data\<close>; a map holds two arrays.\<close>

definition wl_array_release :: "nat option \<Rightarrow> rheap \<Rightarrow> rheap res" where
  "wl_array_release data h = free data h"

definition wl_map_release :: "nat option \<Rightarrow> nat option \<Rightarrow> rheap \<Rightarrow> rheap res" where
  "wl_map_release client server h = rbind (wl_array_release client h) (wl_array_release server)"

definition wldbg_ids_map_release :: "'a ids_map \<Rightarrow> nat option \<Rightarrow> rheap \<Rightarrow> ('a ids_map \<times> rheap) res" where
  "wldbg_ids_map_release m data h = rbind (wl_array_release data h) (\<lambda>h'. Inr (m\<lparr>map_count := 0\<rparr>, h'))"

definition wl_closure_destroy :: "nat option \<Rightarrow> rheap \<Rightarrow> rheap res" where
  "wl_closure_destroy closure h = free closure h"

section \<open>Argument vectors\<close>

text \<open>The loop of \<open>free_arguments\<close> over the pointers behind \<open>argv\<close>, in the block \<open>a\<close>.\<close>

fun free_argument_loop :: "nat \<Rightarrow> nat option list \<Rightarrow> rheap \<Rightarrow> rheap res" where
  "free_argument_loop a [] h = Inl OutOfBounds"
| "free_argument_loop a (None # ps) h = Inr h"
| "free_argument_loop a (Some p # ps) h =
     rbind (free (Some p) h) (\<lambda>h'. rbind (block_at h' (Some a)) (\<lambda>_. free_argument_loop a ps h'))"

definition free_arguments :: "nat option \<Rightarrow> rheap \<Rightarrow> rheap res" where
  "free_arguments argv h =
     rbind (block_at h argv) (\<lambda>b.
     rbind (case b of Pointer_array ps \<Rightarrow> free_argument_loop (the argv) ps h | _ \<Rightarrow> Inl TypeConfusion) (\<lambda>h'.
       free argv h'))"

text \<open>\<open>copy_arguments\<close> on the heap.  \<open>answers\<close> are the addresses that \<open>strdup\<close> returns for the
  successive arguments.  When one fails, the loop that should release the copies made so far passes
  \<open>tmp[num]\<close> to \<open>free\<close> each time, the pointer that is null.\<close>

fun free_same_loop :: "nat \<Rightarrow> nat option \<Rightarrow> rheap \<Rightarrow> rheap res" where
  "free_same_loop 0 p h = Inr h"
| "free_same_loop (Suc k) p h = rbind (free p h) (free_same_loop k p)"

definition padded :: "nat \<Rightarrow> nat option list \<Rightarrow> nat option list" where
  "padded argc cells = cells @ replicate (argc + 1 - length cells) None"

fun copy_argument_loop :: "nat \<Rightarrow> nat \<Rightarrow> nat option list \<Rightarrow> nat option list \<Rightarrow> rheap \<Rightarrow> (int \<times> rheap) res" where
  "copy_argument_loop tmp argc [] cells h =
     rbind (nth_res (padded argc cells) (length cells)) (\<lambda>last.
     rbind (rassert (last = None)) (\<lambda>_.
     rbind (rassert (argc = length cells)) (\<lambda>_. Inr (int (length cells), h))))"
| "copy_argument_loop tmp argc (r # rs) cells h =
     (if argc < length cells then Inl OutOfBounds
      else
        (case r of
           None \<Rightarrow>
             rbind (nth_res (padded argc cells) (length cells)) (\<lambda>at_num.
             rbind (free_same_loop (length cells) at_num h) (\<lambda>h.
             rbind (free (Some tmp) h) (\<lambda>h. Inr (-1, h))))
         | Some s \<Rightarrow>
             let cells = cells @ [Some s] in
             copy_argument_loop tmp argc rs cells (h(s \<mapsto> Raw, tmp \<mapsto> Pointer_array (padded argc cells)))))"

text \<open>The answer of \<open>calloc\<close> is \<open>array\<close>.  The result has the address stored through \<open>to\<close>.\<close>

definition copy_arguments_heap ::
    "nat option \<Rightarrow> nat option list \<Rightarrow> nat \<Rightarrow> rheap \<Rightarrow> (int \<times> nat option \<times> rheap) res" where
  "copy_arguments_heap array answers argc h =
     (case array of
        None \<Rightarrow> Inr (-1, None, h)
      | Some tmp \<Rightarrow>
          rbind (copy_argument_loop tmp argc answers [] (h(tmp \<mapsto> Pointer_array (padded argc [])))) (\<lambda>(n, h').
            Inr (n, if n = -1 then None else Some tmp, h')))"

section \<open>Passes\<close>

definition dealloc_pass :: "nat option \<Rightarrow> rheap \<Rightarrow> rheap res" where
  "dealloc_pass pass h =
     rbind (block_at h pass) (\<lambda>b.
       case b of
         Pass_block name \<Rightarrow>
           rbind (if name \<noteq> None then free name h else Inr h) (free pass)
       | _ \<Rightarrow> Inl TypeConfusion)"

definition alloc_pass_heap :: "nat option \<Rightarrow> nat option \<Rightarrow> rheap \<Rightarrow> (nat option \<times> rheap) res" where
  "alloc_pass_heap block name h =
     (case block of
        None \<Rightarrow> Inr (None, h)
      | Some p \<Rightarrow>
          let h = h(p \<mapsto> Pass_block name) in
          case name of
            None \<Rightarrow> rbind (dealloc_pass (Some p) h) (\<lambda>h'. Inr (None, h'))
          | Some s \<Rightarrow> Inr (Some p, h(s \<mapsto> Raw)))"

section \<open>Information about objects\<close>

partial_function (option) surface_rec :: "nat option \<Rightarrow> rheap \<Rightarrow> rheap res option" where
  "surface_rec info h =
     (case info of
        None \<Rightarrow> Some (Inr h)
      | Some a \<Rightarrow>
          (case block_at h (Some a) of
             Inl e \<Rightarrow> Some (Inl e)
           | Inr b \<Rightarrow>
               (case b of
                  Surface_block commited \<Rightarrow>
                    Option.bind (surface_rec commited h) (\<lambda>r. Some (rbind r (free (Some a))))
                | _ \<Rightarrow> Some (Inl TypeConfusion))))"

text \<open>A chain of committed states that runs in a circle is never left.\<close>

definition destroy_wl_surface_info :: "nat option \<Rightarrow> rheap \<Rightarrow> rheap res" where
  "destroy_wl_surface_info info h = (case surface_rec info h of None \<Rightarrow> Inl Hang | Some r \<Rightarrow> r)"

definition destroy_xdg_surface_info :: "nat option \<Rightarrow> rheap \<Rightarrow> rheap res" where
  "destroy_xdg_surface_info info h =
     rbind (block_at h info) (\<lambda>b.
       case b of Xdg_surface_block title \<Rightarrow> rbind (free title h) (free info) | _ \<Rightarrow> Inl TypeConfusion)"

definition free_seat :: "nat option \<Rightarrow> rheap \<Rightarrow> rheap res" where
  "free_seat info h =
     rbind (block_at h info) (\<lambda>b.
       case b of Seat_block name \<Rightarrow> rbind (free name h) (free info) | _ \<Rightarrow> Inl TypeConfusion)"

definition run_destructor :: "destructor \<Rightarrow> nat option \<Rightarrow> rheap \<Rightarrow> rheap res" where
  "run_destructor d info h =
     (case d of
        No_destroy \<Rightarrow> Inr h
      | Plain_free \<Rightarrow> free info h
      | Destroy_wl_surface \<Rightarrow> destroy_wl_surface_info info h
      | Destroy_xdg_surface \<Rightarrow> destroy_xdg_surface_info info h
      | Free_seat \<Rightarrow> free_seat info h)"

text \<open>The end of \<open>wldbg_object_info_free\<close>, and the body of the loops of \<open>destroy_objects_info\<close>.\<close>

definition free_object_info :: "nat \<Rightarrow> rheap \<Rightarrow> rheap res" where
  "free_object_info p h =
     rbind (block_at h (Some p)) (\<lambda>b.
       case b of
         Object_info_block d info \<Rightarrow> rbind (run_destructor d info h) (free (Some p))
       | _ \<Rightarrow> Inl TypeConfusion)"

text \<open>The entries that a loop over the ids of a table visits; \<open>holder\<close> is the struct with the table,
  \<open>cells\<close> its array, both read in every round.\<close>

definition table_entries :: "'a ids_map \<Rightarrow> 'a option list" where
  "table_entries m = map (\<lambda>i. wldbg_ids_map_get m (word_of_nat i)) [0..<unat (map_count m)]"

fun free_info_loop :: "nat \<Rightarrow> nat option \<Rightarrow> nat option list \<Rightarrow> rheap \<Rightarrow> rheap res" where
  "free_info_loop holder cells [] h = Inr h"
| "free_info_loop holder cells (e # es) h =
     rbind (block_at h (Some holder)) (\<lambda>_.
     rbind (block_at h cells) (\<lambda>_.
     rbind (case e of None \<Rightarrow> Inr h | Some p \<Rightarrow> free_object_info p h) (free_info_loop holder cells es)))"

definition destroy_objects_info :: "nat option \<Rightarrow> rheap \<Rightarrow> rheap res" where
  "destroy_objects_info oi h =
     (case oi of
        None \<Rightarrow> Inr h
      | Some a \<Rightarrow>
          rbind (block_at h oi) (\<lambda>b.
            case b of
              Objects_info_block client ccells server scells \<Rightarrow>
                rbind (free_info_loop a ccells (table_entries client) h) (\<lambda>h.
                rbind (free_info_loop a scells (table_entries server) h) (\<lambda>h.
                rbind (wldbg_ids_map_release client ccells h) (\<lambda>(_, h).
                rbind (wldbg_ids_map_release server scells h) (\<lambda>(_, h).
                  free oi h))))
            | _ \<Rightarrow> Inl TypeConfusion))"

section \<open>Resolved objects\<close>

text \<open>\<open>wl_list_for_each_safe\<close> with a body that frees the element (theory \<open>Wl_List\<close>).\<close>

fun free_each :: "(nat \<Rightarrow> rheap \<Rightarrow> rheap res) \<Rightarrow> nat list \<Rightarrow> rheap \<Rightarrow> rheap res" where
  "free_each f [] h = Inr h"
| "free_each f (p # ps) h = rbind (f p h) (free_each f ps)"

definition destroy_resolved_objects :: "nat option \<Rightarrow> rheap \<Rightarrow> rheap res" where
  "destroy_resolved_objects ro h =
     (case ro of
        None \<Rightarrow> Inr h
      | Some a \<Rightarrow>
          rbind (block_at h ro) (\<lambda>b.
            case b of
              Resolved_objects_block client server additional \<Rightarrow>
                rbind (wl_array_release client h) (\<lambda>h.
                rbind (wl_array_release server h) (\<lambda>h.
                rbind (free_each (\<lambda>p. free (Some p)) additional h) (\<lambda>h.
                  free ro h)))
            | _ \<Rightarrow> Inl TypeConfusion))"

definition resolve_destroy :: "nat list \<Rightarrow> rheap \<Rightarrow> rheap res" where
  "resolve_destroy shared_interfaces h = free_each (\<lambda>p. free (Some p)) shared_interfaces h"

section \<open>Interactive mode\<close>

definition breakpoint_re_data_free :: "nat option \<Rightarrow> rheap \<Rightarrow> rheap res" where
  "breakpoint_re_data_free data h =
     rbind (block_at h data) (\<lambda>b.
       case b of Re_data_block pattern \<Rightarrow> rbind (free pattern h) (free data) | _ \<Rightarrow> Inl TypeConfusion)"

definition free_breakpoint :: "nat \<Rightarrow> rheap \<Rightarrow> rheap res" where
  "free_breakpoint p h =
     rbind (block_at h (Some p)) (\<lambda>b.
       case b of
         Breakpoint_block data_destr data description \<Rightarrow>
           rbind (if data_destr then breakpoint_re_data_free data h else Inr h) (\<lambda>h.
           rbind (free description h) (free (Some p)))
       | _ \<Rightarrow> Inl TypeConfusion)"

definition free_filter :: "nat \<Rightarrow> rheap \<Rightarrow> rheap res" where
  "free_filter p h =
     rbind (block_at h (Some p)) (\<lambda>b.
       case b of Filter_block flt \<Rightarrow> rbind (free flt h) (free (Some p)) | _ \<Rightarrow> Inl TypeConfusion)"

definition free_autocmd :: "nat \<Rightarrow> rheap \<Rightarrow> rheap res" where
  "free_autocmd p h =
     rbind (block_at h (Some p)) (\<lambda>b.
       case b of
         Autocmd_block cmd flt \<Rightarrow> rbind (free cmd h) (\<lambda>h. rbind (free flt h) (free (Some p)))
       | _ \<Rightarrow> Inl TypeConfusion)"

definition wldbgi_destory_heap :: "nat \<Rightarrow> rheap \<Rightarrow> rheap res" where
  "wldbgi_destory_heap a h =
     rbind (block_at h (Some a)) (\<lambda>b.
       case b of
         Wldbgi_block path last_command bs fs cs \<Rightarrow>
           rbind (free path h) (\<lambda>h.
           rbind (free last_command h) (\<lambda>h.
           rbind (free_each free_breakpoint bs h) (\<lambda>h.
           rbind (free_each free_filter fs h) (\<lambda>h.
           rbind (free_each free_autocmd cs h) (\<lambda>h.
             free (Some a) h)))))
       | _ \<Rightarrow> Inl TypeConfusion)"

section \<open>What is released\<close>

definition without :: "nat list \<Rightarrow> rheap \<Rightarrow> rheap" where
  "without xs h = (\<lambda>a. if a \<in> set xs then None else h a)"

lemma without_Nil [simp]: "without [] h = h"
  by (simp add: without_def)

lemma without_append: "without ys (without xs h) = without (xs @ ys) h"
  by (auto simp: without_def fun_eq_iff)

lemma without_cong: "set xs = set ys \<Longrightarrow> without xs h = without ys h"
  by (simp add: without_def)

lemma without_other: "a \<notin> set xs \<Longrightarrow> without xs h a = h a"
  by (simp add: without_def)

definition cell_list :: "nat option \<Rightarrow> nat list" where
  "cell_list p = (case p of None \<Rightarrow> [] | Some a \<Rightarrow> [a])"

lemma cell_list_simps [simp]: "cell_list None = []" "cell_list (Some a) = [a]"
  by (simp_all add: cell_list_def)

definition all_live :: "rheap \<Rightarrow> nat list \<Rightarrow> bool" where
  "all_live h xs \<longleftrightarrow> (\<forall>a\<in>set xs. h a \<noteq> None)"

lemma all_live_simps [simp]:
  "all_live h []" "all_live h (a # xs) \<longleftrightarrow> h a \<noteq> None \<and> all_live h xs"
  "all_live h (xs @ ys) \<longleftrightarrow> all_live h xs \<and> all_live h ys"
  by (auto simp: all_live_def)

lemma free_live: "all_live h (cell_list p) \<Longrightarrow> free p h = Inr (without (cell_list p) h)"
  by (cases p) (auto simp: free_def without_def fun_eq_iff)

text \<open>A kind of object: which blocks an object of it owns, and a function that destroys it.  What is
  owned depends on nothing but the blocks themselves, and destroying releases exactly them.\<close>

locale owner =
  fixes own :: "rheap \<Rightarrow> nat \<Rightarrow> nat list \<Rightarrow> bool"
    and destroy :: "nat \<Rightarrow> rheap \<Rightarrow> rheap res"
  assumes frame: "own h p xs \<Longrightarrow> (\<And>a. a \<in> set xs \<Longrightarrow> h' a = h a) \<Longrightarrow> own h' p xs"
    and releases: "own h p xs \<Longrightarrow> distinct xs \<Longrightarrow> destroy p h = Inr (without xs h)"

context owner
begin

lemma owned_list_frame:
  assumes "list_all2 (own h) ps xss" "\<And>a. a \<in> set (concat xss) \<Longrightarrow> h' a = h a"
  shows "list_all2 (own h') ps xss"
  using assms by (induction rule: list_all2_induct) (auto intro: frame)

lemma free_each_releases:
  assumes "list_all2 (own h) ps xss" "distinct (concat xss)"
  shows "free_each destroy ps h = Inr (without (concat xss) h)"
  using assms
proof (induction ps arbitrary: xss h)
  case Nil
  then show ?case by simp
next
  case (Cons p ps)
  then obtain xs yss where xss: "xss = xs # yss" "own h p xs" "list_all2 (own h) ps yss"
    by (auto simp: list_all2_Cons1)
  have "list_all2 (own (without xs h)) ps yss"
    using xss(3) by (rule owned_list_frame) (use Cons.prems(2) xss(1) in \<open>auto simp: without_def\<close>)
  then show ?case using Cons.IH [of "without xs h" yss] Cons.prems(2) xss releases [of h p xs]
    by (simp add: without_append)
qed

lemma free_each_after:
  assumes "list_all2 (own h) ps xss" "distinct (concat xss)" "set ys \<inter> set (concat xss) = {}"
  shows "free_each destroy ps (without ys h) = Inr (without (ys @ concat xss) h)"
proof -
  have "list_all2 (own (without ys h)) ps xss"
    using assms(1) by (rule owned_list_frame) (use assms(3) in \<open>auto simp: without_def\<close>)
  from free_each_releases [OF this assms(2)] show ?thesis by (simp add: without_append)
qed

text \<open>A table of pointers, some of them null.\<close>

lemma table_loop_releases:
  assumes "list_all2 (own h) (concat (map cell_list es)) xss" "distinct (concat xss)"
    and "h holder \<noteq> None" "h cells \<noteq> None" "holder \<notin> set (concat xss)" "cells \<notin> set (concat xss)"
    and loop: "\<And>es h. loop es h = (case es of [] \<Rightarrow> Inr h | e # es \<Rightarrow>
      rbind (block_at h (Some holder)) (\<lambda>_.
      rbind (block_at h (Some cells)) (\<lambda>_.
      rbind (case e of None \<Rightarrow> Inr h | Some p \<Rightarrow> destroy p h) (loop es))))"
  shows "loop es h = Inr (without (concat xss) h)"
  using assms(1-6)
proof (induction es arbitrary: xss h)
  case Nil
  then show ?case using loop [of "[]"] by simp
next
  case (Cons e es)
  have live: "block_at h (Some holder) = Inr (the (h holder))" "block_at h (Some cells) = Inr (the (h cells))"
    using Cons.prems(3,4) by (auto simp: block_at_def)
  show ?case
  proof (cases e)
    case None
    then show ?thesis using Cons.IH [of h xss] Cons.prems loop [of "e # es" h] live by simp
  next
    case (Some p)
    then obtain xs yss where xss: "xss = xs # yss" "own h p xs" "list_all2 (own h) (concat (map cell_list es)) yss"
      using Cons.prems(1) by (auto simp: list_all2_Cons1)
    have "list_all2 (own (without xs h)) (concat (map cell_list es)) yss"
      using xss(3) by (rule owned_list_frame) (use Cons.prems(2) xss(1) in \<open>auto simp: without_def\<close>)
    then have "loop es (without xs h) = Inr (without (concat yss) (without xs h))"
      using Cons.prems xss(1) by (intro Cons.IH) (auto simp: without_def)
    then show ?thesis using Some Cons.prems(2) xss releases [of h p xs] loop [of "e # es" h] live
      by (simp add: without_append)
  qed
qed

end

section \<open>The kinds of objects\<close>

lemma all_live_without: "set xs \<inter> set ys = {} \<Longrightarrow> all_live (without ys h) xs = all_live h xs"
  by (auto simp: all_live_def without_def)

lemma all_live_frame: "all_live h xs \<Longrightarrow> (\<And>a. a \<in> set xs \<Longrightarrow> h' a = h a) \<Longrightarrow> all_live h' xs"
  by (simp add: all_live_def)

text \<open>Releasing the parts of a block and then the block.\<close>

lemma free_after:
  assumes "all_live h (cell_list p)" "set (cell_list p) \<inter> set ys = {}"
  shows "free p (without ys h) = Inr (without (ys @ cell_list p) h)"
proof -
  have "all_live (without ys h) (cell_list p)" using assms by (simp add: all_live_without)
  then show ?thesis by (simp add: free_live without_append)
qed

lemma block_at_Some: "h a = Some b \<Longrightarrow> block_at h (Some a) = Inr b"
  by (simp add: block_at_def)

definition own_plain :: "rheap \<Rightarrow> nat \<Rightarrow> nat list \<Rightarrow> bool" where
  "own_plain h p xs \<longleftrightarrow> h p \<noteq> None \<and> xs = [p]"

definition own_re_data :: "rheap \<Rightarrow> nat option \<Rightarrow> nat list \<Rightarrow> bool" where
  "own_re_data h q ys \<longleftrightarrow>
     (\<exists>a pattern. q = Some a \<and> h a = Some (Re_data_block pattern) \<and> ys = a # cell_list pattern \<and>
        all_live h (cell_list pattern))"

definition own_breakpoint :: "rheap \<Rightarrow> nat \<Rightarrow> nat list \<Rightarrow> bool" where
  "own_breakpoint h p xs \<longleftrightarrow>
     (\<exists>d data description ys. h p = Some (Breakpoint_block d data description) \<and>
        (if d then own_re_data h data ys else ys = []) \<and> xs = p # ys @ cell_list description \<and>
        all_live h (cell_list description))"

definition own_filter :: "rheap \<Rightarrow> nat \<Rightarrow> nat list \<Rightarrow> bool" where
  "own_filter h p xs \<longleftrightarrow>
     (\<exists>flt. h p = Some (Filter_block flt) \<and> xs = p # cell_list flt \<and> all_live h (cell_list flt))"

definition own_autocmd :: "rheap \<Rightarrow> nat \<Rightarrow> nat list \<Rightarrow> bool" where
  "own_autocmd h p xs \<longleftrightarrow>
     (\<exists>cmd flt. h p = Some (Autocmd_block cmd flt) \<and> xs = p # cell_list cmd @ cell_list flt \<and>
        all_live h (cell_list cmd @ cell_list flt))"

lemma free_last: "h p = Some b \<Longrightarrow> p \<notin> set ys \<Longrightarrow> free (Some p) (without ys h) = Inr (without (p # ys) h)"
  by (auto simp: free_def without_def fun_eq_iff)

lemma re_data_frame: "own_re_data h q ys \<Longrightarrow> (\<And>a. a \<in> set ys \<Longrightarrow> h' a = h a) \<Longrightarrow> own_re_data h' q ys"
  by (auto simp: own_re_data_def all_live_def)

lemma re_data_releases:
  assumes "own_re_data h q ys" "distinct ys"
  shows "breakpoint_re_data_free q h = Inr (without ys h)"
  using assms by (auto simp: own_re_data_def breakpoint_re_data_free_def block_at_Some free_live free_last)

interpretation plain: owner own_plain "\<lambda>p. free (Some p)"
  by unfold_locales (auto simp: own_plain_def free_live)

interpretation breakpoints: owner own_breakpoint free_breakpoint
proof
  fix h h' :: rheap and p xs
  assume "own_breakpoint h p xs"
  then obtain d data description ys where p: "h p = Some (Breakpoint_block d data description)"
    "if d then own_re_data h data ys else ys = []" "xs = p # ys @ cell_list description"
    "all_live h (cell_list description)"
    by (auto simp: own_breakpoint_def)
  show "own_breakpoint h' p xs" if "\<And>a. a \<in> set xs \<Longrightarrow> h' a = h a"
  proof -
    have "if d then own_re_data h' data ys else ys = []"
      using p(2,3) that re_data_frame [of h data ys h'] by auto
    then show ?thesis unfolding own_breakpoint_def
      using p that all_live_frame [OF p(4), of h']
      by (intro exI [of _ d] exI [of _ data] exI [of _ description] exI [of _ ys]) auto
  qed
  assume dist: "distinct xs"
  have "(if d then breakpoint_re_data_free data h else Inr h) = Inr (without ys h)"
    using p(2,3) re_data_releases [of h data ys] dist by auto
  moreover have "free description (without ys h) = Inr (without (ys @ cell_list description) h)"
    using p dist by (intro free_after) auto
  ultimately show "free_breakpoint p h = Inr (without xs h)"
    using dist p(1,3) by (simp add: free_breakpoint_def block_at_Some free_last)
qed

interpretation filters: owner own_filter free_filter
proof
  fix h h' :: rheap and p xs
  assume own: "own_filter h p xs"
  show "(\<And>a. a \<in> set xs \<Longrightarrow> h' a = h a) \<Longrightarrow> own_filter h' p xs"
    using own by (auto simp: own_filter_def all_live_def)
  show "distinct xs \<Longrightarrow> free_filter p h = Inr (without xs h)"
    using own by (auto simp: own_filter_def free_filter_def block_at_Some free_live free_last)
qed

interpretation autocmds: owner own_autocmd free_autocmd
proof
  fix h h' :: rheap and p xs
  assume own: "own_autocmd h p xs"
  show "(\<And>a. a \<in> set xs \<Longrightarrow> h' a = h a) \<Longrightarrow> own_autocmd h' p xs"
    using own by (auto simp: own_autocmd_def all_live_def)
  show "distinct xs \<Longrightarrow> free_autocmd p h = Inr (without xs h)"
    using own
    by (auto simp: own_autocmd_def free_autocmd_def block_at_Some free_live free_after free_last Int_commute
        intro!: without_cong)
qed

section \<open>Information about objects\<close>

text \<open>The blocks of a surface: its committed state may have one of its own, and so on.\<close>

inductive own_surface :: "rheap \<Rightarrow> nat option \<Rightarrow> nat list \<Rightarrow> bool" where
  no_surface: "own_surface h None []"
| a_surface: "h a = Some (Surface_block c) \<Longrightarrow> own_surface h c xs \<Longrightarrow> own_surface h (Some a) (a # xs)"

lemma own_surface_frame:
  "own_surface h q xs \<Longrightarrow> (\<And>a. a \<in> set xs \<Longrightarrow> h' a = h a) \<Longrightarrow> own_surface h' q xs"
  by (induction rule: own_surface.induct) (auto intro: own_surface.intros)

lemma surface_rec_releases:
  "own_surface h q xs \<Longrightarrow> distinct xs \<Longrightarrow> surface_rec q h = Some (Inr (without xs h))"
proof (induction rule: own_surface.induct)
  case (no_surface h)
  show ?case by (subst surface_rec.simps) simp
next
  case (a_surface h a c xs)
  then show ?case by (subst surface_rec.simps) (simp add: block_at_Some free_last)
qed

fun own_by :: "destructor \<Rightarrow> rheap \<Rightarrow> nat option \<Rightarrow> nat list \<Rightarrow> bool" where
  "own_by No_destroy h q ys \<longleftrightarrow> ys = []"
| "own_by Plain_free h q ys \<longleftrightarrow> ys = cell_list q \<and> all_live h ys"
| "own_by Destroy_wl_surface h q ys \<longleftrightarrow> own_surface h q ys"
| "own_by Destroy_xdg_surface h q ys \<longleftrightarrow>
     (\<exists>a title. q = Some a \<and> h a = Some (Xdg_surface_block title) \<and> ys = a # cell_list title \<and> all_live h ys)"
| "own_by Free_seat h q ys \<longleftrightarrow>
     (\<exists>a name. q = Some a \<and> h a = Some (Seat_block name) \<and> ys = a # cell_list name \<and> all_live h ys)"

lemma own_by_frame: "own_by d h q ys \<Longrightarrow> (\<And>a. a \<in> set ys \<Longrightarrow> h' a = h a) \<Longrightarrow> own_by d h' q ys"
  by (cases d) (auto simp: all_live_def intro: own_surface_frame)

lemma destructor_releases: "own_by d h q ys \<Longrightarrow> distinct ys \<Longrightarrow> run_destructor d q h = Inr (without ys h)"
  by (cases d) (auto simp: run_destructor_def free_live destroy_wl_surface_info_def surface_rec_releases
      destroy_xdg_surface_info_def free_seat_def block_at_Some free_last)

definition own_object_info :: "rheap \<Rightarrow> nat \<Rightarrow> nat list \<Rightarrow> bool" where
  "own_object_info h p xs \<longleftrightarrow>
     (\<exists>d q ys. h p = Some (Object_info_block d q) \<and> xs = p # ys \<and> own_by d h q ys)"

interpretation infos: owner own_object_info free_object_info
proof
  fix h h' :: rheap and p xs
  assume own: "own_object_info h p xs"
  show "(\<And>a. a \<in> set xs \<Longrightarrow> h' a = h a) \<Longrightarrow> own_object_info h' p xs"
    using own own_by_frame [where h = h and h' = h'] by (fastforce simp: own_object_info_def)
  show "distinct xs \<Longrightarrow> free_object_info p h = Inr (without xs h)"
    using own by (auto simp: own_object_info_def free_object_info_def block_at_Some destructor_releases free_last)
qed

definition own_table :: "rheap \<Rightarrow> nat ids_map \<Rightarrow> nat option \<Rightarrow> nat list \<Rightarrow> bool" where
  "own_table h m cells xs \<longleftrightarrow>
     (\<exists>xss. list_all2 (own_object_info h) (concat (map cell_list (table_entries m))) xss \<and> xs = concat xss) \<and>
     (table_entries m = [] \<or> cells \<noteq> None)"

lemma info_loop_releases:
  assumes "own_table h m cells xs" "distinct xs" "h holder \<noteq> None" "all_live h (cell_list cells)"
    "holder \<notin> set xs" "set (cell_list cells) \<inter> set xs = {}"
  shows "free_info_loop holder cells (table_entries m) h = Inr (without xs h)"
proof -
  obtain xss where xss: "list_all2 (own_object_info h) (concat (map cell_list (table_entries m))) xss" "xs = concat xss"
    using assms(1) by (auto simp: own_table_def)
  show ?thesis
  proof (cases cells)
    case None
    then have "table_entries m = []" using assms(1) by (simp add: own_table_def)
    then show ?thesis using xss by simp
  next
    case (Some c)
    show ?thesis unfolding xss(2)
      using assms(2-6) xss Some
      by (intro infos.table_loop_releases [where holder = holder and cells = c and loop = "free_info_loop holder cells"])
         (auto split: list.splits)
  qed
qed

lemma own_table_frame: "own_table h m cells xs \<Longrightarrow> (\<And>a. a \<in> set xs \<Longrightarrow> h' a = h a) \<Longrightarrow> own_table h' m cells xs"
  using infos.owned_list_frame [where h = h and h' = h'] unfolding own_table_def by blast

fun own_objects_info :: "rheap \<Rightarrow> nat option \<Rightarrow> nat list \<Rightarrow> bool" where
  "own_objects_info h None xs \<longleftrightarrow> xs = []"
| "own_objects_info h (Some a) xs \<longleftrightarrow>
     (\<exists>client ccells server scells ys zs. h a = Some (Objects_info_block client ccells server scells) \<and>
        all_live h (cell_list ccells @ cell_list scells) \<and> own_table h client ccells ys \<and>
        own_table h server scells zs \<and> xs = ys @ zs @ cell_list ccells @ cell_list scells @ [a])"

lemma objects_info_releases:
  assumes "own_objects_info h oi xs" "distinct xs"
  shows "destroy_objects_info oi h = Inr (without xs h)"
proof (cases oi)
  case None
  then show ?thesis using assms by (simp add: destroy_objects_info_def)
next
  case (Some a)
  with assms(1) obtain client cc server sc ys zs where
    a: "h a = Some (Objects_info_block client cc server sc)" "all_live h (cell_list cc @ cell_list sc)"
    "own_table h client cc ys" "own_table h server sc zs" "xs = ys @ zs @ cell_list cc @ cell_list sc @ [a]"
    by auto
  have 1: "free_info_loop a cc (table_entries client) h = Inr (without ys h)"
    using a assms(2) by (intro info_loop_releases) auto
  have "own_table (without ys h) server sc zs"
    using a(4) by (rule own_table_frame) (use assms(2) a(5) in \<open>auto simp: without_def\<close>)
  then have "free_info_loop a sc (table_entries server) (without ys h) = Inr (without zs (without ys h))"
    by (rule info_loop_releases) (use a assms(2) in \<open>auto simp: all_live_def without_def\<close>)
  then have 2: "free_info_loop a sc (table_entries server) (without ys h) = Inr (without (ys @ zs) h)"
    by (simp add: without_append)
  have 3: "free cc (without (ys @ zs) h) = Inr (without ((ys @ zs) @ cell_list cc) h)"
    using a assms(2) by (intro free_after) auto
  have 4: "free sc (without ((ys @ zs) @ cell_list cc) h) = Inr (without (((ys @ zs) @ cell_list cc) @ cell_list sc) h)"
    using a assms(2) by (intro free_after) auto
  have 5: "free (Some a) (without (((ys @ zs) @ cell_list cc) @ cell_list sc) h) = Inr (without xs h)"
    using a(1) free_last [of h a _ "((ys @ zs) @ cell_list cc) @ cell_list sc"] a(5) assms(2)
    by (auto intro!: without_cong)
  show ?thesis using Some 1 2 3 4 5
    by (simp add: destroy_objects_info_def block_at_Some [of h a] a(1) wldbg_ids_map_release_def wl_array_release_def)
qed

section \<open>Resolved objects and interactive mode\<close>

fun own_resolved :: "rheap \<Rightarrow> nat option \<Rightarrow> nat list \<Rightarrow> bool" where
  "own_resolved h None xs \<longleftrightarrow> xs = []"
| "own_resolved h (Some a) xs \<longleftrightarrow>
     (\<exists>client server more. h a = Some (Resolved_objects_block client server more) \<and>
        all_live h (cell_list client @ cell_list server @ more) \<and>
        xs = cell_list client @ cell_list server @ more @ [a])"

lemma free_plain_list:
  assumes "all_live h ps" "distinct ps" "set ps \<inter> set ys = {}"
  shows "free_each (\<lambda>p. free (Some p)) ps (without ys h) = Inr (without (ys @ ps) h)"
proof -
  have "list_all2 (own_plain (without ys h)) ps (map (\<lambda>p. [p]) ps)"
    using assms by (auto simp: list_all2_map2 own_plain_def all_live_def without_def intro!: list_all2_same [THEN iffD2])
  from plain.free_each_releases [OF this] assms(2) show ?thesis by (simp add: without_append concat_map_singleton)
qed

lemma resolved_releases:
  assumes "own_resolved h ro xs" "distinct xs"
  shows "destroy_resolved_objects ro h = Inr (without xs h)"
proof (cases ro)
  case None
  then show ?thesis using assms by (simp add: destroy_resolved_objects_def)
next
  case (Some a)
  with assms(1) obtain client server more where
    a: "h a = Some (Resolved_objects_block client server more)"
    "all_live h (cell_list client @ cell_list server @ more)" "xs = cell_list client @ cell_list server @ more @ [a]"
    by auto
  have 1: "free client h = Inr (without (cell_list client) h)" using a by (simp add: free_live)
  have 2: "free server (without (cell_list client) h) = Inr (without (cell_list client @ cell_list server) h)"
    using a assms(2) by (intro free_after) auto
  have 3: "free_each (\<lambda>p. free (Some p)) more (without (cell_list client @ cell_list server) h) =
      Inr (without ((cell_list client @ cell_list server) @ more) h)"
    using a assms(2) by (intro free_plain_list) auto
  have 4: "free (Some a) (without ((cell_list client @ cell_list server) @ more) h) = Inr (without xs h)"
    using a(1) free_last [of h a _ "(cell_list client @ cell_list server) @ more"] a(3) assms(2)
    by (auto intro!: without_cong)
  show ?thesis using Some 1 2 3 4
    by (simp add: destroy_resolved_objects_def block_at_Some [of h a] a(1) wl_array_release_def)
qed

definition own_wldbgi :: "rheap \<Rightarrow> nat \<Rightarrow> nat list \<Rightarrow> bool" where
  "own_wldbgi h a xs \<longleftrightarrow>
     (\<exists>path last bs fs cs bss fss css. h a = Some (Wldbgi_block path last bs fs cs) \<and>
        all_live h (cell_list path @ cell_list last) \<and> list_all2 (own_breakpoint h) bs bss \<and>
        list_all2 (own_filter h) fs fss \<and> list_all2 (own_autocmd h) cs css \<and>
        xs = cell_list path @ cell_list last @ concat bss @ concat fss @ concat css @ [a])"

lemma wldbgi_releases:
  assumes "own_wldbgi h a xs" "distinct xs"
  shows "wldbgi_destory_heap a h = Inr (without xs h)"
proof -
  from assms(1) obtain path last bs fs cs bss fss css where
    a: "h a = Some (Wldbgi_block path last bs fs cs)" "all_live h (cell_list path @ cell_list last)"
    "list_all2 (own_breakpoint h) bs bss" "list_all2 (own_filter h) fs fss" "list_all2 (own_autocmd h) cs css"
    "xs = cell_list path @ cell_list last @ concat bss @ concat fss @ concat css @ [a]"
    by (auto simp: own_wldbgi_def)
  let ?y1 = "cell_list path @ cell_list last"
  let ?y2 = "?y1 @ concat bss" let ?y3 = "?y2 @ concat fss" let ?y4 = "?y3 @ concat css"
  have dist: "distinct ?y4" "a \<notin> set ?y4" using assms(2) unfolding a(6) by auto
  have 1: "free path h = Inr (without (cell_list path) h)" using a(2) by (simp add: free_live)
  have 2: "free last (without (cell_list path) h) = Inr (without ?y1 h)"
    using a(2) dist by (intro free_after) auto
  have 3: "free_each free_breakpoint bs (without ?y1 h) = Inr (without ?y2 h)"
    using a(3) dist(1) by (intro breakpoints.free_each_after) auto
  have 4: "free_each free_filter fs (without ?y2 h) = Inr (without ?y3 h)"
    using a(4) dist(1) by (intro filters.free_each_after) auto
  have 5: "free_each free_autocmd cs (without ?y3 h) = Inr (without ?y4 h)"
    using a(5) dist(1) by (intro autocmds.free_each_after) auto
  have "without (a # ?y4) h = without xs h" by (rule without_cong) (auto simp: a(6))
  then have 6: "free (Some a) (without ?y4 h) = Inr (without xs h)"
    using free_last [of h a _ ?y4] a(1) dist(2) by simp
  show ?thesis using 1 2 3 4 5 6
    by (simp add: wldbgi_destory_heap_def block_at_Some [of h a] a(1))
qed

lemma own_objects_info_frame:
  assumes "own_objects_info h oi xs" "\<And>a. a \<in> set xs \<Longrightarrow> h' a = h a"
  shows "own_objects_info h' oi xs"
proof (cases oi)
  case (Some a)
  with assms(1) obtain client cc server sc ys zs where
    a: "h a = Some (Objects_info_block client cc server sc)" "all_live h (cell_list cc @ cell_list sc)"
    "own_table h client cc ys" "own_table h server sc zs" "xs = ys @ zs @ cell_list cc @ cell_list sc @ [a]"
    by auto
  have "own_table h' client cc ys" "own_table h' server sc zs"
    by (rule own_table_frame [OF a(3)] own_table_frame [OF a(4)]; use assms(2) a(5) in simp)+
  moreover have "h' a = Some (Objects_info_block client cc server sc)" "all_live h' (cell_list cc @ cell_list sc)"
    using a assms(2) by (auto simp: all_live_def)
  ultimately show ?thesis using Some a(5) by auto
qed (use assms in simp)

lemma own_resolved_frame:
  assumes "own_resolved h ro xs" "\<And>a. a \<in> set xs \<Longrightarrow> h' a = h a"
  shows "own_resolved h' ro xs"
  using assms by (cases ro) (auto simp: all_live_def)

section \<open>Argument vectors\<close>

definition with_raw :: "nat list \<Rightarrow> rheap \<Rightarrow> rheap" where
  "with_raw ss h = (\<lambda>a. if a \<in> set ss then Some Raw else h a)"

lemma with_raw_simps [simp]: "with_raw [] h = h" "with_raw (s # ss) h = with_raw ss (h(s \<mapsto> Raw))"
  by (auto simp: with_raw_def fun_eq_iff)

lemma free_same_null: "free_same_loop k None h = Inr h"
  by (induction k) (simp_all add: free_def)

lemma with_raw_update: "a \<notin> set ss \<Longrightarrow> with_raw ss (h(a := b)) = (with_raw ss h)(a := b)"
  by (auto simp: with_raw_def fun_eq_iff)

lemma copy_loop_fails:
  assumes "length cells + length ss \<le> argc" "tmp \<notin> set ss" "h tmp \<noteq> None"
  shows "copy_argument_loop tmp argc (map Some ss @ None # rest) cells h = Inr (-1, (with_raw ss h)(tmp := None))"
  using assms
proof (induction ss arbitrary: cells h)
  case Nil
  then show ?case by (auto simp: padded_def nth_append free_same_null free_def fun_eq_iff)
next
  case (Cons s ss)
  let ?h = "h(s \<mapsto> Raw, tmp \<mapsto> Pointer_array (padded argc (cells @ [Some s])))"
  have "copy_argument_loop tmp argc (map Some ss @ None # rest) (cells @ [Some s]) ?h =
      Inr (-1, (with_raw ss ?h)(tmp := None))"
    using Cons.prems by (intro Cons.IH) simp_all
  then show ?case using Cons.prems by (auto simp: with_raw_update fun_eq_iff)
qed

lemma copy_loop_copies:
  assumes "length cells + length ss = argc" "tmp \<notin> set ss" "h tmp = Some (Pointer_array (padded argc cells))"
  shows "copy_argument_loop tmp argc (map Some ss) cells h =
    Inr (int argc, (with_raw ss h)(tmp \<mapsto> Pointer_array (cells @ map Some ss @ [None])))"
  using assms
proof (induction ss arbitrary: cells h)
  case Nil
  then show ?case by (simp add: padded_def nth_append fun_upd_idem)
next
  case (Cons s ss)
  let ?h = "h(s \<mapsto> Raw, tmp \<mapsto> Pointer_array (padded argc (cells @ [Some s])))"
  have "copy_argument_loop tmp argc (map Some ss) (cells @ [Some s]) ?h =
      Inr (int argc, (with_raw ss ?h)(tmp \<mapsto> Pointer_array ((cells @ [Some s]) @ map Some ss @ [None])))"
    using Cons.prems by (intro Cons.IH) simp_all
  then show ?case using Cons.prems by (auto simp: with_raw_update fun_eq_iff)
qed

lemma free_argument_loop_all:
  assumes "all_live h ss" "distinct (a # ss)" "h a \<noteq> None"
  shows "free_argument_loop a (map Some ss @ [None]) h = Inr (without ss h)"
  using assms
proof (induction ss arbitrary: h)
  case (Cons s ss)
  have eq: "h(s := None) = without [s] h" by (auto simp: without_def)
  have "free_argument_loop a (map Some ss @ [None]) (h(s := None)) = Inr (without ss (h(s := None)))"
    using Cons.prems by (intro Cons.IH) (auto simp: all_live_def)
  then show ?case using Cons.prems by (auto simp: free_def block_at_def eq without_append without_other)
qed simp

section \<open>Properties\<close>

text \<open>C12: The end of the program releases every block exactly once.  If interactive mode, the resolved
  objects of a connection and the information about its objects own the blocks they point to, and no
  block is owned twice, then destroying them in the order of the code succeeds and what is left of the
  heap is exactly what none of them owned: there is no double release, no release of a part after its
  whole, and no leak.\<close>

theorem teardown_releases_owned:
  assumes "own_wldbgi h a xs" "own_resolved h ro ys" "own_objects_info h oi zs" "distinct (xs @ ys @ zs)"
  shows "rbind (wldbgi_destory_heap a h) (\<lambda>h. rbind (destroy_resolved_objects ro h) (destroy_objects_info oi)) =
    Inr (\<lambda>p. if p \<in> set (xs @ ys @ zs) then None else h p)"
proof -
  have "own_resolved (without xs h) ro ys"
    by (rule own_resolved_frame [OF assms(2)]) (use assms(4) in \<open>auto simp: without_def\<close>)
  then have "destroy_resolved_objects ro (without xs h) = Inr (without (xs @ ys) h)"
    using assms(4) by (simp add: resolved_releases without_append)
  moreover have "own_objects_info (without (xs @ ys) h) oi zs"
    by (rule own_objects_info_frame [OF assms(3)]) (use assms(4) in \<open>auto simp: without_def\<close>)
  then have "destroy_objects_info oi (without (xs @ ys) h) = Inr (without ((xs @ ys) @ zs) h)"
    using assms(4) by (simp add: objects_info_releases without_append del: append_assoc)
  ultimately show ?thesis
    using wldbgi_releases [OF assms(1)] assms(4) by (simp add: without_def)
qed

text \<open>C28: Copying an argument vector and releasing the copy leaves the heap as it was.  When memory runs
  out at some argument, the call fails but all copies made before stay allocated: its loop releases the
  pointer that is null again and again instead of them.\<close>

theorem copied_arguments_released:
  assumes "distinct (tmp # ss)" "\<forall>p\<in>set (tmp # ss). h p = None"
  shows "(\<exists>h'. copy_arguments_heap (Some tmp) (map Some ss) (length ss) h = Inr (int (length ss), Some tmp, h') \<and>
      free_arguments (Some tmp) h' = Inr h) \<and>
    (length ss \<le> argc \<longrightarrow> copy_arguments_heap (Some tmp) (map Some ss @ None # rest) argc h =
      Inr (-1, None, \<lambda>p. if p \<in> set ss then Some Raw else h p))"
proof (intro conjI impI)
  let ?h0 = "h(tmp \<mapsto> Pointer_array (padded (length ss) []))"
  let ?h' = "(with_raw ss ?h0)(tmp \<mapsto> Pointer_array (map Some ss @ [None]))"
  have copy: "copy_arguments_heap (Some tmp) (map Some ss) (length ss) h = Inr (int (length ss), Some tmp, ?h')"
    using copy_loop_copies [of "[]" ss "length ss" tmp ?h0] assms(1) by (simp add: copy_arguments_heap_def)
  have "free_argument_loop tmp (map Some ss @ [None]) ?h' = Inr (without ss ?h')"
    using assms(1) by (intro free_argument_loop_all) (auto simp: all_live_def with_raw_def)
  moreover have "free (Some tmp) (without ss ?h') = Inr (without (tmp # ss) ?h')"
    using assms(1) by (intro free_last) auto
  moreover have "without (tmp # ss) ?h' = h" using assms(2) by (auto simp: without_def with_raw_def fun_eq_iff)
  ultimately have "free_arguments (Some tmp) ?h' = Inr h" by (simp add: free_arguments_def block_at_def)
  with copy show "\<exists>h'. copy_arguments_heap (Some tmp) (map Some ss) (length ss) h = Inr (int (length ss), Some tmp, h') \<and>
      free_arguments (Some tmp) h' = Inr h" by blast
next
  assume "length ss \<le> argc"
  let ?h0 = "h(tmp \<mapsto> Pointer_array (padded argc []))"
  have "copy_argument_loop tmp argc (map Some ss @ None # rest) [] ?h0 = Inr (-1, (with_raw ss ?h0)(tmp := None))"
    using \<open>length ss \<le> argc\<close> assms(1) by (intro copy_loop_fails) auto
  moreover have "(with_raw ss ?h0)(tmp := None) = (\<lambda>p. if p \<in> set ss then Some Raw else h p)"
    using assms by (auto simp: with_raw_def fun_eq_iff)
  ultimately show "copy_arguments_heap (Some tmp) (map Some ss @ None # rest) argc h =
      Inr (-1, None, \<lambda>p. if p \<in> set ss then Some Raw else h p)"
    by (simp add: copy_arguments_heap_def)
qed

theorem copied_arguments_released_witness:
  "copy_arguments_heap (Some 1) [Some 2, Some 3, None] 3 (\<lambda>_. None) =
    Inr (-1, None, \<lambda>p. if p = 2 \<or> p = 3 then Some Raw else None)"
  using copied_arguments_released [of 1 "[2, 3]" "\<lambda>_. None" 3 "[]"] by simp

text \<open>A connection with one surface, whose committed state is a second block, and a pattern breakpoint.\<close>

theorem teardown_releases_owned_witness:
  "rbind (wldbgi_destory_heap 1 (map_of
      [(1, Wldbgi_block None (Some 2) [3] [] []), (2, Raw), (3, Breakpoint_block True (Some 4) None),
       (4, Re_data_block (Some 5)), (5, Raw), (6, Resolved_objects_block (Some 7) None [8]), (7, Raw), (8, Raw),
       (9, Objects_info_block \<lparr>map_count = 1, map_data = \<lparr>arr_size = 8, arr_alloc = 16, arr_data = [Some 11, None]\<rparr>\<rparr>
             (Some 10) wldbg_ids_map_init None), (10, Raw),
       (11, Object_info_block Destroy_wl_surface (Some 12)), (12, Surface_block (Some 13)), (13, Surface_block None)]))
     (\<lambda>h. rbind (destroy_resolved_objects (Some 6) h) (destroy_objects_info (Some 9))) = Inr (\<lambda>_. None)"
  (is "rbind (wldbgi_destory_heap 1 ?h) _ = _")
proof -
  let ?m = "\<lparr>map_count = 1, map_data = \<lparr>arr_size = 8, arr_alloc = 16, arr_data = [Some 11, None]\<rparr>\<rparr> :: nat ids_map"
  have 1: "own_wldbgi ?h 1 [2, 3, 4, 5, 1]"
    unfolding own_wldbgi_def
    by (rule exI [of _ None], rule exI [of _ "Some 2"], rule exI [of _ "[3]"], rule exI [of _ "[]"],
        rule exI [of _ "[]"], rule exI [of _ "[[3, 4, 5]]"]) (auto simp: own_breakpoint_def own_re_data_def)
  have 2: "own_resolved ?h (Some 6) [7, 8, 6]" by simp
  have "own_surface ?h (Some 13) [13]" by (rule a_surface [OF _ no_surface]) simp
  then have s: "own_surface ?h (Some 12) [12, 13]" by (rule a_surface [rotated]) simp
  have "own_object_info ?h 11 [11, 12, 13]" using s by (simp add: own_object_info_def)
  moreover have "table_entries ?m = [Some 11]" by (simp add: table_entries_def wldbg_ids_map_get_def)
  ultimately have t: "own_table ?h ?m (Some 10) [11, 12, 13]"
    by (auto simp: own_table_def intro!: exI [of _ "[[11, 12, 13]]"])
  have e: "own_table ?h wldbg_ids_map_init None []"
    by (simp add: own_table_def table_entries_def wldbg_ids_map_init_def)
  have 3: "own_objects_info ?h (Some 9) [11, 12, 13, 10, 9]" using t e by force
  show ?thesis using teardown_releases_owned [OF 1 2 3] by (auto simp: fun_eq_iff)
qed

end
