(* ===== verification/Example_Pass.thy ===== *)
theory Example_Pass
  imports Own_Passes
begin

text \<open>
  The pass that comes as an example for writers of passes, \<^verbatim>\<open>passes/example.c\<close>: it counts messages and
  bytes and prints a line for each.  The counters are \<open>unsigned int\<close>, the size of a message a
  \<open>size_t\<close>.  \<open>user_data\<close> is \<open>None\<close> when it is null.
\<close>

record example_data =
  incoming_number :: u32
  outcoming_number :: u32
  in_trasfered :: u32
  out_trasfered :: u32

definition count_line :: "string \<Rightarrow> u32 \<Rightarrow> u64 \<Rightarrow> string" where
  "count_line way n sz =
     ''Got '' @ way @ '' message: '' @ show_nat (unat n) @ '', size: '' @ show_nat (unat sz) @ '' bytes'' @ [CHR 0x0A]"

definition example_in :: "example_data option \<Rightarrow> u64 \<Rightarrow> (example_data option \<times> string \<times> pass_verdict) res" where
  "example_in user_data sz =
     (case user_data of
        None \<Rightarrow> Inl NullDeref
      | Some d \<Rightarrow>
          let d = d\<lparr>incoming_number := incoming_number d + 1\<rparr>;
              d = d\<lparr>in_trasfered := in_trasfered d + ucast sz\<rparr> in
          Inr (Some d, count_line ''incoming'' (incoming_number d) sz, PASS_NEXT))"

definition example_out :: "example_data option \<Rightarrow> u64 \<Rightarrow> (example_data option \<times> string \<times> pass_verdict) res" where
  "example_out user_data sz =
     (case user_data of
        None \<Rightarrow> Inl NullDeref
      | Some d \<Rightarrow>
          let d = d\<lparr>outcoming_number := outcoming_number d + 1\<rparr>;
              d = d\<lparr>out_trasfered := out_trasfered d + ucast sz\<rparr> in
          Inr (Some d, count_line ''outcoming'' (outcoming_number d) sz, PASS_NEXT))"

definition example_help :: string where
  "example_help = ''This is an example pass!'' @ [CHR 0x0A]"

definition zero_example :: example_data where
  "zero_example = \<lparr>incoming_number = 0, outcoming_number = 0, in_trasfered = 0, out_trasfered = 0\<rparr>"

text \<open>The result, the new \<open>pass->user_data\<close>, and what is printed.\<close>

definition argument_line :: "nat \<times> string \<Rightarrow> string" where
  "argument_line = (\<lambda>(i, a). [CHR 0x09] @ ''argument['' @ show_nat i @ '']: '' @ a @ [CHR 0x0A])"

definition example_init :: "bool \<Rightarrow> string list \<Rightarrow> int \<times> example_data option \<times> string" where
  "example_init calloc_ok argv =
     (if \<not> calloc_ok then (-1, None, [])
      else (0, Some zero_example,
        ''-- Initializing example pass --'' @ [CHR 0x0A, CHR 0x0A] @
        concat (map argument_line (enumerate 0 argv)) @ [CHR 0x0A, CHR 0x0A]))"

definition example_destroy :: "example_data option \<Rightarrow> string res" where
  "example_destroy user_data =
     (case user_data of
        None \<Rightarrow> Inl NullDeref
      | Some d \<Rightarrow> Inr
          ('' -- Destroying example pass --'' @ [CHR 0x0A, CHR 0x0A] @
           ''Totally trasfered '' @ show_nat (unat (out_trasfered d)) @ '' bytes from client to server'' @ [CHR 0x0A] @
           ''and '' @ show_nat (unat (in_trasfered d)) @ '' bytes from server to client'' @ [CHR 0x0A]))"

section \<open>In the list of passes\<close>

record example_state =
  xs_data :: "example_data option"
  xs_text :: string

definition call_example ::
    "(example_data option \<Rightarrow> u64 \<Rightarrow> (example_data option \<times> string \<times> pass_verdict) res) \<Rightarrow>
     example_state wldbg \<Rightarrow> wmessage \<Rightarrow> (example_state wldbg \<times> wmessage \<times> pass_verdict) res" where
  "call_example f w m =
     rbind (f (xs_data (w_state w)) (msg_size m)) (\<lambda>(d, t, v).
       Inr (w\<lparr>w_state := \<lparr>xs_data = d, xs_text = xs_text (w_state w) @ t\<rparr>\<rparr>, m, v))"

definition example_pass :: "example_state pass" where
  "example_pass =
     \<lparr>pass_name = ''example'', server_pass = call_example example_in, client_pass = call_example example_out\<rparr>"

interpretation example: transparent_passes "[example_pass]"
proof (rule transparent_if_each)
  fix p :: "example_state pass" and w m w' m' v
  assume "p \<in> set [example_pass]" "call_pass p w m = Inr (w', m', v)"
  then show "m' = m \<and> w_exit w' = w_exit w \<and> w_error w' = w_error w"
    by (auto simp: example_pass_def call_pass_def call_example_def rbind_eq_Inr split: side.splits)
qed

text \<open>What a side has sent: how many messages and how many bytes.\<close>

definition counted :: "side \<Rightarrow> example_data \<Rightarrow> u32 \<times> u32" where
  "counted sd d =
     (case sd of SERVER \<Rightarrow> (incoming_number d, in_trasfered d) | CLIENT \<Rightarrow> (outcoming_number d, out_trasfered d))"

definition bump :: "side \<Rightarrow> u64 \<Rightarrow> example_data \<Rightarrow> example_data" where
  "bump sd sz d =
     (case sd of
        SERVER \<Rightarrow> d\<lparr>incoming_number := incoming_number d + 1, in_trasfered := in_trasfered d + ucast sz\<rparr>
      | CLIENT \<Rightarrow> d\<lparr>outcoming_number := outcoming_number d + 1, out_trasfered := out_trasfered d + ucast sz\<rparr>)"

lemma counted_bump:
  "counted sd (bump sd sz d) = (fst (counted sd d) + 1, snd (counted sd d) + ucast sz)"
  "counted (other_side sd) (bump sd sz d) = counted (other_side sd) d"
  by (cases sd; simp add: counted_def bump_def other_side_def)+

lemma example_one:
  assumes "xs_data (w_state w) = Some d"
  shows "\<exists>w'. run_passes [example_pass] w m = Inr (w', m) \<and> xs_data (w_state w') = Some (bump (msg_from m) (msg_size m) d)"
  using assms
  by (cases "msg_from m")
    (simp_all add: call_pass_def example_pass_def call_example_def example_in_def example_out_def Let_def bump_def)

lemma example_run:
  assumes "xs_data (w_state w) = Some d"
  shows "\<exists>w' d'. run_over [example_pass] w m ns = Inr w' \<and> xs_data (w_state w') = Some d' \<and>
    counted (msg_from m) d' = (fst (counted (msg_from m) d) + of_nat (length ns), snd (counted (msg_from m) d) + of_nat (sum_list ns)) \<and>
    counted (other_side (msg_from m)) d' = counted (other_side (msg_from m)) d"
  using assms
proof (induction ns arbitrary: w m d)
  case (Cons n ns)
  let ?m = "m\<lparr>msg_size := of_nat n\<rparr>" and ?d = "bump (msg_from m) (of_nat n) d"
  obtain w1 where w1: "run_passes [example_pass] w ?m = Inr (w1, ?m)" "xs_data (w_state w1) = Some ?d"
    using example_one [OF Cons.prems(1), of ?m] by auto
  have n: "(ucast (of_nat n :: u64) :: u32) = of_nat n"
    by (simp add: unsigned_of_nat word_of_nat_eq_iff)
  from Cons.IH [OF w1(2), of "m\<lparr>msg_off := msg_off m + n\<rparr>"] show ?case
    using w1(1) n by (auto simp: counted_bump algebra_simps)
qed simp

section \<open>Properties\<close>

text \<open>C29: The example pass counts what is forwarded.  On a buffer of framed messages, unless a \<open>sendmsg\<close>
  fails, all bytes arrive on the other side, and the counters of the side they come from have grown by
  the number of messages and by the number of bytes, in 32 bits; the other counters stay.\<close>

theorem example_counts_forwarded:
  assumes "list_all well_framed xs" "xs \<noteq> []" "xs_data (w_state w) = Some d"
    and "conn_wf (end_of sd wc)" "conn_wf (end_of (other_side sd) wc)"
    and "contents (fds_in (end_of sd wc)) = []" "contents (conn_in (end_of sd wc)) = concat xs"
    and "contents (conn_out (end_of (other_side sd) wc)) = []"
    and "length buffer = 4096" "\<not> w_pass_whole_buffer w" "\<not> w_exit w" "\<not> w_error w"
    and "length (concat xs) \<le> accepted rs" "Send_error \<notin> set rs"
  shows "\<exists>w' wc' rs' d'. process_data [example_pass] w rs buffer wc sd (length (concat xs)) =
      Some (Inr (int (length xs), w', wc', rs')) \<and>
    data_sent (end_of (other_side sd) wc') = data_sent (end_of (other_side sd) wc) @ concat xs \<and>
    xs_data (w_state w') = Some d' \<and>
    counted sd d' = (fst (counted sd d) + of_nat (length xs), snd (counted sd d) + of_nat (length (concat xs))) \<and>
    counted (other_side sd) d' = counted (other_side sd) d"
proof -
  let ?m = "\<lparr>msg_mem = concat xs @ drop (length (concat xs)) buffer, msg_off = 0,
            msg_size = of_nat (length (concat xs)), msg_from = sd\<rparr>"
  obtain w1 d' where w1: "run_over [example_pass] w ?m (map length xs) = Inr w1" "xs_data (w_state w1) = Some d'"
    "counted sd d' = (fst (counted sd d) + of_nat (length xs), snd (counted sd d) + of_nat (length (concat xs)))"
    "counted (other_side sd) d' = counted (other_side sd) d"
    using example_run [OF assms(3), of ?m "map length xs"] by (auto simp: length_concat)
  from process_data_forwards [OF example.transparent_passes_axioms assms(1,2,4-13)] show ?thesis
    using w1 assms(14) by auto
qed

theorem example_counts_forwarded_witness:
  "\<exists>w' wc' rs'. process_data [example_pass]
      \<lparr>w_exit = False, w_error = False, w_pass_whole_buffer = False, w_state = \<lparr>xs_data = Some zero_example, xs_text = []\<rparr>\<rparr>
      (replicate 8 (Sent 1)) (replicate 4096 0) one_message_conn CLIENT 8 = Some (Inr (1, w', wc', rs')) \<and>
    data_sent (wc_server wc') = words_bytes [4, 0x80000] \<and>
    map_option outcoming_number (xs_data (w_state w')) = Some 1 \<and> map_option out_trasfered (xs_data (w_state w')) = Some 8"
proof -
  let ?w = "\<lparr>w_exit = False, w_error = False, w_pass_whole_buffer = False, w_state = \<lparr>xs_data = Some zero_example, xs_text = []\<rparr>\<rparr>"
  have flags: "xs_data (w_state ?w) = Some zero_example" "length (replicate 4096 (0 :: u8)) = 4096"
    "\<not> w_pass_whole_buffer ?w" "\<not> w_exit ?w" "\<not> w_error ?w" by simp_all
  note one = one_message_setup
  show ?thesis
    using example_counts_forwarded [OF one(1) _ flags(1) one(3-7) flags(2-5) one(9,10)] unfolding one(2,8)
    by (auto simp: end_of_def other_side_def one_message_def counted_def zero_example_def)
qed

end
