(* ===== verification/Debug.thy ===== *)
theory Debug
  imports Wldbg_Prelude
begin

text \<open>
  The debugging build: \<^verbatim>\<open>src/debug.c\<close> and the macros \<open>dbg\<close>, \<open>vdbg\<close> and \<open>ifdbg\<close> of
  \<^verbatim>\<open>src/wldbg-private.h\<close>.  Which messages are printed depends on \<open>WLDBG_DEBUG\<close>; \<open>close\<close> is replaced by
  a function that reports a failure as \<open>WLDBG_SYSCALLS_CHECK\<close> says.
\<close>

section \<open>Set-up\<close>

record debug_state =
  debug :: bool
  debug_verbose :: bool
  debug_domain :: "string option"
  abort_on_check_failure :: bool
  dbg_on_check_failure :: bool
  sys_close_loaded :: bool

definition debug_off :: debug_state where
  "debug_off = \<lparr>debug = False, debug_verbose = False, debug_domain = None, abort_on_check_failure = False,
     dbg_on_check_failure = False, sys_close_loaded = False\<rparr>"

definition init_syscalls_check :: "string option \<Rightarrow> debug_state \<Rightarrow> debug_state" where
  "init_syscalls_check env st =
     (let st = (case env of
                  None \<Rightarrow> st
                | Some v \<Rightarrow>
                    if v = ''abort'' then st\<lparr>abort_on_check_failure := True\<rparr>
                    else if v = ''trap'' then st\<lparr>dbg_on_check_failure := True\<rparr>
                    else st)
      in st\<lparr>sys_close_loaded := True\<rparr>)"

text \<open>\<open>strncmp (dbg_env + strlen (dbg_env) - 2, ".c", 2)\<close>: the pointer is in front of a text that is
  shorter than two characters.\<close>

definition names_c_file :: "string \<Rightarrow> bool res" where
  "names_c_file v =
     (if length v < 2 then Inl OutOfBounds else Inr (drop (length v - 2) v = ''.c''))"

definition debug_init :: "string option \<Rightarrow> string option \<Rightarrow> debug_state \<Rightarrow> debug_state res" where
  "debug_init dbg_env check_env st =
     rbind
       (case dbg_env of
          None \<Rightarrow> Inr st
        | Some v \<Rightarrow>
            let st = st\<lparr>debug := True\<rparr> in
            if v = ''verbose'' \<or> v = ''v'' then Inr (st\<lparr>debug_verbose := True\<rparr>)
            else
              rbind (names_c_file v) (\<lambda>b.
                Inr (if b then st\<lparr>debug_verbose := True, debug_domain := Some v\<rparr> else st)))
       (\<lambda>st. Inr (init_syscalls_check check_env st))"

section \<open>Messages\<close>

text \<open>What the macros print in the file \<open>f\<close> at the line \<open>ln\<close>.\<close>

definition dbg_prefix :: "int \<Rightarrow> string \<Rightarrow> nat \<Rightarrow> string" where
  "dbg_prefix pid f ln = ''['' @ show_int pid @ '' | '' @ f @ '': '' @ show_nat ln @ ''] ''"

definition in_domain :: "debug_state \<Rightarrow> string \<Rightarrow> bool" where
  "in_domain st f = (case debug_domain st of None \<Rightarrow> True | Some d \<Rightarrow> d = f)"

definition vdbg :: "debug_state \<Rightarrow> int \<Rightarrow> string \<Rightarrow> nat \<Rightarrow> string \<Rightarrow> string" where
  "vdbg st pid f ln msg =
     (if \<not> debug_verbose st then [] else if \<not> in_domain st f then [] else dbg_prefix pid f ln @ msg)"

definition dbg :: "debug_state \<Rightarrow> int \<Rightarrow> string \<Rightarrow> nat \<Rightarrow> string \<Rightarrow> string" where
  "dbg st pid f ln msg =
     (if \<not> debug st then [] else if \<not> in_domain st f then [] else dbg_prefix pid f ln @ msg)"

definition ifdbg :: "debug_state \<Rightarrow> bool \<Rightarrow> int \<Rightarrow> string \<Rightarrow> nat \<Rightarrow> string \<Rightarrow> string" where
  "ifdbg st cond pid f ln msg = (if \<not> debug st then [] else if cond then dbg st pid f ln msg else [])"

section \<open>Checked system calls\<close>

text \<open>A frame of the stack with what \<open>dladdr\<close> finds; its result is ignored, so when it finds nothing the
  names of the frame before are printed, and for the first frame memory that was never written.\<close>

record dl_info =
  dli_sname :: "string option"
  dli_fname :: string

fun backtrace_loop :: "(u64 \<times> dl_info option) list \<Rightarrow> dl_info option \<Rightarrow> string res" where
  "backtrace_loop [] info = Inr []"
| "backtrace_loop ((a, found) # fs) info =
     (case (case found of None \<Rightarrow> info | Some i \<Rightarrow> Some i) of
        None \<Rightarrow> Inl UninitRead
      | Some i \<Rightarrow>
          let addr = show_hex (unat a) in
          rbind (backtrace_loop fs (Some i)) (\<lambda>rest.
            Inr (''  ['' @ replicate (16 - length addr) (CHR ''0'') @ addr @ '']  '' @
              (case dli_sname i of None \<Rightarrow> ''--'' | Some s \<Rightarrow> s) @ ''  ('' @ dli_fname i @ '')'' @ [CHR 0x0A] @ rest)))"

definition print_backtrace :: "(u64 \<times> dl_info option) list \<Rightarrow> string res" where
  "print_backtrace stack = backtrace_loop (take 32 stack) None"

datatype check_result = Trapped | Reported string

definition check_failed ::
    "debug_state \<Rightarrow> (u64 \<times> dl_info option) list \<Rightarrow> string \<Rightarrow> string \<Rightarrow> check_result res" where
  "check_failed st stack errtext msg =
     (if abort_on_check_failure st then Inl Aborted
      else if dbg_on_check_failure st then Inr Trapped
      else rbind (print_backtrace stack) (\<lambda>t.
             Inr (Reported (''wldbg - '' @ msg @ '': '' @ errtext @ [CHR 0x0A] @ t))))"

text \<open>\<open>sys_close\<close> is what the \<open>close\<close> of libc returns.  The pointer to it is null before
  \<open>init_syscalls_check\<close>.\<close>

definition checked_close ::
    "debug_state \<Rightarrow> (u64 \<times> dl_info option) list \<Rightarrow> string \<Rightarrow> int \<Rightarrow> int \<Rightarrow> (int \<times> check_result option) res" where
  "checked_close st stack errtext sys_close fd =
     (if \<not> sys_close_loaded st then Inl NullDeref
      else if sys_close = -1 then
        rbind (check_failed st stack errtext (''close fd '' @ show_int fd)) (\<lambda>r. Inr (sys_close, Some r))
      else Inr (sys_close, None))"

section \<open>Properties\<close>

lemma drop_last_two: "2 \<le> length v \<Longrightarrow> drop (length v - 2) v = ''.c'' \<longleftrightarrow> (\<exists>b. v = b @ ''.c'')"
proof
  assume l: "2 \<le> length v" and "drop (length v - 2) v = ''.c''"
  then have "v = take (length v - 2) v @ ''.c''" by (metis append_take_drop_id)
  then show "\<exists>b. v = b @ ''.c''" by blast
qed auto

lemma init_syscalls_keeps:
  "debug (init_syscalls_check e st) = debug st" "debug_verbose (init_syscalls_check e st) = debug_verbose st"
  "debug_domain (init_syscalls_check e st) = debug_domain st"
  by (auto simp: init_syscalls_check_def Let_def split: option.split)

lemma debug_init_flags:
  assumes "debug_init (Some v) check debug_off = Inr st"
  defines "c_file \<equiv> (\<exists>b. v = b @ ''.c'')"
  shows "debug st \<and> (debug_verbose st \<longleftrightarrow> v \<in> {''v'', ''verbose''} \<or> c_file) \<and>
    debug_domain st = (if c_file then Some v else None)"
proof (cases "v = ''verbose'' \<or> v = ''v''")
  case True
  then have "\<not> c_file" by (auto simp: c_file_def)
  then show ?thesis using assms(1) True
    by (auto simp: debug_init_def Let_def debug_off_def init_syscalls_keeps)
next
  case False
  then obtain b where b: "names_c_file v = Inr b" using assms(1) by (auto simp: debug_init_def Let_def rbind_eq_Inr)
  then have "b \<longleftrightarrow> c_file" using drop_last_two [of v] by (auto simp: names_c_file_def c_file_def split: if_splits)
  then show ?thesis using assms(1) False b
    by (auto simp: debug_init_def Let_def debug_off_def init_syscalls_keeps)
qed

text \<open>What \<open>WLDBG_DEBUG\<close> selects.  Starting up reads in front of the variable exactly if its value is
  empty or a single character other than \<^verbatim>\<open>v\<close>.  Otherwise nothing is printed without the variable; the
  name of a C file selects all messages of that file and none else; any other value selects the messages of
  \<open>dbg\<close> in all files, and those of \<open>vdbg\<close> too exactly for \<^verbatim>\<open>v\<close> and \<^verbatim>\<open>verbose\<close>.\<close>

theorem debug_selection:
  shows "(debug_init env check debug_off = Inl OutOfBounds \<longleftrightarrow> (\<exists>v. env = Some v \<and> length v < 2 \<and> v \<noteq> ''v'')) \<and>
    (debug_init env check debug_off = Inr st \<longrightarrow>
      (dbg st pid f ln msg = dbg_prefix pid f ln @ msg \<longleftrightarrow>
        (\<exists>v. env = Some v \<and> ((\<nexists>b. v = b @ ''.c'') \<or> v = f))) \<and>
      (vdbg st pid f ln msg = dbg_prefix pid f ln @ msg \<longleftrightarrow>
        (\<exists>v. env = Some v \<and> (v \<in> {''v'', ''verbose''} \<or> (\<exists>b. v = b @ ''.c'') \<and> v = f))))"
proof
  show "debug_init env check debug_off = Inl OutOfBounds \<longleftrightarrow> (\<exists>v. env = Some v \<and> length v < 2 \<and> v \<noteq> ''v'')"
    by (cases env) (auto simp: debug_init_def names_c_file_def Let_def)
  have noprefix: "[] \<noteq> dbg_prefix pid f ln @ msg" by (simp add: dbg_prefix_def)
  show "debug_init env check debug_off = Inr st \<longrightarrow>
      (dbg st pid f ln msg = dbg_prefix pid f ln @ msg \<longleftrightarrow>
        (\<exists>v. env = Some v \<and> ((\<nexists>b. v = b @ ''.c'') \<or> v = f))) \<and>
      (vdbg st pid f ln msg = dbg_prefix pid f ln @ msg \<longleftrightarrow>
        (\<exists>v. env = Some v \<and> (v \<in> {''v'', ''verbose''} \<or> (\<exists>b. v = b @ ''.c'') \<and> v = f)))"
  proof (cases env)
    case None
    then show ?thesis using noprefix
      by (auto simp: debug_init_def debug_off_def init_syscalls_keeps dbg_def vdbg_def)
  next
    case (Some v)
    have "\<nexists>b. v = b @ ''.c''" if "v \<in> {''v'', ''verbose''}" using that by auto
    then show ?thesis using debug_init_flags [of v check st] noprefix Some
      by (auto simp: dbg_def vdbg_def in_domain_def simp del: append_assoc)
  qed
qed

theorem debug_selection_witness:
  "debug_init (Some ''x'') None debug_off = Inl OutOfBounds \<and>
   (\<exists>st. debug_init (Some ''loop.c'') None debug_off = Inr st \<and> dbg st 7 ''wldbg.c'' 1 ''hi'' \<noteq> dbg_prefix 7 ''wldbg.c'' 1 @ ''hi'')"
proof -
  obtain st where st: "debug_init (Some ''loop.c'') None debug_off = Inr st"
    by (auto simp: debug_init_def names_c_file_def Let_def)
  show ?thesis
    using debug_selection [of "Some ''x''" None] debug_selection [of "Some ''loop.c''" None st 7 "''wldbg.c''" 1 "''hi''"] st
    by auto
qed

lemma backtrace_known: "\<exists>t. backtrace_loop fs (Some i) = Inr t"
proof (induction fs arbitrary: i)
  case (Cons f fs)
  obtain a found where f: "f = (a, found)" by (cases f)
  obtain t where "backtrace_loop fs (Some (case found of None \<Rightarrow> i | Some j \<Rightarrow> j)) = Inr t" using Cons.IH by blast
  then show ?case by (cases found) (simp_all add: f Let_def)
qed simp

lemma print_backtrace_cases:
  "(\<exists>t. print_backtrace stack = Inr t) \<or> stack \<noteq> [] \<and> snd (hd stack) = None \<and> print_backtrace stack = Inl UninitRead"
proof (cases stack)
  case (Cons f fs)
  obtain a found where f: "f = (a, found)" by (cases f)
  show ?thesis
  proof (cases found)
    case (Some i)
    obtain t where "backtrace_loop (take 31 fs) (Some i) = Inr t" using backtrace_known by blast
    then show ?thesis using Some by (simp add: print_backtrace_def Cons f Let_def)
  qed (simp add: print_backtrace_def Cons f)
qed (simp add: print_backtrace_def)

text \<open>The replaced \<open>close\<close> returns what \<open>close\<close> returns, and reports exactly the failures, unless the
  user asked for the program to be aborted then, or a symbol of the innermost frame is not found.\<close>

theorem checked_close_reports:
  assumes "sys_close_loaded st"
  shows "(\<exists>r. checked_close st stack errtext ret fd = Inr (ret, r) \<and> (r = None \<longleftrightarrow> ret \<noteq> -1)) \<or>
    (ret = -1 \<and> (abort_on_check_failure st \<and> checked_close st stack errtext ret fd = Inl Aborted \<or>
       stack \<noteq> [] \<and> snd (hd stack) = None \<and> checked_close st stack errtext ret fd = Inl UninitRead))"
proof (cases "ret = -1")
  case True
  have "(\<exists>t. print_backtrace stack = Inr t) \<or> stack \<noteq> [] \<and> snd (hd stack) = None \<and> print_backtrace stack = Inl UninitRead"
    by (rule print_backtrace_cases)
  then show ?thesis using True assms by (auto simp: checked_close_def check_failed_def)
qed (use assms in \<open>simp add: checked_close_def\<close>)

theorem checked_close_reports_witness:
  "\<exists>r. checked_close (init_syscalls_check (Some ''trap'') debug_off) [] ''Bad file descriptor'' (-1) 9 = Inr (-1, r) \<and> r \<noteq> None"
  using checked_close_reports [of "init_syscalls_check (Some ''trap'') debug_off" "[]" "''Bad file descriptor''" "-1" 9]
  by (simp add: init_syscalls_check_def debug_off_def)

end
