(* ===== verification/Watching.thy ===== *)
theory Watching
  imports Own_Passes Interactive_Facts Print
begin

text \<open>
  A session of \<^verbatim>\<open>wldbg -i\<close>: the resolve pass and the interactive pass behind it, with the tables of
  the connection between them and the printing of messages of \<^verbatim>\<open>src/print.c\<close>.  After the user said
  \<^verbatim>\<open>continue\<close>, with filters but no breakpoints and no automatic commands, the debugger shows the messages
  that no filter hides and forwards all of them.
\<close>

section \<open>The passes of a session\<close>

record ('r, 'p) session = shared_state +
  se_wldbgi :: "('r, 'p) wldbgi"

text \<open>\<open>message->connection->resolved_objects\<close> is the table as the resolve pass has left it.\<close>

definition session_message :: "ext \<Rightarrow> resolved_objects option \<Rightarrow> ('r, 'p) wldbgi \<Rightarrow> ('r, 'p) wldbgi" where
  "session_message x ro st = st\<lparr>wi_msg := (wi_msg st)\<lparr>mc_im := ext_imem x, mc_ro := ro\<rparr>\<rparr>"

definition call_interactive :: "ext \<Rightarrow> ('r, 'p) wenv \<Rightarrow> ('r, 'p) session wldbg \<Rightarrow> wmessage \<Rightarrow>
    (('r, 'p) session wldbg \<times> wmessage \<times> pass_verdict) res" where
  "call_interactive x e w m =
     (let s = w_state w in
      rbind (interactive_callback e
               \<lparr>w_exit = w_exit w, w_error = w_error w, w_pass_whole_buffer = w_pass_whole_buffer w,
                w_state = session_message x (pt_objects s) (se_wldbgi s)\<rparr> m) (\<lambda>(w', m', v).
        Inr (w\<lparr>w_exit := w_exit w', w_error := w_error w', w_state := s\<lparr>se_wldbgi := w_state w'\<rparr>\<rparr>, m', v)))"

text \<open>\<open>wldbg_message_print\<close> as the interactive mode calls it.\<close>

definition shown_line :: "print_env \<Rightarrow> mctx \<Rightarrow> nat \<Rightarrow> string res" where
  "shown_line pe m n = wldbg_message_print pe (mc_im m) (mc_ro m) (mc_from m) (mc_data m)"

definition session_env :: "print_env \<Rightarrow> ('r, 'p) wenv \<Rightarrow> ('r, 'p) wenv" where
  "session_env pe e = e\<lparr>we_print := shown_line pe\<rparr>"

definition session_passes :: "ext \<Rightarrow> print_env \<Rightarrow> ('r, 'p) wenv \<Rightarrow> ('r, 'p) session pass list" where
  "session_passes x pe e =
     [create_resolve_pass x,
      \<lparr>pass_name = ''interactive'', server_pass = call_interactive x (session_env pe e),
       client_pass = call_interactive x (session_env pe e)\<rparr>]"

section \<open>Running free\<close>

text \<open>Nothing stops the session during the next \<open>k\<close> messages.  The sum of the counters is one only for
  the first message, unless it wraps around.\<close>

definition undisturbed :: "('r, 'p) wldbgi \<Rightarrow> nat \<Rightarrow> bool" where
  "undisturbed st k \<longleftrightarrow> \<not> wi_stop st \<and> bs_list (wi_breakpoints st) = [] \<and> as_list (wi_autocmds st) = [] \<and>
     (wi_skip_first_query st \<or>
      (let n = wi_server_msg_no st + wi_client_msg_no st in n \<noteq> 0 \<and> unat n + k < 2 ^ 64))"

abbreviation running_free :: "('r, 'p) session wldbg \<Rightarrow> nat \<Rightarrow> bool" where
  "running_free w k \<equiv> undisturbed (se_wldbgi (w_state w)) k"

lemma undisturbed_message [simp]:
  "undisturbed (st\<lparr>wi_msg := m\<rparr>) k = undisturbed st k" "undisturbed (st\<lparr>wi_msg_size := n\<rparr>) k = undisturbed st k"
  "undisturbed (st\<lparr>wi_exit := a\<rparr>) k = undisturbed st k" "undisturbed (st\<lparr>wi_error := b\<rparr>) k = undisturbed st k"
  "undisturbed (st\<lparr>wi_shown := s\<rparr>) k = undisturbed st k"
  by (simp_all add: undisturbed_def)

lemma undisturbed_counts:
  assumes "undisturbed st (Suc k)"
  shows "undisturbed (count_message st) k" "wi_stop (count_message st) = wi_stop st"
proof -
  let ?n = "wi_server_msg_no st + wi_client_msg_no st"
  have sum: "wi_server_msg_no (count_message st) + wi_client_msg_no (count_message st) = ?n + 1"
    by (simp add: count_message_def Let_def split: side.split)
  have next1: "?n + 1 \<noteq> 1 \<and> ?n + 1 \<noteq> 0 \<and> unat (?n + 1) + k < 2 ^ 64" if "\<not> wi_skip_first_query st"
  proof -
    have n: "?n \<noteq> 0" "unat ?n + Suc k < 2 ^ 64" using assms that by (simp_all add: undisturbed_def Let_def)
    then have u: "unat (?n + 1) = unat ?n + 1" by (simp add: unat_word_ariths)
    then have "?n + 1 \<noteq> 0" by (metis add_is_0 one_neq_zero unat_0)
    with n u show ?thesis by simp
  qed
  have skip: "wi_skip_first_query (count_message st) = wi_skip_first_query st"
    by (simp add: count_message_def Let_def split: side.split)
  have counted: "\<not> (\<not> wi_skip_first_query st \<and> ?n + 1 = 1)" using next1 by blast
  show stop: "wi_stop (count_message st) = wi_stop st"
    using counted by (auto simp: count_message_def Let_def ac_simps split: side.split)
  show "undisturbed (count_message st) k"
    using assms next1 stop sum skip by (auto simp: undisturbed_def Let_def count_message_frame)
qed

lemma undisturbed_process:
  assumes "undisturbed st (Suc k)"
  shows "process_interactive e st =
    Some (rbind (filter_match (we_rx e) (fs_list (wi_filters st)) (wi_msg st)) (\<lambda>hide.
      if hide then Inr (count_message st)
      else rbind (we_print e (wi_msg st) (wi_msg_size st)) (\<lambda>line.
        Inr ((count_message st)\<lparr>wi_shown := wi_shown st @ line\<rparr>))))"
proof -
  have quiet: "bs_list (wi_breakpoints (count_message st)) = []" "as_list (wi_autocmds (count_message st)) = []"
    "\<not> wi_stop (count_message st)"
    using assms undisturbed_counts(2) [OF assms] by (simp_all add: undisturbed_def count_message_frame)
  have shown: "wi_shown (count_message st) = wi_shown st"
    by (simp add: count_message_def Let_def split: side.split)
  show ?thesis
  proof (cases "filter_match (we_rx e) (fs_list (wi_filters st)) (wi_msg st)")
    case (Inr hide)
    then show ?thesis using quiet shown
      by (cases "we_print e (wi_msg st) (wi_msg_size st)")
        (simp_all add: process_interactive_def count_message_frame Let_def first_id_def autocmd_loop.simps process_message_def)
  qed (simp add: process_interactive_def count_message_frame Let_def)
qed

section \<open>What is shown\<close>

text \<open>The lines for consecutive messages \<open>xs\<close> from the side \<open>sd\<close>: the table of objects goes from message
  to message as the resolve pass leaves it, and a hidden message has no line.\<close>

definition resolve_side ::
    "ext \<Rightarrow> side \<Rightarrow> resolved_objects option \<Rightarrow> bytes \<Rightarrow> (pass_verdict \<times> resolved_objects option) res" where
  "resolve_side x sd = (case sd of SERVER \<Rightarrow> resolve_in x | CLIENT \<Rightarrow> resolve_out x)"

definition line_of :: "'r regex_lib \<Rightarrow> 'r flt list \<Rightarrow> print_env \<Rightarrow> mctx \<Rightarrow> string res" where
  "line_of rx fs pe msg =
     rbind (filter_match rx fs msg) (\<lambda>hide.
       if hide then Inr [] else wldbg_message_print pe (mc_im msg) (mc_ro msg) (mc_from msg) (mc_data msg))"

fun watched :: "ext \<Rightarrow> 'r regex_lib \<Rightarrow> 'r flt list \<Rightarrow> print_env \<Rightarrow> side \<Rightarrow>
    resolved_objects option \<Rightarrow> bytes list \<Rightarrow> bytes \<Rightarrow> string list res" where
  "watched x rx fs pe sd ro [] rest = Inr []"
| "watched x rx fs pe sd ro (y # ys) rest =
     (let data = y @ concat ys @ rest in
      rbind (resolve_side x sd ro data) (\<lambda>(_, ro').
      rbind (line_of rx fs pe \<lparr>mc_im = ext_imem x, mc_ro = ro', mc_from = sd, mc_data = data\<rparr>) (\<lambda>line.
      rbind (watched x rx fs pe sd ro' ys rest) (\<lambda>lines. Inr (line # lines)))))"

lemma resolve_side_next: "resolve_side x sd ro b = Inr (v, ro') \<Longrightarrow> v = PASS_NEXT"
  by (auto simp: resolve_side_def resolve_in_def resolve_out_def rbind_eq_Inr Let_def
      split: option.splits if_splits side.splits)

text \<open>One message in a session that runs free.\<close>

definition entered :: "ext \<Rightarrow> ('r, 'p) session wldbg \<Rightarrow> wmessage \<Rightarrow> ('r, 'p) wldbgi" where
  "entered x w m =
     load_message \<lparr>w_exit = w_exit w, w_error = w_error w, w_pass_whole_buffer = w_pass_whole_buffer w,
       w_state = session_message x (pt_objects (w_state w)) (se_wldbgi (w_state w))\<rparr> m"

lemma entered_fields [simp]:
  "wi_msg (entered x w m) = \<lparr>mc_im = ext_imem x, mc_ro = pt_objects (w_state w), mc_from = msg_from m, mc_data = message_at m\<rparr>"
  "wi_msg_size (entered x w m) = unat (msg_size m)" "wi_exit (entered x w m) = w_exit w"
  "wi_error (entered x w m) = w_error w" "wi_filters (entered x w m) = wi_filters (se_wldbgi (w_state w))"
  "wi_shown (entered x w m) = wi_shown (se_wldbgi (w_state w))"
  "undisturbed (entered x w m) k = running_free w k"
  by (simp_all add: entered_def load_message_def session_message_def message_at_def)

lemma count_message_flags [simp]:
  "wi_exit (count_message st) = wi_exit st" "wi_error (count_message st) = wi_error st"
  by (simp_all add: count_message_def Let_def split: side.split)

lemma call_interactive_free:
  assumes "running_free w (Suc k)" "we_print e = shown_line pe"
  shows "call_interactive x e w m =
    rbind (line_of (we_rx e) (fs_list (wi_filters (se_wldbgi (w_state w)))) pe (wi_msg (entered x w m))) (\<lambda>line.
      Inr (w\<lparr>w_state := (w_state w)\<lparr>se_wldbgi := (count_message (entered x w m))\<lparr>wi_shown :=
              wi_shown (se_wldbgi (w_state w)) @ line\<rparr>\<rparr>\<rparr>, m, PASS_STOP))"
proof -
  let ?st = "entered x w m"
  have shown: "(count_message ?st)\<lparr>wi_shown := wi_shown (se_wldbgi (w_state w))\<rparr> = count_message ?st"
    by (simp add: count_message_def Let_def split: side.split)
  have "undisturbed ?st (Suc k)" using assms(1) by simp
  note p = undisturbed_process [OF this, of e, unfolded assms(2)]
  show ?thesis
    unfolding call_interactive_def Let_def interactive_callback_def entered_def [symmetric] p
    by (cases "filter_match (we_rx e) (fs_list (wi_filters (se_wldbgi (w_state w)))) (wi_msg ?st)")
      (auto simp: line_of_def shown_line_def store_message_def count_message_frame message_at_def rbind_assoc shown
        intro!: rbind_cong)
qed

lemma session_turn:
  assumes "running_free w (Suc k)"
  shows "run_passes (session_passes x pe e) w m =
    rbind (resolve_side x (msg_from m) (pt_objects (w_state w)) (message_at m)) (\<lambda>(_, ro).
      let w1 = w\<lparr>w_state := (w_state w)\<lparr>pt_objects := ro\<rparr>\<rparr> in
      rbind (line_of (we_rx e) (fs_list (wi_filters (se_wldbgi (w_state w)))) pe (wi_msg (entered x w1 m))) (\<lambda>line.
        Inr (w1\<lparr>w_state := (w_state w1)\<lparr>se_wldbgi := (count_message (entered x w1 m))\<lparr>wi_shown :=
                wi_shown (se_wldbgi (w_state w)) @ line\<rparr>\<rparr>\<rparr>, m)))"
proof -
  have env: "we_print (session_env pe e) = shown_line pe" "we_rx (session_env pe e) = we_rx e" by (simp_all add: session_env_def)
  have c: "call_pass (create_resolve_pass x) w m = call_resolve (resolve_side x (msg_from m)) w m"
    by (simp add: call_pass_def create_resolve_pass_def resolve_side_def split: side.split)
  show ?thesis
  proof (cases "resolve_side x (msg_from m) (pt_objects (w_state w)) (message_at m)")
    case (Inr p)
    obtain v ro where p: "p = (v, ro)" by (cases p)
    with Inr have v: "v \<noteq> PASS_STOP" using resolve_side_next by fastforce
    let ?w1 = "w\<lparr>w_state := (w_state w)\<lparr>pt_objects := ro\<rparr>\<rparr>"
    have "running_free ?w1 (Suc k)" using assms by simp
    note i = call_interactive_free [OF this env(1), of x m, unfolded env(2)]
    let ?i = "\<lparr>pass_name = ''interactive'', server_pass = call_interactive x (session_env pe e), client_pass = call_interactive x (session_env pe e)\<rparr>"
    have last: "run_passes [?i] ?w1 m = rbind (call_interactive x (session_env pe e) ?w1 m) (\<lambda>(w', m', _). Inr (w', m'))"
      by (cases "msg_from m") (simp_all add: call_pass_def cong: if_cong)
    have "run_passes (session_passes x pe e) w m = run_passes [?i] ?w1 m"
      using v p Inr by (simp add: session_passes_def c call_resolve_def del: run_passes.simps(2))
        (simp add: run_passes.simps(2) [of "create_resolve_pass x"] c call_resolve_def del: run_passes.simps(2))
    then show ?thesis using Inr p unfolding last i
      by (simp add: rbind_assoc Let_def)
  qed (simp add: session_passes_def c call_resolve_def)
qed

interpretation watching: guarded_passes "session_passes x pe e" running_free for x pe e
proof
  fix w w' :: "('a, 'b) session wldbg" and k m m'
  assume free: "running_free w (Suc k)" and r: "run_passes (session_passes x pe e) w m = Inr (w', m')"
  have "undisturbed (count_message (entered x (w\<lparr>w_state := (w_state w)\<lparr>pt_objects := ro\<rparr>\<rparr>) m)) k" for ro
    using free by (intro undisturbed_counts(1)) simp
  with r show "m' = m \<and> w_exit w' = w_exit w \<and> w_error w' = w_error w \<and> running_free w' k"
    unfolding session_turn [OF free] by (auto simp: rbind_eq_Inr Let_def)
qed

lemma watched_over:
  fixes w :: "('r, 'p) session wldbg"
  assumes "running_free w (length xs)" "message_at m = concat xs @ rest" "\<forall>y \<in> set xs. length y < 2 ^ 64"
  shows "case watched x (we_rx e) (fs_list (wi_filters (se_wldbgi (w_state w)))) pe (msg_from m) (pt_objects (w_state w)) xs rest of
      Inl f \<Rightarrow> run_over (session_passes x pe e) w m (map length xs) = Inl f
    | Inr lines \<Rightarrow> \<exists>w'. run_over (session_passes x pe e) w m (map length xs) = Inr w' \<and>
        wi_shown (se_wldbgi (w_state w')) = wi_shown (se_wldbgi (w_state w)) @ concat lines"
  using assms
proof (induction xs arbitrary: w m)
  case (Cons y ys)
  let ?m = "m\<lparr>msg_size := of_nat (length y)\<rparr>" and ?m' = "m\<lparr>msg_off := msg_off m + length y\<rparr>"
  let ?fs = "fs_list (wi_filters (se_wldbgi (w_state w)))"
  have free: "running_free w (Suc (length ys))" using Cons.prems(1) by simp
  have at: "message_at ?m = y @ concat ys @ rest" using Cons.prems(2) by (simp add: message_at_def)
  have at': "message_at ?m' = concat ys @ rest"
    using arg_cong [OF Cons.prems(2), of "drop (length y)"] by (simp add: message_at_def add.commute)
  note turn = session_turn [OF free, of x pe e ?m, unfolded at]
  show ?case
  proof (cases "resolve_side x (msg_from m) (pt_objects (w_state w)) (y @ concat ys @ rest)")
    case (Inl f)
    then show ?thesis using turn by simp
  next
    case (Inr p)
    obtain v ro where p: "p = (v, ro)" by (cases p)
    define w1 where "w1 = w\<lparr>w_state := (w_state w)\<lparr>pt_objects := ro\<rparr>\<rparr>"
    let ?l = "line_of (we_rx e) ?fs pe \<lparr>mc_im = ext_imem x, mc_ro = ro, mc_from = msg_from m, mc_data = y @ concat ys @ rest\<rparr>"
    show ?thesis
    proof (cases ?l)
      case (Inl f)
      then show ?thesis using turn Inr p at by simp
    next
      case line: (Inr line)
      define w2 where "w2 = w1\<lparr>w_state := (w_state w1)\<lparr>se_wldbgi := (count_message (entered x w1 ?m))\<lparr>wi_shown :=
              wi_shown (se_wldbgi (w_state w)) @ line\<rparr>\<rparr>\<rparr>"
      have r: "run_passes (session_passes x pe e) w ?m = Inr (w2, ?m)"
        using turn Inr p line at by (simp add: w1_def w2_def Let_def)
      have "running_free w2 (length ys)" using watching.guarded [OF free r] by simp
      moreover have "pt_objects (w_state w2) = ro" "fs_list (wi_filters (se_wldbgi (w_state w2))) = ?fs"
        "wi_shown (se_wldbgi (w_state w2)) = wi_shown (se_wldbgi (w_state w)) @ line"
        by (simp_all add: w2_def w1_def count_message_frame)
      ultimately show ?thesis
        using Cons.IH [of w2 ?m'] at' Cons.prems(3) r Inr p line
        by (cases "watched x (we_rx e) ?fs pe (msg_from m) ro ys rest") auto
    qed
  qed
qed simp

section \<open>Properties\<close>

text \<open>C3: A session that runs free shows what it forwards.  With filters but no breakpoints and no
  automatic commands, after the first message, \<^verbatim>\<open>wldbg -i\<close> processes a buffer of framed messages as
  follows: either the tables or the printing of some message fault, in the way \<open>watched\<close> says, or, unless a
  \<open>sendmsg\<close> fails, all bytes arrive on the other side, and on the screen is exactly one line for each
  message that no filter hides, with the objects as they were when the message came, in the order of
  the messages.\<close>

theorem session_shows_and_forwards:
  assumes "list_all well_framed xs" "xs \<noteq> []" "running_free w (length xs)"
    and "conn_wf (end_of sd wc)" "conn_wf (end_of (other_side sd) wc)"
    and "contents (fds_in (end_of sd wc)) = []" "contents (conn_in (end_of sd wc)) = concat xs"
    and "contents (conn_out (end_of (other_side sd) wc)) = []"
    and "length buffer = 4096" "\<not> w_pass_whole_buffer w" "\<not> w_exit w" "\<not> w_error w"
    and "length (concat xs) \<le> accepted rs" "Send_error \<notin> set rs"
  shows "\<exists>r. process_data (session_passes x pe e) w rs buffer wc sd (length (concat xs)) = Some r \<and>
    (case watched x (we_rx e) (fs_list (wi_filters (se_wldbgi (w_state w)))) pe sd (pt_objects (w_state w)) xs
            (drop (length (concat xs)) buffer) of
       Inl f \<Rightarrow> r = Inl f
     | Inr lines \<Rightarrow> \<exists>w' wc' rs'. r = Inr (int (length xs), w', wc', rs') \<and>
         data_sent (end_of (other_side sd) wc') = data_sent (end_of (other_side sd) wc) @ concat xs \<and>
         wi_shown (se_wldbgi (w_state w')) = wi_shown (se_wldbgi (w_state w)) @ concat lines)"
proof -
  let ?m = "\<lparr>msg_mem = concat xs @ drop (length (concat xs)) buffer, msg_off = 0,
      msg_size = of_nat (length (concat xs)), msg_from = sd\<rparr>"
  let ?ps = "session_passes x pe e" and ?fs = "fs_list (wi_filters (se_wldbgi (w_state w)))"
  have at: "message_at ?m = concat xs @ drop (length (concat xs)) buffer" by (simp add: message_at_def)
  note over = watched_over [OF assms(3) at framed_small [OF assms(1)], of x pe e]
  from guarded_data_forwards [OF watching.guarded_passes_axioms [of x pe e] assms(3,1,2,4-13)]
  obtain r where r: "process_data ?ps w rs buffer wc sd (length (concat xs)) = Some r"
    "(\<exists>f. r = Inl f \<and> run_over ?ps w ?m (map length xs) = Inl f) \<or>
     (\<exists>w' wc' rs'. r = Inr (int (length xs), w', wc', rs') \<and>
        data_sent (end_of (other_side sd) wc') = data_sent (end_of (other_side sd) wc) @ concat xs \<and>
        run_over ?ps w ?m (map length xs) = Inr w')"
    using assms(14) by blast
  show ?thesis
    using r over by (cases "watched x (we_rx e) ?fs pe sd (pt_objects (w_state w)) xs (drop (length (concat xs)) buffer)") auto
qed

theorem session_shows_and_forwards_witness:
  "\<exists>w' wc' rs'. process_data
      (session_passes (sample_ext (\<lambda>_. free_entry)) \<lparr>pe_server_mode = None, pe_program = None, pe_pid = 0, pe_key = (\<lambda>_. 0),
         pe_keyboard = 2, pe_pointer = 1, pe_touch = 4, pe_actions = None\<rparr> plain_env)
      \<lparr>w_exit = False, w_error = False, w_pass_whole_buffer = False,
       w_state = \<lparr>pt_objects = None, pt_infos = create_objects_info,
         se_wldbgi = (fresh_wldbgi [])\<lparr>wi_server_msg_no := 1\<rparr>\<rparr>\<rparr>
      (replicate 8 (Sent 1)) (replicate 4096 0) one_message_conn CLIENT 8 = Some (Inr (1, w', wc', rs')) \<and>
    wi_shown (se_wldbgi (w_state w')) = ''C: unknown@4.[opcode 0][size 8B]'' @ [CHR 0x0A] \<and>
    data_sent (wc_server wc') = words_bytes [4, 0x80000]"
proof -
  let ?ext = "sample_ext (\<lambda>_. free_entry)"
  let ?pe = "\<lparr>pe_server_mode = None, pe_program = None, pe_pid = 0, pe_key = (\<lambda>_. 0),
         pe_keyboard = 2, pe_pointer = 1, pe_touch = 4, pe_actions = None\<rparr> :: print_env"
  let ?w = "\<lparr>w_exit = False, w_error = False, w_pass_whole_buffer = False,
       w_state = \<lparr>pt_objects = None, pt_infos = create_objects_info,
         se_wldbgi = (fresh_wldbgi [])\<lparr>wi_server_msg_no := 1\<rparr>\<rparr>\<rparr> :: (string, unit) session wldbg"
  have free: "running_free ?w (length [one_message])" by (simp add: undisturbed_def fresh_wldbgi_def)
  have flags: "length (replicate 4096 (0 :: u8)) = 4096" "\<not> w_pass_whole_buffer ?w" "\<not> w_exit ?w" "\<not> w_error ?w" by simp_all
  let ?d = "one_message @ drop 8 (replicate 4096 0)"
  have ld: "load32 ?d 0 = Inr 4" "load32 ?d 4 = Inr 0x80000"
    using load32_words_bytes [of 0 "[4, 0x80000]"] load32_words_bytes [of 1 "[4, 0x80000]"]
    by (simp_all add: one_message_def)
  have ints: "show_int 4 = ''4''" "show_nat 0 = ''0''" "show_nat 8 = ''8''" by code_simp+
  have lines: "watched ?ext (we_rx plain_env) [] ?pe CLIENT None [one_message] (drop 8 (replicate 4096 0)) =
      Inr [''C: unknown@4.[opcode 0][size 8B]'' @ [CHR 0x0A]]"
    by (simp add: resolve_side_def resolve_out_def ld wldbg_message_get_object_def line_of_def filter_match_def
        wldbg_message_print_def wldbg_resolve_message_def wldbg_parse_message_def print_client_def print_id_def
        print_opcode_def WL_SERVER_ID_START_def ints Let_def del: drop_replicate)
  note one = one_message_setup
  show ?thesis
    using session_shows_and_forwards [OF one(1) _ free one(3-7) flags one(9,10), of ?ext ?pe plain_env] lines
    unfolding one(2,8)
    by (auto simp: end_of_def other_side_def fresh_wldbgi_def one_message_def simp del: drop_replicate)
qed

end
