(* ===== verification/Editing.thy ===== *)
theory Editing
  imports Interactive_Facts
begin

text \<open>
  A message that the user edits, through the whole loop of \<^verbatim>\<open>src/wldbg.c\<close>: the pass that asks the
  user, the line \<^verbatim>\<open>edit\<close>, the file that the editor leaves behind, and what is then written and
  where the next message is looked for.
\<close>

section \<open>The dialog\<close>

text \<open>The name of an editor, one word.\<close>

definition editor_word :: "string \<Rightarrow> bool" where
  "editor_word ed \<longleftrightarrow> ed \<noteq> [] \<and> length ed \<le> 127 \<and> list_all (\<lambda>c. \<not> is_space c \<and> c \<noteq> nul) ed"

lemma read_line:
  assumes "CHR 0x0A \<notin> set line" "nul \<notin> set line" "length line < 1023"
  shows "wldbgi_read_input True (line @ CHR 0x0A # inp) = (Some (line @ [nul, nul]), inp)"
proof -
  have "takeWhile (\<lambda>c. c \<noteq> CHR 0x0A) (line @ CHR 0x0A # inp) = line"
    using assms(1) by (subst takeWhile_append_all) (auto simp: in_set_conv_decomp)
  then show ?thesis using assms(2,3) by (simp add: wldbgi_read_input_def Let_def)
qed

lemma editor_word_facts:
  assumes "editor_word ed"
  shows "CHR 0x0A \<notin> set ed" "nul \<notin> set ed" "\<not> is_space (hd ed)" "ed \<noteq> []" "length ed \<le> 127"
    "takeWhile (\<lambda>c. \<not> is_space c) ed = ed"
proof -
  have all: "\<not> is_space c \<and> c \<noteq> nul" if "c \<in> set ed" for c
    using assms that by (simp add: editor_word_def list_all_iff)
  then show "CHR 0x0A \<notin> set ed" "nul \<notin> set ed" by (auto simp: is_space_def)
  show "ed \<noteq> []" "length ed \<le> 127" using assms by (simp_all add: editor_word_def)
  then show "\<not> is_space (hd ed)" using all by simp
  show "takeWhile (\<lambda>c. \<not> is_space c) ed = ed" using all by (simp add: takeWhile_eq_all_conv)
qed

lemma edit_words:
  assumes "editor_word ed"
  shows "find_command (''edit '' @ ed) = Some Cmd_edit" "next_word (''edit '' @ ed) = ed"
proof -
  note ed = editor_word_facts [OF assms]
  have "find_command (''edit'' @ '' '' @ ed) =
      map_option (\<lambda>(_, _, c). c) (find (\<lambda>(n, s, c). ''edit'' = n \<or> s = Some ''edit'') commands)"
    by (rule find_command_word) (simp_all add: is_alpha_def is_space_def)
  then show "find_command (''edit '' @ ed) = Some Cmd_edit" by (simp add: commands_def)
  have "next_word (''edit'' @ '' '' @ ed) = ed"
    using ed(3) by (intro next_word_args) (simp_all add: is_alpha_def is_space_def)
  then show "next_word (''edit '' @ ed) = ed" by simp
qed

lemma run_edit_line:
  fixes ys :: bytes
  assumes "editor_word ed" "we_mem_ok e" "ee_store (we_edit e)" "ee_malloc (we_edit e)"
    and "wi_msg_size st \<le> length (mc_data (wi_msg st))"
    and "ee_system (we_edit e) ed (take (wi_msg_size st) (mc_data (wi_msg st))) = 0"
    and "ee_file (we_edit e) ed (take (wi_msg_size st) (mc_data (wi_msg st))) = Some ys"
    and "\<And>c n. \<exists>line. we_print e c n = Inr line"
  defines "xs \<equiv> take 4096 ys"
  shows "run_line e (''edit '' @ ed @ [nul, nul]) st =
    (if length (mc_data (wi_msg st)) < length xs then Inl OutOfBounds
     else Inr (Some CMD_CONTINUE_QUERY, st\<lparr>wi_last_command := Some (''edit '' @ ed @ [nul]),
       wi_msg := (wi_msg st)\<lparr>mc_data := xs @ drop (length xs) (mc_data (wi_msg st))\<rparr>, wi_msg_size := length xs\<rparr>))"
proof -
  note ed = editor_word_facts [OF assms(1)]
  have plain: "c_text (''edit '' @ ed @ [nul, nul]) = Inr (''edit '' @ ed)"
    using c_text_nul [of "''edit '' @ ed" "[nul]"] ed(2) by (simp add: nul_def)
  have arg: "c_text (ed @ [nul, nul]) = Inr ed" using c_text_nul [OF ed(2), of "[nul]"] by simp
  have name: "edit_name (we_edit e) ed = Inr (Some ed)"
  proof -
    have "skip_ws ed = ed" using ed(3,4) by (cases ed) (simp_all add: skip_ws_def)
    then show ?thesis unfolding edit_name_def Let_def using ed(4,5) by (simp add: ed(6) del: takeWhile_eq_all_conv)
  qed
  have run: "run_command e (''edit '' @ ed @ [nul, nul]) s =
      rbind (call_command e Cmd_edit (ed @ [nul, nul]) s) (\<lambda>(r, m', st'). Inr (r, ''edit '' @ m', st'))" for s
    unfolding run_command_def plain using edit_words [OF assms(1)] by simp
  have ws: "skip_ws (''edit '' @ ed) = ''edit '' @ ed" by (simp add: skip_ws_def is_space_def)
  let ?d = "xs @ drop (length xs) (mc_data (wi_msg st))"
  obtain l where l: "we_print e ((wi_msg st)\<lparr>mc_data := ?d\<rparr>) (length xs) = Inr l" using assms(8) by blast
  show ?thesis
    unfolding run_line_def plain using assms(2-7) ws l
    by (simp add: run [simplified] call_command_def arg cmd_edit_def name wldbgi_add_history_def read_message_from_tmpfile_def Let_def
        flip: xs_def)
qed

lemma run_continue_line:
  assumes "we_mem_ok e" "wi_running st"
  shows "run_line e (''continue'' @ [nul, nul]) st = Inr (Some CMD_END_QUERY, st\<lparr>wi_last_command := Some (''continue'' @ [nul])\<rparr>)"
proof -
  have "find_command ''continue'' = Some Cmd_continue" "next_word ''continue'' = []" by code_simp+
  then show ?thesis using assms
    by (simp add: run_line_def c_text_def nul_def skip_ws_def is_space_def wldbgi_add_history_def run_command_def
        call_command_def cmd_continue_def)
qed

lemma edit_dialog:
  fixes ys :: bytes
  assumes "\<not> wi_exit st" "\<not> wi_error st" "wi_running st" "we_mem_ok e"
    and "wi_stdin st = ''edit '' @ ed @ CHR 0x0A # ''continue'' @ CHR 0x0A # inp"
    and "editor_word ed" "ee_store (we_edit e)" "ee_malloc (we_edit e)"
    and "wi_msg_size st \<le> length (mc_data (wi_msg st))"
    and "ee_system (we_edit e) ed (take (wi_msg_size st) (mc_data (wi_msg st))) = 0"
    and "ee_file (we_edit e) ed (take (wi_msg_size st) (mc_data (wi_msg st))) = Some ys"
    and "\<And>c n. \<exists>line. we_print e c n = Inr line"
  defines "xs \<equiv> take 4096 ys"
  shows "query_user e st =
    (if length (mc_data (wi_msg st)) < length xs then Some (Inl OutOfBounds)
     else Some (Inr (st\<lparr>wi_stdin := inp, wi_last_command := Some (''continue'' @ [nul]),
       wi_msg := (wi_msg st)\<lparr>mc_data := xs @ drop (length xs) (mc_data (wi_msg st))\<rparr>, wi_msg_size := length xs\<rparr>)))"
proof -
  note ed = editor_word_facts [OF assms(6)]
  let ?in2 = "''continue'' @ CHR 0x0A # inp"
  have r1: "wldbgi_read_input True (wi_stdin st) = (Some (''edit '' @ ed @ [nul, nul]), ?in2)"
    using read_line [of "''edit '' @ ed" ?in2] ed(1,2,5) assms(5) by (simp add: nul_def)
  have r2: "wldbgi_read_input True ?in2 = (Some (''continue'' @ [nul, nul]), inp)"
    using read_line [of "''continue''" inp] by (simp add: nul_def)
  let ?st1 = "st\<lparr>wi_stdin := ?in2\<rparr>"
  let ?st2 = "?st1\<lparr>wi_last_command := Some (''edit '' @ ed @ [nul]),
     wi_msg := (wi_msg st)\<lparr>mc_data := xs @ drop (length xs) (mc_data (wi_msg st))\<rparr>, wi_msg_size := length xs\<rparr>"
  have e1: "run_line e (''edit '' @ ed @ [nul, nul]) ?st1 =
      (if length (mc_data (wi_msg st)) < length xs then Inl OutOfBounds else Inr (Some CMD_CONTINUE_QUERY, ?st2))"
    using run_edit_line [OF assms(6,4,7,8), of ?st1 ys] assms(9-12) by (simp add: xs_def)
  have "query_user e ?st2 = Some (Inr (?st2\<lparr>wi_stdin := inp, wi_last_command := Some (''continue'' @ [nul])\<rparr>))"
    unfolding query_user.simps [of e ?st2] using assms(1-4) r2 run_continue_line [OF assms(4), of "?st2\<lparr>wi_stdin := inp\<rparr>"]
    by simp
  then show ?thesis
    unfolding query_user.simps [of e st] using assms(1,2,4) r1 e1 by simp
qed

section \<open>The pass\<close>

text \<open>A message that is not hidden, while the pass is to stop at it, or a breakpoint applies.\<close>

definition stops_at :: "('r, 'p) wenv \<Rightarrow> ('r, 'p) wldbgi \<Rightarrow> mctx \<Rightarrow> bool" where
  "stops_at e st msg \<longleftrightarrow> as_list (wi_autocmds st) = [] \<and> (\<exists>s. message_name msg = Inr (Some s)) \<and>
     (some_applies (we_rx e) msg (bs_list (wi_breakpoints st)) = Inr True \<or>
      some_applies (we_rx e) msg (bs_list (wi_breakpoints st)) = Inr False \<and> wi_stop st \<and>
        \<not> msg_hidden (we_rx e) (fs_list (wi_filters st)) msg)"

lemma count_message_kept:
  "wi_exit (count_message st) = wi_exit st" "wi_error (count_message st) = wi_error st"
  "wi_running (count_message st) = wi_running st"
  by (simp_all add: count_message_def Let_def split: side.split)

lemma process_stops:
  assumes "stops_at e st (wi_msg st)" "we_print e (wi_msg st) (wi_msg_size st) = Inr l"
  shows "process_interactive e st =
    query_user e ((count_message st)\<lparr>wi_shown := wi_shown (count_message st) @ l, wi_stop := False\<rparr>)"
proof -
  obtain s where s: "as_list (wi_autocmds st) = []" "message_name (wi_msg st) = Inr (Some s)"
    using assms(1) by (auto simp: stops_at_def)
  obtain brk where "some_applies (we_rx e) (wi_msg st) (bs_list (wi_breakpoints st)) = Inr brk"
    "brk \<or> wi_stop st \<and> \<not> msg_hidden (we_rx e) (fs_list (wi_filters st)) (wi_msg st)"
    using assms(1) by (auto simp: stops_at_def)
  then show ?thesis
    using process_decides [OF s, of e brk] assms(2)
    by (auto simp: Let_def process_message_def count_message_frame)
qed

lemma edit_pass:
  fixes w :: "('r, 'p) wldbgi wldbg" and ys :: bytes
  assumes "\<not> w_exit w" "\<not> w_error w" "wi_running (w_state w)" "stops_at e (load_message w m) (wi_msg (load_message w m))"
    and "wi_stdin (w_state w) = ''edit '' @ ed @ CHR 0x0A # ''continue'' @ CHR 0x0A # inp"
    and "we_mem_ok e" "editor_word ed" "ee_store (we_edit e)" "ee_malloc (we_edit e)"
    and "\<And>c n. \<exists>line. we_print e c n = Inr line"
    and "msg_off m + unat (msg_size m) \<le> length (msg_mem m)"
    and "ee_system (we_edit e) ed (take (unat (msg_size m)) (drop (msg_off m) (msg_mem m))) = 0"
    and "ee_file (we_edit e) ed (take (unat (msg_size m)) (drop (msg_off m) (msg_mem m))) = Some ys"
  defines "xs \<equiv> take 4096 ys"
  shows "(length (msg_mem m) - msg_off m < length xs \<longrightarrow> run_passes [interactive_pass e] w m = Inl OutOfBounds) \<and>
    (length xs \<le> length (msg_mem m) - msg_off m \<longrightarrow>
      (\<exists>w'. run_passes [interactive_pass e] w m = Inr (w', m\<lparr>msg_mem := take (msg_off m) (msg_mem m) @ xs @ drop (msg_off m + length xs) (msg_mem m),
           msg_size := word_of_nat (length xs)\<rparr>) \<and>
         \<not> w_exit w' \<and> \<not> w_error w' \<and> wi_stdin (w_state w') = inp \<and> \<not> wi_stop (w_state w')))"
proof -
  let ?st = "load_message w m"
  obtain l where l: "we_print e (wi_msg ?st) (wi_msg_size ?st) = Inr l" using assms(10) by blast
  let ?q = "(count_message ?st)\<lparr>wi_shown := wi_shown (count_message ?st) @ l, wi_stop := False\<rparr>"
  have f: "\<not> wi_exit ?q" "\<not> wi_error ?q" "wi_running ?q" "wi_stdin ?q = wi_stdin (w_state w)" "wi_msg_size ?q = unat (msg_size m)"
    "mc_data (wi_msg ?q) = drop (msg_off m) (msg_mem m)"
    using assms(1-3) by (simp_all add: count_message_frame count_message_kept load_message_def)
  have sz: "wi_msg_size ?q \<le> length (mc_data (wi_msg ?q))" using assms(11) f(5,6) by simp
  have q: "query_user e ?q =
    (if length (mc_data (wi_msg ?q)) < length xs then Some (Inl OutOfBounds)
     else Some (Inr (?q\<lparr>wi_stdin := inp, wi_last_command := Some (''continue'' @ [nul]),
       wi_msg := (wi_msg ?q)\<lparr>mc_data := xs @ drop (length xs) (mc_data (wi_msg ?q))\<rparr>, wi_msg_size := length xs\<rparr>)))"
    unfolding xs_def
    by (rule edit_dialog [OF f(1-3) assms(6) _ assms(7-9) sz]) (use assms(5,10,12,13) f(4-6) in simp_all)
  have p: "process_interactive e ?st = query_user e ?q" by (rule process_stops [OF assms(4) l])
  have run: "run_passes [interactive_pass e] w m = rbind (interactive_callback e w m) (\<lambda>(w', m', v). Inr (w', m'))"
    by (cases "msg_from m") (simp_all add: call_pass_def interactive_pass_def cong: if_cong)
  show ?thesis
    unfolding run interactive_callback_def p q f(6) using f(1,2)
    by (simp add: store_message_def add.commute)
qed

section \<open>Properties\<close>

text \<open>C40: A message at which the user is asked, edited with \<^verbatim>\<open>edit\<close> and then let go with
  \<^verbatim>\<open>continue\<close>: what is written to the other side is what the editor left in the file, at most 4096
  bytes of it, whatever the size of the message was.  Nothing moves in the buffer: the new bytes
  overwrite what stands from the message on, the next message is looked for behind the new bytes, and
  the new size is taken off the bytes that are left, modulo \<open>2 ^ 64\<close>.  So a message edited to
  another size takes the framing of the following ones with it; and more bytes than the buffer has from
  the message on are written behind the buffer.\<close>

theorem edited_message_goes_out:
  fixes s :: "('r, 'p) wldbgi loop_state" and ys :: bytes
  assumes "ls_rest s \<noteq> 0" "load32 (msg_mem (ls_msg s)) (msg_off (ls_msg s) + 4) = Inr word"
    and "\<not> w_exit (ls_wldbg s)" "\<not> w_error (ls_wldbg s)" "wi_running (w_state (ls_wldbg s))"
    and "wi_stdin (w_state (ls_wldbg s)) = ''edit '' @ ed @ CHR 0x0A # ''continue'' @ CHR 0x0A # inp"
    and "stops_at e (load_message (ls_wldbg s) (ls_msg s)) (wi_msg (load_message (ls_wldbg s) (ls_msg s)))"
    and "we_mem_ok e" "editor_word ed" "ee_store (we_edit e)" "ee_malloc (we_edit e)"
    and "\<And>c n. \<exists>line. we_print e c n = Inr line"
    and "msg_off (ls_msg s) + unat (drop_bit 16 word) \<le> length (msg_mem (ls_msg s))"
    and "ee_system (we_edit e) ed (take (unat (drop_bit 16 word)) (drop (msg_off (ls_msg s)) (msg_mem (ls_msg s)))) = 0"
    and "ee_file (we_edit e) ed (take (unat (drop_bit 16 word)) (drop (msg_off (ls_msg s)) (msg_mem (ls_msg s)))) = Some ys"
    and "conn_wf (ls_out s)" "contents (conn_out (ls_out s)) = []" "length (take 4096 ys) \<le> accepted (ls_script s)"
  defines "xs \<equiv> take 4096 ys"
  shows "if length (msg_mem (ls_msg s)) - msg_off (ls_msg s) < length xs
    then one_by_one_loop [interactive_pass e] s = Some (Inl OutOfBounds)
    else (\<exists>t. one_by_one_loop [interactive_pass e] s = Some (Inr (-1, t)) \<and> Send_error \<in> set (ls_script s) \<and>
            data_sent (ls_out t) @ contents (conn_out (ls_out t)) = data_sent (ls_out s) @ xs) \<or>
      (\<exists>t. one_by_one_loop [interactive_pass e] s = one_by_one_loop [interactive_pass e] t \<and>
            data_sent (ls_out t) = data_sent (ls_out s) @ xs \<and> contents (conn_out (ls_out t)) = [] \<and> conn_wf (ls_out t) \<and>
            msg_mem (ls_msg t) = take (msg_off (ls_msg s)) (msg_mem (ls_msg s)) @ xs @
              drop (msg_off (ls_msg s) + length xs) (msg_mem (ls_msg s)) \<and>
            msg_off (ls_msg t) = msg_off (ls_msg s) + length xs \<and> msg_from (ls_msg t) = msg_from (ls_msg s) \<and>
            ls_rest t = ls_rest s - word_of_nat (length xs) \<and> ls_n t = ls_n s + 1 \<and>
            wi_stdin (w_state (ls_wldbg t)) = inp \<and> \<not> wi_stop (w_state (ls_wldbg t)))"
proof -
  let ?mem = "msg_mem (ls_msg s)" and ?off = "msg_off (ls_msg s)"
  define m where "m = (ls_msg s)\<lparr>msg_size := ucast (drop_bit 16 word)\<rparr>"
  have m: "msg_mem m = ?mem" "msg_off m = ?off" "unat (msg_size m) = unat (drop_bit 16 word)"
    using unat_u32_less [of "drop_bit 16 word"] by (simp_all add: m_def unsigned_ucast_eq take_bit_nat_eq_self)
  have stop: "stops_at e (load_message (ls_wldbg s) m) (wi_msg (load_message (ls_wldbg s) m))"
    using assms(7) by (simp add: stops_at_def load_message_def m_def)
  have passes: "(length (msg_mem m) - msg_off m < length xs \<longrightarrow> run_passes [interactive_pass e] (ls_wldbg s) m = Inl OutOfBounds) \<and>
    (length xs \<le> length (msg_mem m) - msg_off m \<longrightarrow>
      (\<exists>w'. run_passes [interactive_pass e] (ls_wldbg s) m = Inr (w', m\<lparr>msg_mem := take (msg_off m) (msg_mem m) @ xs @ drop (msg_off m + length xs) (msg_mem m),
           msg_size := word_of_nat (length xs)\<rparr>) \<and>
         \<not> w_exit w' \<and> \<not> w_error w' \<and> wi_stdin (w_state w') = inp \<and> \<not> wi_stop (w_state w')))"
    unfolding xs_def
    by (rule edit_pass [OF assms(3-5) stop assms(6,8-12)]) (use m assms(13-15) in simp_all)
  note loop = one_by_one_loop.simps [of "[interactive_pass e]" s]
  show ?thesis
  proof (cases "length ?mem - ?off < length xs")
    case True
    then have "run_passes [interactive_pass e] (ls_wldbg s) m = Inl OutOfBounds" using passes m by simp
    then show ?thesis using True assms(1,2) unfolding loop by (simp flip: m_def del: run_passes.simps)
  next
    case False
    let ?m' = "m\<lparr>msg_mem := take ?off ?mem @ xs @ drop (?off + length xs) ?mem, msg_size := word_of_nat (length xs)\<rparr>"
    obtain w where w: "run_passes [interactive_pass e] (ls_wldbg s) m = Inr (w, ?m')" "\<not> w_exit w" "\<not> w_error w"
      "wi_stdin (w_state w) = inp" "\<not> wi_stop (w_state w)"
      using passes m False by auto
    have len: "length xs \<le> 4096" "length xs \<le> accepted (ls_script s)" using assms(18) by (simp_all add: xs_def)
    then have size: "unat (msg_size ?m') = length xs" by (simp add: unat_of_nat)
    have off: "?off \<le> length ?mem" using assms(13) by simp
    have "memcpy_from (msg_mem ?m') (msg_off ?m') (length xs) = Inr xs"
      using False off by (simp add: memcpy_from_def m)
    then obtain ret c rs where re: "resend (ls_script s) (ls_out s) ?m' = Some (Inr (ret, c, rs))" "conn_wf c"
      "ret = 0 \<and> data_sent c = data_sent (ls_out s) @ xs \<and> contents (conn_out c) = [] \<or>
       ret = -1 \<and> data_sent c @ contents (conn_out c) = data_sent (ls_out s) @ xs \<and> Send_error \<in> set (ls_script s)"
      using resend_effect [OF assms(16,17) size len(1) _ len(2)] by blast
    have turn: "one_by_one_loop [interactive_pass e] s =
      (if ret < 0 then Some (Inr (-1, s\<lparr>ls_wldbg := w, ls_msg := ?m', ls_out := c, ls_script := rs\<rparr>))
       else one_by_one_loop [interactive_pass e] (s\<lparr>ls_wldbg := w, ls_msg := ?m'\<lparr>msg_off := msg_off ?m' + unat (msg_size ?m')\<rparr>,
         ls_rest := ls_rest s - msg_size ?m', ls_n := ls_n s + 1, ls_out := c, ls_script := rs\<rparr>))"
      using assms(1,2) w(1-3) re(1) unfolding loop by (simp flip: m_def del: run_passes.simps)
    show ?thesis
    proof (cases "ret < 0")
      case True
      with turn re(3) have "one_by_one_loop [interactive_pass e] s =
          Some (Inr (-1, s\<lparr>ls_wldbg := w, ls_msg := ?m', ls_out := c, ls_script := rs\<rparr>))" "Send_error \<in> set (ls_script s)"
        "data_sent c @ contents (conn_out c) = data_sent (ls_out s) @ xs" by auto
      then show ?thesis using False by auto
    next
      case ret: False
      let ?t = "s\<lparr>ls_wldbg := w, ls_msg := ?m'\<lparr>msg_off := msg_off ?m' + unat (msg_size ?m')\<rparr>,
         ls_rest := ls_rest s - msg_size ?m', ls_n := ls_n s + 1, ls_out := c, ls_script := rs\<rparr>"
      have "one_by_one_loop [interactive_pass e] s = one_by_one_loop [interactive_pass e] ?t" using turn ret by simp
      moreover have "msg_from m = msg_from (ls_msg s)" by (simp add: m_def)
      ultimately show ?thesis
        unfolding if_not_P [OF False] using ret re(2,3) w(4,5) m(2) size by (intro disjI2 exI [of _ ?t]) auto
    qed
  qed
qed

text \<open>The only message of the buffer, of 8 bytes, is edited to 12: after that, 4 bytes less than none
  are left, so the loop goes on to read messages behind the data.\<close>

theorem edited_message_goes_out_witness:
  "\<exists>t. one_by_one_loop [interactive_pass (plain_env\<lparr>we_edit := \<lparr>ee_getenv = (\<lambda>_. None), ee_store = True, ee_malloc = True,
         ee_system = (\<lambda>_ _. 0), ee_file = (\<lambda>_ x. Some (x @ [9, 9, 9, 9]))\<rparr>\<rparr>)]
      \<lparr>ls_wldbg = \<lparr>w_exit = False, w_error = False, w_pass_whole_buffer = False,
           w_state = (fresh_wldbgi (''edit vi'' @ CHR 0x0A # ''continue'' @ CHR 0x0A # []))\<lparr>wi_running := True, wi_stop := True,
             wi_msg := \<lparr>mc_im = (\<lambda>_. free_entry), mc_ro = None, mc_from = CLIENT, mc_data = []\<rparr>\<rparr>\<rparr>,
        ls_msg = \<lparr>msg_mem = [3, 0, 0, 0, 1, 0, 8, 0, 0, 0, 0, 0, 0, 0, 0, 0], msg_off = 0, msg_size = 8, msg_from = SERVER\<rparr>,
        ls_rest = 8, ls_n = 0, ls_out = wl_connection_create 4, ls_script = replicate 12 (Sent 12)\<rparr> =
     one_by_one_loop [interactive_pass (plain_env\<lparr>we_edit := \<lparr>ee_getenv = (\<lambda>_. None), ee_store = True, ee_malloc = True,
         ee_system = (\<lambda>_ _. 0), ee_file = (\<lambda>_ x. Some (x @ [9, 9, 9, 9]))\<rparr>\<rparr>)] t \<and>
     data_sent (ls_out t) = [3, 0, 0, 0, 1, 0, 8, 0, 9, 9, 9, 9] \<and>
     msg_mem (ls_msg t) = [3, 0, 0, 0, 1, 0, 8, 0, 9, 9, 9, 9, 0, 0, 0, 0] \<and> msg_off (ls_msg t) = 12 \<and> ls_rest t = - 4"
proof -
  let ?e = "plain_env\<lparr>we_edit := \<lparr>ee_getenv = (\<lambda>_. None), ee_store = True, ee_malloc = True,
         ee_system = (\<lambda>_ _. 0), ee_file = (\<lambda>_ x. Some (x @ [9, 9, 9, 9]))\<rparr>\<rparr>"
  let ?mem = "[3, 0, 0, 0, 1, 0, 8, 0, 0, 0, 0, 0, 0, 0, 0, 0] :: bytes"
  let ?s = "\<lparr>ls_wldbg = \<lparr>w_exit = False, w_error = False, w_pass_whole_buffer = False,
           w_state = (fresh_wldbgi (''edit vi'' @ CHR 0x0A # ''continue'' @ CHR 0x0A # []))\<lparr>wi_running := True, wi_stop := True,
             wi_msg := \<lparr>mc_im = (\<lambda>_. free_entry), mc_ro = None, mc_from = CLIENT, mc_data = []\<rparr>\<rparr>\<rparr>,
        ls_msg = \<lparr>msg_mem = ?mem, msg_off = 0, msg_size = 8, msg_from = SERVER\<rparr>,
        ls_rest = 8, ls_n = 0, ls_out = wl_connection_create 4, ls_script = replicate 12 (Sent 12)\<rparr> :: (string, unit) wldbgi loop_state"
  have "wldbg_parse_message ?mem = Inr (True, \<lparr>pm_id = 3, pm_opcode = 1, pm_size = 8, pm_data = 8\<rparr>)"
    by (simp add: wldbg_parse_message_def load32_def Let_def)
  moreover have "show_int 3 = ''3''" "show_int 1 = ''1''" by code_simp+
  ultimately have name: "message_name \<lparr>mc_im = (\<lambda>_. free_entry), mc_ro = None, mc_from = SERVER, mc_data = ?mem\<rparr> = Inr (Some ''unknown@3.1'')"
    by (simp add: message_name_def wldbg_get_message_name_def is_valid_interface_def wldbg_message_get_object_def snprintf_def)
  then have stop: "stops_at ?e (load_message (ls_wldbg ?s) (ls_msg ?s)) (wi_msg (load_message (ls_wldbg ?s) (ls_msg ?s)))"
    by (simp add: stops_at_def load_message_def fresh_wldbgi_def msg_hidden_def hidden_def)
  have word: "load32 (msg_mem (ls_msg ?s)) (msg_off (ls_msg ?s) + 4) = Inr 0x80001" by (simp add: load32_def)
  have inp: "wi_stdin (w_state (ls_wldbg ?s)) = ''edit '' @ ''vi'' @ CHR 0x0A # ''continue'' @ CHR 0x0A # []" by (simp add: fresh_wldbgi_def)
  have ed: "editor_word ''vi''" by (simp add: editor_word_def is_space_def nul_def)
  have sys: "ee_system (we_edit ?e) ''vi'' (take (unat (drop_bit 16 (0x80001 :: u32))) (drop (msg_off (ls_msg ?s)) (msg_mem (ls_msg ?s)))) = 0"
    and left: "ee_file (we_edit ?e) ''vi'' (take (unat (drop_bit 16 (0x80001 :: u32))) (drop (msg_off (ls_msg ?s)) (msg_mem (ls_msg ?s)))) =
      Some [3, 0, 0, 0, 1, 0, 8, 0, 9, 9, 9, 9]"
    and prt: "\<exists>line. we_print ?e c n = Inr line" for c n by (simp_all add: plain_env_def)
  have out: "conn_wf (ls_out ?s)" "contents (conn_out (ls_out ?s)) = []" "data_sent (ls_out ?s) = []"
    using conn_wf_create by (simp_all add: wl_connection_create_def empty_buffer_wf data_sent_def)
  have acc: "length (take 4096 [3, 0, 0, 0, 1, 0, 8, 0, 9, 9, 9, 9 :: 8 word]) \<le> accepted (ls_script ?s)" by (simp add: accepted_def)
  have quiet: "Send_error \<notin> set (ls_script ?s)" by simp
  show ?thesis
    using edited_message_goes_out [OF _ word _ _ _ inp stop _ ed _ _ prt _ sys left out(1,2) acc] out(3) quiet
    by (auto simp: fresh_wldbgi_def plain_env_def)
qed

end
