(* ===== verification/Resolve_Run.thy ===== *)
theory Resolve_Run
  imports Resolve_Pass
begin

text \<open>
  The resolve pass of \<^verbatim>\<open>src/resolve-pass.c\<close> over a whole session: the two growing tables of ids
  as one partial function from ids to interfaces, and what each message does to it.
\<close>

section \<open>The pass over a session\<close>

definition resolve_side :: "ext \<Rightarrow> side \<Rightarrow> resolved_objects option \<Rightarrow> bytes \<Rightarrow> (pass_verdict \<times> resolved_objects option) res" where
  "resolve_side x sd = (case sd of SERVER \<Rightarrow> resolve_in x | CLIENT \<Rightarrow> resolve_out x)"

text \<open>A message that the pass does not hand on would end the run.\<close>

fun resolve_run :: "ext \<Rightarrow> resolved_objects \<Rightarrow> (side \<times> bytes) list \<Rightarrow> resolved_objects res" where
  "resolve_run x ro [] = Inr ro"
| "resolve_run x ro ((sd, m) # ms) =
     rbind (resolve_side x sd (Some ro) m) (\<lambda>(v, r).
       case r of
         None \<Rightarrow> Inl NullDeref
       | Some ro' \<Rightarrow> if v = PASS_NEXT then resolve_run x ro' ms else Inl AssertFailed)"

section \<open>The table as a partial function\<close>

text \<open>Where the new id stands: behind a word for each character of the signature in front of it, and
  behind the contents of strings and arrays.\<close>

fun id_position :: "bytes \<Rightarrow> string \<Rightarrow> nat \<Rightarrow> nat res" where
  "id_position m [] pos = Inr pos"
| "id_position m (c # a) pos =
     (if c = CHR ''s'' \<or> c = CHR ''a''
      then rbind (load32 m pos) (\<lambda>n. id_position m a (pos + 4 + 4 * div_roundup4 (unat n)))
      else id_position m a (pos + 4))"

text \<open>The id that a message binds, and to what: nothing for a message of an object that is not known
  or that its interface does not have; the named id to the free entry for \<open>delete_id\<close>; and for a
  message with a new id that id to the interface the description names, the guessed one for
  \<open>wl_registry.bind\<close>, or the unknown one.\<close>

definition table_change :: "ext \<Rightarrow> iptr list \<Rightarrow> (u32 \<Rightarrow> iptr option) \<Rightarrow> side \<Rightarrow> bytes \<Rightarrow> u32 \<Rightarrow> u32 \<Rightarrow> (u32 \<times> iptr) option res" where
  "table_change x ifs tab sd m oid opcode =
     (case tab oid of
        None \<Rightarrow> Inr None
      | Some p \<Rightarrow>
          let table = side_messages sd (intf_at (ext_imem x) p); wm = table ! unat opcode; sg = the (wlm_signature wm);
              a = takeWhile (\<lambda>c. c \<noteq> CHR ''n'') sg; t = the (wlm_types wm) ! length a in
          if p = Unknown_interface \<or> p = Free_entry \<or> length table \<le> unat opcode then Inr None
          else if sd = SERVER \<and> oid = 1 \<and> opcode = ext_delete_id x then rbind (load32 m 8) (\<lambda>w. Inr (Some (w, Free_entry)))
          else if a = sg then Inr None
          else
            rbind (id_position m a 8) (\<lambda>pos.
            rbind (load32 m pos) (\<lambda>w.
            rbind (if t = None \<and> sd = CLIENT \<and> intf_name (intf_at (ext_imem x) p) = ''wl_registry'' \<and> opcode = ext_bind x
                   then find_interface (ext_imem x) (drop 16 m) ifs else Inr t) (\<lambda>i.
              Inr (Some (w, case i of None \<Rightarrow> Unknown_interface | Some q \<Rightarrow> q))))))"

fun table_run :: "ext \<Rightarrow> iptr list \<Rightarrow> (u32 \<Rightarrow> iptr option) \<Rightarrow> (side \<times> bytes) list \<Rightarrow> (u32 \<Rightarrow> iptr option) res" where
  "table_run x ifs tab [] = Inr tab"
| "table_run x ifs tab ((sd, m) # ms) =
     rbind (load32 m 0) (\<lambda>oid. rbind (load32 m 4) (\<lambda>h.
     rbind (table_change x ifs tab sd m oid (h AND 0xffff)) (\<lambda>c.
       table_run x ifs (case c of None \<Rightarrow> tab | Some (i, p) \<Rightarrow> tab(i := Some p)) ms)))"

text \<open>Descriptions the pass can handle: both parts are there, at most one new id, and the types reach
  as far as its place in the signature.\<close>

definition orderly :: "wl_message \<Rightarrow> bool" where
  "orderly wm \<longleftrightarrow>
     (case (wlm_signature wm, wlm_types wm) of
        (Some sg, Some types) \<Rightarrow>
          (case dropWhile (\<lambda>c. c \<noteq> CHR ''n'') sg of
             [] \<Rightarrow> True
           | _ # b \<Rightarrow> CHR ''n'' \<notin> set b \<and> length (takeWhile (\<lambda>c. c \<noteq> CHR ''n'') sg) < length types)
      | _ \<Rightarrow> False)"

definition orderly_tables :: "imem \<Rightarrow> bool" where
  "orderly_tables im \<longleftrightarrow> (\<forall>p. list_all orderly (methods (intf_at im p)) \<and> list_all orderly (events (intf_at im p)))"

section \<open>One message\<close>

lemma find_interface_append:
  "find_interface im nm (ps @ qs) = rbind (find_interface im nm ps) (\<lambda>r. if r \<noteq> None then Inr r else find_interface im nm qs)"
  by (induction ps) (auto simp: rbind_assoc intro!: rbind_cong)

lemma get_interface_lists: "get_interface im ro nm = find_interface im nm (ro_interfaces ro @ ro_additional ro)"
  by (simp add: get_interface_def find_interface_append)

lemma get_new_id_position:
  assumes "CHR ''n'' \<notin> set a"
  shows "get_new_id (a @ CHR ''n'' # b) m k = rbind (id_position m a (4 * k)) (load32 m)"
  using assms
proof (induction a arbitrary: k)
  case (Cons c a)
  have "get_new_id (a @ CHR ''n'' # b) m (k + j) = rbind (id_position m a (4 * k + 4 * j)) (load32 m)" for j
    using Cons.IH [of "k + j"] Cons.prems by (simp add: distrib_left)
  from this [of 1] this [of "div_roundup4 (unat n) + 1" for n] show ?case
    using Cons.prems by (auto simp: rbind_assoc algebra_simps intro!: rbind_cong)
qed simp

lemma get_new_ids_change:
  assumes "orderly wm"
  defines "sg \<equiv> the (wlm_signature wm)"
  defines "a \<equiv> takeWhile (\<lambda>c. c \<noteq> CHR ''n'') sg"
  shows "get_new_ids x ro m wm guess =
    (if a = sg then Inr ro
     else rbind (id_position m a 8) (\<lambda>pos. rbind (load32 m pos) (\<lambda>w.
          rbind (case (the (wlm_types wm) ! length a, guess) of
              (None, Some off) \<Rightarrow> get_interface (ext_imem x) ro (drop off m)
            | _ \<Rightarrow> Inr (the (wlm_types wm) ! length a)) (\<lambda>i.
          resolved_objects_put x ro w (Some (case i of None \<Rightarrow> Unknown_interface | Some p \<Rightarrow> p))))))"
proof -
  obtain sg' types where w: "wlm_signature wm = Some sg'" "wlm_types wm = Some types"
    using assms(1) by (auto simp: orderly_def split: option.splits)
  then have sg: "sg' = sg" by (simp add: sg_def)
  show ?thesis
  proof (cases "a = sg")
    case True
    then have "\<forall>c \<in> set sg. c \<noteq> CHR ''n''" unfolding a_def takeWhile_eq_all_conv .
    then have "CHR ''n'' \<notin> set sg" by blast
    then show ?thesis using True w new_ids_loop_none [of 0 sg] by (simp add: get_new_ids_def sg)
  next
    case False
    have split: "sg = a @ dropWhile (\<lambda>c. c \<noteq> CHR ''n'') sg" by (simp add: a_def)
    then obtain c b where d: "dropWhile (\<lambda>c. c \<noteq> CHR ''n'') sg = c # b"
      using False by (cases "dropWhile (\<lambda>c. c \<noteq> CHR ''n'') sg") auto
    then have c: "c = CHR ''n''" using hd_dropWhile [of "\<lambda>c. c \<noteq> CHR ''n''" sg] by simp
    have na: "CHR ''n'' \<notin> set a" unfolding a_def by (auto dest: set_takeWhileD)
    have nb: "CHR ''n'' \<notin> set b" and len: "length a < length types"
      using assms(1) w d by (simp_all add: orderly_def sg a_def)
    have sg2: "sg = a @ CHR ''n'' # b" using split unfolding d c .
    have "get_new_ids x ro m wm guess = enter_new_id x m sg types guess 0 (length a) ro"
      unfolding get_new_ids_def using w new_ids_loop_one [OF na nb, of "enter_new_id x m sg types guess" ro]
      by (simp add: sg flip: sg2)
    also have "\<dots> = rbind (rbind (id_position m a 8) (load32 m)) (\<lambda>w.
        rbind (case (types ! length a, guess) of
              (None, Some off) \<Rightarrow> get_interface (ext_imem x) ro (drop off m)
            | _ \<Rightarrow> Inr (types ! length a)) (\<lambda>i.
          resolved_objects_put x ro w (Some (case i of None \<Rightarrow> Unknown_interface | Some p \<Rightarrow> p))))"
      using get_new_id_position [OF na, of b m 2] len by (simp add: enter_new_id_def flip: sg2)
    finally show ?thesis using False unfolding w(2) option.sel by (simp add: rbind_assoc)
  qed
qed

lemma put_aborts:
  assumes "ro_wf ro" "resolved_objects_put x ro i v = Inl Aborted"
  shows "\<exists>n. \<not> ext_mem_ok x n"
proof (cases "WL_SERVER_ID_START \<le> i")
  case True
  have "ids_map_wf (ro_server ro)" using assms(1) by (simp add: ro_wf_def)
  then show ?thesis using assms(2) True
    by (cases rule: wldbg_ids_map_insert_cases [OF _ server_id_legal [OF True], of "ro_server ro" "ext_mem_ok x" "ext_junk x" v])
       (auto simp: resolved_objects_put_def)
next
  case False
  have "ids_map_wf (ro_client ro)" using assms(1) by (simp add: ro_wf_def)
  then show ?thesis using assms(2) False
    by (cases rule: wldbg_ids_map_insert_cases [OF _ client_id_legal [OF False], of "ro_client ro" "ext_mem_ok x" "ext_junk x" v])
       (auto simp: resolved_objects_put_def)
qed

text \<open>A change of the table carried out by the pass.\<close>

definition carried_out :: "ext \<Rightarrow> resolved_objects \<Rightarrow> u32 \<Rightarrow> iptr \<Rightarrow> (pass_verdict \<times> resolved_objects option) res \<Rightarrow> bool" where
  "carried_out x ro i q r \<longleftrightarrow> r = Inl Aborted \<and> (\<exists>n. \<not> ext_mem_ok x n) \<or>
     (\<exists>ro'. r = Inr (PASS_NEXT, Some ro') \<and> ro_wf ro' \<and> resolved_objects_get ro' = (resolved_objects_get ro)(i := Some q) \<and>
        ro_interfaces ro' = ro_interfaces ro \<and> ro_additional ro' = ro_additional ro)"

lemma put_carried_out:
  assumes "ro_wf ro"
  shows "carried_out x ro i q (rbind (resolved_objects_put x ro i (Some q)) (\<lambda>r. Inr (PASS_NEXT, Some r)))"
  by (cases rule: resolved_objects_put_cases [OF assms, of x i "Some q"])
     (auto simp: carried_out_def dest: put_aborts [OF assms])

lemma change_outcome:
  assumes "ro_wf ro"
  shows "case rbind R (\<lambda>c. Inr (Some c)) of
      Inl f \<Rightarrow> rbind R (\<lambda>(i, q). rbind (resolved_objects_put x ro i (Some q)) (\<lambda>r. Inr (PASS_NEXT, Some r))) = Inl f
    | Inr None \<Rightarrow> rbind R (\<lambda>(i, q). rbind (resolved_objects_put x ro i (Some q)) (\<lambda>r. Inr (PASS_NEXT, Some r))) = Inr (PASS_NEXT, Some ro)
    | Inr (Some (i, q)) \<Rightarrow>
        carried_out x ro i q (rbind R (\<lambda>(i, q). rbind (resolved_objects_put x ro i (Some q)) (\<lambda>r. Inr (PASS_NEXT, Some r))))"
  using put_carried_out [OF assms] by (cases R) (auto split: prod.split)

lemma side_table_size:
  assumes "imem_wf im" "opcode < 0x10000"
  shows "(word_of_int (side_count sd (intf_at im p)) :: u32) \<le> opcode \<longleftrightarrow> length (side_messages sd (intf_at im p)) \<le> unat opcode"
proof -
  obtain n where n: "side_count sd (intf_at im p) = int n" "length (side_messages sd (intf_at im p)) = n" "n < 2 ^ 31"
    using intf_wf_at [OF assms(1), of p] by (cases sd) (auto simp: intf_wf_def side_count_def side_messages_def)
  then have "unat (word_of_int (side_count sd (intf_at im p)) :: u32) = n" by (simp add: unat_of_nat)
  with n(2) show ?thesis by (simp add: word_le_nat_alt)
qed

text \<open>The two directions as one, the guards apart.\<close>

lemma resolve_side_known:
  fixes sd :: side
  assumes "load32 m 0 = Inr oid" "load32 m 4 = Inr h" "imem_wf (ext_imem x)" "resolved_objects_get ro oid = Some p"
  defines "opcode \<equiv> h AND 0xffff"
  defines "table \<equiv> side_messages sd (intf_at (ext_imem x) p)"
  shows "resolve_side x sd (Some ro) m =
    (if p = Unknown_interface \<or> p = Free_entry \<or> length table \<le> unat opcode then Inr (PASS_NEXT, Some ro)
     else rbind (if sd = SERVER \<and> oid = 1 \<and> opcode = ext_delete_id x
                 then rbind (load32 m 8) (\<lambda>w. resolved_objects_put x ro w (Some Free_entry))
                 else get_new_ids x ro m (table ! unat opcode)
                   (if sd = CLIENT \<and> intf_name (intf_at (ext_imem x) p) = ''wl_registry'' \<and> opcode = ext_bind x then Some 16 else None))
            (\<lambda>r. Inr (PASS_NEXT, Some r)))"
proof -
  have "take_bit 16 h < 0x10000"
    using unsigned_take_bit_eq [of 16 h, where ?'a = nat] take_bit_nat_less_exp [of 16 "unat h"] by (simp add: word_less_nat_alt)
  then have "opcode < 0x10000" by (simp add: opcode_def mask_ffff take_bit_eq_mask)
  from side_table_size [OF assms(3) this, of sd p]
  show ?thesis using assms(1,2,4)
    by (cases sd) (auto simp: resolve_side_def resolve_in_def resolve_out_def wldbg_message_get_object_def opcode_def table_def
        side_messages_def side_count_def nth_res_def Let_def intro!: rbind_cong)
qed

lemma resolve_side_change:
  assumes "ro_wf ro" "imem_wf (ext_imem x)" "orderly_tables (ext_imem x)" "load32 m 0 = Inr oid" "load32 m 4 = Inr h"
  shows "case table_change x (ro_interfaces ro @ ro_additional ro) (resolved_objects_get ro) sd m oid (h AND 0xffff) of
      Inl f \<Rightarrow> resolve_side x sd (Some ro) m = Inl f
    | Inr None \<Rightarrow> resolve_side x sd (Some ro) m = Inr (PASS_NEXT, Some ro)
    | Inr (Some (i, q)) \<Rightarrow> carried_out x ro i q (resolve_side x sd (Some ro) m)"
proof (cases "resolved_objects_get ro oid")
  case None
  then show ?thesis using assms(4,5)
    by (cases sd) (simp_all add: table_change_def resolve_side_def resolve_in_def resolve_out_def wldbg_message_get_object_def Let_def)
next
  case (Some p)
  let ?op = "h AND 0xffff" and ?table = "side_messages sd (intf_at (ext_imem x) p)"
  note known = resolve_side_known [OF assms(4,5,2) Some, of sd]
  show ?thesis
  proof (cases "p = Unknown_interface \<or> p = Free_entry \<or> length ?table \<le> unat ?op")
    case True
    then show ?thesis unfolding known by (simp add: table_change_def Some Let_def)
  next
    case guard: False
    then have "?table ! unat ?op \<in> set ?table" by simp
    then have ord: "orderly (?table ! unat ?op)"
      using assms(3) by (cases sd) (auto simp: orderly_tables_def side_messages_def list_all_iff)
    show ?thesis
    proof (cases "sd = SERVER \<and> oid = 1 \<and> ?op = ext_delete_id x")
      case True
      have "table_change x (ro_interfaces ro @ ro_additional ro) (resolved_objects_get ro) sd m oid ?op =
          rbind (load32 m 8) (\<lambda>w. Inr (Some (w, Free_entry)))"
        unfolding table_change_def Some Let_def option.case if_not_P [OF guard] if_P [OF True] ..
      moreover have "resolve_side x sd (Some ro) m =
          rbind (load32 m 8) (\<lambda>w. rbind (resolved_objects_put x ro w (Some Free_entry)) (\<lambda>r. Inr (PASS_NEXT, Some r)))"
        unfolding known if_not_P [OF guard] if_P [OF True] by (simp add: rbind_assoc)
      ultimately show ?thesis using put_carried_out [OF assms(1)] by (cases "load32 m 8") simp_all
    next
      case False
      let ?wm = "?table ! unat ?op"
      let ?sg = "the (wlm_signature ?wm)"
      let ?a = "takeWhile (\<lambda>c. c \<noteq> CHR ''n'') ?sg" and ?t = "the (wlm_types ?wm)"
      let ?bind = "sd = CLIENT \<and> intf_name (intf_at (ext_imem x) p) = ''wl_registry'' \<and> ?op = ext_bind x"
      let ?guess = "if ?t ! length ?a = None \<and> ?bind then find_interface (ext_imem x) (drop 16 m) (ro_interfaces ro @ ro_additional ro)
        else Inr (?t ! length ?a)"
      have g: "(case (?t ! length ?a, if ?bind then Some 16 else None) of
          (None, Some off) \<Rightarrow> get_interface (ext_imem x) ro (drop off m) | _ \<Rightarrow> Inr (?t ! length ?a)) = ?guess"
        by (auto simp: get_interface_lists split: option.split)
      have side: "resolve_side x sd (Some ro) m = rbind (if ?a = ?sg then Inr ro
          else rbind (id_position m ?a 8) (\<lambda>pos. rbind (load32 m pos) (\<lambda>w. rbind ?guess (\<lambda>i.
             resolved_objects_put x ro w (Some (case i of None \<Rightarrow> Unknown_interface | Some p \<Rightarrow> p)))))) (\<lambda>r. Inr (PASS_NEXT, Some r))"
        unfolding known if_not_P [OF guard] if_not_P [OF False] get_new_ids_change [OF ord] g ..
      have chg: "table_change x (ro_interfaces ro @ ro_additional ro) (resolved_objects_get ro) sd m oid ?op =
          (if ?a = ?sg then Inr None else rbind (id_position m ?a 8) (\<lambda>pos. rbind (load32 m pos) (\<lambda>w. rbind ?guess (\<lambda>i.
             Inr (Some (w, case i of None \<Rightarrow> Unknown_interface | Some q \<Rightarrow> q))))))"
        unfolding table_change_def Some Let_def option.case if_not_P [OF guard] if_not_P [OF False] ..
      show ?thesis
      proof (cases "?a = ?sg")
        case True
        then show ?thesis unfolding side chg by simp
      next
        case new: False
        define R where "R = rbind (id_position m ?a 8) (\<lambda>pos. rbind (load32 m pos) (\<lambda>w. rbind ?guess (\<lambda>i.
          Inr (w, case i of None \<Rightarrow> Unknown_interface | Some q \<Rightarrow> q))))"
        have tc: "table_change x (ro_interfaces ro @ ro_additional ro) (resolved_objects_get ro) sd m oid ?op = rbind R (\<lambda>c. Inr (Some c))"
          unfolding R_def chg if_not_P [OF new] rbind_assoc rbind_Inr ..
        have rs: "resolve_side x sd (Some ro) m =
            rbind R (\<lambda>(i, q). rbind (resolved_objects_put x ro i (Some q)) (\<lambda>r. Inr (PASS_NEXT, Some r)))"
          unfolding R_def side if_not_P [OF new] rbind_assoc rbind_Inr prod.case ..
        show ?thesis using change_outcome [OF assms(1), of R x] unfolding tc rs .
      qed
    qed
  qed
qed

section \<open>Properties\<close>



end
