(* ===== verification/Objinfo_Run.thy ===== *)
theory Objinfo_Run
  imports Resolve_Run Objinfo_Facts
begin

text \<open>
  The resolve pass and the objinfo pass together over a session, from \<^verbatim>\<open>src/resolve-pass.c\<close> and
  \<^verbatim>\<open>src/objinfo-pass.c\<close>: what is gathered about an object fits the interface that the table has for it.
\<close>

section \<open>Both passes over a session\<close>

fun gather_run :: "obj_env \<Rightarrow> ext \<Rightarrow> resolved_objects \<times> objects_info \<Rightarrow> (side \<times> bytes) list \<Rightarrow> (resolved_objects \<times> objects_info) res" where
  "gather_run e x (ro, ob) [] = Inr (ro, ob)"
| "gather_run e x (ro, ob) ((sd, m) # ms) =
     rbind (resolve_side x sd (Some ro) m) (\<lambda>(_, r).
     rbind (gather_info e (ext_imem x) r sd m ob) (\<lambda>ob'.
       case r of None \<Rightarrow> Inl NullDeref | Some ro' \<Rightarrow> gather_run e x (ro', ob') ms))"

text \<open>The requests that the pass takes as the creation of an object it gathers about, as the
  Wayland protocols describe them: the new id is the first argument, and its type is named.\<close>

definition created_type :: "string \<Rightarrow> string \<Rightarrow> string option" where
  "created_type iface msg =
     (if iface = ''wl_compositor'' \<and> msg = ''create_surface'' then Some ''wl_surface''
      else if iface = ''wl_shm_pool'' \<and> msg = ''create_buffer'' then Some ''wl_buffer''
      else if iface = ''xdg_shell'' \<and> msg = ''get_xdg_surface'' then Some ''xdg_surface''
      else None)"

definition new_id_first :: "imem \<Rightarrow> wl_message \<Rightarrow> string \<Rightarrow> bool" where
  "new_id_first im wm ty \<longleftrightarrow>
     (\<exists>r p ts. wlm_signature wm = Some (CHR ''n'' # r) \<and> wlm_types wm = Some (Some p # ts) \<and> intf_name (intf_at im p) = ty)"

definition binds :: "ext \<Rightarrow> nat \<Rightarrow> wl_message \<Rightarrow> bool" where
  "binds x n wm \<longleftrightarrow> n = unat (ext_bind x) \<and> wlm_signature wm = Some ''usun'' \<and>
     (\<exists>ts. wlm_types wm = Some ts \<and> 3 < length ts \<and> ts ! 3 = None)"

definition protocol_described :: "ext \<Rightarrow> bool" where
  "protocol_described x \<longleftrightarrow>
     (\<forall>p. nul \<notin> set (intf_name (intf_at (ext_imem x) p)) \<and>
        (\<forall>n < length (methods (intf_at (ext_imem x) p)).
           let name = intf_name (intf_at (ext_imem x) p); wm = methods (intf_at (ext_imem x) p) ! n in
           (\<forall>ty. created_type name (wlm_name wm) = Some ty \<longrightarrow> new_id_first (ext_imem x) wm ty) \<and>
           (name = ''wl_registry'' \<and> wlm_name wm = ''bind'' \<longrightarrow> binds x n wm)))"

section \<open>Kinds are kept\<close>

definition kinds_kept :: "objects_info \<Rightarrow> objects_info \<Rightarrow> bool" where
  "kinds_kept ob ob' \<longleftrightarrow>
     (\<forall>k i'. objects_info_get ob' k = Some i' \<longrightarrow>
        (\<exists>i. objects_info_get ob k = Some i \<and> (\<forall>n. kind_ok n (oi_info i) \<longrightarrow> kind_ok n (oi_info i'))))"

lemma kinds_kept_refl [simp]: "kinds_kept ob ob"
  by (simp add: kinds_kept_def)

lemma kinds_kept_trans: "kinds_kept a b \<Longrightarrow> kinds_kept b c \<Longrightarrow> kinds_kept a c"
  unfolding kinds_kept_def by meson

lemma infos_match_kept: "infos_match im ro ob \<Longrightarrow> kinds_kept ob ob' \<Longrightarrow> infos_match im ro ob'"
  unfolding infos_match_def kinds_kept_def by blast

lemma kinds_kept_set:
  assumes "objects_wf ob" "objects_info_get ob k = Some x" "\<And>n. kind_ok n (oi_info x) \<Longrightarrow> kind_ok n (oi_info v)"
  shows "kinds_kept ob (objects_info_set ob (oi_id x) v)"
proof -
  have "oi_id x = k" using assms(1,2) by (simp add: objects_wf_def)
  then show ?thesis using assms objects_info_set_get [of ob k x v] by (auto simp: kinds_kept_def objects_wf_def)
qed

lemma kinds_kept_free:
  assumes "objects_wf ob" "wldbg_object_info_free e ob x = Inr ob'"
  shows "kinds_kept ob ob'"
  using assms objects_info_put_get [of ob e "oi_id x" None]
  by (auto simp: wldbg_object_info_free_def rbind_eq_Inr kinds_kept_def objects_wf_def split: if_splits)

lemma kind_ok_same:
  "kind_ok n (Surface_info s) \<Longrightarrow> kind_ok n (Surface_info s')" "kind_ok n (Xdg_info x) \<Longrightarrow> kind_ok n (Xdg_info x')"
  "kind_ok n (Buffer_info b) \<Longrightarrow> kind_ok n (Buffer_info b')" "kind_ok n (Seat_info t) \<Longrightarrow> kind_ok n (Seat_info t')"
  by (auto simp: kind_ok_def)

lemma kinds_kept_released:
  assumes "objects_wf ob" "objects_info_get ob k = Some x" "set_released r ob x = Inr ob'"
  shows "kinds_kept ob ob'"
  using assms(3) kinds_kept_set [OF assms(1,2)] kind_ok_same(3)
  by (auto simp: set_released_def rbind_eq_Inr as_buffer_def split: info.splits)

lemma kinds_kept_buffer:
  assumes "objects_wf ob" "handle_wl_buffer_message e ob rm sd = Inr ob'"
  shows "kinds_kept ob ob'"
  using assms kinds_kept_released [OF assms(1)] kinds_kept_free [OF assms(1)]
  by (auto simp: handle_wl_buffer_message_def split: option.splits if_splits)

lemma kinds_kept_seat:
  assumes "objects_wf ob" "handle_wl_seat_message e m ob rm sd = Inr ob'"
  shows "kinds_kept ob ob'"
proof (cases "objects_info_get ob (pm_id (rm_base rm))")
  case (Some x)
  have "kinds_kept ob (objects_info_set ob (oi_id x) (x\<lparr>oi_info := Seat_info t'\<rparr>))" if "as_seat (oi_info x) = Inr t" for t t'
    using that kind_ok_same(4) by (intro kinds_kept_set [OF assms(1) Some]) (auto simp: as_seat_def split: info.splits)
  then show ?thesis
    using assms(2) Some by (auto simp: handle_wl_seat_message_def rbind_eq_Inr simp del: split_paired_Ex split: if_splits option.splits)
qed (use assms in \<open>simp add: handle_wl_seat_message_def\<close>)

lemma kinds_kept_surface_set:
  assumes "objects_wf ob" "objects_info_get ob k = Some x" "as_surface (oi_info x) = Inr s"
  shows "kinds_kept ob (set_surface ob x s')"
  unfolding set_surface_def using assms(3) kind_ok_same(1)
  by (intro kinds_kept_set [OF assms(1,2)]) (auto simp: as_surface_def split: info.splits)

lemma kinds_kept_surface:
  assumes "objects_wf ob" "handle_wl_surface_message e m ob rm sd = Inr ob'"
  shows "kinds_kept ob ob'"
proof (cases "objects_info_get ob (pm_id (rm_base rm))")
  case (Some x)
  note set = kinds_kept_surface_set [OF assms(1) Some] and wf = set_surface_wf [OF assms(1) Some]
  have "kinds_kept ob ob'" if "as_surface (oi_info x) = Inr s" "make_wl_buffer_unreleased (set_surface ob x s') b = Inr ob'" for s s' b
    using that(2) kinds_kept_trans [OF set [OF that(1)] kinds_kept_released [OF wf]] set [OF that(1)]
    by (auto simp: make_wl_buffer_unreleased_def split: option.splits)
  then show ?thesis
    using assms(2) Some set kinds_kept_free [OF assms(1)]
    by (auto simp: handle_wl_surface_message_def rbind_eq_Inr simp del: split_paired_Ex split: if_splits)
qed (use assms in \<open>simp add: handle_wl_surface_message_def\<close>)

lemma kinds_kept_xdg:
  assumes "objects_wf ob" "handle_xdg_surface_message e m ob rm sd = Inr ob'"
  shows "kinds_kept ob ob'"
proof (cases "objects_info_get ob (pm_id (rm_base rm))")
  case (Some x)
  have "kinds_kept ob (set_xdg ob x y')" if "as_xdg (oi_info x) = Inr y" for y y'
    unfolding set_xdg_def using that kind_ok_same(2)
    by (intro kinds_kept_set [OF assms(1) Some]) (auto simp: as_xdg_def split: info.splits)
  then show ?thesis
    using assms(2) Some kinds_kept_free [OF assms(1)]
    by (auto simp: handle_xdg_surface_message_def rbind_eq_Inr simp del: split_paired_Ex split: if_splits option.splits)
qed (use assms in \<open>simp add: handle_xdg_surface_message_def\<close>)

section \<open>Creation\<close>

text \<open>What a creating request does: nothing, or it stores one information.\<close>

definition stores :: "obj_env \<Rightarrow> objects_info \<Rightarrow> objects_info \<Rightarrow> (u32 \<Rightarrow> info \<Rightarrow> bool) \<Rightarrow> bool" where
  "stores e ob ob' P \<longleftrightarrow> ob' = ob \<or> (\<exists>w v. objects_info_put e ob w (Some v) = Inr ob' \<and> P w (oi_info v))"

lemma storesI: "objects_info_put e ob w (Some v) = Inr ob' \<Longrightarrow> P w (oi_info v) \<Longrightarrow> stores e ob ob' P"
  by (auto simp: stores_def)

lemma next_u32_first:
  assumes "rm_signature rm = None" "rm_message rm = Some wm" "pm_data (rm_base rm) = 8" "wlm_signature wm = Some (CHR ''n'' # r)"
    "next_u32 m rm = Inr (w, rm')"
  shows "load32 m 8 = Inr w"
  using assms by (auto simp: next_u32_def next_data_def next_argument_start initialize_iterator_def signature_get_type_def
      get_data_ptr_def rassert_def chr_at_def is_digit_def nul_def rbind_eq_Inr Let_def split: if_splits)

lemma stores_compositor:
  assumes "handle_wl_compositor_message e m ob rm sd = Inr ob'"
  shows "stores e ob ob' (\<lambda>w i. sd = CLIENT \<and> message_is rm ''create_surface'' \<and> (\<exists>rm'. next_u32 m rm = Inr (w, rm')) \<and>
    (\<exists>s. i = Surface_info s))"
  using assms by (force simp: handle_wl_compositor_message_def stores_def rbind_eq_Inr simp del: split_paired_Ex split: if_splits)

lemma stores_pool:
  assumes "handle_shm_pool_message e m ob rm sd = Inr ob'"
  shows "stores e ob ob' (\<lambda>w i. sd = CLIENT \<and> message_is rm ''create_buffer'' \<and> (\<exists>rm'. next_u32 m rm = Inr (w, rm')) \<and>
    (\<exists>s. i = Buffer_info s))"
  using assms by (force simp: handle_shm_pool_message_def stores_def rbind_eq_Inr simp del: split_paired_Ex split: if_splits)

lemma stores_xdg:
  assumes "handle_xdg_shell_message e m ob rm sd = Inr ob'"
  shows "stores e ob ob' (\<lambda>w i. sd = CLIENT \<and> message_is rm ''get_xdg_surface'' \<and> (\<exists>rm'. next_u32 m rm = Inr (w, rm')) \<and>
    (\<exists>s. i = Xdg_info s))"
  using assms by (force simp: handle_xdg_shell_message_def stores_def rbind_eq_Inr simp del: split_paired_Ex split: if_splits)

text \<open>The arguments of \<open>bind\<close>: the name of the interface stands at byte 16, the new id where
  \<open>id_position\<close> looks for it.\<close>

lemma bind_arguments:
  assumes "rm_signature rm = None" "rm_message rm = Some wm" "pm_data (rm_base rm) = 8" "wlm_signature wm = Some ''usun''"
    and "wldbg_resolved_message_next_argument m rm = Inr (a, rm1)" "next_data m rm1 = Inr (Some p, rm2)"
    "next_u32 m rm2 = Inr (v, rm3)" "next_u32 m rm3 = Inr (i, rm4)"
  shows "p = 16 \<and> (\<exists>pos. id_position m ''usu'' 8 = Inr pos \<and> load32 m pos = Inr i)"
proof -
  have d: "\<not> is_digit CHR ''u''" "\<not> is_digit CHR ''s''" "\<not> is_digit CHR ''n''" by (simp_all add: is_digit_def)
  have r1: "rm_signature rm1 = Some ''usun''" "rm_position rm1 = Some 8"
    using assms(1-5) d by (auto simp: next_argument_start initialize_iterator_def signature_get_type_def rbind_eq_Inr Let_def split: if_splits)
  obtain n where n: "load32 m 12 = Inr n" "n \<noteq> 0" "p = 16" "rm_signature rm2 = Some ''sun''" "rm_position rm2 = Some 12"
    using assms(6) d by (auto simp: next_data_def next_argument_running [OF r1] advance_def get_data_ptr_def Let_def rbind_eq_Inr
        split: if_splits)
  let ?q = "12 + 4 * (div_roundup4 (unat n) + 1)"
  have r3: "rm_signature rm3 = Some ''un''" "rm_position rm3 = Some ?q"
    using assms(7) d n(1,2)
    by (auto simp: next_u32_def next_data_def next_argument_running [OF n(4,5)] advance_def get_data_ptr_def Let_def rbind_eq_Inr)
  have "load32 m (?q + 4) = Inr i"
    using assms(8) d
    by (auto simp: next_u32_def next_data_def next_argument_running [OF r3] advance_def get_data_ptr_def Let_def rbind_eq_Inr)
  then show ?thesis using n(1,3) by (simp add: algebra_simps)
qed

lemma stores_bind:
  assumes "handle_wl_registry_message e m ob rm sd = Inr ob'" "rm_signature rm = None" "rm_message rm = Some wm"
    "pm_data (rm_base rm) = 8" "message_is rm ''bind'' \<Longrightarrow> wlm_signature wm = Some ''usun''"
  shows "stores e ob ob' (\<lambda>w i. sd = CLIENT \<and> message_is rm ''bind'' \<and> c_str (drop 16 m) = Inr ''wl_seat'' \<and>
    (\<exists>pos. id_position m ''usu'' 8 = Inr pos \<and> load32 m pos = Inr w) \<and> (\<exists>s. i = Seat_info s))"
proof (cases "sd = CLIENT \<and> message_is rm ''bind''")
  case True
  then obtain a rm1 p rm2 name where r: "wldbg_resolved_message_next_argument m rm = Inr (a, rm1)" "next_data m rm1 = Inr (Some p, rm2)"
    "c_str (drop p m) = Inr name" "handle_bind e m ob rm2 name = Inr ob'"
    using assms(1) by (auto simp: handle_wl_registry_message_def rbind_eq_Inr simp del: split_paired_Ex split: option.splits)
  show ?thesis
  proof (cases "name = ''wl_seat'' \<and> oe_malloc e")
    case False
    then have "ob' = ob" using r(4) by (auto simp: handle_bind_def create_wl_seat_info_def split: if_splits)
    then show ?thesis by (simp add: stores_def)
  next
    case seat: True
    then obtain v rm3 i rm4 where s: "next_u32 m rm2 = Inr (v, rm3)" "next_u32 m rm3 = Inr (i, rm4)"
      "objects_info_put e ob i (Some (fresh_seat e v i)) = Inr ob'"
      using r(4) by (auto simp: handle_bind_def create_wl_seat_info_def rbind_eq_Inr fresh_seat_def simp del: split_paired_Ex split: option.splits)
    have "p = 16 \<and> (\<exists>pos. id_position m ''usu'' 8 = Inr pos \<and> load32 m pos = Inr i)"
      using bind_arguments [OF assms(2-4) _ r(1,2) s(1,2)] assms(5) True by blast
    then show ?thesis using True seat r(3) by (intro storesI [OF s(3)]) (auto simp: fresh_seat_def simp del: id_position.simps)
  qed
next
  case False
  then show ?thesis using assms(1) by (auto simp: handle_wl_registry_message_def stores_def)
qed

section \<open>One message\<close>

lemma strcmp_c_str: "strcmp_mem s nm = Inr True \<Longrightarrow> c_str nm = Inr t \<Longrightarrow> nul \<notin> set s \<Longrightarrow> s = t"
proof (induction s nm arbitrary: t rule: strcmp_mem.induct)
  case (3 c s b bs)
  then have b: "unat b = of_char c" "strcmp_mem s bs = Inr True" by (auto split: if_splits)
  then have "char_of (unat b) = c" by simp
  moreover have "b \<noteq> 0" using b(1) 3(4) of_char_eq_iff [of c "CHR 0x00", where ?'a = nat] by (auto simp: nul_def)
  ultimately show ?case using 3 b by (auto simp: rbind_eq_Inr)
qed auto

lemma find_interface_named:
  "find_interface im nm ps = Inr (Some q) \<Longrightarrow> c_str nm = Inr t \<Longrightarrow> (\<And>p. nul \<notin> set (intf_name (intf_at im p))) \<Longrightarrow>
     intf_name (intf_at im q) = t"
  by (induction ps) (auto simp: rbind_eq_Inr split: if_splits dest: strcmp_c_str)

lemma resolved_fields:
  assumes "wldbg_resolve_message im ro sd m = Inr (True, rm)" "load32 m 0 = Inr oid" "load32 m 4 = Inr h"
  obtains p wm where "wldbg_message_get_object ro oid = Some p" "is_valid_interface im (Some p)" "pm_id (rm_base rm) = oid"
    "pm_data (rm_base rm) = 8" "rm_signature rm = None" "rm_interface rm = Some p" "rm_message rm = Some wm"
    "unat (h AND 0xffff) < length (side_messages sd (intf_at im p))" "wm = side_messages sd (intf_at im p) ! unat (h AND 0xffff)"
  using assms
  by (auto simp: wldbg_resolve_message_def parse_message_words Let_def zero_resolved_def is_valid_interface_def rbind_eq_Inr nth_res_def
      split: option.splits if_splits)

lemma change_creates:
  assumes "protocol_described x" "tab oid = Some p" "is_valid_interface (ext_imem x) (Some p)"
    and "unat opcode < length (methods (intf_at (ext_imem x) p))"
    and "created_type (intf_name (intf_at (ext_imem x) p)) (wlm_name (methods (intf_at (ext_imem x) p) ! unat opcode)) = Some ty"
  shows "\<exists>r q. wlm_signature (methods (intf_at (ext_imem x) p) ! unat opcode) = Some (CHR ''n'' # r) \<and>
    intf_name (intf_at (ext_imem x) q) = ty \<and>
    table_change x ifs tab CLIENT m oid opcode = rbind (load32 m 8) (\<lambda>w. Inr (Some (w, q)))"
proof -
  have p: "p \<noteq> Unknown_interface" "p \<noteq> Free_entry"
    using assms(3) by (auto simp: is_valid_interface_def unknown_interface_def free_entry_def)
  have "new_id_first (ext_imem x) (methods (intf_at (ext_imem x) p) ! unat opcode) ty"
    using assms(1,4,5) unfolding protocol_described_def Let_def by blast
  then obtain r q ts where "wlm_signature (methods (intf_at (ext_imem x) p) ! unat opcode) = Some (CHR ''n'' # r)"
    "wlm_types (methods (intf_at (ext_imem x) p) ! unat opcode) = Some (Some q # ts)" "intf_name (intf_at (ext_imem x) q) = ty"
    by (auto simp: new_id_first_def)
  then show ?thesis using p assms(2,4) by (auto simp: table_change_def side_messages_def Let_def)
qed

lemma change_binds:
  assumes "protocol_described x" "tab oid = Some p" "is_valid_interface (ext_imem x) (Some p)"
    and "unat opcode < length (methods (intf_at (ext_imem x) p))" "intf_name (intf_at (ext_imem x) p) = ''wl_registry''"
    and "wlm_name (methods (intf_at (ext_imem x) p) ! unat opcode) = ''bind''"
  shows "wlm_signature (methods (intf_at (ext_imem x) p) ! unat opcode) = Some ''usun'' \<and>
    table_change x ifs tab CLIENT m oid opcode =
      rbind (id_position m ''usu'' 8) (\<lambda>pos. rbind (load32 m pos) (\<lambda>w. rbind (find_interface (ext_imem x) (drop 16 m) ifs) (\<lambda>i.
        Inr (Some (w, case i of None \<Rightarrow> Unknown_interface | Some q \<Rightarrow> q)))))"
proof -
  have p: "p \<noteq> Unknown_interface" "p \<noteq> Free_entry"
    using assms(3) by (auto simp: is_valid_interface_def unknown_interface_def free_entry_def)
  have "binds x (unat opcode) (methods (intf_at (ext_imem x) p) ! unat opcode)"
    using assms(1,4-6) unfolding protocol_described_def Let_def by blast
  then obtain ts where "opcode = ext_bind x" "wlm_signature (methods (intf_at (ext_imem x) p) ! unat opcode) = Some ''usun''"
    "wlm_types (methods (intf_at (ext_imem x) p) ! unat opcode) = Some ts" "ts ! 3 = None"
    by (auto simp: binds_def word_unat_eq_iff)
  then show ?thesis using p assms(2,4,5) by (simp add: table_change_def side_messages_def Let_def numeral_3_eq_3 del: id_position.simps)
qed

text \<open>A message that spoils the correspondence: it gives its new id, or the deleted one, to the object
  that it is itself sent to, or it gives an id to an interface for which what is still stored about
  the former object of that id is of another kind.\<close>

definition spoils :: "ext \<Rightarrow> resolved_objects \<Rightarrow> objects_info \<Rightarrow> side \<Rightarrow> bytes \<Rightarrow> bool" where
  "spoils x ro ob sd m \<longleftrightarrow>
     (\<exists>oid h i q. load32 m 0 = Inr oid \<and> load32 m 4 = Inr h \<and>
        table_change x (ro_interfaces ro @ ro_additional ro) (resolved_objects_get ro) sd m oid (h AND 0xffff) = Inr (Some (i, q)) \<and>
        (i = oid \<or> \<not> info_kind ob i (kind_ok (intf_name (intf_at (ext_imem x) q)))))"

text \<open>A message that follows a wrong buffer: an \<open>attach\<close> to a surface whose argument is the id of an
  object with information that is not one of a buffer.\<close>

definition attaches_other :: "ext \<Rightarrow> resolved_objects \<Rightarrow> objects_info \<Rightarrow> side \<Rightarrow> bytes \<Rightarrow> bool" where
  "attaches_other x ro ob sd m \<longleftrightarrow>
     (\<exists>v ro' rm p. resolve_side x sd (Some ro) m = Inr (v, Some ro') \<and>
        wldbg_resolve_message (ext_imem x) (Some ro') sd m = Inr (True, rm) \<and> rm_interface rm = Some p \<and>
        intf_name (intf_at (ext_imem x) p) = ''wl_surface'' \<and> attach_trusts m ob rm sd)"

lemma infos_match_put:
  assumes "infos_match im (Some ro) ob" "objects_wf ob" "objects_info_put e ob w (Some v) = Inr ob'"
    "\<And>p. resolved_objects_get ro w = Some p \<Longrightarrow> kind_ok (intf_name (intf_at im p)) (oi_info v)"
  shows "infos_match im (Some ro) ob'"
proof -
  have "objects_info_get ob' = (objects_info_get ob)(w := Some v)"
    using objects_info_put_get [OF _ _ assms(3)] assms(2) by (simp add: objects_wf_def)
  then show ?thesis using assms(1,4) by (auto simp: infos_match_def wldbg_message_get_object_def)
qed

lemma infos_match_stores:
  assumes "infos_match im (Some ro) ob" "objects_wf ob" "stores e ob ob' P"
    "\<And>w i p. P w i \<Longrightarrow> resolved_objects_get ro w = Some p \<Longrightarrow> kind_ok (intf_name (intf_at im p)) i"
  shows "infos_match im (Some ro) ob'"
  using assms infos_match_put unfolding stores_def by blast

lemma kind_ok_new:
  "kind_ok ''wl_surface'' (Surface_info s)" "kind_ok ''wl_buffer'' (Buffer_info b)" "kind_ok ''xdg_surface'' (Xdg_info y)"
  "kind_ok ''wl_seat'' (Seat_info t)" "kind_ok ''unknown'' i"
  by (simp_all add: kind_ok_def)

lemma gather_keeps_match:
  assumes desc: "protocol_described x" and wf: "objects_wf ob" and match: "infos_match (ext_imem x) (Some ro') ob"
    and w: "load32 m 0 = Inr oid" "load32 m 4 = Inr h"
    and c: "table_change x ifs (resolved_objects_get ro) sd m oid (h AND 0xffff) = Inr c"
    and ro': "resolved_objects_get ro' = (case c of None \<Rightarrow> resolved_objects_get ro | Some (i, q) \<Rightarrow> (resolved_objects_get ro)(i := Some q))"
    and own: "\<And>i q. c = Some (i, q) \<Longrightarrow> i \<noteq> oid"
    and gather: "gather_info e (ext_imem x) (Some ro') sd m ob = Inr ob'"
  shows "infos_match (ext_imem x) (Some ro') ob'"
proof (cases "\<exists>rm. wldbg_resolve_message (ext_imem x) (Some ro') sd m = Inr (True, rm)")
  case False
  then have "ob' = ob" using gather by (auto simp: gather_info_def rbind_eq_Inr split: if_splits)
  then show ?thesis using match by simp
next
  case True
  let ?im = "ext_imem x"
  obtain rm where rm: "wldbg_resolve_message ?im (Some ro') sd m = Inr (True, rm)" using True by blast
  obtain p wm where r: "wldbg_message_get_object (Some ro') oid = Some p" "is_valid_interface ?im (Some p)" "pm_id (rm_base rm) = oid"
    "pm_data (rm_base rm) = 8" "rm_signature rm = None" "rm_interface rm = Some p" "rm_message rm = Some wm"
    "unat (h AND 0xffff) < length (side_messages sd (intf_at ?im p))" "wm = side_messages sd (intf_at ?im p) ! unat (h AND 0xffff)"
    by (rule resolved_fields [OF rm w])
  have p: "resolved_objects_get ro oid = Some p"
    using r(1) own by (auto simp: wldbg_message_get_object_def ro' split: option.splits prod.splits)
  let ?name = "intf_name (intf_at ?im p)"
  have is_: "message_is rm n \<longleftrightarrow> wlm_name wm = n" for n by (simp add: message_is_def r(7))
  have created: "kind_ok (intf_name (intf_at ?im p')) i"
    if "sd = CLIENT" "created_type ?name (wlm_name wm) = Some ty" "next_u32 m rm = Inr (k, rm')" "kind_ok ty i"
      "resolved_objects_get ro' k = Some p'" for ty k rm' i p'
  proof -
    have s: "side_messages sd (intf_at ?im p) = methods (intf_at ?im p)" using that(1) by (simp add: side_messages_def)
    note ch = change_creates [of x "resolved_objects_get ro", OF desc p r(2) r(8) [unfolded s] that(2) [unfolded r(9) s], of ifs m]
    then obtain rest q where q: "wlm_signature wm = Some (CHR ''n'' # rest)" "intf_name (intf_at ?im q) = ty"
      "table_change x ifs (resolved_objects_get ro) CLIENT m oid (h AND 0xffff) = rbind (load32 m 8) (\<lambda>w. Inr (Some (w, q)))"
      by (auto simp: r(9) s)
    have "c = Some (k, q)" using next_u32_first [OF r(5,7,4) q(1) that(3)] q(3) c that(1) by simp
    then show ?thesis using that(4,5) q(2) by (simp add: ro')
  qed
  have bound: "kind_ok (intf_name (intf_at ?im p')) (Seat_info t)"
    if "sd = CLIENT" "?name = ''wl_registry''" "wlm_name wm = ''bind''" "c_str (drop 16 m) = Inr ''wl_seat''"
      "id_position m ''usu'' 8 = Inr pos" "load32 m pos = Inr k" "resolved_objects_get ro' k = Some p'" for pos k p' t
  proof -
    have s: "side_messages sd (intf_at ?im p) = methods (intf_at ?im p)" using that(1) by (simp add: side_messages_def)
    have "rbind (find_interface ?im (drop 16 m) ifs) (\<lambda>i. Inr (Some (k, case i of None \<Rightarrow> Unknown_interface | Some q \<Rightarrow> q))) = Inr c"
      using change_binds [of x "resolved_objects_get ro", OF desc p r(2) r(8) [unfolded s] that(2) that(3) [unfolded r(9) s], of ifs m] that(1,5,6) c by simp
    then obtain i where i: "find_interface ?im (drop 16 m) ifs = Inr i" "c = Some (k, case i of None \<Rightarrow> Unknown_interface | Some q \<Rightarrow> q)"
      by (auto simp: rbind_eq_Inr)
    have "\<And>p. nul \<notin> set (intf_name (intf_at ?im p))" using desc by (simp add: protocol_described_def Let_def)
    then show ?thesis
      using i(1) that(7) find_interface_named [of ?im "drop 16 m" ifs _ "''wl_seat''"] that(4) i(2)
      by (cases i) (auto simp: ro' kind_ok_new unknown_interface_def)
  qed
  have sig: "wlm_signature wm = Some ''usun''" if "sd = CLIENT" "?name = ''wl_registry''" "wlm_name wm = ''bind''"
    using change_binds [of x "resolved_objects_get ro", OF desc p r(2), of "h AND 0xffff"] r(8,9) that by (simp add: side_messages_def)
  have g: "gather_info e ?im (Some ro') sd m ob =
      (if ?name = ''wl_surface'' then handle_wl_surface_message e m ob rm sd
       else if ?name = ''xdg_surface'' then handle_xdg_surface_message e m ob rm sd
       else if ?name = ''wl_buffer'' then handle_wl_buffer_message e ob rm sd
       else if ?name = ''wl_compositor'' then handle_wl_compositor_message e m ob rm sd
       else if ?name = ''wl_shm_pool'' then handle_shm_pool_message e m ob rm sd
       else if ?name = ''xdg_shell'' then handle_xdg_shell_message e m ob rm sd
       else if ?name = ''wl_registry'' then handle_wl_registry_message e m ob rm sd
       else if ?name = ''wl_seat'' then handle_wl_seat_message e m ob rm sd
       else Inr ob)"
    using rm r(6) by (simp add: gather_info_def Let_def)
  note keep = infos_match_kept [OF match] and store = infos_match_stores [OF match wf]
  consider "?name = ''wl_surface''" | "?name = ''xdg_surface''" | "?name = ''wl_buffer''" | "?name = ''wl_seat''"
    | "?name = ''wl_compositor''" | "?name = ''wl_shm_pool''" | "?name = ''xdg_shell''" | "?name = ''wl_registry''" | "ob' = ob"
    using g gather by (auto split: if_splits)
  then show ?thesis
  proof cases
    case 1
    then show ?thesis using gather g by (simp add: keep kinds_kept_surface [OF wf])
  next
    case 2
    then show ?thesis using gather g by (simp add: keep kinds_kept_xdg [OF wf])
  next
    case 3
    then show ?thesis using gather g by (simp add: keep kinds_kept_buffer [OF wf])
  next
    case 4
    then show ?thesis using gather g by (simp add: keep kinds_kept_seat [OF wf])
  next
    case 5
    then have "handle_wl_compositor_message e m ob rm sd = Inr ob'" using gather g by simp
    then show ?thesis
      by (rule store [OF stores_compositor]) (use 5 created in \<open>auto simp: is_ created_type_def kind_ok_new\<close>)
  next
    case 6
    then have "handle_shm_pool_message e m ob rm sd = Inr ob'" using gather g by simp
    then show ?thesis
      by (rule store [OF stores_pool]) (use 6 created in \<open>auto simp: is_ created_type_def kind_ok_new\<close>)
  next
    case 7
    then have "handle_xdg_shell_message e m ob rm sd = Inr ob'" using gather g by simp
    then show ?thesis
      by (rule store [OF stores_xdg]) (use 7 created in \<open>auto simp: is_ created_type_def kind_ok_new\<close>)
  next
    case 8
    then have reg: "handle_wl_registry_message e m ob rm sd = Inr ob'" using gather g by simp
    show ?thesis
    proof (cases "sd = CLIENT")
      case True
      show ?thesis
        by (rule store [OF stores_bind [OF reg r(5,7,4)]]) (use 8 True sig bound in \<open>auto simp: is_\<close>)
    next
      case False
      then have "ob' = ob" using reg by (simp add: handle_wl_registry_message_def)
      then show ?thesis using match by simp
    qed
  qed (use match in simp)
qed

lemma typesafe_strcmp: "typesafe (strcmp_mem s nm)"
  by (induction s nm rule: strcmp_mem.induct) (auto simp: typesafe_Inr)

lemma typesafe_find: "typesafe (find_interface im nm ps)"
  by (induction ps) (auto intro!: typesafes typesafe_strcmp)

lemma typesafe_id_position: "typesafe (id_position m a pos)"
  by (induction m a pos rule: id_position.induct) (auto intro!: typesafes)

lemma typesafe_change: "typesafe (table_change x ifs tab sd m oid opcode)"
  by (auto simp: table_change_def Let_def split: option.splits intro!: typesafes typesafe_find typesafe_id_position)

definition matched :: "ext \<Rightarrow> resolved_objects \<Rightarrow> objects_info \<Rightarrow> bool" where
  "matched x ro ob \<longleftrightarrow> ro_wf ro \<and> objects_wf ob \<and> infos_match (ext_imem x) (Some ro) ob"

lemma infos_match_change:
  assumes "infos_match im (Some ro) ob" "resolved_objects_get ro' = (resolved_objects_get ro)(i := Some q)"
    "info_kind ob i (kind_ok (intf_name (intf_at im q)))"
  shows "infos_match im (Some ro') ob"
  using assms by (auto simp: infos_match_def wldbg_message_get_object_def info_kind_def)

lemma both_passes_step:
  assumes "imem_wf (ext_imem x)" "orderly_tables (ext_imem x)" "protocol_described x" "matched x ro ob" "8 \<le> length m"
    and "\<not> spoils x ro ob sd m" "\<not> attaches_other x ro ob sd m"
  shows "(\<exists>f. resolve_side x sd (Some ro) m = Inl f \<and> f \<noteq> TypeConfusion) \<or>
    (\<exists>v ro'. resolve_side x sd (Some ro) m = Inr (v, Some ro') \<and> typesafe (gather_info e (ext_imem x) (Some ro') sd m ob) \<and>
       (\<forall>ob'. gather_info e (ext_imem x) (Some ro') sd m ob = Inr ob' \<longrightarrow> matched x ro' ob'))"
proof -
  let ?im = "ext_imem x"
  obtain oid h where w: "load32 m 0 = Inr oid" "load32 m 4 = Inr h"
    using load32_in [of 0 m] load32_in [of 4 m] assms(5) by auto
  have inv: "ro_wf ro" "objects_wf ob" "infos_match ?im (Some ro) ob" using assms(4) by (simp_all add: matched_def)
  let ?tc = "table_change x (ro_interfaces ro @ ro_additional ro) (resolved_objects_get ro) sd m oid (h AND 0xffff)"
  note step = resolve_side_change [OF inv(1) assms(1,2) w, of sd]
  have handed: ?thesis if r: "resolve_side x sd (Some ro) m = Inr (v, Some ro')" "ro_wf ro'" "?tc = Inr c"
    "resolved_objects_get ro' = (case c of None \<Rightarrow> resolved_objects_get ro | Some (i, q) \<Rightarrow> (resolved_objects_get ro)(i := Some q))"
    for v ro' c
  proof -
    have ok: "c = Some (i, q) \<Longrightarrow> i \<noteq> oid \<and> info_kind ob i (kind_ok (intf_name (intf_at ?im q)))" for i q
      using assms(6) w r(3) by (auto simp: spoils_def)
    have match: "infos_match ?im (Some ro') ob"
    proof (cases c)
      case None
      then show ?thesis using inv(3) r(4) by (simp add: infos_match_def wldbg_message_get_object_def)
    next
      case (Some iq)
      then show ?thesis using infos_match_change [OF inv(3), of ro' "fst iq" "snd iq"] r(4) ok by (cases iq) simp
    qed
    have "typesafe (gather_info e ?im (Some ro') sd m ob)"
      by (rule gather_info_typesafe [OF inv(2) match]) (use assms(7) r(1) in \<open>auto simp: attaches_other_def\<close>)
    moreover have "matched x ro' ob'" if "gather_info e ?im (Some ro') sd m ob = Inr ob'" for ob'
      using gather_keeps_match [OF assms(3) inv(2) match w r(3,4) _ that] gather_info_wf [OF inv(2) that] r(2) ok
      by (simp add: matched_def)
    ultimately show ?thesis using r(1) by blast
  qed
  show ?thesis
  proof (cases ?tc)
    case (Inl g)
    then have "g \<noteq> TypeConfusion"
      using typesafe_change [of x "ro_interfaces ro @ ro_additional ro" "resolved_objects_get ro" sd m oid "h AND 0xffff"] by simp
    then show ?thesis using step Inl by simp
  next
    case (Inr c)
    then show ?thesis
      using step handed [OF _ _ Inr] inv(1) by (cases c) (auto simp: carried_out_def)
  qed
qed

lemma gather_run_matched:
  assumes "imem_wf (ext_imem x)" "orderly_tables (ext_imem x)" "protocol_described x"
    and "matched x ro ob" "list_all (\<lambda>(sd, m). 8 \<le> length m) ms"
  shows "(\<exists>ms1 sd m ms2 ro1 ob1. ms = ms1 @ (sd, m) # ms2 \<and> gather_run e x (ro, ob) ms1 = Inr (ro1, ob1) \<and>
      (spoils x ro1 ob1 sd m \<or> attaches_other x ro1 ob1 sd m)) \<or>
    (case gather_run e x (ro, ob) ms of Inl f \<Rightarrow> f \<noteq> TypeConfusion | Inr (ro', ob') \<Rightarrow> matched x ro' ob')"
  using assms(4,5)
proof (induction ms arbitrary: ro ob)
  case (Cons p ms)
  obtain sd m where p: "p = (sd, m)" by (cases p)
  have len: "8 \<le> length m" "list_all (\<lambda>(sd, m). 8 \<le> length m) ms" using Cons.prems(2) p by simp_all
  show ?case
  proof (cases "spoils x ro ob sd m \<or> attaches_other x ro ob sd m")
    case True
    then show ?thesis using p by (intro disjI1 exI [of _ "[]"]) auto
  next
    case False
    then consider f where "resolve_side x sd (Some ro) m = Inl f" "f \<noteq> TypeConfusion"
      | v ro' where "resolve_side x sd (Some ro) m = Inr (v, Some ro')" "typesafe (gather_info e (ext_imem x) (Some ro') sd m ob)"
        "\<And>ob'. gather_info e (ext_imem x) (Some ro') sd m ob = Inr ob' \<Longrightarrow> matched x ro' ob'"
      using both_passes_step [OF assms(1-3) Cons.prems(1) len(1), of sd e] by blast
    then show ?thesis
    proof cases
      case 1
      then show ?thesis using p by simp
    next
      case r: 2
      show ?thesis
      proof (cases "gather_info e (ext_imem x) (Some ro') sd m ob")
        case (Inl f)
        then show ?thesis using r(1,2) p by simp
      next
        case (Inr ob')
        have run: "gather_run e x (ro, ob) (p # q) = gather_run e x (ro', ob') q" for q using p r(1) Inr by simp
        from Cons.IH [OF r(3) [OF Inr] len(2)] show ?thesis
        proof (rule disjE, goal_cases)
          case 1
          then obtain ms1 sd' m' ms2 ro1 ob1 where "ms = ms1 @ (sd', m') # ms2" "gather_run e x (ro', ob') ms1 = Inr (ro1, ob1)"
            "spoils x ro1 ob1 sd' m' \<or> attaches_other x ro1 ob1 sd' m'"
            by blast
          then show ?case by (intro disjI1 exI [of _ "p # ms1"]) (auto simp: run)
        next
          case 2
          then show ?case unfolding run by (rule disjI2)
        qed
      qed
    qed
  qed
qed simp

lemma matched_start:
  assumes "ro_wf ro"
  shows "matched x ro create_objects_info"
proof -
  have "objects_info_get create_objects_info k = None" for k
    by (simp add: create_objects_info_def objects_info_get_def ids.get_init)
  then show ?thesis using assms objects_wf_create by (simp add: matched_def infos_match_def)
qed

section \<open>A seat that leaves its information behind\<close>

text \<open>Object 1 is the registry and object 2 a \<open>wl_drm\<close>; the other interfaces are a seat and a buffer.\<close>

definition reuse_imem :: imem where
  "reuse_imem n =
     (if n = 0 then sample_intf ''wl_registry'' [mk_message ''bind'' ''usun'' [None, None, None, None]]
      else if n = 1 then sample_intf ''wl_seat'' []
      else if n = 2 then wl_drm_interface (\<lambda>_. Iface 3)
      else (sample_intf ''wl_buffer'' [mk_message ''destroy'' '''' []])\<lparr>event_count := 1, events := [mk_message ''release'' '''' []]\<rparr>)"

definition reuse_objects :: resolved_objects where
  "reuse_objects = \<lparr>ro_client = \<lparr>map_count = 3, map_data = \<lparr>arr_size = 24, arr_alloc = 32,
     arr_data = [None, Some (Iface 0), Some (Iface 2), None]\<rparr>\<rparr>,
     ro_server = wldbg_ids_map_init, ro_interfaces = [Iface 1], ro_additional = []\<rparr>"

lemma reuse_imem_wf: "imem_wf reuse_imem"
  using protocol_tables_wf by (simp add: imem_wf_def reuse_imem_def) (simp add: intf_wf_def sample_intf_def)

lemma reuse_described: "protocol_described (sample_ext reuse_imem)" "orderly_tables reuse_imem"
  unfolding protocol_described_def orderly_tables_def
proof safe
  fix p
  show "nul \<in> set (intf_name (intf_at (ext_imem (sample_ext reuse_imem)) p)) \<Longrightarrow> False"
    by (cases p) (simp_all add: nul_def free_entry_def unknown_interface_def reuse_imem_def sample_intf_def wl_drm_interface_def split: if_splits)
  show "list_all orderly (methods (intf_at reuse_imem p))" "list_all orderly (events (intf_at reuse_imem p))"
    by (cases p; simp add: free_entry_def unknown_interface_def reuse_imem_def sample_intf_def wl_drm_interface_def
      wl_drm_requests_def wl_drm_events_def mk_message_def orderly_def drm_types_def Let_def)+
  fix n
  assume "n < length (methods (intf_at (ext_imem (sample_ext reuse_imem)) p))"
  then show "let name = intf_name (intf_at (ext_imem (sample_ext reuse_imem)) p); wm = methods (intf_at (ext_imem (sample_ext reuse_imem)) p) ! n in
      (\<forall>ty. created_type name (wlm_name wm) = Some ty \<longrightarrow> new_id_first (ext_imem (sample_ext reuse_imem)) wm ty) \<and>
      (name = ''wl_registry'' \<and> wlm_name wm = ''bind'' \<longrightarrow> binds (sample_ext reuse_imem) n wm)"
    by (cases p) (auto simp: free_entry_def unknown_interface_def reuse_imem_def sample_intf_def wl_drm_interface_def created_type_def
      binds_def mk_message_def Let_def split: if_splits)
qed

lemma reuse_objects_wf: "ro_wf reuse_objects"
proof -
  have "arr_wf \<lparr>arr_size = 24, arr_alloc = 32, arr_data = [None, Some (Iface 0), Some (Iface 2), None]\<rparr>"
    by (auto simp: arr_wf_def cell_bytes_def intro: exI [of _ 5])
  then show ?thesis
    by (simp add: ro_wf_def ids_map_wf_init reuse_objects_def) (simp add: ids_map_wf_def wldbg_ids_map_init_def WL_SERVER_ID_START_def)
qed

lemma reuse_get: "resolved_objects_get reuse_objects 1 = Some (Iface 0)" "resolved_objects_get reuse_objects 2 = Some (Iface 2)"
  by (simp_all add: resolved_objects_get_def WL_SERVER_ID_START_def wldbg_ids_map_get_def word_le_nat_alt reuse_objects_def)

text \<open>The client binds the seat as object 3; later it makes a buffer with the same id; the release of
  that buffer is written into the information of the seat.\<close>

definition reuse_session :: "(side \<times> bytes) list" where
  "reuse_session = [(CLIENT, bind_seat 1 0 5 3), (CLIENT, message_bytes 2 1 (WWord 3 # map WWord [0, 640, 480, 2560, 1])),
     (SERVER, message_bytes 3 0 [])]"

lemma message_header:
  assumes "opcode < 2 ^ 16"
  shows "load32 (message_bytes oid opcode as) 0 = Inr oid" "load32 (message_bytes oid opcode as) 4 =
      Inr (header_word (of_nat (8 + length (wire_body as))) opcode)"
    "header_word sz opcode AND 0xffff = opcode"
  using message_words [of oid opcode as "[]"] opcode_masked [OF assms] by simp_all

lemma load32_first: "load32 (message_bytes oid opcode (WWord w # as)) 8 = Inr w"
  using load32_at [of "bytes32 oid @ bytes32 (header_word (of_nat (8 + length (wire_body (WWord w # as)))) opcode)" w "wire_body as"]
  by (simp add: message_bytes_def)

lemma known_message_reads:
  assumes "imem_wf im" "known im ro sd oid opcode iface name sg" "sg = ''''"
  shows "\<exists>rm p. wldbg_resolve_message im (Some ro) sd (message_bytes oid opcode []) = Inr (True, rm) \<and> pm_id (rm_base rm) = oid \<and>
    rm_interface rm = Some p \<and> intf_name (intf_at im p) = iface \<and> (\<forall>n. message_is rm n \<longleftrightarrow> n = name)"
  using known_message [OF assms(1,2), of "[]" "[]"] assms(3) by auto

lemma bind_seat_id: "rbind (id_position (bind_seat oid nm v i) ''usu'' 8) (load32 (bind_seat oid nm v i)) = Inr i"
proof -
  have "list_all2 wire_fits (map (\<lambda>c. (c, False)) ''usu'') [WWord nm, WBlob (str_bytes ''wl_seat'' @ [0]), WWord v]"
    by (simp add: wire_fits_def str_bytes_def)
  then show ?thesis
    using get_new_id_message [of "''usu''" "[WWord nm, WBlob (str_bytes ''wl_seat'' @ [0]), WWord v]" "[]" oid 0 i "[]" "[]"]
      get_new_id_position [of "''usu''" "[]" "bind_seat oid nm v i" 2]
    by (simp add: bind_seat_def plain_before_def del: id_position.simps)
qed

lemma bind_seat_name:
  assumes "intf_name (intf_at im p) = ''wl_seat''"
  shows "find_interface im (drop 16 (bind_seat oid nm v i)) [p] = Inr (Some p)"
proof -
  have "drop 16 (bind_seat oid nm v i) = str_bytes ''wl_seat'' @ 0 # (drop 8 (drop 4 (wire_bytes (WBlob (str_bytes ''wl_seat'' @ [0])))) @
      bytes32 v @ bytes32 i)"
    by (simp add: bind_seat_def message_bytes_def wire_body_def str_bytes_def)
  then show ?thesis using assms strcmp_mem_terminated [of "''wl_seat''" "''wl_seat''"] by (simp add: nul_def)
qed

lemma gather_other:
  assumes "imem_wf im" "8 \<le> length m" "load32 m 0 = Inr oid" "resolved_objects_get ro oid = Some p" "intf_name (intf_at im p) = ''wl_drm''"
  shows "gather_info e im (Some ro) sd m ob = Inr ob"
proof -
  obtain ok rm where r: "wldbg_resolve_message im (Some ro) sd m = Inr (ok, rm)"
    "ok \<Longrightarrow> wldbg_message_get_object (Some ro) (pm_id (rm_base rm)) = Some (the (rm_interface rm)) \<and> rm_interface rm \<noteq> None"
    "ok \<Longrightarrow> wldbg_parse_message m = Inr (True, rm_base rm)"
    using resolve_message_outcome [OF assms(1,2), of "Some ro" sd] by auto
  show ?thesis
  proof (cases ok)
    case True
    then have "pm_id (rm_base rm) = oid" using r(3) assms(3) by (auto simp: wldbg_parse_message_def rbind_eq_Inr Let_def split: if_splits dest!: arg_cong [where f = pm_id])
    then have "rm_interface rm = Some p" using r(2) True assms(4) by (auto simp: wldbg_message_get_object_def)
    then show ?thesis using r(1) assms(5) by (simp add: gather_info_def)
  qed (use r(1) in \<open>simp add: gather_info_def\<close>)
qed

lemma sample_carried_out:
  assumes "carried_out (sample_ext im) ro i q r"
  obtains ro' where "r = Inr (PASS_NEXT, Some ro')" "ro_wf ro'" "resolved_objects_get ro' = (resolved_objects_get ro)(i := Some q)"
    "ro_interfaces ro' = ro_interfaces ro" "ro_additional ro' = ro_additional ro"
  using assms by (auto simp: carried_out_def)

lemma reuse_confuses: "gather_run sample_env (sample_ext reuse_imem) (reuse_objects, create_objects_info) reuse_session = Inl TypeConfusion"
proof -
  let ?x = "sample_ext reuse_imem" and ?b = "bind_seat 1 0 5 3" and ?c = "message_bytes 2 1 (WWord 3 # map WWord [0, 640, 480, 2560, 1])"
    and ?r = "message_bytes 3 0 []"
  have im: "imem_wf (ext_imem ?x)" "orderly_tables (ext_imem ?x)" using reuse_imem_wf reuse_described(2) by simp_all
  have ops: "(0 :: u32) < 2 ^ 16" "(1 :: u32) < 2 ^ 16" by simp_all
  note step = resolve_side_change [OF _ im] and hd = message_header [OF ops(1)] message_header [OF ops(2)]
  have hb: "load32 ?b 0 = Inr 1" "load32 ?b 4 = Inr (header_word (of_nat (8 + length (wire_body [WWord 0, WBlob (str_bytes ''wl_seat'' @ [0]), WWord 5, WWord 3]))) 0)"
    unfolding bind_seat_def by (rule hd)+
  have "table_change ?x [Iface 1] (resolved_objects_get reuse_objects) CLIENT ?b 1 0 = Inr (Some (3, Iface 1))"
  proof -
    have "(let m = ?b in rbind (rbind (id_position m ''usu'' 8) (load32 m)) (\<lambda>w. rbind (find_interface reuse_imem (drop 16 m) [Iface 1]) (\<lambda>i.
        Inr (Some (w, case i of None \<Rightarrow> Unknown_interface | Some q \<Rightarrow> q))))) = Inr (Some (3, Iface 1))"
      using bind_seat_name [of reuse_imem "Iface 1"] unfolding Let_def bind_seat_id by (simp add: reuse_imem_def sample_intf_def)
    then show ?thesis
      using change_binds [of ?x "resolved_objects_get reuse_objects", OF reuse_described(1) reuse_get(1), of 0 "[Iface 1]" ?b]
      by (simp add: is_valid_interface_def reuse_imem_def sample_intf_def mk_message_def rbind_assoc Let_def del: id_position.simps)
  qed
  then have "carried_out ?x reuse_objects 3 (Iface 1) (resolve_side ?x CLIENT (Some reuse_objects) ?b)"
    using step [OF reuse_objects_wf hb, of CLIENT] hd(3) by (simp add: reuse_objects_def)
  then obtain ro1 where ro1: "resolve_side ?x CLIENT (Some reuse_objects) ?b = Inr (PASS_NEXT, Some ro1)" "ro_wf ro1"
    "resolved_objects_get ro1 = (resolved_objects_get reuse_objects)(3 := Some (Iface 1))"
    by (rule sample_carried_out)
  have known1: "known reuse_imem ro1 CLIENT 1 0 ''wl_registry'' ''bind'' ''usun''"
    using reuse_get(1) by (simp add: known_def wldbg_message_get_object_def ro1(3) is_valid_interface_def reuse_imem_def sample_intf_def
      side_count_def side_messages_def mk_message_def nul_def)
  obtain ob1 where ob1: "gather_info sample_env reuse_imem (Some ro1) CLIENT ?b create_objects_info = Inr ob1"
    "objects_info_get ob1 3 = Some (fresh_seat sample_env 5 3)"
    using gather_bind_seat [OF reuse_imem_wf known1 _ _ refl, of sample_env 3 0 5 create_objects_info]
      objects_info_put_stores [OF objects_wf_create, of sample_env 3 "Some (fresh_seat sample_env 5 3)"]
    by (auto simp: sample_env_def)
  have wf1: "objects_wf ob1" using gather_info_wf [OF objects_wf_create ob1(1)] .
  have g2: "resolved_objects_get ro1 2 = Some (Iface 2)" by (simp add: ro1(3) reuse_get)
  have "table_change ?x (ro_interfaces ro1 @ ro_additional ro1) (resolved_objects_get ro1) CLIENT ?c 2 1 = Inr (Some (3, Iface 3))"
    by (simp add: table_change_def g2 side_messages_def reuse_imem_def wl_drm_interface_def wl_drm_requests_def mk_message_def
        drm_types_def Let_def load32_first)
  then have "carried_out ?x ro1 3 (Iface 3) (resolve_side ?x CLIENT (Some ro1) ?c)"
    using step [OF ro1(2) hd(4) [of 2 "WWord 3 # map WWord [0, 640, 480, 2560, 1]"] hd(5), of CLIENT] unfolding hd(6)
    by (simp del: list.map)
  then obtain ro2 where ro2: "resolve_side ?x CLIENT (Some ro1) ?c = Inr (PASS_NEXT, Some ro2)" "ro_wf ro2"
    "resolved_objects_get ro2 = (resolved_objects_get ro1)(3 := Some (Iface 3))"
    by (rule sample_carried_out)
  have ob2: "gather_info sample_env reuse_imem (Some ro2) CLIENT ?c ob1 = Inr ob1"
    by (rule gather_other [OF reuse_imem_wf _ hd(4), where p = "Iface 2"])
       (simp_all add: length_message_bytes ro2(3) g2 reuse_imem_def wl_drm_interface_def)
  have g3: "resolved_objects_get ro2 3 = Some (Iface 3)" by (simp add: ro2(3))
  have "table_change ?x (ro_interfaces ro2 @ ro_additional ro2) (resolved_objects_get ro2) SERVER ?r 3 0 = Inr None"
    by (simp add: table_change_def g3 side_messages_def reuse_imem_def sample_intf_def mk_message_def Let_def)
  then have r3: "resolve_side ?x SERVER (Some ro2) ?r = Inr (PASS_NEXT, Some ro2)"
    using step [OF ro2(2) hd(1) [of 3 "[]"] hd(2), of SERVER] unfolding hd(3) by simp
  have known3: "known reuse_imem ro2 SERVER 3 0 ''wl_buffer'' ''release'' ''''"
    by (simp add: known_def wldbg_message_get_object_def g3 is_valid_interface_def reuse_imem_def sample_intf_def
      side_count_def side_messages_def mk_message_def)
  obtain rm p where rm: "wldbg_resolve_message reuse_imem (Some ro2) SERVER ?r = Inr (True, rm)" "pm_id (rm_base rm) = 3"
    "rm_interface rm = Some p" "intf_name (intf_at reuse_imem p) = ''wl_buffer''" "\<forall>n. message_is rm n \<longleftrightarrow> n = ''release''"
    using known_message_reads [OF reuse_imem_wf known3 refl] by (elim exE conjE) (rule that)
  have "gather_info sample_env reuse_imem (Some ro2) SERVER ?r ob1 = handle_wl_buffer_message sample_env ob1 rm SERVER"
    using rm(1,3,4) by (simp add: gather_info_def)
  then have t: "gather_info sample_env reuse_imem (Some ro2) SERVER ?r ob1 = Inl TypeConfusion"
    using rm(2,5) ob1(2) by (simp add: handle_wl_buffer_message_def set_released_def as_buffer_def fresh_seat_def)
  show ?thesis
    unfolding reuse_session_def gather_run.simps ro1(1) ro2(1) r3 rbind_Inr prod.case sample_ext_simps(1) ob1(1) ob2 t option.case rbind_Inl ..
qed

section \<open>Properties\<close>

text \<open>C24: What is gathered about an object fits its interface through a whole session.  The resolve
  pass and then the objinfo pass see any messages of at least a header, from either side, well formed
  or not, from a table of objects with nothing gathered yet; the creating requests are described as in
  the protocols.  Then the struct of one kind of object is never taken for another, and every
  information stored for a known object stays one of the kind that its interface asks for, unless a
  message spoils it: one that binds or deletes the very object it is sent to, one that gives an id to
  another interface while information of another kind is still stored under it, as happens with seats,
  whose information is never removed, or an \<open>attach\<close> that names an object which is not a buffer.\<close>

theorem gathered_kinds_fit:
  assumes "imem_wf (ext_imem x)" "orderly_tables (ext_imem x)" "protocol_described x" "ro_wf ro"
    and "list_all (\<lambda>(sd, m). 8 \<le> length m) ms"
  shows "(\<exists>ms1 sd m ms2 ro1 ob1. ms = ms1 @ (sd, m) # ms2 \<and> gather_run e x (ro, create_objects_info) ms1 = Inr (ro1, ob1) \<and>
      (spoils x ro1 ob1 sd m \<or> attaches_other x ro1 ob1 sd m)) \<or>
    (case gather_run e x (ro, create_objects_info) ms of
       Inl f \<Rightarrow> f \<noteq> TypeConfusion
     | Inr (ro', ob') \<Rightarrow> infos_match (ext_imem x) (Some ro') ob')"
  using gather_run_matched [OF assms(1-3) matched_start [OF assms(4)] assms(5), of e]
  by (auto simp: matched_def split: sum.splits)

theorem gathered_kinds_fit_witness:
  "gather_run sample_env (sample_ext reuse_imem) (reuse_objects, create_objects_info) reuse_session = Inl TypeConfusion \<and>
   (\<exists>ms1 sd m ms2 ro1 ob1. reuse_session = ms1 @ (sd, m) # ms2 \<and>
      gather_run sample_env (sample_ext reuse_imem) (reuse_objects, create_objects_info) ms1 = Inr (ro1, ob1) \<and>
      (spoils (sample_ext reuse_imem) ro1 ob1 sd m \<or> attaches_other (sample_ext reuse_imem) ro1 ob1 sd m))"
proof -
  have im: "imem_wf (ext_imem (sample_ext reuse_imem))" "orderly_tables (ext_imem (sample_ext reuse_imem))"
    using reuse_imem_wf reuse_described(2) by simp_all
  have "list_all (\<lambda>(sd, m). 8 \<le> length m) reuse_session" by (simp add: reuse_session_def bind_seat_def length_message_bytes)
  from gathered_kinds_fit [OF im reuse_described(1) reuse_objects_wf this, of sample_env]
  show ?thesis using reuse_confuses by simp
qed

end
