(* ===== verification/Spec2Isabelle.thy ===== *)
theory Spec2Isabelle
  imports Startup Interactive_Facts Objinfo_Facts Print_Facts Wl_List Through Demarshal_Safety Own_Passes Help Unit_Tests Ownership Example_Pass Debug Watching Editing Objinfo_Run
begin

text \<open>
  \<^bold>\<open>wldbg, the Wayland protocol debugger.\<close>  wldbg sits between the clients of a Wayland compositor and
  the compositor.  It reads what one side sends, cuts it into messages, shows each message to a list
  of passes and writes it to the other side.  Passes are shared objects or built in: the resolve pass
  keeps a table of the objects of every connection, the objinfo pass gathers their state, the
  interactive pass stops at messages and talks to the user, the dump pass prints.  This development
  is a shallow embedding of the C code under \<^verbatim>\<open>src/\<close>, \<^verbatim>\<open>passes/\<close>, \<^verbatim>\<open>protocols/\<close> and
  \<^verbatim>\<open>wayland/\<close> (a copy of parts of libwayland that is built into the program).  Definitions have the
  names of the C functions they stand for.

  \<^bold>\<open>Conventions\<close> (theory \<open>Wldbg_Prelude\<close>)

    \<^item> Integers keep their width: \<open>u8\<close>, \<open>u32\<close>, \<open>u64\<close> are words and wrap around; \<open>sint\<close> reads the
      signed types.
    \<^item> A C object is the list of its bytes or cells, a pointer into it an offset or the rest of the
      list.  Where aliasing matters there is a store: the links of \<open>Wl_List\<close>, the objects of
      \<open>Closure\<close>, the heap of \<open>Sockets\<close>, the callbacks and connections of \<open>Dispatch\<close>.
    \<^item> What C leaves undefined or what ends the process is a value of the type \<open>fault\<close>: an access out of
      bounds, a null pointer, uninitialised memory, memory that was freed, a struct taken for another
      one, a failed assertion.  A function that can fault returns \<open>'a res\<close>, a sum with \<open>fault\<close> on the
      left.  The error returns of the code are ordinary results.
    \<^item> Loops that need not end are \<open>partial_function (option)\<close>: \<open>None\<close> is not returning.  That code
      returns is always stated and proved as such.
    \<^item> What is not in the repository is a parameter: the kernel, \<open>malloc\<close>, the dynamic linker, the
      regular expressions, readline's absence, the interfaces and constants generated by libwayland.
      System calls that are made in a loop are scripts, lists of what successive calls return.  A
      function that reads to the end of its script returns \<open>None\<close>; the theorems on termination say how
      long a script is enough.  No fuel is used anywhere else.

  \<^bold>\<open>Parts, bottom up\<close>

    \<^item> Data structures of \<^verbatim>\<open>wayland/wayland-util.c\<close> and \<^verbatim>\<open>src/wldbg-ids-map.c\<close>: \<open>Wl_Array\<close> (growable
      arrays, and exactly when the doubling loop of \<open>wl_array_add\<close> never ends), \<open>Wl_List\<close> (doubly linked
      lists on the pointers, which refine lists of lists; the loop that may release its element and the
      one that may not), \<open>Wl_Map\<close> (the id allocator with its free list inside the entries, which refines
      a finite map), \<open>Ids_Map\<close> (ids to pointers, with the locale \<open>id_table\<close> for its clients).
    \<^item> \<open>Wl_Buffer\<close>: the ring buffer of \<^verbatim>\<open>wayland/connection.c\<close> with free-running counters; the locale
      \<open>byte_fifo\<close> is the queue that the rest of the connection relies on.  \<open>Connection\<close>: reading,
      writing, flushing, file descriptors; what is sent is recorded in the state.  \<open>Wl_Os\<close>:
      \<^verbatim>\<open>wayland/wayland-os.c\<close>, descriptors that are closed on \<open>exec\<close>.
    \<^item> \<open>Closure\<close> with \<open>Closure_Facts\<close>, \<open>Closure_Calls\<close>, \<open>Demarshal_Safety\<close>: the second half of
      \<^verbatim>\<open>wayland/connection.c\<close>.  A closure is serialised into a buffer that is exactly large enough;
      what is serialised is demarshalled again; no message of a hostile peer makes the demarshalling
      leave the message, but for one word that is stated.
    \<^item> \<open>Protocol\<close>, \<open>Resolve\<close>, \<open>Resolve_Pass\<close>: the tables of interfaces, the objects of a connection
      (\<^verbatim>\<open>src/resolve.c\<close>) and the pass that maintains them (\<^verbatim>\<open>src/resolve-pass.c\<close>).  \<open>Resolve_Run\<close>: over a
      session its growing tables are a partial function that the messages change.
      \<open>Parse_Message\<close>, \<open>Message_Args\<close>: the header of a message, its resolution and the iterator over its
      arguments (\<^verbatim>\<open>src/parse-message.c\<close>), equal to one recursion over the signature.  For a message without
      descriptors it is inverse to the encoding of a sender; behind a descriptor, for which the iterator
      skips a word although nothing of it is in the message, it reads what \<open>carried\<close> says.  \<open>Fixed\<close>: fixed-point numbers through the bits of a double, as exact division
      and rounding.  \<open>Print\<close>, \<open>Print_Facts\<close>: the line printed for a message (\<^verbatim>\<open>src/print.c\<close>).
    \<^item> \<open>Objinfo\<close>, \<open>Objinfo_Facts\<close>: what is gathered about buffers, surfaces, shell surfaces and seats
      (\<^verbatim>\<open>src/objinfo/\<close>, \<^verbatim>\<open>src/objinfo-pass.c\<close>), with the double buffering of surfaces as its
      specification.  \<open>Objinfo_Run\<close>: together with the resolve pass over a session, what is gathered about
      an object fits its interface, until an id is used again in a way that is stated.
    \<^item> \<open>Process\<close>, \<open>Process_Facts\<close>: from \<open>dispatch_messages\<close> to the other side (\<^verbatim>\<open>src/wldbg.c\<close>).  The
      locale \<open>guarded_passes\<close> is what forwarding needs of the passes, \<open>transparent_passes\<close> the case without
      an invariant; the resolve pass is shown to satisfy it.  \<open>Through\<close>: the libraries of client and server with wldbg between them.
    \<^item> \<open>Sockets\<close>, \<open>Dispatch\<close>, \<open>Event_Loop\<close>: the sockets of server mode (\<^verbatim>\<open>src/sockets.c\<close>), the event
      loop (\<^verbatim>\<open>src/loop.c\<close>, \<^verbatim>\<open>src/wldbg.c\<close>) as steps over a script of events, and its invariant between
      the kernel's interest list, the callbacks and the connections.
    \<^item> \<open>Util_Opts\<close>, \<open>Pass_Loading\<close>, \<open>Startup\<close>: \<^verbatim>\<open>src/util.c\<close>, \<^verbatim>\<open>src/getopt.c\<close>, \<^verbatim>\<open>src/passes.c\<close> and
      the beginning and end of \<^verbatim>\<open>src/wldbg.c\<close>.
    \<^item> \<open>Interactive_Base\<close>, \<open>Breakpoints\<close>, \<open>Filters\<close>, \<open>Autocmds\<close>, \<open>Send_Edit\<close>, \<open>Interactive\<close>,
      \<open>Interactive_Facts\<close>, \<open>Editing\<close>, \<open>Info\<close>, \<open>Help\<close>: interactive mode (\<^verbatim>\<open>src/interactive/\<close>), with the
      way of an edited message from the file of the editor to what is forwarded in \<open>Editing\<close>.  Breakpoints,
      filters and automatic commands are three interpretations of the locale \<open>id_registry\<close>.  The build
      is the one without readline.
    \<^item> \<open>Dump\<close> (\<^verbatim>\<open>passes/dump.c\<close>), \<open>Example_Pass\<close> (\<^verbatim>\<open>passes/example.c\<close>) and \<open>List_Pass\<close>
      (\<^verbatim>\<open>src/list-pass.c\<close>).  \<open>Own_Passes\<close>: the resolve, objinfo and dump passes in one list over a shared
      state, which is transparent too; what is dumped is what is forwarded.  \<open>Watching\<close>: the resolve pass
      and the interactive pass in one list, with the printing of messages; a session that runs free is
      guarded, and what it shows is a recursion over the messages that it forwards.
    \<^item> \<open>Ownership\<close>: the functions that release memory, over a heap of blocks; the locale \<open>owner\<close> is a kind
      of object with what it owns, and tearing down releases exactly that.  \<open>Debug\<close>: the macros and
      functions of the build for debugging (\<^verbatim>\<open>src/debug.c\<close>).
    \<^item> \<open>Test_Runner\<close>, \<open>Unit_Tests\<close>: the runner of the tests with its counters
      (\<^verbatim>\<open>wayland/test-runner.c\<close>) and the tests (\<^verbatim>\<open>tests/\<close>) as programs over the definitions of the other
      theories.

  \<^bold>\<open>State.\<close>  \<open>struct wl_connection\<close> is the record \<open>wl_connection\<close>, \<open>struct wldbg_message\<close> is \<open>wmessage\<close> in
  the main loop, \<open>mctx\<close> in interactive mode and \<open>dump_msg\<close> in the dump pass, each with what is used of
  it.  \<open>struct wldbg\<close> is split by its users: \<open>wldbg\<close> (the flags and the state of the passes), \<open>evloop\<close>
  (descriptors, callbacks, connections, server mode), \<open>wldbgi\<close> (interactive mode, which shares the flags
  through \<open>load_message\<close> and \<open>store_message\<close>).  \<open>struct resolved_objects\<close> and \<open>struct
  wldbg_objects_info\<close> are records over \<open>ids_map\<close>.

  \<^bold>\<open>Lemmas.\<close>  Each theory has, behind its definitions, the effect of every operation on well-formed
  states, its invariant and the preservation of it, and at its end the properties with a closed
  instance of each that has hypotheses.  The theories whose names end in \<open>Facts\<close> only hold lemmas.  Where
  the code does not do what it means to do, the property says what it does: descriptors that are copied
  from the wrong place or dropped, arguments read from the wrong word behind a descriptor, information
  that outlives its object, a message of size zero that is never left, unchecked sizes, errors in
  the set-up of a connection, the removal of an automatic command while it runs.

  \<^bold>\<open>Bounds.\<close>  Buffers have 4096 bytes as in the code, a closure at most 20 arguments, a flush 28
  descriptors; theorems that need a message in one buffer say so.  A script of \<open>sendmsg\<close> results is long
  enough when it has as many successful calls as bytes are to be sent (\<open>accepted\<close>), since each takes at
  least one.

  \<^bold>\<open>Not modelled.\<close>  The debug output at its places in the functions (what the macros \<open>dbg\<close> and \<open>vdbg\<close>
  print is in \<open>Debug\<close>), messages on the standard error and \<open>perror\<close>; the release of memory inside the
  functions that are modelled elsewhere, except where a double release or a use after release depends on
  it (the functions whose purpose is to release are in \<open>Ownership\<close>); the text of \<^verbatim>\<open>wldbg --help\<close> and of
  the help of the dump pass; the build with readline; the inline assembly of the trap, which is a result
  of its own.  Threads do not occur in the program; signals do, as events
  of the loop through a \<open>signalfd\<close>.
\<close>

end
